(* ===== verification/Prelude.thy ===== *)
theory Prelude
  imports Complex_Main "HOL-Library.AList" "HOL-Library.Product_Lexorder"
begin

text \<open>
  What the component theories share: the simp collections of the library, JavaScript's
  standard library as the sources use it (template literals over integers, string trimming
  and case folding, insertion-ordered maps, optional chaining with \<open>??\<close> and \<open>||\<close>), the
  error monad of the throwing functions, and list and sum lemmas.
\<close>

section \<open>Collections\<close>

named_theorems money_simps \<open>decimal operations rewritten to exact arithmetic on paise\<close>
named_theorems guard_simps \<open>how an operation extends a guard context\<close>
named_theorems row_simps \<open>fields of the rows an operation emits\<close>

section \<open>Errors as values\<close>

text \<open>A function of the sources that may throw is a function into \<open>'e + 'a\<close>; \<open>Inl\<close> is the exception.\<close>

definition e_bind :: "'e + 'a \<Rightarrow> ('a \<Rightarrow> 'e + 'b) \<Rightarrow> 'e + 'b" where
  "e_bind m f = (case m of Inl e \<Rightarrow> Inl e | Inr a \<Rightarrow> f a)"

lemma e_bind_simps [simp]:
  "e_bind (Inl e) f = Inl e"
  "e_bind (Inr a) f = f a"
  by (simp_all add: e_bind_def)

lemma e_bind_Inr_conv: "e_bind m f = Inr b \<longleftrightarrow> (\<exists>a. m = Inr a \<and> f a = Inr b)"
  by (cases m) auto

text \<open>\<open>throw_if\<close> is the shape \<open>if (c) throw e\<close> of a guard that returns nothing.\<close>

definition throw_if :: "bool \<Rightarrow> 'e \<Rightarrow> 'e + unit" where
  "throw_if c e = (if c then Inl e else Inr ())"

lemma throw_if_Inr [simp]: "throw_if c e = Inr u \<longleftrightarrow> \<not> c"
  by (simp add: throw_if_def)

lemma throw_if_simps [simp]:
  "throw_if True e = Inl e"
  "throw_if False e = Inr ()"
  by (simp_all add: throw_if_def)

section \<open>JavaScript strings\<close>

text \<open>\<open>String(n)\<close> and \<open>`${n}`\<close> for an integer \<open>n\<close>.\<close>

definition digit_char :: "nat \<Rightarrow> char" where
  "digit_char d = char_of (48 + d)"

fun show_nat :: "nat \<Rightarrow> string" where
  "show_nat n = (if n < 10 then [digit_char n] else show_nat (n div 10) @ [digit_char (n mod 10)])"

declare show_nat.simps [simp del]

definition show_int :: "int \<Rightarrow> string" where
  "show_int i = (if i < 0 then CHR ''-'' # show_nat (nat (- i)) else show_nat (nat i))"

text \<open>Reading the digits back: \<open>Number(s)\<close> on a string of digits.\<close>

definition is_digit :: "char \<Rightarrow> bool" where
  "is_digit c \<longleftrightarrow> 48 \<le> (of_char c :: nat) \<and> (of_char c :: nat) \<le> 57"

definition read_nat :: "string \<Rightarrow> nat" where
  "read_nat s = foldl (\<lambda>n c. 10 * n + (of_char c - 48)) 0 s"

lemma of_digit_char [simp]: "d < 10 \<Longrightarrow> (of_char (digit_char d) :: nat) = 48 + d"
  by (simp add: digit_char_def)

lemma read_nat_snoc: "read_nat (s @ [c]) = 10 * read_nat s + (of_char c - 48)"
  by (simp add: read_nat_def)

lemma read_show_nat [simp]: "read_nat (show_nat n) = n"
proof (induction n rule: show_nat.induct)
  case (1 n)
  show ?case
  proof (cases "n < 10")
    case True
    then show ?thesis by (subst show_nat.simps) (simp add: read_nat_def)
  next
    case False
    with 1 have "read_nat (show_nat (n div 10)) = n div 10" by simp
    with False show ?thesis by (subst show_nat.simps) (simp add: read_nat_snoc)
  qed
qed

lemma show_nat_inject [simp]: "show_nat m = show_nat n \<longleftrightarrow> m = n"
  by (metis read_show_nat)

lemma show_nat_digits: "c \<in> set (show_nat n) \<Longrightarrow> is_digit c"
proof (induction n rule: show_nat.induct)
  case (1 n)
  have d: "is_digit (digit_char k)" if "k < 10" for k
    using that by (simp add: is_digit_def)
  show ?case
  proof (cases "n < 10")
    case True
    with "1.prems" d show ?thesis by (auto simp: show_nat.simps [of n])
  next
    case False
    with "1.prems" have "c \<in> set (show_nat (n div 10)) \<or> c = digit_char (n mod 10)"
      by (auto simp: show_nat.simps [of n])
    with "1.IH" False d show ?thesis by auto
  qed
qed

lemma show_nat_not_minus: "show_nat m \<noteq> CHR ''-'' # s"
  using show_nat_digits [of "CHR ''-''" m] by (auto simp: is_digit_def)

lemma show_int_inject [simp]: "show_int i = show_int j \<longleftrightarrow> i = j"
  by (auto simp: show_int_def show_nat_not_minus show_nat_not_minus [symmetric] split: if_splits)

text \<open>\<open>trim\<close>, \<open>toLowerCase\<close>, \<open>toUpperCase\<close> and \<open>startsWith\<close>, on the ASCII range.\<close>

definition is_space :: "char \<Rightarrow> bool" where
  "is_space c \<longleftrightarrow> (of_char c :: nat) \<in> {9, 10, 11, 12, 13, 32}"

definition js_trim :: "string \<Rightarrow> string" where
  "js_trim s = rev (dropWhile is_space (rev (dropWhile is_space s)))"

definition lower_char :: "char \<Rightarrow> char" where
  "lower_char c = (let n = of_char c :: nat in if 65 \<le> n \<and> n \<le> 90 then char_of (n + 32) else c)"

definition upper_char :: "char \<Rightarrow> char" where
  "upper_char c = (let n = of_char c :: nat in if 97 \<le> n \<and> n \<le> 122 then char_of (n - 32) else c)"

definition toLowerCase :: "string \<Rightarrow> string" where
  "toLowerCase s = map lower_char s"

definition toUpperCase :: "string \<Rightarrow> string" where
  "toUpperCase s = map upper_char s"

definition startsWith :: "string \<Rightarrow> string \<Rightarrow> bool" where
  "startsWith s p \<longleftrightarrow> take (length p) s = p"

text \<open>\<open>a < b\<close> on strings: code unit by code unit.\<close>

fun str_less :: "string \<Rightarrow> string \<Rightarrow> bool" where
  "str_less _ [] = False"
| "str_less [] (_ # _) = True"
| "str_less (a # as) (b # bs) =
     ((of_char a :: nat) < of_char b \<or> (a = b \<and> str_less as bs))"

lemma str_less_irrefl [simp]: "\<not> str_less s s"
  by (induction s) auto

text \<open>A string is truthy when it is not empty; \<open>x?.trim() || null\<close> is \<open>trim_or_null\<close>.\<close>

definition truthy :: "string option \<Rightarrow> bool" where
  "truthy x \<longleftrightarrow> x \<noteq> None \<and> x \<noteq> Some []"

definition trim_or_null :: "string option \<Rightarrow> string option" where
  "trim_or_null x = (case x of None \<Rightarrow> None
     | Some s \<Rightarrow> (if js_trim s = [] then None else Some (js_trim s)))"

text \<open>\<open>x ?? y\<close> with a fallback value.\<close>

definition or_else :: "'a option \<Rightarrow> 'a \<Rightarrow> 'a" where
  "or_else x y = (case x of None \<Rightarrow> y | Some a \<Rightarrow> a)"

lemma or_else_simps [simp]: "or_else None y = y" "or_else (Some a) y = a"
  by (simp_all add: or_else_def)

text \<open>\<open>x ?? y\<close> where \<open>y\<close> may itself be absent.\<close>

definition or_maybe :: "'a option \<Rightarrow> 'a option \<Rightarrow> 'a option" where
  "or_maybe x y = (case x of None \<Rightarrow> y | Some a \<Rightarrow> Some a)"

lemma or_maybe_simps [simp]: "or_maybe None y = y" "or_maybe (Some a) y = Some a"
  by (simp_all add: or_maybe_def)

section \<open>Insertion-ordered maps\<close>

text \<open>
  A JavaScript \<open>Map\<close> iterates in insertion order and \<open>set\<close> keeps the place of a key that is
  already there. That is an association list under \<open>AList.update\<close>, read with \<open>map_of\<close>.
\<close>

abbreviation jmap_get :: "('k \<times> 'v) list \<Rightarrow> 'k \<Rightarrow> 'v option" where
  "jmap_get m k \<equiv> map_of m k"

abbreviation jmap_set :: "'k \<Rightarrow> 'v \<Rightarrow> ('k \<times> 'v) list \<Rightarrow> ('k \<times> 'v) list" where
  "jmap_set k v m \<equiv> AList.update k v m"

text \<open>A map of running totals: what adding to one key does to a sum over the entries.\<close>

lemma sum_list_jmap_set:
  fixes f :: "'v \<Rightarrow> 'a::ab_group_add"
  assumes "distinct (map fst m)"
  shows "sum_list (map (f \<circ> snd) (jmap_set k v m)) =
    sum_list (map (f \<circ> snd) m) + f v - (case jmap_get m k of None \<Rightarrow> 0 | Some w \<Rightarrow> f w)"
  using assms
proof (induction m)
  case Nil
  then show ?case by simp
next
  case (Cons p m)
  show ?case
  proof (cases "fst p = k")
    case True
    then show ?thesis by (cases p) simp
  next
    case False
    with Cons show ?thesis by (cases p) (simp split: option.splits)
  qed
qed

lemma distinct_jmap_set [simp]: "distinct (map fst m) \<Longrightarrow> distinct (map fst (jmap_set k v m))"
  by (rule distinct_update)

lemma jmap_set_member: "x \<in> set (jmap_set k v m) \<Longrightarrow> x = (k, v) \<or> x \<in> set m"
  by (induction m) (auto split: if_splits)

section \<open>Lists and sums\<close>

lemma sum_list_nonneg_elem:
  fixes xs :: "'a::ordered_ab_group_add list"
  assumes "\<forall>x\<in>set xs. 0 \<le> x" and "y \<in> set xs"
  shows "y \<le> sum_list xs"
  using assms
proof (induction xs)
  case Nil
  then show ?case by simp
next
  case (Cons x xs)
  have nn: "0 \<le> sum_list xs" using Cons.prems(1) by (auto intro: sum_list_nonneg)
  show ?case
  proof (cases "y = x")
    case True
    with nn show ?thesis by simp
  next
    case False
    with Cons have "y \<le> sum_list xs" by auto
    also have "\<dots> \<le> x + sum_list xs" using Cons.prems(1) by simp
    finally show ?thesis by simp
  qed
qed

lemma sum_list_zero_nonneg:
  fixes xs :: "'a::ordered_ab_group_add list"
  assumes "\<forall>x\<in>set xs. 0 \<le> x" and "sum_list xs = 0" and "y \<in> set xs"
  shows "y = 0"
  using sum_list_nonneg_elem [OF assms(1,3)] assms by (auto intro: order_antisym)

lemma sum_list_filter_split:
  fixes f :: "'a \<Rightarrow> 'b::comm_monoid_add"
  shows "sum_list (map f xs) = sum_list (map f (filter P xs)) + sum_list (map f (filter (\<lambda>x. \<not> P x) xs))"
  by (induction xs) (auto simp: ac_simps)

lemma sum_list_abs_filter_le:
  fixes f :: "'a \<Rightarrow> 'b::linordered_idom"
  shows "sum_list (map (\<lambda>x. \<bar>f x\<bar>) (filter P xs)) \<le> sum_list (map (\<lambda>x. \<bar>f x\<bar>) xs)"
  by (induction xs) (auto intro: add_increasing)

lemma sum_list_if_filter:
  fixes f :: "'a \<Rightarrow> 'b::comm_monoid_add"
  shows "sum_list (map f (filter P xs)) = sum_list (map (\<lambda>x. if P x then f x else 0) xs)"
  by (induction xs) auto

end
