(* ===== verification/Decimal_Js.thy ===== *)
theory Decimal_Js
  imports Prelude
begin

text \<open>
  The decimal arithmetic every amount of the sources runs through. \<open>Prisma.Decimal\<close> is the
  third-party package decimal.js, so its arithmetic is a parameter of the model: a record of
  the operations the sources call, over the rational number a decimal denotes. The locale
  \<open>decimal_package\<close> states what the package documents (results are rounded to 20 significant
  digits and gain no decimal places over their operands, \<open>toDecimalPlaces\<close> is exact, half-up or towards zero), the lemmas in it say when money
  arithmetic is exact, and \<open>decimal20\<close> is an executable package that satisfies the laws.
  Signed zero, \<open>NaN\<close> and \<open>Infinity\<close> are not represented.
\<close>

section \<open>Decimal places\<close>

definition half_up :: "nat \<Rightarrow> rat \<Rightarrow> rat" where
  "half_up n x = sgn x * of_int \<lfloor>\<bar>x\<bar> * 10 ^ n + 1 / 2\<rfloor> / 10 ^ n"

definition round_down :: "nat \<Rightarrow> rat \<Rightarrow> rat" where
  "round_down n x = sgn x * of_int \<lfloor>\<bar>x\<bar> * 10 ^ n\<rfloor> / 10 ^ n"

text \<open>\<open>on_grid n x\<close>: \<open>x\<close> has at most \<open>n\<close> decimal places.\<close>

definition on_grid :: "nat \<Rightarrow> rat \<Rightarrow> bool" where
  "on_grid n x \<longleftrightarrow> (\<exists>k::int. x * 10 ^ n = of_int k)"

abbreviation paise :: "rat \<Rightarrow> bool" where
  "paise x \<equiv> on_grid 2 x"

lemma on_gridI: "x * 10 ^ n = of_int k \<Longrightarrow> on_grid n x"
  by (auto simp: on_grid_def)

lemma on_grid_0 [simp]: "on_grid n 0"
  by (rule on_gridI [of _ _ 0]) simp

lemma on_grid_of_int [simp]: "on_grid n (of_int k)"
  by (rule on_gridI [of _ _ "k * 10 ^ n"]) simp

lemma on_grid_1 [simp]: "on_grid n 1"
  using on_grid_of_int [of n 1] by simp

lemma on_grid_numeral [simp]: "on_grid n (numeral k)"
  using on_grid_of_int [of n "numeral k"] by simp

lemma on_grid_add [simp]: "on_grid n x \<Longrightarrow> on_grid n y \<Longrightarrow> on_grid n (x + y)"
  by (auto simp: on_grid_def ring_distribs) (metis of_int_add)

lemma on_grid_uminus [simp]: "on_grid n (- x) \<longleftrightarrow> on_grid n x"
proof -
  have "on_grid n (- y)" if "on_grid n y" for y
    using that by (auto simp: on_grid_def) (metis of_int_minus)
  from this [of x] this [of "- x"] show ?thesis by auto
qed

lemma on_grid_diff [simp]: "on_grid n x \<Longrightarrow> on_grid n y \<Longrightarrow> on_grid n (x - y)"
  using on_grid_add [of n x "- y"] by simp

lemma on_grid_sum_list: "(\<forall>x\<in>set xs. on_grid n x) \<Longrightarrow> on_grid n (sum_list xs)"
  by (induction xs) auto

lemma on_grid_mono:
  assumes "on_grid n x" and "n \<le> m"
  shows "on_grid m x"
proof -
  from assms obtain k :: int and d where "x * 10 ^ n = of_int k" and "m = n + d"
    by (auto simp: on_grid_def le_iff_add)
  then have "x * 10 ^ m = of_int (k * 10 ^ d)" by (simp add: power_add flip: mult.assoc)
  then show ?thesis by (rule on_gridI)
qed

lemma on_grid_min [simp]: "on_grid n x \<Longrightarrow> on_grid n y \<Longrightarrow> on_grid n (min x y)"
  by (simp add: min_def)

lemma on_grid_abs [simp]: "on_grid n \<bar>x\<bar> \<longleftrightarrow> on_grid n x"
  by (auto simp: abs_if)

lemma on_grid_half_up [simp]: "on_grid n (half_up n x)"
proof -
  have "half_up n x * 10 ^ n = of_int ((if x = 0 then 0 else if 0 < x then 1 else - 1)
      * \<lfloor>\<bar>x\<bar> * 10 ^ n + 1 / 2\<rfloor>)"
    by (simp add: half_up_def sgn_if)
  then show ?thesis by (rule on_gridI)
qed

lemma on_grid_round_down [simp]: "on_grid n (round_down n x)"
proof -
  have "round_down n x * 10 ^ n = of_int ((if x = 0 then 0 else if 0 < x then 1 else - 1)
      * \<lfloor>\<bar>x\<bar> * 10 ^ n\<rfloor>)"
    by (simp add: round_down_def sgn_if)
  then show ?thesis by (rule on_gridI)
qed

lemma half_up_grid [simp]:
  assumes "on_grid n x"
  shows "half_up n x = x"
proof -
  from assms have "on_grid n \<bar>x\<bar>" by simp
  then obtain k :: int where k: "\<bar>x\<bar> * 10 ^ n = of_int k" by (auto simp: on_grid_def)
  have "\<lfloor>\<bar>x\<bar> * 10 ^ n + 1 / 2\<rfloor> = k" unfolding k by linarith
  then have "half_up n x = sgn x * (\<bar>x\<bar> * 10 ^ n) / 10 ^ n" by (simp add: half_up_def k)
  also have "\<dots> = x" by (simp add: sgn_mult_abs mult.assoc [symmetric])
  finally show ?thesis .
qed

lemma half_up_0 [simp]: "half_up n 0 = 0"
  by simp

lemma half_up_error: "\<bar>half_up n x - x\<bar> \<le> 1 / (2 * 10 ^ n)"
proof -
  let ?y = "\<bar>x\<bar> * 10 ^ n"
  have "\<bar>of_int \<lfloor>?y + 1 / 2\<rfloor> - ?y\<bar> \<le> 1 / 2" by linarith
  then have le: "\<bar>of_int \<lfloor>?y + 1 / 2\<rfloor> - ?y\<bar> / 10 ^ n \<le> (1 / 2) / 10 ^ n"
    by (rule divide_right_mono) simp
  have x: "sgn x * ?y / 10 ^ n = x" by (simp add: sgn_mult_abs mult.assoc [symmetric])
  have "half_up n x - x = half_up n x - sgn x * ?y / 10 ^ n" by (simp only: x)
  also have "\<dots> = sgn x * (of_int \<lfloor>?y + 1 / 2\<rfloor> - ?y) / 10 ^ n"
    unfolding half_up_def by (simp only: diff_divide_distrib right_diff_distrib)
  finally have "\<bar>half_up n x - x\<bar> = \<bar>sgn x\<bar> * (\<bar>of_int \<lfloor>?y + 1 / 2\<rfloor> - ?y\<bar> / 10 ^ n)"
    by (simp add: abs_mult)
  also have "\<dots> \<le> 1 * ((1 / 2) / 10 ^ n)"
    using le by (intro mult_mono) (auto simp: sgn_if)
  finally show ?thesis by simp
qed

lemma half_up_nonneg [simp]: "0 \<le> x \<Longrightarrow> 0 \<le> half_up n x"
  by (simp add: half_up_def sgn_if)

lemma half_up_mono: "x \<le> y \<Longrightarrow> 0 \<le> x \<Longrightarrow> half_up n x \<le> half_up n y"
proof -
  assume "x \<le> y" "0 \<le> x"
  then have "\<lfloor>x * 10 ^ n + 1 / 2\<rfloor> \<le> \<lfloor>y * 10 ^ n + 1 / 2\<rfloor>"
    by (intro floor_mono) simp
  with \<open>x \<le> y\<close> \<open>0 \<le> x\<close> show ?thesis
    by (cases "x = 0"; cases "y = 0") (auto simp: half_up_def divide_right_mono)
qed

lemma round_down_bounds:
  assumes "0 \<le> x"
  shows "round_down n x \<le> x" and "x < round_down n x + 1 / 10 ^ n" and "0 \<le> round_down n x"
proof -
  have eq: "round_down n x = of_int \<lfloor>x * 10 ^ n\<rfloor> / 10 ^ n"
    using assms by (cases "x = 0") (simp_all add: round_down_def)
  have "of_int \<lfloor>x * 10 ^ n\<rfloor> \<le> x * 10 ^ n" and "x * 10 ^ n < of_int \<lfloor>x * 10 ^ n\<rfloor> + 1" by linarith+
  then show "round_down n x \<le> x" and "x < round_down n x + 1 / 10 ^ n"
    by (simp_all add: eq field_simps)
  show "0 \<le> round_down n x" using assms by (simp add: eq)
qed

lemma round_down_grid_le:
  assumes "0 \<le> x" and "on_grid n g" and "g \<le> x"
  shows "g \<le> round_down n x"
proof -
  have eq: "round_down n x = of_int \<lfloor>x * 10 ^ n\<rfloor> / 10 ^ n"
    using assms by (cases "x = 0") (simp_all add: round_down_def)
  from assms(2) obtain k :: int where k: "g * 10 ^ n = of_int k" by (auto simp: on_grid_def)
  from assms(3) have "g * 10 ^ n \<le> x * 10 ^ n" by simp
  with k have "k \<le> \<lfloor>x * 10 ^ n\<rfloor>" by (simp add: le_floor_iff)
  then have "of_int k \<le> (of_int \<lfloor>x * 10 ^ n\<rfloor> :: rat)" by simp
  with k show ?thesis by (simp add: eq field_simps)
qed

text \<open>Two grid values less than one unit apart are equal.\<close>

lemma grid_eqI:
  assumes "on_grid n x" and "on_grid n y" and "\<bar>x - y\<bar> < 1 / 10 ^ n"
  shows "x = y"
proof -
  from assms obtain j k :: int where jk: "x * 10 ^ n = of_int j" "y * 10 ^ n = of_int k"
    by (auto simp: on_grid_def)
  have "\<bar>x - y\<bar> * 10 ^ n < 1" using assms(3) by (simp add: field_simps)
  moreover have "\<bar>x - y\<bar> * 10 ^ n = \<bar>of_int j - of_int k\<bar>"
    by (simp add: jk [symmetric] abs_mult flip: left_diff_distrib)
  ultimately have "\<bar>j - k\<bar> < 1" by linarith
  then have "j = k" by simp
  with jk have "x * 10 ^ n = y * 10 ^ n" by simp
  then show ?thesis by simp
qed

lemma grid_less_step:
  assumes "on_grid n x" and "on_grid n y" and "x < y"
  shows "x + 1 / 10 ^ n \<le> y"
proof (rule ccontr)
  assume "\<not> ?thesis"
  with assms(3) have "\<bar>x - y\<bar> < 1 / 10 ^ n" by simp
  with assms show False using grid_eqI by fastforce
qed

section \<open>The package\<close>

datatype rounding = ROUND_HALF_UP | ROUND_DOWN

record decimal_js =
  d_plus :: "rat \<Rightarrow> rat \<Rightarrow> rat"
  d_minus :: "rat \<Rightarrow> rat \<Rightarrow> rat"
  d_times :: "rat \<Rightarrow> rat \<Rightarrow> rat"
  d_div :: "rat \<Rightarrow> rat \<Rightarrow> rat"
  d_toDP :: "rat \<Rightarrow> nat \<Rightarrow> rounding \<Rightarrow> rat"
  d_toFixed :: "rat \<Rightarrow> nat \<Rightarrow> string"
  d_toString :: "rat \<Rightarrow> string"

text \<open>The values a decimal of 20 significant digits can hold exactly.\<close>

definition representable :: "rat \<Rightarrow> bool" where
  "representable x \<longleftrightarrow> (\<exists>(k::int) (m::nat) (n::nat). \<bar>k\<bar> < 10 ^ 20 \<and> x = of_int k * 10 ^ n / 10 ^ m)"

text \<open>Half a unit of the twentieth digit, relative to the value.\<close>

definition ulp_bound :: "rat \<Rightarrow> rat" where
  "ulp_bound x = \<bar>x\<bar> / (2 * 10 ^ 19)"

locale decimal_package =
  fixes J :: decimal_js
  assumes plus_exact: "representable (a + b) \<Longrightarrow> d_plus J a b = a + b"
    and minus_exact: "representable (a - b) \<Longrightarrow> d_minus J a b = a - b"
    and plus_places: "on_grid n a \<Longrightarrow> on_grid n b \<Longrightarrow> on_grid n (d_plus J a b)"
    and minus_places: "on_grid n a \<Longrightarrow> on_grid n b \<Longrightarrow> on_grid n (d_minus J a b)"
    and times_exact: "representable (a * b) \<Longrightarrow> d_times J a b = a * b"
    and times_error: "\<bar>d_times J a b - a * b\<bar> \<le> ulp_bound (a * b)"
    and div_exact: "b \<noteq> 0 \<Longrightarrow> representable (a / b) \<Longrightarrow> d_div J a b = a / b"
    and div_error: "b \<noteq> 0 \<Longrightarrow> \<bar>d_div J a b - a / b\<bar> \<le> ulp_bound (a / b)"
    and div_representable: "b \<noteq> 0 \<Longrightarrow> representable (d_div J a b)"
    and toDP_half_up: "d_toDP J x n ROUND_HALF_UP = half_up n x"
    and toDP_down: "d_toDP J x n ROUND_DOWN = round_down n x"

lemma paise_representable:
  assumes "paise x" and "\<bar>x\<bar> < 10 ^ 18"
  shows "representable x"
proof -
  from assms(1) obtain k :: int where k: "x * 10 ^ 2 = of_int k" by (auto simp: on_grid_def)
  have "\<bar>of_int k :: rat\<bar> < 10 ^ 20" using assms(2) by (simp add: k [symmetric] abs_mult)
  then have "\<bar>k\<bar> < 10 ^ 20" by (simp flip: of_int_abs)
  moreover have "x = of_int k * 10 ^ 0 / 10 ^ 2" by (simp add: k [symmetric])
  ultimately show ?thesis unfolding representable_def by blast
qed

text \<open>A column of amounts that can be summed exactly: paise, with a total below \<open>10 ^ 18\<close>.\<close>

definition exact_column :: "rat list \<Rightarrow> bool" where
  "exact_column xs \<longleftrightarrow> (\<forall>x\<in>set xs. paise x) \<and> sum_list (map abs xs) < 10 ^ 18"

lemma exact_column_Nil [simp]: "exact_column []"
  by (simp add: exact_column_def)

lemma exact_column_ConsD: "exact_column (x # xs) \<Longrightarrow> paise x \<and> \<bar>x\<bar> < 10 ^ 18 \<and> exact_column xs"
proof -
  assume s: "exact_column (x # xs)"
  have "0 \<le> sum_list (map abs xs)" by (intro sum_list_nonneg) auto
  with s show ?thesis by (auto simp: exact_column_def)
qed

lemma exact_column_filter: "exact_column (map f xs) \<Longrightarrow> exact_column (map f (filter P xs))"
  using sum_list_abs_filter_le [of f P xs] by (auto simp: exact_column_def comp_def)

lemma abs_sum_list_le: "\<bar>sum_list xs\<bar> \<le> sum_list (map abs xs)" for xs :: "rat list"
  by (induction xs) (auto intro: order_trans [OF abs_triangle_ineq])

lemma exact_column_sum: "exact_column xs \<Longrightarrow> paise (sum_list xs) \<and> \<bar>sum_list xs\<bar> < 10 ^ 18"
  using abs_sum_list_le [of xs] by (auto simp: exact_column_def intro: on_grid_sum_list)

lemma exact_column_nonneg:
  "(\<forall>x\<in>set xs. paise x \<and> 0 \<le> x) \<Longrightarrow> sum_list xs < 10 ^ 18 \<Longrightarrow> exact_column xs"
proof -
  assume *: "\<forall>x\<in>set xs. paise x \<and> 0 \<le> x" "sum_list xs < 10 ^ 18"
  have "map abs xs = xs" using *(1) by (intro map_idI) simp
  with * show ?thesis by (simp add: exact_column_def)
qed

context decimal_package
begin

lemma plus_paise [money_simps]:
  "paise a \<Longrightarrow> paise b \<Longrightarrow> \<bar>a + b\<bar> < 10 ^ 18 \<Longrightarrow> d_plus J a b = a + b"
  by (intro plus_exact paise_representable) simp_all

lemma minus_paise [money_simps]:
  "paise a \<Longrightarrow> paise b \<Longrightarrow> \<bar>a - b\<bar> < 10 ^ 18 \<Longrightarrow> d_minus J a b = a - b"
  by (intro minus_exact paise_representable) simp_all

lemma times_paise [money_simps]: "paise (a * b) \<Longrightarrow> \<bar>a * b\<bar> < 10 ^ 18 \<Longrightarrow> d_times J a b = a * b"
  by (intro times_exact paise_representable)

lemma div_paise [money_simps]: "b \<noteq> 0 \<Longrightarrow> paise (a / b) \<Longrightarrow> \<bar>a / b\<bar> < 10 ^ 18 \<Longrightarrow> d_div J a b = a / b"
  by (intro div_exact paise_representable)

lemma minus_between:
  assumes "paise a" "paise b" "0 \<le> b" "b \<le> a" "a < 10 ^ 18"
  shows "d_minus J a b = a - b"
  using assms by (intro minus_paise) auto

lemma foldl_plus_exact:
  assumes "exact_column (a # xs)"
  shows "foldl (d_plus J) a xs = a + sum_list xs"
  using assms
proof (induction xs arbitrary: a)
  case Nil
  then show ?case by simp
next
  case (Cons x xs)
  have nn: "0 \<le> sum_list (map abs xs)" by (intro sum_list_nonneg) auto
  have lt: "\<bar>a + x\<bar> + sum_list (map abs xs) < 10 ^ 18"
    using Cons.prems abs_triangle_ineq [of a x] by (simp add: exact_column_def)
  have px: "paise a" "paise x" "\<forall>y\<in>set xs. paise y" using Cons.prems by (simp_all add: exact_column_def)
  have s: "exact_column ((a + x) # xs)" using px lt by (simp add: exact_column_def)
  have "\<bar>a + x\<bar> < 10 ^ 18" using lt nn by linarith
  then have "d_plus J a x = a + x" using px by (intro plus_paise) simp_all
  with Cons.IH [OF s] show ?case by (simp add: add.assoc)
qed

lemma foldl_plus_0: "exact_column xs \<Longrightarrow> foldl (d_plus J) 0 xs = sum_list xs"
  using foldl_plus_exact [of 0 xs] by (simp add: exact_column_def)

end

section \<open>An executable package\<close>

text \<open>
  Rounding to 20 significant digits, computed: the number of decimal digits of the integer part
  (or, below one, the number of leading zeros) fixes the decimal places kept.
\<close>

fun ndigits :: "nat \<Rightarrow> nat" where
  "ndigits n = (if n = 0 then 0 else Suc (ndigits (n div 10)))"

declare ndigits.simps [simp del]

lemma ndigits_pos: "0 < n \<Longrightarrow> 0 < ndigits n"
  by (subst ndigits.simps) simp

lemma ndigits_0: "ndigits 0 = 0"
  by (subst ndigits.simps) simp

lemma ndigits_upper: "n < 10 ^ ndigits n"
proof (induction n rule: ndigits.induct)
  case (1 n)
  show ?case
  proof (cases "n = 0")
    case False
    with 1 have "n div 10 < 10 ^ ndigits (n div 10)" by simp
    then have "n < 10 * 10 ^ ndigits (n div 10)" by (simp add: div_less_iff_less_mult mult.commute)
    with False show ?thesis by (simp add: ndigits.simps [of n])
  qed (simp add: ndigits_0)
qed

lemma ndigits_lower: "0 < n \<Longrightarrow> 10 ^ (ndigits n - 1) \<le> n"
proof (induction n rule: ndigits.induct)
  case (1 n)
  show ?case
  proof (cases "n < 10")
    case True
    then have "n div 10 = 0" by simp
    with 1 show ?thesis by (simp add: ndigits.simps [of n] ndigits_0)
  next
    case False
    then have "0 < n div 10" by simp
    then obtain k where k: "ndigits (n div 10) = Suc k"
      using ndigits_pos gr0_implies_Suc by blast
    with False 1 have "10 ^ k \<le> n div 10" by simp
    then have "10 ^ Suc k \<le> n" by (simp add: less_eq_div_iff_mult_less_eq mult.commute)
    with False k show ?thesis by (simp add: ndigits.simps [of n])
  qed
qed

definition places20 :: "rat \<Rightarrow> nat" where
  "places20 x = (if 1 \<le> \<bar>x\<bar> then 20 - ndigits (nat \<lfloor>\<bar>x\<bar>\<rfloor>)
     else 19 + ndigits (nat (\<lceil>1 / \<bar>x\<bar>\<rceil> - 1)))"

definition shift20 :: "rat \<Rightarrow> nat" where
  "shift20 x = ndigits (nat \<lfloor>\<bar>x\<bar>\<rfloor>) - 20"

definition sd20 :: "rat \<Rightarrow> rat" where
  "sd20 x = (if x = 0 then 0
     else if \<bar>x\<bar> < 10 ^ 20 then half_up (places20 x) x
     else half_up 0 (x / 10 ^ shift20 x) * 10 ^ shift20 x)"

text \<open>The digit counts bracket the value.\<close>

lemma floor_digits:
  fixes x :: rat
  assumes "1 \<le> \<bar>x\<bar>"
  shows "\<bar>x\<bar> < 10 ^ ndigits (nat \<lfloor>\<bar>x\<bar>\<rfloor>)" and "10 ^ (ndigits (nat \<lfloor>\<bar>x\<bar>\<rfloor>) - 1) \<le> \<bar>x\<bar>"
    and "0 < ndigits (nat \<lfloor>\<bar>x\<bar>\<rfloor>)"
proof -
  let ?n = "nat \<lfloor>\<bar>x\<bar>\<rfloor>"
  have fl: "1 \<le> \<lfloor>\<bar>x\<bar>\<rfloor>" using assms by (simp add: le_floor_iff)
  then have n: "of_nat ?n = (of_int \<lfloor>\<bar>x\<bar>\<rfloor> :: rat)" and pos: "0 < ?n" by simp_all
  have "Suc ?n \<le> 10 ^ ndigits ?n" by (rule Suc_leI [OF ndigits_upper])
  then have "(of_nat (Suc ?n) :: rat) \<le> of_nat (10 ^ ndigits ?n)" by (rule of_nat_mono)
  then have "of_int \<lfloor>\<bar>x\<bar>\<rfloor> + 1 \<le> (10 ^ ndigits ?n :: rat)" by (simp add: n)
  then show "\<bar>x\<bar> < 10 ^ ndigits ?n" by linarith
  have "(of_nat (10 ^ (ndigits ?n - 1)) :: rat) \<le> of_nat ?n"
    using ndigits_lower [OF pos] by (rule of_nat_mono)
  then have "(10::rat) ^ (ndigits ?n - 1) \<le> of_int \<lfloor>\<bar>x\<bar>\<rfloor>" by (simp only: n of_nat_power of_nat_numeral)
  also have "\<dots> \<le> \<bar>x\<bar>" by (rule of_int_floor_le)
  finally show "10 ^ (ndigits ?n - 1) \<le> \<bar>x\<bar>" .
  show "0 < ndigits ?n" using pos by (rule ndigits_pos)
qed

lemma places20_bracket:
  assumes "x \<noteq> 0" and "\<bar>x\<bar> < 10 ^ 20"
  shows "10 ^ 19 \<le> \<bar>x\<bar> * 10 ^ places20 x" and "\<bar>x\<bar> * 10 ^ places20 x \<le> 10 ^ 20"
proof -
  have "10 ^ 19 \<le> \<bar>x\<bar> * 10 ^ places20 x \<and> \<bar>x\<bar> * 10 ^ places20 x \<le> 10 ^ 20"
  proof (cases "1 \<le> \<bar>x\<bar>")
    case True
    let ?d = "ndigits (nat \<lfloor>\<bar>x\<bar>\<rfloor>)"
    note d = floor_digits [OF True]
    have "(10::rat) ^ (?d - 1) < 10 ^ 20" using d(2) assms(2) by linarith
    then have "?d - 1 < 20" by (rule power_less_imp_less_exp [rotated]) simp
    with d(3) have d20: "?d \<le> 20" by simp
    have p: "places20 x = 20 - ?d" using True by (simp add: places20_def)
    have "(10::rat) ^ 19 = 10 ^ (?d - 1) * 10 ^ (20 - ?d)"
      using d20 d(3) by (simp flip: power_add)
    also have "\<dots> \<le> \<bar>x\<bar> * 10 ^ (20 - ?d)" using d(2) by (rule mult_right_mono) simp
    finally have lo: "10 ^ 19 \<le> \<bar>x\<bar> * 10 ^ (20 - ?d)" .
    have "\<bar>x\<bar> * 10 ^ (20 - ?d) \<le> 10 ^ ?d * 10 ^ (20 - ?d)"
      using d(1) by (intro mult_right_mono) simp_all
    also have "\<dots> = (10::rat) ^ 20" using d20 by (simp flip: power_add)
    finally show ?thesis using lo p by simp
  next
    case False
    let ?c = "\<lceil>1 / \<bar>x\<bar>\<rceil>"
    let ?j = "ndigits (nat (?c - 1))"
    have x0: "0 < \<bar>x\<bar>" using assms(1) by simp
    have one: "1 < 1 / \<bar>x\<bar>" using False x0 by (simp add: field_simps)
    then have c: "2 \<le> ?c" by linarith
    then have pos: "0 < nat (?c - 1)" by linarith
    from c have "int (nat (?c - 1)) = ?c - 1" by linarith
    then have "(of_int (int (nat (?c - 1))) :: rat) = of_int (?c - 1)" by (simp only:)
    then have cn: "of_nat (nat (?c - 1)) = (of_int ?c - 1 :: rat)"
      by (simp only: of_int_of_nat_eq of_int_diff of_int_1)
    have "Suc (nat (?c - 1)) \<le> 10 ^ ?j" by (rule Suc_leI [OF ndigits_upper])
    then have "(of_nat (Suc (nat (?c - 1))) :: rat) \<le> of_nat (10 ^ ?j)" by (rule of_nat_mono)
    then have "of_int ?c \<le> (10 ^ ?j :: rat)" using cn by simp
    then have "1 / \<bar>x\<bar> \<le> 10 ^ ?j" by linarith
    then have lo: "1 \<le> \<bar>x\<bar> * 10 ^ ?j" using x0 by (simp add: field_simps)
    have "(of_nat (10 ^ (?j - 1)) :: rat) \<le> of_nat (nat (?c - 1))"
      using ndigits_lower [OF pos] by (rule of_nat_mono)
    then have "(10::rat) ^ (?j - 1) \<le> 1 / \<bar>x\<bar>" using cn by simp linarith
    then have "\<bar>x\<bar> * 10 ^ (?j - 1) \<le> 1" using x0 by (simp add: field_simps)
    moreover have "0 < ?j" using pos by (rule ndigits_pos)
    ultimately have hi: "\<bar>x\<bar> * 10 ^ ?j \<le> 10" by (cases ?j) simp_all
    have eq: "\<bar>x\<bar> * 10 ^ places20 x = (\<bar>x\<bar> * 10 ^ ?j) * 10 ^ 19"
      using False by (simp add: places20_def power_add mult_ac)
    show ?thesis unfolding eq using lo hi
      by (auto intro: order_trans [OF _ mult_right_mono, of _ 1] order_trans [OF mult_right_mono, of _ 10])
  qed
  then show "10 ^ 19 \<le> \<bar>x\<bar> * 10 ^ places20 x" and "\<bar>x\<bar> * 10 ^ places20 x \<le> 10 ^ 20" by simp_all
qed

lemma shift20_bracket:
  assumes "10 ^ 20 \<le> \<bar>x\<bar>"
  shows "10 ^ 19 * 10 ^ shift20 x \<le> \<bar>x\<bar>" and "\<bar>x\<bar> < 10 ^ 20 * 10 ^ shift20 x"
proof -
  let ?d = "ndigits (nat \<lfloor>\<bar>x\<bar>\<rfloor>)"
  have "(1::rat) \<le> 10 ^ 20" by simp
  then have "1 \<le> \<bar>x\<bar>" using assms by (rule order_trans)
  note d = floor_digits [OF this]
  have "(10::rat) ^ 20 < 10 ^ ?d" using d(1) assms by linarith
  then have d20: "20 < ?d" by (rule power_less_imp_less_exp [rotated]) simp
  have "(10::rat) ^ 19 * 10 ^ (?d - 20) = 10 ^ (19 + (?d - 20))" by (simp only: power_add)
  also have "19 + (?d - 20) = ?d - 1" using d20 by simp
  finally have "(10::rat) ^ 19 * 10 ^ (?d - 20) = 10 ^ (?d - 1)" .
  then show "10 ^ 19 * 10 ^ shift20 x \<le> \<bar>x\<bar>" using d(2) by (simp add: shift20_def)
  have "(10::rat) ^ 20 * 10 ^ (?d - 20) = 10 ^ (20 + (?d - 20))" by (simp only: power_add)
  also have "20 + (?d - 20) = ?d" using d20 by simp
  finally have "(10::rat) ^ 20 * 10 ^ (?d - 20) = 10 ^ ?d" .
  then show "\<bar>x\<bar> < 10 ^ 20 * 10 ^ shift20 x" using d(1) by (simp add: shift20_def)
qed

lemma sd20_error: "\<bar>sd20 x - x\<bar> \<le> ulp_bound x"
proof (cases "x = 0")
  case True
  then show ?thesis by (simp add: sd20_def ulp_bound_def)
next
  case False
  show ?thesis
  proof (cases "\<bar>x\<bar> < 10 ^ 20")
    case True
    let ?p = "places20 x"
    have "\<bar>sd20 x - x\<bar> \<le> 1 / (2 * 10 ^ ?p)"
      using half_up_error [of ?p x] True False by (simp add: sd20_def)
    also have "\<dots> = 10 ^ 19 / (2 * 10 ^ 19 * 10 ^ ?p)" by simp
    also have "\<dots> \<le> \<bar>x\<bar> * 10 ^ ?p / (2 * 10 ^ 19 * 10 ^ ?p)"
      using places20_bracket(1) [OF False True] by (intro divide_right_mono) simp_all
    also have "\<dots> = ulp_bound x" by (simp add: ulp_bound_def)
    finally show ?thesis .
  next
    case big: False
    let ?s = "10 ^ shift20 x :: rat"
    let ?y = "x / ?s"
    have sd: "sd20 x - x = (half_up 0 ?y - ?y) * ?s"
      using big False by (simp add: sd20_def left_diff_distrib)
    have "\<bar>sd20 x - x\<bar> = \<bar>half_up 0 ?y - ?y\<bar> * ?s" unfolding sd by (simp add: abs_mult)
    also have "\<dots> \<le> 1 / 2 * ?s" using half_up_error [of 0 ?y] by (intro mult_right_mono) simp_all
    also have "\<dots> = (10 ^ 19 * ?s) / (2 * 10 ^ 19)" by simp
    also have "\<dots> \<le> \<bar>x\<bar> / (2 * 10 ^ 19)"
      using shift20_bracket(1) [of x] big by (intro divide_right_mono) simp_all
    finally show ?thesis by (simp add: ulp_bound_def)
  qed
qed

lemma grid_representable:
  assumes "on_grid n x" and "\<bar>x\<bar> * 10 ^ n \<le> 10 ^ 20"
  shows "representable (x * 10 ^ m)"
proof -
  from assms(1) obtain k :: int where k: "x * 10 ^ n = of_int k" by (auto simp: on_grid_def)
  have "\<bar>of_int k :: rat\<bar> \<le> 10 ^ 20" using assms(2) by (simp add: k [symmetric] abs_mult)
  then have ak: "\<bar>k\<bar> \<le> 10 ^ 20" by (simp flip: of_int_abs)
  have x: "x = of_int k / 10 ^ n" by (simp add: k [symmetric])
  show ?thesis
  proof (cases "\<bar>k\<bar> = 10 ^ 20")
    case False
    with ak have "\<bar>k\<bar> < 10 ^ 20" by simp
    moreover have "x * 10 ^ m = of_int k * 10 ^ m / 10 ^ n" using x by simp
    ultimately show ?thesis unfolding representable_def by blast
  next
    case True
    then have "k = sgn k * 10 ^ 20" by (metis sgn_mult_abs)
    then have "(of_int k :: rat) = of_int (sgn k) * 10 ^ 20" by (metis of_int_mult of_int_numeral of_int_power)
    then have "x * 10 ^ m = of_int (sgn k) * 10 ^ (20 + m) / 10 ^ n" using x by (simp add: power_add)
    moreover have "\<bar>sgn k\<bar> < (10 ^ 20 :: int)" by (simp add: sgn_if)
    ultimately show ?thesis unfolding representable_def by blast
  qed
qed

lemma half_up_le_bound:
  assumes "\<bar>x\<bar> * 10 ^ n \<le> of_int b"
  shows "\<bar>half_up n x\<bar> * 10 ^ n \<le> of_int b"
proof -
  have "\<lfloor>\<bar>x\<bar> * 10 ^ n + 1 / 2\<rfloor> \<le> b" using assms by linarith
  moreover have "0 \<le> \<lfloor>\<bar>x\<bar> * 10 ^ n + 1 / 2\<rfloor>" by simp
  ultimately have "\<bar>of_int \<lfloor>\<bar>x\<bar> * 10 ^ n + 1 / 2\<rfloor>\<bar> \<le> (of_int b :: rat)" by simp
  moreover have "0 \<le> (of_int b :: rat)" using calculation by linarith
  ultimately show ?thesis by (auto simp: half_up_def abs_mult sgn_if)
qed

lemma sd20_representable: "representable (sd20 x)"
proof (cases "x = 0")
  case True
  then show ?thesis using paise_representable [of 0] by (simp add: sd20_def)
next
  case False
  show ?thesis
  proof (cases "\<bar>x\<bar> < 10 ^ 20")
    case True
    have "\<bar>half_up (places20 x) x\<bar> * 10 ^ places20 x \<le> of_int (10 ^ 20)"
      using places20_bracket(2) [OF False True] by (intro half_up_le_bound) simp
    then have "representable (half_up (places20 x) x * 10 ^ 0)"
      by (intro grid_representable [of "places20 x"]) simp_all
    with True False show ?thesis by (simp add: sd20_def)
  next
    case big: False
    have "\<bar>x / 10 ^ shift20 x\<bar> * 10 ^ 0 \<le> of_int (10 ^ 20)"
      using shift20_bracket(2) [of x] big by (simp add: abs_divide divide_le_eq)
    then have "\<bar>half_up 0 (x / 10 ^ shift20 x)\<bar> * 10 ^ 0 \<le> of_int (10 ^ 20)" by (rule half_up_le_bound)
    then have "representable (half_up 0 (x / 10 ^ shift20 x) * 10 ^ shift20 x)"
      by (intro grid_representable [of 0]) simp_all
    with big False show ?thesis by (simp add: sd20_def)
  qed
qed

lemma sd20_exact:
  assumes "representable x"
  shows "sd20 x = x"
proof (cases "x = 0")
  case True
  then show ?thesis by (simp add: sd20_def)
next
  case False
  from assms obtain k :: int and m n where k: "\<bar>k\<bar> < 10 ^ 20" and x: "x = of_int k * 10 ^ n / 10 ^ m"
    unfolding representable_def by blast
  have kr: "\<bar>of_int k :: rat\<bar> < 10 ^ 20" using k by (simp flip: of_int_abs)
  have x10: "\<bar>x\<bar> * 10 ^ m < 10 ^ (20 + n)"
    using kr by (simp add: x abs_mult power_add)
  have grid: "on_grid p x" if "m \<le> p + n" for p
  proof -
    from that obtain q where "p + n = m + q" using nat_le_iff_add by blast
    then have "(10::rat) ^ p * 10 ^ n = 10 ^ m * 10 ^ q" by (simp flip: power_add)
    then have "x * 10 ^ p = of_int k * 10 ^ q" by (simp add: x mult_ac)
    then have "x * 10 ^ p = of_int (k * 10 ^ q)" by simp
    then show ?thesis by (rule on_gridI)
  qed
  show ?thesis
  proof (cases "\<bar>x\<bar> < 10 ^ 20")
    case True
    let ?p = "places20 x"
    have "(10::rat) ^ (19 + m) \<le> \<bar>x\<bar> * 10 ^ ?p * 10 ^ m"
      using places20_bracket(1) [OF False True] by (simp add: power_add)
    also have "\<dots> = (\<bar>x\<bar> * 10 ^ m) * 10 ^ ?p" by simp
    also have "\<dots> < 10 ^ (20 + n) * 10 ^ ?p" using x10 by (intro mult_strict_right_mono) simp_all
    also have "\<dots> = 10 ^ (20 + n + ?p)" by (simp add: power_add)
    finally have "19 + m < 20 + n + ?p" by (rule power_less_imp_less_exp [rotated]) simp
    then have "on_grid ?p x" by (intro grid) simp
    with True False show ?thesis by (simp add: sd20_def)
  next
    case big: False
    let ?s = "shift20 x"
    have "(10::rat) ^ (19 + ?s + m) \<le> \<bar>x\<bar> * 10 ^ m"
      using shift20_bracket(1) [of x] big by (simp add: power_add)
    also have "\<dots> < 10 ^ (20 + n)" by (rule x10)
    finally have "19 + ?s + m < 20 + n" by (rule power_less_imp_less_exp [rotated]) simp
    then have "?s + m \<le> n" by simp
    then obtain q where q: "n = ?s + m + q" using nat_le_iff_add by blast
    have "(10::rat) ^ n = 10 ^ ?s * 10 ^ m * 10 ^ q" by (simp only: q power_add)
    moreover have "x * 10 ^ m = of_int k * 10 ^ n" by (simp add: x)
    ultimately have "x * 10 ^ m = (of_int k * 10 ^ q * 10 ^ ?s) * 10 ^ m" by (simp only: mult_ac)
    then have "x = of_int k * 10 ^ q * 10 ^ ?s" by (subst (asm) mult_cancel_right) simp
    then have "x / 10 ^ ?s = of_int k * 10 ^ q"
      by (metis nonzero_mult_div_cancel_right power_not_zero zero_neq_numeral)
    then have "x / 10 ^ ?s = of_int (k * 10 ^ q)" by simp
    then have "on_grid 0 (x / 10 ^ ?s)" by (intro on_gridI [of _ _ "k * 10 ^ q"]) simp
    with big False show ?thesis by (simp add: sd20_def)
  qed
qed

text \<open>Rounding to significant digits never adds decimal places.\<close>

lemma sd20_places:
  assumes "on_grid n x"
  shows "on_grid n (sd20 x)"
proof (cases "\<bar>x\<bar> < 10 ^ 20")
  case True
  have "on_grid n (half_up (places20 x) x)"
  proof (cases "n \<le> places20 x")
    case True
    then show ?thesis using assms on_grid_mono [OF assms] by simp
  next
    case False
    then show ?thesis using on_grid_mono [OF on_grid_half_up [of "places20 x" x], of n] by simp
  qed
  with True show ?thesis by (simp add: sd20_def)
next
  case False
  obtain k :: int where "half_up 0 (x / 10 ^ shift20 x) * 10 ^ 0 = of_int k"
    using on_grid_half_up [of 0 "x / 10 ^ shift20 x"] unfolding on_grid_def by blast
  then have "half_up 0 (x / 10 ^ shift20 x) * 10 ^ shift20 x = of_int (k * 10 ^ shift20 x)" by simp
  with False show ?thesis by (simp only: sd20_def if_False on_grid_of_int on_grid_0 if_split [of "on_grid n"] simp_thms)
qed

text \<open>Printing: \<open>toFixed(n)\<close> of the rounded value, and \<open>toString\<close> without trailing zeros.\<close>

definition pad_left :: "nat \<Rightarrow> string \<Rightarrow> string" where
  "pad_left w s = replicate (w - length s) (CHR ''0'') @ s"

definition dec_toFixed :: "rat \<Rightarrow> nat \<Rightarrow> string" where
  "dec_toFixed x n = (let u = nat \<lfloor>\<bar>half_up n x\<bar> * 10 ^ n\<rfloor> in
     (if x < 0 then ''-'' else []) @ show_nat (u div 10 ^ n)
       @ (if n = 0 then [] else ''.'' @ pad_left n (show_nat (u mod 10 ^ n))))"

definition dec_places :: "rat \<Rightarrow> nat" where
  "dec_places x = (case find (\<lambda>n. of_int \<lfloor>x * 10 ^ n\<rfloor> = x * 10 ^ n) [0..<40] of None \<Rightarrow> 40 | Some n \<Rightarrow> n)"

definition decimal20 :: decimal_js where
  "decimal20 = \<lparr> d_plus = (\<lambda>a b. sd20 (a + b)), d_minus = (\<lambda>a b. sd20 (a - b)),
     d_times = (\<lambda>a b. sd20 (a * b)), d_div = (\<lambda>a b. sd20 (a / b)),
     d_toDP = (\<lambda>x n r. case r of ROUND_HALF_UP \<Rightarrow> half_up n x | ROUND_DOWN \<Rightarrow> round_down n x),
     d_toFixed = dec_toFixed, d_toString = (\<lambda>x. dec_toFixed x (dec_places x)) \<rparr>"

interpretation d20: decimal_package decimal20
  by unfold_locales
    (simp_all add: decimal20_def sd20_exact sd20_error sd20_representable sd20_places)

lemma decimal20_package: "decimal_package decimal20"
  by unfold_locales

end
