(* ===== verification/Receipt_Utils.thy ===== *)
theory Receipt_Utils
  imports Decimal_Js "HOL-Library.Multiset"
begin

text \<open>
  \<open>accountsModule/receipt/receipt.utils.ts\<close> and \<open>ppd-slab.ts\<close>: money at two places, sums, dates,
  the pro-rata split by largest remainder and the prompt-payment discount. A \<open>Date\<close> is its
  \<open>getTime()\<close>, milliseconds since the epoch.
\<close>

section \<open>Money\<close>

definition money :: "decimal_js \<Rightarrow> rat \<Rightarrow> rat" where
  "money J v = d_toDP J v 2 ROUND_HALF_UP"

definition sum_money :: "decimal_js \<Rightarrow> rat list \<Rightarrow> rat" where
  "sum_money J vs = d_toDP J (foldl (d_plus J) 0 vs) 2 ROUND_HALF_UP"

section \<open>Accounting years, dates and text\<close>

definition isValidAccYear :: "string \<Rightarrow> bool" where
  "isValidAccYear s \<longleftrightarrow> length s = 9 \<and> list_all is_digit (take 4 s) \<and> s ! 4 = CHR ''-''
     \<and> list_all is_digit (drop 5 s) \<and> read_nat (drop 5 s) = read_nat (take 4 s) + 1"

definition MS_PER_DAY :: int where
  "MS_PER_DAY = 86400000"

definition startOfDay :: "int \<Rightarrow> int" where
  "startOfDay t = t div MS_PER_DAY * MS_PER_DAY"

definition daysBetween :: "int \<Rightarrow> int \<Rightarrow> int" where
  "daysBetween t_from t_to = (startOfDay t_to - startOfDay t_from) div MS_PER_DAY"

definition daysOverdue :: "int option \<Rightarrow> int \<Rightarrow> int" where
  "daysOverdue dueDate onDate = (case dueDate of None \<Rightarrow> 0 | Some d \<Rightarrow> max 0 (daysBetween d onDate))"

definition asEnum :: "string option \<Rightarrow> string list \<Rightarrow> string \<Rightarrow> string" where
  "asEnum v allowed fallback = (case v of None \<Rightarrow> fallback
     | Some s \<Rightarrow> (if s \<in> set allowed then s else fallback))"

definition flipSide :: "string \<Rightarrow> string \<Rightarrow> string \<Rightarrow> string" where
  "flipSide v dr cr = (if v = dr then cr else dr)"

definition trimOrNull :: "string option \<Rightarrow> string option" where
  "trimOrNull v = (case v of None \<Rightarrow> None
     | Some s \<Rightarrow> (let t = js_trim s in if 0 < length t then Some t else None))"

definition truncate_text :: "string option \<Rightarrow> nat \<Rightarrow> string option" where
  "truncate_text v maxLength = (case v of None \<Rightarrow> None
     | Some s \<Rightarrow> Some (if maxLength < length s then take maxLength s else s))"

section \<open>The pro-rata split\<close>

type_synonym share_entry = "nat \<times> rat \<times> rat"  \<comment> \<open>index, remainder, weight\<close>

definition share_key :: "share_entry \<Rightarrow> rat \<times> rat \<times> nat" where
  "share_key e = (case e of (i, r, w) \<Rightarrow> (- r, - w, i))"

text \<open>One paisa at a time, in the order of the entries, until nothing is left over.\<close>

fun hand_out :: "decimal_js \<Rightarrow> share_entry list \<Rightarrow> rat \<Rightarrow> rat list \<Rightarrow> rat list" where
  "hand_out J [] remainder shares = shares"
| "hand_out J ((i, r, w) # es) remainder shares =
     (if remainder \<le> 0 then shares
      else hand_out J es (d_minus J remainder (1 / 100)) (shares[i := d_plus J (shares ! i) (1 / 100)]))"

definition exact_share :: "decimal_js \<Rightarrow> rat \<Rightarrow> rat \<Rightarrow> rat \<Rightarrow> rat" where
  "exact_share J target weightTotal w = d_div J (d_times J target w) weightTotal"

definition distributeProRata :: "decimal_js \<Rightarrow> rat \<Rightarrow> rat list \<Rightarrow> rat list" where
  "distributeProRata J amount weights =
     (let target = money J amount;
          weightTotal = sum_money J weights
      in if weights = [] \<or> target = 0 \<or> weightTotal = 0 then map (\<lambda>_. 0) weights
      else let shares = map (\<lambda>w. d_toDP J (exact_share J target weightTotal w) 2 ROUND_DOWN) weights;
               remainder = d_minus J target (sum_money J shares);
               entries = map (\<lambda>(i, w). (i, d_minus J (exact_share J target weightTotal w) (shares ! i), w))
                           (enumerate 0 weights)
           in hand_out J (sort_key share_key entries) remainder shares)"

section \<open>The prompt-payment discount\<close>

record ppd_slab =
  slab_days :: int
  slab_perc :: rat

fun best_slab :: "int \<Rightarrow> ppd_slab option \<Rightarrow> ppd_slab list \<Rightarrow> ppd_slab option" where
  "best_slab age best [] = best"
| "best_slab age best (s # ss) =
     (if slab_days s < age then best_slab age best ss
      else (case best of None \<Rightarrow> best_slab age (Some s) ss
        | Some b \<Rightarrow> best_slab age (if slab_perc b < slab_perc s then Some s else Some b) ss))"

definition suggestPpdDiscount :: "decimal_js \<Rightarrow> int \<Rightarrow> int \<Rightarrow> rat \<Rightarrow> ppd_slab list \<Rightarrow> rat" where
  "suggestPpdDiscount J docDate onDate pendingAmount slabs =
     (if slabs = [] \<or> pendingAmount \<le> 0 then 0
      else (case best_slab (max 0 (daysBetween docDate onDate)) None slabs of
          None \<Rightarrow> 0
        | Some b \<Rightarrow> money J (d_div J (d_times J pendingAmount (slab_perc b)) 100)))"

section \<open>Laws of money and sums\<close>

context decimal_package
begin

lemma money_half_up [simp]: "money J v = half_up 2 v"
  by (simp add: money_def toDP_half_up)

lemma sum_money_exact: "exact_column vs \<Longrightarrow> sum_money J vs = sum_list vs"
  using exact_column_sum [of vs] by (simp add: sum_money_def foldl_plus_0 toDP_half_up)

end

section \<open>The split sums exactly\<close>

text \<open>The largest total, in rupees, for which a quotient's twentieth digit cannot move a share across a paisa.\<close>

definition split_limit :: rat where
  "split_limit = 40000000"

text \<open>A column of weights the split accepts: non-negative paise whose total stays under the limit.\<close>

definition split_ok :: "rat list \<Rightarrow> bool" where
  "split_ok ws \<longleftrightarrow> (\<forall>w\<in>set ws. paise w \<and> 0 \<le> w) \<and> sum_list ws \<le> split_limit"

lemma split_ok_nonneg: "split_ok ws \<Longrightarrow> 0 \<le> sum_list ws"
  by (auto simp: split_ok_def intro: sum_list_nonneg)

lemma split_ok_column: "split_ok ws \<Longrightarrow> exact_column ws"
  by (intro exact_column_nonneg) (auto simp: split_ok_def split_limit_def)

lemma sorted_take_positive:
  assumes "sorted_wrt (\<lambda>a b. r b \<le> r a) xs" and "m < length (filter (\<lambda>x. 0 < r x) xs)"
  shows "\<forall>x\<in>set (take m xs). (0::rat) < r x"
  using assms
proof (induction xs arbitrary: m)
  case Nil
  then show ?case by simp
next
  case (Cons y ys)
  show ?case
  proof (cases m)
    case (Suc m')
    have y: "0 < r y"
    proof (rule ccontr)
      assume "\<not> 0 < r y"
      with Cons.prems(1) have "filter (\<lambda>x. 0 < r x) (y # ys) = []" by (auto simp: filter_empty_conv)
      with Cons.prems(2) show False by (metis length_0_conv not_less_zero)
    qed
    with Cons.prems(2) Suc have "m' < length (filter (\<lambda>x. 0 < r x) ys)" by simp
    moreover have "sorted_wrt (\<lambda>a b. r b \<le> r a) ys" using Cons.prems(1) by simp
    ultimately have "\<forall>x\<in>set (take m' ys). 0 < r x" by (intro Cons.IH)
    with y show ?thesis by (simp only: Suc take_Suc_Cons list.set ball_simps)
  qed simp
qed

text \<open>A quotient of paise that is not itself a paisa stays a fixed distance from the grid.\<close>

lemma grid_gap:
  assumes "on_grid 4 (q * W)" and "0 < W" and "paise W" and "paise g" and "q \<noteq> g"
  shows "1 / (10 ^ 4 * W) \<le> \<bar>q - g\<bar>"
proof -
  from assms(1) obtain a :: int where a: "q * W * 10 ^ 4 = of_int a" by (auto simp: on_grid_def)
  from assms(3,4) obtain b c :: int where bc: "W * 10 ^ 2 = of_int b" "g * 10 ^ 2 = of_int c"
    by (auto simp: on_grid_def)
  have "(q - g) * W * 10 ^ 4 = q * W * 10 ^ 4 - (g * 10 ^ 2) * (W * 10 ^ 2)"
    by (simp add: algebra_simps)
  then have i: "(q - g) * W * 10 ^ 4 = of_int (a - c * b)" by (simp only: a bc of_int_diff of_int_mult)
  have "a - c * b \<noteq> 0"
  proof
    assume "a - c * b = 0"
    with i have "(q - g) * W * 10 ^ 4 = 0" by simp
    with assms(2,5) show False by simp
  qed
  then have "1 \<le> \<bar>a - c * b\<bar>" by linarith
  then have "(1::rat) \<le> of_int \<bar>a - c * b\<bar>" by (simp only: of_int_1_le_iff)
  then have "1 \<le> \<bar>(q - g) * W * 10 ^ 4\<bar>" unfolding i by simp
  also have "\<bar>(q - g) * W * 10 ^ 4\<bar> = \<bar>q - g\<bar> * \<bar>W\<bar> * \<bar>10 ^ 4\<bar>" by (simp only: abs_mult)
  finally have "1 \<le> \<bar>q - g\<bar> * (10 ^ 4 * W)" using assms(2) by (simp only: abs_of_pos) (simp add: mult_ac)
  then show ?thesis using assms(2) by (simp add: divide_le_eq mult_ac)
qed

lemma paise_product: "paise a \<Longrightarrow> paise b \<Longrightarrow> on_grid 4 (a * b)"
proof -
  assume "paise a" "paise b"
  then obtain j k :: int where "a * 10 ^ 2 = of_int j" "b * 10 ^ 2 = of_int k" by (auto simp: on_grid_def)
  then have "(a * 10 ^ 2) * (b * 10 ^ 2) = of_int (j * k)" by simp
  then have "a * b * 10 ^ 4 = of_int (j * k)" by (simp add: mult_ac)
  then show ?thesis by (rule on_gridI)
qed

lemma minus_grid_representable:
  assumes "representable Q" and "paise s" and "0 \<le> s" and "s \<le> Q" and "Q < 10 ^ 18"
  shows "representable (Q - s)"
proof (cases "paise Q")
  case True
  with assms show ?thesis by (intro paise_representable) simp_all
next
  case False
  from assms(1) obtain k :: int and m n where k: "\<bar>k\<bar> < 10 ^ 20" and Q: "Q = of_int k * 10 ^ n / 10 ^ m"
    unfolding representable_def by blast
  from assms(2) obtain j :: int where j: "s * 10 ^ 2 = of_int j" by (auto simp: on_grid_def)
  have "n + 2 < m"
  proof (rule ccontr)
    assume "\<not> n + 2 < m"
    then obtain p where "n + 2 = m + p" using nat_le_iff_add [of m "n + 2"] by auto
    then have "(10::rat) ^ n * 10 ^ 2 = 10 ^ m * 10 ^ p" by (simp only: power_add [symmetric])
    then have "Q * 10 ^ 2 * 10 ^ m = (of_int k * 10 ^ p) * 10 ^ m" by (simp add: Q mult_ac)
    then have "Q * 10 ^ 2 = of_int (k * 10 ^ p)" by (subst (asm) mult_cancel_right) simp
    then have "paise Q" by (rule on_gridI)
    with False show False ..
  qed
  then obtain p where m: "m = n + (2 + p)" using nat_le_iff_add [of "n + 2" m] by auto
  have Q': "Q * 10 ^ (2 + p) = of_int k"
    by (simp add: Q m power_add)
  have s': "s * 10 ^ (2 + p) = of_int (j * 10 ^ p)" by (simp add: power_add j [symmetric])
  let ?d = "k - j * 10 ^ p"
  have d: "(Q - s) * 10 ^ (2 + p) = of_int ?d" by (simp only: left_diff_distrib Q' s' of_int_diff)
  have "0 \<le> (of_int ?d :: rat)" "(of_int ?d :: rat) \<le> of_int k"
    unfolding d [symmetric] Q' [symmetric] using assms(3,4) by simp_all
  then have "0 \<le> ?d" "?d \<le> k" by (simp_all only: of_int_0_le_iff of_int_le_iff)
  with k have "\<bar>?d\<bar> < 10 ^ 20" by linarith
  moreover have "Q - s = (Q - s) * 10 ^ (2 + p) * 10 ^ 0 / 10 ^ (2 + p)" by simp
  then have "Q - s = of_int ?d * 10 ^ 0 / 10 ^ (2 + p)" by (simp only: d)
  ultimately show ?thesis unfolding representable_def by blast
qed

context decimal_package
begin

text \<open>One share: the package's quotient floors to the exact quotient's paise, and is a paisa only if that is.\<close>

lemma share_floor:
  assumes T: "paise T" "0 < T" "T \<le> split_limit" and W: "paise W" "0 < W" "W \<le> split_limit"
    and w: "paise w" "0 \<le> w" "w \<le> W"
  defines "q \<equiv> T * w / W" and "Q \<equiv> exact_share J T W w"
  shows "round_down 2 Q = round_down 2 q"
    and "0 < d_minus J Q (round_down 2 Q) \<longleftrightarrow> round_down 2 q \<noteq> q"
proof -
  have W0: "W \<noteq> 0" using W by simp
  have q0: "0 \<le> q" using T W w by (simp add: q_def)
  have "w / W \<le> 1" using W w by simp
  then have "T * (w / W) \<le> T * 1" using T by (intro mult_left_mono) simp_all
  then have qT: "q \<le> T" by (simp add: q_def)
  have "T * w \<le> split_limit * split_limit" using T w W by (intro mult_mono) simp_all
  then have "representable (T * w * 10 ^ 0)"
    using T w by (intro grid_representable [of 4] paise_product) (simp_all add: split_limit_def)
  then have times: "d_times J T w = T * w" by (intro times_exact) simp
  have Q: "Q = d_div J (T * w) W" by (simp add: Q_def exact_share_def times)
  have err: "\<bar>Q - q\<bar> \<le> q / (2 * 10 ^ 19)"
    using div_error [OF W0, of "T * w"] q0 by (simp add: Q q_def ulp_bound_def)
  have rQ: "representable Q" using div_representable [OF W0] by (simp add: Q)
  let ?g = "round_down 2 q"
  note gb = round_down_bounds [OF q0, of 2]
  have g: "paise ?g" by simp
  have "?g = round_down 2 Q \<and> 0 \<le> Q \<and> (Q = ?g \<longleftrightarrow> q = ?g)"
  proof (cases "q = ?g")
    case True
    then have "paise q" using g by simp
    then have "representable q" using q0 qT T by (intro paise_representable) (simp_all add: split_limit_def)
    then have "Q = q" using div_exact [OF W0] by (simp add: Q q_def)
    with True q0 show ?thesis by simp
  next
    case False
    have grid: "on_grid 4 (q * W)" using paise_product [OF T(1) w(1)] W by (simp add: q_def)
    have small: "q / (2 * 10 ^ 19) < 1 / (10 ^ 4 * W)"
    proof -
      have "q * (10 ^ 4 * W) \<le> split_limit * (10 ^ 4 * split_limit)"
        using qT T W q0 by (intro mult_mono) simp_all
      also have "\<dots> < 2 * 10 ^ 19" by (simp add: split_limit_def)
      finally show ?thesis using W by (simp add: field_simps)
    qed
    have "1 / (10 ^ 4 * W) \<le> \<bar>q - ?g\<bar>"
      using False by (intro grid_gap grid W g) simp_all
    with small err gb(1) have lo: "?g < Q" by linarith
    have g': "paise (?g + 1 / 100)" using g by (intro on_grid_add on_gridI [of "1/100" 2 1]) simp_all
    have "1 / (10 ^ 4 * W) \<le> \<bar>q - (?g + 1 / 100)\<bar>"
      using gb by (intro grid_gap grid W g') simp_all
    moreover have "q < ?g + 1 / 100" using gb(2) by simp
    ultimately have hi: "Q < ?g + 1 / 100" using small err by linarith
    have Q0: "0 \<le> Q" using lo gb by linarith
    have "?g \<le> round_down 2 Q" using lo by (intro round_down_grid_le Q0 g) simp
    moreover have "round_down 2 Q < ?g + 1 / 100" using round_down_bounds(1) [OF Q0, of 2] hi by linarith
    ultimately have "round_down 2 Q = ?g" by (intro grid_eqI [of 2]) simp_all
    with lo Q0 False show ?thesis by auto
  qed
  then have eq: "round_down 2 Q = ?g" and Q0: "0 \<le> Q" and iff: "Q = ?g \<longleftrightarrow> q = ?g" by auto
  show "round_down 2 Q = ?g" by (rule eq)
  have le: "?g \<le> Q" using round_down_bounds(1) [OF Q0, of 2] eq by simp
  have "Q < 10 ^ 18"
  proof -
    have "Q \<le> q + q / (2 * 10 ^ 19)" using err by linarith
    also have "\<dots> \<le> 2 * q" using q0 by simp
    also have "\<dots> < 10 ^ 18" using qT T by (simp add: split_limit_def)
    finally show ?thesis .
  qed
  then have "d_minus J Q ?g = Q - ?g"
    using le gb by (intro minus_exact minus_grid_representable rQ g) simp_all
  with le iff show "0 < d_minus J Q (round_down 2 Q) \<longleftrightarrow> ?g \<noteq> q" by (auto simp: eq)
qed

lemma hand_out_spec:
  assumes "distinct (map fst es)" and "\<forall>e\<in>set es. fst e < length shares"
    and "m \<le> length es" and "of_nat m / 100 \<le> split_limit"
    and "\<forall>e\<in>set es. paise (shares ! fst e) \<and> 0 \<le> shares ! fst e \<and> shares ! fst e \<le> split_limit"
  shows "length (hand_out J es (of_nat m / 100) shares) = length shares \<and>
    (\<forall>i<length shares. hand_out J es (of_nat m / 100) shares ! i =
      shares ! i + (if i \<in> fst ` set (take m es) then 1 / 100 else 0))"
  using assms
proof (induction es arbitrary: m shares)
  case Nil
  then show ?case by simp
next
  case (Cons e es)
  obtain i r w where e: "e = (i, r, w)" by (cases e)
  show ?case
  proof (cases m)
    case 0
    then show ?thesis by (simp add: e)
  next
    case (Suc m')
    have one: "paise (1 / 100)" by (rule on_gridI [of _ _ 1]) simp
    have pm: "paise (of_nat m / 100)" by (rule on_gridI [of _ _ "int m"]) simp
    have mb: "(of_nat m :: rat) / 100 < 10 ^ 18" using Cons.prems(4) by (simp add: split_limit_def)
    have "d_minus J (of_nat m / 100) (1 / 100) = of_nat m / 100 - 1 / 100"
      using one pm mb Suc by (intro minus_between) (simp_all add: field_simps)
    then have R: "d_minus J (of_nat m / 100) (1 / 100) = of_nat m' / 100" by (simp add: Suc field_simps)
    have si: "paise (shares ! i)" "0 \<le> shares ! i" "shares ! i \<le> split_limit" "i < length shares"
      using Cons.prems(2,5) by (simp_all add: e)
    have P: "d_plus J (shares ! i) (1 / 100) = shares ! i + 1 / 100"
      using si one by (intro plus_paise) (simp_all add: split_limit_def)
    have ni: "i \<notin> fst ` set es" using Cons.prems(1) by (simp add: e)
    let ?sh = "shares[i := shares ! i + 1 / 100]"
    have "\<forall>e\<in>set es. ?sh ! fst e = shares ! fst e"
      using ni by (metis imageI nth_list_update_neq)
    then have IH: "length (hand_out J es (of_nat m' / 100) ?sh) = length ?sh \<and>
      (\<forall>k<length ?sh. hand_out J es (of_nat m' / 100) ?sh ! k =
        ?sh ! k + (if k \<in> fst ` set (take m' es) then 1 / 100 else 0))"
      using Cons.prems Suc by (intro Cons.IH) (auto simp: split_limit_def)
    have "hand_out J (e # es) (of_nat m / 100) shares = hand_out J es (of_nat m' / 100) ?sh"
      by (simp add: e R P Suc [symmetric]) (simp add: Suc)
    moreover have "i \<notin> fst ` set (take m' es)" using ni by (meson image_mono in_mono set_take_subset)
    ultimately show ?thesis using IH si(4) by (auto simp: Suc e nth_list_update)
  qed
qed

lemma sum_bump:
  assumes "length r = length s" and "\<forall>i<length s. r ! i = s ! i + (if i \<in> S then c else 0)"
    and "S \<subseteq> {..<length s}"
  shows "sum_list r = sum_list s + of_nat (card S) * (c::rat)"
proof -
  have "sum_list r = (\<Sum>i<length s. s ! i + (if i \<in> S then c else 0))"
    using assms(1,2) by (simp add: sum_list_sum_nth atLeast0LessThan)
  also have "\<dots> = sum_list s + (\<Sum>i<length s. if i \<in> S then c else 0)"
    by (simp add: sum.distrib sum_list_sum_nth atLeast0LessThan)
  also have "(\<Sum>i<length s. if i \<in> S then c else 0) = (\<Sum>i\<in>S. c)"
    using assms(3) by (simp add: sum.inter_restrict [symmetric] Int_absorb1)
  finally show ?thesis by simp
qed

lemma order_take:
  assumes "length es = n" and "\<forall>i<n. fst (es ! i) = i \<and> ((0::rat) < fst (snd (es ! i)) \<longleftrightarrow> P i)"
    and "m = 0 \<or> m < card {i. i < n \<and> P i}"
  defines "os \<equiv> sort_key share_key es"
  shows "distinct (map fst os)" and "fst ` set os = {..<n}"
    and "fst ` set (take m os) \<subseteq> {i. i < n \<and> P i}" and "card (fst ` set (take m os)) = m"
    and "m \<le> length os"
proof -
  have fst: "map fst es = [0..<n]" using assms(1,2) by (intro nth_equalityI) auto
  then have d: "distinct (map fst es)" by simp
  have ms: "mset os = mset es" by (simp add: os_def)
  then have "mset (map fst os) = mset (map fst es)" by simp
  then show dos: "distinct (map fst os)" using d by (metis mset_eq_imp_distinct_iff)
  show img: "fst ` set os = {..<n}"
    using fst by (simp add: os_def) (metis atLeast0LessThan set_map set_upt)
  let ?pos = "\<lambda>e. 0 < fst (snd e)"
  have "length (filter ?pos es) = card {i. i < n \<and> P i}"
    using assms(1,2) by (simp add: length_filter_conv_card) (meson)
  moreover have "length (filter ?pos os) = length (filter ?pos es)"
    using ms by (metis mset_filter size_mset)
  ultimately have cnt: "length (filter ?pos os) = card {i. i < n \<and> P i}" by simp
  have "sorted (map share_key os)" by (simp add: os_def)
  then have "sorted_wrt (\<lambda>a b. share_key a \<le> share_key b) os" by (simp add: sorted_map)
  then have sw: "sorted_wrt (\<lambda>a b. fst (snd b) \<le> fst (snd a)) os"
    by (rule sorted_wrt_mono_rel [rotated]) (auto simp: share_key_def less_eq_prod_def split: prod.splits)
  have tp: "\<forall>e\<in>set (take m os). ?pos e"
  proof (cases "m = 0")
    case False
    with assms(3) cnt have "m < length (filter ?pos os)" by simp
    then show ?thesis by (rule sorted_take_positive [OF sw])
  qed simp
  have shape: "fst e < n \<and> (?pos e \<longleftrightarrow> P (fst e))" if "e \<in> set os" for e
  proof -
    from that ms have "e \<in> set es" by (metis set_mset_mset)
    then obtain i where "i < n" "e = es ! i" using assms(1) by (auto simp: in_set_conv_nth)
    with assms(2) show ?thesis by simp
  qed
  show "fst ` set (take m os) \<subseteq> {i. i < n \<and> P i}"
    using tp shape set_take_subset [of m os] by blast
  have "card {i. i < n \<and> P i} \<le> n"
    using card_mono [of "{..<n}" "{i. i < n \<and> P i}"] by auto
  moreover have "length os = n" using ms assms(1) by (metis size_mset)
  ultimately show ml: "m \<le> length os" using assms(3) by auto
  have "card (set (map fst (take m os))) = length (take m os)"
    using dos by (metis distinct_card distinct_take length_map take_map)
  then show "card (fst ` set (take m os)) = m" using ml by simp
qed

lemma floors_shortfall:
  fixes q :: "nat \<Rightarrow> rat"
  assumes "\<forall>i<n. 0 \<le> q i"
    and "(\<Sum>i<n. q i) - (\<Sum>i<n. round_down 2 (q i)) = of_nat m / 100" and "0 < m"
  shows "m < card {i. i < n \<and> round_down 2 (q i) \<noteq> q i}"
proof -
  let ?P = "{i. i < n \<and> round_down 2 (q i) \<noteq> q i}"
  have lt: "q i - round_down 2 (q i) < 1 / 100" if "i < n" for i
    using round_down_bounds(2) [of "q i" 2] assms(1) that by simp
  have "(\<Sum>i<n. q i) - (\<Sum>i<n. round_down 2 (q i)) = (\<Sum>i<n. q i - round_down 2 (q i))"
    by (simp add: sum_subtractf)
  also have "\<dots> = (\<Sum>i\<in>?P. q i - round_down 2 (q i))"
    by (rule sum.mono_neutral_right) auto
  finally have eq: "of_nat m / 100 = (\<Sum>i\<in>?P. q i - round_down 2 (q i))" using assms(2) by simp
  then have "?P \<noteq> {}" using assms(3) by (metis divide_eq_0_iff less_numeral_extra(3) of_nat_eq_0_iff sum.empty zero_neq_numeral)
  moreover have "finite ?P" by simp
  ultimately have "(\<Sum>i\<in>?P. q i - round_down 2 (q i)) < (\<Sum>i\<in>?P. 1 / 100)"
    using lt by (intro sum_strict_mono) auto
  with eq have "(of_nat m :: rat) / 100 < of_nat (card ?P) / 100" by simp
  then show ?thesis by (simp add: divide_less_cancel)
qed

lemma split_spec:
  assumes T: "paise (money J T)" "0 < money J T" "money J T \<le> split_limit"
    and ws: "\<forall>w\<in>set ws. paise w \<and> 0 \<le> w" and W: "0 < sum_list ws" "sum_list ws \<le> split_limit"
  defines "r \<equiv> distributeProRata J T ws" and "q \<equiv> \<lambda>i. money J T * ws ! i / sum_list ws"
  shows "length r = length ws" and "sum_list r = money J T"
    and "\<forall>i<length ws. r ! i = round_down 2 (q i) \<or>
      (round_down 2 (q i) \<noteq> q i \<and> r ! i = round_down 2 (q i) + 1 / 100)"
proof -
  let ?T = "money J T" and ?W = "sum_list ws" and ?n = "length ws"
  have col: "exact_column ws" using ws W by (intro exact_column_nonneg) (auto simp: split_limit_def)
  have pW: "paise ?W" using exact_column_sum [OF col] by simp
  have sumW: "sum_money J ws = ?W" by (rule sum_money_exact [OF col])
  have wle: "w \<le> ?W" if "w \<in> set ws" for w using ws that by (intro sum_list_nonneg_elem) auto
  define sh where "sh = map (\<lambda>w. d_toDP J (exact_share J ?T ?W w) 2 ROUND_DOWN) ws"
  define es where "es = map (\<lambda>(i, w). (i, d_minus J (exact_share J ?T ?W w) (sh ! i), w)) (enumerate 0 ws)"
  have floor: "round_down 2 (exact_share J ?T ?W (ws ! i)) = round_down 2 (q i)"
    and pos: "0 < d_minus J (exact_share J ?T ?W (ws ! i)) (round_down 2 (exact_share J ?T ?W (ws ! i)))
      \<longleftrightarrow> round_down 2 (q i) \<noteq> q i" if "i < ?n" for i
    using share_floor [OF T pW W, of "ws ! i"] ws wle that by (simp_all add: q_def)
  have len: "length sh = ?n" by (simp add: sh_def)
  have shn: "sh ! i = round_down 2 (q i)" if "i < ?n" for i
    using that floor by (simp add: sh_def toDP_down)
  have esn: "es ! i = (i, d_minus J (exact_share J ?T ?W (ws ! i)) (sh ! i), ws ! i)" if "i < ?n" for i
    using that by (simp add: es_def nth_enumerate_eq)
  have lenes: "length es = ?n" by (simp add: es_def)
  have q0: "0 \<le> q i" if "i < ?n" for i using ws W T that by (simp add: q_def)
  have qsum: "(\<Sum>i<?n. q i) = ?T"
  proof -
    have "(\<Sum>i<?n. q i) = ?T * (\<Sum>i<?n. ws ! i) / ?W" by (simp add: q_def sum_distrib_left sum_divide_distrib)
    also have "(\<Sum>i<?n. ws ! i) = ?W" by (simp add: sum_list_sum_nth atLeast0LessThan)
    finally show ?thesis using W by simp
  qed
  have shsum: "sum_list sh = (\<Sum>i<?n. round_down 2 (q i))"
    by (simp add: sum_list_sum_nth len atLeast0LessThan shn)
  have "(\<Sum>i<?n. round_down 2 (q i)) \<le> (\<Sum>i<?n. q i)"
    using q0 by (intro sum_mono round_down_bounds(1)) simp
  then have le: "sum_list sh \<le> ?T" by (simp add: shsum qsum)
  have shok: "\<forall>s\<in>set sh. paise s \<and> 0 \<le> s"
    using shn len q0 round_down_bounds(3) by (auto simp: in_set_conv_nth)
  have "sum_list sh < 10 ^ 18" using le T by (simp add: split_limit_def)
  then have cols: "exact_column sh" using shok by (intro exact_column_nonneg) auto
  have ps: "paise (sum_list sh)" "0 \<le> sum_list sh"
    using exact_column_sum [OF cols] shok by (auto intro: sum_list_nonneg)
  have R: "d_minus J ?T (sum_money J sh) = ?T - sum_list sh"
    using T le ps by (simp add: sum_money_exact [OF cols] split_limit_def minus_between)
  have "paise (?T - sum_list sh)" using T ps by (intro on_grid_diff) auto
  then obtain k :: int where k: "(?T - sum_list sh) * 10 ^ 2 = of_int k" by (auto simp: on_grid_def)
  then have "0 \<le> (of_int k :: rat)" using le by (metis diff_ge_0_iff_ge mult_nonneg_nonneg zero_le_numeral zero_le_power)
  then have "0 \<le> k" by simp
  with k have m: "?T - sum_list sh = of_nat (nat k) / 100" by simp
  let ?m = "nat k" and ?os = "sort_key share_key es"
  have short: "?m = 0 \<or> ?m < card {i. i < ?n \<and> round_down 2 (q i) \<noteq> q i}"
  proof (cases "?m = 0")
    case False
    then have "0 < ?m" by simp
    moreover have "(\<Sum>i<?n. q i) - (\<Sum>i<?n. round_down 2 (q i)) = of_nat ?m / 100"
      unfolding qsum shsum [symmetric] by (rule m)
    ultimately show ?thesis using floors_shortfall [of ?n q ?m] q0 by blast
  qed simp
  have es_shape: "\<forall>i<?n. fst (es ! i) = i \<and> (0 < fst (snd (es ! i)) \<longleftrightarrow> round_down 2 (q i) \<noteq> q i)"
    using esn pos floor shn by simp
  note ord = order_take [OF lenes es_shape short]
  have "r = hand_out J ?os (d_minus J ?T (sum_money J sh)) sh"
    using T(2) W(1) by (auto simp: r_def distributeProRata_def Let_def sumW sh_def es_def)
  then have r: "r = hand_out J ?os (of_nat ?m / 100) sh" by (simp only: R m)
  have bound: "sh ! i \<le> split_limit" if "i < ?n" for i
  proof -
    have "sh ! i \<in> set sh" using that len by simp
    then have "sh ! i \<le> sum_list sh" using shok by (intro sum_list_nonneg_elem) auto
    with le T(3) show ?thesis by linarith
  qed
  have "length r = length sh \<and> (\<forall>i<length sh. r ! i =
      sh ! i + (if i \<in> fst ` set (take ?m ?os) then 1 / 100 else 0))"
  proof -
    have "\<forall>e\<in>set ?os. fst e < ?n" using ord(2) by (metis imageI lessThan_iff)
    then have "\<forall>e\<in>set ?os. fst e < length sh \<and> paise (sh ! fst e) \<and> 0 \<le> sh ! fst e \<and> sh ! fst e \<le> split_limit"
      using bound shok len by simp
    moreover have "of_nat ?m / 100 \<le> split_limit" using m ps(2) T(3) by linarith
    ultimately show ?thesis unfolding r using ord(1,5) by (intro hand_out_spec) blast+
  qed
  with len have lr: "length r = ?n" and rn: "\<forall>i<?n. r ! i = sh ! i + (if i \<in> fst ` set (take ?m ?os) then 1 / 100 else 0)"
    by auto
  show "length r = ?n" by (rule lr)
  have "sum_list r = sum_list sh + of_nat (card (fst ` set (take ?m ?os))) * (1 / 100)"
    using lr rn len ord(3) by (intro sum_bump) auto
  then show "sum_list r = ?T" using m by (simp add: ord(4))
  show "\<forall>i<?n. r ! i = round_down 2 (q i) \<or>
      (round_down 2 (q i) \<noteq> q i \<and> r ! i = round_down 2 (q i) + 1 / 100)"
    using rn shn ord(3) by auto
qed

text \<open>What the engine relies on, zero totals and zero weights included.\<close>

lemma split_trivial:
  assumes "split_ok ws" and "money J T = 0 \<or> sum_list ws = 0"
  shows "distributeProRata J T ws = map (\<lambda>_. 0) ws"
  using assms by (auto simp: distributeProRata_def Let_def sum_money_exact split_ok_column)

lemma split_length: "split_ok ws \<Longrightarrow> 0 \<le> money J T \<Longrightarrow> money J T \<le> split_limit \<Longrightarrow>
    length (distributeProRata J T ws) = length ws"
  using split_trivial [of ws T] split_spec(1) [of T ws] split_ok_nonneg [of ws]
  by (cases "money J T = 0 \<or> sum_list ws = 0") (auto simp: split_ok_def)

lemma split_sum: "split_ok ws \<Longrightarrow> 0 < sum_list ws \<Longrightarrow> 0 \<le> money J T \<Longrightarrow> money J T \<le> split_limit \<Longrightarrow>
    sum_list (distributeProRata J T ws) = money J T"
  using split_trivial [of ws T] split_spec(2) [of T ws]
  by (cases "money J T = 0") (auto simp: split_ok_def)

lemma split_between:
  assumes "split_ok ws" and "0 < sum_list ws" and "0 < money J T" and "money J T \<le> split_limit"
    and "i < length ws"
  defines "q \<equiv> money J T * ws ! i / sum_list ws" and "r \<equiv> distributeProRata J T ws ! i"
  shows "paise r" and "0 \<le> r" and "\<bar>r - q\<bar> < 1 / 100" and "money J T \<le> sum_list ws \<Longrightarrow> r \<le> ws ! i"
proof -
  have w: "paise (ws ! i)" "0 \<le> ws ! i" using assms(1,5) by (auto simp: split_ok_def)
  have q0: "0 \<le> q" using w assms(2,3) by (simp add: q_def)
  note b = round_down_bounds [OF q0, of 2]
  have one: "paise (1 / 100)" by (rule on_gridI [of _ _ 1]) simp
  have shape: "r = round_down 2 q \<or> round_down 2 q \<noteq> q \<and> r = round_down 2 q + 1 / 100"
    using split_spec(3) [of T ws] assms by (simp add: split_ok_def)
  then show "paise r" using one by auto
  show "0 \<le> r" using shape b by auto
  show "\<bar>r - q\<bar> < 1 / 100" using shape b by auto
  assume le: "money J T \<le> sum_list ws"
  have "money J T * ws ! i \<le> sum_list ws * ws ! i" using le w by (intro mult_right_mono) simp_all
  then have qw: "q \<le> ws ! i" using assms(2) by (simp add: q_def divide_le_eq mult.commute)
  show "r \<le> ws ! i"
    using shape
  proof
    assume "r = round_down 2 q"
    then show ?thesis using b(1) qw by linarith
  next
    assume *: "round_down 2 q \<noteq> q \<and> r = round_down 2 q + 1 / 100"
    then have "round_down 2 q < ws ! i" using b(1) qw by linarith
    then have "round_down 2 q + 1 / 10 ^ 2 \<le> ws ! i" by (intro grid_less_step w) simp
    with * show ?thesis by simp
  qed
qed

lemma split_within:
  assumes "split_ok ws" and "0 \<le> money J T" and "money J T \<le> sum_list ws" and "i < length ws"
  shows "paise (distributeProRata J T ws ! i)" and "0 \<le> distributeProRata J T ws ! i"
    and "distributeProRata J T ws ! i \<le> ws ! i"
proof -
  have lim: "sum_list ws \<le> split_limit" and w: "0 \<le> ws ! i" using assms by (auto simp: split_ok_def)
  have "paise (distributeProRata J T ws ! i) \<and> 0 \<le> distributeProRata J T ws ! i \<and> distributeProRata J T ws ! i \<le> ws ! i"
  proof (cases "money J T = 0")
    case True
    then show ?thesis using split_trivial [OF assms(1)] assms(4) w by simp
  next
    case False
    then show ?thesis using split_between [OF assms(1) _ _ _ assms(4)] assms(2,3) lim by simp
  qed
  then show "paise (distributeProRata J T ws ! i)" and "0 \<le> distributeProRata J T ws ! i"
    and "distributeProRata J T ws ! i \<le> ws ! i" by auto
qed

lemma split_total:
  assumes "split_ok ws" and "0 \<le> money J T" and "money J T \<le> sum_list ws"
  shows "sum_list (distributeProRata J T ws) = money J T" and "length (distributeProRata J T ws) = length ws"
proof -
  have lim: "sum_list ws \<le> split_limit" using assms by (simp add: split_ok_def)
  show "length (distributeProRata J T ws) = length ws" using split_length [of ws T] assms lim by simp
  show "sum_list (distributeProRata J T ws) = money J T"
  proof (cases "sum_list ws = 0")
    case True
    with assms have "money J T = 0" by simp
    then show ?thesis using split_trivial [OF assms(1)] by (simp add: sum_list_0)
  next
    case False
    then show ?thesis using split_sum [of ws T] split_ok_nonneg [of ws] assms lim by simp
  qed
qed

end

section \<open>Choosing the discount slab\<close>

lemma best_slab_Some_acc:
  "best_slab age (Some b) ss = Some r \<Longrightarrow> (r = b \<or> r \<in> set ss \<and> age \<le> slab_days r) \<and>
    slab_perc b \<le> slab_perc r \<and> (\<forall>s\<in>set ss. age \<le> slab_days s \<longrightarrow> slab_perc s \<le> slab_perc r)"
proof (induction ss arbitrary: b)
  case (Cons s ss)
  show ?case
  proof (cases "slab_days s < age")
    case True
    with Cons show ?thesis by auto
  next
    case False
    with Cons.prems have "best_slab age (Some (if slab_perc b < slab_perc s then s else b)) ss = Some r"
      by (simp split: if_splits)
    from Cons.IH [OF this] False show ?thesis by (auto split: if_splits)
  qed
qed simp

lemma best_slab_Some_ne: "best_slab age (Some b) ss \<noteq> None"
  by (induction ss arbitrary: b) auto

lemma best_slab_None_iff: "best_slab age None ss = None \<longleftrightarrow> (\<forall>s\<in>set ss. slab_days s < age)"
  by (induction ss) (auto simp: best_slab_Some_ne)

lemma best_slab_best:
  "best_slab age None ss = Some r \<Longrightarrow> r \<in> set ss \<and> age \<le> slab_days r \<and>
    (\<forall>s\<in>set ss. age \<le> slab_days s \<longrightarrow> slab_perc s \<le> slab_perc r)"
proof (induction ss)
  case (Cons s ss)
  then show ?case
    using best_slab_Some_acc [of age s ss r] by (cases "slab_days s < age") auto
qed simp

section \<open>Properties\<close>

text \<open>
  C21: the pro-rata split loses and invents nothing. For non-negative weights in paise with a
  positive total, every share is a non-negative amount in paise less than one paisa away from
  its exact proportion, and the shares sum to the amount rounded to the paisa. When the amount is no more than the
  weights hold, no share is more than its weight, so a spread deduction never overfills a bill.
\<close>

theorem distributeProRata_exact:
  assumes "decimal_package J" and "split_ok ws" and "0 < sum_list ws"
    and "0 < money J amount" and "money J amount \<le> split_limit"
  shows "length (distributeProRata J amount ws) = length ws \<and>
    sum_list (distributeProRata J amount ws) = money J amount \<and>
    (\<forall>i<length ws. paise (distributeProRata J amount ws ! i) \<and> 0 \<le> distributeProRata J amount ws ! i \<and>
      \<bar>distributeProRata J amount ws ! i - money J amount * ws ! i / sum_list ws\<bar> < 1 / 100) \<and>
    (money J amount \<le> sum_list ws \<longrightarrow> (\<forall>i<length ws. distributeProRata J amount ws ! i \<le> ws ! i))"
  using decimal_package.split_length [OF assms(1,2), of amount]
    decimal_package.split_sum [OF assms(1,2,3), of amount]
    decimal_package.split_between [OF assms(1-5)] decimal_package.split_within [OF assms(1,2), of amount] assms(4,5)
  by simp

theorem distributeProRata_exact_witness:
  "length (distributeProRata decimal20 100 [1, 1, 1]) = length [1::rat, 1, 1] \<and>
   sum_list (distributeProRata decimal20 100 [1, 1, 1]) = 100"
  using distributeProRata_exact [OF decimal20_package, of "[1, 1, 1]" 100]
  by (simp add: split_ok_def split_limit_def)

text \<open>
  A split of no more than the weights hold gives no weight more than itself, so a spread
  deduction never overfills a bill.
\<close>

theorem distributeProRata_within:
  assumes "decimal_package J" and "split_ok ws" and "0 \<le> money J amount"
    and "money J amount \<le> sum_list ws" and "i < length ws"
  shows "0 \<le> distributeProRata J amount ws ! i \<and> distributeProRata J amount ws ! i \<le> ws ! i"
  using decimal_package.split_within [OF assms] by simp

theorem distributeProRata_within_witness:
  "0 \<le> distributeProRata decimal20 2 [1, 3] ! 1 \<and> distributeProRata decimal20 2 [1, 3] ! 1 \<le> [1, 3] ! 1"
  using distributeProRata_within [OF decimal20_package, of "[1, 3]" 2 1]
  by (simp add: split_ok_def split_limit_def)

text \<open>
  The prompt-payment discount uses the most generous slab the payment still qualifies for:
  the chosen slab admits the bill's age and no admitting slab gives a higher percentage; with no
  admitting slab, or nothing pending, the suggestion is zero.
\<close>

theorem suggestPpdDiscount_best:
  "suggestPpdDiscount J docDate onDate pending slabs =
     (if 0 < pending \<and> (\<exists>s\<in>set slabs. max 0 (daysBetween docDate onDate) \<le> slab_days s)
      then money J (d_div J (d_times J pending
        (Max (slab_perc ` {s \<in> set slabs. max 0 (daysBetween docDate onDate) \<le> slab_days s}))) 100)
      else 0)"
proof -
  let ?age = "max 0 (daysBetween docDate onDate)"
  let ?Q = "{s \<in> set slabs. ?age \<le> slab_days s}"
  show ?thesis
  proof (cases "best_slab ?age None slabs")
    case None
    then have "\<not> (\<exists>s\<in>set slabs. ?age \<le> slab_days s)" by (auto simp: best_slab_None_iff)
    with None show ?thesis by (auto simp: suggestPpdDiscount_def)
  next
    case (Some r)
    note b = best_slab_best [OF Some]
    have "Max (slab_perc ` ?Q) = slab_perc r" using b by (intro Max_eqI) auto
    moreover have "slabs \<noteq> []" using b by auto
    moreover have "\<exists>s\<in>set slabs. ?age \<le> slab_days s" using b by auto
    ultimately show ?thesis using Some by (simp add: suggestPpdDiscount_def)
  qed
qed

end
