(* ===== verification/Accounts_Types.thy ===== *)
theory Accounts_Types
  imports Decimal_Js
begin

text \<open>
  The vocabularies of \<open>accountsModule/receipt/types/receipt-enum.ts\<close> the components share, and
  the error codes of \<open>acc-error-codes.ts\<close> and \<open>vouchers.errors.ts\<close> the modelled code raises.
\<close>

section \<open>Enums\<close>

datatype DrCr = DR | CR

datatype BillType = SALES | PURCHASE | SALES_RETURN | PURCHASE_RETURN | OPENING | ADVANCE | INTEREST | JOURNAL

datatype BillAdjType = ALLOCATION | ADVANCE_ADJUST | NOTE_ADJUST | DISCOUNT | WRITEOFF | ROUND_OFF | TRANSFER

datatype BillSettlementMode = CASH | CARD | UPI | WALLET | CHEQUE | BANK | CREDIT_NOTE | ADVANCE
  | LOYALTY | VOUCHER | JOURNAL | DISCOUNT | WRITEOFF | ROUND_OFF | MIXED | TDS | CLAIM

definition otherSide :: "DrCr \<Rightarrow> DrCr" where
  "otherSide s = (case s of DR \<Rightarrow> CR | CR \<Rightarrow> DR)"

lemma otherSide_simps [simp]: "otherSide DR = CR" "otherSide CR = DR" "otherSide (otherSide s) = s"
  "otherSide s \<noteq> s" "s \<noteq> otherSide s" "otherSide s = otherSide t \<longleftrightarrow> s = t"
  by (cases s; cases t; simp add: otherSide_def)+

lemma DrCr_neq: "s \<noteq> DR \<longleftrightarrow> s = CR" "s \<noteq> CR \<longleftrightarrow> s = DR"
  by (cases s; simp)+

end
