(* ===== verification/Allocation_Engine.thy ===== *)
theory Allocation_Engine
  imports Receipt_Utils Accounts_Types
begin

text \<open>
  \<open>accountsModule/receipt/allocation-engine.ts\<close>: the pure function that decides how a receipt
  (or, with the sides mirrored, a payment) is poured into bills. One definition per function of
  the file, in its order. The arrays the code mutates (\<open>capacity\<close>, \<open>sources\<close>, \<open>out\<close>) are passed
  and returned; a throw of \<open>AllocationError\<close> is \<open>Inl\<close>, with the kind, the field and the code of
  its one detail (the message text is not represented). The inner loop of \<open>pour\<close> may run forever
  for an arbitrary decimal package, so it is a \<open>partial_function\<close> and \<open>None\<close> is not returning.
\<close>

section \<open>Errors\<close>

datatype alloc_kind = CONFLICT | VALIDATION

datatype alloc_error = AllocationError (err_kind: alloc_kind) (err_field: string) (err_code: string)

definition conflict :: "string \<Rightarrow> string \<Rightarrow> alloc_error" where
  "conflict field code = AllocationError CONFLICT field code"

definition invalid :: "string \<Rightarrow> string \<Rightarrow> alloc_error" where
  "invalid field code = AllocationError VALIDATION field code"

section \<open>Input\<close>

type_synonym voucher_key = string

definition RECEIPT_VOUCHER_KEY :: voucher_key where
  "RECEIPT_VOUCHER_KEY = ''RECEIPT''"

definition pdcVoucherKey :: "int \<Rightarrow> voucher_key" where
  "pdcVoucherKey tenderRowNo = ''PDC:'' @ show_int tenderRowNo"

datatype direction = IN | OUT

record alloc_bill =
  ab_billId :: string
  ab_billAccYear :: string
  ab_docRefno :: string
  ab_amount :: rat
  ab_discount :: rat
  ab_writeoff :: rat
  ab_roundoff :: rat
  ab_pendingAmount :: rat
  ab_writeoffApprovedBy :: "string option"

record alloc_credit =
  ac_billId :: string
  ac_billAccYear :: string
  ac_billType :: BillType
  ac_docRefno :: string
  ac_amount :: rat
  ac_pendingAmount :: rat
  ac_adjType :: BillAdjType
  ac_settlementMode :: BillSettlementMode

record alloc_other_line =
  ol_lineNo :: int
  ol_role :: "string option"
  ol_ledgerId :: string
  ol_drCr :: DrCr
  ol_amount :: rat
  ol_settlesBill :: bool
  ol_settlementMode :: BillSettlementMode
  ol_isInstrumentSplit :: bool
  ol_approvedBy :: "string option"

record alloc_tender =
  at_tenderRowNo :: int
  at_amount :: rat
  at_isCheque :: bool
  at_isPostDated :: bool
  at_instrumentDate :: "int option"
  at_settlementMode :: BillSettlementMode

record alloc_pin =
  pin_lineNo :: int
  pin_billId :: string
  pin_billAccYear :: string
  pin_amount :: rat

record alloc_input =
  ai_receiptDate :: int
  ai_bills :: "alloc_bill list"
  ai_credits :: "alloc_credit list"
  ai_otherLines :: "alloc_other_line list"
  ai_tenders :: "alloc_tender list"
  ai_pins :: "alloc_pin list"
  ai_claimedOnAccount :: rat
  ai_direction :: "direction option"

section \<open>Output\<close>

record alloc_adjustment =
  adj_billId :: string
  adj_billAccYear :: string
  adj_adjType :: BillAdjType
  adj_settlementMode :: BillSettlementMode
  adj_drCr :: DrCr
  adj_amount :: rat
  adj_adjDate :: int
  adj_isPostDated :: bool
  adj_voucherKey :: voucher_key
  adj_tenderRowNo :: "int option"
  adj_otherLineNo :: "int option"
  adj_againstBill :: "(string \<times> string) option"
  adj_approvedBy :: "string option"
  adj_countsToAdjustAmount :: bool
  adj_remarks :: "string option"

record alloc_on_account =
  oa_voucherKey :: voucher_key
  oa_amount :: rat
  oa_onDate :: int

record alloc_result =
  ar_adjustments :: "alloc_adjustment list"
  ar_onAccount :: "alloc_on_account list"
  ar_totalOnAccount :: rat
  ar_adjustAmountByVoucher :: "(voucher_key \<times> rat) list"
  ar_partyCreditByVoucher :: "(voucher_key \<times> rat) list"
  ar_partyLegSide :: DrCr

section \<open>The engine's own types\<close>

datatype source_kind = CREDIT | MONEY | CHEQUE

record source =
  src_kind :: source_kind
  src_remaining :: rat
  src_voucherKey :: voucher_key
  src_adjDate :: int
  src_isPostDated :: bool
  src_settlementMode :: BillSettlementMode
  src_tenderRowNo :: "int option"
  src_credit :: "alloc_credit option"

record sides =
  sd_direction :: direction
  sd_settle :: DrCr
  sd_mirror :: DrCr
  sd_deduction :: DrCr
  sd_extra :: DrCr
  sd_moved :: string
  sd_route :: string

definition sidesOf :: "alloc_input \<Rightarrow> sides" where
  "sidesOf input = (if ai_direction input = Some OUT
     then \<lparr> sd_direction = OUT, sd_settle = DR, sd_mirror = CR, sd_deduction = CR, sd_extra = DR,
            sd_moved = ''Paid'', sd_route = ''/payments/open-items'' \<rparr>
     else \<lparr> sd_direction = IN, sd_settle = CR, sd_mirror = DR, sd_deduction = DR, sd_extra = CR,
            sd_moved = ''Received'', sd_route = ''/receipts/open-items'' \<rparr>)"

definition isDeduction :: "alloc_other_line \<Rightarrow> sides \<Rightarrow> bool" where
  "isDeduction line sides \<longleftrightarrow>
     ol_drCr line = sd_deduction sides \<and> ol_settlesBill line \<and> \<not> ol_isInstrumentSplit line"

definition isFloating :: "alloc_other_line \<Rightarrow> sides \<Rightarrow> bool" where
  "isFloating line sides \<longleftrightarrow>
     ol_drCr line = sd_deduction sides \<and> \<not> ol_settlesBill line \<and> \<not> ol_isInstrumentSplit line"

definition isExtra :: "alloc_other_line \<Rightarrow> sides \<Rightarrow> bool" where
  "isExtra line sides \<longleftrightarrow> ol_drCr line = sd_extra sides"

text \<open>The template key of a bill, \<open>`${billId}|${billAccYear}`\<close>.\<close>

definition key_of :: "string \<Rightarrow> string \<Rightarrow> string" where
  "key_of billId accYear = billId @ ''|'' @ accYear"

definition bill_key :: "alloc_bill \<Rightarrow> string" where
  "bill_key bill = key_of (ab_billId bill) (ab_billAccYear bill)"

definition credit_key :: "alloc_credit \<Rightarrow> string" where
  "credit_key c = key_of (ac_billId c) (ac_billAccYear c)"

section \<open>Validation\<close>

definition indexed :: "string \<Rightarrow> nat \<Rightarrow> string \<Rightarrow> string" where
  "indexed pre i post = pre @ show_nat i @ post"

definition bill_settled :: "decimal_js \<Rightarrow> alloc_bill \<Rightarrow> rat" where
  "bill_settled J bill = d_plus J (d_plus J (d_plus J (money J (ab_amount bill)) (ab_discount bill))
     (ab_writeoff bill)) (ab_roundoff bill)"

fun assertBillsFit_from :: "decimal_js \<Rightarrow> nat \<Rightarrow> string list \<Rightarrow> alloc_bill list \<Rightarrow> alloc_error + unit" where
  "assertBillsFit_from J index seen [] = Inr ()"
| "assertBillsFit_from J index seen (bill # bills) =
     (if bill_key bill \<in> set seen then Inl (invalid (indexed ''allocations.'' index ''.billId'') ''ACC_INVALID'')
      else if ab_amount bill < 0 \<or> ab_discount bill < 0 \<or> ab_writeoff bill < 0 \<or> ab_roundoff bill < 0
        then Inl (invalid (indexed ''allocations.'' index ''.amount'') ''VCH_LINE_AMOUNT'')
      else if bill_settled J bill \<le> 0
        then Inl (invalid (indexed ''allocations.'' index ''.amount'') ''VCH_LINE_AMOUNT'')
      else if money J (ab_pendingAmount bill) < bill_settled J bill
        then Inl (conflict (indexed ''allocations.'' index ''.amount'') ''ACC_BILL_MOVED'')
      else assertBillsFit_from J (Suc index) (bill_key bill # seen) bills)"

definition assertBillsFit :: "decimal_js \<Rightarrow> alloc_bill list \<Rightarrow> alloc_error + unit" where
  "assertBillsFit J bills = assertBillsFit_from J 0 [] bills"

fun assertCreditsFit_from :: "decimal_js \<Rightarrow> nat \<Rightarrow> string list \<Rightarrow> alloc_credit list \<Rightarrow> alloc_error + unit" where
  "assertCreditsFit_from J index seen [] = Inr ()"
| "assertCreditsFit_from J index seen (credit # credits) =
     (if credit_key credit \<in> set seen
        then Inl (invalid (indexed ''creditsApplied.'' index ''.billId'') ''ACC_INVALID'')
      else if money J (ac_amount credit) \<le> 0
        then Inl (invalid (indexed ''creditsApplied.'' index ''.amount'') ''VCH_LINE_AMOUNT'')
      else if money J (ac_pendingAmount credit) < money J (ac_amount credit)
        then Inl (conflict (indexed ''creditsApplied.'' index ''.amount'') ''ACC_CREDIT_MOVED'')
      else assertCreditsFit_from J (Suc index) (credit_key credit # seen) credits)"

definition assertCreditsFit :: "decimal_js \<Rightarrow> alloc_credit list \<Rightarrow> alloc_error + unit" where
  "assertCreditsFit J credits = assertCreditsFit_from J 0 [] credits"

definition assertIdentity :: "decimal_js \<Rightarrow> alloc_input \<Rightarrow> sides \<Rightarrow> alloc_error + unit" where
  "assertIdentity J input sides =
     (let moneyMoved = sum_money J (map (\<lambda>t. money J (at_amount t)) (ai_tenders input));
          deductions = sum_money J (map (\<lambda>l. money J (ol_amount l))
            (filter (\<lambda>l. ol_drCr l = sd_deduction sides \<and> \<not> ol_isInstrumentSplit l) (ai_otherLines input)));
          extras = sum_money J (map (\<lambda>l. money J (ol_amount l))
            (filter (\<lambda>l. isExtra l sides) (ai_otherLines input)));
          credits = sum_money J (map (\<lambda>c. money J (ac_amount c)) (ai_credits input));
          allocated = sum_money J (map (\<lambda>b. money J (ab_amount b)) (ai_bills input));
          claimed = money J (ai_claimedOnAccount input);
          left = d_plus J (d_plus J moneyMoved deductions) credits;
          right = d_plus J (d_plus J allocated claimed) extras;
          instant = sum_money J (map (\<lambda>t. money J (at_amount t))
            (filter (\<lambda>t. \<not> at_isPostDated t) (ai_tenders input)))
      in if left \<noteq> right then Inl (invalid ''onAccount'' ''VCH_UNBALANCED'')
         else if instant < extras then Inl (invalid ''otherLines'' ''ACC_OTHER_LINE_UNFUNDED'')
         else Inr ())"

section \<open>Step 1: deductions reserve\<close>

definition deductionRow ::
  "alloc_input \<Rightarrow> sides \<Rightarrow> alloc_bill \<Rightarrow> alloc_other_line \<Rightarrow> rat \<Rightarrow> alloc_adjustment" where
  "deductionRow input sides bill line amount =
     \<lparr> adj_billId = ab_billId bill, adj_billAccYear = ab_billAccYear bill,
       adj_adjType = BillAdjType.ALLOCATION, adj_settlementMode = ol_settlementMode line,
       adj_drCr = sd_settle sides, adj_amount = amount, adj_adjDate = ai_receiptDate input,
       adj_isPostDated = False, adj_voucherKey = RECEIPT_VOUCHER_KEY, adj_tenderRowNo = None,
       adj_otherLineNo = Some (ol_lineNo line), adj_againstBill = None,
       adj_approvedBy = ol_approvedBy line, adj_countsToAdjustAmount = True, adj_remarks = None \<rparr>"

definition takeFromBill :: "decimal_js \<Rightarrow> rat list \<Rightarrow> nat \<Rightarrow> rat \<Rightarrow> string \<Rightarrow> alloc_error + rat list" where
  "takeFromBill J capacity index amount field =
     (if capacity ! index < amount then Inl (invalid field ''VCH_BILL_OVERSPENT'')
      else Inr (capacity[index := d_minus J (capacity ! index) amount]))"

definition billIndex :: "alloc_bill list \<Rightarrow> string \<Rightarrow> nat option" where
  "billIndex bills key = map_of (rev (map (\<lambda>(i, b). (bill_key b, i)) (enumerate 0 bills))) key"

definition pinnedByLine :: "alloc_pin list \<Rightarrow> (int \<times> alloc_pin list) list" where
  "pinnedByLine pins =
     foldl (\<lambda>m p. jmap_set (pin_lineNo p) (or_else (jmap_get m (pin_lineNo p)) [] @ [p]) m) [] pins"

type_synonym reserve_state = "rat list \<times> alloc_adjustment list"  \<comment> \<open>capacity, out\<close>

fun place_pins :: "decimal_js \<Rightarrow> alloc_input \<Rightarrow> sides \<Rightarrow> alloc_bill list \<Rightarrow> alloc_other_line \<Rightarrow>
    alloc_pin list \<Rightarrow> reserve_state \<Rightarrow> alloc_error + reserve_state" where
  "place_pins J input sides bills line [] st = Inr st"
| "place_pins J input sides bills line (pin # pins) (capacity, out) =
     (case billIndex bills (key_of (pin_billId pin) (pin_billAccYear pin)) of
        None \<Rightarrow> Inl (invalid ''otherLineBills'' ''ACC_INVALID'')
      | Some index \<Rightarrow>
          e_bind (takeFromBill J capacity index (money J (pin_amount pin))
              (''otherLineBills (line '' @ show_int (ol_lineNo line) @ '')''))
            (\<lambda>capacity'. place_pins J input sides bills line pins
              (capacity', out @ [deductionRow input sides (bills ! index) line (money J (pin_amount pin))])))"

fun place_pinned :: "decimal_js \<Rightarrow> alloc_input \<Rightarrow> sides \<Rightarrow> alloc_bill list \<Rightarrow> alloc_other_line list \<Rightarrow>
    (int \<times> alloc_pin list) list \<Rightarrow> reserve_state \<Rightarrow> alloc_error + reserve_state" where
  "place_pinned J input sides bills deductions [] st = Inr st"
| "place_pinned J input sides bills deductions ((lineNo, pins) # groups) st =
     (case find (\<lambda>l. ol_lineNo l = lineNo) deductions of
        None \<Rightarrow> Inl (invalid ''otherLineBills'' ''ACC_INVALID'')
      | Some line \<Rightarrow>
          (if sum_money J (map (\<lambda>p. money J (pin_amount p)) pins) \<noteq> money J (ol_amount line)
             then Inl (invalid ''otherLineBills'' ''ACC_INVALID'')
           else e_bind (place_pins J input sides bills line pins st)
             (\<lambda>st'. place_pinned J input sides bills deductions groups st')))"

fun place_shares :: "decimal_js \<Rightarrow> alloc_input \<Rightarrow> sides \<Rightarrow> alloc_bill list \<Rightarrow> alloc_other_line \<Rightarrow>
    nat \<Rightarrow> rat list \<Rightarrow> reserve_state \<Rightarrow> alloc_error + reserve_state" where
  "place_shares J input sides bills line index [] st = Inr st"
| "place_shares J input sides bills line index (share # shares) (capacity, out) =
     (if share = 0 then place_shares J input sides bills line (Suc index) shares (capacity, out)
      else e_bind (takeFromBill J capacity index share (''otherLines.'' @ show_int (ol_lineNo line) @ ''.amount''))
        (\<lambda>capacity'. place_shares J input sides bills line (Suc index) shares
          (capacity', out @ [deductionRow input sides (bills ! index) line share])))"

fun spread_deductions :: "decimal_js \<Rightarrow> alloc_input \<Rightarrow> sides \<Rightarrow> alloc_bill list \<Rightarrow> int list \<Rightarrow>
    alloc_other_line list \<Rightarrow> rat \<Rightarrow> reserve_state \<Rightarrow> alloc_error + rat \<times> reserve_state" where
  "spread_deductions J input sides bills pinned [] overflow st = Inr (overflow, st)"
| "spread_deductions J input sides bills pinned (line # lines) overflow (capacity, out) =
     (if ol_lineNo line \<in> set pinned
        then spread_deductions J input sides bills pinned lines overflow (capacity, out)
      else let placed = min (money J (ol_amount line)) (sum_money J capacity);
               overflow' = d_plus J overflow (d_minus J (money J (ol_amount line)) placed);
               shares = distributeProRata J placed capacity
           in e_bind (place_shares J input sides bills line 0 shares (capacity, out))
             (\<lambda>st'. spread_deductions J input sides bills pinned lines overflow' st'))"

definition reserveDeductions :: "decimal_js \<Rightarrow> alloc_input \<Rightarrow> sides \<Rightarrow> alloc_bill list \<Rightarrow> reserve_state \<Rightarrow>
    alloc_error + rat \<times> reserve_state" where
  "reserveDeductions J input sides bills st =
     (let deductions = filter (\<lambda>l. isDeduction l sides) (ai_otherLines input);
          groups = pinnedByLine (ai_pins input)
      in e_bind (place_pinned J input sides bills deductions groups st)
        (\<lambda>st'. spread_deductions J input sides bills (map fst groups) deductions 0 st'))"

section \<open>Step 2: the pour\<close>

definition credit_source :: "decimal_js \<Rightarrow> alloc_input \<Rightarrow> alloc_credit \<Rightarrow> source" where
  "credit_source J input credit =
     \<lparr> src_kind = CREDIT, src_remaining = money J (ac_amount credit), src_voucherKey = RECEIPT_VOUCHER_KEY,
       src_adjDate = ai_receiptDate input, src_isPostDated = False,
       src_settlementMode = ac_settlementMode credit, src_tenderRowNo = None, src_credit = Some credit \<rparr>"

definition pooled_source :: "alloc_input \<Rightarrow> rat \<Rightarrow> source" where
  "pooled_source input total_left =
     \<lparr> src_kind = MONEY, src_remaining = total_left, src_voucherKey = RECEIPT_VOUCHER_KEY,
       src_adjDate = ai_receiptDate input, src_isPostDated = False,
       src_settlementMode = BillSettlementMode.MIXED, src_tenderRowNo = None, src_credit = None \<rparr>"

definition cheque_source :: "alloc_input \<Rightarrow> alloc_tender \<Rightarrow> rat \<Rightarrow> source" where
  "cheque_source input cheque amount =
     \<lparr> src_kind = CHEQUE, src_remaining = amount, src_voucherKey = RECEIPT_VOUCHER_KEY,
       src_adjDate = ai_receiptDate input, src_isPostDated = False,
       src_settlementMode = BillSettlementMode.CHEQUE, src_tenderRowNo = Some (at_tenderRowNo cheque),
       src_credit = None \<rparr>"

definition pdc_source :: "decimal_js \<Rightarrow> alloc_input \<Rightarrow> alloc_tender \<Rightarrow> source" where
  "pdc_source J input cheque =
     \<lparr> src_kind = CHEQUE, src_remaining = money J (at_amount cheque),
       src_voucherKey = pdcVoucherKey (at_tenderRowNo cheque),
       src_adjDate = or_else (at_instrumentDate cheque) (ai_receiptDate input), src_isPostDated = True,
       src_settlementMode = BillSettlementMode.CHEQUE, src_tenderRowNo = Some (at_tenderRowNo cheque),
       src_credit = None \<rparr>"

fun current_cheques :: "decimal_js \<Rightarrow> alloc_input \<Rightarrow> rat \<Rightarrow> alloc_tender list \<Rightarrow> source list" where
  "current_cheques J input extras [] = []"
| "current_cheques J input extras (cheque # cheques) =
     (let take = min extras (money J (at_amount cheque));
          amount = d_minus J (money J (at_amount cheque)) take;
          extras' = d_minus J extras take
      in (if 0 < amount then [cheque_source input cheque amount] else [])
           @ current_cheques J input extras' cheques)"

definition buildSources :: "decimal_js \<Rightarrow> alloc_input \<Rightarrow> sides \<Rightarrow> source list" where
  "buildSources J input sides =
     (let instant = sort_key at_tenderRowNo (filter (\<lambda>t. \<not> at_isPostDated t) (ai_tenders input));
          pooled = filter (\<lambda>t. \<not> at_isCheque t) instant;
          currentCheques = filter at_isCheque instant;
          extras = sum_money J (map (\<lambda>l. money J (ol_amount l))
            (filter (\<lambda>l. isExtra l sides) (ai_otherLines input)));
          pooledTotal = sum_money J (map (\<lambda>t. money J (at_amount t)) pooled);
          takeFromPooled = min extras pooledTotal;
          pooledTotal' = d_minus J pooledTotal takeFromPooled;
          extras' = d_minus J extras takeFromPooled;
          postDated = sort_key (\<lambda>t. (or_else (at_instrumentDate t) 0, at_tenderRowNo t))
            (filter at_isPostDated (ai_tenders input))
      in map (credit_source J input) (ai_credits input)
         @ (if 0 < pooledTotal' then [pooled_source input pooledTotal'] else [])
         @ current_cheques J input extras' currentCheques
         @ map (pdc_source J input) postDated)"

definition settlementRows :: "alloc_bill \<Rightarrow> source \<Rightarrow> rat \<Rightarrow> sides \<Rightarrow> alloc_adjustment list" where
  "settlementRows bill source amount sides =
     (case (src_kind source, src_credit source) of
        (CREDIT, Some credit) \<Rightarrow>
          [\<lparr> adj_billId = ab_billId bill, adj_billAccYear = ab_billAccYear bill,
             adj_adjType = ac_adjType credit, adj_settlementMode = ac_settlementMode credit,
             adj_drCr = sd_settle sides, adj_amount = amount, adj_adjDate = src_adjDate source,
             adj_isPostDated = src_isPostDated source, adj_voucherKey = src_voucherKey source,
             adj_tenderRowNo = src_tenderRowNo source, adj_otherLineNo = None,
             adj_againstBill = Some (ac_billId credit, ac_billAccYear credit), adj_approvedBy = None,
             adj_countsToAdjustAmount = True,
             adj_remarks = Some (''Settled from '' @ ac_docRefno credit) \<rparr>,
           \<lparr> adj_billId = ac_billId credit, adj_billAccYear = ac_billAccYear credit,
             adj_adjType = ac_adjType credit, adj_settlementMode = ac_settlementMode credit,
             adj_drCr = sd_mirror sides, adj_amount = amount, adj_adjDate = src_adjDate source,
             adj_isPostDated = src_isPostDated source, adj_voucherKey = src_voucherKey source,
             adj_tenderRowNo = src_tenderRowNo source, adj_otherLineNo = None,
             adj_againstBill = Some (ab_billId bill, ab_billAccYear bill), adj_approvedBy = None,
             adj_countsToAdjustAmount = False,
             adj_remarks = Some (''Applied to '' @ ab_docRefno bill) \<rparr>]
      | _ \<Rightarrow>
          [\<lparr> adj_billId = ab_billId bill, adj_billAccYear = ab_billAccYear bill,
             adj_adjType = BillAdjType.ALLOCATION, adj_settlementMode = src_settlementMode source,
             adj_drCr = sd_settle sides, adj_amount = amount, adj_adjDate = src_adjDate source,
             adj_isPostDated = src_isPostDated source, adj_voucherKey = src_voucherKey source,
             adj_tenderRowNo = src_tenderRowNo source, adj_otherLineNo = None,
             adj_againstBill = None, adj_approvedBy = None,
             adj_countsToAdjustAmount = True, adj_remarks = None \<rparr>])"

text \<open>The \<open>while\<close> on one bill.\<close>

partial_function (option) pour_bill :: "decimal_js \<Rightarrow> sides \<Rightarrow> alloc_bill \<Rightarrow> rat \<Rightarrow> source list \<Rightarrow> nat \<Rightarrow>
    alloc_adjustment list \<Rightarrow> (rat \<times> source list \<times> nat \<times> alloc_adjustment list) option" where
  "pour_bill J sides bill capacity sources cursor out =
     (if 0 < capacity \<and> cursor < length sources then
        (let source = sources ! cursor in
         if src_remaining source \<le> 0 then pour_bill J sides bill capacity sources (cursor + 1) out
         else let take = min (src_remaining source) capacity in
           pour_bill J sides bill (d_minus J capacity take)
             (sources[cursor := source\<lparr>src_remaining := d_minus J (src_remaining source) take\<rparr>])
             cursor (out @ settlementRows bill source take sides))
      else Some (capacity, sources, cursor, out))"

declare pour_bill.simps [code]

fun pour_from :: "decimal_js \<Rightarrow> sides \<Rightarrow> alloc_bill list \<Rightarrow> rat list \<Rightarrow> source list \<Rightarrow> nat \<Rightarrow>
    alloc_adjustment list \<Rightarrow> (rat list \<times> source list \<times> alloc_adjustment list) option" where
  "pour_from J sides [] capacity sources cursor out = Some ([], sources, out)"
| "pour_from J sides (bill # bills) [] sources cursor out = Some ([], sources, out)"
| "pour_from J sides (bill # bills) (cap # capacity) sources cursor out =
     (case pour_bill J sides bill cap sources cursor out of
        None \<Rightarrow> None
      | Some (cap', sources', cursor', out') \<Rightarrow>
          (case pour_from J sides bills capacity sources' cursor' out' of
             None \<Rightarrow> None
           | Some (capacity', sources'', out'') \<Rightarrow> Some (cap' # capacity', sources'', out'')))"

definition pour :: "decimal_js \<Rightarrow> alloc_bill list \<Rightarrow> rat list \<Rightarrow> source list \<Rightarrow> sides \<Rightarrow>
    alloc_adjustment list \<Rightarrow> (rat list \<times> source list \<times> alloc_adjustment list) option" where
  "pour J bills capacity sources sides out = pour_from J sides bills capacity sources 0 out"

section \<open>Step 3: discount, write-off and round-off\<close>

definition reductionRow :: "alloc_input \<Rightarrow> sides \<Rightarrow> alloc_bill \<Rightarrow> BillAdjType \<Rightarrow> BillSettlementMode \<Rightarrow>
    rat \<Rightarrow> string option \<Rightarrow> alloc_adjustment" where
  "reductionRow input sides bill adjType mode amount approvedBy =
     \<lparr> adj_billId = ab_billId bill, adj_billAccYear = ab_billAccYear bill, adj_adjType = adjType,
       adj_settlementMode = mode, adj_drCr = sd_settle sides, adj_amount = amount,
       adj_adjDate = ai_receiptDate input, adj_isPostDated = False,
       adj_voucherKey = RECEIPT_VOUCHER_KEY, adj_tenderRowNo = None, adj_otherLineNo = None,
       adj_againstBill = None, adj_approvedBy = approvedBy, adj_countsToAdjustAmount = True,
       adj_remarks = None \<rparr>"

definition bill_reductions :: "decimal_js \<Rightarrow> alloc_input \<Rightarrow> sides \<Rightarrow> alloc_bill \<Rightarrow>
    alloc_error + alloc_adjustment list" where
  "bill_reductions J input sides bill =
     (let discount = money J (ab_discount bill);
          writeoff = money J (ab_writeoff bill);
          roundoff = money J (ab_roundoff bill);
          d_rows = (if 0 < discount then [reductionRow input sides bill BillAdjType.DISCOUNT
            BillSettlementMode.DISCOUNT discount None] else []);
          r_rows = (if 0 < roundoff then [reductionRow input sides bill BillAdjType.ROUND_OFF
            BillSettlementMode.ROUND_OFF roundoff None] else [])
      in if 0 < writeoff then
           (if \<not> truthy (ab_writeoffApprovedBy bill)
            then Inl (invalid ''allocations.writeoffApprovedBy'' ''ACC_WRITEOFF_APPROVER'')
            else Inr (d_rows @ [reductionRow input sides bill BillAdjType.WRITEOFF
              BillSettlementMode.WRITEOFF writeoff (ab_writeoffApprovedBy bill)] @ r_rows))
         else Inr (d_rows @ r_rows))"

fun addReductions :: "decimal_js \<Rightarrow> alloc_input \<Rightarrow> sides \<Rightarrow> alloc_bill list \<Rightarrow> alloc_adjustment list \<Rightarrow>
    alloc_error + alloc_adjustment list" where
  "addReductions J input sides [] out = Inr out"
| "addReductions J input sides (bill # bills) out =
     e_bind (bill_reductions J input sides bill) (\<lambda>rows. addReductions J input sides bills (out @ rows))"

section \<open>Step 4: the remainder\<close>

type_synonym on_account_map = "(voucher_key \<times> alloc_on_account) list"

definition add_on_account :: "decimal_js \<Rightarrow> voucher_key \<Rightarrow> rat \<Rightarrow> int \<Rightarrow> on_account_map \<Rightarrow> on_account_map" where
  "add_on_account J voucherKey amount onDate byVoucher =
     (if amount \<le> 0 then byVoucher
      else (case jmap_get byVoucher voucherKey of
          None \<Rightarrow> jmap_set voucherKey \<lparr> oa_voucherKey = voucherKey, oa_amount = d_plus J 0 amount, oa_onDate = onDate \<rparr> byVoucher
        | Some existing \<Rightarrow> jmap_set voucherKey \<lparr> oa_voucherKey = voucherKey,
            oa_amount = d_plus J (oa_amount existing) amount, oa_onDate = oa_onDate existing \<rparr> byVoucher))"

fun collect_sources :: "decimal_js \<Rightarrow> source list \<Rightarrow> on_account_map \<Rightarrow> alloc_error + on_account_map" where
  "collect_sources J [] byVoucher = Inr byVoucher"
| "collect_sources J (source # sources) byVoucher =
     (if src_remaining source \<le> 0 then collect_sources J sources byVoucher
      else if src_kind source = CREDIT then Inl (invalid ''creditsApplied'' ''ACC_CREDIT_OVERSPENT'')
      else collect_sources J sources
        (add_on_account J (src_voucherKey source) (src_remaining source) (src_adjDate source) byVoucher))"

definition collectOnAccount :: "decimal_js \<Rightarrow> alloc_input \<Rightarrow> sides \<Rightarrow> source list \<Rightarrow> rat \<Rightarrow>
    alloc_error + alloc_on_account list" where
  "collectOnAccount J input sides sources deductionOverflow =
     e_bind (collect_sources J sources [])
       (\<lambda>byVoucher.
         let floating = sum_money J (map (\<lambda>l. money J (ol_amount l))
               (filter (\<lambda>l. isFloating l sides) (ai_otherLines input)));
             byVoucher' = add_on_account J RECEIPT_VOUCHER_KEY (d_plus J floating deductionOverflow)
               (ai_receiptDate input) byVoucher
         in Inr (map (\<lambda>(k, e). e\<lparr>oa_amount := money J (oa_amount e)\<rparr>) byVoucher'))"

section \<open>Derivations\<close>

type_synonym totals = "(voucher_key \<times> rat) list"

definition add_total :: "decimal_js \<Rightarrow> voucher_key \<Rightarrow> rat \<Rightarrow> totals \<Rightarrow> totals" where
  "add_total J k amount m = jmap_set k (d_plus J (or_else (jmap_get m k) 0) amount) m"

definition money_all :: "decimal_js \<Rightarrow> totals \<Rightarrow> totals" where
  "money_all J m = map (\<lambda>(k, v). (k, money J v)) m"

definition totalPerVoucher :: "decimal_js \<Rightarrow> alloc_adjustment list \<Rightarrow> totals" where
  "totalPerVoucher J rows = money_all J (foldl (\<lambda>m row.
     if \<not> adj_countsToAdjustAmount row then m else add_total J (adj_voucherKey row) (adj_amount row) m) [] rows)"

definition ensure_key :: "voucher_key \<Rightarrow> totals \<Rightarrow> totals" where
  "ensure_key k m = (if jmap_get m k = None then jmap_set k 0 m else m)"

definition partyLegPerVoucher :: "decimal_js \<Rightarrow> alloc_input \<Rightarrow> sides \<Rightarrow> alloc_adjustment list \<Rightarrow>
    alloc_on_account list \<Rightarrow> totals" where
  "partyLegPerVoucher J input sides rows onAccount =
     (let m1 = foldl (\<lambda>m row. add_total J (adj_voucherKey row)
            (if adj_drCr row = sd_settle sides then adj_amount row else - adj_amount row) m) [] rows;
          m2 = foldl (\<lambda>m e. add_total J (oa_voucherKey e) (oa_amount e) m) m1 onAccount;
          m3 = ensure_key RECEIPT_VOUCHER_KEY m2;
          m4 = foldl (\<lambda>m t. if at_isPostDated t then ensure_key (pdcVoucherKey (at_tenderRowNo t)) m else m)
            m3 (ai_tenders input)
      in money_all J m4)"

section \<open>The whole\<close>

definition find_unfilled :: "rat list \<Rightarrow> nat option" where
  "find_unfilled capacity = find (\<lambda>i. capacity ! i \<noteq> 0) [0..<length capacity]"

definition finish :: "decimal_js \<Rightarrow> alloc_input \<Rightarrow> sides \<Rightarrow> rat \<Rightarrow> rat list \<Rightarrow> source list \<Rightarrow>
    alloc_adjustment list \<Rightarrow> alloc_error + alloc_result" where
  "finish J input sides deductionOverflow capacity sources out =
     (case find_unfilled capacity of
        Some i \<Rightarrow> Inl (invalid (indexed ''allocations.'' i ''.amount'') ''VCH_UNBALANCED'')
      | None \<Rightarrow>
          e_bind (addReductions J input sides (ai_bills input) out) (\<lambda>adjustments.
          e_bind (collectOnAccount J input sides sources deductionOverflow) (\<lambda>onAccount.
            let totalOnAccount = sum_money J (map oa_amount onAccount)
            in if totalOnAccount \<noteq> money J (ai_claimedOnAccount input)
               then Inl (invalid ''onAccount'' ''ACC_INVALID'')
               else Inr \<lparr> ar_adjustments = adjustments, ar_onAccount = onAccount,
                 ar_totalOnAccount = totalOnAccount,
                 ar_adjustAmountByVoucher = totalPerVoucher J adjustments,
                 ar_partyCreditByVoucher = partyLegPerVoucher J input sides adjustments onAccount,
                 ar_partyLegSide = sd_settle sides \<rparr>)))"

definition allocate :: "decimal_js \<Rightarrow> alloc_input \<Rightarrow> (alloc_error + alloc_result) option" where
  "allocate J input =
     (let bills = ai_bills input;
          sides = sidesOf input;
          reserved =
            e_bind (assertBillsFit J bills) (\<lambda>_.
            e_bind (assertCreditsFit J (ai_credits input)) (\<lambda>_.
            e_bind (assertIdentity J input sides) (\<lambda>_.
              reserveDeductions J input sides bills (map (\<lambda>b. money J (ab_amount b)) bills, []))))
      in case reserved of
           Inl e \<Rightarrow> Some (Inl e)
         | Inr (overflow, capacity, out) \<Rightarrow>
             (case pour J bills capacity (buildSources J input sides) sides out of
                None \<Rightarrow> None
              | Some (capacity', sources, out') \<Rightarrow>
                  Some (finish J input sides overflow capacity' sources out')))"

end
