(* ===== verification/Allocation_Flow.thy ===== *)
theory Allocation_Flow
  imports Allocation_Engine
begin

text \<open>
  The abstract specification of the engine's pour: \<open>flow\<close> merges a list of demands with a list
  of supplies, both in order, over exact rationals, and records every transfer. The lemmas say
  that it conserves value on both sides and stops only when one side is exhausted; the
  refinement shows that \<open>pour\<close>, with its cursor and its mutated arrays, computes it.
\<close>

section \<open>The reference merge\<close>

fun flow :: "('b \<times> rat) list \<Rightarrow> ('s \<times> rat) list \<Rightarrow> ('b \<times> 's \<times> rat) list \<times> rat list \<times> rat list" where
  "flow [] ss = ([], [], map snd ss)"
| "flow ((b, c) # bs) [] = ([], c # map snd bs, [])"
| "flow ((b, c) # bs) ((s, r) # ss) =
     (if c \<le> 0 then (case flow bs ((s, r) # ss) of (ts, cs, rs) \<Rightarrow> (ts, c # cs, rs))
      else if r \<le> 0 then (case flow ((b, c) # bs) ss of (ts, cs, rs) \<Rightarrow> (ts, cs, r # rs))
      else if c < r then (case flow bs ((s, r - c) # ss) of (ts, cs, rs) \<Rightarrow> ((b, s, c) # ts, 0 # cs, rs))
      else (case flow ((b, c - r) # bs) ss of (ts, cs, rs) \<Rightarrow> ((b, s, r) # ts, cs, 0 # rs)))"

text \<open>A weighted total of a column.\<close>

definition weigh :: "('b \<Rightarrow> rat) \<Rightarrow> 'b list \<Rightarrow> rat list \<Rightarrow> rat" where
  "weigh f bs cs = sum_list (map2 (\<lambda>b c. f b * c) bs cs)"

lemma weigh_simps [simp]:
  "weigh f [] cs = 0" "weigh f bs [] = 0"
  "weigh f (b # bs) (c # cs) = f b * c + weigh f bs cs"
  by (simp_all add: weigh_def)

lemma weigh_update:
  "i < length bs \<Longrightarrow> i < length cs \<Longrightarrow> weigh f bs (cs[i := v]) = weigh f bs cs + f (bs ! i) * (v - cs ! i)"
proof (induction bs cs arbitrary: i rule: list_induct2')
  case (4 b bs c cs)
  then show ?case by (cases i) (simp_all add: algebra_simps)
qed simp_all

lemma weigh_const: "length bs = length cs \<Longrightarrow> weigh (\<lambda>_. k) bs cs = k * sum_list cs"
  by (induction bs cs rule: list_induct2) (simp_all add: algebra_simps)

lemma weigh_zero: "(\<forall>c\<in>set cs. c = 0) \<Longrightarrow> weigh f bs cs = 0"
  by (induction bs cs rule: list_induct2') auto

lemma weigh_cong: "(\<And>b. b \<in> set bs \<Longrightarrow> f b = g b) \<Longrightarrow> weigh f bs cs = weigh g bs cs"
  by (induction bs cs rule: list_induct2') auto

lemma weigh_map: "weigh f bs (map h bs) = sum_list (map (\<lambda>b. f b * h b) bs)"
  by (induction bs) auto

definition moved_by :: "('b \<Rightarrow> 's \<Rightarrow> rat) \<Rightarrow> ('b \<times> 's \<times> rat) list \<Rightarrow> rat" where
  "moved_by h ts = sum_list (map (\<lambda>(b, s, t). h b s * t) ts)"

lemma moved_by_simps [simp]: "moved_by h [] = 0" "moved_by h ((b, s, t) # ts) = h b s * t + moved_by h ts"
  by (simp_all add: moved_by_def)

lemma flow_length:
  "flow bs ss = (ts, cs, rs) \<Longrightarrow> length cs = length bs \<and> length rs = length ss"
  by (induction bs ss arbitrary: ts cs rs rule: flow.induct) (auto split: if_splits prod.splits)

lemma flow_demand:
  "flow bs ss = (ts, cs, rs) \<Longrightarrow>
    moved_by (\<lambda>b s. f b) ts = weigh f (map fst bs) (map snd bs) - weigh f (map fst bs) cs"
  by (induction bs ss arbitrary: ts cs rs rule: flow.induct)
    (auto split: if_splits prod.splits simp: algebra_simps)

lemma flow_supply:
  "flow bs ss = (ts, cs, rs) \<Longrightarrow>
    moved_by (\<lambda>b s. g s) ts = weigh g (map fst ss) (map snd ss) - weigh g (map fst ss) rs"
  by (induction bs ss arbitrary: ts cs rs rule: flow.induct)
    (auto split: if_splits prod.splits simp: algebra_simps)

lemma flow_members:
  "flow bs ss = (ts, cs, rs) \<Longrightarrow> (b, s, t) \<in> set ts \<Longrightarrow> b \<in> fst ` set bs \<and> s \<in> fst ` set ss \<and> 0 < t"
proof (induction bs ss arbitrary: ts cs rs rule: flow.induct)
  case (3 b' c bs s' r ss)
  then show ?case by (auto split: if_splits prod.splits)
qed auto

lemma flow_grid:
  "flow bs ss = (ts, cs, rs) \<Longrightarrow> \<forall>x\<in>snd ` set bs \<union> snd ` set ss. paise x \<and> 0 \<le> x \<and> x < 10 ^ 18 \<Longrightarrow>
    (\<forall>x\<in>set cs \<union> set rs. paise x \<and> 0 \<le> x \<and> x < 10 ^ 18) \<and> (\<forall>(b, s, t)\<in>set ts. paise t \<and> 0 < t \<and> t < 10 ^ 18)"
proof (induction bs ss arbitrary: ts cs rs rule: flow.induct)
  case (3 b c bs s r ss)
  then show ?case by (auto split: if_splits prod.splits)
qed auto

text \<open>It stops only when every demand is met or every supply is spent.\<close>

lemma flow_exhausts:
  "flow bs ss = (ts, cs, rs) \<Longrightarrow> \<forall>x\<in>snd ` set bs \<union> snd ` set ss. 0 \<le> x \<Longrightarrow>
    (\<forall>c\<in>set cs. c = 0) \<or> (\<forall>r\<in>set rs. r = 0)"
proof (induction bs ss arbitrary: ts cs rs rule: flow.induct)
  case (3 b c bs s r ss)
  then show ?case by (auto split: if_splits prod.splits)
qed auto

text \<open>Supplies in order: when a later supply was touched, the earlier ones are spent.\<close>

lemma flow_order:
  "flow bs ss = (ts, cs, rs) \<Longrightarrow> \<forall>x\<in>snd ` set bs \<union> snd ` set ss. 0 \<le> x \<Longrightarrow>
    i < j \<Longrightarrow> j < length ss \<Longrightarrow> rs ! j < snd (ss ! j) \<Longrightarrow> rs ! i = 0"
proof (induction bs ss arbitrary: ts cs rs i j rule: flow.induct)
  case (3 b c bs s r ss)
  obtain j' where j: "j = Suc j'" using "3.prems"(3) by (cases j) simp_all
  consider (full) "c \<le> 0" | (spent) "0 < c" "r \<le> 0" | (part) "0 < c" "0 < r" "c < r"
    | (all) "0 < c" "0 < r" "r \<le> c" by linarith
  then show ?case
  proof cases
    case full
    then obtain cs' where f: "flow bs ((s, r) # ss) = (ts, cs', rs)"
      using "3.prems"(1) by (auto split: prod.splits)
    show ?thesis using "3.IH"(1) [OF full f, of i j] "3.prems" by auto
  next
    case spent
    then obtain rs' where rs: "rs = r # rs'" and f: "flow ((b, c) # bs) ss = (ts, cs, rs')"
      using "3.prems"(1) by (auto split: prod.splits)
    have "r = 0" using spent "3.prems"(2) by auto
    then show ?thesis
      using "3.IH"(2) [OF _ _ f, of "i - 1" j'] spent "3.prems" rs j by (cases i) auto
  next
    case part
    then obtain ts' cs' where f: "flow bs ((s, r - c) # ss) = (ts', cs', rs)"
      using "3.prems"(1) by (auto split: prod.splits)
    show ?thesis using "3.IH"(3) [OF _ _ _ f, of i j] part "3.prems" j by auto
  next
    case all
    then obtain rs' ts' where rs: "rs = 0 # rs'" and f: "flow ((b, c - r) # bs) ss = (ts', cs, rs')"
      using "3.prems"(1) by (auto split: prod.splits)
    show ?thesis using "3.IH"(4) [OF _ _ _ f, of "i - 1" j'] all "3.prems" rs j by (cases i) auto
  qed
qed auto

section \<open>The pour computes it\<close>

text \<open>A source with its running balance blanked: what identifies it while the pour drains it.\<close>

definition src_tag :: "source \<Rightarrow> source" where
  "src_tag s = s\<lparr>src_remaining := 0\<rparr>"

definition with_balances :: "source list \<Rightarrow> rat list \<Rightarrow> source list" where
  "with_balances ss rs = map2 (\<lambda>s r. s\<lparr>src_remaining := r\<rparr>) ss rs"

definition tagged :: "source list \<Rightarrow> (source \<times> rat) list" where
  "tagged ss = map (\<lambda>s. (src_tag s, src_remaining s)) ss"

definition flow_rows :: "sides \<Rightarrow> (alloc_bill \<times> source \<times> rat) list \<Rightarrow> alloc_adjustment list" where
  "flow_rows sides ts = concat (map (\<lambda>(b, s, t). settlementRows b s t sides) ts)"

lemma flow_rows_simps [simp]:
  "flow_rows sides [] = []"
  "flow_rows sides ((b, s, t) # ts) = settlementRows b s t sides @ flow_rows sides ts"
  by (simp_all add: flow_rows_def)

lemma settlementRows_remaining [simp]:
  "settlementRows b (s\<lparr>src_remaining := r\<rparr>) t sides = settlementRows b s t sides"
  "settlementRows b (src_tag s) t sides = settlementRows b s t sides"
  by (simp_all add: settlementRows_def src_tag_def split: source_kind.splits option.splits)

lemma src_tag_update [simp]: "src_tag (s\<lparr>src_remaining := r\<rparr>) = src_tag s"
  by (simp add: src_tag_def)

lemma with_balances_same [simp]: "with_balances ss (map src_remaining ss) = ss"
  by (induction ss) (simp_all add: with_balances_def)

lemma with_balances_head: "with_balances (s\<lparr>src_remaining := r\<rparr> # ss) rs = with_balances (s # ss) rs"
  by (cases rs) (simp_all add: with_balances_def)

lemma tagged_snd [simp]: "map snd (tagged ss) = map src_remaining ss" "length (tagged ss) = length ss"
  by (simp_all add: tagged_def comp_def)

text \<open>A spent source at the cursor changes nothing.\<close>

lemma pour_bill_skip:
  "src_remaining (sources ! cursor) \<le> 0 \<Longrightarrow> 0 < cap \<Longrightarrow> cursor < length sources \<Longrightarrow>
    pour_bill J sides b cap sources cursor out = pour_bill J sides b cap sources (Suc cursor) out"
  by (subst pour_bill.simps) (simp add: Let_def)

lemma pour_bill_full: "cap \<le> 0 \<Longrightarrow> pour_bill J sides b cap sources cursor out = Some (cap, sources, cursor, out)"
  by (subst pour_bill.simps) simp

lemma pour_bill_dry: "length sources \<le> cursor \<Longrightarrow>
    pour_bill J sides b cap sources cursor out = Some (cap, sources, cursor, out)"
  by (subst pour_bill.simps) simp

lemma pour_from_skip:
  "src_remaining (sources ! cursor) \<le> 0 \<Longrightarrow> cursor < length sources \<Longrightarrow>
    pour_from J sides bills caps sources cursor out = pour_from J sides bills caps sources (Suc cursor) out"
proof (induction bills caps rule: list_induct2')
  case (4 b bs c cs)
  then show ?case by (cases "0 < c") (simp_all add: pour_bill_skip pour_bill_full)
qed simp_all

lemma pour_from_dry:
  "length sources \<le> cursor \<Longrightarrow> length bills = length caps \<Longrightarrow>
    pour_from J sides bills caps sources cursor out = Some (caps, sources, out)"
  by (induction bills caps rule: list_induct2') (simp_all add: pour_bill_dry)

definition pourable :: "rat \<Rightarrow> bool" where
  "pourable x \<longleftrightarrow> paise x \<and> 0 \<le> x \<and> x < 10 ^ 18"

context decimal_package
begin

lemma pour_bill_step:
  assumes "0 < c" and "cursor < length sources" and "0 < src_remaining (sources ! cursor)"
    and "paise c" "c < 10 ^ 18" "paise (src_remaining (sources ! cursor))" "src_remaining (sources ! cursor) < 10 ^ 18"
  defines "r \<equiv> src_remaining (sources ! cursor)" and "t \<equiv> min (src_remaining (sources ! cursor)) c"
  shows "pour_bill J sides b c sources cursor out =
    pour_bill J sides b (c - t) (sources[cursor := (sources ! cursor)\<lparr>src_remaining := r - t\<rparr>]) cursor
      (out @ settlementRows b (sources ! cursor) t sides)"
proof -
  have "d_minus J c t = c - t" "d_minus J r t = r - t"
    using assms by (auto intro!: minus_between)
  then show ?thesis
    using assms(1-3) by (subst pour_bill.simps) (simp add: Let_def r_def t_def)
qed

text \<open>The same step inside the loop over the bills.\<close>

lemma pour_from_step:
  assumes "0 < c" and "cursor < length sources" and "0 < src_remaining (sources ! cursor)"
    and "paise c" "c < 10 ^ 18" "paise (src_remaining (sources ! cursor))" "src_remaining (sources ! cursor) < 10 ^ 18"
  defines "r \<equiv> src_remaining (sources ! cursor)" and "t \<equiv> min (src_remaining (sources ! cursor)) c"
  shows "pour_from J sides (b # bs) (c # cs) sources cursor out =
    pour_from J sides (b # bs) ((c - t) # cs) (sources[cursor := (sources ! cursor)\<lparr>src_remaining := r - t\<rparr>]) cursor
      (out @ settlementRows b (sources ! cursor) t sides)"
  unfolding pour_from.simps r_def t_def using assms(1-7) by (subst pour_bill_step) simp_all

lemma pour_from_flow:
  assumes "length bs = length cs" and "\<forall>x\<in>set cs. pourable x" and "\<forall>s\<in>set rest. pourable (src_remaining s)"
    and "flow (zip bs cs) (tagged rest) = (ts, cs', rs)"
  shows "pour_from J sides bs cs (spent @ rest) (length spent) out =
    Some (cs', spent @ with_balances rest rs, out @ flow_rows sides ts)"
  using assms
proof (induction "length bs + length rest" arbitrary: bs cs rest spent out ts cs' rs rule: less_induct)
  case less
  note IH = less.hyps and prems = less.prems
  show ?case
  proof (cases bs)
    case Nil
    with prems show ?thesis by auto
  next
    case (Cons b bs')
    then obtain c ds where cs: "cs = c # ds" and len: "length bs' = length ds" using prems(1) by (cases cs) auto
    show ?thesis
    proof (cases rest)
      case Nil
      with prems Cons cs len show ?thesis by (auto simp: pour_from_dry pour_bill_dry tagged_def with_balances_def)
    next
      case rest: (Cons s ss)
      let ?r = "src_remaining s"
      have ok: "pourable c" "\<forall>x\<in>set ds. pourable x" "pourable ?r" "\<forall>s\<in>set ss. pourable (src_remaining s)"
        using prems cs rest by auto
      have fl: "flow ((b, c) # zip bs' ds) ((src_tag s, ?r) # tagged ss) = (ts, cs', rs)"
        using prems(4) by (simp add: Cons cs rest tagged_def)
      consider (full) "c \<le> 0" | (dry) "0 < c" "?r \<le> 0" | (part) "0 < c" "0 < ?r" "c < ?r"
        | (all) "0 < c" "0 < ?r" "?r \<le> c" by linarith
      then show ?thesis
      proof cases
        case full
        then obtain ds' where f: "flow (zip bs' ds) (tagged rest) = (ts, ds', rs)" and cs': "cs' = c # ds'"
          using fl rest by (auto simp: tagged_def split: prod.splits)
        show ?thesis using IH [OF _ len ok(2) prems(3) f, of spent out] full Cons cs cs'
          by (simp add: pour_bill_full)
      next
        case dry
        then obtain rs' where f: "flow (zip bs cs) (tagged ss) = (ts, cs', rs')" and rs: "rs = ?r # rs'"
          using fl Cons cs by (auto split: prod.splits)
        show ?thesis
          using IH [OF _ prems(1,2) ok(4) f, of "spent @ [s]" out] dry rest rs
          by (subst pour_from_skip) (simp_all add: with_balances_def)
      next
        case part
        then obtain ts' ds' where f: "flow (zip bs' ds) (tagged (s\<lparr>src_remaining := ?r - c\<rparr> # ss)) = (ts', ds', rs)"
          and res: "cs' = 0 # ds'" "ts = (b, src_tag s, c) # ts'"
          using fl by (auto simp: tagged_def split: prod.splits)
        have "pourable (?r - c)" using ok part by (simp add: pourable_def)
        then have ok': "\<forall>s\<in>set (s\<lparr>src_remaining := ?r - c\<rparr> # ss). pourable (src_remaining s)" using ok by simp
        have "pour_from J sides bs cs (spent @ rest) (length spent) out =
          pour_from J sides bs (0 # ds) (spent @ s\<lparr>src_remaining := ?r - c\<rparr> # ss) (length spent)
            (out @ settlementRows b s c sides)"
          unfolding Cons cs rest
          using part ok by (subst pour_from_step) (simp_all add: pourable_def min_def)
        then show ?thesis
          using IH [OF _ len ok(2) ok' f, of spent "out @ settlementRows b s c sides"] Cons rest res
          by (simp add: pour_bill_full with_balances_head)
      next
        case all
        then obtain ts' rs' where f: "flow (zip bs ((c - ?r) # ds)) (tagged ss) = (ts', cs', rs')"
          and res: "rs = 0 # rs'" "ts = (b, src_tag s, ?r) # ts'"
          using fl Cons by (auto split: prod.splits)
        have "pourable (c - ?r)" using ok all by (simp add: pourable_def)
        then have ok': "\<forall>x\<in>set ((c - ?r) # ds). pourable x" using ok by simp
        have "pour_from J sides bs cs (spent @ rest) (length spent) out =
          pour_from J sides bs ((c - ?r) # ds) (spent @ s\<lparr>src_remaining := 0\<rparr> # ss) (length spent)
            (out @ settlementRows b s ?r sides)"
          unfolding Cons cs rest
          using all ok by (subst pour_from_step) (simp_all add: pourable_def min_def)
        also have "\<dots> = pour_from J sides bs ((c - ?r) # ds) ((spent @ [s\<lparr>src_remaining := 0\<rparr>]) @ ss)
            (length (spent @ [s\<lparr>src_remaining := 0\<rparr>])) (out @ settlementRows b s ?r sides)"
          by (subst pour_from_skip) simp_all
        finally show ?thesis
          using IH [OF _ _ ok' ok(4) f, of "spent @ [s\<lparr>src_remaining := 0\<rparr>]" "out @ settlementRows b s ?r sides"]
            Cons rest res len
          by (simp add: with_balances_def)
      qed
    qed
  qed
qed

end

end
