(* ===== verification/Allocation_Reserve.thy ===== *)
theory Allocation_Reserve
  imports Allocation_Flow
begin

text \<open>
  Step 1 of the engine: what the deductions reserve. \<open>places\<close> relates the capacity and the rows
  before and after a part of the step to the list of placements (bill, line, amount) made, and
  the lemmas show it for a pin, a spread line and the whole step, with the overflow accounted for.
\<close>

section \<open>Placements\<close>

definition caps_ok :: "alloc_bill list \<Rightarrow> rat list \<Rightarrow> bool" where
  "caps_ok bills caps \<longleftrightarrow> length caps = length bills \<and> split_ok caps"

definition ded_rows :: "alloc_input \<Rightarrow> sides \<Rightarrow> (alloc_bill \<times> alloc_other_line \<times> rat) list \<Rightarrow> alloc_adjustment list" where
  "ded_rows input sides ps = map (\<lambda>(b, l, a). deductionRow input sides b l a) ps"

definition places :: "alloc_input \<Rightarrow> sides \<Rightarrow> alloc_bill list \<Rightarrow> alloc_other_line list \<Rightarrow>
    reserve_state \<Rightarrow> (alloc_bill \<times> alloc_other_line \<times> rat) list \<Rightarrow> reserve_state \<Rightarrow> bool" where
  "places input sides bills lines st ps st' \<longleftrightarrow>
     snd st' = snd st @ ded_rows input sides ps \<and> caps_ok bills (fst st') \<and>
     (\<forall>(b, l, a)\<in>set ps. b \<in> set bills \<and> l \<in> set lines \<and> paise a \<and> 0 \<le> a) \<and>
     (\<forall>f. moved_by (\<lambda>b l. f b) ps = weigh f bills (fst st) - weigh f bills (fst st'))"

definition unpinned_total :: "decimal_js \<Rightarrow> int list \<Rightarrow> alloc_other_line list \<Rightarrow> rat" where
  "unpinned_total J pinned lines =
     sum_list (map (\<lambda>l. money J (ol_amount l)) (filter (\<lambda>l. ol_lineNo l \<notin> set pinned) lines))"

lemma moved_by_append [simp]: "moved_by h (xs @ ys) = moved_by h xs + moved_by h ys"
  by (simp add: moved_by_def)

lemma places_refl: "caps_ok bills (fst st) \<Longrightarrow> places input sides bills lines st [] st"
  by (simp add: places_def ded_rows_def)

lemma places_trans:
  "places input sides bills lines st ps st' \<Longrightarrow> places input sides bills lines' st' ps' st'' \<Longrightarrow>
    set lines \<subseteq> set ls \<Longrightarrow> set lines' \<subseteq> set ls \<Longrightarrow> places input sides bills ls st (ps @ ps') st''"
  by (auto simp: places_def ded_rows_def)

lemma places_caps: "places input sides bills lines st ps st' \<Longrightarrow> caps_ok bills (fst st')"
  by (simp add: places_def)

lemma places_total:
  assumes "places input sides bills lines st ps st'" and "caps_ok bills (fst st)"
  shows "moved_by (\<lambda>_ _. 1) ps = sum_list (fst st) - sum_list (fst st')"
proof -
  have "\<forall>f. moved_by (\<lambda>b l. f b) ps = weigh f bills (fst st) - weigh f bills (fst st')"
    using assms(1) by (simp add: places_def)
  from spec [OF this, of "\<lambda>_. 1"]
  have "moved_by (\<lambda>_ _. 1) ps = weigh (\<lambda>_. 1) bills (fst st) - weigh (\<lambda>_. 1) bills (fst st')" .
  with assms show ?thesis by (simp add: weigh_const places_def caps_ok_def)
qed

lemma sum_list_update_rat:
  "i < length xs \<Longrightarrow> sum_list (xs[i := v]) = sum_list xs + v - xs ! i" for xs :: "rat list"
proof (induction xs arbitrary: i)
  case (Cons x xs)
  then show ?case by (cases i) simp_all
qed simp

lemma billIndex_Some:
  "billIndex bills key = Some i \<Longrightarrow> i < length bills \<and> bill_key (bills ! i) = key"
  by (auto simp: billIndex_def in_set_enumerate_eq dest!: map_of_SomeD)

lemma split_ok_elem: "split_ok ws \<Longrightarrow> w \<in> set ws \<Longrightarrow> paise w \<and> 0 \<le> w \<and> w \<le> sum_list ws \<and> w < 10 ^ 18"
  using sum_list_nonneg_elem [of ws w] by (force simp: split_ok_def split_limit_def)

context decimal_package
begin

lemma takeFromBill_places:
  assumes "takeFromBill J caps i a field = Inr caps'" and "caps_ok bills caps" and "i < length bills"
    and "paise a" "0 \<le> a"
  shows "places input sides bills [line] (caps, out) [(bills ! i, line, a)]
    (caps', out @ [deductionRow input sides (bills ! i) line a])"
proof -
  have le: "a \<le> caps ! i" and caps': "caps' = caps[i := d_minus J (caps ! i) a]"
    using assms(1) by (auto simp: takeFromBill_def split: if_splits)
  have i: "i < length caps" using assms by (simp add: caps_ok_def)
  have c: "paise (caps ! i)" "0 \<le> caps ! i" "caps ! i < 10 ^ 18"
    using split_ok_elem [of caps "caps ! i"] assms(2) i by (auto simp: caps_ok_def)
  have caps': "caps' = caps[i := caps ! i - a]"
    using c le assms(4,5) by (simp add: caps' minus_between)
  have "split_ok caps'"
    using assms(2,4,5) c le i set_update_subset_insert [of caps i "caps ! i - a"]
    by (auto simp: split_ok_def caps_ok_def caps' sum_list_update_rat subset_iff)
  then show ?thesis
    using assms i by (simp add: places_def ded_rows_def caps_ok_def caps' weigh_update)
qed

lemma place_pins_places:
  assumes "place_pins J input sides bills line pins st = Inr st'" and "caps_ok bills (fst st)"
    and "\<forall>p\<in>set pins. 0 \<le> pin_amount p"
  shows "\<exists>ps. places input sides bills [line] st ps st' \<and>
    moved_by (\<lambda>_ _. 1) ps = sum_list (map (\<lambda>p. money J (pin_amount p)) pins)"
  using assms
proof (induction pins arbitrary: st)
  case Nil
  then show ?case using places_refl [of bills st] by (intro exI [of _ "[]"]) auto
next
  case (Cons pin pins)
  obtain capacity out where st: "st = (capacity, out)" by (cases st)
  let ?a = "money J (pin_amount pin)"
  obtain i capacity' where i: "billIndex bills (key_of (pin_billId pin) (pin_billAccYear pin)) = Some i"
    and take: "takeFromBill J capacity i ?a (''otherLineBills (line '' @ show_int (ol_lineNo line) @ '')'') = Inr capacity'"
    and rest: "place_pins J input sides bills line pins
      (capacity', out @ [deductionRow input sides (bills ! i) line ?a]) = Inr st'"
    using Cons.prems(1) by (auto simp: st e_bind_Inr_conv split: option.splits)
  have step: "places input sides bills [line] st [(bills ! i, line, ?a)]
      (capacity', out @ [deductionRow input sides (bills ! i) line ?a])"
    unfolding st using takeFromBill_places [OF take] billIndex_Some [OF i] Cons.prems(2,3) st by simp
  obtain ps where ps: "places input sides bills [line]
      (capacity', out @ [deductionRow input sides (bills ! i) line ?a]) ps st'"
    and sum: "moved_by (\<lambda>_ _. 1) ps = sum_list (map (\<lambda>p. money J (pin_amount p)) pins)"
    using Cons.IH [OF rest] places_caps [OF step] Cons.prems(3) by auto
  show ?case using places_trans [OF step ps, of "[line]"] sum by (intro exI [of _ "(bills ! i, line, ?a) # ps"]) auto
qed

lemma place_shares_places:
  assumes "place_shares J input sides bills line index shares st = Inr st'" and "caps_ok bills (fst st)"
    and "\<forall>s\<in>set shares. paise s \<and> 0 \<le> s" and "index + length shares \<le> length bills"
  shows "\<exists>ps. places input sides bills [line] st ps st' \<and> moved_by (\<lambda>_ _. 1) ps = sum_list shares"
  using assms
proof (induction shares arbitrary: index st)
  case Nil
  then show ?case using places_refl [of bills st] by (intro exI [of _ "[]"]) auto
next
  case (Cons a shares)
  obtain capacity out where st: "st = (capacity, out)" by (cases st)
  show ?case
  proof (cases "a = 0")
    case True
    with Cons show ?thesis by (force simp: st)
  next
    case False
    let ?row = "deductionRow input sides (bills ! index) line a"
    obtain capacity' where
      take: "takeFromBill J capacity index a (''otherLines.'' @ show_int (ol_lineNo line) @ ''.amount'') = Inr capacity'"
      and rest: "place_shares J input sides bills line (Suc index) shares (capacity', out @ [?row]) = Inr st'"
      using Cons.prems(1) False by (auto simp: st e_bind_Inr_conv)
    have step: "places input sides bills [line] st [(bills ! index, line, a)] (capacity', out @ [?row])"
      unfolding st using takeFromBill_places [OF take] Cons.prems(2-4) st by simp
    obtain ps where ps: "places input sides bills [line] (capacity', out @ [?row]) ps st'"
      and sum: "moved_by (\<lambda>_ _. 1) ps = sum_list shares"
      using Cons.IH [OF rest] places_caps [OF step] Cons.prems(3,4) by auto
    show ?thesis
      using places_trans [OF step ps, of "[line]"] sum by (intro exI [of _ "(bills ! index, line, a) # ps"]) auto
  qed
qed

text \<open>A share that fits its bill is always placed.\<close>

lemma place_shares_succeeds:
  assumes "\<forall>k<length shares. shares ! k \<le> fst st ! (index + k)" and "index + length shares \<le> length (fst st)"
  shows "\<exists>st'. place_shares J input sides bills line index shares st = Inr st'"
  using assms
proof (induction shares arbitrary: index st)
  case (Cons a shares)
  obtain capacity out where st: "st = (capacity, out)" by (cases st)
  have later: "\<forall>k<length shares. shares ! k \<le> capacity ! (Suc index + k)"
    using Cons.prems(1) by (force simp: st)
  show ?case
  proof (cases "a = 0")
    case True
    then show ?thesis using Cons.IH [of "(capacity, out)" "Suc index"] later Cons.prems(2) by (simp add: st)
  next
    case False
    have "a \<le> capacity ! index" using Cons.prems(1) by (auto simp: st dest: spec [of _ 0])
    then show ?thesis
      using False later Cons.prems(2)
        Cons.IH [of "(capacity[index := d_minus J (capacity ! index) a],
          out @ [deductionRow input sides (bills ! index) line a])" "Suc index"]
      by (simp add: st takeFromBill_def)
  qed
qed simp

text \<open>One unpinned line: it fills the room there is, and what is left over is the overflow.\<close>

lemma spread_line:
  assumes "caps_ok bills (fst st)" and "0 \<le> m" and "paise m"
  defines "placed \<equiv> min m (sum_money J (fst st))"
  shows "\<exists>ps st'. place_shares J input sides bills line 0 (distributeProRata J placed (fst st)) st = Inr st' \<and>
    places input sides bills [line] st ps st' \<and> moved_by (\<lambda>_ _. 1) ps = placed \<and>
    placed = min m (sum_list (fst st))"
proof -
  let ?caps = "fst st" and ?shares = "distributeProRata J placed (fst st)"
  have ok: "split_ok ?caps" and len: "length ?caps = length bills" using assms(1) by (auto simp: caps_ok_def)
  have S: "sum_money J ?caps = sum_list ?caps" by (rule sum_money_exact [OF split_ok_column [OF ok]])
  have p: "paise placed" "0 \<le> placed" "placed \<le> sum_list ?caps"
    using assms(2,3) split_ok_nonneg [OF ok] exact_column_sum [OF split_ok_column [OF ok]]
    by (auto simp: placed_def S)
  then have m: "money J placed = placed" by simp
  have tot: "sum_list ?shares = placed" "length ?shares = length ?caps"
    using split_total [OF ok, of placed] p m by simp_all
  have each: "\<forall>k<length ?caps. paise (?shares ! k) \<and> 0 \<le> ?shares ! k \<and> ?shares ! k \<le> ?caps ! k"
    using split_within [OF ok, of placed] p m by simp
  obtain st' where st': "place_shares J input sides bills line 0 ?shares st = Inr st'"
    using place_shares_succeeds [of ?shares st 0 input sides bills line] each tot by auto
  have "\<forall>s\<in>set ?shares. paise s \<and> 0 \<le> s" using each tot by (auto simp: in_set_conv_nth)
  with place_shares_places [OF st' assms(1)] tot len st' show ?thesis by (auto simp: placed_def S)
qed

lemma unpinned_total_nonneg: "\<forall>l\<in>set lines. 0 \<le> ol_amount l \<Longrightarrow> 0 \<le> unpinned_total J pinned lines"
  by (auto simp: unpinned_total_def intro!: sum_list_nonneg)

lemma spread_places:
  assumes "caps_ok bills (fst st)" and "\<forall>l\<in>set lines. 0 \<le> ol_amount l"
    and "paise v" and "0 \<le> v" and "v + unpinned_total J pinned lines < 10 ^ 18"
  shows "\<exists>ps st' v'. spread_deductions J input sides bills pinned lines v st = Inr (v', st') \<and>
    places input sides bills lines st ps st' \<and> v' = v + unpinned_total J pinned lines - moved_by (\<lambda>_ _. 1) ps \<and>
    paise v' \<and> v \<le> v' \<and> (v < v' \<longrightarrow> sum_list (fst st') = 0)"
  using assms
proof (induction lines arbitrary: v st)
  case Nil
  then show ?case using places_refl [of bills st] by (auto simp: unpinned_total_def intro!: exI [of _ "[]"])
next
  case (Cons line lines)
  obtain caps out where st: "st = (caps, out)" by (cases st)
  show ?case
  proof (cases "ol_lineNo line \<in> set pinned")
    case True
    then have "unpinned_total J pinned (line # lines) = unpinned_total J pinned lines" by (simp add: unpinned_total_def)
    with Cons.IH [of st v] Cons.prems obtain ps st' v' where
      *: "spread_deductions J input sides bills pinned lines v st = Inr (v', st')"
        "places input sides bills lines st ps st'" "v' = v + unpinned_total J pinned (line # lines) - moved_by (\<lambda>_ _. 1) ps"
        "paise v'" "v \<le> v'" "v < v' \<longrightarrow> sum_list (fst st') = 0" by auto
    have "places input sides bills (line # lines) st ps st'" using *(2) by (auto simp: places_def)
    with * True show ?thesis by (intro exI [of _ ps] exI [of _ st'] exI [of _ v']) (simp add: st)
  next
    case False
    let ?m = "money J (ol_amount line)"
    let ?placed = "min ?m (sum_money J caps)"
    have tot: "unpinned_total J pinned (line # lines) = ?m + unpinned_total J pinned lines"
      using False by (simp add: unpinned_total_def)
    have m: "0 \<le> ?m" "paise ?m" using Cons.prems(2) by simp_all
    obtain ps st1 where one: "place_shares J input sides bills line 0 (distributeProRata J ?placed caps) st = Inr st1"
      "places input sides bills [line] st ps st1" "moved_by (\<lambda>_ _. 1) ps = ?placed" "?placed = min ?m (sum_list caps)"
      using spread_line [OF Cons.prems(1) m, of input sides line] by (auto simp: st)
    have nn: "0 \<le> unpinned_total J pinned lines" using Cons.prems(2) by (intro unpinned_total_nonneg) simp
    have pl: "0 \<le> ?placed" "?placed \<le> ?m" "paise ?placed"
      using one(4) m Cons.prems(1) split_ok_nonneg [of caps] exact_column_sum [OF split_ok_column, of caps]
      by (auto simp: caps_ok_def st)
    have bound: "v + ?m + unpinned_total J pinned lines < 10 ^ 18" using Cons.prems(5) tot by simp
    have "d_minus J ?m ?placed = ?m - ?placed"
      using pl m bound nn Cons.prems(4) by (intro minus_between) auto
    moreover have "d_plus J v (?m - ?placed) = v + (?m - ?placed)"
      using pl m bound nn Cons.prems(3,4) by (intro plus_paise) (auto simp: abs_if)
    ultimately have v1: "d_plus J v (d_minus J ?m ?placed) = v + (?m - ?placed)" by simp
    let ?v = "v + (?m - ?placed)"
    have "paise ?v" "0 \<le> ?v" "?v + unpinned_total J pinned lines < 10 ^ 18" using pl m Cons.prems(3,4) bound by auto
    then obtain ps' st' v' where rest:
      "spread_deductions J input sides bills pinned lines ?v st1 = Inr (v', st')"
      "places input sides bills lines st1 ps' st'" "v' = ?v + unpinned_total J pinned lines - moved_by (\<lambda>_ _. 1) ps'"
      "paise v'" "?v \<le> v'" "?v < v' \<longrightarrow> sum_list (fst st') = 0"
      using Cons.IH [of st1 ?v] places_caps [OF one(2)] Cons.prems(2) by auto
    have run: "spread_deductions J input sides bills pinned (line # lines) v st = Inr (v', st')"
      using False one(1) rest(1) v1 by (simp add: st Let_def)
    have full: "sum_list (fst st') = 0" if "v < v'"
    proof (cases "?v < v'")
      case False
      with that rest(5) have lt: "?placed < ?m" by linarith
      with one(4) have "?placed = sum_list caps" by (simp add: min_def split: if_splits)
      then have "sum_list (fst st1) = 0" using places_total [OF one(2) Cons.prems(1)] one(3) by (simp add: st)
      moreover have "moved_by (\<lambda>_ _. 1) ps' = sum_list (fst st1) - sum_list (fst st')"
        by (rule places_total [OF rest(2) places_caps [OF one(2)]])
      moreover have "0 \<le> moved_by (\<lambda>_ _. 1) ps'"
        using rest(2) by (auto simp: moved_by_def places_def intro!: sum_list_nonneg)
      moreover have "0 \<le> sum_list (fst st')"
        using places_caps [OF rest(2)] by (auto simp: caps_ok_def intro: split_ok_nonneg)
      ultimately show ?thesis by linarith
    qed (use rest in blast)
    show ?thesis
      using run places_trans [OF one(2) rest(2), of "line # lines"] rest(3-5) full tot one(3) pl
      by (intro exI [of _ "ps @ ps'"] exI [of _ st'] exI [of _ v']) auto
  qed
qed

end

section \<open>Pinned lines\<close>

lemma sum_filter_insert:
  fixes g :: "'a \<Rightarrow> rat"
  assumes "distinct (map f xs)" and "find (\<lambda>x. f x = k) xs = Some l" and "k \<notin> K"
  shows "sum_list (map g (filter (\<lambda>x. f x \<in> insert k K) xs)) = g l + sum_list (map g (filter (\<lambda>x. f x \<in> K) xs))"
  using assms
proof (induction xs)
  case (Cons x xs)
  show ?case
  proof (cases "f x = k")
    case True
    then have "k \<notin> f ` set xs" using Cons.prems(1) by auto
    then have "filter (\<lambda>x. f x \<in> insert k K) xs = filter (\<lambda>x. f x \<in> K) xs" by (intro filter_cong) auto
    with True Cons.prems show ?thesis by simp
  next
    case False
    with Cons show ?thesis by (auto simp: ac_simps)
  qed
qed simp

lemma find_Some_iff_mem: "find P xs = Some x \<Longrightarrow> x \<in> set xs \<and> P x"
  by (induction xs) (auto split: if_splits)

lemma pinnedByLine_snoc: "pinnedByLine (pins @ [p]) = jmap_set (pin_lineNo p)
    (or_else (jmap_get (pinnedByLine pins) (pin_lineNo p)) [] @ [p]) (pinnedByLine pins)"
  by (simp add: pinnedByLine_def)

lemma pinnedByLine_distinct: "distinct (map fst (pinnedByLine pins))"
proof (induction pins rule: rev_induct)
  case Nil
  then show ?case by (simp add: pinnedByLine_def)
next
  case (snoc p pins)
  then show ?case by (simp add: pinnedByLine_snoc)
qed

lemma pinnedByLine_get: "jmap_get (pinnedByLine pins) k =
    (if k \<in> pin_lineNo ` set pins then Some (filter (\<lambda>p. pin_lineNo p = k) pins) else None)"
proof (induction pins rule: rev_induct)
  case Nil
  then show ?case by (simp add: pinnedByLine_def)
next
  case (snoc p pins)
  have "filter (\<lambda>p'. pin_lineNo p' = pin_lineNo p) pins = []" if "pin_lineNo p \<notin> pin_lineNo ` set pins"
    using that by (metis (mono_tags, lifting) filter_False image_eqI)
  with snoc show ?case by (auto simp: pinnedByLine_snoc update_conv')
qed

lemma pinnedByLine_group: "(k, ps) \<in> set (pinnedByLine pins) \<Longrightarrow> ps = filter (\<lambda>p. pin_lineNo p = k) pins"
  using map_of_is_SomeI [OF pinnedByLine_distinct, of k ps pins] by (simp add: pinnedByLine_get split: if_splits)

lemma pinnedByLine_keys: "set (map fst (pinnedByLine pins)) = pin_lineNo ` set pins"
  using pinnedByLine_get [of pins] by (auto simp: set_eq_iff dom_map_of_conv_image_fst [symmetric] dom_def)

definition pinned_total :: "decimal_js \<Rightarrow> int set \<Rightarrow> alloc_other_line list \<Rightarrow> rat" where
  "pinned_total J pinned lines =
     sum_list (map (\<lambda>l. money J (ol_amount l)) (filter (\<lambda>l. ol_lineNo l \<in> pinned) lines))"

context decimal_package
begin

lemma place_pinned_places:
  assumes "place_pinned J input sides bills ded groups st = Inr st'" and "caps_ok bills (fst st)"
    and "\<forall>(k, ps)\<in>set groups. (\<forall>p\<in>set ps. 0 \<le> pin_amount p) \<and> exact_column (map (\<lambda>p. money J (pin_amount p)) ps)"
    and "distinct (map fst groups)" and "distinct (map ol_lineNo ded)"
  shows "\<exists>ps. places input sides bills ded st ps st' \<and>
    moved_by (\<lambda>_ _. 1) ps = pinned_total J (set (map fst groups)) ded"
  using assms
proof (induction groups arbitrary: st)
  case Nil
  then show ?case using places_refl [of bills st] by (intro exI [of _ "[]"]) (auto simp: pinned_total_def)
next
  case (Cons g groups)
  obtain k pins where g: "g = (k, pins)" by (cases g)
  obtain line st1 where line: "find (\<lambda>l. ol_lineNo l = k) ded = Some line"
    and amt: "sum_money J (map (\<lambda>p. money J (pin_amount p)) pins) = money J (ol_amount line)"
    and one: "place_pins J input sides bills line pins st = Inr st1"
    and rest: "place_pinned J input sides bills ded groups st1 = Inr st'"
    using Cons.prems(1) by (auto simp: g e_bind_Inr_conv split: option.splits if_splits)
  have pins: "\<forall>p\<in>set pins. 0 \<le> pin_amount p" "exact_column (map (\<lambda>p. money J (pin_amount p)) pins)"
    using Cons.prems(3) by (auto simp: g)
  obtain ps1 where ps1: "places input sides bills [line] st ps1 st1"
    "moved_by (\<lambda>_ _. 1) ps1 = sum_list (map (\<lambda>p. money J (pin_amount p)) pins)"
    using place_pins_places [OF one Cons.prems(2) pins(1)] by auto
  have m1: "moved_by (\<lambda>_ _. 1) ps1 = money J (ol_amount line)"
    using ps1(2) amt sum_money_exact [OF pins(2)] by simp
  obtain ps2 where ps2: "places input sides bills ded st1 ps2 st'"
    "moved_by (\<lambda>_ _. 1) ps2 = pinned_total J (set (map fst groups)) ded"
    using Cons.IH [OF rest places_caps [OF ps1(1)]] Cons.prems(3-5) by auto
  have "pinned_total J (set (map fst (g # groups))) ded =
      money J (ol_amount line) + pinned_total J (set (map fst groups)) ded"
    unfolding pinned_total_def using Cons.prems(4)
    by (simp add: g del: insert_iff) (rule sum_filter_insert [OF Cons.prems(5) line], simp)
  moreover have "set [line] \<subseteq> set ded" using find_Some_iff_mem [OF line] by simp
  ultimately show ?case
    using places_trans [OF ps1(1) ps2(1), of ded] ps2(2) m1 by (intro exI [of _ "ps1 @ ps2"]) simp
qed

end

section \<open>The whole step\<close>

text \<open>What the callers guarantee of the amounts: no negative figures and columns that fit the decimals.\<close>

definition amount_limit :: rat where
  "amount_limit = 10 ^ 15"

definition column :: "decimal_js \<Rightarrow> ('a \<Rightarrow> rat) \<Rightarrow> 'a list \<Rightarrow> rat" where
  "column J f xs = sum_list (map (\<lambda>x. money J (f x)) xs)"

definition alloc_pre :: "decimal_js \<Rightarrow> alloc_input \<Rightarrow> bool" where
  "alloc_pre J input \<longleftrightarrow>
     (\<forall>t\<in>set (ai_tenders input). 0 \<le> at_amount t) \<and> (\<forall>l\<in>set (ai_otherLines input). 0 \<le> ol_amount l) \<and>
     (\<forall>p\<in>set (ai_pins input). 0 \<le> pin_amount p) \<and> distinct (map ol_lineNo (ai_otherLines input)) \<and>
     column J at_amount (ai_tenders input) \<le> amount_limit \<and> column J ol_amount (ai_otherLines input) \<le> amount_limit \<and>
     column J pin_amount (ai_pins input) \<le> amount_limit \<and> column J ac_amount (ai_credits input) \<le> amount_limit \<and>
     column J ab_amount (ai_bills input) \<le> split_limit \<and> column J ab_discount (ai_bills input) \<le> amount_limit \<and>
     column J ab_writeoff (ai_bills input) \<le> amount_limit \<and> column J ab_roundoff (ai_bills input) \<le> amount_limit"

context decimal_package
begin

lemma column_exact:
  assumes "\<forall>x\<in>set xs. 0 \<le> f x" and "column J f xs \<le> amount_limit"
  shows "exact_column (map (\<lambda>x. money J (f x)) (filter P xs))"
  using assms by (intro exact_column_filter exact_column_nonneg) (auto simp: column_def amount_limit_def)

lemma column_sum:
  assumes "\<forall>x\<in>set xs. 0 \<le> f x" and "column J f xs \<le> amount_limit"
  shows "sum_money J (map (\<lambda>x. money J (f x)) (filter P xs)) = column J f (filter P xs)"
  unfolding column_def by (rule sum_money_exact [OF column_exact [OF assms]])

lemma column_filter_le:
  assumes "\<forall>x\<in>set xs. 0 \<le> f x"
  shows "0 \<le> column J f (filter P xs)" and "column J f (filter P xs) \<le> column J f xs" and "paise (column J f xs)"
proof -
  show nn: "0 \<le> column J f (filter P xs)" for P using assms by (auto simp: column_def intro!: sum_list_nonneg)
  have "column J f xs = column J f (filter P xs) + column J f (filter (\<lambda>x. \<not> P x) xs)"
    unfolding column_def by (rule sum_list_filter_split)
  with nn [of "\<lambda>x. \<not> P x"] show "column J f (filter P xs) \<le> column J f xs" by simp
  show "paise (column J f xs)" unfolding column_def by (rule on_grid_sum_list) auto
qed

lemma reserve_places:
  assumes "reserveDeductions J input sides bills st = Inr (v, st')" and "caps_ok bills (fst st)"
    and "alloc_pre J input"
  defines "ded \<equiv> filter (\<lambda>l. isDeduction l sides) (ai_otherLines input)"
  shows "\<exists>ps. places input sides bills ded st ps st' \<and> v = column J ol_amount ded - moved_by (\<lambda>_ _. 1) ps \<and>
    paise v \<and> 0 \<le> v \<and> (0 < v \<longrightarrow> sum_list (fst st') = 0)"
proof -
  let ?groups = "pinnedByLine (ai_pins input)"
  obtain st1 where pinned: "place_pinned J input sides bills ded ?groups st = Inr st1"
    and spread: "spread_deductions J input sides bills (map fst ?groups) ded 0 st1 = Inr (v, st')"
    using assms(1) by (auto simp: reserveDeductions_def Let_def ded_def e_bind_Inr_conv)
  have pre: "\<forall>p\<in>set (ai_pins input). 0 \<le> pin_amount p" "column J pin_amount (ai_pins input) \<le> amount_limit"
    "\<forall>l\<in>set (ai_otherLines input). 0 \<le> ol_amount l" "column J ol_amount (ai_otherLines input) \<le> amount_limit"
    "distinct (map ol_lineNo (ai_otherLines input))"
    using assms(3) by (auto simp: alloc_pre_def)
  have groups: "\<forall>(k, ps)\<in>set ?groups. (\<forall>p\<in>set ps. 0 \<le> pin_amount p) \<and> exact_column (map (\<lambda>p. money J (pin_amount p)) ps)"
    using pre column_exact [OF pre(1,2)] by (auto dest!: pinnedByLine_group)
  have dist: "distinct (map ol_lineNo ded)" unfolding ded_def by (rule distinct_map_filter [OF pre(5)])
  obtain ps1 where ps1: "places input sides bills ded st ps1 st1"
    "moved_by (\<lambda>_ _. 1) ps1 = pinned_total J (set (map fst ?groups)) ded"
    using place_pinned_places [OF pinned assms(2) groups pinnedByLine_distinct dist] by auto
  have split: "column J ol_amount ded = pinned_total J (set (map fst ?groups)) ded + unpinned_total J (map fst ?groups) ded"
    unfolding column_def pinned_total_def unpinned_total_def by (rule sum_list_filter_split)
  have nn: "\<forall>l\<in>set ded. 0 \<le> ol_amount l" using pre(3) by (simp add: ded_def)
  have "0 \<le> pinned_total J (set (map fst ?groups)) ded" using nn by (auto simp: pinned_total_def intro!: sum_list_nonneg)
  then have "unpinned_total J (map fst ?groups) ded \<le> amount_limit"
    using split column_filter_le(2) [OF pre(3), of "\<lambda>l. isDeduction l sides"] pre(4) by (simp add: ded_def)
  then have "0 + unpinned_total J (map fst ?groups) ded < 10 ^ 18" by (simp add: amount_limit_def)
  from spread_places [OF places_caps [OF ps1(1)] nn _ _ this, of input sides] spread
  obtain ps2 where ps2: "places input sides bills ded st1 ps2 st'"
    "v = unpinned_total J (map fst ?groups) ded - moved_by (\<lambda>_ _. 1) ps2" "paise v" "0 \<le> v"
    "0 < v \<longrightarrow> sum_list (fst st') = 0" by auto
  show ?thesis
    using places_trans [OF ps1(1) ps2(1), of ded] ps1(2) ps2(2-5) split
    by (intro exI [of _ "ps1 @ ps2"]) auto
qed

text \<open>Without pins the step never refuses.\<close>

lemma reserve_no_pins:
  assumes "ai_pins input = []" and "caps_ok bills (fst st)" and "alloc_pre J input"
  shows "\<exists>r. reserveDeductions J input sides bills st = Inr r"
proof -
  let ?ded = "filter (\<lambda>l. isDeduction l sides) (ai_otherLines input)"
  have pre: "\<forall>l\<in>set (ai_otherLines input). 0 \<le> ol_amount l" "column J ol_amount (ai_otherLines input) \<le> amount_limit"
    using assms(3) by (auto simp: alloc_pre_def)
  have "unpinned_total J [] ?ded = column J ol_amount ?ded" by (simp add: unpinned_total_def column_def)
  then have "0 + unpinned_total J [] ?ded < 10 ^ 18"
    using column_filter_le(2) [OF pre(1), of "\<lambda>l. isDeduction l sides"] pre(2) by (simp add: amount_limit_def)
  from spread_places [OF assms(2) _ _ _ this, of input sides] pre(1) assms(1)
  show ?thesis by (auto simp: reserveDeductions_def Let_def pinnedByLine_def)
qed

end

end
