(* ===== verification/Allocation_Sources.thy ===== *)
theory Allocation_Sources
  imports Allocation_Reserve
begin

text \<open>
  The engine's guards, its list of sources and its running totals per voucher: when the guards
  pass, what the sources hold once the extras are taken off the front of the instant money, and
  what a map of totals contains after a list of additions.
\<close>

section \<open>The guards\<close>

definition bill_fits :: "decimal_js \<Rightarrow> alloc_bill \<Rightarrow> bool" where
  "bill_fits J bill \<longleftrightarrow> 0 \<le> ab_amount bill \<and> 0 \<le> ab_discount bill \<and> 0 \<le> ab_writeoff bill \<and>
     0 \<le> ab_roundoff bill \<and> 0 < bill_settled J bill \<and> bill_settled J bill \<le> money J (ab_pendingAmount bill)"

lemma assertBillsFit_from_iff:
  "assertBillsFit_from J n seen bills = Inr u \<longleftrightarrow>
     distinct (map bill_key bills) \<and> set seen \<inter> bill_key ` set bills = {} \<and> (\<forall>b\<in>set bills. bill_fits J b)"
  by (induction bills arbitrary: n seen) (auto simp: bill_fits_def)

lemma assertBillsFit_iff:
  "assertBillsFit J bills = Inr u \<longleftrightarrow> distinct (map bill_key bills) \<and> (\<forall>b\<in>set bills. bill_fits J b)"
  by (simp add: assertBillsFit_def assertBillsFit_from_iff)

definition credit_fits :: "decimal_js \<Rightarrow> alloc_credit \<Rightarrow> bool" where
  "credit_fits J c \<longleftrightarrow> 0 < money J (ac_amount c) \<and> money J (ac_amount c) \<le> money J (ac_pendingAmount c)"

lemma assertCreditsFit_from_iff:
  "assertCreditsFit_from J n seen cs = Inr u \<longleftrightarrow>
     distinct (map credit_key cs) \<and> set seen \<inter> credit_key ` set cs = {} \<and> (\<forall>c\<in>set cs. credit_fits J c)"
  by (induction cs arbitrary: n seen) (auto simp: credit_fits_def)

lemma assertCreditsFit_iff:
  "assertCreditsFit J cs = Inr u \<longleftrightarrow> distinct (map credit_key cs) \<and> (\<forall>c\<in>set cs. credit_fits J c)"
  by (simp add: assertCreditsFit_def assertCreditsFit_from_iff)

section \<open>The sources\<close>

text \<open>The columns of the identity, by name.\<close>

definition instant_total :: "decimal_js \<Rightarrow> alloc_input \<Rightarrow> rat" where
  "instant_total J input = column J at_amount (filter (\<lambda>t. \<not> at_isPostDated t) (ai_tenders input))"

definition extras_total :: "decimal_js \<Rightarrow> alloc_input \<Rightarrow> rat" where
  "extras_total J input = column J ol_amount (filter (\<lambda>l. isExtra l (sidesOf input)) (ai_otherLines input))"

definition deductions_total :: "decimal_js \<Rightarrow> alloc_input \<Rightarrow> rat" where
  "deductions_total J input = column J ol_amount (filter (\<lambda>l. isDeduction l (sidesOf input)) (ai_otherLines input))"

definition floating_total :: "decimal_js \<Rightarrow> alloc_input \<Rightarrow> rat" where
  "floating_total J input = column J ol_amount (filter (\<lambda>l. isFloating l (sidesOf input)) (ai_otherLines input))"

definition source_total :: "(source \<Rightarrow> rat) \<Rightarrow> source list \<Rightarrow> rat" where
  "source_total g ss = sum_list (map (\<lambda>s. g (src_tag s) * src_remaining s) ss)"

lemma source_total_simps [simp]:
  "source_total g [] = 0" "source_total g (s # ss) = g (src_tag s) * src_remaining s + source_total g ss"
  "source_total g (xs @ ys) = source_total g xs + source_total g ys"
  by (simp_all add: source_total_def)

lemma column_sort_key: "column J f (sort_key k xs) = column J f xs"
proof -
  have "sum_mset (mset (map (\<lambda>x. money J (f x)) (sort_key k xs))) = sum_mset (mset (map (\<lambda>x. money J (f x)) xs))"
    by (simp add: mset_map)
  then show ?thesis unfolding column_def by (simp only: sum_mset_sum_list)
qed

lemma source_total_sort_key: "source_total g (map h (sort_key k xs)) = source_total g (map h xs)"
proof -
  have "sum_mset (mset (map (\<lambda>x. g (src_tag (h x)) * src_remaining (h x)) (sort_key k xs))) =
    sum_mset (mset (map (\<lambda>x. g (src_tag (h x)) * src_remaining (h x)) xs))"
    by (simp add: mset_map)
  then show ?thesis unfolding source_total_def by (simp only: sum_mset_sum_list map_map comp_def)
qed

text \<open>What a current source looks like: money or a cheque on the document's own voucher.\<close>

definition current_source :: "alloc_input \<Rightarrow> source \<Rightarrow> bool" where
  "current_source input s \<longleftrightarrow> src_kind s \<noteq> CREDIT \<and> src_credit s = None \<and> src_voucherKey s = RECEIPT_VOUCHER_KEY \<and>
     src_adjDate s = ai_receiptDate input \<and> \<not> src_isPostDated s"

lemma current_source_tag [simp]: "current_source input (src_tag s) = current_source input s"
  by (simp add: current_source_def src_tag_def)

lemma current_source_intros [simp]:
  "current_source input (pooled_source input m)" "current_source input (cheque_source input t m)"
  by (simp_all add: current_source_def pooled_source_def cheque_source_def)

lemma source_remaining_simps [simp]:
  "src_remaining (pooled_source input m) = m" "src_remaining (cheque_source input t m) = m"
  "src_remaining (credit_source J input c) = money J (ac_amount c)"
  "src_remaining (pdc_source J input t) = money J (at_amount t)"
  by (simp_all add: pooled_source_def cheque_source_def credit_source_def pdc_source_def)

definition post_dated :: "alloc_input \<Rightarrow> alloc_tender list" where
  "post_dated input = sort_key (\<lambda>t. (or_else (at_instrumentDate t) 0, at_tenderRowNo t))
     (filter at_isPostDated (ai_tenders input))"

context decimal_package
begin

lemma current_cheques_spec:
  assumes "\<forall>t\<in>set ts. 0 \<le> at_amount t" and "paise e" and "0 \<le> e" and "e \<le> column J at_amount ts"
    and "column J at_amount ts \<le> amount_limit"
  shows "(\<forall>s\<in>set (current_cheques J input e ts). current_source input s \<and> pourable (src_remaining s)) \<and>
    sum_list (map src_remaining (current_cheques J input e ts)) = column J at_amount ts - e"
  using assms
proof (induction ts arbitrary: e)
  case Nil
  then show ?case by (simp add: column_def)
next
  case (Cons t ts)
  let ?m = "money J (at_amount t)"
  let ?take = "min e ?m"
  have col: "column J at_amount (t # ts) = ?m + column J at_amount ts" by (simp add: column_def)
  have m: "paise ?m" "0 \<le> ?m" using Cons.prems(1) by simp_all
  have nn: "0 \<le> column J at_amount ts" using column_filter_le(1) [of ts at_amount "\<lambda>_. True"] Cons.prems(1) by simp
  have lim: "?m < 10 ^ 18" "e < 10 ^ 18" using nn col Cons.prems(4,5) by (simp_all add: amount_limit_def)
  have d: "d_minus J ?m ?take = ?m - ?take" "d_minus J e ?take = e - ?take"
    using m lim Cons.prems(2,3) by (auto intro!: minus_between)
  have lim': "column J at_amount ts \<le> amount_limit" using Cons.prems(5) col m(2) by linarith
  have "e - ?take \<le> column J at_amount ts" using nn col Cons.prems(4) by (simp add: min_def)
  then have IH: "(\<forall>s\<in>set (current_cheques J input (e - ?take) ts). current_source input s \<and> pourable (src_remaining s)) \<and>
      sum_list (map src_remaining (current_cheques J input (e - ?take) ts)) = column J at_amount ts - (e - ?take)"
    using Cons.prems(1-3) m lim' by (intro Cons.IH) auto
  have head: "pourable (?m - ?take)" using m lim Cons.prems(2,3) by (auto simp: pourable_def min_def)
  show ?case
    unfolding current_cheques.simps Let_def d col using IH head
    by (auto simp: pourable_def)
qed

lemma buildSources_spec:
  assumes "alloc_pre J input" and "extras_total J input \<le> instant_total J input"
  shows "\<exists>cur. buildSources J input (sidesOf input) =
      map (credit_source J input) (ai_credits input) @ cur @ map (pdc_source J input) (post_dated input) \<and>
    (\<forall>s\<in>set cur. current_source input s \<and> pourable (src_remaining s)) \<and>
    sum_list (map src_remaining cur) = instant_total J input - extras_total J input"
proof -
  let ?inst = "filter (\<lambda>t. \<not> at_isPostDated t) (ai_tenders input)"
  let ?instant = "sort_key at_tenderRowNo ?inst"
  let ?pooled = "filter (\<lambda>t. \<not> at_isCheque t) ?instant" and ?cheques = "filter at_isCheque ?instant"
  have pre: "\<forall>t\<in>set (ai_tenders input). 0 \<le> at_amount t" "column J at_amount (ai_tenders input) \<le> amount_limit"
    "\<forall>l\<in>set (ai_otherLines input). 0 \<le> ol_amount l" "column J ol_amount (ai_otherLines input) \<le> amount_limit"
    using assms(1) by (auto simp: alloc_pre_def)
  have inn: "\<forall>t\<in>set ?instant. 0 \<le> at_amount t" using pre(1) by simp
  have iT: "column J at_amount ?instant = instant_total J input" by (simp add: column_sort_key instant_total_def)
  have iL: "column J at_amount ?instant \<le> amount_limit"
    using column_filter_le(2) [OF pre(1), of "\<lambda>t. \<not> at_isPostDated t"] pre(2) by (simp add: iT instant_total_def)
  let ?e = "extras_total J input" and ?P = "column J at_amount ?pooled" and ?C = "column J at_amount ?cheques"
  have split: "instant_total J input = ?P + ?C"
    unfolding iT [symmetric] column_def using sum_list_filter_split [of _ ?instant at_isCheque] by (simp add: add.commute)
  have ex: "sum_money J (map (\<lambda>l. money J (ol_amount l)) (filter (\<lambda>l. isExtra l (sidesOf input)) (ai_otherLines input))) = ?e"
    unfolding extras_total_def by (rule column_sum [OF pre(3,4)])
  have pl: "sum_money J (map (\<lambda>t. money J (at_amount t)) ?pooled) = ?P" by (rule column_sum [OF inn iL])
  have P: "0 \<le> ?P" "paise ?P" "?P \<le> amount_limit"
    using column_filter_le(1,2) [OF inn, of "\<lambda>t. \<not> at_isCheque t"] column_filter_le(3) [of ?pooled at_amount] inn iL by auto
  have C: "0 \<le> ?C" "?C \<le> amount_limit" using column_filter_le(1,2) [OF inn, of at_isCheque] iL by auto
  have e: "0 \<le> ?e" "paise ?e" "?e \<le> amount_limit"
    using column_filter_le(1,2) [OF pre(3), of "\<lambda>l. isExtra l (sidesOf input)"] pre(4)
      column_filter_le(3) [of "filter (\<lambda>l. isExtra l (sidesOf input)) (ai_otherLines input)" ol_amount] pre(3)
    by (auto simp: extras_total_def)
  let ?take = "min ?e ?P"
  have lim: "?P < 10 ^ 18" "?e < 10 ^ 18" using P(3) e(3) by (simp_all add: amount_limit_def)
  have d: "d_minus J ?P ?take = ?P - ?take" "d_minus J ?e ?take = ?e - ?take"
    using P e lim by (auto intro!: minus_between)
  have e': "?e - ?take \<le> ?C" "0 \<le> ?e - ?take" "paise (?e - ?take)"
    using assms(2) split C P e by (auto simp: min_def)
  define cur where "cur = (if 0 < ?P - ?take then [pooled_source input (?P - ?take)] else [])
    @ current_cheques J input (?e - ?take) ?cheques"
  have cc: "(\<forall>s\<in>set (current_cheques J input (?e - ?take) ?cheques). current_source input s \<and> pourable (src_remaining s)) \<and>
      sum_list (map src_remaining (current_cheques J input (?e - ?take) ?cheques)) = ?C - (?e - ?take)"
    using inn e' C by (intro current_cheques_spec) auto
  have P': "0 \<le> ?P - ?take" "pourable (?P - ?take)" using P e lim by (auto simp: pourable_def min_def)
  have "buildSources J input (sidesOf input) =
      map (credit_source J input) (ai_credits input) @ cur @ map (pdc_source J input) (post_dated input)"
    unfolding buildSources_def Let_def ex pl d cur_def post_dated_def by simp
  moreover have "\<forall>s\<in>set cur. current_source input s \<and> pourable (src_remaining s)"
    using cc P' by (auto simp: cur_def)
  moreover have "sum_list (map src_remaining cur) = instant_total J input - ?e"
    using cc P' split by (auto simp: cur_def)
  ultimately show ?thesis by blast
qed

end

end
