(* ===== verification/Allocation_Totals.thy ===== *)
theory Allocation_Totals
  imports Allocation_Sources
begin

text \<open>
  The maps of running totals the engine returns: the on-account entries, the adjusted amount and
  the party leg of each voucher. Every map is a left fold of additions, and with columns that fit
  the decimals each key holds the exact sum of what was added under it.
\<close>

section \<open>Folding additions into a map\<close>

definition fold_totals :: "decimal_js \<Rightarrow> (voucher_key \<times> rat) list \<Rightarrow> totals" where
  "fold_totals J kvs = foldl (\<lambda>m (k, v). add_total J k v m) [] kvs"

definition key_sum :: "voucher_key \<Rightarrow> (voucher_key \<times> rat) list \<Rightarrow> rat" where
  "key_sum k kvs = sum_list (map snd (filter (\<lambda>kv. fst kv = k) kvs))"

lemma key_sum_simps [simp]:
  "key_sum k [] = 0" "key_sum k ((k', v) # kvs) = (if k' = k then v else 0) + key_sum k kvs"
  "key_sum k (xs @ ys) = key_sum k xs + key_sum k ys"
  by (simp_all add: key_sum_def)

lemma key_sum_map: "key_sum k (map (\<lambda>x. (f x, g x)) xs) = sum_list (map g (filter (\<lambda>x. f x = k) xs))"
  by (induction xs) auto

lemma fold_totals_snoc: "fold_totals J (kvs @ [(k, v)]) = add_total J k v (fold_totals J kvs)"
  by (simp add: fold_totals_def)

lemma fold_totals_Nil [simp]: "fold_totals J [] = []"
  by (simp add: fold_totals_def)

lemma fold_totals_distinct: "distinct (map fst (fold_totals J kvs))"
proof (induction kvs rule: rev_induct)
  case (snoc kv kvs)
  then show ?case by (cases kv) (simp add: fold_totals_snoc add_total_def)
qed simp

lemma key_sum_exact:
  assumes "exact_column (map snd kvs)"
  shows "paise (key_sum k kvs)" and "\<bar>key_sum k kvs\<bar> < 10 ^ 18"
  using exact_column_sum [OF exact_column_filter [OF assms, of "\<lambda>kv. fst kv = k"]]
  by (simp_all add: key_sum_def)

lemma key_sum_none: "k \<notin> fst ` set kvs \<Longrightarrow> key_sum k kvs = 0"
  by (induction kvs) auto

context decimal_package
begin

lemma fold_totals_get:
  assumes "exact_column (map snd kvs)"
  shows "jmap_get (fold_totals J kvs) k = (if k \<in> fst ` set kvs then Some (key_sum k kvs) else None)"
  using assms
proof (induction kvs arbitrary: k rule: rev_induct)
  case (snoc kv kvs)
  obtain k' v where kv: "kv = (k', v)" by (cases kv)
  have "sum_list (map abs (map snd kvs)) \<le> sum_list (map abs (map snd (kvs @ [kv])))" by simp
  with snoc.prems have pre: "exact_column (map snd kvs)" by (auto simp: exact_column_def)
  note IH = snoc.IH [OF pre]
  have cur: "or_else (jmap_get (fold_totals J kvs) k') 0 = key_sum k' kvs"
    by (simp add: IH key_sum_none)
  have "key_sum k' (kvs @ [kv]) = key_sum k' kvs + v" by (simp add: kv)
  then have "d_plus J (key_sum k' kvs) v = key_sum k' kvs + v"
    using key_sum_exact [OF pre] key_sum_exact [OF snoc.prems, of k'] snoc.prems
    by (intro plus_paise) (auto simp: kv exact_column_def)
  then show ?case
    by (auto simp: kv fold_totals_snoc add_total_def cur update_conv' IH key_sum_none)
qed simp

lemma fold_totals_sum:
  assumes "exact_column (map snd kvs)"
  shows "sum_list (map snd (fold_totals J kvs)) = sum_list (map snd kvs)"
  using assms
proof (induction kvs rule: rev_induct)
  case (snoc kv kvs)
  obtain k v where kv: "kv = (k, v)" by (cases kv)
  have "sum_list (map abs (map snd kvs)) \<le> sum_list (map abs (map snd (kvs @ [kv])))" by simp
  with snoc.prems have pre: "exact_column (map snd kvs)" by (auto simp: exact_column_def)
  have "key_sum k (kvs @ [kv]) = key_sum k kvs + v" by (simp add: kv)
  then have "d_plus J (key_sum k kvs) v = key_sum k kvs + v"
    using key_sum_exact [OF pre] key_sum_exact [OF snoc.prems, of k] snoc.prems
    by (intro plus_paise) (auto simp: kv exact_column_def)
  then show ?case
    using snoc.IH [OF pre] sum_list_jmap_set [OF fold_totals_distinct, of "\<lambda>v. v" k "key_sum k kvs + v" J kvs]
    by (auto simp: kv fold_totals_snoc add_total_def fold_totals_get [OF pre] key_sum_none comp_def split: if_splits)
qed simp

lemma money_all_get: "jmap_get (money_all J m) k = map_option (half_up 2) (jmap_get m k)"
  by (simp add: money_all_def map_of_map)

end

section \<open>On account\<close>

definition amounts :: "on_account_map \<Rightarrow> totals" where
  "amounts m = map (\<lambda>(k, e). (k, oa_amount e)) m"

lemma amounts_get: "jmap_get (amounts m) k = map_option oa_amount (jmap_get m k)"
  by (simp add: amounts_def map_of_map)

lemma map_update_values: "map (\<lambda>(k, e). (k, f e)) (jmap_set k v m) = jmap_set k (f v) (map (\<lambda>(k, e). (k, f e)) m)"
  by (induction m) auto

lemma amounts_add: "amounts (add_on_account J k a d m) = (if a \<le> 0 then amounts m else add_total J k a (amounts m))"
  by (auto simp: add_on_account_def add_total_def amounts_def map_of_map map_update_values split: option.splits)

text \<open>Every entry is filed under its own voucher.\<close>

definition filed :: "on_account_map \<Rightarrow> bool" where
  "filed m \<longleftrightarrow> distinct (map fst m) \<and> (\<forall>(k, e)\<in>set m. oa_voucherKey e = k)"

lemma update_set: "x \<in> set (jmap_set k v m) \<Longrightarrow> x = (k, v) \<or> x \<in> set m"
  by (induction m) (auto split: if_splits)

lemma filed_add: "filed m \<Longrightarrow> filed (add_on_account J k a d m)"
  by (auto simp: filed_def add_on_account_def split: option.splits dest!: update_set)

definition leftovers :: "source list \<Rightarrow> (voucher_key \<times> rat) list" where
  "leftovers ss = map (\<lambda>s. (src_voucherKey s, src_remaining s)) (filter (\<lambda>s. 0 < src_remaining s) ss)"

lemma collect_sources_spec:
  assumes "collect_sources J ss m = Inr m'" and "filed m"
  shows "filed m' \<and> amounts m' = foldl (\<lambda>m (k, v). add_total J k v m) (amounts m) (leftovers ss) \<and>
    (\<forall>s\<in>set ss. src_kind s = CREDIT \<longrightarrow> src_remaining s \<le> 0)"
  using assms
proof (induction ss arbitrary: m)
  case (Cons s ss)
  then show ?case
    by (cases "src_remaining s \<le> 0"; cases "src_kind s = CREDIT")
      (auto simp: leftovers_def amounts_add filed_add)
qed (simp add: leftovers_def)

lemma collect_sources_succeeds:
  "(\<forall>s\<in>set ss. src_kind s = CREDIT \<longrightarrow> src_remaining s \<le> 0) \<Longrightarrow> \<exists>m'. collect_sources J ss m = Inr m'"
  by (induction ss arbitrary: m) auto

lemma filed_key_sum:
  "filed m \<Longrightarrow> key_sum k (map (\<lambda>e. (oa_voucherKey e, oa_amount e)) (map snd m)) = or_else (jmap_get (amounts m) k) 0"
proof (induction m)
  case (Cons x m)
  obtain k' e where x: "x = (k', e)" by (cases x)
  have "filed m" "oa_voucherKey e = k'" "k' \<notin> fst ` set m" using Cons.prems by (auto simp: filed_def x)
  moreover have "jmap_get (amounts m) k' = None" using calculation(3)
    by (auto simp: amounts_get map_of_eq_None_iff)
  ultimately show ?case using Cons.IH by (auto simp: x amounts_def)
qed (simp add: amounts_def)

end
