(* ===== verification/Allocation_Trace.thy ===== *)
theory Allocation_Trace
  imports Allocation_Totals
begin

text \<open>
  What a successful run of \<open>allocate\<close> did. \<open>alloc_trace\<close> ties the result to the placements of
  step 1, the transfers of the pour, the balances left in the sources and the overflow; every
  property of the result is read off it.
\<close>

section \<open>The identity\<close>

definition claim_ok :: "alloc_input \<Rightarrow> bool" where
  "claim_ok input \<longleftrightarrow> \<bar>ai_claimedOnAccount input\<bar> \<le> amount_limit"

definition identity_holds :: "decimal_js \<Rightarrow> alloc_input \<Rightarrow> bool" where
  "identity_holds J input \<longleftrightarrow>
     column J at_amount (ai_tenders input) + deductions_total J input + floating_total J input
       + column J ac_amount (ai_credits input) =
     column J ab_amount (ai_bills input) + money J (ai_claimedOnAccount input) + extras_total J input"

lemma sides_cases: "sd_deduction (sidesOf input) \<noteq> sd_extra (sidesOf input)"
  "sd_settle (sidesOf input) \<noteq> sd_mirror (sidesOf input)"
  by (simp_all add: sidesOf_def)

lemma deduction_side_split:
  "column J ol_amount (filter (\<lambda>l. ol_drCr l = sd_deduction (sidesOf input) \<and> \<not> ol_isInstrumentSplit l) (ai_otherLines input)) =
    deductions_total J input + floating_total J input"
proof -
  let ?xs = "filter (\<lambda>l. ol_drCr l = sd_deduction (sidesOf input) \<and> \<not> ol_isInstrumentSplit l) (ai_otherLines input)"
  have "filter ol_settlesBill ?xs = filter (\<lambda>l. isDeduction l (sidesOf input)) (ai_otherLines input)"
    and "filter (\<lambda>l. \<not> ol_settlesBill l) ?xs = filter (\<lambda>l. isFloating l (sidesOf input)) (ai_otherLines input)"
    unfolding filter_filter by (rule filter_cong; auto simp: isDeduction_def isFloating_def)+
  then show ?thesis
    using sum_list_filter_split [of "\<lambda>l. money J (ol_amount l)" ?xs ol_settlesBill]
    by (simp add: column_def deductions_total_def floating_total_def)
qed

lemma half_up_abs_le:
  assumes "\<bar>x\<bar> \<le> y" and "on_grid n y"
  shows "\<bar>half_up n x\<bar> \<le> y"
proof -
  from assms(2) obtain k :: int where k: "y * 10 ^ n = of_int k" by (auto simp: on_grid_def)
  have "\<bar>x\<bar> * 10 ^ n \<le> y * 10 ^ n" using assms(1) by (intro mult_right_mono) simp_all
  then have "\<bar>half_up n x\<bar> * 10 ^ n \<le> y * 10 ^ n" unfolding k by (rule half_up_le_bound)
  then show ?thesis by simp
qed

context decimal_package
begin

lemma pre_columns:
  assumes "alloc_pre J input"
  shows "0 \<le> column J at_amount (ai_tenders input)" and "column J at_amount (ai_tenders input) \<le> amount_limit"
    and "0 \<le> instant_total J input" and "instant_total J input \<le> amount_limit"
    and "0 \<le> extras_total J input" and "extras_total J input \<le> amount_limit"
    and "0 \<le> deductions_total J input" and "0 \<le> floating_total J input"
    and "deductions_total J input + floating_total J input \<le> amount_limit"
    and "paise (instant_total J input)" and "paise (extras_total J input)"
    and "paise (deductions_total J input)" and "paise (floating_total J input)"
    and "paise (column J at_amount (ai_tenders input))"
proof -
  have t: "\<forall>t\<in>set (ai_tenders input). 0 \<le> at_amount t" and l: "\<forall>l\<in>set (ai_otherLines input). 0 \<le> ol_amount l"
    and tl: "column J at_amount (ai_tenders input) \<le> amount_limit"
    and ll: "column J ol_amount (ai_otherLines input) \<le> amount_limit"
    using assms by (auto simp: alloc_pre_def)
  have pt: "paise (column J at_amount (filter P (ai_tenders input)))" for P
    using t by (intro column_filter_le(3)) auto
  have pl: "paise (column J ol_amount (filter P (ai_otherLines input)))" for P
    using l by (intro column_filter_le(3)) auto
  note ft = column_filter_le(1,2) [OF t] and fl = column_filter_le(1,2) [OF l]
  show "0 \<le> column J at_amount (ai_tenders input)" using ft(1) [of "\<lambda>_. True"] by simp
  show "column J at_amount (ai_tenders input) \<le> amount_limit" by (rule tl)
  show "0 \<le> instant_total J input" "instant_total J input \<le> amount_limit"
    unfolding instant_total_def using ft [of "\<lambda>t. \<not> at_isPostDated t"] tl by auto
  show "0 \<le> extras_total J input" "extras_total J input \<le> amount_limit"
    unfolding extras_total_def using fl [of "\<lambda>l. isExtra l (sidesOf input)"] ll by auto
  show "0 \<le> deductions_total J input" "0 \<le> floating_total J input"
    unfolding deductions_total_def floating_total_def using fl(1) by auto
  show "deductions_total J input + floating_total J input \<le> amount_limit"
    unfolding deduction_side_split [symmetric] using fl(2) ll by (rule order_trans)
  show "paise (instant_total J input)" "paise (extras_total J input)" "paise (deductions_total J input)"
    "paise (floating_total J input)"
    unfolding instant_total_def extras_total_def deductions_total_def floating_total_def by (rule pt pl)+
  show "paise (column J at_amount (ai_tenders input))" using pt [of "\<lambda>_. True"] by simp
qed

lemma funded_of_identity:
  assumes "alloc_pre J input" and "assertIdentity J input (sidesOf input) = Inr ()"
  shows "extras_total J input \<le> instant_total J input"
proof -
  have t: "\<forall>t\<in>set (ai_tenders input). 0 \<le> at_amount t" "column J at_amount (ai_tenders input) \<le> amount_limit"
    and l: "\<forall>l\<in>set (ai_otherLines input). 0 \<le> ol_amount l" "column J ol_amount (ai_otherLines input) \<le> amount_limit"
    using assms by (auto simp: alloc_pre_def)
  show ?thesis
    using assms(2) unfolding assertIdentity_def Let_def column_sum [OF t] column_sum [OF l]
    by (auto simp: extras_total_def instant_total_def split: if_splits)
qed

end

section \<open>Reductions\<close>

definition red_rows :: "decimal_js \<Rightarrow> alloc_input \<Rightarrow> sides \<Rightarrow> alloc_bill \<Rightarrow> alloc_adjustment list" where
  "red_rows J input sides bill = (case bill_reductions J input sides bill of Inl e \<Rightarrow> [] | Inr rows \<Rightarrow> rows)"

lemma addReductions_spec:
  "addReductions J input sides bills out = Inr adj \<longleftrightarrow>
    adj = out @ concat (map (red_rows J input sides) bills) \<and>
    (\<forall>b\<in>set bills. \<exists>rows. bill_reductions J input sides b = Inr rows)"
  by (induction bills arbitrary: out) (auto simp: e_bind_Inr_conv red_rows_def)

definition reduction :: "decimal_js \<Rightarrow> alloc_bill \<Rightarrow> rat" where
  "reduction J b = money J (ab_discount b) + money J (ab_writeoff b) + money J (ab_roundoff b)"

context decimal_package
begin

lemma red_rows_sum:
  assumes "bill_reductions J input sides b = Inr rows" and "bill_fits J b"
    and "\<And>ty mode a ap. \<phi> (reductionRow input sides b ty mode a ap) = f * a"
  shows "sum_list (map \<phi> (red_rows J input sides b)) = f * reduction J b"
proof -
  have nn: "0 \<le> money J (ab_discount b)" "0 \<le> money J (ab_writeoff b)" "0 \<le> money J (ab_roundoff b)"
    using assms(2) by (simp_all add: bill_fits_def)
  have z: "x = 0" if "\<not> 0 < x" "0 \<le> x" for x :: rat using that by simp
  show ?thesis
    using assms(1,3) z [OF _ nn(1)] z [OF _ nn(2)] z [OF _ nn(3)]
    unfolding red_rows_def reduction_def bill_reductions_def Let_def
    by (auto simp: algebra_simps split: if_splits)
qed

end

section \<open>The trace of a run\<close>

definition left_sources :: "decimal_js \<Rightarrow> alloc_input \<Rightarrow> rat list \<Rightarrow> source list" where
  "left_sources J input rs = with_balances (buildSources J input (sidesOf input)) rs"

definition held :: "decimal_js \<Rightarrow> alloc_input \<Rightarrow> rat list \<Rightarrow> rat \<Rightarrow> (voucher_key \<times> rat) list" where
  "held J input rs v = leftovers (left_sources J input rs) @
     (if 0 < floating_total J input + v then [(RECEIPT_VOUCHER_KEY, floating_total J input + v)] else [])"

definition trace_rows :: "decimal_js \<Rightarrow> alloc_input \<Rightarrow> (alloc_bill \<times> alloc_other_line \<times> rat) list \<Rightarrow>
    (alloc_bill \<times> source \<times> rat) list \<Rightarrow> alloc_adjustment list" where
  "trace_rows J input ps ts = ded_rows input (sidesOf input) ps @ flow_rows (sidesOf input) ts
     @ concat (map (red_rows J input (sidesOf input)) (ai_bills input))"

definition guards_pass :: "decimal_js \<Rightarrow> alloc_input \<Rightarrow> bool" where
  "guards_pass J input \<longleftrightarrow> assertBillsFit J (ai_bills input) = Inr () \<and>
     assertCreditsFit J (ai_credits input) = Inr () \<and> assertIdentity J input (sidesOf input) = Inr ()"

definition placed_ok :: "alloc_input \<Rightarrow> (alloc_bill \<times> alloc_other_line \<times> rat) list \<Rightarrow> bool" where
  "placed_ok input ps \<longleftrightarrow> (\<forall>(b, l, a)\<in>set ps. b \<in> set (ai_bills input) \<and> l \<in> set (ai_otherLines input) \<and>
     isDeduction l (sidesOf input) \<and> paise a \<and> 0 \<le> a)"

definition moved_ok :: "decimal_js \<Rightarrow> alloc_input \<Rightarrow> (alloc_bill \<times> source \<times> rat) list \<Rightarrow> bool" where
  "moved_ok J input ts \<longleftrightarrow> (\<forall>(b, s, t)\<in>set ts. b \<in> set (ai_bills input) \<and>
     s \<in> src_tag ` set (buildSources J input (sidesOf input)) \<and> paise t \<and> 0 < t)"

text \<open>The run up to the checks of the last step, whether or not the bills came out full.\<close>

definition alloc_run :: "decimal_js \<Rightarrow> alloc_input \<Rightarrow> (alloc_bill \<times> alloc_other_line \<times> rat) list \<Rightarrow>
    (alloc_bill \<times> source \<times> rat) list \<Rightarrow> rat list \<Rightarrow> rat list \<Rightarrow> rat \<Rightarrow> bool" where
  "alloc_run J input ps ts cs rs v \<longleftrightarrow>
     placed_ok input ps \<and> moved_ok J input ts \<and>
     (\<forall>f. moved_by (\<lambda>b l. f b) ps + moved_by (\<lambda>b s. f b) ts =
        weigh f (ai_bills input) (map (\<lambda>b. money J (ab_amount b)) (ai_bills input)) - weigh f (ai_bills input) cs) \<and>
     (\<forall>g. moved_by (\<lambda>b s. g s) ts = source_total g (buildSources J input (sidesOf input))
        - source_total g (left_sources J input rs)) \<and>
     length cs = length (ai_bills input) \<and> length rs = length (buildSources J input (sidesOf input)) \<and>
     (\<forall>x\<in>set cs \<union> set rs. pourable x) \<and> ((\<forall>c\<in>set cs. c = 0) \<or> (\<forall>r\<in>set rs. r = 0)) \<and>
     v = deductions_total J input - moved_by (\<lambda>_ _. 1) ps \<and> paise v \<and> 0 \<le> v \<and> (0 < v \<longrightarrow> (\<forall>c\<in>set cs. c = 0) \<and> moved_by (\<lambda>_ _. 1) ts = 0) \<and>
     (\<forall>i j. i < j \<longrightarrow> j < length rs \<longrightarrow>
        rs ! j < src_remaining (buildSources J input (sidesOf input) ! j) \<longrightarrow> rs ! i = 0)"

lemma with_balances_nth:
  "i < length ss \<Longrightarrow> i < length rs \<Longrightarrow> with_balances ss rs ! i = (ss ! i)\<lparr>src_remaining := rs ! i\<rparr>"
  by (simp add: with_balances_def)

lemma source_total_with_balances:
  "length rs = length ss \<Longrightarrow> source_total g (with_balances ss rs) = weigh g (map src_tag ss) rs"
  by (induction rs ss rule: list_induct2) (simp_all add: with_balances_def source_total_def)

lemma leftovers_snd: "map snd (leftovers ss) = filter (\<lambda>x. 0 < x) (map src_remaining ss)"
  by (induction ss) (simp_all add: leftovers_def)

lemma amounts_Nil: "amounts [] = []"
  by (simp add: amounts_def)

lemma source_total_weigh: "source_total g ss = weigh g (map src_tag ss) (map src_remaining ss)"
  by (induction ss) simp_all

context decimal_package
begin

lemma sources_pourable:
  assumes "alloc_pre J input" and "guards_pass J input"
  shows "\<forall>s\<in>set (buildSources J input (sidesOf input)). pourable (src_remaining s)"
proof -
  have pre: "\<forall>t\<in>set (ai_tenders input). 0 \<le> at_amount t" "column J at_amount (ai_tenders input) \<le> amount_limit"
    and cl: "column J ac_amount (ai_credits input) \<le> amount_limit"
    using assms(1) by (auto simp: alloc_pre_def)
  obtain cur where b: "buildSources J input (sidesOf input) =
      map (credit_source J input) (ai_credits input) @ cur @ map (pdc_source J input) (post_dated input)"
    and cur: "\<forall>s\<in>set cur. current_source input s \<and> pourable (src_remaining s)"
    using buildSources_spec [OF assms(1)] funded_of_identity [OF assms(1)] assms(2) by (auto simp: guards_pass_def)
  have "pourable (money J (at_amount t))" if "t \<in> set (ai_tenders input)" for t
  proof -
    have "money J (at_amount t) \<le> column J at_amount (ai_tenders input)"
      unfolding column_def using that pre(1) by (intro sum_list_nonneg_elem) auto
    then show ?thesis using that pre by (simp add: pourable_def amount_limit_def)
  qed
  moreover have "pourable (money J (ac_amount c))" if "c \<in> set (ai_credits input)" for c
  proof -
    have nn: "\<forall>c\<in>set (ai_credits input). 0 \<le> money J (ac_amount c)"
      using assms(2) by (auto simp: guards_pass_def assertCreditsFit_iff credit_fits_def)
    then have "money J (ac_amount c) \<le> column J ac_amount (ai_credits input)"
      unfolding column_def using that by (intro sum_list_nonneg_elem) auto
    then show ?thesis using that nn cl by (simp add: pourable_def amount_limit_def)
  qed
  ultimately show ?thesis using cur by (auto simp: b post_dated_def)
qed

lemma capacity_ok:
  assumes "alloc_pre J input" and "guards_pass J input"
  shows "caps_ok (ai_bills input) (map (\<lambda>b. money J (ab_amount b)) (ai_bills input))"
  using assms by (auto simp: caps_ok_def split_ok_def alloc_pre_def column_def guards_pass_def assertBillsFit_iff bill_fits_def)

lemma alloc_run_exists:
  assumes pre: "alloc_pre J input" and g: "guards_pass J input"
    and res: "reserveDeductions J input (sidesOf input) (ai_bills input)
      (map (\<lambda>b. money J (ab_amount b)) (ai_bills input), []) = Inr (v, caps, out)"
  shows "\<exists>ps ts cs rs. alloc_run J input ps ts cs rs v \<and> out = ded_rows input (sidesOf input) ps \<and>
    pour J (ai_bills input) caps (buildSources J input (sidesOf input)) (sidesOf input) out =
      Some (cs, left_sources J input rs, out @ flow_rows (sidesOf input) ts)"
proof -
  let ?bills = "ai_bills input" and ?S = "sidesOf input" and ?caps0 = "map (\<lambda>b. money J (ab_amount b)) (ai_bills input)"
  let ?srcs = "buildSources J input (sidesOf input)"
  obtain ps where pl: "places input ?S ?bills (filter (\<lambda>l. isDeduction l ?S) (ai_otherLines input)) (?caps0, []) ps (caps, out)"
    and v: "v = column J ol_amount (filter (\<lambda>l. isDeduction l ?S) (ai_otherLines input)) - moved_by (\<lambda>_ _. 1) ps"
      "paise v" "0 \<le> v" "0 < v \<longrightarrow> sum_list caps = 0"
    using reserve_places [OF res _ pre] capacity_ok [OF pre g] by auto
  have caps: "length caps = length ?bills" "split_ok caps" using places_caps [OF pl] by (auto simp: caps_ok_def)
  have cok: "\<forall>x\<in>set caps. pourable x" using split_ok_elem [OF caps(2)] by (auto simp: pourable_def)
  note sok = sources_pourable [OF pre g]
  obtain ts cs rs where fl: "flow (zip ?bills caps) (tagged ?srcs) = (ts, cs, rs)" by (cases "flow (zip ?bills caps) (tagged ?srcs)") auto
  have pour: "pour J ?bills caps ?srcs ?S out = Some (cs, left_sources J input rs, out @ flow_rows ?S ts)"
    using pour_from_flow [OF caps(1) [symmetric] cok sok fl, of _ "[]" out] by (simp add: pour_def left_sources_def)
  have z: "map fst (zip ?bills caps) = ?bills" "map snd (zip ?bills caps) = caps" using caps(1) by simp_all
  have tg: "map fst (tagged ?srcs) = map src_tag ?srcs" by (simp add: tagged_def)
  have len: "length cs = length ?bills" "length rs = length ?srcs" using flow_length [OF fl] caps(1) by simp_all
  have dom: "\<forall>x\<in>snd ` set (zip ?bills caps) \<union> snd ` set (tagged ?srcs). paise x \<and> 0 \<le> x \<and> x < 10 ^ 18"
    using cok sok by (auto simp: tagged_def pourable_def dest: set_zip_rightD)
  have grid: "\<forall>x\<in>set cs \<union> set rs. pourable x" "\<forall>(b, s, t)\<in>set ts. paise t \<and> 0 < t"
    using flow_grid [OF fl dom] by (auto simp: pourable_def)
  have ex: "(\<forall>c\<in>set cs. c = 0) \<or> (\<forall>r\<in>set rs. r = 0)" using flow_exhausts [OF fl] dom by blast
  have mem: "moved_ok J input ts"
    using flow_members [OF fl] grid(2) by (fastforce simp: moved_ok_def tagged_def dest: set_zip_leftD)
  have ord: "\<forall>i j. i < j \<longrightarrow> j < length rs \<longrightarrow> rs ! j < src_remaining (?srcs ! j) \<longrightarrow> rs ! i = 0"
    using flow_order [OF fl] dom len by (auto simp: tagged_def)
  have full: "(\<forall>c\<in>set cs. c = 0) \<and> moved_by (\<lambda>_ _. 1) ts = 0" if "0 < v"
  proof -
    have "0 \<le> moved_by (\<lambda>_ _. 1) ts" using grid(2) by (fastforce simp: moved_by_def intro!: sum_list_nonneg)
    moreover have "moved_by (\<lambda>_ _. 1) ts = weigh (\<lambda>_. 1) ?bills caps - weigh (\<lambda>_. 1) ?bills cs"
      using flow_demand [OF fl, of "\<lambda>_. 1"] by (simp only: z)
    then have "moved_by (\<lambda>_ _. 1) ts = - sum_list cs" using len caps(1) v(4) that by (simp add: weigh_const)
    moreover have "0 \<le> sum_list cs" using grid(1) by (auto simp: pourable_def intro!: sum_list_nonneg)
    ultimately have "sum_list cs = 0" "moved_by (\<lambda>_ _. 1) ts = 0" by simp_all
    then show ?thesis using sum_list_zero_nonneg [of cs] grid(1) by (auto simp: pourable_def)
  qed
  have "\<forall>f. moved_by (\<lambda>b l. f b) ps + moved_by (\<lambda>b s. f b) ts = weigh f ?bills ?caps0 - weigh f ?bills cs"
    using pl flow_demand [OF fl] by (simp add: places_def z)
  moreover have "\<forall>g. moved_by (\<lambda>b s. g s) ts = source_total g ?srcs - source_total g (left_sources J input rs)"
    using flow_supply [OF fl] len
    by (simp add: source_total_with_balances left_sources_def tg source_total_weigh [of _ ?srcs])
  moreover have "placed_ok input ps" using pl by (auto simp: places_def placed_ok_def)
  moreover have "out = ded_rows input ?S ps" using pl by (simp add: places_def)
  ultimately have "alloc_run J input ps ts cs rs v \<and> out = ded_rows input ?S ps"
    unfolding alloc_run_def using mem len grid(1) ex v full ord by (simp add: deductions_total_def)
  with pour show ?thesis by blast
qed

lemma source_totals:
  assumes "alloc_pre J input" and "guards_pass J input"
  shows "source_total g (buildSources J input (sidesOf input)) =
      sum_list (map (\<lambda>c. g (src_tag (credit_source J input c)) * money J (ac_amount c)) (ai_credits input)) +
      source_total g (filter (current_source input) (buildSources J input (sidesOf input))) +
      sum_list (map (\<lambda>t. g (src_tag (pdc_source J input t)) * money J (at_amount t)) (filter at_isPostDated (ai_tenders input)))"
    and "sum_list (map src_remaining (filter (current_source input) (buildSources J input (sidesOf input)))) =
      instant_total J input - extras_total J input"
    and "\<forall>s\<in>set (buildSources J input (sidesOf input)). (\<exists>c\<in>set (ai_credits input). s = credit_source J input c) \<or>
      current_source input s \<or> (\<exists>t\<in>set (ai_tenders input). at_isPostDated t \<and> s = pdc_source J input t)"
proof -
  obtain cur where b: "buildSources J input (sidesOf input) =
      map (credit_source J input) (ai_credits input) @ cur @ map (pdc_source J input) (post_dated input)"
    and cur: "\<forall>s\<in>set cur. current_source input s"
    and sum: "sum_list (map src_remaining cur) = instant_total J input - extras_total J input"
    using buildSources_spec [OF assms(1)] funded_of_identity [OF assms(1)] assms(2) by (auto simp: guards_pass_def)
  have c: "filter (current_source input) (map (credit_source J input) cs) = []" for cs
    by (simp add: filter_map comp_def current_source_def credit_source_def)
  have p: "filter (current_source input) (map (pdc_source J input) ts) = []" for ts
    by (simp add: filter_map comp_def current_source_def pdc_source_def)
  have f: "filter (current_source input) (buildSources J input (sidesOf input)) = cur"
    using cur by (simp add: b c p)
  show "sum_list (map src_remaining (filter (current_source input) (buildSources J input (sidesOf input)))) =
      instant_total J input - extras_total J input" by (simp only: f sum)
  show "source_total g (buildSources J input (sidesOf input)) =
      sum_list (map (\<lambda>c. g (src_tag (credit_source J input c)) * money J (ac_amount c)) (ai_credits input)) +
      source_total g (filter (current_source input) (buildSources J input (sidesOf input))) +
      sum_list (map (\<lambda>t. g (src_tag (pdc_source J input t)) * money J (at_amount t)) (filter at_isPostDated (ai_tenders input)))"
    unfolding f unfolding b post_dated_def
    by (simp add: source_total_sort_key) (simp add: source_total_def comp_def)
  show "\<forall>s\<in>set (buildSources J input (sidesOf input)). (\<exists>c\<in>set (ai_credits input). s = credit_source J input c) \<or>
      current_source input s \<or> (\<exists>t\<in>set (ai_tenders input). at_isPostDated t \<and> s = pdc_source J input t)"
    using cur by (auto simp: b post_dated_def)
qed

lemma tender_split: "column J at_amount (ai_tenders input) =
    instant_total J input + column J at_amount (filter at_isPostDated (ai_tenders input))"
  using sum_list_filter_split [of "\<lambda>t. money J (at_amount t)" "ai_tenders input" at_isPostDated]
  by (simp add: column_def instant_total_def)

lemma source_total_one:
  assumes "alloc_pre J input" and "guards_pass J input"
  shows "sum_list (map src_remaining (buildSources J input (sidesOf input))) =
    column J ac_amount (ai_credits input) + column J at_amount (ai_tenders input) - extras_total J input"
  using source_totals(1) [OF assms, of "\<lambda>_. 1"] source_totals(2) [OF assms] tender_split [of input]
  by (simp add: source_total_def column_def)

lemma held_exact:
  assumes "alloc_pre J input" and "guards_pass J input" and "alloc_run J input ps ts cs rs v"
  shows "exact_column (map snd (held J input rs v))"
    and "sum_list (map snd (held J input rs v)) = sum_list rs + floating_total J input + v"
proof -
  note pre = pre_columns [OF assms(1)]
  have len: "length rs = length (buildSources J input (sidesOf input))" and rs: "\<forall>x\<in>set rs. pourable x"
    and v: "paise v" "0 \<le> v" "v = deductions_total J input - moved_by (\<lambda>_ _. 1) ps"
    and tsum: "moved_by (\<lambda>_ _. 1) ts = source_total (\<lambda>_. 1) (buildSources J input (sidesOf input))
        - source_total (\<lambda>_. 1) (left_sources J input rs)"
    using assms(3) by (auto simp: alloc_run_def)
  have rem: "map src_remaining (left_sources J input rs) = rs"
    using len by (simp add: left_sources_def with_balances_def list_eq_iff_nth_eq)
  have left: "map snd (leftovers (left_sources J input rs)) = filter (\<lambda>x. 0 < x) rs"
    using leftovers_snd [of "left_sources J input rs"] by (simp only: rem)
  have fsum: "sum_list (filter (\<lambda>x. 0 < x) xs) = sum_list xs" if "\<forall>x\<in>set xs. 0 \<le> x" for xs :: "rat list"
    using that by (induction xs) auto
  show sum: "sum_list (map snd (held J input rs v)) = sum_list rs + floating_total J input + v"
    using rs pre(8) v(2) by (auto simp: held_def left fsum pourable_def)
  have "0 \<le> moved_by (\<lambda>_ _. 1) ts" "0 \<le> moved_by (\<lambda>_ _. 1) ps"
    using assms(3) by (fastforce simp: alloc_run_def moved_by_def moved_ok_def placed_ok_def intro!: sum_list_nonneg)+
  then have "sum_list rs \<le> sum_list (map src_remaining (buildSources J input (sidesOf input)))" "v \<le> deductions_total J input"
    using tsum v(3) by (simp_all add: source_total_def rem)
  then have "sum_list rs + floating_total J input + v \<le> 3 * amount_limit"
    using source_total_one [OF assms(1,2)] pre assms(1) by (simp add: alloc_pre_def)
  moreover have "\<forall>x\<in>set (map snd (held J input rs v)). paise x \<and> 0 \<le> x"
    using rs pre(13) v(1) by (auto simp: held_def left pourable_def simp del: set_map)
  ultimately show "exact_column (map snd (held J input rs v))"
    using sum by (intro exact_column_nonneg) (auto simp: amount_limit_def)
qed

lemma collect_spec:
  assumes "alloc_pre J input" and "guards_pass J input" and "alloc_run J input ps ts cs rs v"
    and "collectOnAccount J input (sidesOf input) (left_sources J input rs) v = Inr oa"
  shows "\<exists>m. filed m \<and> amounts m = fold_totals J (held J input rs v) \<and> oa = map snd m \<and>
    (\<forall>s\<in>set (left_sources J input rs). src_kind s = CREDIT \<longrightarrow> src_remaining s \<le> 0)"
proof -
  have l: "\<forall>l\<in>set (ai_otherLines input). 0 \<le> ol_amount l" "column J ol_amount (ai_otherLines input) \<le> amount_limit"
    using assms(1) by (auto simp: alloc_pre_def)
  note pre = pre_columns [OF assms(1)]
  have v: "paise v" "0 \<le> v" "v \<le> deductions_total J input"
    using assms(3) by (fastforce simp: alloc_run_def placed_ok_def moved_by_def intro!: sum_list_nonneg)+
  have fl: "sum_money J (map (\<lambda>l. money J (ol_amount l)) (filter (\<lambda>l. isFloating l (sidesOf input)) (ai_otherLines input))) =
      floating_total J input"
    unfolding floating_total_def by (rule column_sum [OF l])
  have plus: "d_plus J (floating_total J input) v = floating_total J input + v"
    using pre(8,9,13) v by (intro plus_paise) (auto simp: amount_limit_def)
  obtain m1 where m1: "collect_sources J (left_sources J input rs) [] = Inr m1"
    and oa: "oa = map (\<lambda>(k, e). e\<lparr>oa_amount := money J (oa_amount e)\<rparr>)
      (add_on_account J RECEIPT_VOUCHER_KEY (floating_total J input + v) (ai_receiptDate input) m1)"
    using assms(4) unfolding collectOnAccount_def Let_def fl plus e_bind_Inr_conv by blast
  let ?m = "add_on_account J RECEIPT_VOUCHER_KEY (floating_total J input + v) (ai_receiptDate input) m1"
  have "filed []" by (simp add: filed_def)
  note c = collect_sources_spec [OF m1 this]
  have f: "filed ?m" using c by (intro filed_add) simp
  have a: "amounts ?m = fold_totals J (held J input rs v)"
    using c amounts_Nil by (simp add: amounts_add held_def fold_totals_def)
  have "money J (oa_amount e) = oa_amount e" if "(k, e) \<in> set ?m" for k e
  proof -
    have "(k, oa_amount e) \<in> set (amounts ?m)" using that by (force simp: amounts_def)
    then have "jmap_get (fold_totals J (held J input rs v)) k = Some (oa_amount e)"
      unfolding a using fold_totals_distinct by (intro map_of_is_SomeI)
    then have "oa_amount e = key_sum k (held J input rs v)"
      unfolding fold_totals_get [OF held_exact(1) [OF assms(1-3)]] by (simp split: if_splits)
    then show ?thesis using key_sum_exact(1) [OF held_exact(1) [OF assms(1-3)]] by simp
  qed
  then have "oa = map snd ?m" unfolding oa by (intro map_cong) auto
  with f a c show ?thesis by blast
qed

end

end
