(* ===== verification/Allocation_Correct.thy ===== *)
theory Allocation_Correct
  imports Allocation_Trace
begin

text \<open>
  What a successful \<open>allocate\<close> settles on every bill, spends of every credit, holds on account and
  books on the party leg of every voucher, and that it always returns.
\<close>

section \<open>Reading a successful result\<close>

lemma find_unfilled_None: "find_unfilled cs = None \<longleftrightarrow> (\<forall>c\<in>set cs. c = 0)"
  by (auto simp: find_unfilled_def find_None_iff all_set_conv_all_nth)

context decimal_package
begin

lemma allocate_success:
  assumes pre: "alloc_pre J input" and ok: "allocate J input = Some (Inr r)"
  shows "guards_pass J input \<and> (\<exists>ps ts cs rs v m. alloc_run J input ps ts cs rs v \<and> (\<forall>c\<in>set cs. c = 0) \<and>
    ar_adjustments r = trace_rows J input ps ts \<and>
    (\<forall>b\<in>set (ai_bills input). \<exists>rows. bill_reductions J input (sidesOf input) b = Inr rows) \<and>
    filed m \<and> amounts m = fold_totals J (held J input rs v) \<and> ar_onAccount r = map snd m \<and>
    (\<forall>s\<in>set (left_sources J input rs). src_kind s = CREDIT \<longrightarrow> src_remaining s \<le> 0) \<and>
    ar_totalOnAccount r = sum_money J (map oa_amount (ar_onAccount r)) \<and>
    ar_totalOnAccount r = money J (ai_claimedOnAccount input) \<and>
    ar_adjustAmountByVoucher r = totalPerVoucher J (ar_adjustments r) \<and>
    ar_partyCreditByVoucher r = partyLegPerVoucher J input (sidesOf input) (ar_adjustments r) (ar_onAccount r) \<and>
    ar_partyLegSide r = sd_settle (sidesOf input))"
proof -
  let ?S = "sidesOf input" and ?caps0 = "map (\<lambda>b. money J (ab_amount b)) (ai_bills input)"
  let ?reserved = "e_bind (assertBillsFit J (ai_bills input)) (\<lambda>_. e_bind (assertCreditsFit J (ai_credits input)) (\<lambda>_.
    e_bind (assertIdentity J input ?S) (\<lambda>_. reserveDeductions J input ?S (ai_bills input) (?caps0, []))))"
  obtain v caps out where "?reserved = Inr (v, caps, out)"
    and run: "(case pour J (ai_bills input) caps (buildSources J input ?S) ?S out of None \<Rightarrow> None
      | Some (capacity', sources, out') \<Rightarrow> Some (finish J input ?S v capacity' sources out')) = Some (Inr r)"
    using ok unfolding allocate_def Let_def by (auto split: sum.splits simp del: money_half_up)
  then have g: "guards_pass J input"
    and res: "reserveDeductions J input ?S (ai_bills input) (?caps0, []) = Inr (v, caps, out)"
    unfolding guards_pass_def e_bind_Inr_conv by auto
  obtain ps ts cs rs where r: "alloc_run J input ps ts cs rs v" and o: "out = ded_rows input ?S ps"
    and p: "pour J (ai_bills input) caps (buildSources J input ?S) ?S out =
      Some (cs, left_sources J input rs, out @ flow_rows ?S ts)"
    using alloc_run_exists [OF pre g res] by blast
  have fin: "finish J input ?S v cs (left_sources J input rs) (out @ flow_rows ?S ts) = Inr r"
    using run by (simp add: p)
  then have full: "\<forall>c\<in>set cs. c = 0" by (auto simp: finish_def find_unfilled_None [symmetric] split: option.splits)
  obtain adj oa where adj: "addReductions J input ?S (ai_bills input) (out @ flow_rows ?S ts) = Inr adj"
    and oa: "collectOnAccount J input ?S (left_sources J input rs) v = Inr oa"
    and tot: "sum_money J (map oa_amount oa) = money J (ai_claimedOnAccount input)"
    and rr: "r = \<lparr> ar_adjustments = adj, ar_onAccount = oa, ar_totalOnAccount = sum_money J (map oa_amount oa),
      ar_adjustAmountByVoucher = totalPerVoucher J adj,
      ar_partyCreditByVoucher = partyLegPerVoucher J input ?S adj oa, ar_partyLegSide = sd_settle ?S \<rparr>"
    using fin full unfolding finish_def find_unfilled_None [symmetric] Let_def
    by (auto simp: e_bind_Inr_conv split: if_splits simp del: money_half_up)
  obtain m where m: "filed m" "amounts m = fold_totals J (held J input rs v)" "oa = map snd m"
    "\<forall>s\<in>set (left_sources J input rs). src_kind s = CREDIT \<longrightarrow> src_remaining s \<le> 0"
    using collect_spec [OF pre g r oa] by blast
  have "adj = trace_rows J input ps ts"
    "\<forall>b\<in>set (ai_bills input). \<exists>rows. bill_reductions J input ?S b = Inr rows"
    using adj o by (auto simp: addReductions_spec trace_rows_def)
  with g r full m tot show ?thesis
    by (intro conjI exI [of _ ps] exI [of _ ts] exI [of _ cs] exI [of _ rs] exI [of _ v] exI [of _ m])
      (simp_all add: rr del: money_half_up)
qed

lemma sum_trace:
  assumes "\<forall>(b, l, a)\<in>set ps. \<phi> (deductionRow input (sidesOf input) b l a) = fp b l * a"
    and "\<forall>(b, s, t)\<in>set ts. sum_list (map \<phi> (settlementRows b s t (sidesOf input))) = ft b s * t"
    and "\<And>b ty mode a ap. \<phi> (reductionRow input (sidesOf input) b ty mode a ap) = fr b * a"
    and "\<forall>b\<in>set (ai_bills input). bill_fits J b \<and> (\<exists>rows. bill_reductions J input (sidesOf input) b = Inr rows)"
  shows "sum_list (map \<phi> (trace_rows J input ps ts)) =
    moved_by fp ps + moved_by ft ts + sum_list (map (\<lambda>b. fr b * reduction J b) (ai_bills input))"
proof -
  have "sum_list (map \<phi> (ded_rows input (sidesOf input) ps)) = moved_by fp ps"
    using assms(1) by (induction ps) (auto simp: ded_rows_def)
  moreover have "sum_list (map \<phi> (flow_rows (sidesOf input) ts)) = moved_by ft ts"
    using assms(2) by (induction ts) auto
  moreover have "sum_list (map \<phi> (concat (map (red_rows J input (sidesOf input)) bs))) =
      sum_list (map (\<lambda>b. fr b * reduction J b) bs)" if "set bs \<subseteq> set (ai_bills input)" for bs
    using that
  proof (induction bs)
    case (Cons b bs)
    obtain rows where rows: "bill_reductions J input (sidesOf input) b = Inr rows" and fits: "bill_fits J b"
      using Cons.prems assms(4) by auto
    have "sum_list (map \<phi> (red_rows J input (sidesOf input) b)) = fr b * reduction J b"
      by (rule red_rows_sum [OF rows fits]) (rule assms(3))
    with Cons show ?case by simp
  qed simp
  ultimately show ?thesis by (simp add: trace_rows_def)
qed

end

lemma sum_pick:
  fixes h :: "'a \<Rightarrow> rat"
  assumes "distinct (map k xs)" and "x \<in> set xs" and "\<And>y. y \<in> set xs \<Longrightarrow> P y \<longleftrightarrow> k y = k x"
  shows "sum_list (map (\<lambda>y. (if P y then 1 else 0) * h y) xs) = h x"
  using assms
proof (induction xs)
  case (Cons y xs)
  have z: "sum_list (map (\<lambda>y. (if P y then 1 else 0) * h y) xs) = 0" if "k x \<notin> k ` set xs"
  proof -
    have "\<not> P y'" if "y' \<in> set xs" for y' using that \<open>k x \<notin> k ` set xs\<close> Cons.prems(3) [of y'] by (metis image_eqI list.set_intros(2))
    then have "\<forall>y\<in>set xs. (if P y then 1 else 0) * h y = 0" by simp
    then show ?thesis by (induction xs) auto
  qed
  show ?case
  proof (cases "y = x")
    case True
    then show ?thesis using Cons.prems z by auto
  next
    case False
    then have "x \<in> set xs" using Cons.prems(2) by auto
    moreover from this have "\<not> P y" using Cons.prems(1,3) by (auto simp: image_iff)
    ultimately show ?thesis using Cons by auto
  qed
qed simp

lemma key_of_pair: "a = c \<and> b = d \<Longrightarrow> key_of a b = key_of c d"
  by simp

section \<open>Bills\<close>

definition row_on :: "string \<Rightarrow> string \<Rightarrow> DrCr \<Rightarrow> alloc_adjustment \<Rightarrow> bool" where
  "row_on billId accYear side row \<longleftrightarrow> adj_billId row = billId \<and> adj_billAccYear row = accYear \<and> adj_drCr row = side"

definition moved_on :: "alloc_result \<Rightarrow> string \<Rightarrow> string \<Rightarrow> DrCr \<Rightarrow> rat" where
  "moved_on r billId accYear side = sum_list (map adj_amount (filter (row_on billId accYear side) (ar_adjustments r)))"

lemma distinct_pairs:
  "distinct (map (\<lambda>x. key_of (f x) (g x)) xs) \<Longrightarrow> distinct (map (\<lambda>x. (f x, g x)) xs)"
  by (induction xs) (auto simp: image_iff)

context decimal_package
begin

lemma bill_settled_total:
  assumes pre: "alloc_pre J input" and ok: "allocate J input = Some (Inr r)" and b: "b \<in> set (ai_bills input)"
  shows "moved_on r (ab_billId b) (ab_billAccYear b) (sd_settle (sidesOf input)) = money J (ab_amount b) + reduction J b"
proof -
  let ?S = "sidesOf input" and ?P = "row_on (ab_billId b) (ab_billAccYear b) (sd_settle (sidesOf input))"
  let ?f = "\<lambda>x. if ab_billId x = ab_billId b \<and> ab_billAccYear x = ab_billAccYear b then 1 else (0::rat)"
  from allocate_success [OF pre ok] obtain ps ts cs rs v where g: "guards_pass J input"
    and run: "alloc_run J input ps ts cs rs v" and full: "\<forall>c\<in>set cs. c = 0"
    and adj: "ar_adjustments r = trace_rows J input ps ts"
    and red: "\<forall>b\<in>set (ai_bills input). \<exists>rows. bill_reductions J input ?S b = Inr rows" by blast
  have fits: "\<forall>b\<in>set (ai_bills input). bill_fits J b" "distinct (map bill_key (ai_bills input))"
    using g by (auto simp: guards_pass_def assertBillsFit_iff)
  have dist: "distinct (map (\<lambda>x. (ab_billId x, ab_billAccYear x)) (ai_bills input))"
    using fits(2) unfolding bill_key_def by (rule distinct_pairs)
  have rows: "sum_list (map (\<lambda>row. if ?P row then adj_amount row else 0) (trace_rows J input ps ts)) =
      moved_by (\<lambda>b l. ?f b) ps + moved_by (\<lambda>b s. ?f b) ts + sum_list (map (\<lambda>b. ?f b * reduction J b) (ai_bills input))"
    using fits(1) red sides_cases(2) [of input]
    by (intro sum_trace)
      (auto simp: row_on_def deductionRow_def reductionRow_def settlementRows_def split: source_kind.splits option.splits)
  have "moved_by (\<lambda>b l. ?f b) ps + moved_by (\<lambda>b s. ?f b) ts =
      weigh ?f (ai_bills input) (map (\<lambda>b. money J (ab_amount b)) (ai_bills input)) - weigh ?f (ai_bills input) cs"
    using run unfolding alloc_run_def by (elim conjE allE) assumption
  also have "\<dots> = sum_list (map (\<lambda>x. ?f x * money J (ab_amount x)) (ai_bills input))"
    using full by (simp add: weigh_zero weigh_map del: money_half_up)
  also have "\<dots> = money J (ab_amount b)" by (rule sum_pick [OF dist b]) auto
  finally have m: "moved_by (\<lambda>b l. ?f b) ps + moved_by (\<lambda>b s. ?f b) ts = money J (ab_amount b)" .
  have "sum_list (map (\<lambda>x. ?f x * reduction J x) (ai_bills input)) = reduction J b" by (rule sum_pick [OF dist b]) auto
  with rows m show ?thesis by (simp add: moved_on_def adj sum_list_if_filter)
qed

end

section \<open>Credits\<close>

definition spends :: "alloc_credit \<Rightarrow> source \<Rightarrow> rat" where
  "spends c s = (case (src_kind s, src_credit s) of
     (CREDIT, Some c') \<Rightarrow> (if ac_billId c' = ac_billId c \<and> ac_billAccYear c' = ac_billAccYear c then 1 else 0) | _ \<Rightarrow> 0)"

lemma spends_simps:
  "spends c (src_tag s) = spends c s"
  "current_source input s \<Longrightarrow> spends c s = 0" "spends c (pdc_source J input t) = 0"
  "spends c (credit_source J input c') = (if ac_billId c' = ac_billId c \<and> ac_billAccYear c' = ac_billAccYear c then 1 else 0)"
  by (auto simp: spends_def src_tag_def current_source_def pdc_source_def credit_source_def split: source_kind.splits)

lemma key_sum_nonneg: "\<forall>kv\<in>set kvs. 0 \<le> snd kv \<Longrightarrow> 0 \<le> key_sum k kvs"
  by (auto simp: key_sum_def intro!: sum_list_nonneg)

lemma moved_by_zero: "moved_by (\<lambda>_ _. 0) ps = 0"
  by (induction ps) auto

lemma source_total_zero: "(\<And>s. s \<in> set ss \<Longrightarrow> g (src_tag s) * src_remaining s = 0) \<Longrightarrow> source_total g ss = 0"
  by (induction ss) auto

context decimal_package
begin

lemma left_pourable:
  assumes "alloc_run J input ps ts cs rs v" and "s \<in> set (left_sources J input rs)"
  shows "pourable (src_remaining s)"
  using assms by (auto simp: alloc_run_def left_sources_def with_balances_def dest: set_zip_rightD)

lemma credit_spent_total:
  assumes pre: "alloc_pre J input" and ok: "allocate J input = Some (Inr r)" and c: "c \<in> set (ai_credits input)"
  shows "moved_on r (ac_billId c) (ac_billAccYear c) (sd_mirror (sidesOf input)) = money J (ac_amount c)"
proof -
  let ?S = "sidesOf input" and ?P = "row_on (ac_billId c) (ac_billAccYear c) (sd_mirror (sidesOf input))"
  from allocate_success [OF pre ok] obtain ps ts cs rs v where g: "guards_pass J input"
    and run: "alloc_run J input ps ts cs rs v" and adj: "ar_adjustments r = trace_rows J input ps ts"
    and red: "\<forall>b\<in>set (ai_bills input). \<exists>rows. bill_reductions J input ?S b = Inr rows"
    and spent: "\<forall>s\<in>set (left_sources J input rs). src_kind s = CREDIT \<longrightarrow> src_remaining s \<le> 0" by blast
  have fits: "\<forall>b\<in>set (ai_bills input). bill_fits J b" using g by (auto simp: guards_pass_def assertBillsFit_iff)
  have dist: "distinct (map (\<lambda>x. (ac_billId x, ac_billAccYear x)) (ai_credits input))"
    using g unfolding guards_pass_def assertCreditsFit_iff credit_key_def by (intro distinct_pairs) simp
  have "sum_list (map (\<lambda>row. if ?P row then adj_amount row else 0) (trace_rows J input ps ts)) =
      moved_by (\<lambda>b l. 0) ps + moved_by (\<lambda>b s. spends c s) ts + sum_list (map (\<lambda>b. 0 * reduction J b) (ai_bills input))"
    using fits red sides_cases(2) [of input]
    by (intro sum_trace)
      (auto simp: row_on_def deductionRow_def reductionRow_def settlementRows_def spends_def split: source_kind.splits option.splits)
  also have "\<dots> = moved_by (\<lambda>b s. spends c s) ts" by (simp add: moved_by_zero sum_list_0)
  also have "\<dots> = source_total (spends c) (buildSources J input ?S) - source_total (spends c) (left_sources J input rs)"
    using run unfolding alloc_run_def by blast
  also have "source_total (spends c) (left_sources J input rs) = 0"
  proof (rule source_total_zero)
    fix s assume s: "s \<in> set (left_sources J input rs)"
    then show "spends c (src_tag s) * src_remaining s = 0"
      using spent left_pourable [OF run s]
      by (cases "src_kind s = CREDIT") (force simp: pourable_def, auto simp: spends_def src_tag_def split: source_kind.splits)
  qed
  also have "source_total (spends c) (filter (current_source input) (buildSources J input ?S)) = 0"
    by (rule source_total_zero) (auto simp: spends_simps)
  then have "source_total (spends c) (buildSources J input ?S) = money J (ac_amount c)"
    using sum_pick [OF dist c, of "\<lambda>y. ac_billId y = ac_billId c \<and> ac_billAccYear y = ac_billAccYear c" "\<lambda>y. money J (ac_amount y)"]
    unfolding source_totals(1) [OF pre g] by (simp add: spends_simps sum_list_0)
  finally show ?thesis by (simp add: moved_on_def adj sum_list_if_filter)
qed

end

section \<open>The remainder\<close>

context decimal_package
begin

lemma moved_totals:
  assumes pre: "alloc_pre J input" and g: "guards_pass J input" and run: "alloc_run J input ps ts cs rs v"
  shows "sum_list rs + floating_total J input + v + column J ab_amount (ai_bills input) + extras_total J input =
    column J at_amount (ai_tenders input) + deductions_total J input + floating_total J input
      + column J ac_amount (ai_credits input) + sum_list cs"
proof -
  have len: "length rs = length (buildSources J input (sidesOf input))" "length cs = length (ai_bills input)"
    using run by (auto simp: alloc_run_def)
  have "\<forall>f. moved_by (\<lambda>b l. f b) ps + moved_by (\<lambda>b s. f b) ts =
        weigh f (ai_bills input) (map (\<lambda>b. money J (ab_amount b)) (ai_bills input)) - weigh f (ai_bills input) cs"
    using run unfolding alloc_run_def by blast
  from spec [OF this, of "\<lambda>_. 1"]
  have d: "moved_by (\<lambda>b l. 1) ps + moved_by (\<lambda>b s. 1) ts = column J ab_amount (ai_bills input) - sum_list cs"
    using len by (simp add: weigh_const column_def del: money_half_up)
  have "\<forall>g. moved_by (\<lambda>b s. g s) ts = source_total g (buildSources J input (sidesOf input))
        - source_total g (left_sources J input rs)"
    using run unfolding alloc_run_def by blast
  from spec [OF this, of "\<lambda>_. 1"]
  have s: "moved_by (\<lambda>b s. 1) ts = sum_list (map src_remaining (buildSources J input (sidesOf input))) - sum_list rs"
    using len by (simp add: source_total_with_balances left_sources_def weigh_const) (simp add: source_total_def)
  have "v = deductions_total J input - moved_by (\<lambda>_ _. 1) ps" using run by (simp add: alloc_run_def)
  with d s source_total_one [OF pre g] show ?thesis by simp
qed

end

section \<open>The party leg of every voucher\<close>

definition leg_kvs :: "sides \<Rightarrow> alloc_adjustment list \<Rightarrow> alloc_on_account list \<Rightarrow> (voucher_key \<times> rat) list" where
  "leg_kvs sides rows oa =
     map (\<lambda>row. (adj_voucherKey row, if adj_drCr row = sd_settle sides then adj_amount row else - adj_amount row)) rows
     @ map (\<lambda>e. (oa_voucherKey e, oa_amount e)) oa"

lemma ensure_key_get: "jmap_get (ensure_key k m) k' = (if k' = k \<and> jmap_get m k = None then Some 0 else jmap_get m k')"
  by (auto simp: ensure_key_def update_conv')

lemma ensure_keys_get:
  "jmap_get (foldl (\<lambda>m t. if P t then ensure_key (f t) m else m) m ts) k =
    (case jmap_get m k of Some v \<Rightarrow> Some v | None \<Rightarrow> (if \<exists>t\<in>set ts. P t \<and> f t = k then Some 0 else None))"
proof (induction ts arbitrary: m)
  case (Cons t ts)
  then show ?case by (cases "P t") (auto simp: ensure_key_get split: option.splits)
qed (simp split: option.splits)

lemma pdc_not_receipt: "pdcVoucherKey n \<noteq> RECEIPT_VOUCHER_KEY"
  by (simp add: pdcVoucherKey_def RECEIPT_VOUCHER_KEY_def)

lemma pdc_inject [simp]: "pdcVoucherKey m = pdcVoucherKey n \<longleftrightarrow> m = n"
  by (simp add: pdcVoucherKey_def)

definition voucher_wanted :: "alloc_input \<Rightarrow> voucher_key \<Rightarrow> bool" where
  "voucher_wanted input k \<longleftrightarrow> k = RECEIPT_VOUCHER_KEY \<or>
     (\<exists>t\<in>set (ai_tenders input). at_isPostDated t \<and> pdcVoucherKey (at_tenderRowNo t) = k)"

definition on_voucher :: "voucher_key \<Rightarrow> source \<Rightarrow> rat" where
  "on_voucher k s = (if src_voucherKey s = k \<and> src_kind s \<noteq> CREDIT then 1 else 0)"

lemma on_voucher_tag [simp]: "on_voucher k (src_tag s) = on_voucher k s"
  by (simp add: on_voucher_def src_tag_def)

lemma on_voucher_sources:
  "on_voucher k (credit_source J input c) = 0"
  "on_voucher k (pdc_source J input t) = (if pdcVoucherKey (at_tenderRowNo t) = k then 1 else 0)"
  "current_source input s \<Longrightarrow> on_voucher k s = (if k = RECEIPT_VOUCHER_KEY then 1 else 0)"
  by (auto simp: on_voucher_def credit_source_def pdc_source_def current_source_def)

lemma leftovers_key_sum:
  assumes "\<forall>s\<in>set ss. 0 \<le> src_remaining s" and "\<forall>s\<in>set ss. src_kind s = CREDIT \<longrightarrow> src_remaining s \<le> 0"
  shows "key_sum k (leftovers ss) = source_total (on_voucher k) ss"
  using assms by (induction ss) (auto simp: leftovers_def on_voucher_def src_tag_def)

context decimal_package
begin

lemma partyLeg_get:
  assumes "exact_column (map snd (leg_kvs S rows oa))" and "voucher_wanted input k"
  shows "jmap_get (partyLegPerVoucher J input S rows oa) k = Some (key_sum k (leg_kvs S rows oa))"
proof -
  have m2: "foldl (\<lambda>m e. add_total J (oa_voucherKey e) (oa_amount e) m) (foldl (\<lambda>m row. add_total J (adj_voucherKey row)
      (if adj_drCr row = sd_settle S then adj_amount row else - adj_amount row) m) [] rows) oa = fold_totals J (leg_kvs S rows oa)"
    by (simp add: fold_totals_def leg_kvs_def foldl_map)
  note get = fold_totals_get [OF assms(1)]
  have p: "half_up 2 (key_sum k (leg_kvs S rows oa)) = key_sum k (leg_kvs S rows oa)"
    using key_sum_exact(1) [OF assms(1)] by simp
  show ?thesis
    unfolding partyLegPerVoucher_def Let_def m2 money_all_get ensure_keys_get ensure_key_get get
    using assms(2) p key_sum_none [of k "leg_kvs S rows oa"]
    by (auto simp: voucher_wanted_def)
qed

lemma bills_bounds:
  assumes "alloc_pre J input" and "guards_pass J input" and "alloc_run J input ps ts cs rs v"
  shows "0 \<le> moved_by (\<lambda>_ _. 1) ps" and "0 \<le> moved_by (\<lambda>_ _. 1) ts"
    and "moved_by (\<lambda>_ _. 1) ps + moved_by (\<lambda>_ _. 1) ts \<le> split_limit"
    and "0 \<le> sum_list (map (reduction J) (ai_bills input))"
    and "sum_list (map (reduction J) (ai_bills input)) \<le> 3 * amount_limit"
proof -
  show nn: "0 \<le> moved_by (\<lambda>_ _. 1) ps" "0 \<le> moved_by (\<lambda>_ _. 1) ts"
    using assms(3) by (fastforce simp: alloc_run_def moved_by_def moved_ok_def placed_ok_def intro!: sum_list_nonneg)+
  have "\<forall>f. moved_by (\<lambda>b l. f b) ps + moved_by (\<lambda>b s. f b) ts =
        weigh f (ai_bills input) (map (\<lambda>b. money J (ab_amount b)) (ai_bills input)) - weigh f (ai_bills input) cs"
    using assms(3) unfolding alloc_run_def by blast
  from spec [OF this, of "\<lambda>_. 1"]
  have "moved_by (\<lambda>_ _. 1) ps + moved_by (\<lambda>_ _. 1) ts = column J ab_amount (ai_bills input) - sum_list cs"
    using assms(3) by (simp add: weigh_const column_def alloc_run_def del: money_half_up)
  moreover have "0 \<le> sum_list cs" using assms(3) by (auto simp: alloc_run_def pourable_def intro!: sum_list_nonneg)
  ultimately show "moved_by (\<lambda>_ _. 1) ps + moved_by (\<lambda>_ _. 1) ts \<le> split_limit"
    using assms(1) by (simp add: alloc_pre_def)
  have fits: "\<forall>b\<in>set (ai_bills input). bill_fits J b" using assms(2) by (auto simp: guards_pass_def assertBillsFit_iff)
  have red: "sum_list (map (reduction J) bs) = column J ab_discount bs + column J ab_writeoff bs + column J ab_roundoff bs" for bs
    by (induction bs) (simp_all add: reduction_def column_def)
  then show "sum_list (map (reduction J) (ai_bills input)) \<le> 3 * amount_limit"
    using assms(1) by (simp add: alloc_pre_def)
  show "0 \<le> sum_list (map (reduction J) (ai_bills input))"
    using fits by (auto simp: reduction_def bill_fits_def intro!: sum_list_nonneg add_nonneg_nonneg)
qed

end

lemma settlementRows_row:
  "row \<in> set (settlementRows b s t S) \<Longrightarrow> adj_amount row = t \<and> adj_voucherKey row = src_voucherKey s \<and>
    adj_adjDate row = src_adjDate s \<and> adj_isPostDated row = src_isPostDated s \<and> adj_tenderRowNo row = src_tenderRowNo s"
  by (auto simp: settlementRows_def split: source_kind.splits option.splits)

text \<open>How many rows a source writes per transfer: a credit writes a pair.\<close>

definition pair_count :: "source \<Rightarrow> rat" where
  "pair_count s = (if src_kind s = CREDIT \<and> src_credit s \<noteq> None then 2 else 1)"

context decimal_package
begin

lemma red_rows_row:
  "row \<in> set (red_rows J input S b) \<Longrightarrow>
    \<exists>ty mode a ap. row = reductionRow input S b ty mode a ap \<and> 0 < a \<and> paise a"
  by (auto simp: red_rows_def bill_reductions_def Let_def split: sum.splits if_splits)
    (metis on_grid_half_up)+

lemma trace_rows_nonneg:
  assumes "alloc_run J input ps ts cs rs v" and "row \<in> set (trace_rows J input ps ts)"
  shows "paise (adj_amount row) \<and> 0 \<le> adj_amount row"
proof -
  have ps: "\<forall>(b, l, a)\<in>set ps. paise a \<and> 0 \<le> a" and ts: "\<forall>(b, s, t)\<in>set ts. paise t \<and> 0 \<le> t"
    using assms(1) by (fastforce simp: alloc_run_def placed_ok_def moved_ok_def)+
  consider "row \<in> set (ded_rows input (sidesOf input) ps)" | "row \<in> set (flow_rows (sidesOf input) ts)"
    | b where "row \<in> set (red_rows J input (sidesOf input) b)"
    using assms(2) by (auto simp: trace_rows_def)
  then show ?thesis
  proof cases
    case 1
    then show ?thesis using ps by (auto simp: ded_rows_def deductionRow_def)
  next
    case 2
    then show ?thesis using ts by (fastforce simp: flow_rows_def dest: settlementRows_row)
  next
    case 3
    then show ?thesis by (auto dest!: red_rows_row simp: reductionRow_def)
  qed
qed

lemma leg_exact:
  assumes pre: "alloc_pre J input" and g: "guards_pass J input" and run: "alloc_run J input ps ts cs rs v"
    and red: "\<forall>b\<in>set (ai_bills input). \<exists>rows. bill_reductions J input (sidesOf input) b = Inr rows"
    and oa: "\<forall>e\<in>set oa. paise (oa_amount e) \<and> 0 \<le> oa_amount e" "sum_list (map oa_amount oa) \<le> 3 * amount_limit"
  shows "exact_column (map snd (leg_kvs (sidesOf input) (trace_rows J input ps ts) oa))"
proof -
  let ?S = "sidesOf input" and ?rows = "trace_rows J input ps ts"
  have fits: "\<forall>b\<in>set (ai_bills input). bill_fits J b" using g by (auto simp: guards_pass_def assertBillsFit_iff)
  note b = bills_bounds [OF pre g run]
  have "sum_list (map adj_amount ?rows) = moved_by (\<lambda>_ _. 1) ps + moved_by (\<lambda>b s. pair_count s) ts
      + sum_list (map (\<lambda>b. 1 * reduction J b) (ai_bills input))"
    using fits red by (intro sum_trace)
      (auto simp: deductionRow_def reductionRow_def settlementRows_def pair_count_def split: source_kind.splits option.splits)
  moreover have "moved_by (\<lambda>b s. pair_count s) ts \<le> 2 * moved_by (\<lambda>_ _. 1) ts"
  proof -
    have "\<forall>(b, s, t)\<in>set ts. 0 < t" using run by (fastforce simp: alloc_run_def moved_ok_def)
    then show ?thesis by (induction ts) (auto simp: pair_count_def)
  qed
  ultimately have tot: "sum_list (map adj_amount ?rows) \<le> 2 * split_limit + 3 * amount_limit" using b by simp
  have nn: "\<forall>row\<in>set ?rows. paise (adj_amount row) \<and> 0 \<le> adj_amount row" using trace_rows_nonneg [OF run] by blast
  have "sum_list (map abs (map snd (leg_kvs ?S ?rows oa))) = sum_list (map adj_amount ?rows) + sum_list (map oa_amount oa)"
  proof -
    have "map abs (map snd (leg_kvs ?S ?rows oa)) = map adj_amount ?rows @ map oa_amount oa"
      using nn oa(1) by (auto simp: leg_kvs_def)
    then show ?thesis by simp
  qed
  moreover have "\<forall>x\<in>set (map snd (leg_kvs ?S ?rows oa)). paise x" using nn oa(1) by (auto simp: leg_kvs_def)
  ultimately show ?thesis using tot oa(2) by (simp add: exact_column_def split_limit_def amount_limit_def)
qed

lemma held_entries:
  assumes pre: "alloc_pre J input" and g: "guards_pass J input" and run: "alloc_run J input ps ts cs rs v"
    and m: "filed m" "amounts m = fold_totals J (held J input rs v)"
  shows "\<forall>e\<in>set (map snd m). paise (oa_amount e) \<and> 0 \<le> oa_amount e"
    and "sum_list (map oa_amount (map snd m)) = sum_list rs + floating_total J input + v"
    and "sum_list (map oa_amount (map snd m)) \<le> 3 * amount_limit"
    and "key_sum k (map (\<lambda>e. (oa_voucherKey e, oa_amount e)) (map snd m)) = key_sum k (held J input rs v)"
proof -
  note h = held_exact [OF pre g run]
  have am: "map oa_amount (map snd m) = map snd (fold_totals J (held J input rs v))"
    unfolding m(2) [symmetric] amounts_def by (induction m) auto
  show sum: "sum_list (map oa_amount (map snd m)) = sum_list rs + floating_total J input + v"
    unfolding am fold_totals_sum [OF h(1)] by (rule h(2))
  show "key_sum k (map (\<lambda>e. (oa_voucherKey e, oa_amount e)) (map snd m)) = key_sum k (held J input rs v)"
    unfolding filed_key_sum [OF m(1)] m(2) fold_totals_get [OF h(1)] by (simp add: key_sum_none)
  have "paise x \<and> 0 \<le> x" if x: "x \<in> set (map snd (fold_totals J (held J input rs v)))" for x
  proof -
    obtain k where "(k, x) \<in> set (fold_totals J (held J input rs v))" using x by auto
    then have "jmap_get (fold_totals J (held J input rs v)) k = Some x"
      using fold_totals_distinct by (intro map_of_is_SomeI)
    then have "x = key_sum k (held J input rs v)" by (simp add: fold_totals_get [OF h(1)] split: if_splits)
    moreover have "0 \<le> key_sum k (held J input rs v)"
      by (rule key_sum_nonneg) (auto simp: held_def leftovers_def split: if_splits)
    ultimately show ?thesis using key_sum_exact(1) [OF h(1)] by simp
  qed
  then show "\<forall>e\<in>set (map snd m). paise (oa_amount e) \<and> 0 \<le> oa_amount e"
    unfolding am [symmetric] by simp
  have "sum_list rs + floating_total J input + v + column J ab_amount (ai_bills input) + extras_total J input =
    column J at_amount (ai_tenders input) + deductions_total J input + floating_total J input
      + column J ac_amount (ai_credits input) + sum_list cs" by (rule moved_totals [OF pre g run])
  moreover have "sum_list cs \<le> column J ab_amount (ai_bills input)"
  proof -
    have "\<forall>f. moved_by (\<lambda>b l. f b) ps + moved_by (\<lambda>b s. f b) ts =
        weigh f (ai_bills input) (map (\<lambda>b. money J (ab_amount b)) (ai_bills input)) - weigh f (ai_bills input) cs"
      using run unfolding alloc_run_def by blast
    from spec [OF this, of "\<lambda>_. 1"] show ?thesis
      using run bills_bounds(1,2) [OF pre g run] by (simp add: weigh_const column_def alloc_run_def del: money_half_up)
  qed
  ultimately show "sum_list (map oa_amount (map snd m)) \<le> 3 * amount_limit"
    unfolding sum using pre_columns [OF pre] pre by (simp add: alloc_pre_def)
qed

lemma on_account_total:
  assumes pre: "alloc_pre J input" and ok: "allocate J input = Some (Inr r)"
  shows "ar_totalOnAccount r = money J (ai_claimedOnAccount input)"
    and "ar_totalOnAccount r = sum_list (map oa_amount (ar_onAccount r))"
    and "identity_holds J input"
proof -
  from allocate_success [OF pre ok] obtain ps ts cs rs v m where g: "guards_pass J input"
    and run: "alloc_run J input ps ts cs rs v" and full: "\<forall>c\<in>set cs. c = 0"
    and m: "filed m" "amounts m = fold_totals J (held J input rs v)" "ar_onAccount r = map snd m"
    and tot: "ar_totalOnAccount r = sum_money J (map oa_amount (ar_onAccount r))"
    and claim: "ar_totalOnAccount r = money J (ai_claimedOnAccount input)" by blast
  note he = held_entries [OF pre g run m(1,2)]
  have "exact_column (map oa_amount (ar_onAccount r))"
    unfolding m(3) using he(1,3) by (intro exact_column_nonneg) (auto simp: amount_limit_def)
  then show t: "ar_totalOnAccount r = sum_list (map oa_amount (ar_onAccount r))"
    unfolding tot by (rule sum_money_exact)
  show "ar_totalOnAccount r = money J (ai_claimedOnAccount input)" by (rule claim)
  have "sum_list cs = 0" using full by (induction cs) auto
  then show "identity_holds J input"
    using moved_totals [OF pre g run] t claim he(2) by (simp add: identity_holds_def m(3) del: money_half_up)
qed

lemma party_leg:
  assumes pre: "alloc_pre J input" and ok: "allocate J input = Some (Inr r)" and k: "voucher_wanted input k"
  shows "jmap_get (ar_partyCreditByVoucher r) k =
    Some ((if k = RECEIPT_VOUCHER_KEY then deductions_total J input + floating_total J input
        + sum_list (map (reduction J) (ai_bills input)) else 0)
      + source_total (on_voucher k) (buildSources J input (sidesOf input)))"
proof -
  let ?S = "sidesOf input" and ?one = "if k = RECEIPT_VOUCHER_KEY then 1 else (0::rat)"
  from allocate_success [OF pre ok] obtain ps ts cs rs v m where g: "guards_pass J input"
    and run: "alloc_run J input ps ts cs rs v"
    and adj: "ar_adjustments r = trace_rows J input ps ts"
    and red: "\<forall>b\<in>set (ai_bills input). \<exists>rows. bill_reductions J input ?S b = Inr rows"
    and m: "filed m" "amounts m = fold_totals J (held J input rs v)" "ar_onAccount r = map snd m"
    and spent: "\<forall>s\<in>set (left_sources J input rs). src_kind s = CREDIT \<longrightarrow> src_remaining s \<le> 0"
    and leg: "ar_partyCreditByVoucher r = partyLegPerVoucher J input ?S (ar_adjustments r) (ar_onAccount r)" by blast
  have fits: "\<forall>b\<in>set (ai_bills input). bill_fits J b" using g by (auto simp: guards_pass_def assertBillsFit_iff)
  let ?rows = "trace_rows J input ps ts" and ?sg = "\<lambda>row. if adj_drCr row = sd_settle ?S then adj_amount row else - adj_amount row"
  note he = held_entries [OF pre g run m(1,2)]
  have srcs: "\<forall>(b, s, t)\<in>set ts. src_kind s = CREDIT \<longrightarrow> src_credit s \<noteq> None"
  proof -
    have "\<forall>s\<in>set (buildSources J input ?S). src_kind s = CREDIT \<longrightarrow> src_credit s \<noteq> None"
      using source_totals(3) [OF pre g] by (auto simp: credit_source_def current_source_def pdc_source_def)
    then show ?thesis using run by (fastforce simp: alloc_run_def moved_ok_def src_tag_def)
  qed
  have "sum_list (map (\<lambda>row. if adj_voucherKey row = k then ?sg row else 0) ?rows) =
      moved_by (\<lambda>_ _. ?one) ps + moved_by (\<lambda>b s. on_voucher k s) ts + sum_list (map (\<lambda>b. ?one * reduction J b) (ai_bills input))"
    using fits red srcs sides_cases(2) [of input]
    by (intro sum_trace)
      (auto simp: on_voucher_def deductionRow_def reductionRow_def settlementRows_def split: source_kind.splits option.splits)
  moreover have "moved_by (\<lambda>b s. on_voucher k s) ts = source_total (on_voucher k) (buildSources J input ?S)
      - source_total (on_voucher k) (left_sources J input rs)"
    using run unfolding alloc_run_def by blast
  moreover have "key_sum k (held J input rs v) = source_total (on_voucher k) (left_sources J input rs)
      + ?one * (floating_total J input + v)"
  proof -
    have "key_sum k (leftovers (left_sources J input rs)) = source_total (on_voucher k) (left_sources J input rs)"
      using left_pourable [OF run] spent by (intro leftovers_key_sum) (auto simp: pourable_def)
    moreover have "0 \<le> floating_total J input + v" using pre_columns(8) [OF pre] run by (simp add: alloc_run_def)
    ultimately show ?thesis by (auto simp: held_def)
  qed
  moreover have "v = deductions_total J input - moved_by (\<lambda>_ _. 1) ps" using run by (simp add: alloc_run_def)
  moreover have "moved_by (\<lambda>_ _. ?one) ps = ?one * moved_by (\<lambda>_ _. 1) ps" by (induction ps) (auto simp: algebra_simps)
  ultimately have "key_sum k (leg_kvs ?S ?rows (map snd m)) =
      (if k = RECEIPT_VOUCHER_KEY then deductions_total J input + floating_total J input
        + sum_list (map (reduction J) (ai_bills input)) else 0)
      + source_total (on_voucher k) (buildSources J input ?S)"
    using he(4) [of k]
    by (auto simp: leg_kvs_def key_sum_map sum_list_if_filter comp_def sum_list_0 moved_by_zero)
  then show ?thesis
    unfolding leg adj m(3) partyLeg_get [OF leg_exact [OF pre g run red he(1,3)] k] by simp
qed

lemma source_total_receipt:
  assumes "alloc_pre J input" and "guards_pass J input"
  shows "source_total (on_voucher RECEIPT_VOUCHER_KEY) (buildSources J input (sidesOf input)) =
    instant_total J input - extras_total J input"
proof -
  have "source_total (on_voucher RECEIPT_VOUCHER_KEY) (filter (current_source input) ss) =
      sum_list (map src_remaining (filter (current_source input) ss))" for ss
    by (induction ss) (auto simp: on_voucher_sources)
  then show ?thesis
    unfolding source_totals(1) [OF assms] source_totals(2) [OF assms, symmetric]
    by (simp add: on_voucher_sources pdc_not_receipt sum_list_0)
qed

lemma source_total_pdc:
  assumes "alloc_pre J input" and "guards_pass J input"
  shows "source_total (on_voucher (pdcVoucherKey n)) (buildSources J input (sidesOf input)) =
    column J at_amount (filter (\<lambda>t. at_isPostDated t \<and> at_tenderRowNo t = n) (ai_tenders input))"
proof -
  have "source_total (on_voucher (pdcVoucherKey n)) (filter (current_source input) ss) = 0" for ss
    by (rule source_total_zero) (auto simp: on_voucher_sources pdc_not_receipt)
  moreover have "sum_list (map (\<lambda>t. on_voucher (pdcVoucherKey n) (src_tag (pdc_source J input t)) * money J (at_amount t))
      (filter at_isPostDated ts)) = column J at_amount (filter (\<lambda>t. at_isPostDated t \<and> at_tenderRowNo t = n) ts)" for ts
    by (induction ts) (auto simp: column_def on_voucher_sources)
  ultimately show ?thesis
    unfolding source_totals(1) [OF assms]
    by (simp add: on_voucher_sources sum_list_0 del: money_half_up)
qed

lemma allocate_returns_pre:
  assumes "alloc_pre J input"
  shows "\<exists>res. allocate J input = Some res"
proof -
  let ?S = "sidesOf input" and ?caps0 = "map (\<lambda>b. money J (ab_amount b)) (ai_bills input)"
  let ?reserved = "e_bind (assertBillsFit J (ai_bills input)) (\<lambda>_. e_bind (assertCreditsFit J (ai_credits input)) (\<lambda>_.
    e_bind (assertIdentity J input ?S) (\<lambda>_. reserveDeductions J input ?S (ai_bills input) (?caps0, []))))"
  show ?thesis
  proof (cases ?reserved)
    case (Inl e)
    then show ?thesis unfolding allocate_def Let_def by (simp del: money_half_up)
  next
    case (Inr q)
    obtain v caps out where q: "q = (v, caps, out)" by (cases q)
    have g: "guards_pass J input"
      and res: "reserveDeductions J input ?S (ai_bills input) (?caps0, []) = Inr (v, caps, out)"
      using Inr unfolding guards_pass_def e_bind_Inr_conv q by auto
    from alloc_run_exists [OF assms g res] Inr q show ?thesis
      unfolding allocate_def Let_def by (auto simp del: money_half_up)
  qed
qed

end

end
