(* ===== verification/Allocation_Outcome.thy ===== *)
theory Allocation_Outcome
  imports Allocation_Correct
begin

text \<open>
  What a result of the engine amounts to: that it always comes, exactly when it is no refusal, what
  its rows total on either side, what the party leg of every voucher is made of, and how far a
  bill can be settled.
\<close>

section \<open>The engine always returns\<close>

context decimal_package
begin

lemma minus_self: "d_minus J x x = 0"
proof -
  have "representable 0" by (rule paise_representable) simp_all
  then show ?thesis using minus_exact [of x x] by simp
qed

text \<open>A step either fills the bill or empties the source the cursor is on, which the next step passes.\<close>

lemma pour_bill_returns:
  "\<exists>res. pour_bill J sides bill capacity sources cursor out = Some res"
proof (induction "length sources - cursor" arbitrary: capacity sources cursor out rule: less_induct)
  case less
  let ?s = "sources ! cursor"
  let ?take = "min (src_remaining ?s) capacity"
  let ?sources = "sources[cursor := ?s\<lparr>src_remaining := d_minus J (src_remaining ?s) ?take\<rparr>]"
  consider (stop) "\<not> (0 < capacity \<and> cursor < length sources)"
    | (skip) "0 < capacity" "cursor < length sources" "src_remaining ?s \<le> 0"
    | (fills) "0 < capacity" "cursor < length sources" "0 < src_remaining ?s" "capacity < src_remaining ?s"
    | (empties) "0 < capacity" "cursor < length sources" "0 < src_remaining ?s" "src_remaining ?s \<le> capacity"
    by linarith
  then show ?case
  proof cases
    case stop
    then show ?thesis by (subst pour_bill.simps) auto
  next
    case skip
    then show ?thesis using less [of sources "Suc cursor" capacity out] by (simp add: pour_bill_skip)
  next
    case fills
    then show ?thesis
      by (subst pour_bill.simps) (simp add: Let_def minus_self pour_bill_full)
  next
    case empties
    have step: "pour_bill J sides bill capacity sources cursor out =
        pour_bill J sides bill (d_minus J capacity ?take) ?sources cursor (out @ settlementRows bill ?s ?take sides)"
      using empties by (subst pour_bill.simps) (simp add: Let_def)
    show ?thesis
    proof (cases "d_minus J capacity ?take \<le> 0")
      case True
      then show ?thesis unfolding step by (simp add: pour_bill_full)
    next
      case False
      then have "pour_bill J sides bill (d_minus J capacity ?take) ?sources cursor (out @ settlementRows bill ?s ?take sides) =
          pour_bill J sides bill (d_minus J capacity ?take) ?sources (Suc cursor) (out @ settlementRows bill ?s ?take sides)"
        using empties by (intro pour_bill_skip) (simp_all add: minus_self)
      then show ?thesis
        unfolding step using less [of ?sources "Suc cursor"] empties(2) by simp
    qed
  qed
qed

lemma pour_from_returns: "\<exists>res. pour_from J sides bills capacity sources cursor out = Some res"
proof (induction bills capacity arbitrary: sources cursor out rule: list_induct2')
  case (4 bill bills cap capacity)
  obtain cap' sources' cursor' out' where
    bill: "pour_bill J sides bill cap sources cursor out = Some (cap', sources', cursor', out')"
    using pour_bill_returns [of sides bill cap sources cursor out] by auto
  from 4 [of sources' cursor' out'] show ?case by (auto simp: bill)
qed simp_all

lemma pour_returns: "pour J bills capacity sources sides out \<noteq> None"
  using pour_from_returns [of sides bills capacity sources 0 out] by (auto simp: pour_def)

lemma allocate_total: "\<exists>res. allocate J input = Some res"
  unfolding allocate_def Let_def by (auto simp: pour_returns split: sum.splits option.splits)

end

section \<open>When the engine succeeds\<close>

lemma weigh_mono:
  assumes "length cs = length bs" and "length ds = length bs" and "\<And>i. i < length bs \<Longrightarrow> f (bs ! i) * cs ! i \<le> f (bs ! i) * ds ! i"
  shows "weigh f bs cs \<le> weigh f bs ds"
proof -
  have "weigh f bs xs = (\<Sum>i<length bs. f (bs ! i) * xs ! i)" if "length xs = length bs" for xs
    using that by (simp add: weigh_def sum_list_sum_nth atLeast0LessThan)
  with assms show ?thesis by (auto intro: sum_mono)
qed

definition is_credit :: "source \<Rightarrow> rat" where
  "is_credit s = (if src_kind s = CREDIT then 1 else 0)"

lemma is_credit_tag [simp]: "is_credit (src_tag s) = is_credit s"
  by (simp add: is_credit_def src_tag_def)

context decimal_package
begin

lemma identity_of_assert:
  assumes pre: "alloc_pre J input" and claim: "claim_ok input" and g: "guards_pass J input"
  shows "identity_holds J input"
proof -
  have t: "\<forall>t\<in>set (ai_tenders input). 0 \<le> at_amount t" "column J at_amount (ai_tenders input) \<le> amount_limit"
    and l: "\<forall>l\<in>set (ai_otherLines input). 0 \<le> ol_amount l" "column J ol_amount (ai_otherLines input) \<le> amount_limit"
    and lim: "column J ac_amount (ai_credits input) \<le> amount_limit" "column J ab_amount (ai_bills input) \<le> split_limit"
    using pre by (auto simp: alloc_pre_def)
  have cr: "\<forall>x\<in>set (map (\<lambda>c. money J (ac_amount c)) (ai_credits input)). paise x \<and> 0 \<le> x"
    and bl: "\<forall>x\<in>set (map (\<lambda>b. money J (ab_amount b)) (ai_bills input)). paise x \<and> 0 \<le> x"
    using g by (auto simp: guards_pass_def assertCreditsFit_iff assertBillsFit_iff credit_fits_def bill_fits_def)
  let ?M = "column J at_amount (ai_tenders input)" and ?D = "deductions_total J input + floating_total J input"
  let ?C = "column J ac_amount (ai_credits input)" and ?B = "column J ab_amount (ai_bills input)"
  let ?E = "extras_total J input" and ?O = "money J (ai_claimedOnAccount input)"
  have sM: "sum_money J (map (\<lambda>t. money J (at_amount t)) (ai_tenders input)) = ?M"
    using column_sum [OF t, of "\<lambda>_. True"] by (simp del: money_half_up)
  have sD: "sum_money J (map (\<lambda>l. money J (ol_amount l)) (filter (\<lambda>l. ol_drCr l = sd_deduction (sidesOf input) \<and>
      \<not> ol_isInstrumentSplit l) (ai_otherLines input))) = ?D"
    unfolding column_sum [OF l] by (rule deduction_side_split)
  have sE: "sum_money J (map (\<lambda>l. money J (ol_amount l)) (filter (\<lambda>l. isExtra l (sidesOf input)) (ai_otherLines input))) = ?E"
    unfolding extras_total_def by (rule column_sum [OF l])
  have colC: "exact_column (map (\<lambda>c. money J (ac_amount c)) (ai_credits input))"
    using cr lim(1) by (intro exact_column_nonneg) (auto simp: column_def amount_limit_def)
  then have sC: "sum_money J (map (\<lambda>c. money J (ac_amount c)) (ai_credits input)) = ?C"
    unfolding column_def by (rule sum_money_exact)
  have colB: "exact_column (map (\<lambda>b. money J (ab_amount b)) (ai_bills input))"
    using bl lim(2) by (intro exact_column_nonneg) (auto simp: column_def split_limit_def)
  then have sB: "sum_money J (map (\<lambda>b. money J (ab_amount b)) (ai_bills input)) = ?B"
    unfolding column_def by (rule sum_money_exact)
  note c = pre_columns [OF pre]
  have C0: "0 \<le> ?C" unfolding column_def by (rule sum_list_nonneg) (use cr in blast)
  have B0: "0 \<le> ?B" unfolding column_def by (rule sum_list_nonneg) (use bl in blast)
  have "paise ?C" unfolding column_def using exact_column_sum [OF colC] by blast
  moreover have "paise ?B" unfolding column_def using exact_column_sum [OF colB] by blast
  ultimately have pC: "paise ?C" "0 \<le> ?C" "paise ?B" "0 \<le> ?B" using C0 B0 by simp_all
  have "\<bar>?O\<bar> \<le> amount_limit" using claim unfolding claim_ok_def money_half_up by (intro half_up_abs_le) (simp_all add: amount_limit_def)
  then have O: "paise ?O" "- amount_limit \<le> ?O" "?O \<le> amount_limit" by auto
  have al: "amount_limit = 1000000000000000" "split_limit = 40000000" by (simp_all add: amount_limit_def split_limit_def)
  have left: "d_plus J (d_plus J ?M ?D) ?C = ?M + ?D + ?C"
  proof -
    have "d_plus J ?M ?D = ?M + ?D" using c by (intro plus_paise) (auto simp: al)
    then show ?thesis using c pC lim by (auto simp: al intro!: plus_paise)
  qed
  have right: "d_plus J (d_plus J ?B ?O) ?E = ?B + ?O + ?E"
  proof -
    have "d_plus J ?B ?O = ?B + ?O" using pC O lim by (intro plus_paise) (auto simp: al abs_less_iff)
    then show ?thesis using c pC O lim by (auto simp: al abs_less_iff simp del: money_half_up intro!: plus_paise)
  qed
  show ?thesis
    using g left right unfolding guards_pass_def assertIdentity_def Let_def sM sD sE sC sB
    by (auto simp: identity_holds_def simp del: money_half_up split: if_splits)
qed

lemma credit_position:
  assumes "alloc_pre J input" and "guards_pass J input" and "j < length (buildSources J input (sidesOf input))"
  shows "src_kind (buildSources J input (sidesOf input) ! j) = CREDIT \<longleftrightarrow> j < length (ai_credits input)"
proof -
  obtain cur where b: "buildSources J input (sidesOf input) =
      map (credit_source J input) (ai_credits input) @ cur @ map (pdc_source J input) (post_dated input)"
    and cur: "\<forall>s\<in>set cur. current_source input s"
    using buildSources_spec [OF assms(1)] funded_of_identity [OF assms(1)] assms(2) by (auto simp: guards_pass_def)
  have later: "src_kind s \<noteq> CREDIT" if "s \<in> set (cur @ map (pdc_source J input) (post_dated input))" for s
    using that cur by (auto simp: current_source_def pdc_source_def)
  have "src_kind ((cur @ map (pdc_source J input) (post_dated input)) ! (j - length (ai_credits input))) \<noteq> CREDIT"
    if "\<not> j < length (ai_credits input)"
    using that assms(3) by (intro later nth_mem) (simp add: b)
  then show ?thesis by (auto simp: b nth_append credit_source_def)
qed

lemma moved_all:
  assumes "alloc_run J input ps ts cs rs v" and "\<forall>c\<in>set cs. c = 0"
  shows "moved_by (\<lambda>_ _. 1) ps + moved_by (\<lambda>_ _. 1) ts = column J ab_amount (ai_bills input)"
proof -
  have "\<forall>f. moved_by (\<lambda>b l. f b) ps + moved_by (\<lambda>b s. f b) ts =
      weigh f (ai_bills input) (map (\<lambda>b. money J (ab_amount b)) (ai_bills input)) - weigh f (ai_bills input) cs"
    using assms(1) unfolding alloc_run_def by blast
  from spec [OF this, of "\<lambda>_. 1"] show ?thesis
    using assms(2) by (simp add: weigh_zero) (simp add: weigh_const column_def)
qed

lemma credits_in_sources:
  assumes "alloc_pre J input" and "guards_pass J input"
  shows "source_total is_credit (buildSources J input (sidesOf input)) = column J ac_amount (ai_credits input)"
proof -
  have "source_total is_credit (filter (current_source input) ss) = 0" for ss
    by (rule source_total_zero) (auto simp: is_credit_def current_source_def src_tag_def)
  then show ?thesis
    unfolding source_totals(1) [OF assms] column_def
    by (simp add: is_credit_def credit_source_def pdc_source_def src_tag_def sum_list_0)
qed

lemma left_credits_zero:
  assumes run: "alloc_run J input ps ts cs rs v"
    and spent: "\<forall>s\<in>set (left_sources J input rs). src_kind s = CREDIT \<longrightarrow> src_remaining s \<le> 0"
  shows "source_total is_credit (left_sources J input rs) = 0"
proof (rule source_total_zero)
  fix s assume s: "s \<in> set (left_sources J input rs)"
  show "is_credit (src_tag s) * src_remaining s = 0"
  proof (cases "src_kind s = CREDIT")
    case True
    then have "src_remaining s = 0"
      using spent s left_pourable [OF run s] by (auto simp: pourable_def intro: antisym)
    then show ?thesis by simp
  qed (simp add: is_credit_def src_tag_def)
qed

lemma credits_all_spent:
  assumes pre: "alloc_pre J input" and g: "guards_pass J input" and run: "alloc_run J input ps ts cs rs v"
    and room: "ai_credits input = [] \<or>
      column J ac_amount (ai_credits input) + deductions_total J input \<le> column J ab_amount (ai_bills input)"
  shows "\<forall>s\<in>set (left_sources J input rs). src_kind s = CREDIT \<longrightarrow> src_remaining s \<le> 0"
proof (rule ccontr)
  let ?srcs = "buildSources J input (sidesOf input)"
  assume "\<not> ?thesis"
  have len: "length rs = length ?srcs" and rs: "\<forall>x\<in>set rs. pourable x"
    and ex: "(\<forall>c\<in>set cs. c = 0) \<or> (\<forall>r\<in>set rs. r = 0)"
    and ord: "\<forall>i j. i < j \<longrightarrow> j < length rs \<longrightarrow> rs ! j < src_remaining (?srcs ! j) \<longrightarrow> rs ! i = 0"
    and v: "v = deductions_total J input - moved_by (\<lambda>_ _. 1) ps" "0 \<le> v"
    using run by (auto simp: alloc_run_def)
  from \<open>\<not> ?thesis\<close> obtain i where i: "i < length rs" "src_kind (?srcs ! i) = CREDIT" "0 < rs ! i"
    using len by (auto simp: left_sources_def with_balances_def set_zip)
  then have room: "column J ac_amount (ai_credits input) + deductions_total J input \<le> column J ab_amount (ai_bills input)"
    using room credit_position [OF pre g, of i] len by auto
  have "\<not> (\<forall>r\<in>set rs. r = 0)" using i nth_mem by fastforce
  with ex have full: "\<forall>c\<in>set cs. c = 0" by blast
  have drawn: "moved_by (\<lambda>b s. f s) ts = source_total f ?srcs - source_total f (left_sources J input rs)" for f
    using run unfolding alloc_run_def by blast
  have late: "src_remaining (?srcs ! j) \<le> rs ! j" if "j < length rs" "src_kind (?srcs ! j) \<noteq> CREDIT" for j
  proof -
    have "i < j" using credit_position [OF pre g, of i] credit_position [OF pre g, of j] that i len by simp
    with ord that(1) i(3) show ?thesis by (metis not_le order_less_irrefl)
  qed
  have "source_total (\<lambda>s. 1 - is_credit s) ?srcs \<le> source_total (\<lambda>s. 1 - is_credit s) (left_sources J input rs)"
    unfolding left_sources_def source_total_with_balances [OF len] source_total_weigh [of _ ?srcs]
    using late len by (intro weigh_mono) (auto simp: is_credit_def src_tag_def)
  then have a: "moved_by (\<lambda>b s. 1 - is_credit s) ts \<le> 0" using drawn [of "\<lambda>s. 1 - is_credit s"] by simp
  have "rs ! i \<le> source_total is_credit (left_sources J input rs)"
  proof -
    have "source_total is_credit (left_sources J input rs) = sum_list (map2 (\<lambda>s r. is_credit (src_tag s) * r) ?srcs rs)"
      using len by (simp add: left_sources_def source_total_with_balances weigh_def zip_map1 comp_def case_prod_unfold)
    moreover have "is_credit (src_tag (?srcs ! i)) * rs ! i \<le> sum_list (map2 (\<lambda>s r. is_credit (src_tag s) * r) ?srcs rs)"
    proof (rule sum_list_nonneg_elem)
      show "\<forall>x\<in>set (map2 (\<lambda>s r. is_credit (src_tag s) * r) ?srcs rs). 0 \<le> x"
        using rs by (auto simp: is_credit_def pourable_def dest: set_zip_rightD)
      show "is_credit (src_tag (?srcs ! i)) * rs ! i \<in> set (map2 (\<lambda>s r. is_credit (src_tag s) * r) ?srcs rs)"
        using i(1) len by (auto simp: set_zip)
    qed
    ultimately show ?thesis using i(2) by (simp add: is_credit_def src_tag_def)
  qed
  moreover note credits_in_sources [OF pre g]
  ultimately have b: "moved_by (\<lambda>b s. is_credit s) ts < column J ac_amount (ai_credits input)"
    using drawn [of is_credit] i(3) by simp
  have "moved_by (\<lambda>_ _. 1) ts = moved_by (\<lambda>b s. is_credit s) ts + moved_by (\<lambda>b s. 1 - is_credit s) ts"
    by (induction ts) (auto simp: algebra_simps)
  moreover have "sum_list cs = 0" using full by (induction cs) auto
  ultimately show False
    using a b room v moved_totals [OF pre g run] drawn [of "\<lambda>_. 1"] source_total_one [OF pre g] len
    by (simp add: source_total_with_balances left_sources_def weigh_const) (simp add: source_total_def)
qed

lemma alloc_succeeds:
  assumes pre: "alloc_pre J input" and claim: "claim_ok input" and g: "guards_pass J input"
    and pins: "ai_pins input = []" and fl: "floating_total J input \<le> money J (ai_claimedOnAccount input)"
    and room: "ai_credits input = [] \<or>
      column J ac_amount (ai_credits input) + deductions_total J input \<le> column J ab_amount (ai_bills input)"
    and appr: "\<forall>b\<in>set (ai_bills input). 0 < money J (ab_writeoff b) \<longrightarrow> truthy (ab_writeoffApprovedBy b)"
  shows "\<exists>r. allocate J input = Some (Inr r)"
proof -
  let ?S = "sidesOf input" and ?caps0 = "map (\<lambda>b. money J (ab_amount b)) (ai_bills input)"
  obtain v caps out where res: "reserveDeductions J input ?S (ai_bills input) (?caps0, []) = Inr (v, caps, out)"
    using reserve_no_pins [OF pins _ pre, of "ai_bills input" "(?caps0, [])" ?S] capacity_ok [OF pre g] by auto
  obtain ps ts cs rs where run: "alloc_run J input ps ts cs rs v"
    and p: "pour J (ai_bills input) caps (buildSources J input ?S) ?S out =
      Some (cs, left_sources J input rs, out @ flow_rows ?S ts)"
    using alloc_run_exists [OF pre g res] by blast
  have bal: "sum_list rs + floating_total J input + v = money J (ai_claimedOnAccount input) + sum_list cs"
    using moved_totals [OF pre g run] identity_of_assert [OF pre claim g] by (simp add: identity_holds_def del: money_half_up)
  have nn: "0 \<le> sum_list cs" "\<forall>c\<in>set cs. 0 \<le> c" using run by (auto simp: alloc_run_def pourable_def intro!: sum_list_nonneg)
  have full: "\<forall>c\<in>set cs. c = 0"
  proof (rule ccontr)
    assume n: "\<not> ?thesis"
    then have "\<forall>r\<in>set rs. r = 0" "v = 0" using run by (auto simp: alloc_run_def)
    then have "sum_list rs = 0" by (induction rs) auto
    with \<open>v = 0\<close> bal fl nn(1) have "sum_list cs = 0" by simp
    with n nn(2) show False using sum_list_zero_nonneg [of cs] by blast
  qed
  have reds: "\<forall>b\<in>set (ai_bills input). \<exists>rows. bill_reductions J input ?S b = Inr rows"
    using appr by (simp add: bill_reductions_def Let_def)
  obtain oa where oa: "collectOnAccount J input ?S (left_sources J input rs) v = Inr oa"
    using collect_sources_succeeds [OF credits_all_spent [OF pre g run room], of J "[]"]
    by (auto simp: collectOnAccount_def Let_def)
  obtain m where m: "filed m" "amounts m = fold_totals J (held J input rs v)" "oa = map snd m"
    using collect_spec [OF pre g run oa] by blast
  note he = held_entries [OF pre g run m(1,2)]
  have "exact_column (map oa_amount oa)"
    unfolding m(3) using he(1,3) by (intro exact_column_nonneg) (auto simp: amount_limit_def)
  then have "sum_money J (map oa_amount oa) = sum_list rs + floating_total J input + v"
    using he(2) m(3) by (simp add: sum_money_exact)
  moreover have "sum_list cs = 0" using full by (induction cs) auto
  ultimately have tot: "sum_money J (map oa_amount oa) = money J (ai_claimedOnAccount input)" using bal by (simp del: money_half_up)
  have "\<exists>adj. addReductions J input ?S (ai_bills input) (out @ flow_rows ?S ts) = Inr adj"
    using reds by (simp add: addReductions_spec)
  then obtain r where "finish J input ?S v cs (left_sources J input rs) (out @ flow_rows ?S ts) = Inr r"
    using full oa tot by (auto simp: finish_def find_unfilled_None [symmetric] Let_def simp del: money_half_up)
  then show ?thesis
    using g res p unfolding allocate_def guards_pass_def Let_def by (simp del: money_half_up)
qed

lemma succeeds_only_if:
  assumes pre: "alloc_pre J input" and ok: "allocate J input = Some (Inr r)"
  shows "floating_total J input \<le> money J (ai_claimedOnAccount input)"
    and "ai_credits input = [] \<or>
      column J ac_amount (ai_credits input) + deductions_total J input \<le> column J ab_amount (ai_bills input)"
    and "\<forall>b\<in>set (ai_bills input). 0 < money J (ab_writeoff b) \<longrightarrow> truthy (ab_writeoffApprovedBy b)"
proof -
  from allocate_success [OF pre ok] obtain ps ts cs rs v m where g: "guards_pass J input"
    and run: "alloc_run J input ps ts cs rs v" and full: "\<forall>c\<in>set cs. c = 0"
    and red: "\<forall>b\<in>set (ai_bills input). \<exists>rows. bill_reductions J input (sidesOf input) b = Inr rows"
    and m: "filed m" "amounts m = fold_totals J (held J input rs v)" "ar_onAccount r = map snd m"
    and spent: "\<forall>s\<in>set (left_sources J input rs). src_kind s = CREDIT \<longrightarrow> src_remaining s \<le> 0" by blast
  have v: "0 \<le> v" "v = deductions_total J input - moved_by (\<lambda>_ _. 1) ps" and rs: "0 \<le> sum_list rs"
    and over: "0 < v \<longrightarrow> moved_by (\<lambda>_ _. 1) ts = 0" and pos: "\<forall>(b, s, t)\<in>set ts. 0 < t"
    using run by (fastforce simp: alloc_run_def pourable_def moved_ok_def intro!: sum_list_nonneg)+
  show "floating_total J input \<le> money J (ai_claimedOnAccount input)"
    using on_account_total(1,2) [OF pre ok] held_entries(2) [OF pre g run m(1,2)] m(3) rs v(1) by (simp del: money_half_up)
  show "\<forall>b\<in>set (ai_bills input). 0 < money J (ab_writeoff b) \<longrightarrow> truthy (ab_writeoffApprovedBy b)"
    using red by (fastforce simp: bill_reductions_def Let_def split: if_splits)
  have "source_total is_credit (left_sources J input rs) = 0"
    by (rule left_credits_zero [OF run spent])
  then have cr: "moved_by (\<lambda>b s. is_credit s) ts = column J ac_amount (ai_credits input)"
    using run credits_in_sources [OF pre g] unfolding alloc_run_def by simp
  have le: "moved_by (\<lambda>b s. is_credit s) ts \<le> moved_by (\<lambda>_ _. 1) ts"
    using pos by (induction ts) (auto simp: is_credit_def)
  have sum: "moved_by (\<lambda>_ _. 1) ps + moved_by (\<lambda>_ _. 1) ts = column J ab_amount (ai_bills input)"
    by (rule moved_all [OF run full])
  show "ai_credits input = [] \<or>
      column J ac_amount (ai_credits input) + deductions_total J input \<le> column J ab_amount (ai_bills input)"
  proof (cases "0 < v")
    case True
    then have "column J ac_amount (ai_credits input) \<le> 0" using cr le over by simp
    moreover have "\<forall>c\<in>set (ai_credits input). 0 < money J (ac_amount c)"
      using g by (simp add: guards_pass_def assertCreditsFit_iff credit_fits_def)
    moreover from this have "c \<in> set (ai_credits input) \<Longrightarrow> money J (ac_amount c) \<le> column J ac_amount (ai_credits input)" for c
      unfolding column_def by (intro sum_list_nonneg_elem) (auto simp: less_imp_le)
    ultimately have "c \<notin> set (ai_credits input)" for c by (fastforce simp del: money_half_up)
    then have "ai_credits input = []" by (cases "ai_credits input") auto
    then show ?thesis by simp
  next
    case False
    then show ?thesis using cr le sum v by simp
  qed
qed

lemma succeeds_iff:
  assumes "alloc_pre J input" and "claim_ok input" and "ai_pins input = []"
  shows "(\<exists>r. allocate J input = Some (Inr r)) \<longleftrightarrow> guards_pass J input \<and>
    floating_total J input \<le> money J (ai_claimedOnAccount input) \<and>
    (ai_credits input = [] \<or>
      column J ac_amount (ai_credits input) + deductions_total J input \<le> column J ab_amount (ai_bills input)) \<and>
    (\<forall>b\<in>set (ai_bills input). 0 < money J (ab_writeoff b) \<longrightarrow> truthy (ab_writeoffApprovedBy b))"
    (is "?ok \<longleftrightarrow> ?conditions")
proof
  assume ?ok
  then obtain r where r: "allocate J input = Some (Inr r)" by blast
  have "guards_pass J input" using allocate_success [OF assms(1) r] by blast
  with succeeds_only_if [OF assms(1) r] show ?conditions by blast
next
  assume ?conditions
  then show ?ok using alloc_succeeds [OF assms(1,2) _ assms(3)] by blast
qed

end

section \<open>Legs, rows and adjusted totals\<close>

lemma filter_unique: "distinct (map f xs) \<Longrightarrow> x \<in> set xs \<Longrightarrow> P x \<Longrightarrow> filter (\<lambda>y. P y \<and> f y = f x) xs = [x]"
proof (induction xs)
  case (Cons y xs)
  have "filter (\<lambda>z. P z \<and> f z = f x) xs = []" if "f x \<notin> f ` set xs"
    using that by (auto simp: filter_empty_conv) (metis image_eqI)
  with Cons show ?case by (cases "y = x") (auto simp: image_iff)
qed simp

definition row_dated :: "alloc_input \<Rightarrow> alloc_adjustment \<Rightarrow> bool" where
  "row_dated input row \<longleftrightarrow>
     (if adj_isPostDated row
      then (\<exists>t\<in>set (ai_tenders input). at_isPostDated t \<and> adj_voucherKey row = pdcVoucherKey (at_tenderRowNo t) \<and>
        adj_tenderRowNo row = Some (at_tenderRowNo t) \<and>
        adj_adjDate row = or_else (at_instrumentDate t) (ai_receiptDate input))
      else adj_voucherKey row = RECEIPT_VOUCHER_KEY \<and> adj_adjDate row = ai_receiptDate input)"

lemma foldl_if_filter: "foldl (\<lambda>m x. if \<not> P x then m else f m x) m xs = foldl f m (filter P xs)"
  by (induction xs arbitrary: m) auto

context decimal_package
begin

lemma partyLeg_none:
  assumes "exact_column (map snd (leg_kvs S rows oa))" and "\<not> voucher_wanted input k"
    and "k \<notin> fst ` set (leg_kvs S rows oa)"
  shows "jmap_get (partyLegPerVoucher J input S rows oa) k = None"
proof -
  have m2: "foldl (\<lambda>m e. add_total J (oa_voucherKey e) (oa_amount e) m) (foldl (\<lambda>m row. add_total J (adj_voucherKey row)
      (if adj_drCr row = sd_settle S then adj_amount row else - adj_amount row) m) [] rows) oa = fold_totals J (leg_kvs S rows oa)"
    by (simp add: fold_totals_def leg_kvs_def foldl_map)
  show ?thesis
    unfolding partyLegPerVoucher_def Let_def m2 money_all_get ensure_keys_get ensure_key_get fold_totals_get [OF assms(1)]
    using assms(2,3) by (auto simp: voucher_wanted_def)
qed

lemma party_leg_receipt:
  assumes "alloc_pre J input" and "allocate J input = Some (Inr r)"
  shows "jmap_get (ar_partyCreditByVoucher r) RECEIPT_VOUCHER_KEY =
    Some (instant_total J input + deductions_total J input + floating_total J input - extras_total J input
      + sum_list (map (reduction J) (ai_bills input)))"
proof -
  have "guards_pass J input" using allocate_success [OF assms] by blast
  then show ?thesis
    using party_leg [OF assms, of RECEIPT_VOUCHER_KEY] source_total_receipt [OF assms(1)]
    by (simp add: voucher_wanted_def)
qed

lemma party_leg_pdc:
  assumes "alloc_pre J input" and "allocate J input = Some (Inr r)"
    and "t \<in> set (ai_tenders input)" and "at_isPostDated t" and "distinct (map at_tenderRowNo (ai_tenders input))"
  shows "jmap_get (ar_partyCreditByVoucher r) (pdcVoucherKey (at_tenderRowNo t)) = Some (money J (at_amount t))"
proof -
  have "guards_pass J input" using allocate_success [OF assms(1,2)] by blast
  moreover have "filter (\<lambda>y. at_isPostDated y \<and> at_tenderRowNo y = at_tenderRowNo t) (ai_tenders input) = [t]"
    using assms(3-5) by (intro filter_unique)
  ultimately show ?thesis
    using party_leg [OF assms(1,2), of "pdcVoucherKey (at_tenderRowNo t)"] assms(3,4)
      source_total_pdc [OF assms(1), of "at_tenderRowNo t"]
    by (auto simp: voucher_wanted_def pdc_not_receipt column_def)
qed

lemma rows_dated:
  assumes "alloc_pre J input" and "allocate J input = Some (Inr r)" and "row \<in> set (ar_adjustments r)"
  shows "row_dated input row"
proof -
  from allocate_success [OF assms(1,2)] obtain ps ts cs rs v where g: "guards_pass J input"
    and run: "alloc_run J input ps ts cs rs v" and adj: "ar_adjustments r = trace_rows J input ps ts" by blast
  have src: "row_dated input row" if "s \<in> src_tag ` set (buildSources J input (sidesOf input))"
      "row \<in> set (settlementRows b s t (sidesOf input))" for s b t
    using that source_totals(3) [OF assms(1) g]
    by (fastforce simp: row_dated_def src_tag_def credit_source_def current_source_def pdc_source_def dest!: settlementRows_row)
  consider "row \<in> set (ded_rows input (sidesOf input) ps)" | "row \<in> set (flow_rows (sidesOf input) ts)"
    | b where "row \<in> set (red_rows J input (sidesOf input) b)"
    using assms(3) by (auto simp: adj trace_rows_def)
  then show ?thesis
  proof cases
    case 1
    then show ?thesis by (auto simp: row_dated_def ded_rows_def deductionRow_def)
  next
    case 2
    then show ?thesis using run src by (fastforce simp: flow_rows_def alloc_run_def moved_ok_def)
  next
    case 3
    then show ?thesis by (auto dest!: red_rows_row simp: row_dated_def reductionRow_def)
  qed
qed

lemma settled_within_pending:
  assumes "alloc_pre J input" and "allocate J input = Some (Inr r)" and "b \<in> set (ai_bills input)"
    and "paise (ab_discount b)" "paise (ab_writeoff b)" "paise (ab_roundoff b)"
  shows "moved_on r (ab_billId b) (ab_billAccYear b) (sd_settle (sidesOf input)) \<le> money J (ab_pendingAmount b)"
proof -
  have g: "guards_pass J input" using allocate_success [OF assms(1,2)] by blast
  have fits: "\<forall>b\<in>set (ai_bills input). bill_fits J b" using g by (auto simp: guards_pass_def assertBillsFit_iff)
  have le: "money J (f b) \<le> column J f (ai_bills input)" if "\<forall>b\<in>set (ai_bills input). 0 \<le> f b" for f
    unfolding column_def using that assms(3) by (intro sum_list_nonneg_elem) auto
  have nn: "0 \<le> ab_amount b" "0 \<le> ab_discount b" "0 \<le> ab_writeoff b" "0 \<le> ab_roundoff b"
    using fits assms(3) by (auto simp: bill_fits_def)
  have up: "money J (ab_amount b) \<le> split_limit" "ab_discount b \<le> amount_limit" "ab_writeoff b \<le> amount_limit" "ab_roundoff b \<le> amount_limit"
    using le [of ab_amount] le [of ab_discount] le [of ab_writeoff] le [of ab_roundoff] fits assms(1,4-6)
    by (auto simp: bill_fits_def alloc_pre_def)
  have al: "amount_limit = 1000000000000000" "split_limit = 40000000" by (simp_all add: amount_limit_def split_limit_def)
  have n0: "0 \<le> money J (ab_amount b)" using nn by simp
  have "d_plus J (money J (ab_amount b)) (ab_discount b) = money J (ab_amount b) + ab_discount b"
    using nn n0 up assms(4) by (intro plus_paise) (simp_all add: al)
  moreover have "d_plus J (money J (ab_amount b) + ab_discount b) (ab_writeoff b) = money J (ab_amount b) + ab_discount b + ab_writeoff b"
    using nn n0 up assms(4,5) by (intro plus_paise) (simp_all add: al)
  moreover have "d_plus J (money J (ab_amount b) + ab_discount b + ab_writeoff b) (ab_roundoff b) =
      money J (ab_amount b) + ab_discount b + ab_writeoff b + ab_roundoff b"
    using nn n0 up assms(4-6) by (intro plus_paise) (simp_all add: al)
  ultimately have "bill_settled J b = money J (ab_amount b) + reduction J b"
    unfolding bill_settled_def reduction_def using assms(4-6) by simp
  then show ?thesis
    using bill_settled_total [OF assms(1-3)] fits assms(3) unfolding bill_fits_def by metis
qed

lemma spent_within_pending:
  assumes "alloc_pre J input" and "allocate J input = Some (Inr r)" and "c \<in> set (ai_credits input)"
  shows "moved_on r (ac_billId c) (ac_billAccYear c) (sd_mirror (sidesOf input)) \<le> money J (ac_pendingAmount c)"
proof -
  have "guards_pass J input" using allocate_success [OF assms(1,2)] by blast
  then have "credit_fits J c" using assms(3) by (simp add: guards_pass_def assertCreditsFit_iff)
  then show ?thesis unfolding credit_spent_total [OF assms] by (simp add: credit_fits_def)
qed

lemma adjusted_total:
  assumes pre: "alloc_pre J input" and ok: "allocate J input = Some (Inr r)"
  shows "sum_list (map snd (ar_adjustAmountByVoucher r)) =
    column J ab_amount (ai_bills input) + sum_list (map (reduction J) (ai_bills input))"
proof -
  let ?S = "sidesOf input"
  from allocate_success [OF pre ok] obtain ps ts cs rs v where g: "guards_pass J input"
    and run: "alloc_run J input ps ts cs rs v" and full: "\<forall>c\<in>set cs. c = 0"
    and adj: "ar_adjustments r = trace_rows J input ps ts"
    and red: "\<forall>b\<in>set (ai_bills input). \<exists>rows. bill_reductions J input ?S b = Inr rows"
    and tot: "ar_adjustAmountByVoucher r = totalPerVoucher J (ar_adjustments r)" by blast
  have fits: "\<forall>b\<in>set (ai_bills input). bill_fits J b" using g by (auto simp: guards_pass_def assertBillsFit_iff)
  let ?kvs = "map (\<lambda>row. (adj_voucherKey row, adj_amount row)) (filter adj_countsToAdjustAmount (trace_rows J input ps ts))"
  have sum: "sum_list (map snd ?kvs) = moved_by (\<lambda>_ _. 1) ps + moved_by (\<lambda>_ _. 1) ts + sum_list (map (\<lambda>b. 1 * reduction J b) (ai_bills input))"
    unfolding map_map comp_def snd_conv sum_list_if_filter using fits red
    by (intro sum_trace)
      (auto simp: deductionRow_def reductionRow_def settlementRows_def split: source_kind.splits option.splits)
  note b = bills_bounds [OF pre g run]
  have "\<forall>x\<in>set (map snd ?kvs). paise x \<and> 0 \<le> x" using trace_rows_nonneg [OF run] by auto
  moreover have "sum_list (map snd ?kvs) < 10 ^ 18" using sum b by (simp add: amount_limit_def split_limit_def)
  ultimately have col: "exact_column (map snd ?kvs)" by (rule exact_column_nonneg)
  have "paise x" if x: "x \<in> set (map snd (fold_totals J ?kvs))" for x
  proof -
    obtain k where "(k, x) \<in> set (fold_totals J ?kvs)" using x by auto
    then have "jmap_get (fold_totals J ?kvs) k = Some x" using fold_totals_distinct by (intro map_of_is_SomeI)
    then show ?thesis using key_sum_exact(1) [OF col, of k] by (simp add: fold_totals_get [OF col] split: if_splits)
  qed
  then have "map snd (money_all J (fold_totals J ?kvs)) = map snd (fold_totals J ?kvs)"
    by (fastforce simp: money_all_def)
  moreover have "totalPerVoucher J (trace_rows J input ps ts) = money_all J (fold_totals J ?kvs)"
    unfolding totalPerVoucher_def foldl_if_filter fold_totals_def foldl_map by simp
  ultimately have "sum_list (map snd (ar_adjustAmountByVoucher r)) = sum_list (map snd ?kvs)"
    unfolding tot adj using fold_totals_sum [OF col] by simp
  moreover note moved_all [OF run full]
  ultimately show ?thesis using sum by simp
qed

end

section \<open>What the rows total, side by side\<close>

definition side_rows :: "alloc_result \<Rightarrow> DrCr \<Rightarrow> rat" where
  "side_rows r side = sum_list (map adj_amount (filter (\<lambda>row. adj_drCr row = side) (ar_adjustments r)))"

text \<open>A voucher's leg read off the result: its rows, signed by their side, and its on-account entries.\<close>

definition leg_of_rows :: "alloc_result \<Rightarrow> voucher_key \<Rightarrow> rat" where
  "leg_of_rows r k =
     sum_list (map (\<lambda>row. if adj_drCr row = ar_partyLegSide r then adj_amount row else - adj_amount row)
       (filter (\<lambda>row. adj_voucherKey row = k) (ar_adjustments r)))
     + sum_list (map oa_amount (filter (\<lambda>e. oa_voucherKey e = k) (ar_onAccount r)))"

lemma credit_pair:
  assumes "src_kind s = CREDIT" and "src_credit s = Some c"
  shows "sum_list (map (\<lambda>row. if adj_drCr row = side then adj_amount row else 0) (settlementRows b s t S)) =
    (if sd_settle S = side then t else 0) + (if sd_mirror S = side then t else 0)"
  using assms by (simp add: settlementRows_def)

context decimal_package
begin

lemma settle_side_total:
  assumes pre: "alloc_pre J input" and ok: "allocate J input = Some (Inr r)"
  shows "side_rows r (sd_settle (sidesOf input)) =
    column J ab_amount (ai_bills input) + sum_list (map (reduction J) (ai_bills input))"
proof -
  let ?S = "sidesOf input"
  from allocate_success [OF pre ok] obtain ps ts cs rs v where g: "guards_pass J input"
    and run: "alloc_run J input ps ts cs rs v" and full: "\<forall>c\<in>set cs. c = 0"
    and adj: "ar_adjustments r = trace_rows J input ps ts"
    and red: "\<forall>b\<in>set (ai_bills input). \<exists>rows. bill_reductions J input ?S b = Inr rows" by blast
  have fits: "\<forall>b\<in>set (ai_bills input). bill_fits J b" using g by (auto simp: guards_pass_def assertBillsFit_iff)
  have "sum_list (map (\<lambda>row. if adj_drCr row = sd_settle ?S then adj_amount row else 0) (trace_rows J input ps ts)) =
      moved_by (\<lambda>_ _. 1) ps + moved_by (\<lambda>_ _. 1) ts + sum_list (map (\<lambda>b. 1 * reduction J b) (ai_bills input))"
    using fits red sides_cases(2) [of input]
    by (intro sum_trace)
      (auto simp: deductionRow_def reductionRow_def settlementRows_def split: source_kind.splits option.splits)
  then show ?thesis using moved_all [OF run full] by (simp add: side_rows_def adj sum_list_if_filter)
qed

lemma mirror_side_total:
  assumes pre: "alloc_pre J input" and ok: "allocate J input = Some (Inr r)"
  shows "side_rows r (sd_mirror (sidesOf input)) = column J ac_amount (ai_credits input)"
proof -
  let ?S = "sidesOf input"
  from allocate_success [OF pre ok] obtain ps ts cs rs v where g: "guards_pass J input"
    and run: "alloc_run J input ps ts cs rs v" and adj: "ar_adjustments r = trace_rows J input ps ts"
    and red: "\<forall>b\<in>set (ai_bills input). \<exists>rows. bill_reductions J input ?S b = Inr rows"
    and spent: "\<forall>s\<in>set (left_sources J input rs). src_kind s = CREDIT \<longrightarrow> src_remaining s \<le> 0" by blast
  have fits: "\<forall>b\<in>set (ai_bills input). bill_fits J b" using g by (auto simp: guards_pass_def assertBillsFit_iff)
  have srcs: "\<forall>(b, s, t)\<in>set ts. src_kind s = CREDIT \<longrightarrow> src_credit s \<noteq> None"
  proof -
    have "\<forall>s\<in>set (buildSources J input ?S). src_kind s = CREDIT \<longrightarrow> src_credit s \<noteq> None"
      using source_totals(3) [OF pre g] by (auto simp: credit_source_def current_source_def pdc_source_def)
    then show ?thesis using run by (fastforce simp: alloc_run_def moved_ok_def src_tag_def)
  qed
  have "sum_list (map (\<lambda>row. if adj_drCr row = sd_mirror ?S then adj_amount row else 0) (trace_rows J input ps ts)) =
      moved_by (\<lambda>_ _. 0) ps + moved_by (\<lambda>b s. is_credit s) ts + sum_list (map (\<lambda>b. 0 * reduction J b) (ai_bills input))"
    using fits red srcs sides_cases(2) [of input]
    by (intro sum_trace)
      (auto simp: is_credit_def deductionRow_def reductionRow_def settlementRows_def split: source_kind.splits option.splits)
  moreover have "source_total is_credit (left_sources J input rs) = 0"
    by (rule left_credits_zero [OF run spent])
  then have "moved_by (\<lambda>b s. is_credit s) ts = column J ac_amount (ai_credits input)"
    using run credits_in_sources [OF pre g] unfolding alloc_run_def by simp
  ultimately show ?thesis by (simp add: side_rows_def adj sum_list_if_filter moved_by_zero sum_list_0)
qed

text \<open>No row and no entry stands on a voucher the document does not have.\<close>

lemma row_voucher_wanted:
  "row_dated input row \<Longrightarrow> voucher_wanted input (adj_voucherKey row)"
  by (auto simp: row_dated_def voucher_wanted_def split: if_splits)

lemma wanted_receipt: "voucher_wanted input RECEIPT_VOUCHER_KEY"
  by (simp add: voucher_wanted_def)

lemma entry_voucher_wanted:
  assumes pre: "alloc_pre J input" and g: "guards_pass J input" and run: "alloc_run J input ps ts cs rs v"
    and m: "filed m" "amounts m = fold_totals J (held J input rs v)" and e: "e \<in> set (map snd m)"
  shows "voucher_wanted input (oa_voucherKey e)"
proof -
  obtain k where k: "(k, e) \<in> set m" using e by auto
  then have "oa_voucherKey e = k" using m(1) by (auto simp: filed_def)
  moreover have "(k, oa_amount e) \<in> set (fold_totals J (held J input rs v))"
    using k unfolding m(2) [symmetric] by (force simp: amounts_def)
  then have "jmap_get (fold_totals J (held J input rs v)) k = Some (oa_amount e)"
    using fold_totals_distinct by (intro map_of_is_SomeI)
  then have "k \<in> fst ` set (held J input rs v)"
    unfolding fold_totals_get [OF held_exact(1) [OF pre g run]] by (simp split: if_splits)
  moreover have "voucher_wanted input (src_voucherKey s)" if s: "s \<in> set (left_sources J input rs)" for s
  proof -
    obtain s0 x where "(s0, x) \<in> set (zip (buildSources J input (sidesOf input)) rs)" "s = s0\<lparr>src_remaining := x\<rparr>"
      using s by (auto simp: left_sources_def with_balances_def)
    moreover from this have "s0 \<in> set (buildSources J input (sidesOf input))" by (simp add: set_zip_leftD)
    ultimately show ?thesis using source_totals(3) [OF pre g]
      by (fastforce simp: voucher_wanted_def credit_source_def current_source_def pdc_source_def)
  qed
  ultimately show ?thesis by (auto simp: held_def leftovers_def wanted_receipt split: if_splits)
qed

lemma party_leg_rows:
  assumes pre: "alloc_pre J input" and ok: "allocate J input = Some (Inr r)"
  shows "jmap_get (ar_partyCreditByVoucher r) k = (if voucher_wanted input k then Some (leg_of_rows r k) else None)"
proof -
  let ?S = "sidesOf input"
  from allocate_success [OF pre ok] obtain ps ts cs rs v m where g: "guards_pass J input"
    and run: "alloc_run J input ps ts cs rs v"
    and adj: "ar_adjustments r = trace_rows J input ps ts"
    and red: "\<forall>b\<in>set (ai_bills input). \<exists>rows. bill_reductions J input ?S b = Inr rows"
    and m: "filed m" "amounts m = fold_totals J (held J input rs v)" "ar_onAccount r = map snd m"
    and side: "ar_partyLegSide r = sd_settle ?S"
    and leg: "ar_partyCreditByVoucher r = partyLegPerVoucher J input ?S (ar_adjustments r) (ar_onAccount r)" by blast
  let ?kvs = "leg_kvs ?S (ar_adjustments r) (ar_onAccount r)"
  note he = held_entries [OF pre g run m(1,2)]
  have col: "exact_column (map snd ?kvs)" unfolding adj m(3) by (rule leg_exact [OF pre g run red he(1,3)])
  have "key_sum k ?kvs = leg_of_rows r k"
    by (simp add: leg_kvs_def key_sum_map leg_of_rows_def side)
  moreover have "k' \<in> fst ` set ?kvs \<Longrightarrow> voucher_wanted input k'" for k'
    using row_voucher_wanted [OF rows_dated [OF pre ok]] entry_voucher_wanted [OF pre g run m(1,2)]
    unfolding m(3) by (auto simp: leg_kvs_def simp del: list.set_map) fastforce+
  ultimately show ?thesis
    using partyLeg_get [OF col] partyLeg_none [OF col, of input k] unfolding leg by (cases "voucher_wanted input k") auto
qed

lemma leg_of_rows_sources:
  assumes "alloc_pre J input" and "allocate J input = Some (Inr r)"
  shows "leg_of_rows r RECEIPT_VOUCHER_KEY = instant_total J input + deductions_total J input + floating_total J input
      - extras_total J input + sum_list (map (reduction J) (ai_bills input)) \<and>
    (\<forall>t\<in>set (ai_tenders input). at_isPostDated t \<longrightarrow> leg_of_rows r (pdcVoucherKey (at_tenderRowNo t)) =
      column J at_amount (filter (\<lambda>t'. at_isPostDated t' \<and> at_tenderRowNo t' = at_tenderRowNo t) (ai_tenders input)))"
proof -
  have g: "guards_pass J input" using allocate_success [OF assms] by blast
  have leg: "leg_of_rows r k = (if k = RECEIPT_VOUCHER_KEY then deductions_total J input + floating_total J input
        + sum_list (map (reduction J) (ai_bills input)) else 0)
      + source_total (on_voucher k) (buildSources J input (sidesOf input))" if "voucher_wanted input k" for k
    using party_leg [OF assms that] party_leg_rows [OF assms, of k] that by simp
  have "voucher_wanted input (pdcVoucherKey (at_tenderRowNo t))" if "t \<in> set (ai_tenders input)" "at_isPostDated t" for t
    using that by (auto simp: voucher_wanted_def)
  then show ?thesis
    using leg leg [OF wanted_receipt] source_total_receipt [OF assms(1) g] source_total_pdc [OF assms(1) g]
    by (auto simp: pdc_not_receipt)
qed

end

end
