(* ===== verification/Decimal_Places.thy ===== *)
theory Decimal_Places
  imports Decimal_Js
begin

text \<open>
  Sums of amounts with any fixed number of places: what the decimals compute exactly beyond the
  paisa, and how far rounding each amount to the paisa moves it.
\<close>

lemma places_representable:
  assumes "on_grid n x" and "\<bar>x\<bar> * 10 ^ n < 10 ^ 20"
  shows "representable x"
proof -
  from assms(1) obtain k :: int where k: "x * 10 ^ n = of_int k" by (auto simp: on_grid_def)
  have "\<bar>of_int k :: rat\<bar> < 10 ^ 20" using assms(2) by (simp add: k [symmetric] abs_mult)
  then have "\<bar>k\<bar> < 10 ^ 20" by (simp flip: of_int_abs)
  moreover have "x = of_int k * 10 ^ 0 / 10 ^ n" by (simp add: k [symmetric])
  ultimately show ?thesis unfolding representable_def by blast
qed

lemma half_up_near: "\<bar>half_up 2 x - x\<bar> \<le> 1 / 200"
  using half_up_error [of 2 x] by simp

context decimal_package
begin

lemma plus_grid: "on_grid n a \<Longrightarrow> on_grid n b \<Longrightarrow> \<bar>a + b\<bar> * 10 ^ n < 10 ^ 20 \<Longrightarrow> d_plus J a b = a + b"
  by (intro plus_exact places_representable on_grid_add)

end

end
