(* ===== verification/Allocation_Properties.thy ===== *)
theory Allocation_Properties
  imports Allocation_Outcome Decimal_Places
begin

text \<open>
  The properties of the allocation engine, with the sample receipt their witnesses run on.
\<close>

section \<open>A sample receipt\<close>

text \<open>
  One bill of 100 with a discount of 5, settled by a pinned deduction of 10, a credit of 20, cash
  of 50 less an extra of 4, and a post-dated cheque of 70 whose remainder of 46 stays on account.
\<close>

definition sample_bill :: alloc_bill where
  "sample_bill = \<lparr> ab_billId = ''b1'', ab_billAccYear = ''2025-2026'', ab_docRefno = ''S-1'', ab_amount = 100,
     ab_discount = 5, ab_writeoff = 0, ab_roundoff = 0, ab_pendingAmount = 150, ab_writeoffApprovedBy = None \<rparr>"

definition sample_credit :: alloc_credit where
  "sample_credit = \<lparr> ac_billId = ''c1'', ac_billAccYear = ''2025-2026'', ac_billType = BillType.ADVANCE,
     ac_docRefno = ''A-1'', ac_amount = 20, ac_pendingAmount = 20, ac_adjType = BillAdjType.ADVANCE_ADJUST,
     ac_settlementMode = BillSettlementMode.ADVANCE \<rparr>"

definition sample_tds :: alloc_other_line where
  "sample_tds = \<lparr> ol_lineNo = 1, ol_role = None, ol_ledgerId = ''tds'', ol_drCr = DR, ol_amount = 10,
     ol_settlesBill = True, ol_settlementMode = BillSettlementMode.TDS, ol_isInstrumentSplit = False, ol_approvedBy = None \<rparr>"

definition sample_extra :: alloc_other_line where
  "sample_extra = \<lparr> ol_lineNo = 2, ol_role = None, ol_ledgerId = ''interest'', ol_drCr = CR, ol_amount = 4,
     ol_settlesBill = False, ol_settlementMode = BillSettlementMode.JOURNAL, ol_isInstrumentSplit = False, ol_approvedBy = None \<rparr>"

definition sample_cash :: alloc_tender where
  "sample_cash = \<lparr> at_tenderRowNo = 1, at_amount = 50, at_isCheque = False, at_isPostDated = False,
     at_instrumentDate = None, at_settlementMode = BillSettlementMode.CASH \<rparr>"

definition sample_pdc :: alloc_tender where
  "sample_pdc = \<lparr> at_tenderRowNo = 2, at_amount = 70, at_isCheque = True, at_isPostDated = True,
     at_instrumentDate = Some 1728000000, at_settlementMode = BillSettlementMode.CHEQUE \<rparr>"

definition sample_receipt :: alloc_input where
  "sample_receipt = \<lparr> ai_receiptDate = 0, ai_bills = [sample_bill], ai_credits = [sample_credit],
     ai_otherLines = [sample_tds, sample_extra], ai_tenders = [sample_cash, sample_pdc],
     ai_pins = [\<lparr> pin_lineNo = 1, pin_billId = ''b1'', pin_billAccYear = ''2025-2026'', pin_amount = 10 \<rparr>],
     ai_claimedOnAccount = 46, ai_direction = None \<rparr>"

lemma sample_fields [simp]:
  "ai_receiptDate sample_receipt = 0" "ai_bills sample_receipt = [sample_bill]" "ai_credits sample_receipt = [sample_credit]"
  "ai_otherLines sample_receipt = [sample_tds, sample_extra]" "ai_tenders sample_receipt = [sample_cash, sample_pdc]"
  "ai_pins sample_receipt = [\<lparr> pin_lineNo = 1, pin_billId = ''b1'', pin_billAccYear = ''2025-2026'', pin_amount = 10 \<rparr>]"
  "ai_claimedOnAccount sample_receipt = 46"
  "bill_key sample_bill = ''b1|2025-2026''" "ab_amount sample_bill = 100" "ab_discount sample_bill = 5"
  "ab_writeoff sample_bill = 0" "ab_roundoff sample_bill = 0" "ab_pendingAmount sample_bill = 150"
  "ac_amount sample_credit = 20" "ac_pendingAmount sample_credit = 20"
  "ol_lineNo sample_tds = 1" "ol_drCr sample_tds = DR" "ol_amount sample_tds = 10" "ol_settlesBill sample_tds"
  "\<not> ol_isInstrumentSplit sample_tds" "ol_lineNo sample_extra = 2" "ol_drCr sample_extra = CR" "ol_amount sample_extra = 4"
  "at_amount sample_cash = 50" "\<not> at_isCheque sample_cash" "\<not> at_isPostDated sample_cash"
  "at_amount sample_pdc = 70" "at_isPostDated sample_pdc" "at_tenderRowNo sample_pdc = 2"
  by (simp_all add: sample_receipt_def sample_bill_def sample_credit_def sample_tds_def sample_extra_def
    sample_cash_def sample_pdc_def bill_key_def key_of_def)

lemma sample_sides: "sidesOf sample_receipt = \<lparr> sd_direction = IN, sd_settle = CR, sd_mirror = DR, sd_deduction = DR,
    sd_extra = CR, sd_moved = ''Received'', sd_route = ''/receipts/open-items'' \<rparr>"
  by (simp add: sidesOf_def sample_receipt_def)

lemmas d20_eval = d20.plus_paise d20.minus_paise d20.toDP_half_up sum_money_def

lemma sample_guards:
  "assertBillsFit decimal20 (ai_bills sample_receipt) = Inr ()"
  "assertCreditsFit decimal20 (ai_credits sample_receipt) = Inr ()"
  "assertIdentity decimal20 sample_receipt (sidesOf sample_receipt) = Inr ()"
  by (simp_all add: assertBillsFit_iff assertCreditsFit_iff bill_fits_def bill_settled_def credit_fits_def
      assertIdentity_def sample_sides isExtra_def d20_eval)

lemma sample_reserve: "reserveDeductions decimal20 sample_receipt (sidesOf sample_receipt) [sample_bill] ([100], []) =
   Inr (0, [90], [deductionRow sample_receipt (sidesOf sample_receipt) sample_bill sample_tds 10])"
  by (simp add: reserveDeductions_def pinnedByLine_def sample_sides isDeduction_def d20_eval
     takeFromBill_def billIndex_def key_of_def)

abbreviation sample_sources :: "rat \<Rightarrow> rat \<Rightarrow> rat \<Rightarrow> source list" where
  "sample_sources c m p \<equiv> [(credit_source decimal20 sample_receipt sample_credit)\<lparr>src_remaining := c\<rparr>,
     pooled_source sample_receipt m, (pdc_source decimal20 sample_receipt sample_pdc)\<lparr>src_remaining := p\<rparr>]"

lemma sample_built: "buildSources decimal20 sample_receipt (sidesOf sample_receipt) = sample_sources 20 46 70"
  by (simp add: buildSources_def sample_sides isExtra_def d20_eval Let_def credit_source_def pdc_source_def)

lemma pooled_update: "(pooled_source input m)\<lparr>src_remaining := r\<rparr> = pooled_source input r"
  by (simp add: pooled_source_def)

lemma sample_pour: "pour decimal20 [sample_bill] [90] (sample_sources 20 46 70) (sidesOf sample_receipt) out =
  Some ([0], sample_sources 0 0 46, out @ flow_rows (sidesOf sample_receipt)
    [(sample_bill, credit_source decimal20 sample_receipt sample_credit, 20), (sample_bill, pooled_source sample_receipt 46, 46),
     (sample_bill, pdc_source decimal20 sample_receipt sample_pdc, 24)])"
  by (simp add: pour_def d20.pour_bill_step pour_bill_skip pour_bill_full pooled_update)

lemma sample_pre: "alloc_pre decimal20 sample_receipt"
  by (simp add: alloc_pre_def column_def amount_limit_def split_limit_def)

lemma sample_finish: "\<exists>r. finish decimal20 sample_receipt (sidesOf sample_receipt) 0 [0] (sample_sources 0 0 46) out = Inr r"
  by (simp add: finish_def find_unfilled_def bill_reductions_def Let_def collectOnAccount_def add_on_account_def
   pdc_source_def credit_source_def pooled_source_def isFloating_def sample_sides d20_eval)

lemma sample_run: "\<exists>r. allocate decimal20 sample_receipt = Some (Inr r)"
  using sample_finish
  by (auto simp: allocate_def Let_def sample_guards [simplified] sample_reserve sample_built sample_pour)

section \<open>Properties\<close>

text \<open>
  C1: a successful allocation settles every bill by exactly what the caller asked for: the rows on
  the settling side of the bill add up to its amount, discount, write-off and round-off, each
  rounded to the paisa, whatever mixture of deductions, credits, cash and cheques paid it.
\<close>

theorem allocate_settles_bills:
  assumes "decimal_package J" and "alloc_pre J input" and "allocate J input = Some (Inr r)"
    and "b \<in> set (ai_bills input)"
  shows "moved_on r (ab_billId b) (ab_billAccYear b) (sd_settle (sidesOf input)) =
    money J (ab_amount b) + (money J (ab_discount b) + money J (ab_writeoff b) + money J (ab_roundoff b))"
  using decimal_package.bill_settled_total [OF assms] by (simp add: reduction_def)

theorem allocate_settles_bills_witness:
  "\<exists>r. allocate decimal20 sample_receipt = Some (Inr r) \<and>
    moved_on r (ab_billId sample_bill) (ab_billAccYear sample_bill) (sd_settle (sidesOf sample_receipt)) = 105"
  using sample_run allocate_settles_bills [OF decimal20_package sample_pre, of _ sample_bill] by auto

text \<open>
  C2: a successful allocation spends every credit exactly: the mirror rows on the credit add up to
  the amount applied, so no part of a credit is left over or spent twice.
\<close>

theorem allocate_spends_credits:
  assumes "decimal_package J" and "alloc_pre J input" and "allocate J input = Some (Inr r)"
    and "c \<in> set (ai_credits input)"
  shows "moved_on r (ac_billId c) (ac_billAccYear c) (sd_mirror (sidesOf input)) = money J (ac_amount c)"
  by (rule decimal_package.credit_spent_total [OF assms])

theorem allocate_spends_credits_witness:
  "\<exists>r. allocate decimal20 sample_receipt = Some (Inr r) \<and>
    moved_on r (ac_billId sample_credit) (ac_billAccYear sample_credit) (sd_mirror (sidesOf sample_receipt)) = 20"
  using sample_run allocate_spends_credits [OF decimal20_package sample_pre, of _ sample_credit] by auto

text \<open>
  C3: nothing is lost. The rows a successful allocation writes on the settling side add up to the
  bills and their discounts, write-offs and round-offs, the rows on the mirror side add up to the
  credits applied; and the money moved, the deductions, the credits and the reductions together
  are exactly those settling rows, the entries held on account and the extras. What is held on
  account is the client's figure.
\<close>

theorem allocate_conserves:
  assumes "decimal_package J" and "alloc_pre J input" and "allocate J input = Some (Inr r)"
  shows "side_rows r (sd_settle (sidesOf input)) =
      column J ab_amount (ai_bills input) + sum_list (map (reduction J) (ai_bills input)) \<and>
    side_rows r (sd_mirror (sidesOf input)) = column J ac_amount (ai_credits input) \<and>
    column J at_amount (ai_tenders input) + deductions_total J input + floating_total J input
      + column J ac_amount (ai_credits input) + sum_list (map (reduction J) (ai_bills input)) =
    side_rows r (sd_settle (sidesOf input)) + sum_list (map oa_amount (ar_onAccount r)) + extras_total J input \<and>
    sum_list (map oa_amount (ar_onAccount r)) = money J (ai_claimedOnAccount input) \<and>
    ar_totalOnAccount r = sum_list (map oa_amount (ar_onAccount r))"
  using decimal_package.on_account_total [OF assms] decimal_package.settle_side_total [OF assms]
    decimal_package.mirror_side_total [OF assms]
  by (simp add: identity_holds_def)

theorem allocate_conserves_witness:
  "\<exists>r. allocate decimal20 sample_receipt = Some (Inr r) \<and> side_rows r CR = 105 \<and> side_rows r DR = 20 \<and>
    ar_totalOnAccount r = 46"
  using sample_run allocate_conserves [OF decimal20_package sample_pre]
  by (auto simp: sample_sides column_def reduction_def)

text \<open>
  C4: the party leg of every voucher is what its rows say, each with the sign of its side, plus
  what it holds on account, and the document has no leg for any other voucher. On the document's
  own voucher it is the instant money, plus every deduction-side line that is not an instrument
  split, plus every discount, write-off and round-off, less the extras; on the voucher of a
  post-dated row number it is the post-dated tenders of that number.
\<close>

theorem allocate_party_leg:
  assumes "decimal_package J" and "alloc_pre J input" and "allocate J input = Some (Inr r)"
  shows "jmap_get (ar_partyCreditByVoucher r) k = (if voucher_wanted input k then Some (leg_of_rows r k) else None) \<and>
    leg_of_rows r RECEIPT_VOUCHER_KEY = instant_total J input + deductions_total J input + floating_total J input
      - extras_total J input + sum_list (map (reduction J) (ai_bills input)) \<and>
    (\<forall>t\<in>set (ai_tenders input). at_isPostDated t \<longrightarrow> leg_of_rows r (pdcVoucherKey (at_tenderRowNo t)) =
      column J at_amount (filter (\<lambda>t'. at_isPostDated t' \<and> at_tenderRowNo t' = at_tenderRowNo t) (ai_tenders input)))"
  using decimal_package.party_leg_rows [OF assms] decimal_package.leg_of_rows_sources [OF assms] by blast

theorem allocate_party_leg_witness:
  "\<exists>r. allocate decimal20 sample_receipt = Some (Inr r) \<and>
    jmap_get (ar_partyCreditByVoucher r) RECEIPT_VOUCHER_KEY = Some 61 \<and>
    jmap_get (ar_partyCreditByVoucher r) (pdcVoucherKey 2) = Some 70 \<and>
    jmap_get (ar_partyCreditByVoucher r) (pdcVoucherKey 9) = None"
proof -
  obtain r where r: "allocate decimal20 sample_receipt = Some (Inr r)" using sample_run by blast
  note leg = allocate_party_leg [OF decimal20_package sample_pre r]
  have w: "voucher_wanted sample_receipt RECEIPT_VOUCHER_KEY" "voucher_wanted sample_receipt (pdcVoucherKey 2)"
    "\<not> voucher_wanted sample_receipt (pdcVoucherKey 9)"
    by (auto simp: voucher_wanted_def pdc_not_receipt sample_cash_def)
  show ?thesis
    using r leg [of RECEIPT_VOUCHER_KEY] leg [of "pdcVoucherKey 2"] leg [of "pdcVoucherKey 9"] w
    by (auto simp: instant_total_def deductions_total_def floating_total_def extras_total_def column_def reduction_def
      sample_sides isDeduction_def isFloating_def isExtra_def)
qed

text \<open>
  C5: a post-dated cheque's voucher carries the cheque and nothing else: its party leg is the face
  value of the post-dated tender with that row number.
\<close>

theorem allocate_pdc_leg:
  assumes "decimal_package J" and "alloc_pre J input" and "allocate J input = Some (Inr r)"
    and "t \<in> set (ai_tenders input)" and "at_isPostDated t" and "distinct (map at_tenderRowNo (ai_tenders input))"
  shows "jmap_get (ar_partyCreditByVoucher r) (pdcVoucherKey (at_tenderRowNo t)) = Some (money J (at_amount t))"
  by (rule decimal_package.party_leg_pdc [OF assms])

theorem allocate_pdc_leg_witness:
  "\<exists>r. allocate decimal20 sample_receipt = Some (Inr r) \<and>
    jmap_get (ar_partyCreditByVoucher r) (pdcVoucherKey 2) = Some 70"
  using sample_run allocate_pdc_leg [OF decimal20_package sample_pre, of _ sample_pdc]
  by (auto simp: sample_cash_def)

text \<open>
  C6: the allocation always returns. For every input whatever, of any amounts and any signs, the
  pouring loop ends and the engine answers with a result or a refusal.
\<close>

theorem allocate_returns:
  assumes "decimal_package J"
  shows "\<exists>res. allocate J input = Some res"
  by (rule decimal_package.allocate_total [OF assms])

theorem allocate_returns_witness: "\<exists>res. allocate decimal20 sample_receipt = Some res"
  by (rule allocate_returns [OF decimal20_package])

text \<open>
  C7: exactly when the engine succeeds, for amounts in range and no pinned lines: when the three
  guards pass, the client holds at least the floating lines on account, there are no credits or
  the bills have room for the credits and the deductions together, and every write-off names its
  approver. In particular a deduction that overflows the bills is no reason to refuse.
\<close>

theorem allocate_succeeds:
  assumes "decimal_package J" and "alloc_pre J input" and "claim_ok input" and "ai_pins input = []"
  shows "(\<exists>r. allocate J input = Some (Inr r)) \<longleftrightarrow>
    assertBillsFit J (ai_bills input) = Inr () \<and> assertCreditsFit J (ai_credits input) = Inr () \<and>
    assertIdentity J input (sidesOf input) = Inr () \<and>
    floating_total J input \<le> money J (ai_claimedOnAccount input) \<and>
    (ai_credits input = [] \<or>
      column J ac_amount (ai_credits input) + deductions_total J input \<le> column J ab_amount (ai_bills input)) \<and>
    (\<forall>b\<in>set (ai_bills input). 0 < money J (ab_writeoff b) \<longrightarrow> truthy (ab_writeoffApprovedBy b))"
  using decimal_package.succeeds_iff [OF assms] by (simp add: guards_pass_def)

definition sample_plain :: alloc_input where
  "sample_plain = sample_receipt\<lparr>ai_pins := []\<rparr>"

theorem allocate_succeeds_witness: "\<exists>r. allocate decimal20 sample_plain = Some (Inr r)"
proof -
  have sides: "sidesOf sample_plain = sidesOf sample_receipt" by (simp add: sidesOf_def sample_plain_def)
  have pre: "alloc_pre decimal20 sample_plain" using sample_pre by (simp add: alloc_pre_def sample_plain_def column_def amount_limit_def)
  have claim: "claim_ok sample_plain" by (simp add: claim_ok_def sample_plain_def amount_limit_def)
  have pins: "ai_pins sample_plain = []" by (simp add: sample_plain_def)
  have guards: "assertBillsFit decimal20 (ai_bills sample_plain) = Inr ()" "assertCreditsFit decimal20 (ai_credits sample_plain) = Inr ()"
    "assertIdentity decimal20 sample_plain (sidesOf sample_plain) = Inr ()"
    using sample_guards unfolding sides by (simp_all add: sample_plain_def assertIdentity_def)
  have held: "floating_total decimal20 sample_plain \<le> money decimal20 (ai_claimedOnAccount sample_plain)"
    unfolding floating_total_def sides by (simp add: sample_plain_def sample_sides isFloating_def column_def)
  have room: "column decimal20 ac_amount (ai_credits sample_plain) + deductions_total decimal20 sample_plain
      \<le> column decimal20 ab_amount (ai_bills sample_plain)"
    unfolding deductions_total_def sides by (simp add: sample_plain_def sample_sides isDeduction_def column_def)
  show ?thesis
    unfolding allocate_succeeds [OF decimal20_package pre claim pins]
    using guards held room by (simp add: sample_plain_def)
qed

text \<open>
  A row settles on the right day and the right voucher: a post-dated row is on the voucher of
  the post-dated tender it came from and dated that instrument, and every other row is on the
  document's own voucher and dated the document.
\<close>

theorem allocate_rows_dated:
  assumes "decimal_package J" and "alloc_pre J input" and "allocate J input = Some (Inr r)"
  shows "\<forall>row\<in>set (ar_adjustments r). row_dated input row"
  using decimal_package.rows_dated [OF assms] by blast

theorem allocate_rows_dated_witness:
  "\<exists>r. allocate decimal20 sample_receipt = Some (Inr r) \<and> (\<forall>row\<in>set (ar_adjustments r). row_dated sample_receipt row)"
  using sample_run allocate_rows_dated [OF decimal20_package sample_pre] by blast

text \<open>
  C8: no credit is ever spent past what is pending on it, and no bill is settled past what is
  pending on it when its discount, write-off and round-off are whole paise.
\<close>

theorem allocate_within_pending:
  assumes "decimal_package J" and "alloc_pre J input" and "allocate J input = Some (Inr r)"
  shows "(\<forall>c\<in>set (ai_credits input).
      moved_on r (ac_billId c) (ac_billAccYear c) (sd_mirror (sidesOf input)) \<le> money J (ac_pendingAmount c)) \<and>
    (\<forall>b\<in>set (ai_bills input). paise (ab_discount b) \<longrightarrow> paise (ab_writeoff b) \<longrightarrow> paise (ab_roundoff b) \<longrightarrow>
      moved_on r (ab_billId b) (ab_billAccYear b) (sd_settle (sidesOf input)) \<le> money J (ab_pendingAmount b))"
  using decimal_package.spent_within_pending [OF assms] decimal_package.settled_within_pending [OF assms] by blast

theorem allocate_within_pending_witness:
  "\<exists>r. allocate decimal20 sample_receipt = Some (Inr r) \<and>
    moved_on r (ac_billId sample_credit) (ac_billAccYear sample_credit) (sd_mirror (sidesOf sample_receipt)) \<le> 20 \<and>
    moved_on r (ab_billId sample_bill) (ab_billAccYear sample_bill) (sd_settle (sidesOf sample_receipt)) \<le> 150"
  using sample_run allocate_within_pending [OF decimal20_package sample_pre] by auto

text \<open>
  With a fraction of a paisa a bill can be settled past its pending amount: the guard adds the
  reductions as they are sent and the rows round each of them. Half a paisa of discount and half
  of round-off beside 99.99 on a bill of 100 write 100.01.
\<close>

definition sample_halves :: alloc_input where
  "sample_halves = sample_receipt\<lparr>ai_bills := [sample_bill\<lparr>ab_amount := 9999 / 100, ab_discount := 1 / 200,
       ab_roundoff := 1 / 200, ab_pendingAmount := 100\<rparr>], ai_credits := [], ai_otherLines := [], ai_pins := [],
     ai_tenders := [sample_cash\<lparr>at_amount := 9999 / 100\<rparr>], ai_claimedOnAccount := 0\<rparr>"

lemma half_paise_overspend:
  "\<exists>r. allocate decimal20 sample_halves = Some (Inr r) \<and>
    (\<forall>b\<in>set (ai_bills sample_halves). moved_on r (ab_billId b) (ab_billAccYear b) CR = 10001 / 100 \<and> ab_pendingAmount b = 100)"
proof -
  have sides: "sidesOf sample_halves = sidesOf sample_receipt" by (simp add: sidesOf_def sample_halves_def)
  have up: "half_up 2 (1 / 200) = 1 / 100" "half_up 2 (9999 / 100) = 9999 / 100" by (simp_all add: half_up_def floor_eq_iff)
  have pre: "alloc_pre decimal20 sample_halves"
    by (simp add: alloc_pre_def column_def sample_halves_def up amount_limit_def split_limit_def)
  have grid: "on_grid 3 (9999 / 100)" "on_grid 3 (1 / 200)" "on_grid 3 (19999 / 200)" "on_grid 3 100"
    by (auto intro: on_gridI [of _ _ 99990] on_gridI [of _ _ 5] on_gridI [of _ _ 99995])
  have sums: "d_plus decimal20 (9999 / 100) (1 / 200) = 19999 / 200" "d_plus decimal20 (19999 / 200) (1 / 200) = 100"
    "d_plus decimal20 (19999 / 200) 0 = 19999 / 200" "d_plus decimal20 0 (9999 / 100) = 9999 / 100"
    "d_plus decimal20 (9999 / 100) 0 = 9999 / 100"
    using d20.plus_grid [OF grid(1,2)] d20.plus_grid [OF grid(3,2)] d20.plus_grid [OF grid(3), of 0]
      d20.plus_grid [OF _ grid(1), of 0] d20.plus_grid [OF grid(1), of 0] by simp_all
  have "guards_pass decimal20 sample_halves"
    unfolding guards_pass_def sides
    by (simp add: assertBillsFit_iff assertCreditsFit_iff bill_fits_def bill_settled_def sample_halves_def
      assertIdentity_def sample_sides isExtra_def sum_money_def Let_def d20.toDP_half_up up sums)
  then obtain r where r: "allocate decimal20 sample_halves = Some (Inr r)"
    using d20.succeeds_iff [OF pre]
    by (auto simp: sample_halves_def claim_ok_def amount_limit_def floating_total_def column_def)
  with d20.bill_settled_total [OF pre r] show ?thesis
    unfolding sides by (auto simp: sample_sides sample_halves_def reduction_def up)
qed

text \<open>
  The adjusted amounts of the vouchers add up to what the bills were settled by; a credit's
  pair of rows is counted once.
\<close>

theorem allocate_adjusted_total:
  assumes "decimal_package J" and "alloc_pre J input" and "allocate J input = Some (Inr r)"
  shows "sum_list (map snd (ar_adjustAmountByVoucher r)) =
    column J ab_amount (ai_bills input) + sum_list (map (reduction J) (ai_bills input))"
  by (rule decimal_package.adjusted_total [OF assms])

theorem allocate_adjusted_total_witness:
  "\<exists>r. allocate decimal20 sample_receipt = Some (Inr r) \<and> sum_list (map snd (ar_adjustAmountByVoucher r)) = 105"
  using sample_run allocate_adjusted_total [OF decimal20_package sample_pre]
  by (auto simp: column_def reduction_def)

end
