(* ===== verification/Voucher_Guards.thy ===== *)
theory Voucher_Guards
  imports Accounts_Types
begin

text \<open>
  \<open>accountsModule/vouchers/vouchers.errors.ts\<close>: the guard context a derivation collects its
  refusals and warnings in. \<open>ctx\<close> is a mutable object in the code; here it is passed and
  returned. A refusal keeps its code, field and line; its message text is not represented.
  The locale \<open>guard_relation\<close> is the contract between a derivation and its context: what \<open>refuse\<close> and
  \<open>warn\<close> keep, every operation keeps.
\<close>

section \<open>The context\<close>

record refusal =
  rf_code :: string
  rf_field :: "string option"
  rf_line :: "int option"

datatype warn_level = INFO | WARN

record warning = refusal +
  wn_level :: warn_level
  wn_overridable :: bool

record guard_context =
  gc_dryRun :: bool
  gc_overrides :: "string list"
  gc_canOverride :: bool
  gc_refusals :: "refusal list"
  gc_warnings :: "warning list"

definition newGuardContext :: "bool \<Rightarrow> string list option \<Rightarrow> bool \<Rightarrow> guard_context" where
  "newGuardContext dryRun overrides canOverride =
     \<lparr> gc_dryRun = dryRun, gc_overrides = or_else overrides [], gc_canOverride = canOverride,
       gc_refusals = [], gc_warnings = [] \<rparr>"

definition refuse :: "string \<Rightarrow> string option \<Rightarrow> int option \<Rightarrow> guard_context \<Rightarrow> guard_context" where
  "refuse code field line ctx =
     ctx\<lparr>gc_refusals := gc_refusals ctx @ [\<lparr> rf_code = code, rf_field = field, rf_line = line \<rparr>]\<rparr>"

definition accepted :: "guard_context \<Rightarrow> string \<Rightarrow> bool \<Rightarrow> bool" where
  "accepted ctx code overridable \<longleftrightarrow> overridable \<and> code \<in> set (gc_overrides ctx) \<and> gc_canOverride ctx"

definition warn :: "string \<Rightarrow> string option \<Rightarrow> int option \<Rightarrow> bool option \<Rightarrow> guard_context \<Rightarrow> guard_context" where
  "warn code field line overridable_opt ctx =
     (let overridable = or_else overridable_opt True;
          ok = accepted ctx code overridable;
          ctx' = ctx\<lparr>gc_warnings := gc_warnings ctx @ [\<lparr> rf_code = code, rf_field = field, rf_line = line,
            wn_level = (if ok then INFO else WARN), wn_overridable = overridable \<rparr>]\<rparr>
      in if ok \<or> (overridable \<and> gc_dryRun ctx) then ctx' else refuse code field line ctx')"

text \<open>What the operator is sent: one detail per refusal, the field defaulting to the document.\<close>

record error_detail =
  ed_field :: string
  ed_code :: string
  ed_line :: "int option"

definition throwRefusals :: "refusal list \<Rightarrow> error_detail list" where
  "throwRefusals refusals = map (\<lambda>r. \<lparr> ed_field = or_else (rf_field r) ''document'', ed_code = rf_code r,
     ed_line = rf_line r \<rparr>) refusals"

section \<open>Only appending\<close>

definition extends :: "guard_context \<Rightarrow> guard_context \<Rightarrow> bool" where
  "extends ctx ctx' \<longleftrightarrow> gc_dryRun ctx' = gc_dryRun ctx \<and> gc_overrides ctx' = gc_overrides ctx \<and>
     gc_canOverride ctx' = gc_canOverride ctx \<and>
     (\<exists>rs ws. gc_refusals ctx' = gc_refusals ctx @ rs \<and> gc_warnings ctx' = gc_warnings ctx @ ws)"

lemma extends_refl [simp, intro]: "extends ctx ctx"
  by (simp add: extends_def)

lemma extends_trans [trans]: "extends a b \<Longrightarrow> extends b c \<Longrightarrow> extends a c"
  by (auto simp: extends_def)

lemma extends_clean: "extends a b \<Longrightarrow> gc_refusals b = [] \<Longrightarrow> gc_refusals a = []"
  by (auto simp: extends_def)

lemma extends_refuse [simp, intro]: "extends ctx (refuse code field line ctx)"
  by (simp add: extends_def refuse_def)

lemma extends_warn [simp, intro]: "extends ctx (warn code field line ov ctx)"
  by (simp add: extends_def warn_def refuse_def Let_def)

lemma refuse_not_clean [simp]: "gc_refusals (refuse code field line ctx) \<noteq> []"
  by (simp add: refuse_def)

lemma refuse_fields [guard_simps]:
  "gc_dryRun (refuse code field line ctx) = gc_dryRun ctx"
  "gc_refusals (refuse code field line ctx) = gc_refusals ctx @ [\<lparr> rf_code = code, rf_field = field, rf_line = line \<rparr>]"
  "gc_warnings (refuse code field line ctx) = gc_warnings ctx"
  by (simp_all add: refuse_def)

section \<open>Relating two runs\<close>

text \<open>
  A context is only ever touched through \<open>refuse\<close> and \<open>warn\<close>. A relation between the contexts of two
  runs that both calls keep is therefore kept by every operation that makes the same calls in both
  runs: the locale \<open>guard_relation\<close> states the two laws, and the operations of the derivation are
  shown to keep the relation once, inside it.
\<close>

locale guard_relation =
  fixes R :: "guard_context \<Rightarrow> guard_context \<Rightarrow> bool"
  assumes rel_refuse: "R c c' \<Longrightarrow> R (refuse code field line c) (refuse code field line c')"
    and rel_warn: "R c c' \<Longrightarrow> R (warn code field line ov c) (warn code field line ov c')"

text \<open>One run: what it was given stays a prefix of what it leaves.\<close>

interpretation trail: guard_relation "\<lambda>c c'. extends a c \<and> extends a c'" for a
  by unfold_locales (auto intro: extends_trans [OF _ extends_refuse] extends_trans [OF _ extends_warn])

text \<open>Two runs of the same document: the contexts are not looked at.\<close>

interpretation any_two: guard_relation "\<lambda>c c'. True"
  by unfold_locales auto

text \<open>
  A dry run and the post after it: the same warnings; and when the dry run refused nothing, the post
  refuses nothing exactly when every warning was accepted.
\<close>

definition dry_post :: "guard_context \<Rightarrow> guard_context \<Rightarrow> bool" where
  "dry_post c c' \<longleftrightarrow> gc_dryRun c \<and> \<not> gc_dryRun c' \<and> gc_overrides c' = gc_overrides c \<and>
     gc_canOverride c' = gc_canOverride c \<and> gc_warnings c' = gc_warnings c \<and>
     (gc_refusals c = [] \<longrightarrow> (gc_refusals c' = [] \<longleftrightarrow> (\<forall>w\<in>set (gc_warnings c). wn_level w = INFO)))"

interpretation validating: guard_relation dry_post
  by unfold_locales (auto simp: dry_post_def refuse_def warn_def accepted_def Let_def)

section \<open>Properties\<close>

text \<open>
  A warning blocks exactly when it must. It is always recorded; it is recorded as INFO when it
  is overridable, the request overrides its code and the user may override; and it becomes a refusal
  unless it was accepted that way or the run is dry and the warning overridable.
\<close>

theorem warn_blocks:
  "gc_warnings (warn code field line ov ctx) = gc_warnings ctx @ [\<lparr> rf_code = code, rf_field = field, rf_line = line,
      wn_level = (if or_else ov True \<and> code \<in> set (gc_overrides ctx) \<and> gc_canOverride ctx then INFO else WARN),
      wn_overridable = or_else ov True \<rparr>] \<and>
   gc_refusals (warn code field line ov ctx) = gc_refusals ctx @
     (if or_else ov True \<and> (gc_dryRun ctx \<or> (code \<in> set (gc_overrides ctx) \<and> gc_canOverride ctx)) then []
      else [\<lparr> rf_code = code, rf_field = field, rf_line = line \<rparr>])"
  by (auto simp: warn_def accepted_def refuse_def Let_def)

end
