(* ===== verification/Digits.thy ===== *)
theory Digits
  imports Prelude
begin

text \<open>
  Numbers as digits: leading zeros do not count, a text of \<open>w\<close> digits is below \<open>10 ^ w\<close>, and among texts of one length
  the number has one text, the one padded with zeros.
\<close>

lemma read_nat_Nil [simp]: "read_nat [] = 0"
  by (simp add: read_nat_def)

lemma read_nat_zeros [simp]: "read_nat (replicate k (CHR ''0'') @ s) = read_nat s"
proof (induction k)
  case (Suc k)
  then show ?case by (simp add: read_nat_def)
qed simp

lemma read_nat_bound: "list_all is_digit ds \<Longrightarrow> read_nat ds < 10 ^ length ds"
proof (induction ds rule: rev_induct)
  case (snoc d ds)
  then have "read_nat ds < 10 ^ length ds" "of_char d - 48 \<le> (9 :: nat)" by (auto simp: is_digit_def)
  then show ?case by (simp add: read_nat_snoc)
qed simp

lemma digit_inject: "is_digit c \<Longrightarrow> is_digit d \<Longrightarrow> (of_char c :: nat) - 48 = of_char d - 48 \<longleftrightarrow> c = d"
  unfolding is_digit_def of_char_eq_iff [where 'a = nat, symmetric] by linarith

lemma read_nat_inject:
  "length s = length t \<Longrightarrow> list_all is_digit s \<Longrightarrow> list_all is_digit t \<Longrightarrow> read_nat s = read_nat t \<longleftrightarrow> s = t"
proof (induction s arbitrary: t rule: rev_induct)
  case (snoc c s)
  obtain d u where t: "t = u @ [d]" using snoc.prems(1) by (cases t rule: rev_cases) auto
  have "of_char c - 48 < (10 :: nat)" "of_char d - 48 < (10 :: nat)" using snoc.prems t by (auto simp: is_digit_def)
  then have "read_nat (s @ [c]) = read_nat t \<longleftrightarrow> read_nat s = read_nat u \<and> (of_char c :: nat) - 48 = of_char d - 48"
    unfolding t read_nat_snoc by presburger
  then show ?case using snoc t digit_inject [of c d] by simp
qed simp

text \<open>Printing, padded to a width.\<close>

lemma show_nat_not_Nil [simp]: "show_nat n \<noteq> []"
  by (subst show_nat.simps) simp

lemma show_nat_all_digits [simp]: "list_all is_digit (show_nat n)"
  using show_nat_digits by (auto simp: list_all_iff)

lemma show_nat_length: "0 < w \<Longrightarrow> length (show_nat n) \<le> w \<longleftrightarrow> n < 10 ^ w"
proof (induction n arbitrary: w rule: show_nat.induct)
  case (1 n)
  show ?case
  proof (cases "n < 10")
    case True
    then have "n < 10 ^ w" using "1.prems" by (cases w) (auto intro: order.strict_trans2)
    then show ?thesis using True "1.prems" by (subst show_nat.simps) (simp add: Suc_le_eq)
  next
    case False
    have len: "length (show_nat n) = Suc (length (show_nat (n div 10)))" using False by (subst show_nat.simps) simp
    show ?thesis
    proof (cases w)
      case (Suc v)
      show ?thesis
      proof (cases "v = 0")
        case True
        then show ?thesis using len Suc False by simp
      next
        case v: False
        then show ?thesis using "1.IH" [OF False, of v] len Suc by (auto simp: div_less_iff_less_mult mult.commute)
      qed
    qed (use "1.prems" in simp)
  qed
qed

definition zero_padded :: "nat \<Rightarrow> nat \<Rightarrow> string" where
  "zero_padded w n = replicate (w - length (show_nat n)) (CHR ''0'') @ show_nat n"

lemma zero_digit [simp]: "is_digit (CHR ''0'')"
  by (simp add: is_digit_def)

lemma zero_padded_facts [simp]:
  "list_all is_digit (zero_padded w n)" "read_nat (zero_padded w n) = n"
  by (simp_all add: zero_padded_def) (simp add: list_all_length)

lemma length_zero_padded [simp]: "0 < w \<Longrightarrow> n < 10 ^ w \<Longrightarrow> length (zero_padded w n) = w"
  using show_nat_length [of w n] by (simp add: zero_padded_def)

lemma zero_padded_read: "0 < w \<Longrightarrow> length s = w \<Longrightarrow> list_all is_digit s \<Longrightarrow> zero_padded w (read_nat s) = s"
  using read_nat_bound [of s] read_nat_inject [of "zero_padded w (read_nat s)" s] length_zero_padded [of w "read_nat s"] by simp

end
