(* ===== verification/Voucher_Facts.thy ===== *)
theory Voucher_Facts
  imports Voucher_Guards Digits
begin

text \<open>
  The facts a derivation is fed: the pure part of \<open>accountsModule/vouchers/voucher-facts.ts\<close>, the
  cheque book of \<open>cheque-book.helper.ts\<close> and the type rules of \<open>types/vouchers-api.types.ts\<close>. The
  queries that load the facts are not modelled.
\<close>

section \<open>Records\<close>

record company_facts =
  co_companyId :: string
  co_name :: string
  co_stateCode :: string
  co_gstin :: "string option"
  co_einvoiceApplicable :: bool

record ledger_facts =
  lf_ledId :: string
  lf_name :: string
  lf_isActive :: bool
  lf_isDeleted :: bool
  lf_groupId :: string
  lf_groupName :: string
  lf_groupPath :: "string list"
  lf_groupNames :: "string list"
  lf_isParty :: bool
  lf_isBillByBill :: bool
  lf_taxId :: "string option"
  lf_itcEligibility :: "string option"
  lf_isTdsApplicable :: bool
  lf_tdsSection :: "string option"
  lf_tdsDeducteeType :: "string option"
  lf_pan :: "string option"
  lf_gstin :: "string option"
  lf_gstType :: "string option"
  lf_stateCode :: "string option"
  lf_stateName :: "string option"
  lf_addr1 :: "string option"
  lf_addr2 :: "string option"
  lf_addr3 :: "string option"
  lf_city :: "string option"
  lf_pin :: "string option"

record tax_rate_facts =
  tr_taxId :: string
  tr_name :: string
  tr_ratePerc :: rat
  tr_cgstPerc :: rat
  tr_sgstPerc :: rat
  tr_igstPerc :: rat
  tr_cessPerc :: rat
  tr_cessBasis :: string
  tr_taxability :: string
  tr_isReverseCharge :: bool
  tr_isActive :: bool

record tds_rate_facts =
  td_section :: string
  td_sectionName :: string
  td_deducteeType :: string
  td_rate :: rat
  td_noPanRate :: rat
  td_thresholdSingle :: rat
  td_thresholdAnnual :: rat

record bill_facts =
  bf_ablId :: string
  bf_ablAccYear :: string
  bf_partyId :: string
  bf_billType :: string
  bf_docRefno :: string
  bf_docDate :: int
  bf_side :: DrCr
  bf_billAmount :: rat
  bf_pendingAmount :: rat
  bf_isDeleted :: bool
  bf_isActive :: bool
  bf_companyId :: string

record tender_facts =
  tf_tndId :: string
  tf_name :: string
  tf_shortName :: string
  tf_typeId :: int
  tf_typeName :: string
  tf_isCash :: bool
  tf_needsRef :: bool
  tf_ledgerId :: string
  tf_ledgerName :: string
  tf_settlementLedgerId :: "string option"
  tf_isActive :: bool
  tf_isDeleted :: bool
  tf_companyId :: string
  tf_branchId :: "string option"
  tf_hotkey :: "string option"
  tf_displayPosition :: int

datatype book_status = ACTIVE | FINISHED | CLOSED

record cheque_book_facts =
  cb_chequeBookId :: string
  cb_companyId :: string
  cb_branchId :: "string option"
  cb_bankLedgerId :: string
  cb_bankName :: string
  cb_bookNo :: string
  cb_leafFrom :: int
  cb_leafTo :: int
  cb_nextLeaf :: int
  cb_leafWidth :: nat
  cb_format :: "string option"
  cb_status :: book_status
  cb_remarks :: "string option"
  cb_isDeleted :: bool

record resolved_role_ledger =
  rl_ledgerId :: string
  rl_ledgerName :: string

text \<open>The rules of a voucher type. \<open>partySide\<close> is \<open>None\<close> for \<open>'ANY'\<close>.\<close>

datatype party_mode = PARTY_NONE | PARTY_ONE | PARTY_MANY
datatype billwise_mode = OFF | DEMAND | RAISE | OPTIONAL
datatype gst_side = INPUT | OUTPUT
datatype tds_mode = TDS_OFF | DEDUCT

record group_ref =
  gr_groupId :: string
  gr_name :: string

record voucher_type_rules =
  vt_typeId :: int
  vt_typeCode :: string
  vt_typeName :: string
  vt_nature :: string
  vt_numberPrefix :: "string option"
  vt_menuId :: "int option"
  vt_partyMode :: party_mode
  vt_partySide :: "DrCr option"
  vt_billwiseMode :: billwise_mode
  vt_raiseBillType :: "string option"
  vt_drGroups :: "group_ref list"
  vt_crGroups :: "group_ref list"
  vt_gstRegister :: "string option"
  vt_gstSide :: "gst_side option"
  vt_tdsMode :: tds_mode
  vt_inRegister :: bool
  vt_affectsInventory :: bool
  vt_instruments :: bool

section \<open>Classifying ledgers and tenders\<close>

definition MONEY_GROUPS :: "string list" where
  "MONEY_GROUPS = [''cash-in-hand'', ''bank accounts'', ''bank od a/c'']"

definition MONEY_GROUP_IDS :: "string list" where
  "MONEY_GROUP_IDS = [''019eee86-f34b-7e18-9d7c-5bea4d593ba8'', ''019eee86-f34b-7e27-8aee-2b5930314c8a'',
     ''019eee86-f34b-7d50-af11-254d259a8440'']"

definition isBankLedger :: "ledger_facts \<Rightarrow> bool" where
  "isBankLedger l \<longleftrightarrow> list_ex (\<lambda>n. toLowerCase n = ''bank accounts'' \<or> toLowerCase n = ''bank od a/c'') (lf_groupNames l)"

definition isMoneyLedger :: "ledger_facts \<Rightarrow> bool" where
  "isMoneyLedger l \<longleftrightarrow> list_ex (\<lambda>g. g \<in> set MONEY_GROUP_IDS) (lf_groupPath l) \<or>
     list_ex (\<lambda>n. toLowerCase n \<in> set MONEY_GROUPS) (lf_groupNames l)"

definition CHEQUE_TENDER_TYPE_ID :: int where
  "CHEQUE_TENDER_TYPE_ID = 5"

definition EXCLUDED_INSTRUMENT_TYPES :: "int list" where
  "EXCLUDED_INSTRUMENT_TYPES = [7, 8, 9, 10]"

definition settlementModeForTenderType :: "int \<Rightarrow> string" where
  "settlementModeForTenderType typeId =
     (if typeId = 1 then ''CASH'' else if typeId = 2 then ''CARD'' else if typeId = 3 then ''UPI''
      else if typeId = 4 then ''WALLET'' else if typeId = CHEQUE_TENDER_TYPE_ID then ''CHEQUE''
      else if typeId = 10 then ''LOYALTY'' else if typeId = 11 then ''VOUCHER'' else ''BANK'')"

definition billKey :: "string \<Rightarrow> string \<Rightarrow> string" where
  "billKey billId accYear = billId @ ''|'' @ js_trim accYear"

definition itcClassOf :: "string option \<Rightarrow> string option" where
  "itcClassOf ledgerItc =
     (let s = toUpperCase (or_else ledgerItc []) in
      if s = ''ELIGIBLE'' then Some ''INPUTS'' else if s = ''INPUT_SERVICES'' then Some ''INPUT_SERVICES''
      else if s = ''CAPITAL_GOODS'' then Some ''CAPITAL_GOODS''
      else if s = ''INELIGIBLE_17_5'' \<or> s = ''INELIGIBLE_OTHER'' then Some ''INELIGIBLE'' else None)"

section \<open>Cheque leaves\<close>

definition formatLeaf :: "int \<Rightarrow> nat \<Rightarrow> string" where
  "formatLeaf leaf width = pad_left width (show_int leaf)"

definition leavesLeft :: "cheque_book_facts \<Rightarrow> int" where
  "leavesLeft b = max 0 (cb_leafTo b - cb_nextLeaf b + 1)"

lemma bank_is_money: "isBankLedger l \<Longrightarrow> isMoneyLedger l"
  by (auto simp: isBankLedger_def isMoneyLedger_def MONEY_GROUPS_def list_ex_iff)

lemma formatLeaf_reads: "0 \<le> leaf \<Longrightarrow> int (read_nat (formatLeaf leaf width)) = leaf"
  by (simp add: formatLeaf_def pad_left_def show_int_def)

lemma formatLeaf_inject: "0 \<le> a \<Longrightarrow> 0 \<le> b \<Longrightarrow> formatLeaf a w = formatLeaf b w' \<Longrightarrow> a = b"
  by (metis formatLeaf_reads)

end
