(* ===== verification/Js_Date.thy ===== *)
theory Js_Date
  imports Prelude
begin

text \<open>
  The dates of the sources: a \<open>Date\<close> is its number of milliseconds since 1970, and \<open>Date.parse\<close> of
  \<open>YYYY-MM-DD\<close> at midnight counts the days of the Gregorian calendar as ECMAScript does (a day of 29 to 31
  past the end of its month runs into the next month). \<open>None\<close> is the NaN of a text that is no date.
\<close>

definition DAY_MS :: int where
  "DAY_MS = 86400000"

text \<open>The last millisecond either way that a \<open>Date\<close> can hold.\<close>

definition MAX_TIME :: int where
  "MAX_TIME = 8640000000000000"

definition leap_year :: "int \<Rightarrow> bool" where
  "leap_year y \<longleftrightarrow> (4 dvd y \<and> \<not> 100 dvd y) \<or> 400 dvd y"

definition DayFromYear :: "int \<Rightarrow> int" where
  "DayFromYear y = 365 * (y - 1970) + (y - 1969) div 4 - (y - 1901) div 100 + (y - 1601) div 400"

text \<open>The days of a year before a month.\<close>

definition month_start :: "int \<Rightarrow> int \<Rightarrow> int" where
  "month_start y m = [0, 31, 59, 90, 120, 151, 181, 212, 243, 273, 304, 334] ! nat (m - 1) + (if 2 < m \<and> leap_year y then 1 else 0)"

definition day_number :: "int \<Rightarrow> int \<Rightarrow> int \<Rightarrow> int" where
  "day_number y m d = DayFromYear y + month_start y m + d - 1"

definition parse_day :: "string \<Rightarrow> int option" where
  "parse_day s = (let y = int (read_nat (take 4 s)); m = int (read_nat (take 2 (drop 5 s))); d = int (read_nat (drop 8 s)) in
     if length s = 10 \<and> list_all is_digit (take 4 s) \<and> s ! 4 = CHR ''-'' \<and> list_all is_digit (take 2 (drop 5 s)) \<and>
        s ! 7 = CHR ''-'' \<and> list_all is_digit (drop 8 s) \<and> 1 \<le> m \<and> m \<le> 12 \<and> 1 \<le> d \<and> d \<le> 31
     then Some (day_number y m d) else None)"

text \<open>\<open>Date.parse\<close> of the date at midnight in India, five and a half hours before midnight UTC.\<close>

definition ist_midnight :: "string \<Rightarrow> int option" where
  "ist_midnight s = map_option (\<lambda>n. n * DAY_MS - 19800000) (parse_day s)"

section \<open>Printing a date\<close>

text \<open>\<open>toISOString().slice(0, 10)\<close>: the day of a time, as year, month and day of the month. A year outside 0..9999
  is printed with its sign and six digits.\<close>

definition year_of :: "int \<Rightarrow> int" where
  "year_of n = (let y = 1970 + (n * 400) div 146097
     in if DayFromYear (y + 1) \<le> n then y + 1 else if n < DayFromYear y then y - 1 else y)"

definition month_of :: "int \<Rightarrow> int \<Rightarrow> int" where
  "month_of y d = int (length (filter (\<lambda>m. month_start y m \<le> d) [1, 2, 3, 4, 5, 6, 7, 8, 9, 10, 11, 12]))"

definition pad_digits :: "nat \<Rightarrow> int \<Rightarrow> string" where
  "pad_digits w n = (let s = show_nat (nat n) in replicate (w - length s) (CHR ''0'') @ s)"

definition toDateString :: "int \<Rightarrow> string" where
  "toDateString t = (let n = t div DAY_MS; y = year_of n; m = month_of y (n - DayFromYear y);
       d = n - DayFromYear y - month_start y m + 1;
       year = (if 0 \<le> y \<and> y \<le> 9999 then pad_digits 4 y else (if y < 0 then ''-'' else ''+'') @ pad_digits 6 \<bar>y\<bar>)
     in take 10 (year @ ''-'' @ pad_digits 2 m @ ''-'' @ pad_digits 2 d))"

lemma toDateString_samples: "toDateString 1772323199999 = ''2026-02-28''"
  "toDateString (-1) = ''1969-12-31''"
  by code_simp+

lemma day_number_epoch: "parse_day ''1970-01-01'' = Some 0" "parse_day ''2026-03-01'' = Some 20513"
  by (simp_all add: parse_day_def Let_def is_digit_def read_nat_def day_number_def DayFromYear_def month_start_def leap_year_def)

end
