(* ===== verification/Voucher_Lines.thy ===== *)
theory Voucher_Lines
  imports Voucher_Facts Js_Date
begin

text \<open>
  \<open>accountsModule/vouchers/voucher-derive.ts\<close>, first part: the data of a derivation, its helpers, and
  the reading of the typed lines with their guards, money-side rule and instruments. Read-only maps of the input are
  partial functions; the guard context, the map of promised cheque leaves and the arrays the code
  mutates are passed and returned. The typed legs stay a list of their own (the code keeps the
  same objects in \<open>typed\<close> and in \<open>legs\<close>), so the legs of the voucher are the typed legs followed by
  the generated ones and a later change to a typed leg shows in both.
\<close>

section \<open>Input\<close>

record cheque_details =
  cd_drawerName :: "string option"
  cd_bankBranch :: "string option"
  cd_ifsc :: "string option"
  cd_micr :: "string option"

record instrument_input =
  ii_tenderId :: string
  ii_refNo :: "string option"
  ii_instrumentDate :: "string option"
  ii_bankName :: "string option"
  ii_cheque :: "cheque_details option"
  ii_bankLedgerId :: "string option"
  ii_chequeBookId :: "string option"
  ii_favouring :: "string option"
  ii_acPayee :: "bool option"

record gst_input =
  gi_taxId :: string
  gi_hsn :: "string option"
  gi_itcEligibility :: "string option"

record typed_line_input =
  tl_rowNo :: int
  tl_drCr :: DrCr
  tl_ledgerId :: string
  tl_amount :: rat
  tl_remarks :: "string option"
  tl_gst :: "gst_input option"
  tl_tdsBase :: "bool option"
  tl_instrument :: "instrument_input option"
  tl_tenderId :: "string option"

record allocation_input =
  va_index :: int
  va_lineRowNo :: int
  va_billId :: string
  va_billAccYear :: string
  va_amount :: rat

record derive_header =
  dh_date :: string
  dh_partyId :: "string option"
  dh_posStcd :: "string option"
  dh_reverseCharge :: bool
  dh_docRefno :: "string option"

record tds_input =
  ti_rate :: "tds_rate_facts option"
  ti_annualBaseSoFar :: rat

datatype refno_clash = CLASH_INDEX | CLASH_OTHER
datatype backdate_mode = BACKDATE_OFF | BACKDATE_WARN | BACKDATE_REFUSE

record derive_input =
  di_type :: voucher_type_rules
  di_header :: derive_header
  di_lines :: "typed_line_input list"
  di_allocations :: "allocation_input list"
  di_newBill :: "int option option"
  di_company :: company_facts
  di_ledgers :: "string \<Rightarrow> ledger_facts option"
  di_instrumentLedgers :: "string \<Rightarrow> bool"
  di_generatedRoleLedgers :: "string \<Rightarrow> bool"
  di_taxRates :: "string \<Rightarrow> tax_rate_facts option"
  di_roleLedgers :: "string \<Rightarrow> resolved_role_ledger option"
  di_party :: "ledger_facts option"
  di_creditDaysByLedger :: "string \<Rightarrow> int option"
  di_tds :: "tds_input option"
  di_tdsByParty :: "string \<Rightarrow> tds_input option"
  di_bills :: "string \<Rightarrow> bill_facts option"
  di_docRefnoClash :: "refno_clash option"
  di_backdateMode :: backdate_mode
  di_allowAdvance :: "bool option"
  di_today :: string
  di_tenders :: "string \<Rightarrow> tender_facts option"
  di_registeredCheques :: "string \<Rightarrow> bool"
  di_closedYears :: "string \<Rightarrow> string option"
  di_chequeBooks :: "string \<Rightarrow> cheque_book_facts option"

section \<open>Output\<close>

datatype leg_source = SRC_TYPED | SRC_INSTRUMENT | SRC_GST | SRC_RCM | SRC_TDS | SRC_PARTY

text \<open>A leg's ledger: the facts of a typed or party ledger, or the id and name of a generated one.\<close>

datatype leg_ledger = Facts ledger_facts | Named string string

definition leg_ledId :: "leg_ledger \<Rightarrow> string" where
  "leg_ledId l = (case l of Facts f \<Rightarrow> lf_ledId f | Named i n \<Rightarrow> i)"

record internal_instrument =
  in_lineRowNo :: int
  in_tender :: tender_facts
  in_ledgerId :: string
  in_ledgerName :: string
  in_refNo :: "string option"
  in_instrumentDate :: "string option"
  in_bankName :: "string option"
  in_isCheque :: bool
  in_isPostDated :: bool
  in_postsOn :: "string option"
  in_cheque :: "cheque_details option"
  in_settlementMode :: string
  in_issued :: bool
  in_bankLedgerId :: "string option"
  in_chequeBook :: "cheque_book_facts option"
  in_nextLeaf :: "string option"
  in_favouring :: "string option"
  in_acPayee :: bool

record internal_leg =
  lg_rowNo :: int
  lg_lineRowNo :: "int option"
  lg_drCr :: DrCr
  lg_ledger :: leg_ledger
  lg_amount :: rat
  lg_generated :: bool
  lg_source :: leg_source
  lg_role :: "string option"
  lg_remarks :: "string option"
  lg_fromRows :: "int list"
  lg_gst :: "gst_input option"
  lg_isTdsBase :: bool
  lg_oppLedgerId :: "string option"
  lg_postDated :: bool
  lg_postsOn :: "string option"
  lg_instrument :: "internal_instrument option"

record internal_post_dated =
  pd_lineRowNo :: int
  pd_partyLegRowNo :: int
  pd_instrumentLegRowNo :: int
  pd_extraLegRowNos :: "int list"
  pd_party :: leg_ledger
  pd_amount :: rat
  pd_postsOn :: string
  pd_accYear :: string
  pd_instrument :: internal_instrument

datatype supply_nature = INTRA | INTER

record internal_gst_line =
  gl_rowNo :: int
  gl_lineRowNo :: int
  gl_taxableLedgerId :: string
  gl_rate :: tax_rate_facts
  gl_hsn :: "string option"
  gl_isService :: bool
  gl_itcEligibility :: "string option"
  gl_taxable :: rat
  gl_cgst :: rat
  gl_sgst :: rat
  gl_igst :: rat
  gl_cess :: rat
  gl_cgstLedgerId :: "string option"
  gl_sgstLedgerId :: "string option"
  gl_igstLedgerId :: "string option"
  gl_cessLedgerId :: "string option"

record gst_doc =
  gd_docType :: string
  gd_tranNature :: string
  gd_docFlow :: string
  gd_docSign :: int

record internal_gst =
  ig_register :: string
  ig_side :: gst_side
  ig_doc :: gst_doc
  ig_supplyNature :: supply_nature
  ig_posStcd :: string
  ig_reverseCharge :: bool
  ig_taxable :: rat
  ig_cgst :: rat
  ig_sgst :: rat
  ig_igst :: rat
  ig_cess :: rat
  ig_lines :: "internal_gst_line list"

datatype rate_source = MASTER | NO_PAN | BELOW_THRESHOLD

record internal_tds =
  it_section :: string
  it_sectionName :: string
  it_deducteeType :: string
  it_registerDeductee :: string
  it_rate :: rat
  it_rateSource :: rate_source
  it_base :: rat
  it_tax :: rat
  it_deducted :: bool
  it_reason :: "string option"
  it_fromRows :: "int list"
  it_ledgerId :: "string option"
  it_party :: ledger_facts
  it_lineRowNo :: "int option"

record internal_bill =
  ib_lineRowNo :: int
  ib_legRowNo :: int
  ib_party :: ledger_facts
  ib_billType :: string
  ib_side :: DrCr
  ib_amount :: rat
  ib_docRefno :: "string option"
  ib_dueDays :: int
  ib_dueDate :: "string option"
  ib_isAdvance :: bool

record internal_allocation =
  ia_index :: int
  ia_lineRowNo :: int
  ia_legRowNo :: int
  ia_party :: ledger_facts
  ia_bill :: bill_facts
  ia_amount :: rat
  ia_adjType :: BillAdjType
  ia_settlementMode :: string
  ia_postDated :: bool
  ia_adjDate :: string
  ia_instrumentLineRowNo :: "int option"

record derived_party =
  dp_ledger :: ledger_facts
  dp_side :: DrCr
  dp_amount :: rat
  dp_rowNo :: int

record derived_internal =
  dv_legs :: "internal_leg list"
  dv_debit :: rat
  dv_credit :: rat
  dv_difference :: rat
  dv_party :: "derived_party option"
  dv_gst :: "internal_gst option"
  dv_tds :: "internal_tds option"
  dv_tdsLines :: "internal_tds list"
  dv_bills :: "internal_bill list"
  dv_allocations :: "internal_allocation list"
  dv_postDated :: "internal_post_dated list"

section \<open>Helpers\<close>

definition round2 :: "decimal_js \<Rightarrow> rat \<Rightarrow> rat" where
  "round2 J v = d_toDP J v 2 ROUND_HALF_UP"

definition opposite :: "DrCr \<Rightarrow> DrCr" where
  "opposite side = (if side = DR then CR else DR)"

definition roleKey :: "string \<Rightarrow> string option \<Rightarrow> string option \<Rightarrow> string" where
  "roleKey role taxId supplyNature = role @ ''|'' @ or_else taxId ''*'' @ ''|'' @ or_else supplyNature ''*''"

datatype side_verdict = SIDE_OK | GROUPS | MONEY_ONLY | NO_MONEY

definition moneySideOf :: "string \<Rightarrow> DrCr option" where
  "moneySideOf nature = (if nature = ''RECEIPT'' then Some DR else if nature = ''PAYMENT'' then Some CR else None)"

definition sideGroups :: "voucher_type_rules \<Rightarrow> DrCr \<Rightarrow> group_ref list" where
  "sideGroups type side = (if side = DR then vt_drGroups type else vt_crGroups type)"

definition sideVerdict :: "voucher_type_rules \<Rightarrow> DrCr \<Rightarrow> ledger_facts \<Rightarrow> side_verdict" where
  "sideVerdict type side ledger =
     (let money = isMoneyLedger ledger;
          groups = sideGroups type side
      in case moneySideOf (vt_nature type) of
           Some moneySide \<Rightarrow>
             (if side = moneySide \<and> \<not> money then MONEY_ONLY
              else if side \<noteq> moneySide \<and> money then NO_MONEY
              else if groups \<noteq> [] \<and> \<not> list_ex (\<lambda>g. g \<in> gr_groupId ` set groups) (lf_groupPath ledger) then GROUPS
              else SIDE_OK)
         | None \<Rightarrow>
             (if groups \<noteq> [] \<and> \<not> list_ex (\<lambda>g. g \<in> gr_groupId ` set groups) (lf_groupPath ledger) then GROUPS
              else SIDE_OK))"

definition legalOnSide :: "voucher_type_rules \<Rightarrow> DrCr \<Rightarrow> ledger_facts \<Rightarrow> bool" where
  "legalOnSide type side ledger \<longleftrightarrow> sideVerdict type side ledger = SIDE_OK"

datatype derive_error = RangeError | StateError string string

text \<open>
  Dates: \<open>Date\<close> in UTC. A string that is no date, or a day past what a \<open>Date\<close> can hold, makes
  \<open>toISOString\<close> throw; a day of 29 to 31 past the end of its month runs into the next.
\<close>

definition addDays :: "string \<Rightarrow> int \<Rightarrow> derive_error + string" where
  "addDays date_iso days = (case parse_day date_iso of
     None \<Rightarrow> Inl RangeError
   | Some n \<Rightarrow> (let t = (n + days) * DAY_MS in if MAX_TIME < \<bar>t\<bar> then Inl RangeError else Inr (toDateString t)))"

text \<open>\<open>Number(s)\<close> of a slice: digits are read, an empty slice is zero, anything else is \<open>NaN\<close> (\<open>None\<close>).\<close>

definition to_number :: "string \<Rightarrow> int option" where
  "to_number s = (if list_all is_digit s then Some (int (read_nat s)) else None)"

definition accYearOfDate :: "string \<Rightarrow> string" where
  "accYearOfDate date_iso =
     (let y = to_number (take 4 date_iso); m = to_number (take 2 (drop 5 date_iso)) in
      case y of None \<Rightarrow> ''NaN-NaN''
      | Some yn \<Rightarrow> (let start = (if (case m of None \<Rightarrow> False | Some mn \<Rightarrow> 4 \<le> mn) then yn else yn - 1)
          in show_int start @ ''-'' @ show_int (start + 1)))"

definition gstDoc :: "voucher_type_rules \<Rightarrow> gst_doc" where
  "gstDoc type = (let n = vt_nature type in
     if n = ''PURCHASE'' then \<lparr> gd_docType = ''INVOICE'', gd_tranNature = ''PURCHASE'', gd_docFlow = ''INWARD'', gd_docSign = 1 \<rparr>
     else if n = ''SALES'' then \<lparr> gd_docType = ''INVOICE'', gd_tranNature = ''SALE'', gd_docFlow = ''OUTWARD'', gd_docSign = 1 \<rparr>
     else if n = ''CREDIT_NOTE'' then \<lparr> gd_docType = ''CREDIT_NOTE'', gd_tranNature = ''CREDIT_NOTE'', gd_docFlow = ''OUTWARD'', gd_docSign = - 1 \<rparr>
     else if n = ''DEBIT_NOTE'' then \<lparr> gd_docType = ''DEBIT_NOTE'', gd_tranNature = ''DEBIT_NOTE'', gd_docFlow = ''OUTWARD'', gd_docSign = 1 \<rparr>
     else \<lparr> gd_docType = ''OTHER'', gd_tranNature = ''OTHER'', gd_docFlow = ''INTERNAL'', gd_docSign = 1 \<rparr>)"

definition refuse_if :: "bool \<Rightarrow> string \<Rightarrow> string option \<Rightarrow> int option \<Rightarrow> guard_context \<Rightarrow> guard_context" where
  "refuse_if c code field line ctx = (if c then refuse code field line ctx else ctx)"

definition lineField :: "int \<Rightarrow> string \<Rightarrow> string" where
  "lineField rowNo rest = ''lines.'' @ show_int rowNo @ rest"

definition reduce_plus :: "decimal_js \<Rightarrow> rat list \<Rightarrow> rat" where
  "reduce_plus J xs = foldl (d_plus J) 0 xs"

section \<open>The money side of a line\<close>

definition CONTRA_TYPE_CODE :: string where
  "CONTRA_TYPE_CODE = ''Con''"

definition CASH_TYPE_ID :: int where
  "CASH_TYPE_ID = 1"

definition BANK_TYPE_ID :: int where
  "BANK_TYPE_ID = 6"

definition moneySideRule :: "derive_input \<Rightarrow> typed_line_input \<Rightarrow> ledger_facts \<Rightarrow> guard_context \<Rightarrow> guard_context" where
  "moneySideRule input line ledger ctx =
     (let type = di_type input;
          row = tl_rowNo line;
          isContra = vt_typeCode type = CONTRA_TYPE_CODE;
          money = isMoneyLedger ledger
      in if truthy (tl_tenderId line) \<and> \<not> isContra
         then refuse ''VCH_INSTRUMENT_NOT_ALLOWED'' (Some (lineField row ''.tenderId'')) (Some row) ctx
         else if isContra then
           (if \<not> truthy (tl_tenderId line)
            then refuse ''VCH_MONEY_LINE_NO_TENDER'' (Some (lineField row ''.tenderId'')) (Some row) ctx
            else (case di_tenders input (the (tl_tenderId line)) of
                None \<Rightarrow> refuse ''VCH_INSTRUMENT_TENDER'' (Some (lineField row ''.tenderId'')) (Some row) ctx
              | Some tender \<Rightarrow>
                  (if tf_isDeleted tender \<or> \<not> tf_isActive tender \<or> tf_companyId tender \<noteq> co_companyId (di_company input)
                   then refuse ''VCH_INSTRUMENT_TENDER'' (Some (lineField row ''.tenderId'')) (Some row) ctx
                   else refuse_if (\<not> ((tf_typeId tender = CASH_TYPE_ID \<and> money \<and> \<not> isBankLedger ledger) \<or>
                       (tf_typeId tender = BANK_TYPE_ID \<and> tf_ledgerId tender = lf_ledId ledger)))
                     ''VCH_INSTRUMENT_TENDER'' (Some (lineField row ''.tenderId'')) (Some row) ctx)))
         else if \<not> money then ctx
         else if vt_instruments type
           then refuse ''VCH_MONEY_LINE_NO_TENDER'' (Some (lineField row ''.ledgerId'')) (Some row) ctx
         else refuse ''VCH_MONEY_LEDGER_NOT_ALLOWED'' (Some (lineField row ''.ledgerId'')) (Some row) ctx)"

section \<open>Instruments\<close>

type_synonym promised = "(string \<times> int) list"  \<comment> \<open>leaves promised so far, per cheque book\<close>

definition PAYABLE_TENDER_TYPES :: "int list" where
  "PAYABLE_TENDER_TYPES = [1, 3, 5, 6]"

text \<open>The year a cheque posts in must be open: the refusal names a lock or a closure.\<close>

definition year_guard :: "derive_input \<Rightarrow> typed_line_input \<Rightarrow> string \<Rightarrow> guard_context \<Rightarrow> guard_context" where
  "year_guard input line year ctx = (case di_closedYears input year of
     None \<Rightarrow> ctx
   | Some why \<Rightarrow> refuse_if (why \<noteq> []) (if startsWith why ''locked'' then ''VCH_PERIOD_LOCKED'' else ''VCH_YEAR_CLOSED'')
       (Some (lineField (tl_rowNo line) ''.instrument.instrumentDate'')) (Some (tl_rowNo line)) ctx)"

text \<open>The bank a non-cash payment is drawn on: \<open>None\<close> when the line was refused, with the field and code.\<close>

definition issuing_bank :: "derive_input \<Rightarrow> instrument_input \<Rightarrow> ledger_facts option" where
  "issuing_bank input ins =
     (if \<not> truthy (ii_bankLedgerId ins) then None
      else (case di_ledgers input (the (ii_bankLedgerId ins)) of None \<Rightarrow> None
        | Some bank \<Rightarrow> (if isBankLedger bank \<and> lf_isActive bank \<and> \<not> lf_isDeleted bank then Some bank else None)))"

definition issuing_book :: "derive_input \<Rightarrow> instrument_input \<Rightarrow> cheque_book_facts option" where
  "issuing_book input ins =
     (if \<not> truthy (ii_chequeBookId ins) then None
      else (case di_chequeBooks input (the (ii_chequeBookId ins)) of None \<Rightarrow> None
        | Some book \<Rightarrow> (if cb_isDeleted book \<or> cb_companyId book \<noteq> co_companyId (di_company input) then None else Some book)))"

text \<open>A payment's instrument once its ledger is known: a cheque takes the next leaf of its book.\<close>

definition issue_instrument :: "derive_input \<Rightarrow> typed_line_input \<Rightarrow> instrument_input \<Rightarrow> ledger_facts \<Rightarrow> tender_facts \<Rightarrow>
    string \<Rightarrow> string \<Rightarrow> string option \<Rightarrow> guard_context \<times> promised \<Rightarrow>
    internal_instrument option \<times> guard_context \<times> promised" where
  "issue_instrument input line ins party tender ledgerId ledgerName bankLedgerId st =
     (case st of (ctx, promised) \<Rightarrow>
      let row = tl_rowNo line;
          date = dh_date (di_header input);
          isCheque = tf_typeId tender = CHEQUE_TENDER_TYPE_ID;
          instrumentDate = (if isCheque then Some (or_else (trim_or_null (ii_instrumentDate ins)) date) else None);
          isPostDated = (isCheque \<and> truthy instrumentDate \<and> str_less date (or_else instrumentDate []));
          postsOn = (if isPostDated then instrumentDate else None);
          made = (\<lambda>refNo book leaf. \<lparr> in_lineRowNo = row, in_tender = tender, in_ledgerId = ledgerId,
            in_ledgerName = ledgerName, in_refNo = refNo, in_instrumentDate = instrumentDate,
            in_bankName = (if truthy bankLedgerId then Some ledgerName else None), in_isCheque = isCheque,
            in_isPostDated = isPostDated, in_postsOn = postsOn, in_cheque = None,
            in_settlementMode = settlementModeForTenderType (tf_typeId tender), in_issued = True,
            in_bankLedgerId = bankLedgerId, in_chequeBook = book, in_nextLeaf = leaf,
            in_favouring = Some (or_else (trim_or_null (ii_favouring ins)) (lf_name party)),
            in_acPayee = (if isCheque then or_else (ii_acPayee ins) True else False) \<rparr>);
          bookField = Some (lineField row ''.instrument.chequeBookId'')
      in if \<not> isCheque then (Some (made (trim_or_null (ii_refNo ins)) None None), ctx, promised)
         else (case issuing_book input ins of
             None \<Rightarrow> (None, refuse ''VCH_BOOK_REQUIRED'' bookField (Some row) ctx, promised)
           | Some book \<Rightarrow>
               (if Some (cb_bankLedgerId book) \<noteq> bankLedgerId
                then (None, refuse ''VCH_BOOK_BANK'' bookField (Some row) ctx, promised)
                else let offset = or_else (jmap_get promised (cb_chequeBookId book)) 0;
                         leafNo = cb_nextLeaf book + offset
                     in if cb_status book \<noteq> ACTIVE \<or> cb_leafTo book < leafNo
                        then (None, refuse ''VCH_BOOK_FINISHED'' bookField (Some row) ctx, promised)
                        else let leaf = formatLeaf leafNo (cb_leafWidth book)
                             in (Some (made (Some leaf) (Some book) (Some leaf)),
                                 year_guard input line (accYearOfDate (or_else postsOn date)) ctx,
                                 jmap_set (cb_chequeBookId book) (offset + 1) promised))))"

definition readIssuedInstrument :: "derive_input \<Rightarrow> typed_line_input \<Rightarrow> instrument_input \<Rightarrow> ledger_facts \<Rightarrow>
    tender_facts \<Rightarrow> guard_context \<times> promised \<Rightarrow> internal_instrument option \<times> guard_context \<times> promised" where
  "readIssuedInstrument input line ins party tender st =
     (case st of (ctx, promised) \<Rightarrow>
      let row = tl_rowNo line;
          isCheque = tf_typeId tender = CHEQUE_TENDER_TYPE_ID
      in if tf_typeId tender \<notin> set PAYABLE_TENDER_TYPES
         then (None, refuse ''VCH_INSTRUMENT_TENDER'' (Some (lineField row ''.instrument.tenderId'')) (Some row) ctx, promised)
         else if tf_isCash tender
         then issue_instrument input line ins party tender (or_else (tf_settlementLedgerId tender) (tf_ledgerId tender))
           (tf_ledgerName tender) None st
         else (case issuing_bank input ins of
             None \<Rightarrow> (None, refuse ''VCH_BANK_REQUIRED'' (Some (lineField row ''.instrument.bankLedgerId'')) (Some row) ctx, promised)
           | Some bank \<Rightarrow>
               (if \<not> isCheque \<and> tf_needsRef tender \<and> trim_or_null (ii_refNo ins) = None
                then (None, refuse ''VCH_INSTRUMENT_TENDER'' (Some (lineField row ''.instrument.refNo'')) (Some row) ctx, promised)
                else issue_instrument input line ins party tender (lf_ledId bank) (lf_name bank) (Some (lf_ledId bank)) st)))"

text \<open>A receipt's instrument.\<close>

definition cheque_missing :: "instrument_input \<Rightarrow> string list" where
  "cheque_missing ins =
     (if trim_or_null (ii_instrumentDate ins) = None then [''instrumentDate''] else [])
     @ (if trim_or_null (ii_refNo ins) = None then [''refNo''] else [])
     @ (if trim_or_null (ii_bankName ins) = None then [''bankName''] else [])"

definition trim_cheque :: "cheque_details option \<Rightarrow> cheque_details" where
  "trim_cheque c = \<lparr> cd_drawerName = Option.bind c (\<lambda>d. trim_or_null (cd_drawerName d)),
     cd_bankBranch = Option.bind c (\<lambda>d. trim_or_null (cd_bankBranch d)),
     cd_ifsc = Option.bind c (\<lambda>d. trim_or_null (cd_ifsc d)), cd_micr = Option.bind c (\<lambda>d. trim_or_null (cd_micr d)) \<rparr>"

definition receivedInstrument :: "derive_input \<Rightarrow> typed_line_input \<Rightarrow> instrument_input \<Rightarrow> ledger_facts \<Rightarrow> tender_facts \<Rightarrow>
    guard_context \<Rightarrow> internal_instrument option \<times> guard_context" where
  "receivedInstrument input line ins ledger tender ctx =
     (let row = tl_rowNo line;
          date = dh_date (di_header input);
          refNo = trim_or_null (ii_refNo ins);
          instrumentDate = trim_or_null (ii_instrumentDate ins);
          isCheque = tf_typeId tender = CHEQUE_TENDER_TYPE_ID;
          missing = cheque_missing ins;
          isPostDated = (isCheque \<and> truthy instrumentDate \<and> str_less date (or_else instrumentDate []));
          postsOn = (if isPostDated then instrumentDate else None);
          year = accYearOfDate (or_else postsOn date);
          made = \<lparr> in_lineRowNo = row, in_tender = tender,
            in_ledgerId = or_else (tf_settlementLedgerId tender) (tf_ledgerId tender), in_ledgerName = tf_ledgerName tender,
            in_refNo = refNo, in_instrumentDate = instrumentDate, in_bankName = trim_or_null (ii_bankName ins),
            in_isCheque = isCheque, in_isPostDated = isPostDated, in_postsOn = postsOn,
            in_cheque = (if isCheque then Some (trim_cheque (ii_cheque ins)) else None),
            in_settlementMode = settlementModeForTenderType (tf_typeId tender), in_issued = False,
            in_bankLedgerId = None, in_chequeBook = None, in_nextLeaf = None, in_favouring = None, in_acPayee = False \<rparr>
      in if isCheque \<and> missing \<noteq> []
         then (None, refuse ''VCH_CHEQUE_DETAILS'' (Some (lineField row (''.instrument.'' @ hd missing))) (Some row) ctx)
         else if \<not> isCheque \<and> tf_needsRef tender \<and> refNo = None
         then (None, refuse ''VCH_INSTRUMENT_TENDER'' (Some (lineField row ''.instrument.refNo'')) (Some row) ctx)
         else if \<not> isCheque then (Some made, ctx)
         else (Some made, refuse_if (di_registeredCheques input (lf_ledId ledger @ ''|'' @ or_else refNo [] @ ''|'' @ year))
             ''VCH_CHEQUE_DETAILS'' (Some (lineField row ''.instrument.refNo'')) (Some row) (year_guard input line year ctx)))"

definition readInstrument :: "derive_input \<Rightarrow> typed_line_input \<Rightarrow> ledger_facts \<Rightarrow> guard_context \<times> promised \<Rightarrow>
    internal_instrument option \<times> guard_context \<times> promised" where
  "readInstrument input line ledger st =
     (case st of (ctx, promised) \<Rightarrow>
      let type = di_type input;
          row = tl_rowNo line;
          field = Some (lineField row ''.instrument'');
          tenderField = Some (lineField row ''.instrument.tenderId'');
          deny = (\<lambda>code f. (None, refuse code f (Some row) ctx, promised))
      in case tl_instrument line of
           None \<Rightarrow> (None, ctx, promised)
         | Some ins \<Rightarrow>
             (if \<not> vt_instruments type then deny ''VCH_INSTRUMENT_NOT_ALLOWED'' field
              else if vt_partySide type \<noteq> None \<and> Some (tl_drCr line) \<noteq> vt_partySide type
                then deny ''VCH_INSTRUMENT_NOT_ALLOWED'' field
              else (case di_tenders input (ii_tenderId ins) of
                  None \<Rightarrow> deny ''VCH_INSTRUMENT_TENDER'' tenderField
                | Some tender \<Rightarrow>
                    (if tf_isDeleted tender \<or> tf_companyId tender \<noteq> co_companyId (di_company input)
                       then deny ''VCH_INSTRUMENT_TENDER'' tenderField
                     else if \<not> tf_isActive tender then deny ''VCH_INSTRUMENT_TENDER'' tenderField
                     else if tf_typeId tender \<in> set EXCLUDED_INSTRUMENT_TYPES then deny ''VCH_INSTRUMENT_TENDER'' tenderField
                     else if vt_partySide type = Some DR then readIssuedInstrument input line ins ledger tender st
                     else (case receivedInstrument input line ins ledger tender ctx of (r, ctx') \<Rightarrow> (r, ctx', promised))))))"

section \<open>Step 3: the typed lines\<close>

type_synonym typed_state = "internal_leg list \<times> guard_context \<times> promised"

definition typed_leg :: "decimal_js \<Rightarrow> typed_line_input \<Rightarrow> ledger_facts \<Rightarrow> int \<Rightarrow> internal_instrument option \<Rightarrow> internal_leg" where
  "typed_leg J line ledger rowNo instrument =
     \<lparr> lg_rowNo = rowNo, lg_lineRowNo = Some (tl_rowNo line), lg_drCr = tl_drCr line, lg_ledger = Facts ledger,
       lg_amount = round2 J (tl_amount line), lg_generated = False, lg_source = SRC_TYPED, lg_role = None,
       lg_remarks = tl_remarks line, lg_fromRows = [], lg_gst = tl_gst line,
       lg_isTdsBase = or_else (tl_tdsBase line) (lf_isTdsApplicable ledger), lg_oppLedgerId = None,
       lg_postDated = (case instrument of None \<Rightarrow> False | Some i \<Rightarrow> in_isPostDated i),
       lg_postsOn = Option.bind instrument in_postsOn, lg_instrument = instrument \<rparr>"

text \<open>The guards of one line whose ledger was found, in the order the code raises them.\<close>

definition line_guards :: "derive_input \<Rightarrow> typed_line_input \<Rightarrow> ledger_facts \<Rightarrow> guard_context \<Rightarrow> guard_context" where
  "line_guards input line ledger ctx =
     (let type = di_type input;
          row = tl_rowNo line;
          ledgerField = Some (lineField row ''.ledgerId'');
          c1 = refuse_if (\<not> lf_isActive ledger \<or> lf_isDeleted ledger) ''VCH_LEDGER_INACTIVE'' ledgerField (Some row) ctx;
          c2 = refuse_if (sideVerdict type (tl_drCr line) ledger \<noteq> SIDE_OK) ''VCH_LEDGER_SIDE'' ledgerField (Some row) c1;
          c3 = moneySideRule input line ledger c2;
          c4 = refuse_if (di_instrumentLedgers input (lf_ledId ledger)) ''VCH_INSTRUMENT_LEDGER'' ledgerField (Some row) c3;
          c5 = refuse_if (truthy (vt_gstRegister type) \<and> di_generatedRoleLedgers input (lf_ledId ledger))
            ''VCH_GST_LEDGER_TYPED'' ledgerField (Some row) c4
      in refuse_if (\<not> truthy (vt_gstRegister type) \<and> tl_gst line \<noteq> None) ''VCH_GST_NOT_ALLOWED''
           (Some (lineField row ''.gst'')) (Some row) c5)"

definition type_line :: "decimal_js \<Rightarrow> derive_input \<Rightarrow> typed_line_input \<Rightarrow> typed_state \<Rightarrow> typed_state" where
  "type_line J input line st =
     (case st of (typed, ctx, promised) \<Rightarrow>
      let row = tl_rowNo line;
          c1 = refuse_if (tl_amount line \<le> 0) ''VCH_LINE_AMOUNT'' (Some (lineField row ''.amount'')) (Some row) ctx
      in case di_ledgers input (tl_ledgerId line) of
           None \<Rightarrow> (typed, refuse ''VCH_LEDGER_NOT_FOUND'' (Some (lineField row ''.ledgerId'')) (Some row) c1, promised)
         | Some ledger \<Rightarrow>
             (case readInstrument input line ledger (line_guards input line ledger c1, promised) of
                (instrument, c2, promised') \<Rightarrow>
                  (typed @ [typed_leg J line ledger (int (length typed) + 1) instrument], c2, promised')))"

fun type_lines :: "decimal_js \<Rightarrow> derive_input \<Rightarrow> typed_line_input list \<Rightarrow> int list \<Rightarrow> typed_state \<Rightarrow> typed_state" where
  "type_lines J input [] seenRows st = st"
| "type_lines J input (line # lines) seenRows (typed, ctx, promised) =
     (if tl_rowNo line \<in> set seenRows
      then type_lines J input lines seenRows
        (typed, refuse ''VCH_INVALID'' (Some (lineField (tl_rowNo line) [])) (Some (tl_rowNo line)) ctx, promised)
      else type_lines J input lines (tl_rowNo line # seenRows) (type_line J input line (typed, ctx, promised)))"

definition calendar_guards :: "derive_input \<Rightarrow> guard_context \<Rightarrow> guard_context" where
  "calendar_guards input ctx =
     (let header = di_header input;
          late = str_less (dh_date header) (di_today input);
          c1 = (if late \<and> di_backdateMode input \<noteq> BACKDATE_OFF then
                  (if di_backdateMode input = BACKDATE_REFUSE then refuse ''VCH_BACKDATED'' (Some ''header.date'') None ctx
                   else warn ''VCH_BACKDATED'' (Some ''header.date'') None None ctx)
                else ctx)
      in case di_docRefnoClash input of
           None \<Rightarrow> c1
         | Some CLASH_INDEX \<Rightarrow> refuse ''VCH_DUP_DOC_REFNO'' (Some ''header.docRefno'') None c1
         | Some CLASH_OTHER \<Rightarrow> warn ''VCH_DUP_DOC_REFNO'' (Some ''header.docRefno'') None None c1)"

definition read_lines :: "decimal_js \<Rightarrow> derive_input \<Rightarrow> guard_context \<times> promised \<Rightarrow> typed_state" where
  "read_lines J input st = (case st of (ctx, promised) \<Rightarrow>
     type_lines J input (sort_key tl_rowNo (di_lines input)) []
       ([], refuse_if (di_lines input = []) ''VCH_NO_LINES'' (Some ''lines'') None ctx, promised))"

section \<open>The leg of every instrument\<close>

definition instrument_leg :: "int \<Rightarrow> internal_leg \<Rightarrow> internal_instrument \<Rightarrow> internal_leg" where
  "instrument_leg rowNo leg ins =
     \<lparr> lg_rowNo = rowNo, lg_lineRowNo = None, lg_drCr = opposite (lg_drCr leg),
       lg_ledger = Named (in_ledgerId ins) (in_ledgerName ins), lg_amount = lg_amount leg, lg_generated = True,
       lg_source = SRC_INSTRUMENT, lg_role = None,
       lg_remarks = Some (if truthy (in_refNo ins) then tf_name (in_tender ins) @ '' '' @ the (in_refNo ins) else tf_name (in_tender ins)),
       lg_fromRows = [the (lg_lineRowNo leg)], lg_gst = None, lg_isTdsBase = False,
       lg_oppLedgerId = Some (leg_ledId (lg_ledger leg)), lg_postDated = in_isPostDated ins,
       lg_postsOn = in_postsOn ins, lg_instrument = Some ins \<rparr>"

fun instrument_legs :: "int \<Rightarrow> internal_leg list \<Rightarrow> internal_leg list" where
  "instrument_legs rowNo [] = []"
| "instrument_legs rowNo (leg # legs) = (case lg_instrument leg of
     None \<Rightarrow> instrument_legs rowNo legs
   | Some ins \<Rightarrow> instrument_leg rowNo leg ins # instrument_legs (rowNo + 1) legs)"

definition name_instrument :: "internal_leg \<Rightarrow> internal_leg" where
  "name_instrument leg = (case lg_instrument leg of None \<Rightarrow> leg | Some ins \<Rightarrow> leg\<lparr>lg_oppLedgerId := Some (in_ledgerId ins)\<rparr>)"

section \<open>The party\<close>

definition resolve_party :: "derive_input \<Rightarrow> guard_context \<Rightarrow> ledger_facts option \<times> DrCr option \<times> guard_context" where
  "resolve_party input ctx =
     (let type = di_type input;
          partyField = Some ''header.partyId''
      in if vt_partyMode type = PARTY_ONE then
           (if \<not> truthy (dh_partyId (di_header input)) then (None, None, refuse ''VCH_PARTY_MODE'' partyField None ctx)
            else (case di_party input of
                None \<Rightarrow> (None, None, refuse ''VCH_PARTY_NOT_FOUND'' partyField None ctx)
              | Some party \<Rightarrow>
                  (let c1 = refuse_if (\<not> lf_isActive party \<or> lf_isDeleted party) ''VCH_LEDGER_INACTIVE'' partyField None ctx
                   in case vt_partySide type of
                        None \<Rightarrow> (Some party, None, refuse ''VCH_INVALID'' (Some ''header.typeCode'') None c1)
                      | Some side \<Rightarrow> (Some party, Some side,
                          refuse_if (sideVerdict type side party \<noteq> SIDE_OK) ''VCH_LEDGER_SIDE'' partyField None c1))))
         else if truthy (dh_partyId (di_header input)) then (None, None, refuse ''VCH_PARTY_MODE'' partyField None ctx)
         else (None, None, ctx))"

end
