(* ===== verification/Voucher_Tax.thy ===== *)
theory Voucher_Tax
  imports Voucher_Lines
begin

text \<open>
  \<open>voucher-derive.ts\<close>, second part: the GST band (the rounded tax of a line, its split, the tax legs
  per ledger, reverse charge) and tax deducted at source, for one party and for many.
\<close>

section \<open>Step 4: the GST band\<close>

record gst_entry =
  ge_ledgerId :: string
  ge_name :: string
  ge_role :: string
  ge_drCr :: DrCr
  ge_amount :: rat
  ge_rows :: "int list"

record gst_state =
  gs_byLedger :: "(string \<times> gst_entry) list"
  gs_unmapped :: "string list"
  gs_ctx :: guard_context

definition nature_text :: "supply_nature \<Rightarrow> string" where
  "nature_text n = (case n of INTRA \<Rightarrow> ''INTRA'' | INTER \<Rightarrow> ''INTER'')"

definition side_text :: "DrCr \<Rightarrow> string" where
  "side_text s = (case s of DR \<Rightarrow> ''DR'' | CR \<Rightarrow> ''CR'')"

definition role_hit :: "derive_input \<Rightarrow> supply_nature \<Rightarrow> string \<Rightarrow> string \<Rightarrow> resolved_role_ledger option" where
  "role_hit input n role taxId =
     or_maybe (di_roleLedgers input (roleKey role (Some taxId) (Some (nature_text n))))
      (or_maybe (di_roleLedgers input (roleKey role None (Some (nature_text n))))
       (or_maybe (di_roleLedgers input (roleKey role (Some taxId) None))
        (di_roleLedgers input (roleKey role None None))))"

definition post_gst :: "decimal_js \<Rightarrow> derive_input \<Rightarrow> supply_nature \<Rightarrow> string \<Rightarrow> DrCr \<Rightarrow> rat \<Rightarrow> string \<Rightarrow> int \<Rightarrow>
    gst_state \<Rightarrow> string option \<times> gst_state" where
  "post_gst J input n role drCr amount taxId lineRowNo st =
     (if amount = 0 then (None, st)
      else (case role_hit input n role taxId of
          None \<Rightarrow> (None, if role \<in> set (gs_unmapped st) then st
            else st\<lparr>gs_unmapped := role # gs_unmapped st,
              gs_ctx := refuse ''VCH_GST_LEDGER_UNMAPPED'' (Some (lineField lineRowNo ''.gst.taxId'')) (Some lineRowNo) (gs_ctx st)\<rparr>)
        | Some led \<Rightarrow>
            (let key = rl_ledgerId led @ ''|'' @ side_text drCr;
                 entry = (case jmap_get (gs_byLedger st) key of
                    Some cur \<Rightarrow> cur\<lparr>ge_amount := d_plus J (ge_amount cur) amount, ge_rows := ge_rows cur @ [lineRowNo]\<rparr>
                  | None \<Rightarrow> \<lparr> ge_ledgerId = rl_ledgerId led, ge_name = rl_ledgerName led, ge_role = role, ge_drCr = drCr,
                      ge_amount = amount, ge_rows = [lineRowNo] \<rparr>)
             in (Some (rl_ledgerId led), st\<lparr>gs_byLedger := jmap_set key entry (gs_byLedger st)\<rparr>))))"

text \<open>The tax of one line: one rounded figure, split in two only within the state.\<close>

record line_tax =
  lt_cgst :: rat
  lt_sgst :: rat
  lt_igst :: rat
  lt_cess :: rat

definition tax_total :: "decimal_js \<Rightarrow> tax_rate_facts \<Rightarrow> rat \<Rightarrow> rat" where
  "tax_total J rate taxable = round2 J (d_div J (d_times J taxable (tr_ratePerc rate)) 100)"

definition split_tax :: "decimal_js \<Rightarrow> supply_nature \<Rightarrow> tax_rate_facts \<Rightarrow> rat \<Rightarrow> line_tax" where
  "split_tax J n rate taxable =
     (let tot = tax_total J rate taxable;
          half = round2 J (d_div J tot 2)
      in \<lparr> lt_cgst = (if n = INTER then 0 else half), lt_sgst = (if n = INTER then 0 else d_minus J tot half),
           lt_igst = (if n = INTER then tot else 0),
           lt_cess = (if tr_cessBasis rate = ''PERCENT'' \<or> tr_cessBasis rate = ''BOTH''
             then round2 J (d_div J (d_times J taxable (tr_cessPerc rate)) 100) else 0) \<rparr>)"

definition itc_class :: "derive_input \<Rightarrow> gst_input \<Rightarrow> leg_ledger \<Rightarrow> bool \<Rightarrow> string option" where
  "itc_class input g ledger isService =
     or_maybe (gi_itcEligibility g)
      (or_maybe (case ledger of Facts f \<Rightarrow> itcClassOf (lf_itcEligibility f) | Named i n \<Rightarrow> None)
       (if vt_gstSide (di_type input) = Some INPUT then Some (if isService then ''INPUT_SERVICES'' else ''INPUTS'') else None))"

type_synonym band_state = "internal_gst_line list \<times> gst_state"

definition gst_line :: "decimal_js \<Rightarrow> derive_input \<Rightarrow> supply_nature \<Rightarrow> bool \<Rightarrow> string \<Rightarrow> DrCr \<Rightarrow> DrCr \<Rightarrow> internal_leg \<Rightarrow>
    band_state \<Rightarrow> band_state" where
  "gst_line J input n rcm prefix taxSide partySide leg bst =
     (case bst of (lines, st) \<Rightarrow>
      let g = the (lg_gst leg);
          lineRowNo = the (lg_lineRowNo leg);
          taxField = Some (lineField lineRowNo ''.gst.taxId'');
          missing = (lines, st\<lparr>gs_ctx := refuse ''VCH_GST_RATE_MISSING'' taxField (Some lineRowNo) (gs_ctx st)\<rparr>)
      in case di_taxRates input (gi_taxId g) of
           None \<Rightarrow> missing
         | Some rate \<Rightarrow>
             (if \<not> tr_isActive rate then missing
              else let taxable = lg_amount leg;
                       tax = split_tax J n rate taxable;
                       isService = startsWith (js_trim (or_else (gi_hsn g) [])) ''99'';
                       itc = itc_class input g (lg_ledger leg) isService;
                       (l1, s1) = post_gst J input n (prefix @ ''CGST'') taxSide (lt_cgst tax) (gi_taxId g) lineRowNo st;
                       (l2, s2) = post_gst J input n (prefix @ ''SGST'') taxSide (lt_sgst tax) (gi_taxId g) lineRowNo s1;
                       (l3, s3) = post_gst J input n (prefix @ ''IGST'') taxSide (lt_igst tax) (gi_taxId g) lineRowNo s2;
                       (l4, s4) = post_gst J input n (prefix @ ''CESS'') taxSide (lt_cess tax) (gi_taxId g) lineRowNo s3;
                       s5 = (if rcm then
                         (let s6 = snd (post_gst J input n ''RCM_CGST_PAYABLE'' partySide (lt_cgst tax) (gi_taxId g) lineRowNo s4);
                              s7 = snd (post_gst J input n ''RCM_SGST_PAYABLE'' partySide (lt_sgst tax) (gi_taxId g) lineRowNo s6);
                              s8 = snd (post_gst J input n ''RCM_IGST_PAYABLE'' partySide (lt_igst tax) (gi_taxId g) lineRowNo s7)
                          in s8\<lparr>gs_ctx := refuse_if (lt_cess tax \<noteq> 0) ''VCH_GST_LEDGER_UNMAPPED'' taxField (Some lineRowNo) (gs_ctx s8)\<rparr>)
                         else s4)
                   in (lines @ [\<lparr> gl_rowNo = lg_rowNo leg, gl_lineRowNo = lineRowNo,
                          gl_taxableLedgerId = leg_ledId (lg_ledger leg), gl_rate = rate, gl_hsn = trim_or_null (gi_hsn g),
                          gl_isService = isService, gl_itcEligibility = itc, gl_taxable = taxable,
                          gl_cgst = lt_cgst tax, gl_sgst = lt_sgst tax, gl_igst = lt_igst tax, gl_cess = lt_cess tax,
                          gl_cgstLedgerId = l1, gl_sgstLedgerId = l2, gl_igstLedgerId = l3, gl_cessLedgerId = l4 \<rparr>], s5)))"

definition gst_leg :: "decimal_js \<Rightarrow> int \<Rightarrow> gst_entry \<Rightarrow> internal_leg" where
  "gst_leg J rowNo e =
     (let isRcm = startsWith (ge_role e) ''RCM_'' in
      \<lparr> lg_rowNo = rowNo, lg_lineRowNo = None, lg_drCr = ge_drCr e, lg_ledger = Named (ge_ledgerId e) (ge_name e),
        lg_amount = round2 J (ge_amount e), lg_generated = True, lg_source = (if isRcm then SRC_RCM else SRC_GST),
        lg_role = Some (ge_role e),
        lg_remarks = Some (if isRcm then ''Reverse charge payable'' else ''From the GST band''),
        lg_fromRows = rev (remdups (rev (ge_rows e))), lg_gst = None, lg_isTdsBase = False, lg_oppLedgerId = None,
        lg_postDated = False, lg_postsOn = None, lg_instrument = None \<rparr>)"

fun gst_legs :: "decimal_js \<Rightarrow> int \<Rightarrow> gst_entry list \<Rightarrow> internal_leg list" where
  "gst_legs J rowNo [] = []"
| "gst_legs J rowNo (e # es) = gst_leg J rowNo e # gst_legs J (rowNo + 1) es"

definition pos_of :: "derive_input \<Rightarrow> gst_side \<Rightarrow> bool \<Rightarrow> ledger_facts option \<Rightarrow> string" where
  "pos_of input side rcm party =
     or_else (dh_posStcd (di_header input))
       (if side = OUTPUT \<and> \<not> rcm then or_else (Option.bind party lf_stateCode) (co_stateCode (di_company input))
        else co_stateCode (di_company input))"

definition gst_band :: "decimal_js \<Rightarrow> derive_input \<Rightarrow> ledger_facts option \<Rightarrow> DrCr option \<Rightarrow> internal_leg list \<Rightarrow>
    internal_leg list \<Rightarrow> guard_context \<Rightarrow> internal_gst option \<times> internal_leg list \<times> guard_context" where
  "gst_band J input party partySide typed gen ctx =
     (let type = di_type input;
          gstTyped = (if truthy (vt_gstRegister type) then filter (\<lambda>l. lg_gst l \<noteq> None) typed else [])
      in case (gstTyped, vt_gstSide type, partySide) of
           (_ # _, Some side, Some pside) \<Rightarrow>
             (let rcm = dh_reverseCharge (di_header input) \<and> side = INPUT;
                  posStcd = pos_of input side rcm party;
                  n = (if posStcd = co_stateCode (di_company input) then INTRA else INTER);
                  prefix = (if side = INPUT then ''INPUT_'' else ''OUTPUT_'');
                  (lines, st) = fold (gst_line J input n rcm prefix (opposite pside) pside) gstTyped
                    ([], \<lparr> gs_byLedger = [], gs_unmapped = [], gs_ctx = ctx \<rparr>)
              in (Some \<lparr> ig_register = the (vt_gstRegister type), ig_side = side, ig_doc = gstDoc type, ig_supplyNature = n,
                    ig_posStcd = posStcd, ig_reverseCharge = rcm, ig_taxable = reduce_plus J (map gl_taxable lines),
                    ig_cgst = reduce_plus J (map gl_cgst lines), ig_sgst = reduce_plus J (map gl_sgst lines),
                    ig_igst = reduce_plus J (map gl_igst lines), ig_cess = reduce_plus J (map gl_cess lines),
                    ig_lines = lines \<rparr>,
                  gen @ gst_legs J (int (length typed + length gen) + 1) (map snd (gs_byLedger st)), gs_ctx st))
         | _ \<Rightarrow> (None, gen, ctx))"

section \<open>Step 5: TDS\<close>

definition crossesTdsThreshold :: "rat \<Rightarrow> rat \<Rightarrow> tds_rate_facts \<Rightarrow> bool" where
  "crossesTdsThreshold base cumulative rate \<longleftrightarrow>
     (let single = td_thresholdSingle rate; annual = td_thresholdAnnual rate in
      0 < base \<and> ((single = 0 \<and> annual = 0) \<or> (0 < single \<and> single < base) \<or> (0 < annual \<and> annual < cumulative)))"

definition registerDeductee :: "string option \<Rightarrow> string" where
  "registerDeductee ledgerType =
     (if toUpperCase (js_trim (or_else ledgerType [])) = ''COMPANY'' then ''COMPANY'' else ''NON_COMPANY'')"

text \<open>The dash of the message texts, in UTF-8.\<close>

definition em_dash :: string where
  "em_dash = map char_of [226::nat, 128, 148]"

definition money_text :: "decimal_js \<Rightarrow> rat \<Rightarrow> string" where
  "money_text J v = d_toFixed J v 2"

definition threshold_text :: "decimal_js \<Rightarrow> string \<Rightarrow> tds_rate_facts \<Rightarrow> rat \<Rightarrow> string" where
  "threshold_text J section rate so_far =
     '' is within the '' @ section @ '' threshold (single '' @ money_text J (td_thresholdSingle rate) @ '', annual ''
       @ money_text J (td_thresholdAnnual rate) @ ''; '' @ money_text J so_far @ '' so far this year)''"

definition tds_percent :: "ledger_facts \<Rightarrow> tds_rate_facts \<Rightarrow> rat" where
  "tds_percent party rate = (if truthy (lf_pan party) then td_rate rate else td_noPanRate rate)"

definition tds_source :: "ledger_facts \<Rightarrow> rate_source" where
  "tds_source party = (if truthy (lf_pan party) then MASTER else NO_PAN)"

text \<open>A net figure grossed up by a percentage.\<close>

definition gross_up :: "decimal_js \<Rightarrow> rat \<Rightarrow> rat \<Rightarrow> rat" where
  "gross_up J net pct = round2 J (d_div J net (d_minus J 1 (d_div J pct 100)))"

definition tds_leg :: "int \<Rightarrow> resolved_role_ledger \<Rightarrow> rat \<Rightarrow> string \<Rightarrow> int list \<Rightarrow> bool \<Rightarrow> string option \<Rightarrow> internal_leg" where
  "tds_leg rowNo led tax remarks fromRows postDated postsOn =
     \<lparr> lg_rowNo = rowNo, lg_lineRowNo = None, lg_drCr = CR, lg_ledger = Named (rl_ledgerId led) (rl_ledgerName led),
       lg_amount = tax, lg_generated = True, lg_source = SRC_TDS, lg_role = Some ''TDS_PAYABLE'',
       lg_remarks = Some remarks, lg_fromRows = fromRows, lg_gst = None, lg_isTdsBase = False, lg_oppLedgerId = None,
       lg_postDated = postDated, lg_postsOn = postsOn, lg_instrument = None \<rparr>"

definition tds_remarks :: "decimal_js \<Rightarrow> string \<Rightarrow> rat \<Rightarrow> rat \<Rightarrow> string" where
  "tds_remarks J section pct base = ''TDS '' @ section @ '' @ '' @ d_toString J pct @ ''% on '' @ money_text J base"

definition tds_payable :: "derive_input \<Rightarrow> resolved_role_ledger option" where
  "tds_payable input = di_roleLedgers input (roleKey ''TDS_PAYABLE'' None None)"

definition trim_section :: "ledger_facts \<Rightarrow> string" where
  "trim_section party = (case lf_tdsSection party of None \<Rightarrow> [] | Some s \<Rightarrow> js_trim s)"

definition tds_record :: "decimal_js \<Rightarrow> ledger_facts \<Rightarrow> tds_rate_facts \<Rightarrow> rate_source \<Rightarrow> rat \<Rightarrow> rat \<Rightarrow> string option \<Rightarrow> int list \<Rightarrow>
    string option \<Rightarrow> int option \<Rightarrow> internal_tds" where
  "tds_record J party rate source base tax reason fromRows ledgerId lineRowNo =
     \<lparr> it_section = trim_section party, it_sectionName = td_sectionName rate,
       it_deducteeType = or_else (lf_tdsDeducteeType party) (td_deducteeType rate),
       it_registerDeductee = registerDeductee (lf_tdsDeducteeType party), it_rate = tds_percent party rate,
       it_rateSource = source, it_base = base, it_tax = tax, it_deducted = (0 < tax), it_reason = reason,
       it_fromRows = fromRows, it_ledgerId = ledgerId, it_party = party, it_lineRowNo = lineRowNo \<rparr>"

text \<open>The base and the tax: a payment types the net, so its base is the gross.\<close>

definition tds_amounts :: "decimal_js \<Rightarrow> bool \<Rightarrow> rat \<Rightarrow> rat \<Rightarrow> rat \<times> rat" where
  "tds_amounts J paymentShaped net pct =
     (if paymentShaped \<and> pct \<noteq> 0
      then (let base = gross_up J net pct in (base, d_minus J base net))
      else (net, round2 J (d_div J (d_times J net pct) 100)))"

definition tds_one :: "decimal_js \<Rightarrow> derive_input \<Rightarrow> ledger_facts option \<Rightarrow> DrCr option \<Rightarrow> internal_leg list \<Rightarrow> internal_leg list \<Rightarrow>
    guard_context \<Rightarrow> internal_tds option \<times> internal_leg list \<times> guard_context" where
  "tds_one J input partyOpt partySide typed gen ctx =
     (let type = di_type input; partyField = Some ''header.partyId'' in
      case (partyOpt, partySide) of
        (Some party, Some pside) \<Rightarrow>
          (if vt_tdsMode type \<noteq> DEDUCT \<or> \<not> lf_isTdsApplicable party then (None, gen, ctx)
           else if trim_section party = [] then (None, gen, refuse ''VCH_TDS_RATE_MISSING'' partyField None ctx)
           else (case Option.bind (di_tds input) ti_rate of
               None \<Rightarrow> (None, gen, refuse ''VCH_TDS_RATE_MISSING'' partyField None ctx)
             | Some rate \<Rightarrow>
                 (let baseLegs = filter (\<lambda>l. lg_isTdsBase l \<and> lg_drCr l = opposite pside) typed;
                      net = reduce_plus J (map lg_amount baseLegs);
                      pct = tds_percent party rate;
                      (base, tax) = tds_amounts J (vt_billwiseMode type = DEMAND \<and> pside = DR) net pct;
                      cumulative = d_plus J (ti_annualBaseSoFar (the (di_tds input))) base;
                      fromRows = map (\<lambda>l. the (lg_lineRowNo l)) baseLegs
                  in if \<not> crossesTdsThreshold base cumulative rate
                     then (Some (tds_record J party rate BELOW_THRESHOLD base 0
                             (Some (if base = 0 then ''no line counts toward the TDS base''
                                else money_text J base @ threshold_text J (trim_section party) rate cumulative)) fromRows None None),
                           gen, if base \<noteq> 0 then warn ''VCH_TDS_BELOW_THRESHOLD'' (Some ''lines'') None None ctx else ctx)
                     else (case tds_payable input of
                         None \<Rightarrow> (Some (tds_record J party rate (tds_source party) base tax None fromRows None None),
                           gen, refuse ''VCH_TDS_UNMAPPED'' (Some ''lines'') None ctx)
                       | Some led \<Rightarrow> (Some (tds_record J party rate (tds_source party) base tax None fromRows (Some (rl_ledgerId led)) None),
                           gen @ (if 0 < tax then [tds_leg (int (length typed + length gen) + 1) led tax
                             (tds_remarks J (trim_section party) pct base) fromRows False None] else []), ctx)))))
      | _ \<Rightarrow> (None, gen, ctx))"

section \<open>Step 5 (MANY): TDS per party line\<close>

definition tds_counts :: "DrCr option \<Rightarrow> internal_leg \<Rightarrow> bool" where
  "tds_counts side leg = (case lg_ledger leg of
     Facts l \<Rightarrow> (lf_isParty l \<or> lf_isBillByBill l) \<and> lf_isTdsApplicable l \<and> lg_isTdsBase leg \<and>
       (case side of None \<Rightarrow> True | Some s \<Rightarrow> lg_drCr leg = s)
   | Named i n \<Rightarrow> False)"

definition tds_groups :: "DrCr option \<Rightarrow> internal_leg list \<Rightarrow> (string \<times> internal_leg list) list" where
  "tds_groups side typed = foldl (\<lambda>m leg. jmap_set (leg_ledId (lg_ledger leg))
     (or_else (jmap_get m (leg_ledId (lg_ledger leg))) [] @ [leg]) m) [] (filter (tds_counts side) typed)"

record many_state =
  ms_typed :: "internal_leg list"
  ms_gen :: "internal_leg list"
  ms_ctx :: guard_context
  ms_lines :: "internal_tds list"
  ms_unmappedTold :: bool

definition line_gross :: "decimal_js \<Rightarrow> rat \<Rightarrow> rat \<Rightarrow> rat" where
  "line_gross J pct amount = (if pct = 0 then amount else gross_up J amount pct)"

definition gross_lines :: "decimal_js \<Rightarrow> rat \<Rightarrow> internal_leg list \<Rightarrow> internal_leg list \<Rightarrow> internal_leg list" where
  "gross_lines J pct partyLines typed = map (\<lambda>l. if lg_rowNo l \<in> lg_rowNo ` set partyLines
     then l\<lparr>lg_amount := line_gross J pct (lg_amount l)\<rparr> else l) typed"

definition tds_deduct :: "decimal_js \<Rightarrow> derive_input \<Rightarrow> ledger_facts \<Rightarrow> tds_rate_facts \<Rightarrow> internal_leg list \<Rightarrow>
    rat \<Rightarrow> rat \<Rightarrow> many_state \<Rightarrow> many_state" where
  "tds_deduct J input p rate partyLines base tax st =
     (let firstRow = the (lg_lineRowNo (hd partyLines));
          field = Some (lineField firstRow ''.ledgerId'');
          fromRows = map (\<lambda>l. the (lg_lineRowNo l)) partyLines;
          pct = tds_percent p rate;
          dated = filter lg_postDated partyLines
      in case tds_payable input of
           None \<Rightarrow> (if ms_unmappedTold st then st
             else st\<lparr>ms_unmappedTold := True, ms_ctx := refuse ''VCH_TDS_UNMAPPED'' (Some ''lines'') None (ms_ctx st)\<rparr>)
         | Some led \<Rightarrow>
             (if 0 < tax \<and> dated \<noteq> [] \<and> 1 < length partyLines
              then st\<lparr>ms_ctx := refuse ''VCH_INVALID'' field (lg_lineRowNo (hd dated)) (ms_ctx st)\<rparr>
              else let rec = tds_record J p rate (tds_source p) base tax None fromRows (Some (rl_ledgerId led)) (Some firstRow)
                in if 0 < tax
                   then st\<lparr>ms_typed := gross_lines J pct partyLines (ms_typed st),
                     ms_gen := ms_gen st @ [tds_leg (int (length (ms_typed st) + length (ms_gen st)) + 1) led tax
                       (tds_remarks J (trim_section p) pct base @ '' '' @ em_dash @ '' '' @ lf_name p) fromRows
                       (dated \<noteq> []) (case dated of [] \<Rightarrow> None | l # _ \<Rightarrow> lg_postsOn l)],
                     ms_lines := ms_lines st @ [rec]\<rparr>
                   else st\<lparr>ms_lines := ms_lines st @ [rec]\<rparr>))"

definition tds_party :: "decimal_js \<Rightarrow> derive_input \<Rightarrow> bool \<Rightarrow> ledger_facts \<Rightarrow> internal_leg list \<Rightarrow> many_state \<Rightarrow> many_state" where
  "tds_party J input paymentShaped p partyLines st =
     (let firstRow = the (lg_lineRowNo (hd partyLines));
          field = Some (lineField firstRow ''.ledgerId'');
          missing = st\<lparr>ms_ctx := refuse ''VCH_TDS_RATE_MISSING'' field (Some firstRow) (ms_ctx st)\<rparr>
      in if \<not> paymentShaped then st\<lparr>ms_ctx := refuse ''VCH_INVALID'' field (Some firstRow) (ms_ctx st)\<rparr>
         else if trim_section p = [] then missing
         else (case di_tdsByParty input (lf_ledId p) of
             None \<Rightarrow> missing
           | Some facts \<Rightarrow> (case ti_rate facts of
               None \<Rightarrow> missing
             | Some rate \<Rightarrow>
                 (let pct = tds_percent p rate;
                      grosses = map (\<lambda>l. line_gross J pct (lg_amount l)) partyLines;
                      base = reduce_plus J grosses;
                      tax = reduce_plus J (map (\<lambda>l. d_minus J (line_gross J pct (lg_amount l)) (lg_amount l)) partyLines);
                      cumulative = d_plus J (ti_annualBaseSoFar facts) base;
                      paid = reduce_plus J (map lg_amount partyLines);
                      fromRows = map (\<lambda>l. the (lg_lineRowNo l)) partyLines
                  in if \<not> crossesTdsThreshold base cumulative rate
                     then st\<lparr>ms_ctx := warn ''VCH_TDS_BELOW_THRESHOLD'' field (Some firstRow) None (ms_ctx st),
                       ms_lines := ms_lines st @ [tds_record J p rate BELOW_THRESHOLD paid 0
                         (Some (money_text J paid @ '' to '' @ lf_name p @ threshold_text J (trim_section p) rate
                           (d_plus J (ti_annualBaseSoFar facts) paid))) fromRows None (Some firstRow)]\<rparr>
                     else tds_deduct J input p rate partyLines base tax st))))"

definition tds_many :: "decimal_js \<Rightarrow> derive_input \<Rightarrow> many_state \<Rightarrow> many_state" where
  "tds_many J input st =
     (let type = di_type input; side = vt_partySide type in
      if vt_tdsMode type = DEDUCT \<and> vt_partyMode type = PARTY_MANY
      then fold (\<lambda>(k, partyLines) st'. case lg_ledger (hd partyLines) of
          Facts p \<Rightarrow> tds_party J input (vt_billwiseMode type = DEMAND \<and> side = Some DR) p partyLines st'
        | Named i n \<Rightarrow> st') (tds_groups side (ms_typed st)) st
      else st)"

end
