(* ===== verification/Voucher_Derive.thy ===== *)
theory Voucher_Derive
  imports Voucher_Tax
begin

text \<open>
  \<open>voucher-derive.ts\<close>, third part: the party leg, the balance, the bills and allocations, the
  post-dated vouchers, and \<open>derive\<close> itself.
\<close>

section \<open>Step 6: the party leg\<close>

definition side_sum :: "decimal_js \<Rightarrow> DrCr \<Rightarrow> internal_leg list \<Rightarrow> rat" where
  "side_sum J side legs = reduce_plus J (map lg_amount (filter (\<lambda>l. lg_drCr l = side) legs))"

definition party_leg :: "decimal_js \<Rightarrow> int \<Rightarrow> ledger_facts \<Rightarrow> DrCr \<Rightarrow> rat \<Rightarrow> internal_leg list \<Rightarrow> internal_leg" where
  "party_leg J rowNo party side amount typed =
     \<lparr> lg_rowNo = rowNo, lg_lineRowNo = None, lg_drCr = side, lg_ledger = Facts party, lg_amount = round2 J amount,
       lg_generated = True, lg_source = SRC_PARTY, lg_role = None, lg_remarks = Some ''Balances the voucher'',
       lg_fromRows = map (\<lambda>l. the (lg_lineRowNo l)) typed, lg_gst = None, lg_isTdsBase = False,
       lg_oppLedgerId = None, lg_postDated = False, lg_postsOn = None, lg_instrument = None \<rparr>"

definition party_step :: "decimal_js \<Rightarrow> derive_input \<Rightarrow> ledger_facts option \<Rightarrow> DrCr option \<Rightarrow> internal_leg list \<Rightarrow>
    internal_leg list \<Rightarrow> guard_context \<Rightarrow> derived_party option \<times> internal_leg list \<times> guard_context" where
  "party_step J input partyOpt partySide typed gen ctx =
     (case (partyOpt, partySide) of
        (Some party, Some side) \<Rightarrow>
          (if vt_partyMode (di_type input) \<noteq> PARTY_ONE then (None, gen, ctx)
           else let dr = side_sum J DR (typed @ gen);
                    cr = side_sum J CR (typed @ gen);
                    amount = (if side = CR then d_minus J dr cr else d_minus J cr dr);
                    rowNo = int (length typed + length gen) + 1
                in if amount \<le> 0 then (None, gen, refuse ''VCH_UNBALANCED'' (Some ''lines'') None ctx)
                   else (Some \<lparr> dp_ledger = party, dp_side = side, dp_amount = round2 J amount, dp_rowNo = rowNo \<rparr>,
                         gen @ [party_leg J rowNo party side amount typed], ctx))
      | _ \<Rightarrow> (None, gen, ctx))"

text \<open>The opposite ledger of every leg, when the voucher has exactly one party.\<close>

definition party_ids :: "derive_input \<Rightarrow> derived_party option \<Rightarrow> internal_leg list \<Rightarrow> string list" where
  "party_ids input partyLeg typed = (case partyLeg of
     Some p \<Rightarrow> [lf_ledId (dp_ledger p)]
   | None \<Rightarrow> (if vt_partyMode (di_type input) = PARTY_MANY
       then remdups (map (\<lambda>l. leg_ledId (lg_ledger l))
         (filter (\<lambda>l. case lg_ledger l of Facts f \<Rightarrow> lf_isParty f | Named i n \<Rightarrow> False) typed))
       else []))"

definition name_party :: "string list \<Rightarrow> internal_leg \<Rightarrow> internal_leg" where
  "name_party ids leg = (case ids of
     [only] \<Rightarrow> (if lg_instrument leg \<noteq> None then leg
       else leg\<lparr>lg_oppLedgerId := (if leg_ledId (lg_ledger leg) = only then None else Some only)\<rparr>)
   | _ \<Rightarrow> leg)"

section \<open>Step 10: bills and allocations\<close>

record bill_leg =
  bl_lineRowNo :: int
  bl_legRowNo :: int
  bl_ledger :: ledger_facts
  bl_side :: DrCr
  bl_amount :: rat
  bl_instrument :: "internal_instrument option"

definition bill_legs :: "derive_input \<Rightarrow> derived_party option \<Rightarrow> internal_leg list \<Rightarrow> bill_leg list" where
  "bill_legs input partyLeg typed = (case partyLeg of
     Some p \<Rightarrow> [\<lparr> bl_lineRowNo = 0, bl_legRowNo = dp_rowNo p, bl_ledger = dp_ledger p, bl_side = dp_side p,
       bl_amount = dp_amount p, bl_instrument = None \<rparr>]
   | None \<Rightarrow> (if vt_partyMode (di_type input) = PARTY_MANY
       then concat (map (\<lambda>l. case lg_ledger l of
           Facts f \<Rightarrow> (if lf_isParty f \<or> lf_isBillByBill f
             then [\<lparr> bl_lineRowNo = the (lg_lineRowNo l), bl_legRowNo = lg_rowNo l, bl_ledger = f, bl_side = lg_drCr l,
               bl_amount = lg_amount l, bl_instrument = lg_instrument l \<rparr>] else [])
         | Named i n \<Rightarrow> []) typed)
       else []))"

definition settlementModeOf :: "internal_leg list \<Rightarrow> string list \<Rightarrow> string" where
  "settlementModeOf typed partyLedgerIds =
     (let kinds = remdups (concat (map (\<lambda>l. case lg_ledger l of
          Facts f \<Rightarrow> (if lf_ledId f \<in> set partyLedgerIds \<or> \<not> isMoneyLedger f then []
            else [if list_ex (\<lambda>n. toLowerCase n = ''cash-in-hand'') (lf_groupNames f) then ''CASH'' else ''BANK''])
        | Named i n \<Rightarrow> []) typed))
      in case kinds of [] \<Rightarrow> ''VOUCHER'' | [k] \<Rightarrow> k | _ \<Rightarrow> ''MIXED'')"

record bill_state =
  bs_ctx :: guard_context
  bs_perBill :: "(string \<times> rat) list"
  bs_allocations :: "internal_allocation list"

definition allocField :: "int \<Rightarrow> string \<Rightarrow> string" where
  "allocField index rest = ''allocations.'' @ show_int index @ rest"

definition adj_type :: "voucher_type_rules \<Rightarrow> bill_leg \<Rightarrow> bill_facts \<Rightarrow> BillAdjType" where
  "adj_type type leg bill =
     (if vt_billwiseMode type = DEMAND \<or> (vt_billwiseMode type = OPTIONAL \<and> \<not> lf_isBillByBill (bl_ledger leg))
      then BillAdjType.ALLOCATION
      else if bf_billType bill = ''ADVANCE'' then BillAdjType.ADVANCE_ADJUST
      else if vt_nature type = ''JOURNAL'' then BillAdjType.TRANSFER
      else BillAdjType.NOTE_ADJUST)"

definition adj_mode :: "voucher_type_rules \<Rightarrow> bill_leg \<Rightarrow> BillAdjType \<Rightarrow> string \<Rightarrow> string" where
  "adj_mode type leg adjType moneyMode =
     (if adjType = BillAdjType.ALLOCATION
      then (if vt_billwiseMode type = DEMAND
        then (case bl_instrument leg of None \<Rightarrow> moneyMode | Some i \<Rightarrow> in_settlementMode i) else ''JOURNAL'')
      else if adjType = BillAdjType.ADVANCE_ADJUST then ''ADVANCE''
      else if adjType = BillAdjType.TRANSFER then ''JOURNAL'' else ''CREDIT_NOTE'')"

definition alloc_row :: "decimal_js \<Rightarrow> derive_input \<Rightarrow> string \<Rightarrow> allocation_input \<Rightarrow> bill_leg \<Rightarrow> bill_facts \<Rightarrow> internal_allocation" where
  "alloc_row J input moneyMode a leg bill =
     (let adjType = adj_type (di_type input) leg bill; instrument = bl_instrument leg in
      \<lparr> ia_index = va_index a, ia_lineRowNo = va_lineRowNo a, ia_legRowNo = bl_legRowNo leg, ia_party = bl_ledger leg,
        ia_bill = bill, ia_amount = round2 J (va_amount a), ia_adjType = adjType,
        ia_settlementMode = adj_mode (di_type input) leg adjType moneyMode,
        ia_postDated = (case instrument of None \<Rightarrow> False | Some i \<Rightarrow> in_isPostDated i),
        ia_adjDate = or_else (Option.bind instrument in_postsOn) (dh_date (di_header input)),
        ia_instrumentLineRowNo = (if instrument \<noteq> None then Some (bl_lineRowNo leg) else None) \<rparr>)"

definition allocate_bill :: "decimal_js \<Rightarrow> derive_input \<Rightarrow> string \<Rightarrow> bill_leg list \<Rightarrow> allocation_input \<Rightarrow> bill_state \<Rightarrow>
    derive_error + bill_state" where
  "allocate_bill J input moneyMode partyLegs a st =
     (let deny = (\<lambda>code rest. Inr (st\<lparr>bs_ctx := refuse code (Some (allocField (va_index a) rest)) None (bs_ctx st)\<rparr>))
      in case find (\<lambda>p. bl_lineRowNo p = va_lineRowNo a) partyLegs of
           None \<Rightarrow> deny ''VCH_ALLOCATION_LINE'' ''.lineRowNo''
         | Some leg \<Rightarrow>
             (if va_amount a \<le> 0 then deny ''VCH_LINE_AMOUNT'' ''.amount''
              else (case di_bills input (billKey (va_billId a) (va_billAccYear a)) of
                  None \<Rightarrow> deny ''VCH_BILL_NOT_FOUND'' ''.billId''
                | Some bill \<Rightarrow>
                    (if bf_isDeleted bill \<or> \<not> bf_isActive bill \<or> bf_companyId bill \<noteq> co_companyId (di_company input)
                       then deny ''VCH_BILL_NOT_FOUND'' ''.billId''
                     else if bf_partyId bill \<noteq> lf_ledId (bl_ledger leg) then deny ''VCH_BILL_WRONG_PARTY'' ''.billId''
                     else if bf_side bill = bl_side leg then deny ''VCH_BILL_WRONG_SIDE'' ''.billId''
                     else let key = billKey (bf_ablId bill) (bf_ablAccYear bill);
                              used = d_plus J (or_else (jmap_get (bs_perBill st) key) 0) (va_amount a);
                              over = bf_pendingAmount bill < used;
                              st' = st\<lparr>bs_ctx := refuse_if over ''VCH_BILL_OVERSPENT'' (Some (allocField (va_index a) ''.amount'')) None (bs_ctx st),
                                bs_perBill := jmap_set key used (bs_perBill st),
                                bs_allocations := bs_allocations st @ [alloc_row J input moneyMode a leg bill]\<rparr>
                          in if over \<and> \<not> gc_dryRun (bs_ctx st)
                             then Inl (StateError ''VCH_BILL_OVERSPENT'' (allocField (va_index a) ''.amount''))
                             else Inr st'))))"

fun allocate_bills :: "decimal_js \<Rightarrow> derive_input \<Rightarrow> string \<Rightarrow> bill_leg list \<Rightarrow> allocation_input list \<Rightarrow> bill_state \<Rightarrow>
    derive_error + bill_state" where
  "allocate_bills J input moneyMode partyLegs [] st = Inr st"
| "allocate_bills J input moneyMode partyLegs (a # as) st =
     e_bind (allocate_bill J input moneyMode partyLegs a st) (allocate_bills J input moneyMode partyLegs as)"

definition allocated_on :: "decimal_js \<Rightarrow> int \<Rightarrow> internal_allocation list \<Rightarrow> rat" where
  "allocated_on J lineRowNo allocations =
     reduce_plus J (map ia_amount (filter (\<lambda>x. ia_lineRowNo x = lineRowNo) allocations))"

definition advance_bill :: "decimal_js \<Rightarrow> bill_leg \<Rightarrow> rat \<Rightarrow> internal_bill" where
  "advance_bill J leg allocated =
     \<lparr> ib_lineRowNo = bl_lineRowNo leg, ib_legRowNo = bl_legRowNo leg, ib_party = bl_ledger leg, ib_billType = ''ADVANCE'',
       ib_side = bl_side leg, ib_amount = round2 J (d_minus J (bl_amount leg) allocated), ib_docRefno = None,
       ib_dueDays = 0, ib_dueDate = None, ib_isAdvance = True \<rparr>"

definition raised_bill :: "derive_input \<Rightarrow> bill_leg \<Rightarrow> string \<Rightarrow> derive_error + internal_bill" where
  "raised_bill input leg billType =
     (let dueDays = max 0 (or_else (or_maybe (Option.bind (di_newBill input) id) (di_creditDaysByLedger input (lf_ledId (bl_ledger leg)))) 0)
      in e_bind (addDays (dh_date (di_header input)) dueDays) (\<lambda>due.
        Inr \<lparr> ib_lineRowNo = bl_lineRowNo leg, ib_legRowNo = bl_legRowNo leg, ib_party = bl_ledger leg, ib_billType = billType,
          ib_side = bl_side leg, ib_amount = bl_amount leg, ib_docRefno = dh_docRefno (di_header input),
          ib_dueDays = dueDays, ib_dueDate = Some due, ib_isAdvance = False \<rparr>))"

definition bill_of_leg :: "decimal_js \<Rightarrow> derive_input \<Rightarrow> internal_allocation list \<Rightarrow> bill_leg \<Rightarrow> internal_bill list \<times> guard_context \<Rightarrow>
    derive_error + internal_bill list \<times> guard_context" where
  "bill_of_leg J input allocations leg st =
     (case st of (bills, ctx) \<Rightarrow>
      let type = di_type input;
          allocated = allocated_on J (bl_lineRowNo leg) allocations;
          short = Inr (bills, refuse ''VCH_BILLWISE_SHORT'' (Some ''allocations'') None ctx);
          raise = vt_billwiseMode type = RAISE \<or> (vt_billwiseMode type = OPTIONAL \<and> lf_isBillByBill (bl_ledger leg))
      in if bl_amount leg < allocated then short
         else if vt_billwiseMode type = DEMAND then
           (if allocated = bl_amount leg then Inr (bills, ctx)
            else if di_allowAdvance input = Some False \<or> moneySideOf (vt_nature type) = None then short
            else Inr (bills @ [advance_bill J leg allocated], ctx))
         else if \<not> raise \<or> \<not> truthy (vt_raiseBillType type) then Inr (bills, ctx)
         else let billType = the (vt_raiseBillType type);
                  ctx' = refuse_if ((billType = ''PURCHASE'' \<or> billType = ''SALES'') \<and> \<not> truthy (dh_docRefno (di_header input)))
                    ''VCH_DOC_REFNO_REQUIRED'' (Some ''header.docRefno'') None ctx
              in e_bind (raised_bill input leg billType) (\<lambda>bill. Inr (bills @ [bill], ctx')))"

fun bills_of_legs :: "decimal_js \<Rightarrow> derive_input \<Rightarrow> internal_allocation list \<Rightarrow> bill_leg list \<Rightarrow> internal_bill list \<times> guard_context \<Rightarrow>
    derive_error + internal_bill list \<times> guard_context" where
  "bills_of_legs J input allocations [] st = Inr st"
| "bills_of_legs J input allocations (leg # legs) st =
     e_bind (bill_of_leg J input allocations leg st) (bills_of_legs J input allocations legs)"

definition bill_step :: "decimal_js \<Rightarrow> derive_input \<Rightarrow> derived_party option \<Rightarrow> internal_leg list \<Rightarrow> guard_context \<Rightarrow>
    derive_error + internal_bill list \<times> internal_allocation list \<times> guard_context" where
  "bill_step J input partyLeg typed ctx =
     (if vt_billwiseMode (di_type input) = OFF
      then Inr ([], [], refuse_if (di_allocations input \<noteq> []) ''VCH_ALLOCATION_LINE'' (Some ''allocations'') None ctx)
      else let partyLegs = bill_legs input partyLeg typed;
               moneyMode = settlementModeOf typed (party_ids input partyLeg typed)
           in e_bind (allocate_bills J input moneyMode partyLegs (di_allocations input)
                \<lparr> bs_ctx = ctx, bs_perBill = [], bs_allocations = [] \<rparr>) (\<lambda>st.
              e_bind (bills_of_legs J input (bs_allocations st) partyLegs ([], bs_ctx st)) (\<lambda>(bills, ctx').
                Inr (bills, bs_allocations st, ctx'))))"

section \<open>Post-dated vouchers\<close>

definition post_dated_of :: "internal_leg list \<Rightarrow> internal_leg \<Rightarrow> internal_post_dated list" where
  "post_dated_of legs leg = (case lg_instrument leg of
     None \<Rightarrow> []
   | Some ins \<Rightarrow>
       (if \<not> in_isPostDated ins \<or> \<not> truthy (in_postsOn ins) then []
        else (case find (\<lambda>x. lg_source x = SRC_INSTRUMENT \<and> lg_fromRows x \<noteq> [] \<and> Some (hd (lg_fromRows x)) = lg_lineRowNo leg) legs of
            None \<Rightarrow> []
          | Some drLeg \<Rightarrow>
              [\<lparr> pd_lineRowNo = the (lg_lineRowNo leg), pd_partyLegRowNo = lg_rowNo leg, pd_instrumentLegRowNo = lg_rowNo drLeg,
                 pd_extraLegRowNos = map lg_rowNo (filter (\<lambda>x. lg_source x = SRC_TDS \<and> lg_postDated x \<and>
                   the (lg_lineRowNo leg) \<in> set (lg_fromRows x)) legs),
                 pd_party = lg_ledger leg, pd_amount = lg_amount leg, pd_postsOn = the (in_postsOn ins),
                 pd_accYear = accYearOfDate (the (in_postsOn ins)), pd_instrument = ins \<rparr>])))"

section \<open>The derivation\<close>

text \<open>
  Steps 3 to 7: the lines, the instrument legs, the party, the taxes, the party leg and the balance.
  \<open>leg_state\<close> is what they hand to the bills: the typed and the generated legs, the party, the taxes.
\<close>

record leg_state =
  ls_typed :: "internal_leg list"
  ls_gen :: "internal_leg list"
  ls_party :: "derived_party option"
  ls_gst :: "internal_gst option"
  ls_tds :: "internal_tds option"
  ls_tdsLines :: "internal_tds list"
  ls_ctx :: guard_context
  ls_promised :: promised

definition derive_legs :: "decimal_js \<Rightarrow> derive_input \<Rightarrow> guard_context \<Rightarrow> promised \<Rightarrow> leg_state" where
  "derive_legs J input ctx0 promised0 =
     (let (typed0, c1, promised) = read_lines J input (calendar_guards input ctx0, promised0);
          gen0 = instrument_legs (int (length typed0) + 1) typed0;
          typed1 = map name_instrument typed0;
          (party, partySide, c2) = resolve_party input c1;
          (gst, gen1, c3) = gst_band J input party partySide typed1 gen0 c2;
          (tds, gen2, c4) = tds_one J input party partySide typed1 gen1 c3;
          st = tds_many J input \<lparr> ms_typed = typed1, ms_gen = gen2, ms_ctx = c4,
            ms_lines = (case tds of None \<Rightarrow> [] | Some t \<Rightarrow> [t]), ms_unmappedTold = False \<rparr>;
          (partyLeg, gen4, c6) = party_step J input party partySide (ms_typed st) (ms_gen st) (ms_ctx st);
          ids = party_ids input partyLeg (ms_typed st)
      in \<lparr> ls_typed = map (name_party ids) (ms_typed st), ls_gen = map (name_party ids) gen4, ls_party = partyLeg,
           ls_gst = gst, ls_tds = tds, ls_tdsLines = ms_lines st, ls_ctx = c6, ls_promised = promised \<rparr>)"

definition today_legs :: "leg_state \<Rightarrow> internal_leg list" where
  "today_legs s = filter (\<lambda>l. \<not> lg_postDated l) (ls_typed s @ ls_gen s)"

definition balance_guards :: "decimal_js \<Rightarrow> derive_input \<Rightarrow> leg_state \<Rightarrow> rat \<Rightarrow> guard_context" where
  "balance_guards J input s difference =
     refuse_if (difference \<noteq> 0 \<and> ls_typed s \<noteq> [] \<and> vt_partyMode (di_type input) \<noteq> PARTY_ONE)
       ''VCH_UNBALANCED'' (Some ''lines'') None
       (refuse_if (today_legs s = [] \<and> ls_typed s \<noteq> []) ''VCH_NO_LINES'' (Some ''lines'') None (ls_ctx s))"

definition derive :: "decimal_js \<Rightarrow> derive_input \<Rightarrow> guard_context \<Rightarrow> promised \<Rightarrow>
    derive_error + derived_internal \<times> guard_context \<times> promised" where
  "derive J input ctx0 promised0 =
     (let s = derive_legs J input ctx0 promised0;
          debit = round2 J (side_sum J DR (today_legs s));
          credit = round2 J (side_sum J CR (today_legs s));
          difference = d_minus J debit credit;
          ctx = balance_guards J input s difference
      in e_bind (bill_step J input (ls_party s) (ls_typed s) ctx) (\<lambda>(bills, allocations, ctx').
         Inr (\<lparr> dv_legs = ls_typed s @ ls_gen s, dv_debit = debit, dv_credit = credit, dv_difference = difference,
                dv_party = ls_party s, dv_gst = ls_gst s, dv_tds = ls_tds s, dv_tdsLines = ls_tdsLines s, dv_bills = bills,
                dv_allocations = allocations,
                dv_postDated = concat (map (post_dated_of (ls_typed s @ ls_gen s)) (ls_typed s)) \<rparr>,
              ctx', ls_promised s)))"

end
