(* ===== verification/Voucher_Trail.thy ===== *)
theory Voucher_Trail
  imports Voucher_Derive
begin

text \<open>
  The shape of a derivation, and what it does to its guard context. The first part names the pieces of
  \<open>derive\<close> the later theories reason about; the second shows, inside the locale \<open>guard_relation\<close>, that
  two runs on related contexts make the same decisions and leave related contexts. The
  interpretations of the locale then give: the context is only appended to; what is derived does not
  depend on the context; a clean dry run foretells the post.
\<close>

section \<open>The pieces of a derivation\<close>

text \<open>What the band fixes before it reads its lines, and what it reports of them.\<close>

definition band_rcm :: "derive_input \<Rightarrow> gst_side \<Rightarrow> bool" where
  "band_rcm input side \<longleftrightarrow> dh_reverseCharge (di_header input) \<and> side = INPUT"

definition band_nature :: "derive_input \<Rightarrow> gst_side \<Rightarrow> ledger_facts option \<Rightarrow> supply_nature" where
  "band_nature input side party =
     (if pos_of input side (band_rcm input side) party = co_stateCode (di_company input) then INTRA else INTER)"

definition band_prefix :: "gst_side \<Rightarrow> string" where
  "band_prefix side = (if side = INPUT then ''INPUT_'' else ''OUTPUT_'')"

definition band_report :: "decimal_js \<Rightarrow> derive_input \<Rightarrow> gst_side \<Rightarrow> ledger_facts option \<Rightarrow> internal_gst_line list \<Rightarrow> internal_gst" where
  "band_report J input side party lines =
     \<lparr> ig_register = the (vt_gstRegister (di_type input)), ig_side = side, ig_doc = gstDoc (di_type input),
       ig_supplyNature = band_nature input side party, ig_posStcd = pos_of input side (band_rcm input side) party,
       ig_reverseCharge = band_rcm input side, ig_taxable = reduce_plus J (map gl_taxable lines),
       ig_cgst = reduce_plus J (map gl_cgst lines), ig_sgst = reduce_plus J (map gl_sgst lines),
       ig_igst = reduce_plus J (map gl_igst lines), ig_cess = reduce_plus J (map gl_cess lines), ig_lines = lines \<rparr>"

lemma gst_band_cases:
  obtains (off) "gst_band J input party partySide typed gen ctx = (None, gen, ctx)"
  | (on) side pside lines st where "vt_gstSide (di_type input) = Some side" and "partySide = Some pside"
      and "fold (gst_line J input (band_nature input side party) (band_rcm input side) (band_prefix side) (opposite pside) pside)
        (filter (\<lambda>l. lg_gst l \<noteq> None) typed) ([], \<lparr>gs_byLedger = [], gs_unmapped = [], gs_ctx = ctx\<rparr>) = (lines, st)"
      and "gst_band J input party partySide typed gen ctx = (Some (band_report J input side party lines),
        gen @ gst_legs J (int (length typed + length gen) + 1) (map snd (gs_byLedger st)), gs_ctx st)"
proof (cases "truthy (vt_gstRegister (di_type input)) \<and> filter (\<lambda>l. lg_gst l \<noteq> None) typed \<noteq> [] \<and>
    vt_gstSide (di_type input) \<noteq> None \<and> partySide \<noteq> None")
  case True
  then obtain l ls side pside where c: "truthy (vt_gstRegister (di_type input))"
    "filter (\<lambda>l. lg_gst l \<noteq> None) typed = l # ls" "vt_gstSide (di_type input) = Some side" "partySide = Some pside"
    by (auto simp: neq_Nil_conv)
  obtain lines st where f: "fold (gst_line J input (band_nature input side party) (band_rcm input side) (band_prefix side) (opposite pside) pside)
        (filter (\<lambda>l. lg_gst l \<noteq> None) typed) ([], \<lparr>gs_byLedger = [], gs_unmapped = [], gs_ctx = ctx\<rparr>) = (lines, st)"
    by fastforce
  have "gst_band J input party partySide typed gen ctx = (Some (band_report J input side party lines),
        gen @ gst_legs J (int (length typed + length gen) + 1) (map snd (gs_byLedger st)), gs_ctx st)"
    unfolding gst_band_def Let_def c if_True list.case option.case prod.case
    using f by (simp only: c band_rcm_def [symmetric] band_nature_def [symmetric] band_prefix_def [symmetric] band_report_def prod.case list.case if_True)
  with c f show thesis by (intro on)
next
  case False
  then have "gst_band J input party partySide typed gen ctx = (None, gen, ctx)"
    by (auto simp: gst_band_def Let_def simp del: fold.simps split: list.splits option.splits)
  then show thesis by (rule off)
qed

text \<open>
  One line of the band: the ledger a post answers with depends on the role alone, so the row reported
  is a function of the line, and its posts are a list.
\<close>

lemma fst_post_gst: "fst (post_gst J input n role side amount taxId row st) =
    (if amount = 0 then None else map_option rl_ledgerId (role_hit input n role taxId))"
  by (simp add: post_gst_def Let_def split: option.splits)

definition active_rate :: "derive_input \<Rightarrow> internal_leg \<Rightarrow> tax_rate_facts option" where
  "active_rate input leg = (case di_taxRates input (gi_taxId (the (lg_gst leg))) of
     None \<Rightarrow> None | Some rate \<Rightarrow> (if tr_isActive rate then Some rate else None))"

definition post_ledger :: "derive_input \<Rightarrow> supply_nature \<Rightarrow> internal_leg \<Rightarrow> string \<Rightarrow> rat \<Rightarrow> string option" where
  "post_ledger input n leg role amount =
     (if amount = 0 then None else map_option rl_ledgerId (role_hit input n role (gi_taxId (the (lg_gst leg)))))"

definition gst_row :: "decimal_js \<Rightarrow> derive_input \<Rightarrow> supply_nature \<Rightarrow> string \<Rightarrow> internal_leg \<Rightarrow> tax_rate_facts \<Rightarrow> internal_gst_line" where
  "gst_row J input n prefix leg rate =
     (let g = the (lg_gst leg);
          tax = split_tax J n rate (lg_amount leg);
          isService = startsWith (js_trim (or_else (gi_hsn g) [])) ''99''
      in \<lparr> gl_rowNo = lg_rowNo leg, gl_lineRowNo = the (lg_lineRowNo leg),
           gl_taxableLedgerId = leg_ledId (lg_ledger leg), gl_rate = rate, gl_hsn = trim_or_null (gi_hsn g),
           gl_isService = isService, gl_itcEligibility = itc_class input g (lg_ledger leg) isService,
           gl_taxable = lg_amount leg, gl_cgst = lt_cgst tax, gl_sgst = lt_sgst tax, gl_igst = lt_igst tax,
           gl_cess = lt_cess tax, gl_cgstLedgerId = post_ledger input n leg (prefix @ ''CGST'') (lt_cgst tax),
           gl_sgstLedgerId = post_ledger input n leg (prefix @ ''SGST'') (lt_sgst tax),
           gl_igstLedgerId = post_ledger input n leg (prefix @ ''IGST'') (lt_igst tax),
           gl_cessLedgerId = post_ledger input n leg (prefix @ ''CESS'') (lt_cess tax) \<rparr>)"

type_synonym gst_post = "string \<times> DrCr \<times> rat"

definition line_posts :: "bool \<Rightarrow> string \<Rightarrow> DrCr \<Rightarrow> DrCr \<Rightarrow> line_tax \<Rightarrow> gst_post list" where
  "line_posts rcm prefix taxSide partySide tax =
     [(prefix @ ''CGST'', taxSide, lt_cgst tax), (prefix @ ''SGST'', taxSide, lt_sgst tax),
      (prefix @ ''IGST'', taxSide, lt_igst tax), (prefix @ ''CESS'', taxSide, lt_cess tax)]
     @ (if rcm then [(''RCM_CGST_PAYABLE'', partySide, lt_cgst tax), (''RCM_SGST_PAYABLE'', partySide, lt_sgst tax),
          (''RCM_IGST_PAYABLE'', partySide, lt_igst tax)] else [])"

definition do_post :: "decimal_js \<Rightarrow> derive_input \<Rightarrow> supply_nature \<Rightarrow> internal_leg \<Rightarrow> gst_post \<Rightarrow> gst_state \<Rightarrow> gst_state" where
  "do_post J input n leg p st =
     snd (post_gst J input n (fst p) (fst (snd p)) (snd (snd p)) (gi_taxId (the (lg_gst leg))) (the (lg_lineRowNo leg)) st)"

definition tax_field :: "internal_leg \<Rightarrow> string option" where
  "tax_field leg = Some (lineField (the (lg_lineRowNo leg)) ''.gst.taxId'')"

definition rcm_cess :: "bool \<Rightarrow> internal_leg \<Rightarrow> line_tax \<Rightarrow> gst_state \<Rightarrow> gst_state" where
  "rcm_cess rcm leg tax st = st\<lparr>gs_ctx := refuse_if (rcm \<and> lt_cess tax \<noteq> 0) ''VCH_GST_LEDGER_UNMAPPED''
     (tax_field leg) (Some (the (lg_lineRowNo leg))) (gs_ctx st)\<rparr>"

lemma gst_line_eq:
  "gst_line J input n rcm prefix ts ps leg (lines, st) = (case active_rate input leg of
     None \<Rightarrow> (lines, st\<lparr>gs_ctx := refuse ''VCH_GST_RATE_MISSING'' (tax_field leg) (Some (the (lg_lineRowNo leg))) (gs_ctx st)\<rparr>)
   | Some rate \<Rightarrow> (let tax = split_tax J n rate (lg_amount leg) in
       (lines @ [gst_row J input n prefix leg rate],
        rcm_cess rcm leg tax (fold (do_post J input n leg) (line_posts rcm prefix ts ps tax) st))))"
proof (cases "di_taxRates input (gi_taxId (the (lg_gst leg)))")
  case (Some rate)
  have unit: "t\<lparr>gs_ctx := gs_ctx t\<rparr> = t" for t :: gst_state by simp
  show ?thesis
    unfolding gst_line_def Let_def prod.case split_def Some option.case active_rate_def
    by (cases rcm) (simp_all add: gst_row_def Let_def line_posts_def do_post_def rcm_cess_def tax_field_def fst_post_gst
      post_ledger_def refuse_if_def)
qed (simp add: gst_line_def active_rate_def tax_field_def Let_def)

text \<open>One group of lines of a party, as \<open>tds_many\<close> folds over them.\<close>

definition tds_group :: "decimal_js \<Rightarrow> derive_input \<Rightarrow> bool \<Rightarrow> string \<times> internal_leg list \<Rightarrow> many_state \<Rightarrow> many_state" where
  "tds_group J input shaped g st = (case lg_ledger (hd (snd g)) of
     Facts p \<Rightarrow> tds_party J input shaped p (snd g) st
   | Named i n \<Rightarrow> st)"

definition pays_parties :: "derive_input \<Rightarrow> bool" where
  "pays_parties input \<longleftrightarrow> vt_billwiseMode (di_type input) = DEMAND \<and> vt_partySide (di_type input) = Some DR"

lemma tds_many_eq: "tds_many J input st =
    (if vt_tdsMode (di_type input) = DEDUCT \<and> vt_partyMode (di_type input) = PARTY_MANY
     then fold (tds_group J input (pays_parties input)) (tds_groups (vt_partySide (di_type input)) (ms_typed st)) st else st)"
proof -
  have "(\<lambda>(k, partyLines) st'. case lg_ledger (hd partyLines) of
          Facts p \<Rightarrow> tds_party J input (pays_parties input) p partyLines st' | Named i n \<Rightarrow> st')
      = tds_group J input (pays_parties input)"
    by (simp add: tds_group_def fun_eq_iff split_def)
  then show ?thesis by (simp only: tds_many_def Let_def pays_parties_def [symmetric])
qed

lemma bill_step_cases [consumes 1]:
  assumes "bill_step J input partyLeg typed ctx = Inr (bills, allocs, ctx')"
  obtains (off) "vt_billwiseMode (di_type input) = OFF" and "bills = []" and "allocs = []"
      and "ctx' = refuse_if (di_allocations input \<noteq> []) ''VCH_ALLOCATION_LINE'' (Some ''allocations'') None ctx"
  | (on) st where "vt_billwiseMode (di_type input) \<noteq> OFF"
      and "allocate_bills J input (settlementModeOf typed (party_ids input partyLeg typed)) (bill_legs input partyLeg typed)
        (di_allocations input) \<lparr>bs_ctx = ctx, bs_perBill = [], bs_allocations = []\<rparr> = Inr st"
      and "allocs = bs_allocations st"
      and "bills_of_legs J input allocs (bill_legs input partyLeg typed) ([], bs_ctx st) = Inr (bills, ctx')"
proof (cases "vt_billwiseMode (di_type input) = OFF")
  case True
  with assms show ?thesis by (intro off) (auto simp: bill_step_def)
next
  case False
  with assms show ?thesis by (auto simp: bill_step_def Let_def e_bind_Inr_conv intro: on)
qed

text \<open>\<open>derive\<close> in one equation per stage, for the proofs about its result.\<close>

lemma derive_Inr:
  assumes "derive J input ctx0 pr0 = Inr (d, ctx, pr)"
  obtains s bills allocs where "s = derive_legs J input ctx0 pr0"
    "dv_legs d = ls_typed s @ ls_gen s"
    "dv_debit d = round2 J (side_sum J DR (today_legs s))" "dv_credit d = round2 J (side_sum J CR (today_legs s))"
    "dv_difference d = d_minus J (dv_debit d) (dv_credit d)"
    "bill_step J input (ls_party s) (ls_typed s) (balance_guards J input s (dv_difference d)) = Inr (bills, allocs, ctx)"
    "dv_bills d = bills" "dv_allocations d = allocs" "pr = ls_promised s" "dv_party d = ls_party s" "dv_gst d = ls_gst s"
    "dv_tds d = ls_tds s" "dv_tdsLines d = ls_tdsLines s"
    "dv_postDated d = concat (map (post_dated_of (ls_typed s @ ls_gen s)) (ls_typed s))"
  using assms by (auto simp: derive_def Let_def e_bind_Inr_conv)

section \<open>Two runs on related contexts\<close>

definition rel_mid :: "(guard_context \<Rightarrow> guard_context \<Rightarrow> bool) \<Rightarrow> 'a \<times> guard_context \<times> 'b \<Rightarrow> 'a \<times> guard_context \<times> 'b \<Rightarrow> bool" where
  "rel_mid R x y \<longleftrightarrow> fst x = fst y \<and> R (fst (snd x)) (fst (snd y)) \<and> snd (snd x) = snd (snd y)"

definition rel_last :: "(guard_context \<Rightarrow> guard_context \<Rightarrow> bool) \<Rightarrow> 'a \<times> 'b \<times> guard_context \<Rightarrow> 'a \<times> 'b \<times> guard_context \<Rightarrow> bool" where
  "rel_last R x y \<longleftrightarrow> fst x = fst y \<and> fst (snd x) = fst (snd y) \<and> R (snd (snd x)) (snd (snd y))"

definition rel_gst :: "(guard_context \<Rightarrow> guard_context \<Rightarrow> bool) \<Rightarrow> gst_state \<Rightarrow> gst_state \<Rightarrow> bool" where
  "rel_gst R s t \<longleftrightarrow> gs_byLedger s = gs_byLedger t \<and> gs_unmapped s = gs_unmapped t \<and> R (gs_ctx s) (gs_ctx t)"

definition rel_band :: "(guard_context \<Rightarrow> guard_context \<Rightarrow> bool) \<Rightarrow> band_state \<Rightarrow> band_state \<Rightarrow> bool" where
  "rel_band R s t \<longleftrightarrow> fst s = fst t \<and> rel_gst R (snd s) (snd t)"

definition rel_many :: "(guard_context \<Rightarrow> guard_context \<Rightarrow> bool) \<Rightarrow> many_state \<Rightarrow> many_state \<Rightarrow> bool" where
  "rel_many R s t \<longleftrightarrow> ms_typed s = ms_typed t \<and> ms_gen s = ms_gen t \<and> ms_lines s = ms_lines t \<and>
     ms_unmappedTold s = ms_unmappedTold t \<and> R (ms_ctx s) (ms_ctx t)"

definition rel_bills :: "(guard_context \<Rightarrow> guard_context \<Rightarrow> bool) \<Rightarrow> bill_state \<Rightarrow> bill_state \<Rightarrow> bool" where
  "rel_bills R s t \<longleftrightarrow> bs_perBill s = bs_perBill t \<and> bs_allocations s = bs_allocations t \<and> R (bs_ctx s) (bs_ctx t)"

definition rel_legs :: "(guard_context \<Rightarrow> guard_context \<Rightarrow> bool) \<Rightarrow> leg_state \<Rightarrow> leg_state \<Rightarrow> bool" where
  "rel_legs R s t \<longleftrightarrow> ls_typed s = ls_typed t \<and> ls_gen s = ls_gen t \<and> ls_party s = ls_party t \<and> ls_gst s = ls_gst t \<and>
     ls_tds s = ls_tds t \<and> ls_tdsLines s = ls_tdsLines t \<and> ls_promised s = ls_promised t \<and> R (ls_ctx s) (ls_ctx t)"

lemmas rel_defs = rel_mid_def rel_last_def rel_gst_def rel_band_def rel_many_def rel_bills_def rel_legs_def

lemma fold_rel:
  assumes "\<And>x s t. Q s t \<Longrightarrow> Q (step x s) (step x t)" and "Q s t"
  shows "Q (fold step xs s) (fold step xs t)"
  using assms(2) by (induction xs arbitrary: s t) (simp_all add: assms(1))

context guard_relation
begin

lemmas rels = rel_refuse rel_warn

lemma rel_refuse_if: "R c c' \<Longrightarrow> R (refuse_if b code field line c) (refuse_if b code field line c')"
  by (simp add: refuse_if_def rels)

lemma rel_moneySideRule: "R c c' \<Longrightarrow> R (moneySideRule input line ledger c) (moneySideRule input line ledger c')"
  by (simp add: moneySideRule_def Let_def rels rel_refuse_if split: option.splits)

lemma rel_year_guard: "R c c' \<Longrightarrow> R (year_guard input line year c) (year_guard input line year c')"
  by (simp add: year_guard_def rel_refuse_if split: option.splits)

lemma rel_issue_instrument:
  "R c c' \<Longrightarrow> rel_mid R (issue_instrument input line ins party tender l n b (c, pr))
     (issue_instrument input line ins party tender l n b (c', pr))"
  by (simp add: issue_instrument_def Let_def rel_mid_def rels rel_year_guard split: option.splits)

lemma rel_readIssued:
  "R c c' \<Longrightarrow> rel_mid R (readIssuedInstrument input line ins party tender (c, pr))
     (readIssuedInstrument input line ins party tender (c', pr))"
  using rel_issue_instrument
  by (auto simp: readIssuedInstrument_def Let_def rels rel_mid_def split: option.splits)

lemma rel_received:
  "R c c' \<Longrightarrow> fst (receivedInstrument input line ins ledger tender c) = fst (receivedInstrument input line ins ledger tender c') \<and>
     R (snd (receivedInstrument input line ins ledger tender c)) (snd (receivedInstrument input line ins ledger tender c'))"
  by (simp add: receivedInstrument_def Let_def rels rel_refuse_if rel_year_guard)

lemma rel_readInstrument:
  assumes "R c c'"
  shows "rel_mid R (readInstrument input line ledger (c, pr)) (readInstrument input line ledger (c', pr))"
  using assms rel_readIssued [OF assms, of input line] rel_received [OF assms, of input line]
  by (simp add: readInstrument_def Let_def rels rel_mid_def split_def split: option.splits)

lemma rel_line_guards: "R c c' \<Longrightarrow> R (line_guards input line ledger c) (line_guards input line ledger c')"
  by (simp add: line_guards_def Let_def rel_refuse_if rel_moneySideRule)

lemma rel_type_line:
  assumes "R c c'"
  shows "rel_mid R (type_line J input line (typed, c, pr)) (type_line J input line (typed, c', pr))"
  using rel_readInstrument [OF rel_line_guards [OF rel_refuse_if [OF assms]]] rel_refuse_if [OF assms]
  by (simp add: type_line_def Let_def rels rel_mid_def split_def split: option.splits)

lemma rel_type_lines:
  "R c c' \<Longrightarrow> rel_mid R (type_lines J input lines seen (typed, c, pr)) (type_lines J input lines seen (typed, c', pr))"
proof (induction lines arbitrary: seen typed c c' pr)
  case (Cons line lines)
  obtain t1 k1 p1 t2 k2 p2 where st: "type_line J input line (typed, c, pr) = (t1, k1, p1)"
    "type_line J input line (typed, c', pr) = (t2, k2, p2)"
    by (metis surj_pair)
  with rel_type_line [OF Cons.prems, of J input line typed pr] have "t2 = t1" "p2 = p1" "R k1 k2"
    by (simp_all add: rel_mid_def)
  with st Cons.IH Cons.prems show ?case by (simp add: rels)
qed (simp add: rel_mid_def)

lemma rel_calendar_guards: "R c c' \<Longrightarrow> R (calendar_guards input c) (calendar_guards input c')"
  by (auto simp: calendar_guards_def Let_def intro!: rels split: option.splits refno_clash.splits)

lemma rel_read_lines: "R c c' \<Longrightarrow> rel_mid R (read_lines J input (c, pr)) (read_lines J input (c', pr))"
  by (simp add: read_lines_def rel_type_lines rel_refuse_if)

lemma rel_resolve_party: "R c c' \<Longrightarrow> rel_last R (resolve_party input c) (resolve_party input c')"
  by (simp add: resolve_party_def Let_def rels rel_refuse_if rel_last_def split: option.splits)

text \<open>The taxes.\<close>

lemma rel_post_gst:
  "rel_gst R s t \<Longrightarrow> fst (post_gst J input n role side amount taxId row s) = fst (post_gst J input n role side amount taxId row t) \<and>
     rel_gst R (snd (post_gst J input n role side amount taxId row s)) (snd (post_gst J input n role side amount taxId row t))"
  by (simp add: post_gst_def Let_def rel_gst_def rels split: option.splits)

lemma rel_do_post: "rel_gst R s t \<Longrightarrow> rel_gst R (do_post J input n leg p s) (do_post J input n leg p t)"
  by (simp add: do_post_def rel_post_gst)

lemma rel_gst_line:
  assumes "rel_band R s t"
  shows "rel_band R (gst_line J input n rcm prefix ts ps leg s) (gst_line J input n rcm prefix ts ps leg t)"
proof -
  obtain lines g g' where st: "s = (lines, g)" "t = (lines, g')" and g: "rel_gst R g g'"
    using assms by (cases s; cases t) (auto simp: rel_band_def)
  have "rel_gst R (fold (do_post J input n leg) ps g) (fold (do_post J input n leg) ps g')" for ps
    by (rule fold_rel [of "rel_gst R", OF _ g], rule rel_do_post)
  then show ?thesis using g
    by (simp add: st gst_line_eq Let_def rel_band_def rcm_cess_def rel_gst_def rels rel_refuse_if split: option.splits)
qed

lemma rel_gst_band:
  assumes "R c c'"
  shows "rel_last R (gst_band J input party partySide typed gen c) (gst_band J input party partySide typed gen c')"
proof -
  let ?i = "\<lambda>c. ([], \<lparr>gs_byLedger = [], gs_unmapped = [], gs_ctx = c\<rparr>) :: band_state"
  have "rel_band R (fold (gst_line J input n rcm prefix ts ps) ls (?i c)) (fold (gst_line J input n rcm prefix ts ps) ls (?i c'))"
    for n rcm prefix ts ps ls
    by (rule fold_rel [of "rel_band R"], rule rel_gst_line) (simp_all add: rel_band_def rel_gst_def assms)
  with assms show ?thesis
    by (simp add: gst_band_def Let_def rel_last_def rel_band_def rel_gst_def split_def split: list.splits option.splits)
qed

lemma rel_tds_one:
  "R c c' \<Longrightarrow> rel_last R (tds_one J input party partySide typed gen c) (tds_one J input party partySide typed gen c')"
  by (simp add: tds_one_def Let_def rel_last_def rels split_def split: option.splits)

lemma rel_tds_deduct:
  "rel_many R s t \<Longrightarrow> rel_many R (tds_deduct J input p rate ls base tax s) (tds_deduct J input p rate ls base tax t)"
  by (auto simp: tds_deduct_def Let_def rel_many_def rels split: option.splits)

lemma rel_tds_group:
  "rel_many R s t \<Longrightarrow> rel_many R (tds_group J input shaped g s) (tds_group J input shaped g t)"
  using rel_tds_deduct [of s t]
  by (simp add: tds_group_def tds_party_def Let_def rel_many_def rels split: leg_ledger.splits option.splits)

lemma rel_tds_many:
  assumes "rel_many R s t"
  shows "rel_many R (tds_many J input s) (tds_many J input t)"
proof -
  have "rel_many R (fold (tds_group J input shaped) gs s) (fold (tds_group J input shaped) gs t)" for shaped gs
    by (rule fold_rel [of "rel_many R", OF _ assms], rule rel_tds_group)
  moreover have "ms_typed s = ms_typed t" using assms by (simp add: rel_many_def)
  ultimately show ?thesis using assms by (simp add: tds_many_eq)
qed

lemma rel_party_step:
  "R c c' \<Longrightarrow> rel_last R (party_step J input party side typed gen c) (party_step J input party side typed gen c')"
  by (simp add: party_step_def Let_def rel_last_def rels split: option.splits)

text \<open>The legs of the voucher, and its bills.\<close>

lemma rel_derive_legs:
  assumes "R c c'"
  shows "rel_legs R (derive_legs J input c pr) (derive_legs J input c' pr)"
proof -
  obtain typed k1 pr' where a: "read_lines J input (calendar_guards input c, pr) = (typed, k1, pr')"
    by (cases "read_lines J input (calendar_guards input c, pr)")
  obtain k1' where a': "read_lines J input (calendar_guards input c', pr) = (typed, k1', pr')" and "R k1 k1'"
    using rel_read_lines [OF rel_calendar_guards [OF assms], of J input input pr] a
    by (cases "read_lines J input (calendar_guards input c', pr)") (auto simp: rel_mid_def)
  define gen where "gen = instrument_legs (int (length typed) + 1) typed"
  define named where "named = map name_instrument typed"
  obtain party side k2 where b: "resolve_party input k1 = (party, side, k2)" by (cases "resolve_party input k1")
  obtain k2' where b': "resolve_party input k1' = (party, side, k2')" and "R k2 k2'"
    using rel_resolve_party [OF \<open>R k1 k1'\<close>, of input] b by (cases "resolve_party input k1'") (auto simp: rel_last_def)
  obtain gst gen1 k3 where d: "gst_band J input party side named gen k2 = (gst, gen1, k3)"
    by (cases "gst_band J input party side named gen k2")
  obtain k3' where d': "gst_band J input party side named gen k2' = (gst, gen1, k3')" and "R k3 k3'"
    using rel_gst_band [OF \<open>R k2 k2'\<close>, of J input party side named gen] d
    by (cases "gst_band J input party side named gen k2'") (auto simp: rel_last_def)
  obtain tds gen2 k4 where e: "tds_one J input party side named gen1 k3 = (tds, gen2, k4)"
    by (cases "tds_one J input party side named gen1 k3")
  obtain k4' where e': "tds_one J input party side named gen1 k3' = (tds, gen2, k4')" and "R k4 k4'"
    using rel_tds_one [OF \<open>R k3 k3'\<close>, of J input party side named gen1] e
    by (cases "tds_one J input party side named gen1 k3'") (auto simp: rel_last_def)
  define st where "st k = tds_many J input \<lparr> ms_typed = named, ms_gen = gen2, ms_ctx = k,
      ms_lines = (case tds of None \<Rightarrow> [] | Some t \<Rightarrow> [t]), ms_unmappedTold = False \<rparr>" for k
  have m: "rel_many R (st k4) (st k4')"
    unfolding st_def by (rule rel_tds_many) (simp add: rel_many_def \<open>R k4 k4'\<close>)
  then have mt: "ms_typed (st k4') = ms_typed (st k4)" "ms_gen (st k4') = ms_gen (st k4)" "ms_lines (st k4') = ms_lines (st k4)"
    and mc: "R (ms_ctx (st k4)) (ms_ctx (st k4'))" by (simp_all add: rel_many_def)
  have p: "rel_last R (party_step J input party side (ms_typed (st k4)) (ms_gen (st k4)) (ms_ctx (st k4)))
      (party_step J input party side (ms_typed (st k4)) (ms_gen (st k4)) (ms_ctx (st k4')))"
    by (rule rel_party_step [OF mc])
  show ?thesis
    unfolding derive_legs_def Let_def a a' prod.case b b' gen_def [symmetric] named_def [symmetric] d d' e e'
      st_def [symmetric] mt
    using p by (simp add: rel_legs_def rel_last_def split_def)
qed

lemma rel_balance:
  "rel_legs R s t \<Longrightarrow> R (balance_guards J input s difference) (balance_guards J input t difference)"
  by (simp add: balance_guards_def rel_legs_def rel_refuse_if today_legs_def)

lemma rel_allocate_bill:
  assumes "rel_bills R s t" and "allocate_bill J input mode legs a s = Inr s'" and "allocate_bill J input mode legs a t = Inr t'"
  shows "rel_bills R s' t'"
  using assms by (auto simp: allocate_bill_def Let_def rel_bills_def rels rel_refuse_if split: option.splits if_splits)

lemma rel_allocate_bills:
  assumes "rel_bills R s t" and "allocate_bills J input mode legs as s = Inr s'" and "allocate_bills J input mode legs as t = Inr t'"
  shows "rel_bills R s' t'"
  using assms
proof (induction as arbitrary: s t)
  case (Cons a as)
  from Cons.prems obtain s1 t1 where "allocate_bill J input mode legs a s = Inr s1" "allocate_bill J input mode legs a t = Inr t1"
    and "allocate_bills J input mode legs as s1 = Inr s'" "allocate_bills J input mode legs as t1 = Inr t'"
    by (auto simp: e_bind_Inr_conv)
  then show ?case using Cons.IH rel_allocate_bill Cons.prems(1) by blast
qed simp

lemma rel_bill_of_leg:
  assumes "fst s = fst t" and "R (snd s) (snd t)"
    and "bill_of_leg J input allocs leg s = Inr s'" and "bill_of_leg J input allocs leg t = Inr t'"
  shows "fst s' = fst t' \<and> R (snd s') (snd t')"
  using assms by (auto simp: bill_of_leg_def Let_def e_bind_Inr_conv rels rel_refuse_if split: prod.splits if_splits)

lemma rel_bills_of_legs:
  assumes "fst s = fst t" and "R (snd s) (snd t)"
    and "bills_of_legs J input allocs legs s = Inr s'" and "bills_of_legs J input allocs legs t = Inr t'"
  shows "fst s' = fst t' \<and> R (snd s') (snd t')"
  using assms
proof (induction legs arbitrary: s t)
  case (Cons leg legs)
  then obtain s1 t1 where "bill_of_leg J input allocs leg s = Inr s1" "bill_of_leg J input allocs leg t = Inr t1"
    and "bills_of_legs J input allocs legs s1 = Inr s'" "bills_of_legs J input allocs legs t1 = Inr t'"
    by (auto simp: e_bind_Inr_conv)
  then show ?case using Cons.IH rel_bill_of_leg Cons.prems(1,2) by blast
qed simp

lemma rel_bill_step:
  assumes "R c c'" and "bill_step J input party typed c = Inr (bills, allocs, k)"
    and "bill_step J input party typed c' = Inr (bills', allocs', k')"
  shows "bills = bills' \<and> allocs = allocs' \<and> R k k'"
  using assms(2)
proof (cases rule: bill_step_cases)
  case off
  with assms show ?thesis by (auto simp: bill_step_def rel_refuse_if)
next
  case (on st)
  from assms(3) on(1) obtain st' where t: "allocs' = bs_allocations st'"
    "allocate_bills J input (settlementModeOf typed (party_ids input party typed)) (bill_legs input party typed)
      (di_allocations input) \<lparr>bs_ctx = c', bs_perBill = [], bs_allocations = []\<rparr> = Inr st'"
    "bills_of_legs J input allocs' (bill_legs input party typed) ([], bs_ctx st') = Inr (bills', k')"
    by (cases rule: bill_step_cases) auto
  have r: "rel_bills R st st'"
    by (rule rel_allocate_bills [OF _ on(2) t(2)]) (simp add: rel_bills_def assms(1))
  then have "allocs = allocs'" by (simp add: on(3) t(1) rel_bills_def)
  with rel_bills_of_legs [OF _ _ on(4), of "([], bs_ctx st')"] t(3) r show ?thesis by (auto simp: rel_bills_def)
qed

lemma rel_derive:
  assumes "R c c'" and "derive J input c pr = Inr (d, k, p)" and "derive J input c' pr = Inr (d', k', p')"
  shows "d = d' \<and> p = p' \<and> R k k'"
proof -
  have l: "rel_legs R (derive_legs J input c pr) (derive_legs J input c' pr)" (is "rel_legs R ?s ?t")
    by (rule rel_derive_legs [OF assms(1)])
  then have eq: "today_legs ?s = today_legs ?t" by (simp add: rel_legs_def today_legs_def)
  from assms(2,3) show ?thesis
    using l rel_bill_step [OF rel_balance [OF l]]
    by (auto simp: derive_def Let_def e_bind_Inr_conv eq rel_legs_def)
qed

end

text \<open>What the interpretation \<open>trail\<close> says of the bills and of the whole.\<close>

lemma allocate_bills_extends:
  assumes "allocate_bills J input mode legs as s = Inr s'"
  shows "extends (bs_ctx s) (bs_ctx s')"
  using trail.rel_allocate_bills [OF _ assms assms, of "bs_ctx s"] by (simp add: rel_bills_def)

lemma bills_of_legs_extends:
  assumes "bills_of_legs J input allocs legs s = Inr s'"
  shows "extends (snd s) (snd s')"
  using trail.rel_bills_of_legs [OF _ _ assms assms, of "snd s"] by simp

lemma any_bill_step_extends: "bill_step J input party typed c = Inr (bills, allocs, k) \<Longrightarrow> extends c k"
  using trail.rel_bill_step [of c c c J input party typed bills allocs k bills allocs k] by simp

lemma derive_ctx_extends:
  assumes "derive J input c pr = Inr (d, k, p)"
  shows "extends (ls_ctx (derive_legs J input c pr)) k"
  using assms
proof (rule derive_Inr)
  fix s bills allocs
  assume "s = derive_legs J input c pr"
    and b: "bill_step J input (ls_party s) (ls_typed s) (balance_guards J input s (dv_difference d)) = Inr (bills, allocs, k)"
  moreover have "extends (ls_ctx s) (balance_guards J input s (dv_difference d))"
    using trail.rel_balance [of "ls_ctx s" s s J input "dv_difference d"] by (simp add: rel_legs_def)
  ultimately show ?thesis using any_bill_step_extends [OF b] extends_trans by blast
qed

text \<open>\<open>derive_legs\<close>, with its stages named.\<close>

lemma derive_legs_stages:
  obtains typed0 c1 pr' party side c2 gst gen1 c3 tds gen2 c4 st partyLeg gen4 c6 where
    "read_lines J input (calendar_guards input c, pr) = (typed0, c1, pr')"
    and "resolve_party input c1 = (party, side, c2)"
    and "gst_band J input party side (map name_instrument typed0) (instrument_legs (int (length typed0) + 1) typed0) c2 = (gst, gen1, c3)"
    and "tds_one J input party side (map name_instrument typed0) gen1 c3 = (tds, gen2, c4)"
    and "st = tds_many J input \<lparr> ms_typed = map name_instrument typed0, ms_gen = gen2, ms_ctx = c4,
            ms_lines = (case tds of None \<Rightarrow> [] | Some t \<Rightarrow> [t]), ms_unmappedTold = False \<rparr>"
    and "party_step J input party side (ms_typed st) (ms_gen st) (ms_ctx st) = (partyLeg, gen4, c6)"
    and "derive_legs J input c pr =
      \<lparr> ls_typed = map (name_party (party_ids input partyLeg (ms_typed st))) (ms_typed st),
        ls_gen = map (name_party (party_ids input partyLeg (ms_typed st))) gen4, ls_party = partyLeg,
        ls_gst = gst, ls_tds = tds, ls_tdsLines = ms_lines st, ls_ctx = c6, ls_promised = pr' \<rparr>"
    and "extends c c1" and "extends c1 c2" and "extends c2 c3" and "extends c3 c4" and "extends c4 (ms_ctx st)"
    and "extends (ms_ctx st) c6"
proof -
  obtain typed0 c1 pr' where a: "read_lines J input (calendar_guards input c, pr) = (typed0, c1, pr')"
    by (cases "read_lines J input (calendar_guards input c, pr)")
  obtain party side c2 where b: "resolve_party input c1 = (party, side, c2)" by (cases "resolve_party input c1")
  obtain gst gen1 c3 where d: "gst_band J input party side (map name_instrument typed0)
      (instrument_legs (int (length typed0) + 1) typed0) c2 = (gst, gen1, c3)" by (metis surj_pair)
  obtain tds gen2 c4 where e: "tds_one J input party side (map name_instrument typed0) gen1 c3 = (tds, gen2, c4)"
    by (metis surj_pair)
  define st where "st = tds_many J input \<lparr> ms_typed = map name_instrument typed0, ms_gen = gen2, ms_ctx = c4,
            ms_lines = (case tds of None \<Rightarrow> [] | Some t \<Rightarrow> [t]), ms_unmappedTold = False \<rparr>"
  obtain partyLeg gen4 c6 where f: "party_step J input party side (ms_typed st) (ms_gen st) (ms_ctx st) = (partyLeg, gen4, c6)"
    by (metis surj_pair)
  show thesis
  proof (rule that [OF a b d e st_def f])
    show "derive_legs J input c pr = \<lparr> ls_typed = map (name_party (party_ids input partyLeg (ms_typed st))) (ms_typed st),
        ls_gen = map (name_party (party_ids input partyLeg (ms_typed st))) gen4, ls_party = partyLeg,
        ls_gst = gst, ls_tds = tds, ls_tdsLines = ms_lines st, ls_ctx = c6, ls_promised = pr' \<rparr>"
      by (simp add: derive_legs_def Let_def a b d e f flip: st_def)
    show "extends c c1"
      using trail.rel_read_lines [OF trail.rel_calendar_guards [of c c c input], of J input pr] a by (simp add: rel_mid_def)
    show "extends c1 c2" using trail.rel_resolve_party [of c1 c1 c1 input] b by (simp add: rel_last_def)
    show "extends c2 c3"
      using trail.rel_gst_band [of c2 c2 c2 J input party side "map name_instrument typed0"
        "instrument_legs (int (length typed0) + 1) typed0"] d by (simp add: rel_last_def)
    show "extends c3 c4"
      using trail.rel_tds_one [of c3 c3 c3 J input party side "map name_instrument typed0" gen1] e by (simp add: rel_last_def)
    show "extends c4 (ms_ctx st)"
      using trail.rel_tds_many [of c4 "\<lparr> ms_typed = map name_instrument typed0, ms_gen = gen2, ms_ctx = c4,
            ms_lines = (case tds of None \<Rightarrow> [] | Some t \<Rightarrow> [t]), ms_unmappedTold = False \<rparr>" _ J input]
      by (simp add: st_def rel_many_def)
    show "extends (ms_ctx st) c6"
      using trail.rel_party_step [of "ms_ctx st" "ms_ctx st" "ms_ctx st" J input party side "ms_typed st" "ms_gen st"] f
      by (simp add: rel_last_def)
  qed
qed

text \<open>Nothing but an overspent bill or a bad due date stops a derivation, and the first only outside a dry run.\<close>

lemma allocate_bill_foretold:
  assumes "bs_perBill s = bs_perBill t" and "allocate_bill J input mode legs a s = Inr s'" and "gc_refusals (bs_ctx s') = []"
  shows "\<exists>t'. allocate_bill J input mode legs a t = Inr t'"
  using assms by (auto simp: allocate_bill_def Let_def refuse_if_def split: option.splits if_splits)

end
