(* ===== verification/Voucher_Samples.thy ===== *)
theory Voucher_Samples
  imports Voucher_Trail
begin

text \<open>
  Two vouchers the witnesses evaluate: a purchase on credit (one party, GST at 18% within the state,
  tax deducted at source) and a payment (two parties on the lines, one paid by a bank transfer and
  one by a post-dated cheque with tax deducted; a bill settled in part, the rest an advance).
\<close>

definition sample_ledger :: "string \<Rightarrow> string list \<Rightarrow> bool \<Rightarrow> bool \<Rightarrow> ledger_facts" where
  "sample_ledger i groups party tds = \<lparr> lf_ledId = i, lf_name = i, lf_isActive = True, lf_isDeleted = False, lf_groupId = ''g'',
     lf_groupName = ''g'', lf_groupPath = [''g''], lf_groupNames = groups, lf_isParty = party, lf_isBillByBill = party,
     lf_taxId = None, lf_itcEligibility = None, lf_isTdsApplicable = tds, lf_tdsSection = (if tds then Some ''194C'' else None),
     lf_tdsDeducteeType = Some ''COMPANY'', lf_pan = Some ''PAN'', lf_gstin = None, lf_gstType = None, lf_stateCode = Some ''33'',
     lf_stateName = None, lf_addr1 = None, lf_addr2 = None, lf_addr3 = None, lf_city = None, lf_pin = None \<rparr>"

definition sample_company :: company_facts where
  "sample_company = \<lparr> co_companyId = ''co'', co_name = ''co'', co_stateCode = ''33'', co_gstin = None, co_einvoiceApplicable = False \<rparr>"

definition sample_rate :: tax_rate_facts where
  "sample_rate = \<lparr> tr_taxId = ''t18'', tr_name = ''18'', tr_ratePerc = 18, tr_cgstPerc = 9, tr_sgstPerc = 9, tr_igstPerc = 18,
     tr_cessPerc = 0, tr_cessBasis = ''NONE'', tr_taxability = ''TAXABLE'', tr_isReverseCharge = False, tr_isActive = True \<rparr>"

definition sample_tds_rate :: tds_rate_facts where
  "sample_tds_rate = \<lparr> td_section = ''194C'', td_sectionName = ''s'', td_deducteeType = ''ANY'', td_rate = 10, td_noPanRate = 20,
     td_thresholdSingle = 100, td_thresholdAnnual = 0 \<rparr>"

definition sample_role :: "string \<Rightarrow> resolved_role_ledger option" where
  "sample_role k = (if k = ''TDS_PAYABLE|*|*'' then Some \<lparr> rl_ledgerId = ''tds'', rl_ledgerName = ''TDS'' \<rparr>
     else if k = ''INPUT_CGST|*|*'' then Some \<lparr> rl_ledgerId = ''cgst'', rl_ledgerName = ''CGST'' \<rparr>
     else if k = ''INPUT_SGST|*|*'' then Some \<lparr> rl_ledgerId = ''sgst'', rl_ledgerName = ''SGST'' \<rparr> else None)"

definition sample_ledgers :: "string \<Rightarrow> ledger_facts option" where
  "sample_ledgers i = (if i = ''exp'' then Some (sample_ledger i [''expenses''] False False)
     else if i = ''sup'' then Some (sample_ledger i [''sundry creditors''] True False)
     else if i = ''job'' then Some (sample_ledger i [''sundry creditors''] True True)
     else if i = ''bank'' then Some (sample_ledger i [''bank accounts''] False False) else None)"

definition sample_type :: "string \<Rightarrow> party_mode \<Rightarrow> DrCr \<Rightarrow> billwise_mode \<Rightarrow> bool \<Rightarrow> voucher_type_rules" where
  "sample_type nature mode side bills gst = \<lparr> vt_typeId = 1, vt_typeCode = ''T'', vt_typeName = ''T'', vt_nature = nature,
     vt_numberPrefix = None, vt_menuId = None, vt_partyMode = mode, vt_partySide = Some side, vt_billwiseMode = bills,
     vt_raiseBillType = (if gst then Some ''PURCHASE'' else None), vt_drGroups = [], vt_crGroups = [],
     vt_gstRegister = (if gst then Some ''PURCHASE'' else None), vt_gstSide = (if gst then Some INPUT else None),
     vt_tdsMode = DEDUCT, vt_inRegister = True, vt_affectsInventory = False, vt_instruments = \<not> gst \<rparr>"

definition sample_line :: "int \<Rightarrow> string \<Rightarrow> rat \<Rightarrow> gst_input option \<Rightarrow> instrument_input option \<Rightarrow> typed_line_input" where
  "sample_line row led amount gst ins = \<lparr> tl_rowNo = row, tl_drCr = DR, tl_ledgerId = led, tl_amount = amount, tl_remarks = None,
     tl_gst = gst, tl_tdsBase = (if gst = None then None else Some True), tl_instrument = ins, tl_tenderId = None \<rparr>"

definition sample_ins :: "string \<Rightarrow> instrument_input" where
  "sample_ins tender = \<lparr> ii_tenderId = tender, ii_refNo = Some ''R1'', ii_instrumentDate = (if tender = ''chq'' then Some ''2026-12-01'' else None),
     ii_bankName = None, ii_cheque = None, ii_bankLedgerId = Some ''bank'', ii_chequeBookId = (if tender = ''chq'' then Some ''bk'' else None),
     ii_favouring = None, ii_acPayee = None \<rparr>"

definition sample_tender :: "string \<Rightarrow> tender_facts option" where
  "sample_tender i = (if i = ''neft'' \<or> i = ''chq'' then Some \<lparr> tf_tndId = i, tf_name = i, tf_shortName = i,
     tf_typeId = (if i = ''chq'' then 5 else 6), tf_typeName = i, tf_isCash = False, tf_needsRef = True, tf_ledgerId = ''bank'',
     tf_ledgerName = ''bank'', tf_settlementLedgerId = None, tf_isActive = True, tf_isDeleted = False, tf_companyId = ''co'',
     tf_branchId = None, tf_hotkey = None, tf_displayPosition = 1 \<rparr> else None)"

definition sample_book :: cheque_book_facts where
  "sample_book = \<lparr> cb_chequeBookId = ''bk'', cb_companyId = ''co'', cb_branchId = None, cb_bankLedgerId = ''bank'', cb_bankName = ''bank'',
     cb_bookNo = ''1'', cb_leafFrom = 1, cb_leafTo = 50, cb_nextLeaf = 7, cb_leafWidth = 6, cb_format = None, cb_status = ACTIVE,
     cb_remarks = None, cb_isDeleted = False \<rparr>"

definition sample_open_bill :: bill_facts where
  "sample_open_bill = \<lparr> bf_ablId = ''b1'', bf_ablAccYear = ''2026-2027'', bf_partyId = ''sup'', bf_billType = ''PURCHASE'',
     bf_docRefno = ''P-1'', bf_docDate = 0, bf_side = CR, bf_billAmount = 1500, bf_pendingAmount = 1500, bf_isDeleted = False,
     bf_isActive = True, bf_companyId = ''co'' \<rparr>"

definition sample_input :: "voucher_type_rules \<Rightarrow> ledger_facts option \<Rightarrow> typed_line_input list \<Rightarrow> allocation_input list \<Rightarrow> derive_input" where
  "sample_input type party lines allocs = \<lparr> di_type = type,
     di_header = \<lparr> dh_date = ''2026-11-05'', dh_partyId = map_option lf_ledId party, dh_posStcd = None, dh_reverseCharge = False,
       dh_docRefno = Some ''INV-1'' \<rparr>,
     di_lines = lines, di_allocations = allocs, di_newBill = None, di_company = sample_company, di_ledgers = sample_ledgers,
     di_instrumentLedgers = (\<lambda>i. False), di_generatedRoleLedgers = (\<lambda>i. False),
     di_taxRates = (\<lambda>i. if i = ''t18'' then Some sample_rate else None), di_roleLedgers = sample_role, di_party = party,
     di_creditDaysByLedger = (\<lambda>i. Some 0), di_tds = Some \<lparr> ti_rate = Some sample_tds_rate, ti_annualBaseSoFar = 0 \<rparr>,
     di_tdsByParty = (\<lambda>i. Some \<lparr> ti_rate = Some sample_tds_rate, ti_annualBaseSoFar = 0 \<rparr>),
     di_bills = (\<lambda>k. if k = ''b1|2026-2027'' then Some sample_open_bill else None), di_docRefnoClash = None,
     di_backdateMode = BACKDATE_OFF, di_allowAdvance = None, di_today = ''2026-11-05'', di_tenders = sample_tender,
     di_registeredCheques = (\<lambda>k. False), di_closedYears = (\<lambda>y. None),
     di_chequeBooks = (\<lambda>i. if i = ''bk'' then Some sample_book else None) \<rparr>"

definition sample_purchase :: derive_input where
  "sample_purchase = sample_input (sample_type ''PURCHASE'' PARTY_ONE CR RAISE True) (Some (sample_ledger ''job'' [''sundry creditors''] True True))
     [sample_line 1 ''exp'' 1000 (Some \<lparr> gi_taxId = ''t18'', gi_hsn = None, gi_itcEligibility = None \<rparr>) None] []"

definition sample_payment :: derive_input where
  "sample_payment = sample_input (sample_type ''PAYMENT'' PARTY_MANY DR DEMAND False) None
     [sample_line 1 ''sup'' 1200 None (Some (sample_ins ''neft'')), sample_line 2 ''job'' 900 None (Some (sample_ins ''chq''))]
     [\<lparr> va_index = 0, va_lineRowNo = 1, va_billId = ''b1'', va_billAccYear = ''2026-2027'', va_amount = 1000 \<rparr>]"

definition sample_ctx :: guard_context where
  "sample_ctx = newGuardContext False None False"

section \<open>Their evaluation\<close>

lemma purchase_fields:
  "di_type sample_purchase = sample_type ''PURCHASE'' PARTY_ONE CR RAISE True"
  "di_header sample_purchase = \<lparr> dh_date = ''2026-11-05'', dh_partyId = Some ''job'', dh_posStcd = None, dh_reverseCharge = False, dh_docRefno = Some ''INV-1'' \<rparr>"
  "di_lines sample_purchase = [sample_line 1 ''exp'' 1000 (Some \<lparr> gi_taxId = ''t18'', gi_hsn = None, gi_itcEligibility = None \<rparr>) None]"
  "di_allocations sample_purchase = []"
  "di_newBill sample_purchase = None"
  "di_company sample_purchase = sample_company"
  "di_ledgers sample_purchase = sample_ledgers"
  "di_taxRates sample_purchase = (\<lambda>i. if i = ''t18'' then Some sample_rate else None)"
  "di_roleLedgers sample_purchase = sample_role"
  "di_party sample_purchase = Some (sample_ledger ''job'' [''sundry creditors''] True True)"
  "di_creditDaysByLedger sample_purchase = (\<lambda>i. Some 0)"
  "di_tds sample_purchase = Some \<lparr> ti_rate = Some sample_tds_rate, ti_annualBaseSoFar = 0 \<rparr>"
  "di_tdsByParty sample_purchase = (\<lambda>i. Some \<lparr> ti_rate = Some sample_tds_rate, ti_annualBaseSoFar = 0 \<rparr>)"
  "di_bills sample_purchase = (\<lambda>k. if k = ''b1|2026-2027'' then Some sample_open_bill else None)"
  "di_docRefnoClash sample_purchase = None"
  "di_backdateMode sample_purchase = BACKDATE_OFF"
  "di_allowAdvance sample_purchase = None"
  "di_today sample_purchase = ''2026-11-05''"
  "di_tenders sample_purchase = sample_tender"
  "di_chequeBooks sample_purchase = (\<lambda>i. if i = ''bk'' then Some sample_book else None)"
  "\<not> di_instrumentLedgers sample_purchase i" "\<not> di_generatedRoleLedgers sample_purchase i" "\<not> di_registeredCheques sample_purchase k" "di_closedYears sample_purchase y = None"
  by (simp_all add: sample_purchase_def sample_input_def sample_ledger_def)

lemma payment_fields:
  "di_type sample_payment = sample_type ''PAYMENT'' PARTY_MANY DR DEMAND False"
  "di_header sample_payment = \<lparr> dh_date = ''2026-11-05'', dh_partyId = None, dh_posStcd = None, dh_reverseCharge = False, dh_docRefno = Some ''INV-1'' \<rparr>"
  "di_lines sample_payment = [sample_line 1 ''sup'' 1200 None (Some (sample_ins ''neft'')), sample_line 2 ''job'' 900 None (Some (sample_ins ''chq''))]"
  "di_allocations sample_payment = [\<lparr> va_index = 0, va_lineRowNo = 1, va_billId = ''b1'', va_billAccYear = ''2026-2027'', va_amount = 1000 \<rparr>]"
  "di_newBill sample_payment = None"
  "di_company sample_payment = sample_company"
  "di_ledgers sample_payment = sample_ledgers"
  "di_taxRates sample_payment = (\<lambda>i. if i = ''t18'' then Some sample_rate else None)"
  "di_roleLedgers sample_payment = sample_role"
  "di_party sample_payment = None"
  "di_creditDaysByLedger sample_payment = (\<lambda>i. Some 0)"
  "di_tds sample_payment = Some \<lparr> ti_rate = Some sample_tds_rate, ti_annualBaseSoFar = 0 \<rparr>"
  "di_tdsByParty sample_payment = (\<lambda>i. Some \<lparr> ti_rate = Some sample_tds_rate, ti_annualBaseSoFar = 0 \<rparr>)"
  "di_bills sample_payment = (\<lambda>k. if k = ''b1|2026-2027'' then Some sample_open_bill else None)"
  "di_docRefnoClash sample_payment = None"
  "di_backdateMode sample_payment = BACKDATE_OFF"
  "di_allowAdvance sample_payment = None"
  "di_today sample_payment = ''2026-11-05''"
  "di_tenders sample_payment = sample_tender"
  "di_chequeBooks sample_payment = (\<lambda>i. if i = ''bk'' then Some sample_book else None)"
  "\<not> di_instrumentLedgers sample_payment i" "\<not> di_generatedRoleLedgers sample_payment i" "\<not> di_registeredCheques sample_payment k" "di_closedYears sample_payment y = None"
  by (simp_all add: sample_payment_def sample_input_def sample_ledger_def)

lemmas sample_fields = purchase_fields payment_fields sample_ledger_def sample_company_def sample_rate_def sample_tds_rate_def
  sample_role_def sample_ledgers_def sample_type_def sample_line_def sample_ins_def sample_tender_def sample_book_def sample_open_bill_def

lemmas line_defs = read_lines_def refuse_if_def type_line_def line_guards_def Let_def sideVerdict_def moneySideOf_def sideGroups_def
  moneySideRule_def CONTRA_TYPE_CODE_def isMoneyLedger_def MONEY_GROUPS_def MONEY_GROUP_IDS_def toLowerCase_def lower_char_def
  readInstrument_def truthy_def

lemmas d20_ops = d20.plus_paise d20.minus_paise d20.times_paise d20.div_paise d20.toDP_half_up

lemmas leg_defs = gst_band_def typed_leg_def name_instrument_def gst_line_def round2_def d20_ops split_tax_def tax_total_def
  post_gst_def role_hit_def roleKey_def nature_text_def pos_of_def side_text_def opposite_def gst_leg_def tds_one_def
  tds_percent_def tds_amounts_def crossesTdsThreshold_def tds_payable_def reduce_plus_def trim_section_def party_step_def
  side_sum_def party_leg_def party_ids_def name_party_def tds_leg_def leg_ledId_def js_trim_def is_space_def tds_record_def tds_many_def

definition leg_view :: "internal_leg \<Rightarrow> int \<times> DrCr \<times> string \<times> rat \<times> bool" where
  "leg_view l = (lg_rowNo l, lg_drCr l, leg_ledId (lg_ledger l), lg_amount l, lg_postDated l)"

lemma purchase_lines: "read_lines decimal20 sample_purchase (c, []) =
   ([typed_leg decimal20 (hd (di_lines sample_purchase)) (sample_ledger ''exp'' [''expenses''] False False) 1 None], c, [])"
  by (simp add: sample_fields line_defs)

lemma purchase_calendar: "calendar_guards sample_purchase c = c"
  by (simp add: sample_fields calendar_guards_def)

lemma purchase_party: "resolve_party sample_purchase c =
    (Some (sample_ledger ''job'' [''sundry creditors''] True True), Some CR, c)"
  by (simp add: sample_fields line_defs resolve_party_def)

lemma purchase_legs:
  "ls_ctx (derive_legs decimal20 sample_purchase c []) = c"
  "ls_promised (derive_legs decimal20 sample_purchase c []) = []"
  "map leg_view (ls_typed (derive_legs decimal20 sample_purchase c [])) = [(1, DR, ''exp'', 1000, False)]"
  "map leg_view (ls_gen (derive_legs decimal20 sample_purchase c [])) =
    [(2, DR, ''cgst'', 90, False), (3, DR, ''sgst'', 90, False), (4, CR, ''tds'', 100, False), (5, CR, ''job'', 1080, False)]"
  "ls_party (derive_legs decimal20 sample_purchase c []) =
    Some \<lparr> dp_ledger = sample_ledger ''job'' [''sundry creditors''] True True, dp_side = CR, dp_amount = 1080, dp_rowNo = 5 \<rparr>"
  by (simp_all add: derive_legs_def purchase_calendar purchase_lines purchase_party)
    (simp_all add: leg_defs sample_fields line_defs leg_view_def)

lemma payment_calendar: "calendar_guards sample_payment c = c"
  by (simp add: sample_fields calendar_guards_def)

lemma payment_party: "resolve_party sample_payment c = (None, None, c)"
  by (simp add: sample_fields line_defs resolve_party_def)

lemmas instrument_defs = readIssuedInstrument_def issue_instrument_def issuing_bank_def issuing_book_def year_guard_def
  PAYABLE_TENDER_TYPES_def EXCLUDED_INSTRUMENT_TYPES_def CHEQUE_TENDER_TYPE_ID_def isBankLedger_def trim_or_null_def

definition sample_issued :: "int \<Rightarrow> string \<Rightarrow> string \<Rightarrow> internal_instrument" where
  "sample_issued row tender party = (let chq = (tender = ''chq'') in \<lparr> in_lineRowNo = row, in_tender = the (sample_tender tender),
     in_ledgerId = ''bank'', in_ledgerName = ''bank'', in_refNo = Some (if chq then formatLeaf 7 6 else ''R1''),
     in_instrumentDate = (if chq then Some ''2026-12-01'' else None), in_bankName = Some ''bank'', in_isCheque = chq,
     in_isPostDated = chq, in_postsOn = (if chq then Some ''2026-12-01'' else None), in_cheque = None,
     in_settlementMode = settlementModeForTenderType (if chq then 5 else 6), in_issued = True, in_bankLedgerId = Some ''bank'',
     in_chequeBook = (if chq then Some sample_book else None), in_nextLeaf = (if chq then Some (formatLeaf 7 6) else None),
     in_favouring = Some party, in_acPayee = chq \<rparr>)"

lemma payment_lines: "read_lines decimal20 sample_payment (c, []) =
   ([typed_leg decimal20 (di_lines sample_payment ! 0) (sample_ledger ''sup'' [''sundry creditors''] True False) 1 (Some (sample_issued 1 ''neft'' ''sup'')),
     typed_leg decimal20 (di_lines sample_payment ! 1) (sample_ledger ''job'' [''sundry creditors''] True True) 2 (Some (sample_issued 2 ''chq'' ''job''))],
    c, [(''bk'', 1)])"
  by (simp add: sample_fields line_defs instrument_defs js_trim_def is_space_def sample_issued_def)

lemma paise_tenths [simp]: "paise (1 / 10)" "paise (9 / 10)"
  by (rule on_gridI [of _ _ 10], simp) (rule on_gridI [of _ _ 90], simp)

lemmas many_defs = tds_groups_def tds_counts_def tds_party_def tds_deduct_def gross_lines_def line_gross_def gross_up_def instrument_leg_def

lemma payment_legs:
  "ls_ctx (derive_legs decimal20 sample_payment c []) = c"
  "ls_promised (derive_legs decimal20 sample_payment c []) = [(''bk'', 1)]"
  "ls_party (derive_legs decimal20 sample_payment c []) = None"
  "map leg_view (ls_typed (derive_legs decimal20 sample_payment c [])) = [(1, DR, ''sup'', 1200, False), (2, DR, ''job'', 1000, True)]"
  "map leg_view (ls_gen (derive_legs decimal20 sample_payment c [])) =
    [(3, CR, ''bank'', 1200, False), (4, CR, ''bank'', 900, True), (5, CR, ''tds'', 100, True)]"
  by (simp_all add: derive_legs_def payment_calendar payment_lines payment_party)
    (simp_all add: leg_defs many_defs sample_fields line_defs leg_view_def sample_issued_def)

text \<open>The totals of a voucher and its bills, from the views of its legs.\<close>

definition view_sum :: "DrCr \<Rightarrow> (int \<times> DrCr \<times> string \<times> rat \<times> bool) list \<Rightarrow> rat" where
  "view_sum side vs = foldl (d_plus decimal20) 0 (map (\<lambda>(r, s, l, a, p). a) (filter (\<lambda>(r, s, l, a, p). s = side \<and> \<not> p) vs))"

lemma side_sum_view: "side_sum decimal20 side (today_legs s) = view_sum side (map leg_view (ls_typed s) @ map leg_view (ls_gen s))"
proof -
  have "map lg_amount (filter (\<lambda>l. lg_drCr l = side \<and> \<not> lg_postDated l) ls)
      = map (\<lambda>(r, s, l, a, p). a) (filter (\<lambda>(r, s, l, a, p). s = side \<and> \<not> p) (map leg_view ls))" for ls
    by (induction ls) (simp_all add: leg_view_def)
  then show ?thesis
    by (simp add: side_sum_def view_sum_def today_legs_def reduce_plus_def conj_commute)
qed

lemma today_legs_view: "today_legs s = [] \<longleftrightarrow> list_all (\<lambda>(r, s, l, a, p). p) (map leg_view (ls_typed s) @ map leg_view (ls_gen s))"
  by (simp add: today_legs_def leg_view_def filter_empty_conv list_all_iff ball_Un)

lemma purchase_bills: "\<exists>bill. bill_step decimal20 sample_purchase (ls_party (derive_legs decimal20 sample_purchase c [])) typed c = Inr ([bill], [], c)"
  by (simp add: purchase_legs bill_step_def bill_legs_def sample_fields bill_of_leg_def allocated_on_def reduce_plus_def raised_bill_def
      line_defs addDays_def parse_day_def Let_def day_number_def DayFromYear_def month_start_def leap_year_def
      MAX_TIME_def DAY_MS_def read_nat_def is_digit_def or_maybe_def)

lemma purchase_derive: "\<exists>d. derive decimal20 sample_purchase c [] = Inr (d, c, []) \<and>
    map leg_view (dv_legs d) = [(1, DR, ''exp'', 1000, False), (2, DR, ''cgst'', 90, False), (3, DR, ''sgst'', 90, False),
      (4, CR, ''tds'', 100, False), (5, CR, ''job'', 1080, False)]"
proof -
  let ?s = "derive_legs decimal20 sample_purchase c []"
  obtain bill where b: "bill_step decimal20 sample_purchase (ls_party ?s) (ls_typed ?s) c = Inr ([bill], [], c)"
    using purchase_bills by blast
  have "ls_typed ?s \<noteq> []" using purchase_legs(3) [of c] by (cases "ls_typed ?s") simp_all
  moreover have "balance_guards decimal20 sample_purchase ?s 0 = c"
    by (simp add: balance_guards_def refuse_if_def today_legs_view purchase_legs)
  ultimately show ?thesis using b
    by (simp add: derive_def Let_def side_sum_view purchase_legs view_sum_def round2_def d20_ops)
qed

lemma payment_bill_legs: "bill_legs sample_payment None (ls_typed (derive_legs decimal20 sample_payment c [])) =
   [\<lparr> bl_lineRowNo = 1, bl_legRowNo = 1, bl_ledger = sample_ledger ''sup'' [''sundry creditors''] True False, bl_side = DR, bl_amount = 1200,
      bl_instrument = Some (sample_issued 1 ''neft'' ''sup'') \<rparr>,
    \<lparr> bl_lineRowNo = 2, bl_legRowNo = 2, bl_ledger = sample_ledger ''job'' [''sundry creditors''] True True, bl_side = DR, bl_amount = 1000,
      bl_instrument = Some (sample_issued 2 ''chq'' ''job'') \<rparr>]"
  by (simp add: derive_legs_def payment_calendar payment_lines payment_party)
    (simp add: leg_defs many_defs sample_fields line_defs sample_issued_def bill_legs_def)

lemma payment_bills: "\<exists>bills allocs. bill_step decimal20 sample_payment None (ls_typed (derive_legs decimal20 sample_payment c [])) c
    = Inr (bills, allocs, c) \<and> map ib_amount bills = [200, 1000] \<and> map ia_amount allocs = [1000]"
  by (simp add: bill_step_def payment_bill_legs)
    (simp add: sample_fields allocate_bill_def line_defs billKey_def js_trim_def is_space_def sample_issued_def alloc_row_def bill_of_leg_def allocated_on_def
      reduce_plus_def advance_bill_def round2_def d20_ops)

lemma payment_derive: "\<exists>d. derive decimal20 sample_payment c [] = Inr (d, c, [(''bk'', 1)]) \<and>
    map leg_view (dv_legs d) = [(1, DR, ''sup'', 1200, False), (2, DR, ''job'', 1000, True), (3, CR, ''bank'', 1200, False),
      (4, CR, ''bank'', 900, True), (5, CR, ''tds'', 100, True)] \<and>
    map ib_amount (dv_bills d) = [200, 1000] \<and> map ia_amount (dv_allocations d) = [1000]"
proof -
  let ?s = "derive_legs decimal20 sample_payment c []"
  obtain bills allocs where b: "bill_step decimal20 sample_payment None (ls_typed ?s) c = Inr (bills, allocs, c)"
    "map ib_amount bills = [200, 1000]" "map ia_amount allocs = [1000]"
    using payment_bills [of c] by (elim exE conjE)
  have "balance_guards decimal20 sample_payment ?s 0 = c"
    by (simp add: balance_guards_def refuse_if_def today_legs_view payment_legs)
  then show ?thesis using b
    by (simp add: derive_def Let_def side_sum_view payment_legs view_sum_def round2_def d20_ops)
qed

end
