(* ===== verification/Voucher_Modes.thy ===== *)
theory Voucher_Modes
  imports Voucher_Samples
begin

text \<open>
  The guard context of a derivation: \<open>derive\<close> only appends to it, and what \<open>/validate\<close> shows on a dry
  run is what \<open>/post\<close> derives.
\<close>

section \<open>A clean dry run does not stop anywhere\<close>

lemma allocate_bills_foretold:
  assumes "rel_bills (\<lambda>c c'. True) s t" and "allocate_bills J input mode legs as s = Inr s'" and "gc_refusals (bs_ctx s') = []"
  shows "\<exists>t'. allocate_bills J input mode legs as t = Inr t'"
  using assms
proof (induction as arbitrary: s t)
  case (Cons a as)
  from Cons.prems obtain s1 where s1: "allocate_bill J input mode legs a s = Inr s1"
    and rest: "allocate_bills J input mode legs as s1 = Inr s'" by (auto simp: e_bind_Inr_conv)
  have clean: "gc_refusals (bs_ctx s1) = []"
    by (rule extends_clean [OF allocate_bills_extends [OF rest] Cons.prems(3)])
  have "bs_perBill s = bs_perBill t" using Cons.prems(1) by (simp add: rel_bills_def)
  then obtain t1 where t1: "allocate_bill J input mode legs a t = Inr t1"
    using allocate_bill_foretold [OF _ s1 clean] by blast
  from Cons.IH [OF any_two.rel_allocate_bill [OF Cons.prems(1) s1 t1] rest Cons.prems(3)] t1 show ?case by simp
qed simp

lemma bill_of_leg_foretold:
  "fst s = fst t \<Longrightarrow> bill_of_leg J input allocs leg s = Inr s' \<Longrightarrow> \<exists>t'. bill_of_leg J input allocs leg t = Inr t'"
  by (cases s; cases t) (auto simp: bill_of_leg_def Let_def e_bind_Inr_conv split: if_splits)

lemma bills_of_legs_foretold:
  "fst s = fst t \<Longrightarrow> bills_of_legs J input allocs legs s = Inr s' \<Longrightarrow> \<exists>t'. bills_of_legs J input allocs legs t = Inr t'"
proof (induction legs arbitrary: s t)
  case (Cons leg legs)
  from Cons.prems obtain s1 where s1: "bill_of_leg J input allocs leg s = Inr s1"
    and rest: "bills_of_legs J input allocs legs s1 = Inr s'" by (auto simp: e_bind_Inr_conv)
  obtain t1 where t1: "bill_of_leg J input allocs leg t = Inr t1" using bill_of_leg_foretold [OF Cons.prems(1) s1] by blast
  have "fst s1 = fst t1" using any_two.rel_bill_of_leg [OF Cons.prems(1) _ s1 t1] by simp
  from Cons.IH [OF this rest] t1 show ?case by simp
qed simp

lemma bill_step_foretold:
  assumes "bill_step J input party typed c = Inr (bills, allocs, k)" and "gc_refusals k = []"
  shows "\<exists>r. bill_step J input party typed c' = Inr r"
  using assms(1)
proof (cases rule: bill_step_cases)
  case off
  then show ?thesis by (simp add: bill_step_def)
next
  case (on st)
  let ?s = "\<lambda>c. \<lparr>bs_ctx = c, bs_perBill = [], bs_allocations = []\<rparr>"
  have clean: "gc_refusals (bs_ctx st) = []"
    using extends_clean [OF bills_of_legs_extends [OF on(4)]] assms(2) by simp
  obtain st' where st': "allocate_bills J input (settlementModeOf typed (party_ids input party typed)) (bill_legs input party typed)
      (di_allocations input) (?s c') = Inr st'"
    using allocate_bills_foretold [of "?s c" "?s c'", OF _ on(2) clean] by (auto simp: rel_bills_def)
  have "bs_allocations st' = allocs"
    using any_two.rel_allocate_bills [of "?s c" "?s c'", OF _ on(2) st'] on(3) by (auto simp: rel_bills_def)
  with bills_of_legs_foretold [OF _ on(4), of "([], bs_ctx st')"] st' on(1) show ?thesis
    by (auto simp: bill_step_def Let_def split_def)
qed

lemma derive_foretold:
  assumes "derive J input c pr = Inr (d, k, p)" and "gc_refusals k = []"
  shows "\<exists>r. derive J input c' pr = Inr r"
proof -
  have r: "rel_legs (\<lambda>c c'. True) (derive_legs J input c pr) (derive_legs J input c' pr)" (is "rel_legs _ ?s ?t")
    by (rule any_two.rel_derive_legs) simp
  then have eq: "today_legs ?t = today_legs ?s" "ls_party ?t = ls_party ?s" "ls_typed ?t = ls_typed ?s"
    by (simp_all add: rel_legs_def today_legs_def)
  let ?diff = "d_minus J (round2 J (side_sum J DR (today_legs ?s))) (round2 J (side_sum J CR (today_legs ?s)))"
  obtain bills allocs where "bill_step J input (ls_party ?s) (ls_typed ?s) (balance_guards J input ?s ?diff) = Inr (bills, allocs, k)"
    using assms(1) by (auto simp: derive_def Let_def e_bind_Inr_conv)
  then obtain bills' allocs' k' where "bill_step J input (ls_party ?s) (ls_typed ?s) (balance_guards J input ?t ?diff) = Inr (bills', allocs', k')"
    using bill_step_foretold [OF _ assms(2)] by (metis prod_cases3)
  then show ?thesis by (simp add: derive_def Let_def eq)
qed

section \<open>Properties\<close>

text \<open>
  A derivation only appends to its guard context: the mode, the overrides and the right to
  override are kept, and every refusal and warning raised before it stays where it was.
\<close>

theorem derive_only_appends:
  assumes "derive J input c pr = Inr (d, k, p)"
  shows "gc_dryRun k = gc_dryRun c \<and> gc_overrides k = gc_overrides c \<and> gc_canOverride k = gc_canOverride c \<and>
    (\<exists>rs ws. gc_refusals k = gc_refusals c @ rs \<and> gc_warnings k = gc_warnings c @ ws)"
  using trail.rel_derive [OF _ assms assms, of c] by (simp add: extends_def)

theorem derive_only_appends_witness:
  "\<exists>d k p. derive decimal20 sample_purchase (refuse ''X'' None None sample_ctx) [] = Inr (d, k, p) \<and>
    (\<exists>rs. gc_refusals k = gc_refusals (refuse ''X'' None None sample_ctx) @ rs)"
proof -
  obtain d where "derive decimal20 sample_purchase (refuse ''X'' None None sample_ctx) [] = Inr (d, refuse ''X'' None None sample_ctx, [])"
    using purchase_derive by blast
  with derive_only_appends [OF this] show ?thesis by blast
qed

text \<open>
  C18: what a dry run shows is what the post derives. When \<open>/validate\<close> refuses nothing, \<open>/post\<close> of the same
  document, with the same overrides and rights, derives the same legs, bills, allocations and
  post-dated vouchers, promises the same cheque leaves and records the same warnings; and it refuses
  nothing exactly when every warning was accepted (recorded as INFO).
\<close>

theorem derive_validate_post:
  assumes "derive J input (newGuardContext True ov can) pr = Inr (d, k, p)" and "gc_refusals k = []"
  shows "\<exists>k'. derive J input (newGuardContext False ov can) pr = Inr (d, k', p) \<and> gc_warnings k' = gc_warnings k \<and>
    (gc_refusals k' = [] \<longleftrightarrow> (\<forall>w\<in>set (gc_warnings k). wn_level w = INFO))"
proof -
  obtain d' k' p' where post: "derive J input (newGuardContext False ov can) pr = Inr (d', k', p')"
    using derive_foretold [OF assms, of "newGuardContext False ov can"] by (metis prod_cases3)
  have "dry_post (newGuardContext True ov can) (newGuardContext False ov can)"
    by (simp add: dry_post_def newGuardContext_def)
  from validating.rel_derive [OF this assms(1) post] assms(2) post show ?thesis by (auto simp: dry_post_def)
qed

theorem derive_validate_post_witness:
  "\<exists>d k'. derive decimal20 sample_payment (newGuardContext False None False) [] = Inr (d, k', [(''bk'', 1)]) \<and> gc_refusals k' = []"
proof -
  let ?c = "newGuardContext True None False"
  obtain d where "derive decimal20 sample_payment ?c [] = Inr (d, ?c, [(''bk'', 1)])"
    using payment_derive by blast
  from derive_validate_post [OF this] show ?thesis by (auto simp: newGuardContext_def)
qed

end
