(* ===== verification/Voucher_Shape.thy ===== *)
theory Voucher_Shape
  imports Voucher_Trail
begin

text \<open>
  The legs of a derivation: their numbers, their amounts, which of them are typed and which are
  post-dated; every step of \<open>derive_legs\<close> keeps this.
\<close>

section \<open>What holds of the legs\<close>

definition rows_from_1 :: "internal_leg list \<Rightarrow> bool" where
  "rows_from_1 legs \<longleftrightarrow> map lg_rowNo legs = map (\<lambda>i. int i + 1) [0..<length legs]"

text \<open>A typed leg: what it takes from its line, and what every later step leaves of it.\<close>

definition typed_shape :: "internal_leg \<Rightarrow> bool" where
  "typed_shape l \<longleftrightarrow> lg_source l = SRC_TYPED \<and> \<not> lg_generated l \<and> lg_lineRowNo l \<noteq> None \<and> (\<exists>f. lg_ledger l = Facts f) \<and>
     lg_postDated l = (case lg_instrument l of None \<Rightarrow> False | Some i \<Rightarrow> in_isPostDated i) \<and>
     lg_postsOn l = Option.bind (lg_instrument l) in_postsOn \<and> paise (lg_amount l)"

definition gen_shape :: "internal_leg \<Rightarrow> bool" where
  "gen_shape l \<longleftrightarrow> lg_source l \<noteq> SRC_TYPED \<and> lg_generated l \<and> lg_lineRowNo l = None \<and> paise (lg_amount l)"

definition legs_ok :: "internal_leg list \<Rightarrow> internal_leg list \<Rightarrow> bool" where
  "legs_ok typed gen \<longleftrightarrow> rows_from_1 (typed @ gen) \<and> distinct (map lg_lineRowNo typed) \<and>
     (\<forall>l\<in>set typed. typed_shape l) \<and> (\<forall>l\<in>set gen. gen_shape l)"

lemma rows_from_1_Nil [simp]: "rows_from_1 []"
  by (simp add: rows_from_1_def)

lemma rows_from_1_snoc: "rows_from_1 (ls @ [l]) \<longleftrightarrow> rows_from_1 ls \<and> lg_rowNo l = int (length ls) + 1"
  by (auto simp: rows_from_1_def)

lemma rows_from_1_map: "(\<And>l. lg_rowNo (f l) = lg_rowNo l) \<Longrightarrow> rows_from_1 (map f ls) \<longleftrightarrow> rows_from_1 ls"
  by (simp add: rows_from_1_def comp_def)

lemma rows_from_1_distinct: "rows_from_1 legs \<Longrightarrow> distinct (map lg_rowNo legs)"
  unfolding rows_from_1_def by (simp add: distinct_map inj_on_def)

lemma legs_ok_rows: "legs_ok typed gen \<Longrightarrow> distinct (map lg_rowNo typed) \<and> distinct (map lg_rowNo (typed @ gen))"
  using rows_from_1_distinct [of "typed @ gen"] by (simp add: legs_ok_def)

text \<open>A change of typed legs that keeps their shape, a generated leg that is added.\<close>

lemma legs_ok_map:
  assumes "legs_ok typed gen" and "\<And>l. lg_rowNo (f l) = lg_rowNo l \<and> lg_lineRowNo (f l) = lg_lineRowNo l"
    and "\<And>l. typed_shape l \<Longrightarrow> typed_shape (f l)"
  shows "legs_ok (map f typed) gen"
  using assms by (simp add: legs_ok_def rows_from_1_def comp_def)

lemma legs_ok_map_gen:
  assumes "legs_ok typed gen" and "\<And>l. lg_rowNo (f l) = lg_rowNo l" and "\<And>l. gen_shape l \<Longrightarrow> gen_shape (f l)"
  shows "legs_ok typed (map f gen)"
  using assms by (simp add: legs_ok_def rows_from_1_def comp_def)

lemma legs_ok_snoc:
  assumes "legs_ok typed gen" and "gen_shape l" and "lg_rowNo l = int (length typed + length gen) + 1"
  shows "legs_ok typed (gen @ [l])"
  using assms rows_from_1_snoc [of "typed @ gen" l] by (simp add: legs_ok_def)

lemma name_party_fields [simp]:
  "lg_rowNo (name_party ids l) = lg_rowNo l" "lg_lineRowNo (name_party ids l) = lg_lineRowNo l"
  "lg_drCr (name_party ids l) = lg_drCr l" "lg_amount (name_party ids l) = lg_amount l"
  "lg_ledger (name_party ids l) = lg_ledger l" "lg_source (name_party ids l) = lg_source l"
  "lg_generated (name_party ids l) = lg_generated l" "lg_fromRows (name_party ids l) = lg_fromRows l"
  "lg_postDated (name_party ids l) = lg_postDated l" "lg_postsOn (name_party ids l) = lg_postsOn l"
  "lg_instrument (name_party ids l) = lg_instrument l"
  by (simp_all add: name_party_def split: list.splits)

lemma name_instrument_fields [simp]:
  "lg_rowNo (name_instrument l) = lg_rowNo l" "lg_lineRowNo (name_instrument l) = lg_lineRowNo l"
  "lg_drCr (name_instrument l) = lg_drCr l" "lg_amount (name_instrument l) = lg_amount l"
  "lg_ledger (name_instrument l) = lg_ledger l" "lg_source (name_instrument l) = lg_source l"
  "lg_generated (name_instrument l) = lg_generated l" "lg_fromRows (name_instrument l) = lg_fromRows l"
  "lg_postDated (name_instrument l) = lg_postDated l" "lg_postsOn (name_instrument l) = lg_postsOn l"
  "lg_instrument (name_instrument l) = lg_instrument l" "lg_isTdsBase (name_instrument l) = lg_isTdsBase l"
  "lg_gst (name_instrument l) = lg_gst l"
  by (simp_all add: name_instrument_def split: option.splits)

lemma shape_name_party [simp]: "typed_shape (name_party ids l) \<longleftrightarrow> typed_shape l" "gen_shape (name_party ids l) \<longleftrightarrow> gen_shape l"
  by (simp_all add: typed_shape_def gen_shape_def)

lemma shape_name_instrument [simp]: "typed_shape (name_instrument l) \<longleftrightarrow> typed_shape l"
  by (simp add: typed_shape_def)

section \<open>Every step keeps it\<close>

context decimal_package
begin

lemma paise_round2 [simp]: "paise (round2 J x)"
  by (simp add: round2_def toDP_half_up)

lemma round2_paise [simp]: "paise x \<Longrightarrow> round2 J x = x"
  by (simp add: round2_def toDP_half_up)

lemma paise_reduce: "(\<forall>x\<in>set xs. paise x) \<Longrightarrow> paise (reduce_plus J xs)"
proof -
  have "paise a \<Longrightarrow> \<forall>x\<in>set xs. paise x \<Longrightarrow> paise (foldl (d_plus J) a xs)" for a
    by (induction xs arbitrary: a) (auto intro: plus_places)
  then show "(\<forall>x\<in>set xs. paise x) \<Longrightarrow> paise (reduce_plus J xs)" by (simp add: reduce_plus_def)
qed

text \<open>Reading the lines.\<close>

lemma typed_leg_shape: "typed_shape (typed_leg J line ledger row ins)"
  by (simp add: typed_leg_def typed_shape_def)

lemma type_line_typed:
  assumes "type_line J input line (typed, c, pr) = (typed', c', pr')"
  shows "typed' = typed \<or> (\<exists>ledger ins. di_ledgers input (tl_ledgerId line) = Some ledger \<and>
    typed' = typed @ [typed_leg J line ledger (int (length typed) + 1) ins])"
  using assms by (auto simp: type_line_def Let_def split: option.splits prod.splits)

lemma type_lines_ok:
  assumes "legs_ok typed []" and "\<forall>l\<in>set typed. the (lg_lineRowNo l) \<in> set seen"
  shows "legs_ok (fst (type_lines J input lines seen (typed, c, pr))) []"
  using assms
proof (induction lines arbitrary: seen typed c pr)
  case (Cons line lines)
  show ?case
  proof (cases "tl_rowNo line \<in> set seen")
    case False
    obtain typed' c' pr' where tl: "type_line J input line (typed, c, pr) = (typed', c', pr')"
      by (cases "type_line J input line (typed, c, pr)")
    have ok: "legs_ok typed' []" and seen: "\<forall>l\<in>set typed'. the (lg_lineRowNo l) \<in> set (tl_rowNo line # seen)"
    proof -
      have "Some (tl_rowNo line) \<notin> lg_lineRowNo ` set typed" using False Cons.prems(2) by (metis imageE option.sel)
      then have "legs_ok (typed @ [typed_leg J line ledger (int (length typed) + 1) ins]) []" for ledger ins
        using Cons.prems(1) typed_leg_shape by (simp add: legs_ok_def rows_from_1_snoc) (simp add: typed_leg_def)
      then show "legs_ok typed' []" using type_line_typed [OF tl] Cons.prems(1) by auto
      show "\<forall>l\<in>set typed'. the (lg_lineRowNo l) \<in> set (tl_rowNo line # seen)"
        using type_line_typed [OF tl] Cons.prems(2) by (auto simp: typed_leg_def)
    qed
    from Cons.IH [OF ok seen] False tl show ?thesis by simp
  qed (use Cons in simp)
qed simp

lemma read_lines_ok: "legs_ok (fst (read_lines J input (c, pr))) []"
  unfolding read_lines_def prod.case by (rule type_lines_ok) (simp_all add: legs_ok_def)

text \<open>The generated legs.\<close>

lemma instrument_legs_ok:
  assumes "legs_ok typed gen" and "\<forall>l\<in>set ls. paise (lg_amount l)" and "n = int (length typed + length gen) + 1"
  shows "legs_ok typed (gen @ instrument_legs n ls)"
  using assms
proof (induction ls arbitrary: gen n)
  case (Cons l ls)
  show ?case
  proof (cases "lg_instrument l")
    case (Some ins)
    have "legs_ok typed (gen @ [instrument_leg n l ins])"
      using Cons.prems by (intro legs_ok_snoc) (simp_all add: instrument_leg_def gen_shape_def)
    then have "legs_ok typed ((gen @ [instrument_leg n l ins]) @ instrument_legs (n + 1) ls)"
      using Cons.prems by (intro Cons.IH) simp_all
    then show ?thesis using Some by simp
  qed (use Cons in simp)
qed simp

lemma gst_legs_ok:
  assumes "legs_ok typed gen" and "n = int (length typed + length gen) + 1"
  shows "legs_ok typed (gen @ gst_legs J n es)"
  using assms
proof (induction es arbitrary: gen n)
  case (Cons e es)
  have "legs_ok typed (gen @ [gst_leg J n e])"
    using Cons.prems by (intro legs_ok_snoc) (simp_all add: gst_leg_def gen_shape_def Let_def)
  then have "legs_ok typed ((gen @ [gst_leg J n e]) @ gst_legs J (n + 1) es)"
    using Cons.prems by (intro Cons.IH) simp_all
  then show ?case by simp
qed simp

lemma gst_band_ok:
  assumes "legs_ok typed gen" and "gst_band J input party side typed gen c = (gst, gen', c')"
  shows "legs_ok typed gen'"
proof (cases rule: gst_band_cases [of J input party side typed gen c])
  case (on side' pside lines st)
  then show ?thesis using assms gst_legs_ok [OF assms(1) refl] by auto
qed (use assms in simp)

lemma paise_amounts: "(\<forall>l\<in>set ls. paise (lg_amount l)) \<Longrightarrow> paise (reduce_plus J (map lg_amount ls))"
  by (rule paise_reduce) simp

lemma paise_gross_up [simp]: "paise (gross_up J net pct)"
  by (simp add: gross_up_def)

lemma paise_line_gross [simp]: "paise a \<Longrightarrow> paise (line_gross J pct a)"
  by (simp add: line_gross_def)

lemma legs_ok_typed_paise: "legs_ok typed gen \<Longrightarrow> l \<in> set typed \<Longrightarrow> paise (lg_amount l)"
  by (simp add: legs_ok_def typed_shape_def)

lemma tds_one_ok:
  assumes "legs_ok typed gen" and "tds_one J input party side typed gen c = (tds, gen', c')"
  shows "legs_ok typed gen'"
proof -
  have tax: "paise (snd (tds_amounts J shaped (reduce_plus J (map lg_amount (filter P typed))) pct))" for shaped P pct
    using paise_amounts [of "filter P typed"] legs_ok_typed_paise [OF assms(1)]
    by (simp add: tds_amounts_def Let_def minus_places)
  have "legs_ok typed (gen @ [tds_leg (int (length typed + length gen) + 1) led tax r rows False None])" if "paise tax" for led tax r rows
    using assms(1) that by (intro legs_ok_snoc) (simp_all add: tds_leg_def gen_shape_def)
  with assms tax show ?thesis
    by (auto simp: tds_one_def Let_def split_def split: option.splits if_splits)
qed

lemma gross_lines_fields: "map lg_rowNo (gross_lines J pct ls typed) = map lg_rowNo typed"
  "map lg_lineRowNo (gross_lines J pct ls typed) = map lg_lineRowNo typed" "length (gross_lines J pct ls typed) = length typed"
  by (simp_all add: gross_lines_def comp_def if_distrib)

lemma tds_deduct_ok:
  assumes "legs_ok (ms_typed st) (ms_gen st)" and "paise tax"
  shows "legs_ok (ms_typed (tds_deduct J input p rate ls base tax st)) (ms_gen (tds_deduct J input p rate ls base tax st))"
proof -
  have g: "legs_ok (gross_lines J pct ls (ms_typed st)) (ms_gen st)" for pct
    unfolding gross_lines_def by (rule legs_ok_map [OF assms(1)]) (simp_all add: typed_shape_def)
  have "legs_ok (gross_lines J pct ls (ms_typed st)) (ms_gen st @
      [tds_leg (int (length (ms_typed st) + length (ms_gen st)) + 1) led tax r rows pd po])" for pct led r rows pd po
    using g assms(2) by (intro legs_ok_snoc) (simp_all add: tds_leg_def gen_shape_def gross_lines_fields)
  with assms show ?thesis by (simp add: tds_deduct_def Let_def split: option.splits)
qed

lemma tds_group_ok:
  assumes "\<forall>l\<in>set (snd g). paise (lg_amount l)" and "legs_ok (ms_typed st) (ms_gen st)"
  shows "legs_ok (ms_typed (tds_group J input shaped g st)) (ms_gen (tds_group J input shaped g st))"
proof -
  have "paise (reduce_plus J (map (\<lambda>l. d_minus J (line_gross J pct (lg_amount l)) (lg_amount l)) (snd g)))" for pct
    using assms(1) by (intro paise_reduce) (auto intro!: minus_places)
  with assms(2) tds_deduct_ok show ?thesis
    by (simp add: tds_group_def tds_party_def Let_def split: leg_ledger.splits option.splits)
qed

end

text \<open>The groups are the counted lines, by party: every group is exactly the lines of its party.\<close>

lemma grouped:
  fixes legs :: "internal_leg list"
  defines "g \<equiv> \<lambda>legs. foldl (\<lambda>m leg. jmap_set (leg_ledId (lg_ledger leg))
      (or_else (jmap_get m (leg_ledId (lg_ledger leg))) [] @ [leg]) m) [] legs"
  shows "distinct (map fst (g legs)) \<and>
    (\<forall>k. jmap_get (g legs) k = (case filter (\<lambda>l. leg_ledId (lg_ledger l) = k) legs of [] \<Rightarrow> None | ls \<Rightarrow> Some ls))"
proof (induction legs rule: rev_induct)
  case (snoc leg legs)
  have "g (legs @ [leg]) = jmap_set (leg_ledId (lg_ledger leg)) (or_else (jmap_get (g legs) (leg_ledId (lg_ledger leg))) [] @ [leg]) (g legs)"
    by (simp add: g_def)
  then show ?case
    using snoc by (auto simp: distinct_update update_conv split: list.splits)
qed (simp add: g_def)

lemma tds_groups_filter:
  assumes "(k, ls) \<in> set (tds_groups side typed)"
  shows "ls = filter (\<lambda>l. tds_counts side l \<and> leg_ledId (lg_ledger l) = k) typed" and "ls \<noteq> []"
proof -
  note g = grouped [of "filter (tds_counts side) typed"]
  have "distinct (map fst (tds_groups side typed))" using g by (simp add: tds_groups_def)
  then have "jmap_get (tds_groups side typed) k = Some ls" by (rule map_of_is_SomeI) (rule assms)
  with g have *: "ls \<noteq> [] \<and> ls = filter (\<lambda>l. leg_ledId (lg_ledger l) = k) (filter (tds_counts side) typed)"
    by (auto simp: tds_groups_def split: list.splits)
  show "ls = filter (\<lambda>l. tds_counts side l \<and> leg_ledId (lg_ledger l) = k) typed"
    using conjunct2 [OF *] by (simp add: conj_commute)
  show "ls \<noteq> []" by (rule conjunct1 [OF *])
qed

lemma tds_groups_distinct: "distinct (map fst (tds_groups side typed))"
  using grouped [of "filter (tds_counts side) typed"] by (simp add: tds_groups_def)

context decimal_package
begin

lemma tds_many_ok:
  assumes "legs_ok (ms_typed st) (ms_gen st)"
  shows "legs_ok (ms_typed (tds_many J input st)) (ms_gen (tds_many J input st))"
proof -
  have "legs_ok (ms_typed (fold (tds_group J input shaped) gs st)) (ms_gen (fold (tds_group J input shaped) gs st))"
    if "gs = tds_groups side (ms_typed st)" for gs side shaped
  proof (rule fold_invariant [where Q = "\<lambda>g. \<forall>l\<in>set (snd g). paise (lg_amount l)"])
    show "\<forall>l\<in>set (snd g). paise (lg_amount l)" if "g \<in> set gs" for g
      using tds_groups_filter(1) [of "fst g" "snd g"] legs_ok_typed_paise [OF assms] that \<open>gs = _\<close> by simp
  qed (use assms tds_group_ok in auto)
  then show ?thesis using assms by (simp add: tds_many_eq)
qed

lemma paise_side_sum: "\<forall>l\<in>set ls. paise (lg_amount l) \<Longrightarrow> paise (side_sum J side ls)"
  unfolding side_sum_def by (rule paise_reduce) simp

lemma legs_ok_paise: "legs_ok typed gen \<Longrightarrow> \<forall>l\<in>set (typed @ gen). paise (lg_amount l)"
  by (auto simp: legs_ok_def typed_shape_def gen_shape_def)

lemma party_step_ok:
  assumes "legs_ok typed gen" and "party_step J input party side typed gen c = (p, gen', c')"
  shows "legs_ok typed gen'"
proof -
  have "legs_ok typed (gen @ [party_leg J (int (length typed) + int (length gen) + 1) p s a typed])" for p s a
    using assms(1) by (intro legs_ok_snoc) (simp_all add: party_leg_def gen_shape_def)
  with assms show ?thesis
    by (auto simp: party_step_def Let_def simp del: append_assoc split: option.splits if_splits)
qed

lemma derive_legs_ok: "legs_ok (ls_typed (derive_legs J input c pr)) (ls_gen (derive_legs J input c pr))"
proof (rule derive_legs_stages [where J = J and input = input and c = c and pr = pr])
  fix typed0 c1 pr' party side c2 gst gen1 c3 tds gen2 c4 st partyLeg gen4 c6
  assume a: "read_lines J input (calendar_guards input c, pr) = (typed0, c1, pr')"
    and d: "gst_band J input party side (map name_instrument typed0) (instrument_legs (int (length typed0) + 1) typed0) c2 = (gst, gen1, c3)"
    and e: "tds_one J input party side (map name_instrument typed0) gen1 c3 = (tds, gen2, c4)"
    and st: "st = tds_many J input \<lparr> ms_typed = map name_instrument typed0, ms_gen = gen2, ms_ctx = c4,
            ms_lines = (case tds of None \<Rightarrow> [] | Some t \<Rightarrow> [t]), ms_unmappedTold = False \<rparr>"
    and f: "party_step J input party side (ms_typed st) (ms_gen st) (ms_ctx st) = (partyLeg, gen4, c6)"
    and g: "derive_legs J input c pr = \<lparr> ls_typed = map (name_party (party_ids input partyLeg (ms_typed st))) (ms_typed st),
        ls_gen = map (name_party (party_ids input partyLeg (ms_typed st))) gen4, ls_party = partyLeg,
        ls_gst = gst, ls_tds = tds, ls_tdsLines = ms_lines st, ls_ctx = c6, ls_promised = pr' \<rparr>"
  have "legs_ok typed0 []" using read_lines_ok [of input "calendar_guards input c" pr] a by simp
  then have "legs_ok typed0 (instrument_legs (int (length typed0) + 1) typed0)"
    using instrument_legs_ok [of typed0 "[]" typed0] by (simp add: legs_ok_typed_paise)
  then have "legs_ok (map name_instrument typed0) (instrument_legs (int (length typed0) + 1) typed0)"
    by (rule legs_ok_map) simp_all
  then have "legs_ok (map name_instrument typed0) gen1" using d by (rule gst_band_ok)
  then have "legs_ok (map name_instrument typed0) gen2" using e by (rule tds_one_ok)
  then have "legs_ok (ms_typed st) (ms_gen st)" unfolding st by (intro tds_many_ok) simp
  then have "legs_ok (ms_typed st) gen4" using f by (rule party_step_ok)
  then show ?thesis by (simp add: g legs_ok_map legs_ok_map_gen)
qed

end

end
