(* ===== verification/Voucher_Balance.thy ===== *)
theory Voucher_Balance
  imports Voucher_Shape Voucher_Samples
begin

text \<open>
  The balance of a derivation. The party leg of a one-party voucher closes it, a post-dated pair closes
  itself, and the guard of step 7 checks every other voucher; so a derivation that refuses nothing
  posts equal debits and credits today, to the paisa.
\<close>

section \<open>Sides and columns\<close>

definition signed :: "internal_leg \<Rightarrow> rat" where
  "signed l = (if lg_drCr l = DR then lg_amount l else - lg_amount l)"

definition net :: "internal_leg list \<Rightarrow> rat" where
  "net legs = sum_list (map signed legs)"

definition side_total :: "DrCr \<Rightarrow> internal_leg list \<Rightarrow> rat" where
  "side_total side legs = sum_list (map lg_amount (filter (\<lambda>l. lg_drCr l = side) legs))"

definition turnover :: "internal_leg list \<Rightarrow> rat" where
  "turnover legs = sum_list (map (\<lambda>l. \<bar>lg_amount l\<bar>) legs)"

lemma net_simps [simp]: "net [] = 0" "net (l # ls) = signed l + net ls" "net (xs @ ys) = net xs + net ys"
  by (simp_all add: net_def)

lemma turnover_simps [simp]: "turnover [] = 0" "turnover (l # ls) = \<bar>lg_amount l\<bar> + turnover ls"
  "turnover (xs @ ys) = turnover xs + turnover ys"
  by (simp_all add: turnover_def)

lemma turnover_nonneg [simp]: "0 \<le> turnover legs"
  by (induction legs) simp_all

lemma turnover_filter: "turnover (filter P legs) \<le> turnover legs"
  by (induction legs) auto

lemma turnover_member: "l \<in> set legs \<Longrightarrow> \<bar>lg_amount l\<bar> \<le> turnover legs"
  by (induction legs) (auto intro: add_increasing add_increasing2)

lemma net_sides: "net legs = side_total DR legs - side_total CR legs"
proof (induction legs)
  case (Cons l ls)
  then show ?case by (cases "lg_drCr l") (simp_all add: signed_def side_total_def)
qed (simp add: side_total_def)

lemma side_total_bound: "\<bar>side_total side legs\<bar> \<le> turnover legs"
proof (induction legs)
  case (Cons l ls)
  then show ?case by (simp add: side_total_def) linarith
qed (simp add: side_total_def)

lemma net_bound: "\<bar>net legs\<bar> \<le> turnover legs"
proof (induction legs)
  case (Cons l ls)
  then show ?case by (simp add: signed_def) linarith
qed simp

lemma net_split: "net legs = net (filter P legs) + net (filter (\<lambda>l. \<not> P l) legs)"
  by (induction legs) auto

lemma views_map:
  assumes "\<And>l. lg_drCr (f l) = lg_drCr l \<and> lg_amount (f l) = lg_amount l"
  shows "net (map f legs) = net legs" and "turnover (map f legs) = turnover legs"
  by (induction legs) (simp_all add: signed_def assms)

context decimal_package
begin

lemma side_sum_exact:
  assumes "\<forall>l\<in>set legs. paise (lg_amount l)" and "turnover legs < 10 ^ 18"
  shows "side_sum J side legs = side_total side legs"
proof -
  have "exact_column (map lg_amount legs)"
    using assms by (simp add: exact_column_def turnover_def comp_def)
  then show ?thesis
    by (simp add: side_sum_def side_total_def reduce_plus_def foldl_plus_0 exact_column_filter)
qed

lemma sides_exact:
  assumes "\<forall>l\<in>set legs. paise (lg_amount l)" and "turnover legs < 10 ^ 18"
  shows "d_minus J (side_sum J DR legs) (side_sum J CR legs) = net legs"
    and "d_minus J (side_sum J CR legs) (side_sum J DR legs) = - net legs"
proof -
  have "paise (side_total s legs)" for s
    unfolding side_total_def using assms(1) by (intro on_grid_sum_list) simp
  moreover have "\<bar>net legs\<bar> < 10 ^ 18" using net_bound [of legs] assms(2) by simp
  moreover have "net legs = side_total DR legs - side_total CR legs" by (rule net_sides)
  ultimately show "d_minus J (side_sum J DR legs) (side_sum J CR legs) = net legs"
    and "d_minus J (side_sum J CR legs) (side_sum J DR legs) = - net legs"
    by (simp_all add: side_sum_exact [OF assms] minus_paise)
qed

text \<open>The party leg closes the voucher.\<close>

lemma party_step_closes:
  assumes "party_step J input (Some party) (Some side) typed gen c = (p, gen', c')"
    and "vt_partyMode (di_type input) = PARTY_ONE" and "gc_refusals c' = []"
    and "\<forall>l\<in>set (typed @ gen). paise (lg_amount l)" and "turnover (typed @ gen) < 10 ^ 18"
  shows "net (typed @ gen') = 0" and "\<exists>l. gen' = gen @ [l] \<and> \<not> lg_postDated l"
proof -
  let ?dr = "side_sum J DR (typed @ gen)" and ?cr = "side_sum J CR (typed @ gen)"
  let ?amount = "if side = CR then d_minus J ?dr ?cr else d_minus J ?cr ?dr"
  have eq: "gen' = gen @ [party_leg J (int (length typed + length gen) + 1) party side ?amount typed]"
    using assms(1-3) by (auto simp: party_step_def Let_def split: if_splits)
  have "?amount = (if side = CR then net (typed @ gen) else - net (typed @ gen))"
    by (simp add: sides_exact [OF assms(4,5)])
  moreover have "paise (net (typed @ gen))"
    unfolding net_def using assms(4) by (intro on_grid_sum_list) (auto simp: signed_def)
  ultimately have "signed (party_leg J row party side ?amount typed) = - net (typed @ gen)" for row
    by (cases side) (simp_all add: signed_def party_leg_def del: net_simps)
  then show "net (typed @ gen') = 0" by (simp add: eq)
  show "\<exists>l. gen' = gen @ [l] \<and> \<not> lg_postDated l" by (simp add: eq party_leg_def)
qed

end

section \<open>Post-dated pairs\<close>

lemma instrument_pairs:
  assumes "\<forall>l\<in>set ls. lg_postDated l = (case lg_instrument l of None \<Rightarrow> False | Some i \<Rightarrow> in_isPostDated i)"
  shows "net (filter lg_postDated ls) + net (filter lg_postDated (instrument_legs n ls)) = 0"
  using assms
proof (induction ls arbitrary: n)
  case (Cons l ls)
  then show ?case
    by (cases "lg_instrument l"; cases "lg_drCr l")
      (auto simp: instrument_leg_def signed_def opposite_def split: option.splits)
qed simp

lemma gst_legs_today: "filter lg_postDated (gst_legs J n es) = []"
  by (induction es arbitrary: n) (simp_all add: gst_leg_def Let_def)

lemma gst_band_today:
  assumes "gst_band J input party side typed gen c = (gst, gen', c')"
  shows "filter lg_postDated gen' = filter lg_postDated gen"
proof (cases rule: gst_band_cases [of J input party side typed gen c])
  case (on side' pside lines st)
  then have "gen' = gen @ gst_legs J (int (length typed + length gen) + 1) (map snd (gs_byLedger st))"
    using assms by simp
  then show ?thesis by (simp only: filter_append gst_legs_today append_Nil2)
qed (use assms in simp)

lemma tds_one_today:
  assumes "tds_one J input party side typed gen c = (tds, gen', c')"
  shows "filter lg_postDated gen' = filter lg_postDated gen"
  using assms by (auto simp: tds_one_def Let_def split_def tds_leg_def split: option.splits if_splits)

lemma filter_postDated_map:
  assumes "\<And>l. lg_postDated (f l) = lg_postDated l"
  shows "filter lg_postDated (map f legs) = map f (filter lg_postDated legs)"
  using assms by (simp add: filter_map comp_def)

section \<open>Clean reading\<close>

text \<open>Reading that refuses nothing types one leg per line, in the order of the rows.\<close>

definition leg_of_line :: "derive_input \<Rightarrow> typed_line_input \<Rightarrow> int option \<times> DrCr \<times> leg_ledger" where
  "leg_of_line input line = (Some (tl_rowNo line), tl_drCr line, Facts (the (di_ledgers input (tl_ledgerId line))))"

definition line_view :: "internal_leg \<Rightarrow> int option \<times> DrCr \<times> leg_ledger" where
  "line_view l = (lg_lineRowNo l, lg_drCr l, lg_ledger l)"

lemma type_line_extends:
  assumes "type_line J input line (typed, c, pr) = (typed', c', pr')"
  shows "extends c c'"
  using trail.rel_type_line [of c c c J input line typed pr] assms by (simp add: rel_mid_def)

lemma type_lines_extends:
  assumes "type_lines J input lines seen (typed, c, pr) = (typed', c', pr')"
  shows "extends c c'"
  using trail.rel_type_lines [of c c c J input lines seen typed pr] assms by (simp add: rel_mid_def)

lemma type_line_clean:
  assumes "type_line J input line (typed, c, pr) = (typed', c', pr')" and "gc_refusals c' = []"
  shows "map line_view typed' = map line_view typed @ [leg_of_line input line] \<and> 0 < tl_amount line"
proof (cases "di_ledgers input (tl_ledgerId line)")
  case None
  with assms show ?thesis by (auto simp: type_line_def Let_def)
next
  case (Some ledger)
  let ?c1 = "refuse_if (tl_amount line \<le> 0) ''VCH_LINE_AMOUNT'' (Some (lineField (tl_rowNo line) ''.amount'')) (Some (tl_rowNo line)) c"
  obtain ins c2 pr2 where r: "readInstrument input line ledger (line_guards input line ledger ?c1, pr) = (ins, c2, pr2)"
    by (metis surj_pair)
  have "extends ?c1 c2"
    using trail.rel_readInstrument [OF trail.rel_line_guards [of ?c1 ?c1 ?c1 input line ledger], of input line ledger pr] r
    by (simp add: rel_mid_def)
  moreover have "c' = c2" using assms(1) Some r by (simp add: type_line_def Let_def)
  ultimately have "gc_refusals ?c1 = []" using assms(2) extends_clean by blast
  then have "0 < tl_amount line" by (auto simp: refuse_if_def split: if_splits)
  with assms(1) Some r show ?thesis
    by (auto simp: type_line_def Let_def typed_leg_def line_view_def leg_of_line_def)
qed

lemma type_lines_clean:
  assumes "type_lines J input lines seen (typed, c, pr) = (typed', c', pr')" and "gc_refusals c' = []"
  shows "map line_view typed' = map line_view typed @ map (leg_of_line input) lines \<and> (\<forall>line\<in>set lines. 0 < tl_amount line)"
  using assms
proof (induction lines arbitrary: seen typed c pr)
  case (Cons line lines)
  have "tl_rowNo line \<notin> set seen"
  proof
    assume "tl_rowNo line \<in> set seen"
    with Cons.prems(1) have "extends (refuse ''VCH_INVALID'' (Some (lineField (tl_rowNo line) [])) (Some (tl_rowNo line)) c) c'"
      by (auto dest: type_lines_extends)
    from extends_clean [OF this Cons.prems(2)] show False by simp
  qed
  moreover obtain typed1 c1 pr1 where tl: "type_line J input line (typed, c, pr) = (typed1, c1, pr1)" by (metis surj_pair)
  ultimately have rest: "type_lines J input lines (tl_rowNo line # seen) (typed1, c1, pr1) = (typed', c', pr')"
    using Cons.prems(1) by simp
  have "gc_refusals c1 = []" using extends_clean [OF type_lines_extends [OF rest] Cons.prems(2)] .
  from type_line_clean [OF tl this] Cons.IH [OF rest Cons.prems(2)] show ?case by simp
qed simp

lemma read_lines_clean:
  assumes "read_lines J input (c, pr) = (typed, c', pr')" and "gc_refusals c' = []"
  shows "map line_view typed = map (leg_of_line input) (sort_key tl_rowNo (di_lines input))"
    and "\<forall>line\<in>set (di_lines input). 0 < tl_amount line" and "di_lines input \<noteq> []"
proof -
  let ?c0 = "refuse_if (di_lines input = []) ''VCH_NO_LINES'' (Some ''lines'') None c"
  have r: "type_lines J input (sort_key tl_rowNo (di_lines input)) [] ([], ?c0, pr) = (typed, c', pr')"
    using assms(1) by (simp add: read_lines_def)
  from type_lines_clean [OF r assms(2)]
  show "map line_view typed = map (leg_of_line input) (sort_key tl_rowNo (di_lines input))"
    and "\<forall>line\<in>set (di_lines input). 0 < tl_amount line" by simp_all
  show "di_lines input \<noteq> []" using extends_clean [OF type_lines_extends [OF r] assms(2)] by (auto simp: refuse_if_def)
qed

lemma line_view_gross: "map line_view (gross_lines J pct ls typed) = map line_view typed"
  by (simp add: gross_lines_def line_view_def comp_def if_distrib)

lemma line_view_maps [simp]: "line_view (name_party ids l) = line_view l" "line_view (name_instrument l) = line_view l"
  by (simp_all add: line_view_def)

lemma tds_group_line_view: "map line_view (ms_typed (tds_group J input shaped g st)) = map line_view (ms_typed st)"
  by (simp add: tds_group_def tds_party_def tds_deduct_def Let_def line_view_gross split: leg_ledger.splits option.splits)

lemma tds_many_line_view: "map line_view (ms_typed (tds_many J input st)) = map line_view (ms_typed st)"
  unfolding tds_many_eq
  by (simp, intro impI fold_invariant [where P = "\<lambda>s. map line_view (ms_typed s) = map line_view (ms_typed st)" and Q = "\<lambda>g. True"])
    (simp_all add: tds_group_line_view)

lemma tds_many_one: "vt_partyMode (di_type input) \<noteq> PARTY_MANY \<Longrightarrow> tds_many J input st = st"
  by (simp add: tds_many_eq)

text \<open>In a one-party voucher only the lines of an instrument are post-dated.\<close>

lemma resolve_party_clean:
  assumes "resolve_party input c = (party, side, c')" and "vt_partyMode (di_type input) = PARTY_ONE" and "gc_refusals c' = []"
  shows "party \<noteq> None \<and> side \<noteq> None"
  using assms by (cases "di_party input"; cases "vt_partySide (di_type input)")
    (auto simp: resolve_party_def Let_def split: if_splits, metis+)

lemma derive_legs_typed:
  assumes "gc_refusals (ls_ctx (derive_legs J input c pr)) = []"
  shows "map line_view (ls_typed (derive_legs J input c pr)) = map (leg_of_line input) (sort_key tl_rowNo (di_lines input))"
    and "\<forall>line\<in>set (di_lines input). 0 < tl_amount line" and "ls_typed (derive_legs J input c pr) \<noteq> []"
proof -
  have "map line_view (ls_typed (derive_legs J input c pr)) = map (leg_of_line input) (sort_key tl_rowNo (di_lines input)) \<and>
    (\<forall>line\<in>set (di_lines input). 0 < tl_amount line) \<and> di_lines input \<noteq> []"
  proof (rule derive_legs_stages [where J = J and input = input and c = c and pr = pr])
    fix typed0 c1 pr' party side c2 gst gen1 c3 tds gen2 c4 st partyLeg gen4 c6
    assume a: "read_lines J input (calendar_guards input c, pr) = (typed0, c1, pr')"
      and st: "st = tds_many J input \<lparr> ms_typed = map name_instrument typed0, ms_gen = gen2, ms_ctx = c4,
            ms_lines = (case tds of None \<Rightarrow> [] | Some t \<Rightarrow> [t]), ms_unmappedTold = False \<rparr>"
      and g: "derive_legs J input c pr = \<lparr> ls_typed = map (name_party (party_ids input partyLeg (ms_typed st))) (ms_typed st),
        ls_gen = map (name_party (party_ids input partyLeg (ms_typed st))) gen4, ls_party = partyLeg,
        ls_gst = gst, ls_tds = tds, ls_tdsLines = ms_lines st, ls_ctx = c6, ls_promised = pr' \<rparr>"
      and e: "extends c1 c2" "extends c2 c3" "extends c3 c4" "extends c4 (ms_ctx st)" "extends (ms_ctx st) c6"
    have "extends c1 c6" using e by (blast intro: extends_trans)
    then have "gc_refusals c1 = []" by (rule extends_clean) (use assms g in simp)
    from read_lines_clean [OF a this] show ?thesis
      by (simp add: g st comp_def tds_many_line_view)
  qed
  moreover have "length (ls_typed (derive_legs J input c pr)) = length (di_lines input)"
    using arg_cong [OF conjunct1 [OF calculation], of length] by simp
  ultimately show "map line_view (ls_typed (derive_legs J input c pr)) = map (leg_of_line input) (sort_key tl_rowNo (di_lines input))"
    and "\<forall>line\<in>set (di_lines input). 0 < tl_amount line" and "ls_typed (derive_legs J input c pr) \<noteq> []"
    by auto
qed

text \<open>What posts today on a side of the derived voucher.\<close>

definition today_total :: "DrCr \<Rightarrow> derived_internal \<Rightarrow> rat" where
  "today_total side d = sum_list (map lg_amount (filter (\<lambda>l. lg_drCr l = side \<and> \<not> lg_postDated l) (dv_legs d)))"

lemma today_total_legs: "dv_legs d = ls_typed s @ ls_gen s \<Longrightarrow> today_total side d = side_total side (today_legs s)"
  by (simp add: today_total_def side_total_def today_legs_def conj_commute)

context decimal_package
begin

lemma one_party_nets:
  assumes "vt_partyMode (di_type input) = PARTY_ONE" and "gc_refusals (ls_ctx s) = []" and "s = derive_legs J input c pr"
    and "turnover (ls_typed s @ ls_gen s) < 10 ^ 18"
  shows "net (today_legs s) = 0"
proof (rule derive_legs_stages [where J = J and input = input and c = c and pr = pr])
  fix typed0 c1 pr' party side c2 gst gen1 c3 tds gen2 c4 st partyLeg gen4 c6
  assume a: "read_lines J input (calendar_guards input c, pr) = (typed0, c1, pr')"
    and b: "resolve_party input c1 = (party, side, c2)"
    and d: "gst_band J input party side (map name_instrument typed0) (instrument_legs (int (length typed0) + 1) typed0) c2 = (gst, gen1, c3)"
    and e: "tds_one J input party side (map name_instrument typed0) gen1 c3 = (tds, gen2, c4)"
    and st: "st = tds_many J input \<lparr> ms_typed = map name_instrument typed0, ms_gen = gen2, ms_ctx = c4,
            ms_lines = (case tds of None \<Rightarrow> [] | Some t \<Rightarrow> [t]), ms_unmappedTold = False \<rparr>"
    and f: "party_step J input party side (ms_typed st) (ms_gen st) (ms_ctx st) = (partyLeg, gen4, c6)"
    and g: "derive_legs J input c pr = \<lparr> ls_typed = map (name_party (party_ids input partyLeg (ms_typed st))) (ms_typed st),
        ls_gen = map (name_party (party_ids input partyLeg (ms_typed st))) gen4, ls_party = partyLeg,
        ls_gst = gst, ls_tds = tds, ls_tdsLines = ms_lines st, ls_ctx = c6, ls_promised = pr' \<rparr>"
    and x: "extends c2 c3" "extends c3 c4" "extends c4 (ms_ctx st)" "extends (ms_ctx st) c6"
  let ?typed = "map name_instrument typed0"
  have ms: "ms_typed st = ?typed" "ms_gen st = gen2" using assms(1) by (simp_all add: st tds_many_one)
  have clean: "gc_refusals c6 = []" using assms(2,3) g by simp
  have "extends c2 c6" using x by (blast intro: extends_trans)
  then have "gc_refusals c2 = []" using clean by (rule extends_clean)
  then obtain party' side' where p: "party = Some party'" "side = Some side'"
    using resolve_party_clean [OF b assms(1)] by auto
  have ok: "legs_ok ?typed gen4"
    using derive_legs_ok [of input c pr] unfolding g by (simp add: ms legs_ok_def rows_from_1_def comp_def)
  have t: "turnover (?typed @ gen4) < 10 ^ 18" using assms(4) unfolding assms(3) g by (simp add: views_map ms)
  obtain l where l: "gen4 = gen2 @ l" using f p by (auto simp: ms party_step_def Let_def split: if_splits)
  then have sub: "turnover (?typed @ gen2) < 10 ^ 18" "\<forall>l\<in>set (?typed @ gen2). paise (lg_amount l)"
    using t legs_ok_paise [OF ok] turnover_nonneg [of l] unfolding l turnover_simps by (linarith, auto)
  note closes = party_step_closes [OF f [unfolded p ms] assms(1) clean sub(2,1)]
  have shape: "\<forall>l\<in>set typed0. lg_postDated l = (case lg_instrument l of None \<Rightarrow> False | Some i \<Rightarrow> in_isPostDated i)"
    using read_lines_ok [of input "calendar_guards input c" pr] a by (simp add: legs_ok_def typed_shape_def)
  have "filter lg_postDated gen4 = filter lg_postDated (instrument_legs (int (length typed0) + 1) typed0)"
    using closes(2) tds_one_today [OF e] gst_band_today [OF d] by auto
  moreover have "net (filter lg_postDated ?typed) = net (filter lg_postDated typed0)"
    by (simp add: filter_postDated_map views_map)
  ultimately have "net (filter lg_postDated (?typed @ gen4)) = 0"
    using instrument_pairs [OF shape] by simp
  then have "net (filter (\<lambda>l. \<not> lg_postDated l) (?typed @ gen4)) = 0"
    using net_split [of "?typed @ gen4" lg_postDated] closes(1) by simp
  then show ?thesis
    unfolding assms(3) g today_legs_def by (simp add: ms filter_map comp_def views_map)
qed

lemma today_totals:
  assumes "turnover (ls_typed s @ ls_gen s) < 10 ^ 18" and "s = derive_legs J input c pr"
  shows "side_sum J side (today_legs s) = side_total side (today_legs s)" and "paise (side_total side (today_legs s))"
    and "d_minus J (side_total DR (today_legs s)) (side_total CR (today_legs s)) = net (today_legs s)"
proof -
  have p: "\<forall>l\<in>set (today_legs s). paise (lg_amount l)"
    using legs_ok_paise [OF derive_legs_ok [of input c pr]] assms(2) by (auto simp: today_legs_def)
  have t: "turnover (today_legs s) < 10 ^ 18"
    using turnover_filter [of _ "ls_typed s @ ls_gen s"] assms(1) unfolding today_legs_def by (rule le_less_trans)
  show eq: "side_sum J side (today_legs s) = side_total side (today_legs s)" for side by (rule side_sum_exact [OF p t])
  show "paise (side_total side (today_legs s))" unfolding eq [symmetric] by (rule paise_side_sum [OF p])
  show "d_minus J (side_total DR (today_legs s)) (side_total CR (today_legs s)) = net (today_legs s)"
    using sides_exact(1) [OF p t] by (simp only: eq)
qed

lemma balanced:
  assumes "derive J input c pr = Inr (d, k, p)" and "gc_refusals k = []" and "turnover (dv_legs d) < 10 ^ 18"
  shows "today_total DR d = today_total CR d \<and> dv_debit d = today_total DR d \<and> dv_credit d = today_total CR d \<and> dv_difference d = 0"
  using assms(1)
proof (rule derive_Inr)
  fix s bills allocs
  assume s: "s = derive_legs J input c pr" and legs: "dv_legs d = ls_typed s @ ls_gen s"
    and tot: "dv_debit d = round2 J (side_sum J DR (today_legs s))" "dv_credit d = round2 J (side_sum J CR (today_legs s))"
      "dv_difference d = d_minus J (dv_debit d) (dv_credit d)"
    and bills: "bill_step J input (ls_party s) (ls_typed s) (balance_guards J input s (dv_difference d)) = Inr (bills, allocs, k)"
  note t = today_totals [OF assms(3) [unfolded legs] s]
  have eq: "dv_debit d = side_total DR (today_legs s)" "dv_credit d = side_total CR (today_legs s)"
    "dv_difference d = net (today_legs s)"
    by (simp_all add: tot t)
  have "extends (balance_guards J input s (dv_difference d)) k"
    using any_bill_step_extends bills by blast
  then have clean: "gc_refusals (balance_guards J input s (dv_difference d)) = []" using assms(2) by (rule extends_clean)
  then have cs: "gc_refusals (ls_ctx s) = []" by (simp add: balance_guards_def refuse_if_def split: if_splits)
  have "net (today_legs s) = 0"
  proof (cases "vt_partyMode (di_type input) = PARTY_ONE")
    case True
    then show ?thesis using one_party_nets [OF _ cs s] assms(3) legs by simp
  next
    case False
    have "ls_typed s \<noteq> []" using derive_legs_typed(3) cs unfolding s by blast
    with False clean have "dv_difference d = 0" by (simp add: balance_guards_def refuse_if_def split: if_splits)
    with eq show ?thesis by simp
  qed
  with eq net_sides [of "today_legs s"] show ?thesis by (simp add: today_total_legs [OF legs])
qed

end

section \<open>Properties\<close>

text \<open>
  C9: a derivation that refuses nothing balances. The legs that post today have equal debits and
  credits, exactly; the totals reported are these sums and the difference reported is zero. The legs
  together must stay below 10 ^ 18, where amounts have at most 20 digits.
\<close>

theorem derive_balances:
  assumes "decimal_package J" and "derive J input c pr = Inr (d, k, p)" and "gc_refusals k = []"
    and "sum_list (map (\<lambda>l. \<bar>lg_amount l\<bar>) (dv_legs d)) < 10 ^ 18"
  shows "today_total DR d = today_total CR d \<and> dv_debit d = today_total DR d \<and> dv_credit d = today_total CR d \<and> dv_difference d = 0"
  by (rule decimal_package.balanced [OF assms(1-3)]) (use assms(4) in \<open>simp add: turnover_def\<close>)

lemma view_amounts: "map leg_view legs = vs \<Longrightarrow> sum_list (map (\<lambda>l. \<bar>lg_amount l\<bar>) legs) = sum_list (map (\<lambda>(r, s, l, a, p). \<bar>a\<bar>) vs)"
  by (auto simp: leg_view_def comp_def)

theorem derive_balances_witness:
  "\<exists>d. derive decimal20 sample_purchase sample_ctx [] = Inr (d, sample_ctx, []) \<and> dv_legs d \<noteq> [] \<and> dv_difference d = 0"
proof -
  obtain d where d: "derive decimal20 sample_purchase sample_ctx [] = Inr (d, sample_ctx, [])"
    and v: "map leg_view (dv_legs d) = [(1, DR, ''exp'', 1000, False), (2, DR, ''cgst'', 90, False), (3, DR, ''sgst'', 90, False),
      (4, CR, ''tds'', 100, False), (5, CR, ''job'', 1080, False)]"
    using purchase_derive [of sample_ctx] by (elim exE conjE)
  have "dv_difference d = 0"
    using derive_balances [OF decimal20_package d] view_amounts [OF v] by (simp add: sample_ctx_def newGuardContext_def)
  moreover have "dv_legs d \<noteq> []" using v by (cases "dv_legs d") simp_all
  ultimately show ?thesis using d by (intro exI [of _ d]) simp
qed

text \<open>
  C20: the legs are numbered 1, 2, 3, ... in the order they are listed, typed legs first: a row number
  names one leg. The typed legs are those with a line number, and no two carry the same.
\<close>

theorem derive_rows_numbered:
  assumes "decimal_package J" and "derive J input c pr = Inr (d, k, p)"
  shows "map lg_rowNo (dv_legs d) = map (\<lambda>i. int i + 1) [0..<length (dv_legs d)] \<and>
    (\<exists>typed gen. dv_legs d = typed @ gen \<and> (\<forall>l\<in>set typed. lg_source l = SRC_TYPED) \<and>
      (\<forall>l\<in>set gen. lg_source l \<noteq> SRC_TYPED \<and> lg_lineRowNo l = None) \<and> distinct (map lg_lineRowNo typed))"
  using assms(2)
proof (rule derive_Inr)
  fix s
  assume s: "s = derive_legs J input c pr" and legs: "dv_legs d = ls_typed s @ ls_gen s"
  have ok: "legs_ok (ls_typed s) (ls_gen s)" unfolding s by (rule decimal_package.derive_legs_ok [OF assms(1)])
  then have "map lg_rowNo (dv_legs d) = map (\<lambda>i. int i + 1) [0..<length (dv_legs d)]"
    by (simp add: legs_ok_def rows_from_1_def legs)
  moreover from ok have "(\<forall>l\<in>set (ls_typed s). lg_source l = SRC_TYPED) \<and>
      (\<forall>l\<in>set (ls_gen s). lg_source l \<noteq> SRC_TYPED \<and> lg_lineRowNo l = None) \<and> distinct (map lg_lineRowNo (ls_typed s))"
    by (simp add: legs_ok_def typed_shape_def gen_shape_def)
  ultimately show ?thesis using legs by blast
qed

theorem derive_rows_numbered_witness:
  "\<exists>d k p. derive decimal20 sample_payment sample_ctx [] = Inr (d, k, p) \<and> map lg_rowNo (dv_legs d) = [1, 2, 3, 4, 5]"
proof -
  obtain d where d: "derive decimal20 sample_payment sample_ctx [] = Inr (d, sample_ctx, [(''bk'', 1)])"
    and v: "map leg_view (dv_legs d) = [(1, DR, ''sup'', 1200, False), (2, DR, ''job'', 1000, True), (3, CR, ''bank'', 1200, False),
      (4, CR, ''bank'', 900, True), (5, CR, ''tds'', 100, True)]"
    using payment_derive [of sample_ctx] by (elim exE conjE)
  have "length (dv_legs d) = 5" using arg_cong [OF v, of length] by simp
  then have "map lg_rowNo (dv_legs d) = [1, 2, 3, 4, 5]"
    using conjunct1 [OF derive_rows_numbered [OF decimal20_package d]] by (simp add: upt_rec)
  with d show ?thesis by (intro exI [of _ d] exI [of _ sample_ctx]) simp
qed

text \<open>
  A derivation that refuses nothing types exactly one leg for every line sent, in the order of the
  row numbers, each on the line's side and on the ledger its id was found under; every line had a
  positive amount.
\<close>

theorem derive_types_every_line:
  assumes "decimal_package J" and "derive J input c pr = Inr (d, k, p)" and "gc_refusals k = []"
  shows "map (\<lambda>l. (lg_lineRowNo l, lg_drCr l, lg_ledger l)) (filter (\<lambda>l. lg_source l = SRC_TYPED) (dv_legs d)) =
      map (\<lambda>line. (Some (tl_rowNo line), tl_drCr line, Facts (the (di_ledgers input (tl_ledgerId line)))))
        (sort_key tl_rowNo (di_lines input)) \<and> (\<forall>line\<in>set (di_lines input). 0 < tl_amount line)"
  using assms(2)
proof (rule derive_Inr)
  fix s
  assume s: "s = derive_legs J input c pr" and legs: "dv_legs d = ls_typed s @ ls_gen s"
  have ok: "legs_ok (ls_typed s) (ls_gen s)" unfolding s by (rule decimal_package.derive_legs_ok [OF assms(1)])
  then have f: "filter (\<lambda>l. lg_source l = SRC_TYPED) (dv_legs d) = ls_typed s"
    unfolding legs by (auto simp: legs_ok_def typed_shape_def gen_shape_def filter_empty_conv filter_id_conv)
  have "gc_refusals (ls_ctx s) = []"
    using derive_ctx_extends [OF assms(2)] assms(3) unfolding s by (rule extends_clean)
  from derive_legs_typed [OF this [unfolded s]] show ?thesis
    by (simp add: f s line_view_def [abs_def] leg_of_line_def [abs_def])
qed

theorem derive_types_every_line_witness:
  "\<exists>d k p. derive decimal20 sample_payment sample_ctx [] = Inr (d, k, p) \<and>
    map lg_lineRowNo (filter (\<lambda>l. lg_source l = SRC_TYPED) (dv_legs d)) = [Some 1, Some 2]"
proof -
  obtain d where d: "derive decimal20 sample_payment sample_ctx [] = Inr (d, sample_ctx, [(''bk'', 1)])"
    using payment_derive [of sample_ctx] by (elim exE conjE)
  have "gc_refusals sample_ctx = []" by (simp add: sample_ctx_def newGuardContext_def)
  from arg_cong [OF conjunct1 [OF derive_types_every_line [OF decimal20_package d this]], of "map fst"] d
  show ?thesis by (intro exI [of _ d] exI [of _ sample_ctx]) (simp add: comp_def payment_fields sample_line_def)
qed

end
