(* ===== verification/Voucher_Bills.thy ===== *)
theory Voucher_Bills
  imports Voucher_Balance Decimal_Places
begin

text \<open>
  The bills of a derivation: which bill every allocation settles, that no bill is settled past what is
  pending on it, and that what a demanded leg does not allocate becomes an advance.
\<close>

section \<open>One allocation\<close>

definition alloc_key :: "internal_allocation \<Rightarrow> string" where
  "alloc_key x = billKey (bf_ablId (ia_bill x)) (bf_ablAccYear (ia_bill x))"

definition settled_on :: "string \<Rightarrow> internal_allocation list \<Rightarrow> rat" where
  "settled_on key xs = sum_list (map ia_amount (filter (\<lambda>x. alloc_key x = key) xs))"

lemma settled_on_simps [simp]: "settled_on key [] = 0"
  "settled_on key (xs @ [x]) = settled_on key xs + (if alloc_key x = key then ia_amount x else 0)"
  by (simp_all add: settled_on_def)

lemma settled_on_bound:
  assumes "\<forall>x\<in>set xs. 0 \<le> ia_amount x"
  shows "0 \<le> settled_on key xs \<and> settled_on key xs \<le> sum_list (map ia_amount xs)"
  using assms by (induction xs) (auto simp: settled_on_def)

text \<open>What an allocation that is accepted was checked for.\<close>

definition allocation_fits :: "derive_input \<Rightarrow> bill_leg list \<Rightarrow> allocation_input \<Rightarrow> internal_allocation \<Rightarrow> bool" where
  "allocation_fits input legs a x \<longleftrightarrow> ia_index x = va_index a \<and> ia_lineRowNo x = va_lineRowNo a \<and> 0 < va_amount a \<and>
     di_bills input (billKey (va_billId a) (va_billAccYear a)) = Some (ia_bill x) \<and>
     bf_isActive (ia_bill x) \<and> \<not> bf_isDeleted (ia_bill x) \<and> bf_companyId (ia_bill x) = co_companyId (di_company input) \<and>
     bf_partyId (ia_bill x) = lf_ledId (ia_party x) \<and>
     (\<exists>leg\<in>set legs. bl_lineRowNo leg = va_lineRowNo a \<and> ia_legRowNo x = bl_legRowNo leg \<and> ia_party x = bl_ledger leg \<and>
        bf_side (ia_bill x) \<noteq> bl_side leg)"

lemma allocate_bill_clean:
  assumes "allocate_bill J input mode legs a st = Inr st'" and "gc_refusals (bs_ctx st') = []"
  shows "\<exists>x used. allocation_fits input legs a x \<and> ia_amount x = round2 J (va_amount a) \<and> bs_allocations st' = bs_allocations st @ [x] \<and>
    used = d_plus J (or_else (jmap_get (bs_perBill st) (alloc_key x)) 0) (va_amount a) \<and> used \<le> bf_pendingAmount (ia_bill x) \<and>
    bs_perBill st' = jmap_set (alloc_key x) used (bs_perBill st)"
proof (cases "find (\<lambda>p. bl_lineRowNo p = va_lineRowNo a) legs")
  case None
  with assms show ?thesis by (auto simp: allocate_bill_def Let_def)
next
  case (Some leg)
  then have leg: "leg \<in> set legs" "bl_lineRowNo leg = va_lineRowNo a" by (auto simp: find_Some_iff)
  obtain bill where bill: "di_bills input (billKey (va_billId a) (va_billAccYear a)) = Some bill" "0 < va_amount a"
    using assms Some by (auto simp: allocate_bill_def Let_def split: option.splits if_splits)
  let ?x = "alloc_row J input mode a leg bill"
  have "\<not> bf_isDeleted bill \<and> bf_isActive bill \<and> bf_companyId bill = co_companyId (di_company input) \<and>
      bf_partyId bill = lf_ledId (bl_ledger leg) \<and> bf_side bill \<noteq> bl_side leg"
    using assms Some bill by (auto simp: allocate_bill_def Let_def split: if_splits)
  moreover from this have "bs_allocations st' = bs_allocations st @ [?x] \<and>
      d_plus J (or_else (jmap_get (bs_perBill st) (alloc_key ?x)) 0) (va_amount a) \<le> bf_pendingAmount bill \<and>
      bs_perBill st' = jmap_set (alloc_key ?x) (d_plus J (or_else (jmap_get (bs_perBill st) (alloc_key ?x)) 0) (va_amount a)) (bs_perBill st)"
    using assms Some bill by (auto simp: allocate_bill_def Let_def alloc_key_def alloc_row_def refuse_if_def split: if_splits)
  ultimately show ?thesis using bill leg
    by (intro exI [of _ ?x]) (auto simp: allocation_fits_def alloc_row_def Let_def)
qed

lemma allocate_bill_extends:
  assumes "allocate_bill J input mode legs a st = Inr st'" shows "extends (bs_ctx st) (bs_ctx st')"
  using trail.rel_allocate_bill [of "bs_ctx st" st st J input mode legs a] assms by (simp add: rel_bills_def)

text \<open>All the allocations: one row for each, and every bill within its pending amount.\<close>

definition well_keyed :: "derive_input \<Rightarrow> bool" where
  "well_keyed input \<longleftrightarrow> (\<forall>id year b. di_bills input (billKey id year) = Some b \<longrightarrow> billKey (bf_ablId b) (bf_ablAccYear b) = billKey id year)"

definition tally :: "derive_input \<Rightarrow> bill_state \<Rightarrow> bool" where
  "tally input st \<longleftrightarrow> (\<forall>x\<in>set (bs_allocations st). di_bills input (alloc_key x) = Some (ia_bill x) \<and> 0 \<le> ia_amount x \<and> paise (ia_amount x)) \<and>
     (\<forall>key. or_else (jmap_get (bs_perBill st) key) 0 = settled_on key (bs_allocations st)) \<and>
     (\<forall>x\<in>set (bs_allocations st). settled_on (alloc_key x) (bs_allocations st) \<le> bf_pendingAmount (ia_bill x))"

lemma tally_empty: "tally input \<lparr>bs_ctx = c, bs_perBill = [], bs_allocations = []\<rparr>"
  by (simp add: tally_def or_else_def)

context decimal_package
begin

lemma allocate_bill_tally:
  assumes "tally input st" and "well_keyed input" and "allocate_bill J input mode legs a st = Inr st'" and "gc_refusals (bs_ctx st') = []"
    and "paise (va_amount a)" and "sum_list (map ia_amount (bs_allocations st)) + va_amount a < 10 ^ 18"
  shows "\<exists>x. allocation_fits input legs a x \<and> ia_amount x = va_amount a \<and> bs_allocations st' = bs_allocations st @ [x] \<and> tally input st'"
proof -
  obtain x used where x: "allocation_fits input legs a x" "ia_amount x = round2 J (va_amount a)"
      "bs_allocations st' = bs_allocations st @ [x]"
      "used = d_plus J (or_else (jmap_get (bs_perBill st) (alloc_key x)) 0) (va_amount a)" "used \<le> bf_pendingAmount (ia_bill x)"
      "bs_perBill st' = jmap_set (alloc_key x) used (bs_perBill st)"
    using allocate_bill_clean [OF assms(3,4)] by blast
  have amount: "ia_amount x = va_amount a" "0 < va_amount a" using x(1,2) assms(5) by (simp_all add: allocation_fits_def)
  have mine: "di_bills input (alloc_key x) = Some (ia_bill x)"
    using x(1) assms(2) by (auto simp: allocation_fits_def well_keyed_def alloc_key_def)
  let ?s = "settled_on (alloc_key x) (bs_allocations st)"
  have "paise ?s" unfolding settled_on_def using assms(1) by (intro on_grid_sum_list) (auto simp: tally_def)
  moreover have s: "0 \<le> ?s \<and> ?s \<le> sum_list (map ia_amount (bs_allocations st))"
    by (rule settled_on_bound) (use assms(1) in \<open>simp add: tally_def\<close>)
  ultimately have used: "used = ?s + va_amount a"
    using x(4) assms(1,5,6) amount(2) by (simp add: tally_def plus_paise)
  have "tally input st'"
    unfolding tally_def x(3,6)
  proof (intro conjI ballI allI)
    fix y assume y: "y \<in> set (bs_allocations st @ [x])"
    then show found: "di_bills input (alloc_key y) = Some (ia_bill y)" and "0 \<le> ia_amount y" and "paise (ia_amount y)"
      using assms(1,5) amount mine by (auto simp: tally_def)
    show "settled_on (alloc_key y) (bs_allocations st @ [x]) \<le> bf_pendingAmount (ia_bill y)"
    proof (cases "alloc_key x = alloc_key y")
      case True
      then have "ia_bill y = ia_bill x" using found mine by simp
      with True used x(5) amount show ?thesis by simp
    next
      case False
      then show ?thesis using y assms(1) by (auto simp: tally_def)
    qed
  next
    fix key show "or_else (jmap_get (jmap_set (alloc_key x) used (bs_perBill st)) key) 0 = settled_on key (bs_allocations st @ [x])"
      using assms(1) used amount(1) by (simp add: tally_def update_conv' or_else_def)
  qed
  with x amount show ?thesis by blast
qed

lemma allocate_bills_tally:
  assumes "tally input st" and "well_keyed input" and "allocate_bills J input mode legs as st = Inr st'" and "gc_refusals (bs_ctx st') = []"
    and "\<forall>a\<in>set as. paise (va_amount a)" and "sum_list (map ia_amount (bs_allocations st)) + sum_list (map (\<lambda>a. \<bar>va_amount a\<bar>) as) < 10 ^ 18"
  shows "\<exists>xs. bs_allocations st' = bs_allocations st @ xs \<and> tally input st' \<and>
    list_all2 (\<lambda>a x. allocation_fits input legs a x \<and> ia_amount x = va_amount a) as xs"
  using assms
proof (induction as arbitrary: st)
  case (Cons a as)
  obtain st1 where st1: "allocate_bill J input mode legs a st = Inr st1" "allocate_bills J input mode legs as st1 = Inr st'"
    using Cons.prems(3) by (auto simp: e_bind_Inr_conv)
  have "gc_refusals (bs_ctx st1) = []" using extends_clean [OF allocate_bills_extends [OF st1(2)] Cons.prems(4)] .
  moreover have small: "sum_list (map ia_amount (bs_allocations st)) + va_amount a < 10 ^ 18"
  proof -
    have "0 \<le> sum_list (map (\<lambda>a. \<bar>va_amount a\<bar>) as)" by (induction as) simp_all
    with Cons.prems(6) show ?thesis by (simp add: abs_if split: if_splits)
  qed
  ultimately obtain x where x: "allocation_fits input legs a x" "ia_amount x = va_amount a"
      "bs_allocations st1 = bs_allocations st @ [x]" "tally input st1"
    using allocate_bill_tally [OF Cons.prems(1,2) st1(1)] Cons.prems(5) by auto
  then have "0 < va_amount a" by (simp add: allocation_fits_def)
  with Cons.IH [OF x(4) Cons.prems(2) st1(2) Cons.prems(4)] Cons.prems(5,6) x
  obtain xs where "bs_allocations st' = bs_allocations st1 @ xs" "tally input st'"
      "list_all2 (\<lambda>a x. allocation_fits input legs a x \<and> ia_amount x = va_amount a) as xs"
    by (auto simp: add.assoc)
  with x show ?case by (intro exI [of _ "x # xs"]) simp
qed simp

end

text \<open>
  Amounts may be sent with more places than a paisa: the code adds them as sent and writes each rounded.
  The same loop over what was sent, each allocation paired with its row.
\<close>

definition sent_on :: "string \<Rightarrow> (allocation_input \<times> internal_allocation) list \<Rightarrow> rat" where
  "sent_on key ps = sum_list (map (\<lambda>(a, x). va_amount a) (filter (\<lambda>(a, x). alloc_key x = key) ps))"

lemma sent_on_simps [simp]: "sent_on key [] = 0"
  "sent_on key (ps @ [(a, x)]) = sent_on key ps + (if alloc_key x = key then va_amount a else 0)"
  by (simp_all add: sent_on_def)

definition sent_tally :: "nat \<Rightarrow> derive_input \<Rightarrow> (allocation_input \<times> internal_allocation) list \<Rightarrow> bill_state \<Rightarrow> bool" where
  "sent_tally n input ps st \<longleftrightarrow> bs_allocations st = map snd ps \<and>
     (\<forall>(a, x)\<in>set ps. on_grid n (va_amount a) \<and> 0 < va_amount a \<and> ia_amount x = half_up 2 (va_amount a) \<and>
        di_bills input (alloc_key x) = Some (ia_bill x)) \<and>
     (\<forall>key. or_else (jmap_get (bs_perBill st) key) 0 = sent_on key ps) \<and>
     (\<forall>(a, x)\<in>set ps. sent_on (alloc_key x) ps \<le> bf_pendingAmount (ia_bill x))"

lemma sent_on_bound:
  assumes "\<forall>(a, x)\<in>set ps. 0 < va_amount a"
  shows "0 \<le> sent_on key ps \<and> sent_on key ps \<le> sum_list (map (\<lambda>(a, x). va_amount a) ps)"
  using assms by (induction ps) (auto simp: sent_on_def)

lemma rows_near_sent:
  assumes "\<forall>(a, x)\<in>set ps. ia_amount x = half_up 2 (va_amount a)"
  shows "settled_on key (map snd ps) \<le> sent_on key ps
      + of_nat (length (filter (\<lambda>x. alloc_key x = key) (map snd ps))) / 200"
    and "\<forall>(a, x)\<in>set ps. paise (va_amount a) \<Longrightarrow> settled_on key (map snd ps) = sent_on key ps"
proof -
  have near: "half_up 2 y \<le> y + 1 / 200" for y using abs_le_D1 [OF half_up_near [of y]] by linarith
  show "settled_on key (map snd ps) \<le> sent_on key ps
      + of_nat (length (filter (\<lambda>x. alloc_key x = key) (map snd ps))) / 200"
    using assms
  proof (induction ps)
    case (Cons q ps)
    obtain a x where q: "q = (a, x)" by (cases q)
    then have "settled_on key (map snd ps) \<le> sent_on key ps + of_nat (length (filter (\<lambda>x. alloc_key x = key) (map snd ps))) / 200"
      and "ia_amount x = half_up 2 (va_amount a)" using Cons by auto
    with near [of "va_amount a"] show ?case by (simp add: q settled_on_def sent_on_def add_divide_distrib)
  qed (simp add: settled_on_def)
  show "\<forall>(a, x)\<in>set ps. paise (va_amount a) \<Longrightarrow> settled_on key (map snd ps) = sent_on key ps"
    using assms
  proof (induction ps)
    case (Cons q ps)
    obtain a x where q: "q = (a, x)" by (cases q)
    then have "settled_on key (map snd ps) = sent_on key ps" and "ia_amount x = va_amount a" using Cons by auto
    then show ?case by (simp add: q settled_on_def sent_on_def)
  qed (simp add: settled_on_def)
qed

context decimal_package
begin

lemma allocate_bill_sent:
  assumes "sent_tally n input ps st" and "well_keyed input" and "allocate_bill J input mode legs a st = Inr st'" and "gc_refusals (bs_ctx st') = []"
    and "on_grid n (va_amount a)" and "(sum_list (map (\<lambda>(a, x). va_amount a) ps) + \<bar>va_amount a\<bar>) * 10 ^ n < 10 ^ 20"
  shows "\<exists>x. sent_tally n input (ps @ [(a, x)]) st' \<and> 0 < va_amount a"
proof -
  obtain x used where x: "allocation_fits input legs a x" "ia_amount x = round2 J (va_amount a)"
      "bs_allocations st' = bs_allocations st @ [x]"
      "used = d_plus J (or_else (jmap_get (bs_perBill st) (alloc_key x)) 0) (va_amount a)" "used \<le> bf_pendingAmount (ia_bill x)"
      "bs_perBill st' = jmap_set (alloc_key x) used (bs_perBill st)"
    using allocate_bill_clean [OF assms(3,4)] by blast
  have pos: "0 < va_amount a" using x(1) by (simp add: allocation_fits_def)
  have mine: "di_bills input (alloc_key x) = Some (ia_bill x)"
    using x(1) assms(2) by (auto simp: allocation_fits_def well_keyed_def alloc_key_def)
  have t: "\<forall>(a, x)\<in>set ps. on_grid n (va_amount a) \<and> 0 < va_amount a \<and> ia_amount x = half_up 2 (va_amount a) \<and>
      di_bills input (alloc_key x) = Some (ia_bill x)"
    and per: "or_else (jmap_get (bs_perBill st) key) 0 = sent_on key ps"
    and within: "\<forall>(a, x)\<in>set ps. sent_on (alloc_key x) ps \<le> bf_pendingAmount (ia_bill x)"
    and rows: "bs_allocations st = map snd ps" for key
    using assms(1) by (auto simp: sent_tally_def)
  let ?s = "sent_on (alloc_key x) ps"
  have s: "0 \<le> ?s \<and> ?s \<le> sum_list (map (\<lambda>(a, x). va_amount a) ps)" by (rule sent_on_bound) (use t in fastforce)
  have "on_grid n ?s" unfolding sent_on_def using t by (intro on_grid_sum_list) auto
  moreover have "\<bar>?s + va_amount a\<bar> * 10 ^ n < 10 ^ 20"
  proof -
    have "\<bar>?s + va_amount a\<bar> \<le> sum_list (map (\<lambda>(a, x). va_amount a) ps) + \<bar>va_amount a\<bar>" using s pos by simp
    then have "\<bar>?s + va_amount a\<bar> * 10 ^ n \<le> (sum_list (map (\<lambda>(a, x). va_amount a) ps) + \<bar>va_amount a\<bar>) * 10 ^ n"
      by (intro mult_right_mono) simp_all
    with assms(6) show ?thesis by (rule order_le_less_trans [rotated])
  qed
  ultimately have used: "used = ?s + va_amount a" using assms(5) unfolding x(4) per by (intro plus_grid)
  have same: "ia_bill y = ia_bill x" if "(b, y) \<in> set ps" "alloc_key y = alloc_key x" for b y
    using t that mine by fastforce
  have "sent_tally n input (ps @ [(a, x)]) st'"
    unfolding sent_tally_def x(3,6)
    using t within rows used x(2,5) per pos mine assms(5) same
    by (auto simp: update_conv' round2_def toDP_half_up or_else_def sent_on_def split: option.splits)
  with pos show ?thesis by blast
qed

lemma allocate_bills_sent:
  assumes "sent_tally n input ps st" and "well_keyed input" and "allocate_bills J input mode legs as st = Inr st'" and "gc_refusals (bs_ctx st') = []"
    and "\<forall>a\<in>set as. on_grid n (va_amount a)"
    and "(sum_list (map (\<lambda>(a, x). va_amount a) ps) + sum_list (map (\<lambda>a. \<bar>va_amount a\<bar>) as)) * 10 ^ n < 10 ^ 20"
  shows "\<exists>qs. sent_tally n input (ps @ qs) st' \<and> map fst qs = as"
  using assms
proof (induction as arbitrary: ps st)
  case (Cons a as)
  obtain st1 where st1: "allocate_bill J input mode legs a st = Inr st1" "allocate_bills J input mode legs as st1 = Inr st'"
    using Cons.prems(3) by (auto simp: e_bind_Inr_conv)
  have clean: "gc_refusals (bs_ctx st1) = []" using extends_clean [OF allocate_bills_extends [OF st1(2)] Cons.prems(4)] .
  have "0 \<le> sum_list (map (\<lambda>a. \<bar>va_amount a\<bar>) as)" by (induction as) simp_all
  then have "(sum_list (map (\<lambda>(a, x). va_amount a) ps) + \<bar>va_amount a\<bar>) * 10 ^ n \<le>
      (sum_list (map (\<lambda>(a, x). va_amount a) ps) + sum_list (map (\<lambda>a. \<bar>va_amount a\<bar>) (a # as))) * 10 ^ n"
    by (intro mult_right_mono) simp_all
  then have small: "(sum_list (map (\<lambda>(a, x). va_amount a) ps) + \<bar>va_amount a\<bar>) * 10 ^ n < 10 ^ 20"
    using Cons.prems(6) by (rule order_le_less_trans)
  obtain x where x: "sent_tally n input (ps @ [(a, x)]) st1" "0 < va_amount a"
    using allocate_bill_sent [OF Cons.prems(1,2) st1(1) clean _ small] Cons.prems(5) by auto
  obtain qs where "sent_tally n input ((ps @ [(a, x)]) @ qs) st'" "map fst qs = as"
    using Cons.IH [OF x(1) Cons.prems(2) st1(2) Cons.prems(4)] Cons.prems(5,6) x(2) by (auto simp: add.assoc)
  then show ?case by (intro exI [of _ "(a, x) # qs"]) simp
qed (auto intro: exI [of _ "[]"])

end

section \<open>The bills of the legs\<close>

definition billed :: "decimal_js \<Rightarrow> derive_input \<Rightarrow> internal_allocation list \<Rightarrow> bill_leg \<Rightarrow> internal_bill list \<Rightarrow> bool" where
  "billed J input allocs leg new \<longleftrightarrow> (let allocated = allocated_on J (bl_lineRowNo leg) allocs in
     allocated \<le> bl_amount leg \<and> (\<forall>b\<in>set new. ib_legRowNo b = bl_legRowNo leg) \<and>
     (vt_billwiseMode (di_type input) = DEMAND \<longrightarrow> new = (if allocated = bl_amount leg then [] else [advance_bill J leg allocated])))"

lemma bill_of_leg_clean:
  assumes "bill_of_leg J input allocs leg (bs, c) = Inr (bs', c')" and "gc_refusals c' = []"
  shows "\<exists>new. bs' = bs @ new \<and> billed J input allocs leg new"
  using assms
  by (auto simp: billed_def bill_of_leg_def Let_def advance_bill_def raised_bill_def e_bind_Inr_conv refuse_if_def not_less split: if_splits)

lemma bills_of_legs_clean:
  assumes "bills_of_legs J input allocs legs (bs, c) = Inr (bs', c')" and "gc_refusals c' = []"
  shows "\<exists>bss. bs' = bs @ concat bss \<and> list_all2 (billed J input allocs) legs bss"
  using assms
proof (induction legs arbitrary: bs c)
  case Nil
  then show ?case by (intro exI [of _ "[]"]) simp
next
  case (Cons leg legs)
  obtain bs1 c1 where st: "bill_of_leg J input allocs leg (bs, c) = Inr (bs1, c1)" "bills_of_legs J input allocs legs (bs1, c1) = Inr (bs', c')"
    using Cons.prems(1) by (auto simp: e_bind_Inr_conv)
  obtain new where new: "bs1 = bs @ new" "billed J input allocs leg new"
    using bill_of_leg_clean [OF st(1) extends_clean [OF bills_of_legs_extends [OF st(2), simplified] Cons.prems(2)]] by blast
  obtain bss where "bs' = bs1 @ concat bss" "list_all2 (billed J input allocs) legs bss" using Cons.IH [OF st(2) Cons.prems(2)] by blast
  with new show ?case by (intro exI [of _ "new # bss"]) simp
qed

lemma concat_rows:
  assumes "list_all2 (\<lambda>leg new. \<forall>b\<in>set new. ib_legRowNo b = bl_legRowNo leg) legs bss" and "distinct (map bl_legRowNo legs)"
    and "(leg, new) \<in> set (zip legs bss)"
  shows "filter (\<lambda>b. ib_legRowNo b = bl_legRowNo leg) (concat bss) = new"
  using assms
proof (induction legs bss rule: list_all2_induct)
  case (Cons k ks bs bss)
  have away: "filter (\<lambda>b. ib_legRowNo b = bl_legRowNo k) (concat bss) = []"
  proof -
    have "ib_legRowNo b \<noteq> bl_legRowNo k" if b: "b \<in> set (concat bss)" for b
    proof -
      obtain n where "n \<in> set bss" "b \<in> set n" using b by auto
      then obtain i where i: "i < length bss" "b \<in> set (bss ! i)" by (auto simp: in_set_conv_nth)
      then have "i < length ks" "ib_legRowNo b = bl_legRowNo (ks ! i)"
        using Cons.hyps(2) by (simp_all add: list_all2_conv_all_nth)
      moreover have "bl_legRowNo (ks ! i) \<in> bl_legRowNo ` set ks" using \<open>i < length ks\<close> by (intro imageI nth_mem)
      ultimately show ?thesis using Cons.prems(1) by (metis distinct.simps(2) list.map(2) list.set_map)
    qed
    then show ?thesis by (simp only: filter_empty_conv) blast
  qed
  show ?case
  proof (cases "leg = k \<and> new = bs")
    case True
    then show ?thesis using away Cons.hyps(1) by simp
  next
    case False
    then have z: "(leg, new) \<in> set (zip ks bss)" using Cons.prems(2) by auto
    then have "leg \<in> set ks" by (rule set_zip_leftD)
    then have "bl_legRowNo leg \<noteq> bl_legRowNo k" using Cons.prems(1) by (auto simp: image_iff)
    then show ?thesis using Cons.IH [OF _ z] Cons.prems(1) Cons.hyps(1) by (auto simp: filter_empty_conv)
  qed
qed simp

text \<open>The legs that take bills are legs of the voucher, each once.\<close>

lemma bill_legs_typed:
  assumes "leg \<in> set (bill_legs input None typed)"
  shows "\<exists>l\<in>set typed. lg_rowNo l = bl_legRowNo leg \<and> lg_amount l = bl_amount leg"
  using assms by (auto simp: bill_legs_def split: if_splits leg_ledger.splits)

lemma bill_legs_distinct:
  assumes "distinct (map lg_rowNo typed)"
  shows "distinct (map bl_legRowNo (bill_legs input party typed))"
proof -
  have row: "bl_legRowNo leg \<in> lg_rowNo ` set typed" if "leg \<in> set (bill_legs input None typed)" for leg typed
    using bill_legs_typed [OF that] by force
  have "distinct (map bl_legRowNo (bill_legs input None typed))"
    using assms
  proof (induction typed)
    case (Cons l typed)
    have "bill_legs input None (l # typed) = (if vt_partyMode (di_type input) = PARTY_MANY then bill_legs input None [l] else []) @ bill_legs input None typed"
      by (simp add: bill_legs_def)
    moreover have "bl_legRowNo ` set (bill_legs input None typed) \<subseteq> lg_rowNo ` set typed" using row by blast
    ultimately show ?case using Cons by (auto simp: bill_legs_def split: leg_ledger.splits)
  qed (simp add: bill_legs_def)
  then show ?thesis by (cases party) (simp_all add: bill_legs_def)
qed

lemma bill_legs_posted:
  assumes "leg \<in> set (bill_legs input (ls_party (derive_legs J input c pr)) (ls_typed (derive_legs J input c pr)))"
  shows "\<exists>l\<in>set (ls_typed (derive_legs J input c pr) @ ls_gen (derive_legs J input c pr)). lg_rowNo l = bl_legRowNo leg \<and> lg_amount l = bl_amount leg"
proof (rule derive_legs_stages [where J = J and input = input and c = c and pr = pr])
  fix party side gst tds pr' st partyLeg gen4 c6
  assume f: "party_step J input party side (ms_typed st) (ms_gen st) (ms_ctx st) = (partyLeg, gen4, c6)"
    and g: "derive_legs J input c pr = \<lparr> ls_typed = map (name_party (party_ids input partyLeg (ms_typed st))) (ms_typed st),
        ls_gen = map (name_party (party_ids input partyLeg (ms_typed st))) gen4, ls_party = partyLeg,
        ls_gst = gst, ls_tds = tds, ls_tdsLines = ms_lines st, ls_ctx = c6, ls_promised = pr' \<rparr>"
  show ?thesis
  proof (cases partyLeg)
    case None
    then show ?thesis using bill_legs_typed assms unfolding g by fastforce
  next
    case (Some p)
    then have "\<exists>l\<in>set gen4. lg_rowNo l = dp_rowNo p \<and> lg_amount l = dp_amount p"
      using f by (auto simp: party_step_def Let_def party_leg_def split: option.splits if_splits)
    then obtain l where "l \<in> set gen4" "lg_rowNo l = dp_rowNo p" "lg_amount l = dp_amount p" by blast
    moreover have "bl_legRowNo leg = dp_rowNo p \<and> bl_amount leg = dp_amount p"
      using assms Some unfolding g by (simp add: bill_legs_def)
    ultimately show ?thesis unfolding g by (intro bexI [of _ "name_party (party_ids input partyLeg (ms_typed st)) l"]) simp_all
  qed
qed

section \<open>The bills of a derivation\<close>

text \<open>The lines that settle bills: those of \<open>bill_legs\<close> on the typed legs of the voucher.\<close>

definition typed_legs :: "derived_internal \<Rightarrow> internal_leg list" where
  "typed_legs d = filter (\<lambda>l. lg_source l = SRC_TYPED) (dv_legs d)"

definition settling_legs :: "derive_input \<Rightarrow> derived_internal \<Rightarrow> bill_leg list" where
  "settling_legs input d = bill_legs input (dv_party d) (typed_legs d)"

context decimal_package
begin

lemma typed_legs_derived:
  assumes "derive J input c pr = Inr (d, k, p)"
  shows "typed_legs d = ls_typed (derive_legs J input c pr)"
  using assms
proof (rule derive_Inr)
  fix s
  assume s: "s = derive_legs J input c pr" and legs: "dv_legs d = ls_typed s @ ls_gen s"
  have "legs_ok (ls_typed s) (ls_gen s)" unfolding s by (rule derive_legs_ok)
  then have "typed_legs d = ls_typed s"
    unfolding typed_legs_def legs by (auto simp: legs_ok_def typed_shape_def gen_shape_def filter_empty_conv filter_id_conv)
  with s show "typed_legs d = ls_typed (derive_legs J input c pr)" by simp
qed

lemma derive_allocated:
  assumes "derive J input c pr = Inr (d, k, p)" and "gc_refusals k = []" and "well_keyed input"
    and "\<forall>a\<in>set (di_allocations input). paise (va_amount a)" and "sum_list (map (\<lambda>a. \<bar>va_amount a\<bar>) (di_allocations input)) < 10 ^ 18"
  shows "list_all2 (\<lambda>a x. allocation_fits input (settling_legs input d) a x \<and> ia_amount x = va_amount a) (di_allocations input) (dv_allocations d) \<and>
    (\<forall>x\<in>set (dv_allocations d). settled_on (alloc_key x) (dv_allocations d) \<le> bf_pendingAmount (ia_bill x))"
  using assms(1)
proof (rule derive_Inr)
  fix s bills allocs
  assume s: "s = derive_legs J input c pr" and d: "dv_allocations d = allocs" "dv_party d = ls_party s"
    and b: "bill_step J input (ls_party s) (ls_typed s) (balance_guards J input s (dv_difference d)) = Inr (bills, allocs, k)"
  have legs: "settling_legs input d = bill_legs input (ls_party s) (ls_typed s)"
    by (simp add: settling_legs_def typed_legs_derived [OF assms(1)] d s)
  from b show ?thesis
  proof (cases rule: bill_step_cases)
    case off
    then show ?thesis using assms(2) d by (simp add: refuse_if_def split: if_splits)
  next
    case (on st)
    have "gc_refusals (bs_ctx st) = []" using bills_of_legs_extends [OF on(4)] assms(2) by (auto dest: extends_clean)
    from allocate_bills_tally [OF tally_empty assms(3) on(2) this assms(4)] assms(5) d legs on(3)
    show ?thesis by (auto simp: tally_def)
  qed
qed

lemma derive_sent:
  assumes "derive J input c pr = Inr (d, k, p)" and "gc_refusals k = []" and "well_keyed input"
    and "\<forall>a\<in>set (di_allocations input). on_grid n (va_amount a)"
    and "sum_list (map (\<lambda>a. \<bar>va_amount a\<bar>) (di_allocations input)) * 10 ^ n < 10 ^ 20"
  shows "\<exists>ps. map fst ps = di_allocations input \<and> map snd ps = dv_allocations d \<and>
    (\<forall>(a, x)\<in>set ps. ia_amount x = half_up 2 (va_amount a) \<and> sent_on (alloc_key x) ps \<le> bf_pendingAmount (ia_bill x))"
  using assms(1)
proof (rule derive_Inr)
  fix s bills allocs
  assume s: "s = derive_legs J input c pr" and d: "dv_allocations d = allocs" "dv_party d = ls_party s"
    and b: "bill_step J input (ls_party s) (ls_typed s) (balance_guards J input s (dv_difference d)) = Inr (bills, allocs, k)"
  from b show ?thesis
  proof (cases rule: bill_step_cases)
    case off
    then show ?thesis using assms(2) d by (auto simp: refuse_if_def split: if_splits intro!: exI [of _ "[]"])
  next
    case (on st)
    have clean: "gc_refusals (bs_ctx st) = []" using bills_of_legs_extends [OF on(4)] assms(2) by (auto dest: extends_clean)
    have "sent_tally n input [] \<lparr>bs_ctx = balance_guards J input s (dv_difference d), bs_perBill = [], bs_allocations = []\<rparr>"
      by (simp add: sent_tally_def or_else_def)
    from allocate_bills_sent [OF this assms(3) on(2) clean assms(4)] assms(5) d on(3)
    show ?thesis by (auto simp: sent_tally_def)
  qed
qed

lemma allocated_exact:
  assumes "list_all2 (\<lambda>a x. ia_amount x = va_amount a \<and> Q a x) as xs" and "\<forall>a\<in>set as. paise (va_amount a)"
    and "sum_list (map (\<lambda>a. \<bar>va_amount a\<bar>) as) < 10 ^ 18"
  shows "allocated_on J row xs = sum_list (map ia_amount (filter (\<lambda>x. ia_lineRowNo x = row) xs))"
    and "paise (allocated_on J row xs)"
proof -
  have m: "map ia_amount xs = map va_amount as"
    using assms(1) by (induction rule: list_all2_induct) auto
  have col: "exact_column (map ia_amount xs)"
    using assms(2,3) unfolding m by (simp add: exact_column_def comp_def)
  show eq: "allocated_on J row xs = sum_list (map ia_amount (filter (\<lambda>x. ia_lineRowNo x = row) xs))"
    using col by (simp add: allocated_on_def reduce_plus_def foldl_plus_0 exact_column_filter)
  have "\<forall>x\<in>set xs. paise (ia_amount x)" using col by (simp add: exact_column_def)
  then show "paise (allocated_on J row xs)" unfolding eq by (intro on_grid_sum_list) auto
qed

lemma derive_demanded:
  assumes "derive J input c pr = Inr (d, k, p)" and "gc_refusals k = []" and "well_keyed input"
    and "\<forall>a\<in>set (di_allocations input). paise (va_amount a)" and "sum_list (map (\<lambda>a. \<bar>va_amount a\<bar>) (di_allocations input)) < 10 ^ 18"
    and "turnover (dv_legs d) < 10 ^ 18" and "vt_billwiseMode (di_type input) = DEMAND" and "leg \<in> set (settling_legs input d)"
  shows "sum_list (map ia_amount (filter (\<lambda>x. ia_lineRowNo x = bl_lineRowNo leg) (dv_allocations d))) +
    sum_list (map ib_amount (filter (\<lambda>b. ib_legRowNo b = bl_legRowNo leg) (dv_bills d))) = bl_amount leg"
  using assms(1)
proof (rule derive_Inr)
  fix s bills allocs
  assume s: "s = derive_legs J input c pr" and legs: "dv_legs d = ls_typed s @ ls_gen s"
    and d: "dv_bills d = bills" "dv_allocations d = allocs" "dv_party d = ls_party s"
    and b: "bill_step J input (ls_party s) (ls_typed s) (balance_guards J input s (dv_difference d)) = Inr (bills, allocs, k)"
  have sl: "settling_legs input d = bill_legs input (ls_party s) (ls_typed s)"
    by (simp add: settling_legs_def typed_legs_derived [OF assms(1)] d s)
  have ok: "legs_ok (ls_typed s) (ls_gen s)" unfolding s by (rule derive_legs_ok)
  have fits: "list_all2 (\<lambda>a x. ia_amount x = va_amount a \<and> allocation_fits input (settling_legs input d) a x) (di_allocations input) allocs"
    using conjunct1 [OF derive_allocated [OF assms(1-5)]] unfolding d by (rule list.rel_mono_strong) simp
  note ex = allocated_exact [OF fits assms(4,5), of "bl_lineRowNo leg"]
  from b have "\<exists>bss. bills = concat bss \<and> list_all2 (billed J input allocs) (settling_legs input d) bss"
  proof (cases rule: bill_step_cases)
    case off
    then show ?thesis using assms(7) by simp
  next
    case (on st)
    then show ?thesis using bills_of_legs_clean [OF on(4) assms(2)] by (simp add: sl)
  qed
  then obtain bss where bss: "bills = concat bss" "list_all2 (billed J input allocs) (settling_legs input d) bss" by blast
  then obtain new where new: "(leg, new) \<in> set (zip (settling_legs input d) bss)" "billed J input allocs leg new"
    using assms(8) by (metis in_set_impl_in_set_zip1 list_all2_iff case_prodD)
  have "list_all2 (\<lambda>leg new. \<forall>b\<in>set new. ib_legRowNo b = bl_legRowNo leg) (settling_legs input d) bss"
    using bss(2) by (rule list.rel_mono_strong) (simp add: billed_def Let_def)
  moreover have "distinct (map bl_legRowNo (settling_legs input d))"
    unfolding sl using legs_ok_rows [OF ok] by (intro bill_legs_distinct) simp
  ultimately have own: "filter (\<lambda>b. ib_legRowNo b = bl_legRowNo leg) bills = new"
    unfolding bss(1) by (rule concat_rows [OF _ _ new(1)])
  let ?a = "allocated_on J (bl_lineRowNo leg) allocs"
  obtain l where "l \<in> set (dv_legs d)" "lg_amount l = bl_amount leg"
    using bill_legs_posted [of leg input J c pr] assms(8) unfolding sl legs s by blast
  then have amount: "paise (bl_amount leg)" "\<bar>bl_amount leg\<bar> < 10 ^ 18"
    using legs_ok_paise [OF ok] turnover_member [of l "dv_legs d"] assms(6) legs by (metis, simp)
  have "\<forall>x\<in>set allocs. 0 \<le> ia_amount x"
    using fits by (induction rule: list_all2_induct) (auto simp: allocation_fits_def)
  then have "0 \<le> ?a" unfolding ex(1) by (intro sum_list_nonneg) auto
  then have "round2 J (d_minus J (bl_amount leg) ?a) = bl_amount leg - ?a"
    using new(2) amount ex(2) by (simp add: billed_def Let_def minus_paise abs_if)
  then have "?a + sum_list (map ib_amount new) = bl_amount leg"
    using new(2) assms(7) by (simp add: billed_def Let_def advance_bill_def)
  then show ?thesis by (simp add: d own ex(1) [symmetric])
qed

end

lemma sent_within:
  assumes "map fst ps = as" and "map snd ps = xs"
    and "\<forall>(a, x)\<in>set ps. ia_amount x = half_up 2 (va_amount a) \<and> sent_on (alloc_key x) ps \<le> bf_pendingAmount (ia_bill x)"
  shows "\<forall>x\<in>set xs. let rows = filter (\<lambda>y. alloc_key y = alloc_key x) xs in
    sum_list (map ia_amount rows) \<le> bf_pendingAmount (ia_bill x) + of_nat (length rows) / 200 \<and>
    ((\<forall>a\<in>set as. paise (va_amount a)) \<longrightarrow> sum_list (map ia_amount rows) \<le> bf_pendingAmount (ia_bill x))"
proof
  fix x assume "x \<in> set xs"
  then obtain a where "(a, x) \<in> set ps" using assms(2) by force
  then have w: "sent_on (alloc_key x) ps \<le> bf_pendingAmount (ia_bill x)" using assms(3) by blast
  have r: "\<forall>(a, x)\<in>set ps. ia_amount x = half_up 2 (va_amount a)" using assms(3) by blast
  have whole: "\<forall>(a, x)\<in>set ps. paise (va_amount a)" if "\<forall>a\<in>set as. paise (va_amount a)"
    using that assms(1) by force
  show "let rows = filter (\<lambda>y. alloc_key y = alloc_key x) xs in
    sum_list (map ia_amount rows) \<le> bf_pendingAmount (ia_bill x) + of_nat (length rows) / 200 \<and>
    ((\<forall>a\<in>set as. paise (va_amount a)) \<longrightarrow> sum_list (map ia_amount rows) \<le> bf_pendingAmount (ia_bill x))"
    using rows_near_sent [OF r, of "alloc_key x"] whole w assms(2) by (auto simp: Let_def settled_on_def)
qed

section \<open>Properties\<close>

text \<open>
  C11: a derivation that refuses nothing settles no bill past what is pending on it, however many of its
  allocations name the bill, when the amounts sent are whole paise. With more places the rows on a bill
  exceed what is pending by at most half a paisa each. \<open>n\<close> is any number of places with which the
  amounts sent add up exactly (the payload takes six), and \<open>well_keyed\<close> says that the bills were looked
  up under their own keys.
\<close>

theorem derive_bills_within:
  assumes "decimal_package J" and "derive J input c pr = Inr (d, k, p)" and "gc_refusals k = []" and "well_keyed input"
    and "\<forall>a\<in>set (di_allocations input). on_grid n (va_amount a)"
    and "sum_list (map (\<lambda>a. \<bar>va_amount a\<bar>) (di_allocations input)) * 10 ^ n < 10 ^ 20"
  shows "\<forall>x\<in>set (dv_allocations d). let rows = filter (\<lambda>y. alloc_key y = alloc_key x) (dv_allocations d) in
    sum_list (map ia_amount rows) \<le> bf_pendingAmount (ia_bill x) + of_nat (length rows) / 200 \<and>
    ((\<forall>a\<in>set (di_allocations input). paise (va_amount a)) \<longrightarrow> sum_list (map ia_amount rows) \<le> bf_pendingAmount (ia_bill x))"
  using decimal_package.derive_sent [OF assms] by (elim exE conjE) (rule sent_within)

text \<open>
  The half paisa is real: three allocations of 33.335, 33.335 and 33.33 to a bill with 100 pending pass the
  check, which adds them to exactly 100, and write rows of 100.01.
\<close>

definition half_paise_input :: derive_input where
  "half_paise_input = sample_payment\<lparr>di_bills := (\<lambda>k. if k = ''b1|2026-2027'' then Some (sample_open_bill\<lparr>bf_pendingAmount := 100\<rparr>) else None)\<rparr>"

definition half_paise_allocation :: "rat \<Rightarrow> allocation_input" where
  "half_paise_allocation m = \<lparr> va_index = 0, va_lineRowNo = 1, va_billId = ''b1'', va_billAccYear = ''2026-2027'', va_amount = m \<rparr>"

lemma half_paise_written:
  "\<exists>st. allocate_bills decimal20 half_paise_input mode (bill_legs sample_payment None (ls_typed (derive_legs decimal20 sample_payment c0 [])))
      (map half_paise_allocation [6667 / 200, 6667 / 200, 3333 / 100]) \<lparr>bs_ctx = c, bs_perBill = [], bs_allocations = []\<rparr> = Inr st \<and>
    gc_refusals (bs_ctx st) = gc_refusals c \<and> sum_list (map ia_amount (bs_allocations st)) = 10001 / 100 \<and>
    (\<forall>x\<in>set (bs_allocations st). bf_pendingAmount (ia_bill x) = 100)"
proof -
  have grid: "on_grid 3 (6667 / 200)" "on_grid 3 (6667 / 100)" "on_grid 3 (3333 / 100)"
    by (auto intro: on_gridI [of _ _ 33335] on_gridI [of _ _ 66670] on_gridI [of _ _ 33330])
  have sums: "d_plus decimal20 0 (6667 / 200) = 6667 / 200" "d_plus decimal20 (6667 / 200) (6667 / 200) = 6667 / 100"
    "d_plus decimal20 (6667 / 100) (3333 / 100) = 100"
    using d20.plus_grid [OF _ grid(1), of 0] d20.plus_grid [OF grid(1,1)] d20.plus_grid [OF grid(2,3)] by simp_all
  have up: "half_up 2 (6667 / 200) = 3334 / 100" "half_up 2 (3333 / 100) = 3333 / 100"
    by (simp_all add: half_up_def floor_eq_iff)
  show ?thesis
    by (simp add: payment_bill_legs half_paise_input_def half_paise_allocation_def sums)
      (simp add: sample_fields allocate_bill_def line_defs billKey_def js_trim_def is_space_def alloc_row_def sample_issued_def
        round2_def d20.toDP_half_up or_else_def sums up)
qed

text \<open>The payment of the samples: one allocation of 1000 on a bill with 1500 pending, 200 left as an advance.\<close>

lemma payment_bills_derive:
  obtains d where "derive decimal20 sample_payment sample_ctx [] = Inr (d, sample_ctx, [(''bk'', 1)])"
    and "gc_refusals sample_ctx = []" and "well_keyed sample_payment"
    and "\<forall>a\<in>set (di_allocations sample_payment). paise (va_amount a)"
    and "sum_list (map (\<lambda>a. \<bar>va_amount a\<bar>) (di_allocations sample_payment)) < 10 ^ 18"
    and "sum_list (map (\<lambda>l. \<bar>lg_amount l\<bar>) (dv_legs d)) < 10 ^ 18"
    and "map ib_amount (dv_bills d) = [200, 1000]" and "map ia_amount (dv_allocations d) = [1000]"
proof -
  have k: "billKey ''b1'' ''2026-2027'' = ''b1|2026-2027''" by (simp add: billKey_def js_trim_def is_space_def)
  obtain d where d: "derive decimal20 sample_payment sample_ctx [] = Inr (d, sample_ctx, [(''bk'', 1)])"
    and v: "map leg_view (dv_legs d) = [(1, DR, ''sup'', 1200, False), (2, DR, ''job'', 1000, True), (3, CR, ''bank'', 1200, False),
      (4, CR, ''bank'', 900, True), (5, CR, ''tds'', 100, True)]"
    and b: "map ib_amount (dv_bills d) = [200, 1000]" "map ia_amount (dv_allocations d) = [1000]"
    using payment_derive [of sample_ctx] by (elim exE conjE)
  have "gc_refusals sample_ctx = []" by (simp add: sample_ctx_def newGuardContext_def)
  moreover have "well_keyed sample_payment" by (simp add: well_keyed_def payment_fields sample_open_bill_def k)
  ultimately show thesis using view_amounts [OF v] by (intro that [OF d _ _ _ _ _ b]) (simp_all add: payment_fields)
qed

theorem derive_bills_within_witness:
  "\<exists>d k p. derive decimal20 sample_payment sample_ctx [] = Inr (d, k, p) \<and> dv_allocations d \<noteq> [] \<and>
    (\<forall>x\<in>set (dv_allocations d). sum_list (map ia_amount (filter (\<lambda>y. alloc_key y = alloc_key x) (dv_allocations d))) \<le> bf_pendingAmount (ia_bill x))"
proof (rule payment_bills_derive)
  fix d
  assume d: "derive decimal20 sample_payment sample_ctx [] = Inr (d, sample_ctx, [(''bk'', 1)])" "gc_refusals sample_ctx = []"
    "well_keyed sample_payment" "\<forall>a\<in>set (di_allocations sample_payment). paise (va_amount a)"
    "sum_list (map (\<lambda>a. \<bar>va_amount a\<bar>) (di_allocations sample_payment)) < 10 ^ 18" and "map ia_amount (dv_allocations d) = [1000]"
  then have "dv_allocations d \<noteq> []" by auto
  moreover have "sum_list (map (\<lambda>a. \<bar>va_amount a\<bar>) (di_allocations sample_payment)) * 10 ^ 2 < 10 ^ 20" using d(5) by simp
  ultimately show ?thesis using derive_bills_within [OF decimal20_package d(1-4)] d(1,4) unfolding Let_def by blast
qed

text \<open>
  C19: a derivation that refuses nothing writes one row for every allocation sent, in order, for its
  amount, on an open bill of the company; the bill belongs to the party of the leg it settles and stands
  on the other side.
\<close>

theorem derive_allocation_rows:
  assumes "decimal_package J" and "derive J input c pr = Inr (d, k, p)" and "gc_refusals k = []" and "well_keyed input"
    and "\<forall>a\<in>set (di_allocations input). paise (va_amount a)" and "sum_list (map (\<lambda>a. \<bar>va_amount a\<bar>) (di_allocations input)) < 10 ^ 18"
  shows "list_all2 (\<lambda>a x. ia_index x = va_index a \<and> ia_amount x = va_amount a \<and> 0 < va_amount a \<and>
      di_bills input (billKey (va_billId a) (va_billAccYear a)) = Some (ia_bill x) \<and>
      bf_isActive (ia_bill x) \<and> \<not> bf_isDeleted (ia_bill x) \<and> bf_companyId (ia_bill x) = co_companyId (di_company input) \<and>
      (\<exists>leg\<in>set (settling_legs input d). bl_lineRowNo leg = va_lineRowNo a \<and> bl_legRowNo leg = ia_legRowNo x \<and>
         bf_partyId (ia_bill x) = lf_ledId (bl_ledger leg) \<and> bf_side (ia_bill x) \<noteq> bl_side leg))
    (di_allocations input) (dv_allocations d)"
  using conjunct1 [OF decimal_package.derive_allocated [OF assms]]
  by (rule list.rel_mono_strong) (auto simp: allocation_fits_def)

theorem derive_allocation_rows_witness:
  "\<exists>d k p x. derive decimal20 sample_payment sample_ctx [] = Inr (d, k, p) \<and> dv_allocations d = [x] \<and> ia_bill x = sample_open_bill"
proof (rule payment_bills_derive)
  fix d
  assume d: "derive decimal20 sample_payment sample_ctx [] = Inr (d, sample_ctx, [(''bk'', 1)])" "gc_refusals sample_ctx = []"
    "well_keyed sample_payment" "\<forall>a\<in>set (di_allocations sample_payment). paise (va_amount a)"
    "sum_list (map (\<lambda>a. \<bar>va_amount a\<bar>) (di_allocations sample_payment)) < 10 ^ 18"
  obtain x where x: "dv_allocations d = [x]" "sample_open_bill = ia_bill x"
    using derive_allocation_rows [OF decimal20_package d]
    by (auto simp: payment_fields list_all2_Cons1 billKey_def js_trim_def is_space_def)
  with d(1) show ?thesis by (intro exI [of _ d] exI [of _ sample_ctx] exI [of _ "[(''bk'', 1)]"] exI [of _ x]) simp
qed

text \<open>
  C17: where a voucher demands bills, every party leg is accounted for: what its allocations settle and
  what is left as an advance add up to exactly the leg's amount.
\<close>

theorem derive_leg_accounted:
  assumes "decimal_package J" and "derive J input c pr = Inr (d, k, p)" and "gc_refusals k = []" and "well_keyed input"
    and "\<forall>a\<in>set (di_allocations input). paise (va_amount a)" and "sum_list (map (\<lambda>a. \<bar>va_amount a\<bar>) (di_allocations input)) < 10 ^ 18"
    and "sum_list (map (\<lambda>l. \<bar>lg_amount l\<bar>) (dv_legs d)) < 10 ^ 18" and "vt_billwiseMode (di_type input) = DEMAND"
  shows "\<forall>leg\<in>set (settling_legs input d).
    sum_list (map ia_amount (filter (\<lambda>x. ia_lineRowNo x = bl_lineRowNo leg) (dv_allocations d))) +
    sum_list (map ib_amount (filter (\<lambda>b. ib_legRowNo b = bl_legRowNo leg) (dv_bills d))) = bl_amount leg"
  using decimal_package.derive_demanded [OF assms(1-6) _ assms(8)] assms(7) by (simp add: turnover_def)

theorem derive_leg_accounted_witness:
  "\<exists>d k p. derive decimal20 sample_payment sample_ctx [] = Inr (d, k, p) \<and> map ib_amount (dv_bills d) = [200, 1000] \<and>
    (\<forall>leg\<in>set (settling_legs sample_payment d).
      sum_list (map ia_amount (filter (\<lambda>x. ia_lineRowNo x = bl_lineRowNo leg) (dv_allocations d))) +
      sum_list (map ib_amount (filter (\<lambda>b. ib_legRowNo b = bl_legRowNo leg) (dv_bills d))) = bl_amount leg)"
proof (rule payment_bills_derive)
  fix d
  assume d: "derive decimal20 sample_payment sample_ctx [] = Inr (d, sample_ctx, [(''bk'', 1)])" "gc_refusals sample_ctx = []"
    "well_keyed sample_payment" "\<forall>a\<in>set (di_allocations sample_payment). paise (va_amount a)"
    "sum_list (map (\<lambda>a. \<bar>va_amount a\<bar>) (di_allocations sample_payment)) < 10 ^ 18"
    "sum_list (map (\<lambda>l. \<bar>lg_amount l\<bar>) (dv_legs d)) < 10 ^ 18" and b: "map ib_amount (dv_bills d) = [200, 1000]"
  have "vt_billwiseMode (di_type sample_payment) = DEMAND" by (simp add: payment_fields sample_type_def)
  note all = derive_leg_accounted [OF decimal20_package d this]
  show ?thesis by (intro exI [of _ d] exI [of _ sample_ctx] exI [of _ "[(''bk'', 1)]"] conjI) (rule d(1), rule b, rule all)
qed

end
