(* ===== verification/Voucher_Dated.thy ===== *)
theory Voucher_Dated
  imports Voucher_Balance
begin

text \<open>
  Post-dated vouchers. A post-dated cheque's line, its instrument leg and the tax deducted on it post on
  the cheque's day in a voucher of their own: that voucher balances by itself, and no post-dated leg is
  left out of one.
\<close>

section \<open>One group of a party's lines\<close>

lemma tds_group_extends: "extends (ms_ctx st) (ms_ctx (tds_group J input shaped g st))"
  using trail.rel_tds_group [of "ms_ctx st" st st J input shaped g] by (simp add: rel_many_def)

lemma tds_groups_extends: "extends (ms_ctx st) (ms_ctx (fold (tds_group J input shaped) gs st))"
  by (rule fold_invariant [where Q = "\<lambda>g. True"]) (auto intro: extends_trans tds_group_extends)

text \<open>A group leaves the legs alone, or grosses its lines up and adds one leg for the tax.\<close>

definition group_deducts :: "decimal_js \<Rightarrow> internal_leg list \<Rightarrow> many_state \<Rightarrow> many_state \<Rightarrow> bool" where
  "group_deducts J ls st st' \<longleftrightarrow> (\<exists>pct x. ms_typed st' = gross_lines J pct ls (ms_typed st) \<and> ms_gen st' = ms_gen st @ [x] \<and>
     lg_source x = SRC_TDS \<and> lg_drCr x = CR \<and> lg_fromRows x = map (\<lambda>l. the (lg_lineRowNo l)) ls \<and>
     lg_postDated x = (filter lg_postDated ls \<noteq> []) \<and>
     lg_postsOn x = (case filter lg_postDated ls of [] \<Rightarrow> None | l # _ \<Rightarrow> lg_postsOn l) \<and>
     (filter lg_postDated ls \<noteq> [] \<longrightarrow> length ls \<le> 1) \<and>
     lg_amount x = reduce_plus J (map (\<lambda>l. d_minus J (line_gross J pct (lg_amount l)) (lg_amount l)) ls))"

lemma tds_group_cases:
  assumes "gc_refusals (ms_ctx (tds_group J input shaped g st)) = []"
  shows "(ms_typed (tds_group J input shaped g st) = ms_typed st \<and> ms_gen (tds_group J input shaped g st) = ms_gen st) \<or>
    shaped \<and> group_deducts J (snd g) st (tds_group J input shaped g st)"
proof (cases "lg_ledger (hd (snd g))")
  case (Facts p)
  have "(ms_typed st' = ms_typed st \<and> ms_gen st' = ms_gen st) \<or> group_deducts J (snd g) st st'"
    if "st' = tds_deduct J input p rate (snd g) base tax st" "gc_refusals (ms_ctx st') = []"
      and "tax = reduce_plus J (map (\<lambda>l. d_minus J (line_gross J (tds_percent p rate) (lg_amount l)) (lg_amount l)) (snd g))"
    for st' rate base tax
    using that(2) unfolding that(1) group_deducts_def
    by (cases "tds_payable input") (auto simp: tds_deduct_def Let_def tds_leg_def that(3) split: if_splits)
  with assms Facts show ?thesis
    by (auto simp: tds_group_def tds_party_def Let_def split: option.splits if_splits)
qed (simp add: tds_group_def)

section \<open>What happens to a post-dated line\<close>

definition tds_of :: "internal_leg \<Rightarrow> internal_leg list \<Rightarrow> internal_leg list" where
  "tds_of l gen = filter (\<lambda>x. lg_source x = SRC_TDS \<and> lg_postDated x \<and> the (lg_lineRowNo l) \<in> set (lg_fromRows x)) gen"

definition same_line :: "internal_leg \<Rightarrow> internal_leg \<Rightarrow> bool" where
  "same_line a b \<longleftrightarrow> lg_rowNo a = lg_rowNo b \<and> lg_lineRowNo a = lg_lineRowNo b \<and> lg_drCr a = lg_drCr b \<and>
     lg_postDated a = lg_postDated b \<and> lg_postsOn a = lg_postsOn b \<and> lg_instrument a = lg_instrument b \<and> lg_ledger a = lg_ledger b"

text \<open>
  \<open>kept J F gen a b\<close>: the leg \<open>a\<close> became \<open>b\<close>. A leg of \<open>F\<close> is still untouched; a post-dated leg is
  untouched, or was grossed up by the one tax leg that names it.
\<close>

definition kept :: "decimal_js \<Rightarrow> internal_leg set \<Rightarrow> internal_leg list \<Rightarrow> internal_leg \<Rightarrow> internal_leg \<Rightarrow> bool" where
  "kept J F gen a b \<longleftrightarrow> same_line a b \<and> (a \<in> F \<longrightarrow> lg_amount b = lg_amount a \<and> tds_of a gen = []) \<and>
     (lg_postDated a \<longrightarrow> (lg_amount b = lg_amount a \<and> tds_of a gen = []) \<or>
       lg_drCr a = DR \<and> (\<exists>x. tds_of a gen = [x] \<and> lg_drCr x = CR \<and> lg_postsOn x = lg_postsOn a \<and>
          lg_amount x = d_plus J 0 (d_minus J (lg_amount b) (lg_amount a))))"

definition named_dated :: "internal_leg list \<Rightarrow> internal_leg list \<Rightarrow> bool" where
  "named_dated typed gen \<longleftrightarrow> (\<forall>x\<in>set gen. lg_source x = SRC_TDS \<and> lg_postDated x \<longrightarrow>
     (\<exists>a\<in>set typed. lg_postDated a \<and> lg_fromRows x = [the (lg_lineRowNo a)]))"

definition rows_apart :: "internal_leg list \<Rightarrow> bool" where
  "rows_apart typed \<longleftrightarrow> distinct (map lg_rowNo typed) \<and> distinct (map (\<lambda>l. the (lg_lineRowNo l)) typed)"

lemma rows_apart_inj:
  assumes "rows_apart typed" and "a \<in> set typed" and "b \<in> set typed"
  shows "lg_rowNo a = lg_rowNo b \<longleftrightarrow> a = b" and "the (lg_lineRowNo a) = the (lg_lineRowNo b) \<longleftrightarrow> a = b"
  using assms by (auto simp: rows_apart_def distinct_map dest: inj_onD)

lemma deduct_keeps:
  assumes apart: "rows_apart typed" and sub: "set ls \<subseteq> set typed" and dis: "set ls \<inter> F = {}"
    and all: "list_all2 (kept J (set ls \<union> F) (ms_gen st)) typed (ms_typed st)" and named: "named_dated typed (ms_gen st)"
    and ded: "group_deducts J ls st st'" and debits: "\<forall>l\<in>set ls. lg_drCr l = DR"
  shows "list_all2 (kept J F (ms_gen st')) typed (ms_typed st') \<and> named_dated typed (ms_gen st')"
proof -
  obtain pct x where t: "ms_typed st' = gross_lines J pct ls (ms_typed st)" and g: "ms_gen st' = ms_gen st @ [x]"
    and x: "lg_source x = SRC_TDS" "lg_drCr x = CR" "lg_fromRows x = map (\<lambda>l. the (lg_lineRowNo l)) ls"
      "lg_postDated x = (filter lg_postDated ls \<noteq> [])"
      "lg_postsOn x = (case filter lg_postDated ls of [] \<Rightarrow> None | l # _ \<Rightarrow> lg_postsOn l)"
      "filter lg_postDated ls \<noteq> [] \<longrightarrow> length ls \<le> 1"
      "lg_amount x = reduce_plus J (map (\<lambda>l. d_minus J (line_gross J pct (lg_amount l)) (lg_amount l)) ls)"
    using ded unfolding group_deducts_def by (elim exE conjE)
  have one: "ls = [a]" if "a \<in> set ls" "lg_postDated x" for a
  proof -
    have "length ls \<le> 1" using that(2) x(4,6) by simp
    with that(1) show ?thesis by (cases ls) auto
  qed
  have "kept J F (ms_gen st') a (if lg_rowNo b \<in> lg_rowNo ` set ls then b\<lparr>lg_amount := line_gross J pct (lg_amount b)\<rparr> else b)"
    if a: "a \<in> set typed" and k: "kept J (set ls \<union> F) (ms_gen st) a b" for a b
  proof (cases "a \<in> set ls")
    case True
    from k True have b: "same_line a b" "lg_amount b = lg_amount a" "tds_of a (ms_gen st) = []" by (simp_all add: kept_def)
    have tds: "tds_of a (ms_gen st') = (if lg_postDated x then [x] else [])"
      using b(3) x(1,3) True by (simp add: tds_of_def g)
    have "lg_rowNo b \<in> lg_rowNo ` set ls" using b(1) True by (metis imageI same_line_def)
    moreover have "a \<notin> F" using dis True by auto
    moreover have "lg_postDated a \<Longrightarrow> lg_postDated x \<and> lg_postsOn x = lg_postsOn a \<and>
        lg_amount x = d_plus J 0 (d_minus J (line_gross J pct (lg_amount a)) (lg_amount a))"
    proof -
      assume "lg_postDated a"
      then have "lg_postDated x" using True x(4) by (auto simp: filter_empty_conv)
      with one [OF True] \<open>lg_postDated a\<close> x(5,7) show ?thesis by (simp add: reduce_plus_def)
    qed
    ultimately show ?thesis using b tds x(2) debits True by (simp add: kept_def same_line_def)
  next
    case False
    have "the (lg_lineRowNo a) \<notin> set (lg_fromRows x)"
      using rows_apart_inj(2) [OF apart a] sub False x(3) by auto
    then have "tds_of a (ms_gen st') = tds_of a (ms_gen st)" by (simp add: tds_of_def g)
    moreover have "lg_rowNo b \<notin> lg_rowNo ` set ls"
      using k rows_apart_inj(1) [OF apart a] sub False by (auto simp: kept_def same_line_def)
    ultimately show ?thesis using k by (simp add: kept_def)
  qed
  then have "list_all2 (kept J F (ms_gen st')) typed (ms_typed st')"
    unfolding t gross_lines_def list_all2_map2 by (intro list.rel_mono_strong [OF all]) simp
  moreover have "named_dated typed (ms_gen st')"
  proof -
    have "\<exists>a\<in>set typed. lg_postDated a \<and> lg_fromRows x = [the (lg_lineRowNo a)]" if "lg_postDated x"
    proof -
      from that x(4) obtain a where "a \<in> set ls" and "lg_postDated a" by (auto simp: filter_empty_conv)
      then have "ls = [a]" using one [OF _ that] by blast
      with x(3) sub \<open>lg_postDated a\<close> show ?thesis by (intro bexI [of _ a]) auto
    qed
    with named show ?thesis by (auto simp: named_dated_def g)
  qed
  ultimately show ?thesis by blast
qed

text \<open>All the groups, one after the other: their lines are disjoint.\<close>

definition group_lines :: "(string \<times> internal_leg list) list \<Rightarrow> internal_leg set" where
  "group_lines gs = (\<Union>g\<in>set gs. set (snd g))"

fun apart :: "(string \<times> internal_leg list) list \<Rightarrow> bool" where
  "apart [] \<longleftrightarrow> True"
| "apart (g # gs) \<longleftrightarrow> set (snd g) \<inter> group_lines gs = {} \<and> apart gs"

lemma tds_groups_apart: "apart (tds_groups side typed)"
proof -
  have "apart gs" if "distinct (map fst gs)" "\<forall>g\<in>set gs. \<forall>l\<in>set (snd g). leg_ledId (lg_ledger l) = fst g" for gs
    using that
  proof (induction gs)
    case (Cons g gs)
    have False if "l \<in> set (snd g)" "h \<in> set gs" "l \<in> set (snd h)" for l h
    proof -
      have "fst g = fst h" using Cons.prems(2) that by (metis list.set_intros)
      with Cons.prems(1) that(2) show False by force
    qed
    with Cons show ?case by (auto simp: group_lines_def)
  qed simp
  moreover have "\<forall>g\<in>set (tds_groups side typed). \<forall>l\<in>set (snd g). leg_ledId (lg_ledger l) = fst g"
    using tds_groups_filter(1) by fastforce
  ultimately show ?thesis using tds_groups_distinct by blast
qed

lemma kept_mono: "kept J F gen a b \<Longrightarrow> F' \<subseteq> F \<Longrightarrow> kept J F' gen a b"
  by (auto simp: kept_def)

lemma groups_keep:
  assumes "rows_apart typed" and "shaped \<longrightarrow> (\<forall>g\<in>set gs. \<forall>l\<in>set (snd g). lg_drCr l = DR)"
    and "apart gs" and "group_lines gs \<subseteq> set typed"
    and "list_all2 (kept J (group_lines gs) (ms_gen st)) typed (ms_typed st)" and "named_dated typed (ms_gen st)"
    and "gc_refusals (ms_ctx (fold (tds_group J input shaped) gs st)) = []"
  shows "list_all2 (kept J {} (ms_gen (fold (tds_group J input shaped) gs st))) typed (ms_typed (fold (tds_group J input shaped) gs st)) \<and>
    named_dated typed (ms_gen (fold (tds_group J input shaped) gs st))"
  using assms(2-)
proof (induction gs arbitrary: st)
  case (Cons g gs)
  let ?st = "tds_group J input shaped g st"
  have F: "group_lines (g # gs) = set (snd g) \<union> group_lines gs" by (simp add: group_lines_def)
  have clean: "gc_refusals (ms_ctx ?st) = []"
    using extends_clean [OF tds_groups_extends] Cons.prems(6) by simp
  have "list_all2 (kept J (group_lines gs) (ms_gen ?st)) typed (ms_typed ?st) \<and> named_dated typed (ms_gen ?st)"
  proof (cases "ms_typed ?st = ms_typed st \<and> ms_gen ?st = ms_gen st")
    case True
    then show ?thesis using Cons.prems(4,5) kept_mono [of J "group_lines (g # gs)" _ _ _ "group_lines gs"]
      by (auto simp: F intro: list.rel_mono_strong)
  next
    case False
    then have "shaped" "group_deducts J (snd g) st ?st" using tds_group_cases [OF clean] by blast+
    with deduct_keeps [OF assms(1), of "snd g" "group_lines gs" J st ?st] Cons.prems show ?thesis by (simp add: F)
  qed
  with Cons.IH [of ?st] Cons.prems show ?case by (simp add: F)
qed (simp add: group_lines_def)

section \<open>The instrument legs\<close>

lemma instrument_leg_fields [simp]:
  "lg_source (instrument_leg m l ins) = SRC_INSTRUMENT" "lg_fromRows (instrument_leg m l ins) = [the (lg_lineRowNo l)]"
  "lg_postDated (instrument_leg m l ins) = in_isPostDated ins" "lg_postsOn (instrument_leg m l ins) = in_postsOn ins"
  "lg_amount (instrument_leg m l ins) = lg_amount l" "lg_drCr (instrument_leg m l ins) = opposite (lg_drCr l)"
  by (simp_all add: instrument_leg_def)

lemma instrument_legs_find:
  assumes "distinct (map (\<lambda>l. the (lg_lineRowNo l)) ls)" and "l \<in> set ls" and "lg_instrument l = Some ins"
    and "\<forall>l\<in>set ls. lg_lineRowNo l \<noteq> None"
  shows "\<exists>m. find (\<lambda>x. lg_source x = SRC_INSTRUMENT \<and> lg_fromRows x \<noteq> [] \<and> Some (hd (lg_fromRows x)) = lg_lineRowNo l)
    (instrument_legs n ls) = Some (instrument_leg m l ins)"
  using assms
proof (induction ls arbitrary: n)
  case (Cons k ls)
  show ?case
  proof (cases "k = l")
    case True
    then show ?thesis using Cons.prems by (auto simp: instrument_leg_def)
  next
    case False
    with Cons.prems have "the (lg_lineRowNo k) \<noteq> the (lg_lineRowNo l)" by force
    with False Cons show ?thesis by (cases "lg_instrument k") (auto simp: instrument_leg_def)
  qed
qed simp

lemma instrument_legs_members:
  "x \<in> set (instrument_legs n ls) \<Longrightarrow> \<exists>l\<in>set ls. \<exists>ins m. lg_instrument l = Some ins \<and> x = instrument_leg m l ins"
  by (induction ls arbitrary: n) (auto split: option.splits)

lemma instrument_legs_source: "x \<in> set (instrument_legs n ls) \<Longrightarrow> lg_source x = SRC_INSTRUMENT"
  by (drule instrument_legs_members) (auto simp: instrument_leg_def)

lemma gst_legs_source: "x \<in> set (gst_legs J n es) \<Longrightarrow> lg_source x \<in> {SRC_GST, SRC_RCM} \<and> \<not> lg_postDated x"
  by (induction es arbitrary: n) (auto simp: gst_leg_def Let_def)

lemma gst_band_new:
  assumes "gst_band J input party side typed gen c = (gst, gen', c')"
  shows "\<exists>new. gen' = gen @ new \<and> (\<forall>x\<in>set new. lg_source x \<in> {SRC_GST, SRC_RCM} \<and> \<not> lg_postDated x)"
proof (cases rule: gst_band_cases [of J input party side typed gen c])
  case (on side' pside lines st)
  then have "gen' = gen @ gst_legs J (int (length typed + length gen) + 1) (map snd (gs_byLedger st))"
    using assms by simp
  then show ?thesis using gst_legs_source by blast
qed (use assms in simp)

lemma tds_one_new:
  assumes "tds_one J input party side typed gen c = (tds, gen', c')"
  shows "\<exists>new. gen' = gen @ new \<and> (\<forall>x\<in>set new. lg_source x = SRC_TDS \<and> \<not> lg_postDated x)"
  using assms by (auto simp: tds_one_def Let_def split_def tds_leg_def split: option.splits if_splits)

lemma tds_group_new: "\<exists>new. ms_gen (tds_group J input shaped g st) = ms_gen st @ new \<and> (\<forall>x\<in>set new. lg_source x = SRC_TDS)"
  by (simp add: tds_group_def tds_party_def tds_deduct_def Let_def tds_leg_def split: leg_ledger.splits option.splits)

lemma tds_many_new: fixes st :: many_state
  shows "\<exists>new. ms_gen (tds_many J input st) = ms_gen st @ new \<and> (\<forall>x\<in>set new. lg_source x = SRC_TDS)"
proof -
  have "\<exists>new. ms_gen (fold (tds_group J input shaped) gs st) = ms_gen st @ new \<and> (\<forall>x\<in>set new. lg_source x = SRC_TDS)" for gs shaped
  proof (rule fold_invariant [where Q = "\<lambda>g. True"])
    fix g and s :: many_state
    assume "\<exists>new. ms_gen s = ms_gen st @ new \<and> (\<forall>x\<in>set new. lg_source x = SRC_TDS)"
    then obtain new where n: "ms_gen s = ms_gen st @ new" "\<forall>x\<in>set new. lg_source x = SRC_TDS" by blast
    obtain new' where "ms_gen (tds_group J input shaped g s) = ms_gen s @ new'" "\<forall>x\<in>set new'. lg_source x = SRC_TDS"
      using tds_group_new by blast
    with n show "\<exists>new. ms_gen (tds_group J input shaped g s) = ms_gen st @ new \<and> (\<forall>x\<in>set new. lg_source x = SRC_TDS)"
      by (intro exI [of _ "new @ new'"]) auto
  qed simp_all
  then show ?thesis by (simp add: tds_many_eq)
qed

lemma party_step_new:
  assumes "party_step J input party side typed gen c = (p, gen', c')"
  shows "\<exists>new. gen' = gen @ new \<and> (\<forall>x\<in>set new. lg_source x = SRC_PARTY \<and> \<not> lg_postDated x)"
  using assms by (auto simp: party_step_def Let_def party_leg_def split: option.splits if_splits)

text \<open>A post-dated instrument names the day it posts.\<close>

definition ins_dated :: "internal_instrument \<Rightarrow> bool" where
  "ins_dated i \<longleftrightarrow> (in_isPostDated i \<longrightarrow> truthy (in_postsOn i))"

lemma issue_instrument_dated:
  "issue_instrument input line ins party tender l n b st = (Some i, c, pr) \<Longrightarrow> ins_dated i"
  by (auto simp: issue_instrument_def Let_def ins_dated_def split: option.splits if_splits prod.splits)

lemma readInstrument_dated:
  assumes "readInstrument input line ledger st = (Some i, c, pr)"
  shows "ins_dated i"
proof -
  have issued: "ins_dated i" if "readIssuedInstrument input line ins ledger tender st = (Some i, c, pr)" for ins tender
    using that issue_instrument_dated
    by (fastforce simp: readIssuedInstrument_def Let_def split: option.splits if_splits prod.splits)
  have received: "ins_dated i" if "receivedInstrument input line ins ledger tender ctx = (Some i, c)" for ins tender ctx
    using that by (auto simp: receivedInstrument_def Let_def ins_dated_def split: if_splits)
  show ?thesis
    using assms issued received by (auto simp: readInstrument_def Let_def split: option.splits if_splits prod.splits)
qed

lemma type_lines_dated:
  assumes "\<forall>l\<in>set typed. \<forall>i. lg_instrument l = Some i \<longrightarrow> ins_dated i"
    and "type_lines J input lines seen (typed, c, pr) = (typed', c', pr')"
  shows "\<forall>l\<in>set typed'. \<forall>i. lg_instrument l = Some i \<longrightarrow> ins_dated i"
  using assms
proof (induction lines arbitrary: seen typed c pr)
  case (Cons line lines)
  obtain typed1 c1 pr1 where tl: "type_line J input line (typed, c, pr) = (typed1, c1, pr1)" by (metis surj_pair)
  have "\<forall>l\<in>set typed1. \<forall>i. lg_instrument l = Some i \<longrightarrow> ins_dated i"
    using Cons.prems(1) tl readInstrument_dated
    by (auto simp: type_line_def Let_def typed_leg_def split: option.splits prod.splits)
  with Cons tl show ?case by (auto split: if_splits)
qed simp

section \<open>The legs of a derivation that are post-dated\<close>

lemma tds_of_append: "tds_of a (xs @ ys) = tds_of a xs @ tds_of a ys"
  by (simp add: tds_of_def)

lemma kept_append: "kept J F gen a b \<Longrightarrow> \<forall>x\<in>set new. lg_source x \<noteq> SRC_TDS \<Longrightarrow> kept J F (gen @ new) a b"
  by (simp add: kept_def tds_of_def filter_empty_conv)

lemma named_dated_append: "named_dated typed gen \<Longrightarrow> \<forall>x\<in>set new. lg_source x \<noteq> SRC_TDS \<Longrightarrow> named_dated typed (gen @ new)"
  by (auto simp: named_dated_def)

lemma tds_many_keeps:
  assumes clean: "gc_refusals (ms_ctx (tds_many J input st)) = []" and apart: "rows_apart (ms_typed st)"
    and none: "\<forall>x\<in>set (ms_gen st). \<not> (lg_source x = SRC_TDS \<and> lg_postDated x)"
  shows "list_all2 (kept J {} (ms_gen (tds_many J input st))) (ms_typed st) (ms_typed (tds_many J input st)) \<and>
    named_dated (ms_typed st) (ms_gen (tds_many J input st))"
proof -
  let ?typed = "ms_typed st" and ?side = "vt_partySide (di_type input)"
  have start: "list_all2 (kept J F (ms_gen st)) ?typed ?typed" for F
  proof (rule list.rel_refl_strong)
    fix a
    have "tds_of a (ms_gen st) = []" using none by (auto simp: tds_of_def filter_empty_conv)
    then show "kept J F (ms_gen st) a a" by (simp add: kept_def same_line_def)
  qed
  have named: "named_dated ?typed (ms_gen st)" using none by (auto simp: named_dated_def)
  have members: "set (snd g) \<subseteq> {l \<in> set ?typed. tds_counts ?side l}" if "g \<in> set (tds_groups ?side ?typed)" for g
    using tds_groups_filter(1) [of "fst g" "snd g" ?side ?typed] that by auto
  have debits: "pays_parties input \<longrightarrow> (\<forall>g\<in>set (tds_groups ?side ?typed). \<forall>l\<in>set (snd g). lg_drCr l = DR)"
    using members by (fastforce simp: pays_parties_def tds_counts_def split: leg_ledger.splits)
  have sub: "group_lines (tds_groups ?side ?typed) \<subseteq> set ?typed"
    using members by (auto simp: group_lines_def)
  show ?thesis
  proof (cases "vt_tdsMode (di_type input) = DEDUCT \<and> vt_partyMode (di_type input) = PARTY_MANY")
    case True
    then have eq: "tds_many J input st = fold (tds_group J input (pays_parties input)) (tds_groups ?side ?typed) st"
      by (simp add: tds_many_eq)
    show ?thesis
      using groups_keep [OF apart debits tds_groups_apart sub start named] clean unfolding eq by blast
  next
    case False
    then have "tds_many J input st = st" unfolding tds_many_eq by (simp only: if_False)
    with start [of "{}"] named show ?thesis by simp
  qed
qed

lemma read_lines_dated:
  assumes "read_lines J input (c, pr) = (typed, c', pr')"
  shows "\<forall>l\<in>set typed. \<forall>i. lg_instrument l = Some i \<longrightarrow> ins_dated i"
proof -
  have "type_lines J input (sort_key tl_rowNo (di_lines input)) [] ([],
      refuse_if (di_lines input = []) ''VCH_NO_LINES'' (Some ''lines'') None c, pr) = (typed, c', pr')"
    using assms by (simp add: read_lines_def)
  then show ?thesis by (rule type_lines_dated [rotated]) simp
qed

context decimal_package
begin

lemma legs_ok_apart: "legs_ok typed gen \<Longrightarrow> rows_apart typed"
proof -
  assume ok: "legs_ok typed gen"
  then have "distinct (map lg_rowNo typed)"
    by (simp add: legs_ok_rows)
  moreover have "distinct (map (\<lambda>l. the (lg_lineRowNo l)) typed)"
    proof -
    have "\<forall>x\<in>set (map lg_lineRowNo typed). x \<noteq> None" using ok by (simp add: legs_ok_def typed_shape_def)
    then have "inj_on the (set (map lg_lineRowNo typed))" by (metis inj_onI option.expand)
    moreover have "distinct (map lg_lineRowNo typed)" using ok by (simp add: legs_ok_def)
    ultimately have "distinct (map the (map lg_lineRowNo typed))" by (metis distinct_map)
    then show ?thesis by (simp add: comp_def)
  qed
  ultimately show ?thesis by (simp add: rows_apart_def)
qed

lemma dated_stages:
  assumes "gc_refusals (ls_ctx (derive_legs J input c pr)) = []"
  obtains typed0 T G R n ids where "ls_typed (derive_legs J input c pr) = map (name_party ids) T"
    and "ls_gen (derive_legs J input c pr) = map (name_party ids) G" and "legs_ok typed0 []"
    and "list_all2 (kept J {} G) (map name_instrument typed0) T" and "named_dated (map name_instrument typed0) G"
    and "G = instrument_legs n typed0 @ R"
    and "\<forall>x\<in>set R. lg_source x \<noteq> SRC_INSTRUMENT \<and> (lg_postDated x \<longrightarrow> lg_source x = SRC_TDS)"
    and "\<forall>l\<in>set typed0. \<forall>i. lg_instrument l = Some i \<longrightarrow> ins_dated i"
proof (rule derive_legs_stages [where J = J and input = input and c = c and pr = pr])
  fix typed0 c1 pr' party side c2 gst gen1 c3 tds gen2 c4 st partyLeg gen4 c6
  assume a: "read_lines J input (calendar_guards input c, pr) = (typed0, c1, pr')"
    and d: "gst_band J input party side (map name_instrument typed0) (instrument_legs (int (length typed0) + 1) typed0) c2 = (gst, gen1, c3)"
    and e: "tds_one J input party side (map name_instrument typed0) gen1 c3 = (tds, gen2, c4)"
    and st: "st = tds_many J input \<lparr> ms_typed = map name_instrument typed0, ms_gen = gen2, ms_ctx = c4,
            ms_lines = (case tds of None \<Rightarrow> [] | Some t \<Rightarrow> [t]), ms_unmappedTold = False \<rparr>"
    and f: "party_step J input party side (ms_typed st) (ms_gen st) (ms_ctx st) = (partyLeg, gen4, c6)"
    and g: "derive_legs J input c pr = \<lparr> ls_typed = map (name_party (party_ids input partyLeg (ms_typed st))) (ms_typed st),
        ls_gen = map (name_party (party_ids input partyLeg (ms_typed st))) gen4, ls_party = partyLeg,
        ls_gst = gst, ls_tds = tds, ls_tdsLines = ms_lines st, ls_ctx = c6, ls_promised = pr' \<rparr>"
    and x: "extends (ms_ctx st) c6"
  let ?n = "int (length typed0) + 1" and ?typed = "map name_instrument typed0"
  let ?st = "\<lparr> ms_typed = ?typed, ms_gen = gen2, ms_ctx = c4,
            ms_lines = (case tds of None \<Rightarrow> [] | Some t \<Rightarrow> [t]), ms_unmappedTold = False \<rparr>"
  obtain r1 where r1: "gen1 = instrument_legs ?n typed0 @ r1" "\<forall>x\<in>set r1. lg_source x \<in> {SRC_GST, SRC_RCM} \<and> \<not> lg_postDated x"
    using gst_band_new [OF d] by blast
  obtain r2 where r2: "gen2 = gen1 @ r2" "\<forall>x\<in>set r2. lg_source x = SRC_TDS \<and> \<not> lg_postDated x"
    using tds_one_new [OF e] by blast
  obtain r3 where r3: "ms_gen st = gen2 @ r3" "\<forall>x\<in>set r3. lg_source x = SRC_TDS"
    using tds_many_new [of J input ?st] unfolding st by auto
  obtain r4 where r4: "gen4 = ms_gen st @ r4" "\<forall>x\<in>set r4. lg_source x = SRC_PARTY \<and> \<not> lg_postDated x"
    using party_step_new [OF f] by blast
  have ok: "legs_ok typed0 []" using read_lines_ok [of input "calendar_guards input c" pr] a by simp
  then have "legs_ok ?typed []" by (rule legs_ok_map) simp_all
  then have apart: "rows_apart (ms_typed ?st)" using legs_ok_apart by simp
  have none: "\<forall>x\<in>set (ms_gen ?st). \<not> (lg_source x = SRC_TDS \<and> lg_postDated x)"
    using r1 r2 instrument_legs_source by fastforce
  have "gc_refusals c6 = []" using assms g by simp
  with x have "gc_refusals (ms_ctx st) = []" by (rule extends_clean)
  then have "list_all2 (kept J {} (ms_gen st)) ?typed (ms_typed st) \<and> named_dated ?typed (ms_gen st)"
    using tds_many_keeps [of J input ?st] apart none by (simp add: st)
  moreover have party: "\<forall>x\<in>set r4. lg_source x \<noteq> SRC_TDS" using r4(2) by simp
  ultimately have "list_all2 (kept J {} gen4) ?typed (ms_typed st)" and "named_dated ?typed gen4"
    unfolding r4(1) using kept_append [OF _ party] named_dated_append [OF _ party]
    by (blast intro: list.rel_mono_strong)+
  moreover have "gen4 = instrument_legs ?n typed0 @ (r1 @ r2 @ r3 @ r4)" using r1 r2 r3 r4 by simp
  moreover have "\<forall>x\<in>set (r1 @ r2 @ r3 @ r4). lg_source x \<noteq> SRC_INSTRUMENT \<and> (lg_postDated x \<longrightarrow> lg_source x = SRC_TDS)"
    using r1(2) r2(2) r3(2) r4(2) by fastforce
  moreover have "ls_typed (derive_legs J input c pr) = map (name_party (party_ids input partyLeg (ms_typed st))) (ms_typed st)"
    "ls_gen (derive_legs J input c pr) = map (name_party (party_ids input partyLeg (ms_typed st))) gen4"
    by (simp_all add: g)
  ultimately show thesis using ok read_lines_dated [OF a] by (intro that)
qed

end

section \<open>A voucher of its own\<close>

text \<open>The rows of a post-dated voucher, and its legs.\<close>

definition own_rows :: "internal_post_dated \<Rightarrow> int list" where
  "own_rows pd = pd_partyLegRowNo pd # pd_instrumentLegRowNo pd # pd_extraLegRowNos pd"

definition own_legs :: "derived_internal \<Rightarrow> internal_post_dated \<Rightarrow> internal_leg list" where
  "own_legs d pd = filter (\<lambda>l. lg_rowNo l \<in> set (own_rows pd)) (dv_legs d)"

lemma net_pick:
  assumes "distinct xs" and "x \<in> set xs" and "\<not> P x"
  shows "net (filter (\<lambda>y. y = x \<or> P y) xs) = signed x + net (filter P xs)"
  using assms
proof (induction xs)
  case (Cons y ys)
  then show ?case
    by (cases "y = x") (auto intro!: arg_cong [where f = net] filter_cong)
qed simp

lemma filter_single: "distinct xs \<Longrightarrow> x \<in> set xs \<Longrightarrow> filter (\<lambda>y. y = x) xs = [x]"
  by (induction xs) (auto simp: filter_empty_conv)

text \<open>The rows name legs, so the filter by row is the filter by leg.\<close>

lemma row_member:
  assumes "distinct (map lg_rowNo legs)" and "y \<in> set legs" and "set xs \<subseteq> set legs"
  shows "lg_rowNo y \<in> lg_rowNo ` set xs \<longleftrightarrow> y \<in> set xs"
  using assms by (auto simp: distinct_map dest: inj_onD)

lemma find_append: "find P (xs @ ys) = (case find P xs of None \<Rightarrow> find P ys | Some x \<Rightarrow> Some x)"
  by (induction xs) simp_all

lemma find_map_Some: "find P (map f xs) = map_option f (find (P \<circ> f) xs)"
  by (induction xs) simp_all

definition is_instrument_of :: "internal_leg \<Rightarrow> internal_leg \<Rightarrow> bool" where
  "is_instrument_of l x \<longleftrightarrow> lg_source x = SRC_INSTRUMENT \<and> lg_fromRows x \<noteq> [] \<and> Some (hd (lg_fromRows x)) = lg_lineRowNo l"

lemma find_instrument:
  assumes "\<forall>l\<in>set typed. lg_source l = SRC_TYPED" and "gen = map (name_party ids) (instrument_legs n typed0 @ R)"
    and "find (is_instrument_of l) (instrument_legs n typed0) = Some y"
  shows "find (is_instrument_of l) (typed @ gen) = Some (name_party ids y) \<and> y \<in> set (instrument_legs n typed0)"
proof -
  have "find (is_instrument_of l) typed = None"
    using assms(1) by (auto simp: find_None_iff is_instrument_of_def)
  moreover have "is_instrument_of l \<circ> name_party ids = is_instrument_of l" by (simp add: is_instrument_of_def fun_eq_iff)
  moreover have "y \<in> set (instrument_legs n typed0)" using assms(3) by (metis find_Some_iff nth_mem)
  ultimately show ?thesis using assms(3) by (simp add: assms(2) find_append find_map_Some)
qed

lemma own_split:
  assumes d: "distinct (map lg_rowNo (typed @ gen))" and l: "leg \<in> set typed" and dr: "dr \<in> set gen" and P: "\<forall>y\<in>set typed. \<not> P y"
  shows "filter (\<lambda>y. lg_rowNo y \<in> set (lg_rowNo leg # lg_rowNo dr # map lg_rowNo (filter P (typed @ gen)))) (typed @ gen) =
    leg # filter (\<lambda>y. y = dr \<or> P y) gen"
proof -
  let ?xs = "leg # dr # filter P gen"
  have f: "filter P (typed @ gen) = filter P gen" using P by (simp add: filter_empty_conv)
  have row: "lg_rowNo y \<in> set (lg_rowNo leg # lg_rowNo dr # map lg_rowNo (filter P (typed @ gen))) \<longleftrightarrow> y \<in> set ?xs"
    if "y \<in> set (typed @ gen)" for y
    using row_member [OF d that, of ?xs] l dr unfolding f by (simp add: subset_iff)
  have dist: "distinct typed" "set typed \<inter> set gen = {}" using d by (auto simp: distinct_map)
  have "filter (\<lambda>y. y \<in> set ?xs) (typed @ gen) = filter (\<lambda>y. y = leg) typed @ filter (\<lambda>y. y = dr \<or> P y) gen"
    using l dr dist(2) P by (auto intro!: arg_cong2 [where f = "(@)"] filter_cong)
  also have "\<dots> = leg # filter (\<lambda>y. y = dr \<or> P y) gen" by (simp add: filter_single dist(1) l)
  finally show ?thesis using row by (simp cong: filter_cong)
qed

text \<open>A leg that opens a voucher, with its line before the taxes and the leg of its instrument.\<close>

definition opens :: "decimal_js \<Rightarrow> internal_leg list \<Rightarrow> internal_leg list \<Rightarrow> internal_leg \<Rightarrow> internal_leg \<Rightarrow> bool" where
  "opens J typed gen leg dr \<longleftrightarrow> leg \<in> set typed \<and> dr \<in> set gen \<and> lg_source dr = SRC_INSTRUMENT \<and>
     find (is_instrument_of leg) (typed @ gen) = Some dr \<and>
     lg_postDated leg \<and> lg_postDated dr \<and> lg_postsOn dr = lg_postsOn leg \<and> truthy (lg_postsOn leg) \<and> lg_drCr dr = opposite (lg_drCr leg) \<and>
     lg_postsOn leg = Option.bind (lg_instrument leg) in_postsOn \<and> (\<exists>i. lg_instrument leg = Some i \<and> in_isPostDated i) \<and>
     (lg_amount dr = lg_amount leg \<and> tds_of leg gen = [] \<or>
       lg_drCr leg = DR \<and> (\<exists>x. tds_of leg gen = [x] \<and> lg_drCr x = CR \<and> lg_postsOn x = lg_postsOn leg \<and>
          lg_amount x = d_plus J 0 (d_minus J (lg_amount leg) (lg_amount dr))))"

lemma instrument_legs_found:
  assumes "distinct (map (\<lambda>l. the (lg_lineRowNo l)) ls)" and "\<forall>l\<in>set ls. lg_lineRowNo l \<noteq> None" and "x \<in> set (instrument_legs n ls)"
  shows "\<exists>l\<in>set ls. \<exists>m ins. lg_instrument l = Some ins \<and> x = instrument_leg m l ins \<and> find (is_instrument_of l) (instrument_legs n ls) = Some x"
  using assms
proof (induction ls arbitrary: n)
  case (Cons k ls)
  show ?case
  proof (cases "\<exists>ins. lg_instrument k = Some ins \<and> x = instrument_leg n k ins")
    case True
    then obtain ins where ins: "lg_instrument k = Some ins" "x = instrument_leg n k ins" by blast
    then have "find (is_instrument_of k) (instrument_legs n (k # ls)) = Some x"
      using Cons.prems(2) by (auto simp: is_instrument_of_def)
    with ins show ?thesis by (intro bexI [of _ k] exI [of _ n] exI [of _ ins]) simp_all
  next
    case False
    then obtain n' where "x \<in> set (instrument_legs n' ls)" and n': "n' = n \<or> n' = n + 1 \<and> lg_instrument k \<noteq> None"
      "instrument_legs n (k # ls) = (case lg_instrument k of None \<Rightarrow> [] | Some ins \<Rightarrow> [instrument_leg n k ins]) @ instrument_legs n' ls"
      using Cons.prems(3) by (auto split: option.splits)
    then obtain l m ins where l: "l \<in> set ls" "lg_instrument l = Some ins" "x = instrument_leg m l ins"
        "find (is_instrument_of l) (instrument_legs n' ls) = Some x"
      using Cons.IH [of n'] Cons.prems by auto
    have "the (lg_lineRowNo k) \<noteq> the (lg_lineRowNo l)" using Cons.prems(1) l(1) by force
    then have "find (is_instrument_of l) (instrument_legs n (k # ls)) = Some x"
      unfolding n'(2) using l(4) Cons.prems(2) by (auto simp: is_instrument_of_def split: option.splits)
    with l show ?thesis by (intro bexI [of _ l] exI [of _ m] exI [of _ ins]) simp_all
  qed
qed simp

context decimal_package
begin

lemma dated_opens:
  assumes "gc_refusals (ls_ctx (derive_legs J input c pr)) = []"
    and "typed = ls_typed (derive_legs J input c pr)" and "gen = ls_gen (derive_legs J input c pr)"
  shows "\<forall>leg\<in>set typed. lg_postDated leg \<longrightarrow> (\<exists>dr. opens J typed gen leg dr)"
    and "\<forall>x\<in>set gen. lg_postDated x \<longrightarrow> (\<exists>leg\<in>set typed. lg_postDated leg \<and> (find (is_instrument_of leg) (typed @ gen) = Some x \<or> x \<in> set (tds_of leg gen)))"
proof -
  obtain typed0 T G R n ids where typed: "typed = map (name_party ids) T" and gen: "gen = map (name_party ids) G" and ok0: "legs_ok typed0 []"
    and all: "list_all2 (kept J {} G) (map name_instrument typed0) T" and named: "named_dated (map name_instrument typed0) G"
    and G: "G = instrument_legs n typed0 @ R"
    and R: "\<forall>x\<in>set R. lg_source x \<noteq> SRC_INSTRUMENT \<and> (lg_postDated x \<longrightarrow> lg_source x = SRC_TDS)"
    and dated: "\<forall>l\<in>set typed0. \<forall>i. lg_instrument l = Some i \<longrightarrow> ins_dated i"
    by (rule dated_stages [OF assms(1), unfolded assms(2,3) [symmetric]])
  have ok: "legs_ok typed gen" unfolding assms(2,3) by (rule derive_legs_ok)
  have src: "\<forall>l\<in>set typed. lg_source l = SRC_TYPED" using ok by (simp add: legs_ok_def typed_shape_def)
  have apart: "distinct (map (\<lambda>l. the (lg_lineRowNo l)) typed0)" and some: "\<forall>l\<in>set typed0. lg_lineRowNo l \<noteq> None"
    using legs_ok_apart [OF ok0] ok0 by (simp_all add: rows_apart_def legs_ok_def typed_shape_def)
  note found = find_instrument [OF src gen [unfolded G]]
  have tds: "tds_of (name_party ids b) gen = map (name_party ids) (tds_of a G)" if "lg_lineRowNo b = lg_lineRowNo a" for a b
    by (simp add: tds_of_def gen filter_map comp_def that)
  have onto: "\<exists>b\<in>set T. kept J {} G (name_instrument a) b" if "a \<in> set typed0" for a
    using all that unfolding list_all2_map1 by (metis in_set_conv_nth list_all2_conv_all_nth nth_mem)
  have forth: "\<exists>a\<in>set typed0. kept J {} G (name_instrument a) b" if "b \<in> set T" for b
    using all that unfolding list_all2_map1 by (metis in_set_conv_nth list_all2_conv_all_nth nth_mem)
  show "\<forall>leg\<in>set typed. lg_postDated leg \<longrightarrow> (\<exists>dr. opens J typed gen leg dr)"
  proof (intro ballI impI)
    fix leg assume leg: "leg \<in> set typed" "lg_postDated leg"
    then obtain b where b: "b \<in> set T" "leg = name_party ids b" by (auto simp: typed)
    then obtain a where a: "a \<in> set typed0" and k: "kept J {} G (name_instrument a) b" using forth by blast
    have same: "same_line (name_instrument a) b" using k by (simp add: kept_def)
    then have eq: "lg_lineRowNo b = lg_lineRowNo a" "lg_drCr leg = lg_drCr a" "lg_postsOn leg = lg_postsOn a"
      "lg_instrument leg = lg_instrument a" "lg_postDated a" "lg_lineRowNo leg = lg_lineRowNo a" "lg_amount leg = lg_amount b"
      using leg(2) by (simp_all add: same_line_def b)
    have shape: "typed_shape leg" using ok leg(1) by (simp add: legs_ok_def)
    with leg(2) obtain ins where ins: "lg_instrument leg = Some ins" "in_isPostDated ins" "lg_postsOn leg = in_postsOn ins"
      by (auto simp: typed_shape_def split: option.splits)
    have "is_instrument_of leg = is_instrument_of a" by (simp add: is_instrument_of_def eq fun_eq_iff)
    then obtain m where m: "find (is_instrument_of leg) (typed @ gen) = Some (name_party ids (instrument_leg m a ins))"
        "instrument_leg m a ins \<in> set (instrument_legs n typed0)"
      using found [of leg] instrument_legs_find [OF apart a _ some, of ins n] ins(1) eq(4)
      by (auto simp: is_instrument_of_def [abs_def])
    have tr: "truthy (lg_postsOn leg)" using dated a ins eq(4) by (simp add: ins_dated_def)
    let ?dr = "name_party ids (instrument_leg m a ins)"
    have "tds_of leg gen = map (name_party ids) (tds_of (name_instrument a) G)" using tds [of b "name_instrument a"] eq(1) by (simp add: b)
    moreover have "lg_postDated (name_instrument a)" using eq(5) by simp
    ultimately have "lg_amount ?dr = lg_amount leg \<and> tds_of leg gen = [] \<or>
       lg_drCr leg = DR \<and> (\<exists>x. tds_of leg gen = [x] \<and> lg_drCr x = CR \<and> lg_postsOn x = lg_postsOn leg \<and>
          lg_amount x = d_plus J 0 (d_minus J (lg_amount leg) (lg_amount ?dr)))"
      using k eq(2,3,7) by (auto simp: kept_def)
    moreover have "?dr \<in> set gen" using m(2) by (simp add: gen G)
    ultimately have "opens J typed gen leg ?dr"
      unfolding opens_def using leg m(1) ins tr eq(2) by simp
    then show "\<exists>dr. opens J typed gen leg dr" by blast
  qed
  show "\<forall>x\<in>set gen. lg_postDated x \<longrightarrow> (\<exists>leg\<in>set typed. lg_postDated leg \<and>
      (find (is_instrument_of leg) (typed @ gen) = Some x \<or> x \<in> set (tds_of leg gen)))"
  proof (intro ballI impI)
    fix x assume "x \<in> set gen" "lg_postDated x"
    then obtain y where y: "y \<in> set G" "x = name_party ids y" "lg_postDated y" by (auto simp: gen)
    show "\<exists>leg\<in>set typed. lg_postDated leg \<and> (find (is_instrument_of leg) (typed @ gen) = Some x \<or> x \<in> set (tds_of leg gen))"
    proof (cases "y \<in> set (instrument_legs n typed0)")
      case True
      obtain a m ins where a: "a \<in> set typed0" "lg_instrument a = Some ins" "y = instrument_leg m a ins"
          "find (is_instrument_of a) (instrument_legs n typed0) = Some y"
        using instrument_legs_found [OF apart some True] by blast
      obtain b where b: "b \<in> set T" "same_line (name_instrument a) b" using onto [OF a(1)] by (auto simp: kept_def)
      have "typed_shape a" using ok0 a(1) by (simp add: legs_ok_def)
      then have "lg_postDated b" using a y(3) b(2) by (simp add: same_line_def typed_shape_def)
      moreover have "is_instrument_of (name_party ids b) = is_instrument_of a"
        using b(2) by (simp add: is_instrument_of_def same_line_def fun_eq_iff)
      then have "find (is_instrument_of (name_party ids b)) (typed @ gen) = Some x"
        using found [of "name_party ids b"] a(4) y(2) by simp
      ultimately show ?thesis using b(1) by (intro bexI [of _ "name_party ids b"]) (simp_all add: typed)
    next
      case False
      with y R G have "lg_source y = SRC_TDS" by auto
      with named y obtain a where a: "a \<in> set typed0" "lg_postDated a" "lg_fromRows y = [the (lg_lineRowNo a)]"
        by (auto simp: named_dated_def)
      obtain b where b: "b \<in> set T" "same_line (name_instrument a) b" using onto [OF a(1)] by (auto simp: kept_def)
      have "x \<in> set (tds_of (name_party ids b) gen)"
        using y a(3) b(2) \<open>lg_source y = SRC_TDS\<close> by (simp add: tds_of_def gen same_line_def)
      then show ?thesis using a(2) b by (intro bexI [of _ "name_party ids b"]) (simp_all add: typed same_line_def)
    qed
  qed
qed

lemma opens_voucher:
  assumes o: "opens J typed gen leg dr" and ok: "legs_ok typed gen"
  obtains pd where "post_dated_of (typed @ gen) leg = [pd]" and "pd_amount pd = lg_amount leg"
    and "lg_postsOn leg = Some (pd_postsOn pd)" and "pd_partyLegRowNo pd = lg_rowNo leg"
    and "filter (\<lambda>l. lg_rowNo l \<in> set (own_rows pd)) (typed @ gen) =
      leg # filter (\<lambda>y. y = dr \<or> lg_source y = SRC_TDS \<and> lg_postDated y \<and> the (lg_lineRowNo leg) \<in> set (lg_fromRows y)) gen"
proof -
  let ?P = "\<lambda>y. lg_source y = SRC_TDS \<and> lg_postDated y \<and> the (lg_lineRowNo leg) \<in> set (lg_fromRows y)"
  obtain ins where ins: "lg_instrument leg = Some ins" "in_isPostDated ins" "lg_postsOn leg = in_postsOn ins" "truthy (in_postsOn ins)"
    using o by (auto simp: opens_def)
  have find: "find (\<lambda>x. lg_source x = SRC_INSTRUMENT \<and> lg_fromRows x \<noteq> [] \<and> Some (hd (lg_fromRows x)) = lg_lineRowNo leg) (typed @ gen) = Some dr"
    using o by (simp add: opens_def is_instrument_of_def [abs_def])
  obtain pd where pd: "post_dated_of (typed @ gen) leg = [pd]" "pd_partyLegRowNo pd = lg_rowNo leg"
      "pd_instrumentLegRowNo pd = lg_rowNo dr" "pd_extraLegRowNos pd = map lg_rowNo (filter ?P (typed @ gen))"
      "pd_amount pd = lg_amount leg" "pd_postsOn pd = the (in_postsOn ins)"
    using ins find by (simp add: post_dated_of_def)
  have "\<forall>y\<in>set typed. \<not> ?P y" using ok by (simp add: legs_ok_def typed_shape_def)
  moreover have "distinct (map lg_rowNo (typed @ gen))" using legs_ok_rows [OF ok] by simp
  ultimately have "filter (\<lambda>l. lg_rowNo l \<in> set (own_rows pd)) (typed @ gen) = leg # filter (\<lambda>y. y = dr \<or> ?P y) gen"
    using own_split [of typed gen leg dr ?P] o unfolding own_rows_def pd by (simp add: opens_def)
  moreover have "lg_postsOn leg = Some (pd_postsOn pd)" using ins pd(6) by (auto simp: truthy_def)
  ultimately show thesis using that pd(1,2,5) by blast
qed

lemma opens_nets:
  assumes o: "opens J typed gen leg dr" and ok: "legs_ok typed gen" and t: "turnover (typed @ gen) < 10 ^ 18"
    and own: "own = leg # filter (\<lambda>y. y = dr \<or> lg_source y = SRC_TDS \<and> lg_postDated y \<and> the (lg_lineRowNo leg) \<in> set (lg_fromRows y)) gen"
  shows "net own = 0" and "\<forall>l\<in>set own. lg_postDated l \<and> lg_postsOn l = lg_postsOn leg"
proof -
  let ?P = "\<lambda>y. lg_source y = SRC_TDS \<and> lg_postDated y \<and> the (lg_lineRowNo leg) \<in> set (lg_fromRows y)"
  have d: "distinct gen" "dr \<in> set gen" "leg \<in> set typed" using o legs_ok_rows [OF ok] by (auto simp: opens_def distinct_map)
  have P: "\<not> ?P dr" using o by (simp add: opens_def)
  have n: "net own = signed leg + (signed dr + net (tds_of leg gen))"
    unfolding own using net_pick [OF d(1,2), of ?P, OF P] by (simp add: tds_of_def)
  have pa: "paise (lg_amount leg)" "paise (lg_amount dr)" using legs_ok_paise [OF ok] d by auto
  have "\<bar>lg_amount leg\<bar> + \<bar>lg_amount dr\<bar> \<le> turnover (typed @ gen)"
    using turnover_member [OF d(2)] turnover_member [OF d(3)] by simp
  then have "d_plus J 0 (d_minus J (lg_amount leg) (lg_amount dr)) = lg_amount leg - lg_amount dr"
    using t pa by (simp add: minus_paise plus_paise)
  then show "net own = 0"
    using o unfolding n opens_def by (cases "lg_drCr leg") (auto simp: signed_def opposite_def)
  have "\<forall>x\<in>set (tds_of leg gen). lg_postsOn x = lg_postsOn leg" using o by (auto simp: opens_def)
  then show "\<forall>l\<in>set own. lg_postDated l \<and> lg_postsOn l = lg_postsOn leg"
    using o by (auto simp: own tds_of_def opens_def)
qed

lemma post_dated_settled:
  assumes "derive J input c pr = Inr (d, k, p)" and "gc_refusals k = []" and "turnover (dv_legs d) < 10 ^ 18"
  shows "(\<forall>pd\<in>set (dv_postDated d). net (own_legs d pd) = 0 \<and>
      (\<forall>l\<in>set (own_legs d pd). lg_postDated l \<and> lg_postsOn l = Some (pd_postsOn pd)) \<and>
      (\<exists>l\<in>set (own_legs d pd). lg_rowNo l = pd_partyLegRowNo pd \<and> lg_amount l = pd_amount pd)) \<and>
    (\<forall>l\<in>set (dv_legs d). lg_postDated l \<longrightarrow> (\<exists>pd\<in>set (dv_postDated d). l \<in> set (own_legs d pd)))"
  using assms(1)
proof (rule derive_Inr)
  fix s
  assume s: "s = derive_legs J input c pr" and legs: "dv_legs d = ls_typed s @ ls_gen s"
    and pds: "dv_postDated d = concat (map (post_dated_of (ls_typed s @ ls_gen s)) (ls_typed s))"
  let ?typed = "ls_typed s" and ?gen = "ls_gen s"
  have ok: "legs_ok ?typed ?gen" unfolding s by (rule derive_legs_ok)
  have t: "turnover (?typed @ ?gen) < 10 ^ 18" using assms(3) legs by simp
  have "gc_refusals (ls_ctx s) = []" using derive_ctx_extends [OF assms(1)] assms(2) unfolding s by (rule extends_clean)
  note o = dated_opens [OF this [unfolded s] arg_cong [OF s, of ls_typed] arg_cong [OF s, of ls_gen]]
  have pd_leg: "\<exists>leg\<in>set ?typed. lg_postDated leg \<and> post_dated_of (?typed @ ?gen) leg = [pd]" if pd: "pd \<in> set (dv_postDated d)" for pd
  proof -
    obtain leg where leg: "leg \<in> set ?typed" "pd \<in> set (post_dated_of (?typed @ ?gen) leg)" using pd by (auto simp: pds)
    then have "lg_postDated leg" using ok by (auto simp: post_dated_of_def legs_ok_def typed_shape_def split: option.splits if_splits)
    moreover have "length (post_dated_of (?typed @ ?gen) leg) \<le> 1"
      by (simp add: post_dated_of_def split: option.split)
    then have "post_dated_of (?typed @ ?gen) leg = [pd]"
      using leg(2) by (cases "post_dated_of (?typed @ ?gen) leg") auto
    ultimately show ?thesis using leg(1) by blast
  qed
  have own: "net (own_legs d pd) = 0 \<and> (\<forall>l\<in>set (own_legs d pd). lg_postDated l \<and> lg_postsOn l = Some (pd_postsOn pd)) \<and>
      (\<exists>l\<in>set (own_legs d pd). lg_rowNo l = pd_partyLegRowNo pd \<and> lg_amount l = pd_amount pd)"
    if pd: "pd \<in> set (dv_postDated d)" for pd
  proof -
    obtain leg dr where leg: "post_dated_of (?typed @ ?gen) leg = [pd]" "opens J ?typed ?gen leg dr" using pd_leg [OF pd] o(1) by blast
    from leg(2) ok show ?thesis
    proof (rule opens_voucher)
      fix pd'
      assume a: "post_dated_of (?typed @ ?gen) leg = [pd']" "pd_amount pd' = lg_amount leg"
        "lg_postsOn leg = Some (pd_postsOn pd')" "pd_partyLegRowNo pd' = lg_rowNo leg"
        and own: "filter (\<lambda>l. lg_rowNo l \<in> set (own_rows pd')) (?typed @ ?gen) =
          leg # filter (\<lambda>y. y = dr \<or> lg_source y = SRC_TDS \<and> lg_postDated y \<and> the (lg_lineRowNo leg) \<in> set (lg_fromRows y)) ?gen"
      note n = opens_nets [OF leg(2) ok t own]
      have "leg \<in> set (filter (\<lambda>l. lg_rowNo l \<in> set (own_rows pd')) (?typed @ ?gen))" unfolding own by simp
      moreover have "pd = pd'" using a(1) leg(1) by simp
      ultimately show ?thesis using a(2-4) n unfolding own_legs_def legs by (metis (no_types, lifting))
    qed
  qed
  have cover: "\<exists>pd\<in>set (dv_postDated d). l \<in> set (own_legs d pd)" if l: "l \<in> set (dv_legs d)" "lg_postDated l" for l
  proof -
    obtain leg where leg: "leg \<in> set ?typed" "lg_postDated leg"
        "l = leg \<or> find (is_instrument_of leg) (?typed @ ?gen) = Some l \<or> l \<in> set (tds_of leg ?gen)"
      using l o(2) unfolding legs by auto
    then obtain dr where dr: "opens J ?typed ?gen leg dr" using o(1) by blast
    from dr ok show ?thesis
    proof (rule opens_voucher)
      fix pd
      assume pd: "post_dated_of (?typed @ ?gen) leg = [pd]" and own: "filter (\<lambda>l. lg_rowNo l \<in> set (own_rows pd)) (?typed @ ?gen) =
          leg # filter (\<lambda>y. y = dr \<or> lg_source y = SRC_TDS \<and> lg_postDated y \<and> the (lg_lineRowNo leg) \<in> set (lg_fromRows y)) ?gen"
      have "l \<in> set (own_legs d pd)" using leg(3) dr unfolding own_legs_def legs own by (auto simp: opens_def tds_of_def)
      moreover have "pd \<in> set (dv_postDated d)" unfolding pds using leg(1) pd by force
      ultimately show ?thesis by blast
    qed
  qed
  show ?thesis using own cover by blast
qed

end

section \<open>Properties\<close>

text \<open>
  C10: a post-dated cheque posts a voucher of its own. In a derivation that refuses nothing, the legs a
  post-dated entry names (the party's, the instrument's and the tax deducted on it) have equal debits
  and credits and all post on the cheque's day, the party's leg at the entry's amount; and every
  post-dated leg is named by an entry.
\<close>

theorem derive_post_dated_balance:
  assumes "decimal_package J" and "derive J input c pr = Inr (d, k, p)" and "gc_refusals k = []"
    and "sum_list (map (\<lambda>l. \<bar>lg_amount l\<bar>) (dv_legs d)) < 10 ^ 18"
  shows "(\<forall>pd\<in>set (dv_postDated d). side_total DR (own_legs d pd) = side_total CR (own_legs d pd) \<and>
      (\<forall>l\<in>set (own_legs d pd). lg_postDated l \<and> lg_postsOn l = Some (pd_postsOn pd)) \<and>
      (\<exists>l\<in>set (own_legs d pd). lg_rowNo l = pd_partyLegRowNo pd \<and> lg_amount l = pd_amount pd)) \<and>
    (\<forall>l\<in>set (dv_legs d). lg_postDated l \<longrightarrow> (\<exists>pd\<in>set (dv_postDated d). l \<in> set (own_legs d pd)))"
  using decimal_package.post_dated_settled [OF assms(1-3)] assms(4) by (simp add: net_sides turnover_def)

theorem derive_post_dated_balance_witness:
  "\<exists>d k p. derive decimal20 sample_payment sample_ctx [] = Inr (d, k, p) \<and>
    (\<exists>pd\<in>set (dv_postDated d). side_total DR (own_legs d pd) = side_total CR (own_legs d pd) \<and> 1000 \<in> lg_amount ` set (own_legs d pd))"
proof -
  obtain d where d: "derive decimal20 sample_payment sample_ctx [] = Inr (d, sample_ctx, [(''bk'', 1)])"
    and v: "map leg_view (dv_legs d) = [(1, DR, ''sup'', 1200, False), (2, DR, ''job'', 1000, True), (3, CR, ''bank'', 1200, False),
      (4, CR, ''bank'', 900, True), (5, CR, ''tds'', 100, True)]"
    using payment_derive [of sample_ctx] by (elim exE conjE)
  have clean: "gc_refusals sample_ctx = []" by (simp add: sample_ctx_def newGuardContext_def)
  note all = derive_post_dated_balance [OF decimal20_package d clean]
  note bal = conjunct1 [OF all] and cov = conjunct2 [OF all]
  have small: "sum_list (map (\<lambda>l. \<bar>lg_amount l\<bar>) (dv_legs d)) < 10 ^ 18" using view_amounts [OF v] by simp
  have "(2, DR, ''job'', 1000, True) \<in> leg_view ` set (dv_legs d)" unfolding set_map [symmetric] v by simp
  then obtain l where l: "l \<in> set (dv_legs d)" "lg_postDated l" "lg_amount l = 1000" by (auto simp: leg_view_def)
  then obtain pd where "pd \<in> set (dv_postDated d)" "l \<in> set (own_legs d pd)" using cov [OF small] by blast
  moreover from this l(3) have "1000 \<in> lg_amount ` set (own_legs d pd)" by force
  ultimately show ?thesis using bal [OF small] d by (intro exI [of _ d] exI [of _ sample_ctx] exI [of _ "[(''bk'', 1)]"]) blast
qed

end
