(* ===== verification/Voucher_Gst.thy ===== *)
theory Voucher_Gst
  imports Voucher_Dated
begin

text \<open>
  The tax of a derivation: the split of a line's tax loses nothing, and the tax legs post exactly the tax
  of the lines, on the side opposite the party; under reverse charge the same tax, without cess, is
  posted back on the party's side.
\<close>

section \<open>The posts of the band\<close>

definition side_posts :: "DrCr \<Rightarrow> gst_post list \<Rightarrow> rat" where
  "side_posts s ps = sum_list (map (\<lambda>p. snd (snd p)) (filter (\<lambda>p. fst (snd p) = s) ps))"

definition posts_size :: "gst_post list \<Rightarrow> rat" where
  "posts_size ps = sum_list (map (\<lambda>p. \<bar>snd (snd p)\<bar>) ps)"

lemma side_posts_simps [simp]: "side_posts s [] = 0" "side_posts s (xs @ ys) = side_posts s xs + side_posts s ys"
  "side_posts s (p # ps) = (if fst (snd p) = s then snd (snd p) else 0) + side_posts s ps"
  by (simp_all add: side_posts_def)

lemma posts_size_simps [simp]: "posts_size [] = 0" "posts_size (xs @ ys) = posts_size xs + posts_size ys"
  "posts_size (p # ps) = \<bar>snd (snd p)\<bar> + posts_size ps"
  by (simp_all add: posts_size_def)

lemma posts_size_nonneg [simp]: "0 \<le> posts_size ps"
  by (induction ps) simp_all

definition on_side :: "DrCr \<Rightarrow> gst_entry \<Rightarrow> rat" where
  "on_side s e = (if ge_drCr e = s then ge_amount e else 0)"

definition entries_size :: "(string \<times> gst_entry) list \<Rightarrow> rat" where
  "entries_size m = sum_list (map ((\<lambda>e. \<bar>ge_amount e\<bar>) \<circ> snd) m)"

definition entries_side :: "DrCr \<Rightarrow> (string \<times> gst_entry) list \<Rightarrow> rat" where
  "entries_side s m = sum_list (map (on_side s \<circ> snd) m)"

text \<open>What the state of the band holds after the posts \<open>ps\<close>.\<close>

definition posted :: "gst_post list \<Rightarrow> gst_state \<Rightarrow> bool" where
  "posted ps st \<longleftrightarrow> distinct (map fst (gs_byLedger st)) \<and>
     (\<forall>(k, e)\<in>set (gs_byLedger st). (\<exists>l. k = l @ ''|'' @ side_text (ge_drCr e)) \<and> paise (ge_amount e)) \<and>
     (\<forall>s. entries_side s (gs_byLedger st) = side_posts s ps) \<and> entries_size (gs_byLedger st) \<le> posts_size ps \<and> gs_unmapped st = []"

lemma posted_empty: "posted [] \<lparr>gs_byLedger = [], gs_unmapped = [], gs_ctx = c\<rparr>"
  by (simp add: posted_def entries_side_def entries_size_def)

lemma key_side: "l @ ''|'' @ side_text s = l' @ ''|'' @ side_text s' \<Longrightarrow> s = s'"
  by (cases s; cases s') (simp_all add: side_text_def)

lemma entry_size: "(k, e) \<in> set m \<Longrightarrow> \<bar>ge_amount e\<bar> \<le> entries_size m"
proof (induction m)
  case (Cons p m)
  have "0 \<le> entries_size m" unfolding entries_size_def by (rule sum_list_nonneg) auto
  with Cons show ?case by (auto simp: entries_size_def)
qed simp

lemma do_post_extends: "extends (gs_ctx st) (gs_ctx (do_post J input n leg p st))"
  using trail.rel_do_post [of "gs_ctx st" st st J input n leg p] by (simp add: rel_gst_def)

context decimal_package
begin

lemma do_post_posted:
  assumes "posted ps st" and "gc_refusals (gs_ctx (do_post J input n leg p st)) = []" and "paise (snd (snd p))"
    and "posts_size ps + \<bar>snd (snd p)\<bar> < 10 ^ 18"
  shows "posted (ps @ [p]) (do_post J input n leg p st)"
proof -
  obtain role s a where p: "p = (role, s, a)" by (cases p)
  let ?m = "gs_byLedger st" and ?taxId = "gi_taxId (the (lg_gst leg))" and ?row = "the (lg_lineRowNo leg)"
  have eq: "do_post J input n leg p st = snd (post_gst J input n role s a ?taxId ?row st)" by (simp add: do_post_def p)
  show ?thesis
  proof (cases "a = 0")
    case True
    then show ?thesis using assms(1) unfolding eq by (simp add: post_gst_def p posted_def)
  next
    case False
    then obtain led where led: "role_hit input n role ?taxId = Some led"
      using assms(1,2) unfolding eq by (auto simp: post_gst_def posted_def split: option.splits)
    let ?key = "rl_ledgerId led @ ''|'' @ side_text s"
    define entry where "entry = (case jmap_get ?m ?key of
        Some cur \<Rightarrow> cur\<lparr>ge_amount := d_plus J (ge_amount cur) a, ge_rows := ge_rows cur @ [?row]\<rparr>
      | None \<Rightarrow> \<lparr> ge_ledgerId = rl_ledgerId led, ge_name = rl_ledgerName led, ge_role = role, ge_drCr = s,
          ge_amount = a, ge_rows = [?row] \<rparr>)"
    have st': "do_post J input n leg p st = st\<lparr>gs_byLedger := jmap_set ?key entry ?m\<rparr>"
      unfolding eq entry_def using False led by (simp add: post_gst_def Let_def)
    have e: "ge_drCr entry = s \<and> paise (ge_amount entry) \<and>
        ge_amount entry = (case jmap_get ?m ?key of Some cur \<Rightarrow> ge_amount cur + a | None \<Rightarrow> a) \<and>
        (case jmap_get ?m ?key of Some cur \<Rightarrow> ge_drCr cur = s | None \<Rightarrow> True)"
    proof (cases "jmap_get ?m ?key")
      case None
      then show ?thesis using assms(3) by (simp add: entry_def p)
    next
      case (Some cur)
      then have c: "(?key, cur) \<in> set ?m" by (rule map_of_SomeD)
      then obtain l where "?key = l @ ''|'' @ side_text (ge_drCr cur)" "paise (ge_amount cur)"
        using assms(1) by (fastforce simp: posted_def)
      then have "ge_drCr cur = s" "paise (ge_amount cur)" using key_side by metis+
      moreover have "\<bar>ge_amount cur\<bar> \<le> posts_size ps" using entry_size [OF c] assms(1) by (simp add: posted_def)
      then have "d_plus J (ge_amount cur) a = ge_amount cur + a"
        using calculation(2) assms(3,4) by (intro plus_paise) (auto simp: p)
      ultimately show ?thesis using Some assms(3) by (simp add: entry_def p)
    qed
    have d: "distinct (map fst ?m)" using assms(1) by (simp add: posted_def)
    have "entries_side t (jmap_set ?key entry ?m) = entries_side t ?m + (if s = t then a else 0)" for t
      using e sum_list_jmap_set [OF d, of "on_side t" ?key entry]
      by (cases "jmap_get ?m ?key") (simp_all add: entries_side_def on_side_def)
    moreover have "entries_size (jmap_set ?key entry ?m) \<le> entries_size ?m + \<bar>a\<bar>"
      using e sum_list_jmap_set [OF d, of "\<lambda>e. \<bar>ge_amount e\<bar>" ?key entry]
      by (cases "jmap_get ?m ?key") (simp_all add: entries_size_def)
    moreover have "\<forall>(k, e)\<in>set (jmap_set ?key entry ?m). (\<exists>l. k = l @ ''|'' @ side_text (ge_drCr e)) \<and> paise (ge_amount e)"
      using assms(1) e unfolding posted_def by (force dest!: jmap_set_member)
    ultimately show ?thesis using assms(1) d unfolding st' by (simp add: posted_def p)
  qed
qed

lemma do_posts_posted:
  assumes "posted ps st" and "gc_refusals (gs_ctx (fold (do_post J input n leg) new st)) = []" and "\<forall>p\<in>set new. paise (snd (snd p))"
    and "posts_size ps + posts_size new < 10 ^ 18"
  shows "posted (ps @ new) (fold (do_post J input n leg) new st)"
  using assms
proof (induction new arbitrary: ps st)
  case (Cons p new)
  let ?st = "do_post J input n leg p st"
  have "extends (gs_ctx ?st) (gs_ctx (fold (do_post J input n leg) new ?st))"
    by (rule fold_invariant [where Q = "\<lambda>p. True"]) (auto intro: extends_trans do_post_extends)
  then have "gc_refusals (gs_ctx ?st) = []" using Cons.prems(2) by (auto dest: extends_clean)
  then have "posted (ps @ [p]) ?st"
    using Cons.prems posts_size_nonneg [of new] by (intro do_post_posted) (auto simp del: posts_size_nonneg)
  with Cons.IH [of "ps @ [p]" ?st] Cons.prems show ?case by (simp add: add.assoc)
qed simp

end

text \<open>The posts of a line: what it adds to either side.\<close>

definition row_tax :: "internal_gst_line \<Rightarrow> rat" where
  "row_tax r = gl_cgst r + gl_sgst r + gl_igst r + gl_cess r"

definition row_size :: "internal_gst_line \<Rightarrow> rat" where
  "row_size r = \<bar>gl_cgst r\<bar> + \<bar>gl_sgst r\<bar> + \<bar>gl_igst r\<bar> + \<bar>gl_cess r\<bar>"

definition row_posts :: "bool \<Rightarrow> string \<Rightarrow> DrCr \<Rightarrow> DrCr \<Rightarrow> internal_gst_line \<Rightarrow> gst_post list" where
  "row_posts rcm prefix ts ps r = line_posts rcm prefix ts ps
     \<lparr> lt_cgst = gl_cgst r, lt_sgst = gl_sgst r, lt_igst = gl_igst r, lt_cess = gl_cess r \<rparr>"

lemma row_posts_sides:
  assumes "ts \<noteq> ps"
  shows "side_posts ts (row_posts rcm prefix ts ps r) = row_tax r"
    and "side_posts ps (row_posts rcm prefix ts ps r) = (if rcm then row_tax r - gl_cess r else 0)"
    and "posts_size (row_posts rcm prefix ts ps r) \<le> 2 * row_size r"
  using assms by (simp_all add: row_posts_def line_posts_def row_tax_def row_size_def)

text \<open>The band: what it posts on either side, and its rows, one for each line with tax.\<close>

definition tax_on :: "DrCr \<Rightarrow> internal_leg list \<Rightarrow> rat" where
  "tax_on s legs = sum_list (map lg_amount (filter (\<lambda>l. lg_source l \<in> {SRC_GST, SRC_RCM} \<and> lg_drCr l = s) legs))"

context decimal_package
begin

lemma split_tax_paise: "paise (lt_cgst (split_tax J n rate x))" "paise (lt_sgst (split_tax J n rate x))"
  "paise (lt_igst (split_tax J n rate x))" "paise (lt_cess (split_tax J n rate x))"
  by (simp_all add: split_tax_def tax_total_def Let_def minus_places)

lemma gst_line_posted:
  assumes "gst_line J input n rcm prefix ts ps leg (lines, st) = (lines', st')" and "gc_refusals (gs_ctx st') = []"
    and "posted old st" and "posts_size old + 2 * sum_list (map row_size lines') < 10 ^ 18 + 2 * sum_list (map row_size lines)"
  shows "\<exists>rate. active_rate input leg = Some rate \<and> lines' = lines @ [gst_row J input n prefix leg rate] \<and>
    posted (old @ row_posts rcm prefix ts ps (gst_row J input n prefix leg rate)) st' \<and>
    (rcm \<longrightarrow> gl_cess (gst_row J input n prefix leg rate) = 0)"
proof (cases "active_rate input leg")
  case None
  with assms(1,2) show ?thesis by (auto simp: gst_line_eq)
next
  case (Some rate)
  let ?tax = "split_tax J n rate (lg_amount leg)" and ?row = "gst_row J input n prefix leg rate"
  have posts: "row_posts rcm prefix ts ps ?row = line_posts rcm prefix ts ps ?tax"
    by (simp add: row_posts_def gst_row_def Let_def line_posts_def)
  let ?st = "fold (do_post J input n leg) (line_posts rcm prefix ts ps ?tax) st"
  have eq: "lines' = lines @ [?row]" "st' = rcm_cess rcm leg ?tax ?st" using assms(1) Some by (simp_all add: gst_line_eq Let_def)
  then have clean: "gc_refusals (gs_ctx ?st) = []" and cess: "rcm \<longrightarrow> lt_cess ?tax = 0"
    using assms(2) by (auto simp: rcm_cess_def refuse_if_def split: if_splits)
  have "posts_size (line_posts rcm prefix ts ps ?tax) \<le> 2 * row_size ?row"
    unfolding posts [symmetric] by (simp add: row_posts_def line_posts_def row_size_def)
  then have "posts_size old + posts_size (line_posts rcm prefix ts ps ?tax) < 10 ^ 18" using assms(4) by (simp add: eq)
  moreover have "\<forall>p\<in>set (line_posts rcm prefix ts ps ?tax). paise (snd (snd p))"
    by (auto simp: line_posts_def split_tax_paise)
  ultimately have "posted (old @ row_posts rcm prefix ts ps ?row) ?st"
    unfolding posts by (intro do_posts_posted [OF assms(3) clean]) simp_all
  then have "posted (old @ row_posts rcm prefix ts ps ?row) st'" by (simp add: eq rcm_cess_def posted_def)
  moreover have "gl_cess ?row = lt_cess ?tax" by (simp add: gst_row_def Let_def)
  ultimately show ?thesis using Some eq(1) cess by auto
qed

lemma gst_lines_append:
  "\<exists>rows. fst (fold (gst_line J input n rcm prefix ts ps) legs (lines, st)) = lines @ rows"
proof (induction legs arbitrary: lines st)
  case (Cons leg legs)
  obtain lines1 st1 where l: "gst_line J input n rcm prefix ts ps leg (lines, st) = (lines1, st1)" by fastforce
  then have "\<exists>rows. lines1 = lines @ rows" by (auto simp: gst_line_eq Let_def split: option.splits)
  with Cons.IH [of lines1 st1] l show ?case by auto
qed simp

lemma gst_line_extends:
  assumes "gst_line J input n rcm prefix ts ps leg (lines, st) = (lines', st')"
  shows "extends (gs_ctx st) (gs_ctx st')"
  using trail.rel_gst_line [of "gs_ctx st" "(lines, st)" "(lines, st)" J input n rcm prefix ts ps leg] assms
  by (simp add: rel_band_def rel_gst_def)

lemma gst_lines_extends:
  "extends (gs_ctx st) (gs_ctx (snd (fold (gst_line J input n rcm prefix ts ps) legs (lines, st))))"
proof (induction legs arbitrary: lines st)
  case (Cons leg legs)
  obtain lines1 st1 where l: "gst_line J input n rcm prefix ts ps leg (lines, st) = (lines1, st1)" by fastforce
  with Cons.IH [where lines = lines1 and st = st1] gst_line_extends [OF l] show ?case by (auto intro: extends_trans)
qed simp

lemma gst_lines_posted:
  assumes "fold (gst_line J input n rcm prefix ts ps) legs (lines, st) = (lines', st')" and "gc_refusals (gs_ctx st') = []"
    and "posted old st" and "posts_size old + 2 * sum_list (map row_size lines') < 10 ^ 18 + 2 * sum_list (map row_size lines)"
  shows "\<exists>rows. lines' = lines @ rows \<and> posted (old @ concat (map (row_posts rcm prefix ts ps) rows)) st' \<and>
    list_all2 (\<lambda>leg r. \<exists>rate. active_rate input leg = Some rate \<and> r = gst_row J input n prefix leg rate) legs rows \<and>
    (rcm \<longrightarrow> (\<forall>r\<in>set rows. gl_cess r = 0))"
  using assms
proof (induction legs arbitrary: lines st old)
  case Nil
  then show ?case by (intro exI [of _ "[]"]) simp
next
  case (Cons leg legs)
  obtain lines1 st1 where l: "gst_line J input n rcm prefix ts ps leg (lines, st) = (lines1, st1)" by fastforce
  with Cons.prems(1) have rest: "fold (gst_line J input n rcm prefix ts ps) legs (lines1, st1) = (lines', st')" by simp
  have "gc_refusals (gs_ctx st1) = []"
    using extends_clean [OF gst_lines_extends [of st1 input n rcm prefix ts ps legs lines1]] rest Cons.prems(2) by simp
  moreover obtain more where more: "lines' = lines1 @ more" using gst_lines_append [of input n rcm prefix ts ps legs lines1 st1] rest by auto
  have "0 \<le> sum_list (map row_size more)" by (rule sum_list_nonneg) (auto simp: row_size_def)
  then have "posts_size old + 2 * sum_list (map row_size lines1) < 10 ^ 18 + 2 * sum_list (map row_size lines)"
    using Cons.prems(4) more by simp
  ultimately obtain rate where r: "active_rate input leg = Some rate" "lines1 = lines @ [gst_row J input n prefix leg rate]"
      "posted (old @ row_posts rcm prefix ts ps (gst_row J input n prefix leg rate)) st1"
      "rcm \<longrightarrow> gl_cess (gst_row J input n prefix leg rate) = 0"
    using gst_line_posted [OF l _ Cons.prems(3)] by blast
  let ?r = "gst_row J input n prefix leg rate"
  have "posts_size (row_posts rcm prefix ts ps ?r) \<le> 2 * row_size ?r"
    by (simp add: row_posts_def line_posts_def row_size_def)
  then have "posts_size (old @ row_posts rcm prefix ts ps ?r) + 2 * sum_list (map row_size lines') < 10 ^ 18 + 2 * sum_list (map row_size lines1)"
    using Cons.prems(4) r(2) by simp
  from Cons.IH [OF rest Cons.prems(2) r(3) this] obtain rows where "lines' = lines1 @ rows"
      "posted ((old @ row_posts rcm prefix ts ps ?r) @ concat (map (row_posts rcm prefix ts ps) rows)) st'"
      "list_all2 (\<lambda>leg r. \<exists>rate. active_rate input leg = Some rate \<and> r = gst_row J input n prefix leg rate) legs rows"
      "rcm \<longrightarrow> (\<forall>r\<in>set rows. gl_cess r = 0)" by blast
  with r show ?case by (intro exI [of _ "?r # rows"]) auto
qed

text \<open>The legs carry the entries.\<close>

lemma gst_legs_side:
  assumes "\<forall>e\<in>set es. paise (ge_amount e)"
  shows "sum_list (map lg_amount (filter (\<lambda>l. lg_drCr l = s) (gst_legs J m es))) = sum_list (map (on_side s) es)"
  using assms by (induction es arbitrary: m) (simp_all add: gst_leg_def Let_def on_side_def)

lemma rows_sides:
  assumes "ts \<noteq> ps"
  shows "side_posts ts (concat (map (row_posts rcm prefix ts ps) rows)) = sum_list (map row_tax rows)"
    and "side_posts ps (concat (map (row_posts rcm prefix ts ps) rows)) = (if rcm then sum_list (map (\<lambda>r. row_tax r - gl_cess r) rows) else 0)"
  by (induction rows) (simp_all add: row_posts_sides [OF assms])

lemma gst_band_posts:
  assumes "gst_band J input party partySide typed gen c = (Some g, gen', c')" and "gc_refusals c' = []"
    and "2 * sum_list (map row_size (ig_lines g)) < 10 ^ 18"
  shows "\<exists>side pside new. vt_gstSide (di_type input) = Some side \<and> partySide = Some pside \<and> gen' = gen @ new \<and>
    (\<forall>x\<in>set new. lg_source x \<in> {SRC_GST, SRC_RCM}) \<and>
    tax_on (opposite pside) new = sum_list (map row_tax (ig_lines g)) \<and>
    tax_on pside new = (if band_rcm input side then sum_list (map row_tax (ig_lines g)) else 0) \<and>
    list_all2 (\<lambda>leg r. \<exists>rate. active_rate input leg = Some rate \<and> r = gst_row J input (band_nature input side party) (band_prefix side) leg rate)
      (filter (\<lambda>l. lg_gst l \<noteq> None) typed) (ig_lines g)"
proof (cases rule: gst_band_cases [of J input party partySide typed gen c])
  case (on side pside lines st)
  have g: "g = band_report J input side party lines" "c' = gs_ctx st"
    and gen': "gen' = gen @ gst_legs J (int (length typed + length gen) + 1) (map snd (gs_byLedger st))" using on(4) assms(1) by simp_all
  have lines: "ig_lines g = lines" by (simp add: g band_report_def)
  let ?rcm = "band_rcm input side" and ?new = "gst_legs J (int (length typed + length gen) + 1) (map snd (gs_byLedger st))"
  have "gc_refusals (gs_ctx st) = []" using assms(2) g by simp
  from gst_lines_posted [OF on(3) this posted_empty] assms(3)
  have p: "posted (concat (map (row_posts ?rcm (band_prefix side) (opposite pside) pside) lines)) st"
    and rows: "list_all2 (\<lambda>leg r. \<exists>rate. active_rate input leg = Some rate \<and> r = gst_row J input (band_nature input side party) (band_prefix side) leg rate)
      (filter (\<lambda>l. lg_gst l \<noteq> None) typed) lines" and cess: "?rcm \<longrightarrow> (\<forall>r\<in>set lines. gl_cess r = 0)"
    by (simp_all add: lines)
  have src: "\<forall>x\<in>set ?new. lg_source x \<in> {SRC_GST, SRC_RCM}" using gst_legs_source by blast
  have "\<forall>e\<in>set (map snd (gs_byLedger st)). paise (ge_amount e)" using p by (auto simp: posted_def)
  from gst_legs_side [OF this] have "tax_on s ?new = entries_side s (gs_byLedger st)" for s
    using src by (simp add: tax_on_def entries_side_def cong: filter_cong)
  then have side: "tax_on s ?new = side_posts s (concat (map (row_posts ?rcm (band_prefix side) (opposite pside) pside) lines))" for s
    using p by (simp add: posted_def)
  have neq: "opposite pside \<noteq> pside" by (cases pside) (simp_all add: opposite_def)
  have "?rcm \<longrightarrow> sum_list (map (\<lambda>r. row_tax r - gl_cess r) lines) = sum_list (map row_tax lines)"
    using cess by (auto intro!: arg_cong [where f = sum_list])
  then have "tax_on (opposite pside) ?new = sum_list (map row_tax lines)"
    "tax_on pside ?new = (if ?rcm then sum_list (map row_tax lines) else 0)"
    unfolding side rows_sides [OF neq] by simp_all
  with on(1,2) gen' src rows lines show ?thesis by (intro exI [of _ side] exI [of _ pside] exI [of _ ?new]) simp
qed (use assms(1) in simp)

lemma tax_on_map: "tax_on s (map (name_party ids) legs) = tax_on s legs"
  by (simp add: tax_on_def filter_map comp_def)

lemma tax_on_append: "tax_on s (xs @ ys) = tax_on s xs + tax_on s ys"
  by (simp add: tax_on_def)

lemma tax_on_other: "\<forall>x\<in>set legs. lg_source x \<notin> {SRC_GST, SRC_RCM} \<Longrightarrow> tax_on s legs = 0"
proof -
  assume "\<forall>x\<in>set legs. lg_source x \<notin> {SRC_GST, SRC_RCM}"
  then have "filter (\<lambda>l. lg_source l \<in> {SRC_GST, SRC_RCM} \<and> lg_drCr l = s) legs = []" by (simp add: filter_empty_conv)
  then show "tax_on s legs = 0" by (simp only: tax_on_def list.map sum_list.Nil)
qed

lemma tax_posted:
  assumes "derive J input c pr = Inr (d, k, p)" and "gc_refusals k = []" and "dv_gst d = Some g"
    and "2 * sum_list (map row_size (ig_lines g)) < 10 ^ 18"
  shows "\<exists>side pside. vt_gstSide (di_type input) = Some side \<and> vt_partySide (di_type input) = Some pside \<and>
    tax_on (opposite pside) (dv_legs d) = sum_list (map row_tax (ig_lines g)) \<and>
    tax_on pside (dv_legs d) = (if band_rcm input side then sum_list (map row_tax (ig_lines g)) else 0)"
proof -
  obtain s where s: "s = derive_legs J input c pr" "dv_legs d = ls_typed s @ ls_gen s" "ls_gst s = Some g"
    using assms(1,3) by (rule_tac derive_Inr) auto
  have clean: "gc_refusals (ls_ctx s) = []" using derive_ctx_extends [OF assms(1)] assms(2) unfolding s(1) by (rule extends_clean)
  show ?thesis
  proof (rule derive_legs_stages [where J = J and input = input and c = c and pr = pr])
    fix typed0 c1 pr' party pside c2 gst gen1 c3 tds gen2 c4 st partyLeg gen4 c6
    assume a: "read_lines J input (calendar_guards input c, pr) = (typed0, c1, pr')"
      and b: "resolve_party input c1 = (party, pside, c2)"
      and d: "gst_band J input party pside (map name_instrument typed0) (instrument_legs (int (length typed0) + 1) typed0) c2 = (gst, gen1, c3)"
      and e: "tds_one J input party pside (map name_instrument typed0) gen1 c3 = (tds, gen2, c4)"
      and st: "st = tds_many J input \<lparr> ms_typed = map name_instrument typed0, ms_gen = gen2, ms_ctx = c4,
              ms_lines = (case tds of None \<Rightarrow> [] | Some t \<Rightarrow> [t]), ms_unmappedTold = False \<rparr>"
      and f: "party_step J input party pside (ms_typed st) (ms_gen st) (ms_ctx st) = (partyLeg, gen4, c6)"
      and g: "derive_legs J input c pr = \<lparr> ls_typed = map (name_party (party_ids input partyLeg (ms_typed st))) (ms_typed st),
          ls_gen = map (name_party (party_ids input partyLeg (ms_typed st))) gen4, ls_party = partyLeg,
          ls_gst = gst, ls_tds = tds, ls_tdsLines = ms_lines st, ls_ctx = c6, ls_promised = pr' \<rparr>"
      and x: "extends c3 c4" "extends c4 (ms_ctx st)" "extends (ms_ctx st) c6"
    have "extends c3 c6" using x by (blast intro: extends_trans)
    moreover have "gc_refusals c6 = []" using clean s(1) g by simp
    ultimately have c3: "gc_refusals c3 = []" by (rule extends_clean)
    have gst: "gst = Some g" using s(1,3) g by simp
    let ?ins = "instrument_legs (int (length typed0) + 1) typed0"
    from gst_band_posts [OF d [unfolded gst] c3 assms(4)] obtain side p new where band: "vt_gstSide (di_type input) = Some side"
        "pside = Some p" "gen1 = ?ins @ new"
        "tax_on (opposite p) new = sum_list (map row_tax (ig_lines g))"
        "tax_on p new = (if band_rcm input side then sum_list (map row_tax (ig_lines g)) else 0)" by blast
    have side: "vt_partySide (di_type input) = Some p"
      using b band(2) by (auto simp: resolve_party_def Let_def split: if_splits option.splits)
    obtain r2 where r2: "gen2 = gen1 @ r2" "\<forall>x\<in>set r2. lg_source x = SRC_TDS \<and> \<not> lg_postDated x" using tds_one_new [OF e] by blast
    obtain r3 where r3: "ms_gen st = gen2 @ r3" "\<forall>x\<in>set r3. lg_source x = SRC_TDS"
      using tds_many_new [of J input "\<lparr> ms_typed = map name_instrument typed0, ms_gen = gen2, ms_ctx = c4,
            ms_lines = (case tds of None \<Rightarrow> [] | Some t \<Rightarrow> [t]), ms_unmappedTold = False \<rparr>"] unfolding st by auto
    obtain r4 where r4: "gen4 = ms_gen st @ r4" "\<forall>x\<in>set r4. lg_source x = SRC_PARTY \<and> \<not> lg_postDated x" using party_step_new [OF f] by blast
    have "legs_ok (ls_typed s) (ls_gen s)" unfolding s(1) by (rule derive_legs_ok)
    then have "tax_on t (ls_typed s) = 0" for t by (intro tax_on_other) (simp add: legs_ok_def typed_shape_def)
    moreover have "tax_on t ?ins = 0" for t by (intro tax_on_other) (auto dest: instrument_legs_source)
    moreover have "tax_on t (r2 @ r3 @ r4) = 0" for t using r2(2) r3(2) r4(2) by (intro tax_on_other) auto
    ultimately have "tax_on t (dv_legs d) = tax_on t new" for t
      unfolding s(2) by (simp add: s(1) g tax_on_map tax_on_append r4(1) r3(1) r2(1) band(3))
    then show ?thesis using band side by (intro exI [of _ side] exI [of _ p]) simp
  qed
qed

end

section \<open>The split of a line's tax\<close>

lemma representable_scaled: "x * 10 ^ m = of_int k \<Longrightarrow> \<bar>k\<bar> < 10 ^ 20 \<Longrightarrow> representable x"
  unfolding representable_def by (intro exI [of _ k] exI [of _ m] exI [of _ 0]) (simp add: field_simps)

text \<open>The numerators of amounts within a bound are within theirs.\<close>

lemma paise_bounded:
  assumes "paise x" and "\<bar>x\<bar> \<le> of_int b"
  obtains k where "x = of_int k / 100" and "\<bar>k\<bar> \<le> 100 * b"
proof -
  obtain k where k: "x * 10 ^ 2 = of_int k" using assms(1) by (auto simp: on_grid_def)
  then have x: "x = of_int k / 100" by (simp add: field_simps)
  with assms(2) have "of_int \<bar>k\<bar> \<le> (of_int (100 * b) :: rat)" by (simp add: field_simps)
  then show thesis using that x by (simp only: of_int_le_iff)
qed

context decimal_package
begin

lemma tax_total_exact:
  assumes "paise x" and "\<bar>x\<bar> \<le> 10 ^ 12" and "paise (tr_ratePerc rate)" and "\<bar>tr_ratePerc rate\<bar> \<le> 1000"
  shows "tax_total J rate x = half_up 2 (x * tr_ratePerc rate / 100)"
    and "\<bar>tax_total J rate x - x * tr_ratePerc rate / 100\<bar> \<le> 1 / 200" and "\<bar>tax_total J rate x\<bar> \<le> 10 ^ 14"
proof -
  let ?r = "tr_ratePerc rate"
  obtain a where a: "x = of_int a / 100" "\<bar>a\<bar> \<le> 100 * 10 ^ 12" using paise_bounded [OF assms(1), of "10 ^ 12"] assms(2) by auto
  obtain b where b: "?r = of_int b / 100" "\<bar>b\<bar> \<le> 100 * 1000" using paise_bounded [OF assms(3), of 1000] assms(4) by auto
  have k: "\<bar>a * b\<bar> \<le> 10 ^ 19" using mult_mono [OF a(2) b(2)] by (simp add: abs_mult)
  then have k': "\<bar>a * b\<bar> < 10 ^ 20" by simp
  have xr: "x * ?r = of_int (a * b) / 10 ^ 4" by (simp add: a(1) b(1))
  have "representable (x * ?r)" by (rule representable_scaled [of _ 4, OF _ k']) (simp add: xr)
  moreover have "representable (x * ?r / 100)" by (rule representable_scaled [of _ 6, OF _ k']) (simp add: xr)
  ultimately show eq: "tax_total J rate x = half_up 2 (x * ?r / 100)"
    by (simp add: tax_total_def round2_def toDP_half_up times_exact div_exact)
  show err: "\<bar>tax_total J rate x - x * ?r / 100\<bar> \<le> 1 / 200"
    unfolding eq using half_up_error [of 2 "x * ?r / 100"] by simp
  have "\<bar>x * ?r\<bar> = of_int \<bar>a * b\<bar> / 10 ^ 4" by (simp add: xr abs_mult)
  also have "\<dots> \<le> of_int (10 ^ 19) / 10 ^ 4" using k by (intro divide_right_mono) (simp_all only: of_int_le_iff, simp)
  finally have "\<bar>x * ?r / 100\<bar> \<le> 10 ^ 13" by simp
  moreover have "\<bar>tax_total J rate x\<bar> \<le> \<bar>tax_total J rate x - x * ?r / 100\<bar> + \<bar>x * ?r / 100\<bar>"
    using abs_triangle_ineq [of "tax_total J rate x - x * ?r / 100" "x * ?r / 100"] by simp
  ultimately have "\<bar>tax_total J rate x\<bar> \<le> 1 / 200 + 10 ^ 13" using err by linarith
  also have "\<dots> \<le> 10 ^ 14" by simp
  finally show "\<bar>tax_total J rate x\<bar> \<le> 10 ^ 14" .
qed

lemma split_exact:
  assumes "\<bar>tax_total J rate x\<bar> \<le> 10 ^ 14"
  shows "lt_cgst (split_tax J n rate x) + lt_sgst (split_tax J n rate x) + lt_igst (split_tax J n rate x) = tax_total J rate x"
    and "\<bar>lt_cgst (split_tax J n rate x) - lt_sgst (split_tax J n rate x)\<bar> \<le> 1 / 100"
proof -
  let ?t = "tax_total J rate x" and ?h = "round2 J (d_div J (tax_total J rate x) 2)"
  have t: "paise ?t" by (simp add: tax_total_def)
  obtain k where k: "?t = of_int k / 100" "\<bar>k\<bar> \<le> 100 * 10 ^ 14" using paise_bounded [OF t, of "10 ^ 14"] assms by auto
  have "representable (?t / 2)" by (rule representable_scaled [of _ 3 "5 * k"]) (use k in simp_all)
  then have h: "?h = half_up 2 (?t / 2)" by (simp add: div_exact round2_def toDP_half_up)
  have e: "\<bar>?h - ?t / 2\<bar> \<le> 1 / 200" unfolding h using half_up_error [of 2 "?t / 2"] by simp
  then have "\<bar>?t - ?h\<bar> < 10 ^ 18" using assms by (simp add: abs_if field_simps split: if_splits)
  then have s: "d_minus J ?t ?h = ?t - ?h" using t by (intro minus_paise) simp_all
  show "lt_cgst (split_tax J n rate x) + lt_sgst (split_tax J n rate x) + lt_igst (split_tax J n rate x) = ?t"
    using s by (simp add: split_tax_def Let_def)
  show "\<bar>lt_cgst (split_tax J n rate x) - lt_sgst (split_tax J n rate x)\<bar> \<le> 1 / 100"
    using s e by (simp add: split_tax_def Let_def abs_if field_simps split: if_splits)
qed

end

section \<open>Properties\<close>

text \<open>
  C16: a derivation that refuses nothing posts exactly the tax it reports. On the side opposite the party
  the tax legs add up to the central, state, integrated and cess amounts of the reported lines; on the
  party's side they add up to the same under reverse charge, to nothing otherwise.
\<close>

theorem derive_posts_tax:
  assumes "decimal_package J" and "derive J input c pr = Inr (d, k, p)" and "gc_refusals k = []" and "dv_gst d = Some g"
    and "2 * sum_list (map (\<lambda>r. \<bar>gl_cgst r\<bar> + \<bar>gl_sgst r\<bar> + \<bar>gl_igst r\<bar> + \<bar>gl_cess r\<bar>) (ig_lines g)) < 10 ^ 18"
  shows "\<exists>side pside. vt_gstSide (di_type input) = Some side \<and> vt_partySide (di_type input) = Some pside \<and>
    tax_on (opposite pside) (dv_legs d) = sum_list (map (\<lambda>r. gl_cgst r + gl_sgst r + gl_igst r + gl_cess r) (ig_lines g)) \<and>
    tax_on pside (dv_legs d) = (if dh_reverseCharge (di_header input) \<and> side = INPUT
      then sum_list (map (\<lambda>r. gl_cgst r + gl_sgst r + gl_igst r + gl_cess r) (ig_lines g)) else 0)"
proof -
  have "row_tax = (\<lambda>r. gl_cgst r + gl_sgst r + gl_igst r + gl_cess r)"
    "row_size = (\<lambda>r. \<bar>gl_cgst r\<bar> + \<bar>gl_sgst r\<bar> + \<bar>gl_igst r\<bar> + \<bar>gl_cess r\<bar>)"
    by (simp_all add: row_tax_def row_size_def fun_eq_iff)
  then show ?thesis using decimal_package.tax_posted [OF assms(1-4)] assms(5) unfolding band_rcm_def by metis
qed

lemma purchase_gst: "map_option (\<lambda>g. map (\<lambda>r. (gl_cgst r, gl_sgst r, gl_igst r, gl_cess r)) (ig_lines g))
    (ls_gst (derive_legs decimal20 sample_purchase c [])) = Some [(90, 90, 0, 0)]"
  by (simp add: derive_legs_def purchase_calendar purchase_lines purchase_party)
    (simp add: leg_defs sample_fields line_defs itc_class_def)

theorem derive_posts_tax_witness:
  "\<exists>d k p. derive decimal20 sample_purchase sample_ctx [] = Inr (d, k, p) \<and> tax_on DR (dv_legs d) = 180 \<and> tax_on CR (dv_legs d) = 0"
proof -
  obtain d where d: "derive decimal20 sample_purchase sample_ctx [] = Inr (d, sample_ctx, [])"
    using purchase_derive [of sample_ctx] by (elim exE conjE)
  obtain g where g: "ls_gst (derive_legs decimal20 sample_purchase sample_ctx []) = Some g"
      "map (\<lambda>r. (gl_cgst r, gl_sgst r, gl_igst r, gl_cess r)) (ig_lines g) = [(90, 90, 0, 0)]"
    using purchase_gst [of sample_ctx] by auto
  have gst: "dv_gst d = Some g" using d g(1) by (rule_tac derive_Inr [OF d]) simp
  have clean: "gc_refusals sample_ctx = []" by (simp add: sample_ctx_def newGuardContext_def)
  have sums: "sum_list (map (\<lambda>r. \<bar>gl_cgst r\<bar> + \<bar>gl_sgst r\<bar> + \<bar>gl_igst r\<bar> + \<bar>gl_cess r\<bar>) (ig_lines g)) = 180"
    "sum_list (map (\<lambda>r. gl_cgst r + gl_sgst r + gl_igst r + gl_cess r) (ig_lines g)) = 180" using g(2) by auto
  have small: "2 * (180 :: rat) < 10 ^ 18" by simp
  note tax = derive_posts_tax [OF decimal20_package d clean gst, unfolded sums, OF small]
  from tax have "tax_on DR (dv_legs d) = 180 \<and> tax_on CR (dv_legs d) = 0"
    by (simp add: purchase_fields sample_type_def opposite_def)
  with d show ?thesis by (intro exI [of _ d] exI [of _ sample_ctx] exI [of _ "[]"]) simp
qed

text \<open>
  The split of a line's tax loses nothing. Central, state and integrated tax add up to the one
  rounded figure, which is within half a paisa of the taxable amount times the rate; the two halves
  differ by at most a paisa; within the state there is no integrated tax, outside it only that. The
  taxable amount is at most 10 ^ 12, the rate a percentage of at most 1000 with two decimals.
\<close>

theorem split_tax_exact:
  assumes "decimal_package J" and "paise taxable" and "\<bar>taxable\<bar> \<le> 10 ^ 12"
    and "paise (tr_ratePerc rate)" and "\<bar>tr_ratePerc rate\<bar> \<le> 1000"
  shows "lt_cgst (split_tax J n rate taxable) + lt_sgst (split_tax J n rate taxable) + lt_igst (split_tax J n rate taxable)
      = half_up 2 (taxable * tr_ratePerc rate / 100) \<and>
    \<bar>half_up 2 (taxable * tr_ratePerc rate / 100) - taxable * tr_ratePerc rate / 100\<bar> \<le> 1 / 200 \<and>
    \<bar>lt_cgst (split_tax J n rate taxable) - lt_sgst (split_tax J n rate taxable)\<bar> \<le> 1 / 100 \<and>
    (n = INTRA \<longrightarrow> lt_igst (split_tax J n rate taxable) = 0) \<and>
    (n = INTER \<longrightarrow> lt_cgst (split_tax J n rate taxable) = 0 \<and> lt_sgst (split_tax J n rate taxable) = 0)"
proof -
  note t = decimal_package.tax_total_exact [OF assms]
  note s = decimal_package.split_exact [OF assms(1) t(3), of n]
  show ?thesis using s t(1,2) by (simp add: split_tax_def Let_def)
qed

theorem split_tax_exact_witness:
  "lt_cgst (split_tax decimal20 INTRA sample_rate (99 / 20)) + lt_sgst (split_tax decimal20 INTRA sample_rate (99 / 20)) = 89 / 100"
proof -
  have p: "paise (99 / 20)" by (rule on_gridI [of _ _ 495]) simp
  have f: "\<lfloor>448 / 5 :: rat\<rfloor> = 89" by (simp add: floor_eq_iff)
  have h: "half_up 2 (99 / 20 * tr_ratePerc sample_rate / 100) = 89 / 100"
    by (simp add: sample_rate_def half_up_def f)
  have r: "paise (tr_ratePerc sample_rate)" "\<bar>tr_ratePerc sample_rate\<bar> \<le> 1000" by (simp_all add: sample_rate_def)
  show ?thesis using split_tax_exact [OF decimal20_package p _ r, of INTRA] unfolding h by simp
qed

end
