(* ===== verification/Purchase_Calc.thy ===== *)
theory Purchase_Calc
  imports Receipt_Utils
begin

text \<open>
  \<open>purchase/common/purchase-calc.ts\<close>: the calculation of a purchase document. Lines to net gross, charges
  and their spread over the lines, tax, input credit, short quantities and cost per line, and the totals
  of the bill; then the selling level of a line and the tax by rate. A decimal or null or undefined is a
  \<open>rat option\<close>, read by \<open>dec\<close> as the source's \<open>D\<close>.
\<close>

section \<open>Rounding\<close>

definition dec :: "rat option \<Rightarrow> rat" where
  "dec v = or_else v 0"

definition r2 :: "decimal_js \<Rightarrow> rat \<Rightarrow> rat" where
  "r2 J v = d_toDP J v 2 ROUND_HALF_UP"

definition r6 :: "decimal_js \<Rightarrow> rat \<Rightarrow> rat" where
  "r6 J v = d_toDP J v 6 ROUND_HALF_UP"

definition max0 :: "rat \<Rightarrow> rat" where
  "max0 v = (if v < 0 then 0 else v)"

definition total_of :: "decimal_js \<Rightarrow> rat list \<Rightarrow> rat" where
  "total_of J vs = foldl (d_plus J) 0 vs"

definition percent :: "decimal_js \<Rightarrow> rat \<Rightarrow> rat \<Rightarrow> rat" where
  "percent J v pct = d_div J (d_times J v pct) 100"

section \<open>What a document brings, and what is calculated\<close>

datatype itc_class_in = ITC_ELIGIBLE | ITC_INELIGIBLE | ITC_BLOCKED_17_5 | ITC_RCM | ITC_COMPOSITION | ITC_UNREGISTERED

datatype charge_method = FIXED | PERCENT | QTY | NET_QTY | KG | QTL | TON

datatype charge_alloc = BY_VALUE | BY_QTY | BY_WEIGHT | BY_NONE

datatype charge_type = ADD | DEDUCT

datatype supplier_tax_mode = REGULAR | COMPOSITION | UNREGISTERED

record calc_line_in =
  cl_key :: string
  cl_billedQty :: rat
  cl_receivedQty :: "rat option"
  cl_damagedQty :: "rat option"
  cl_freeQty :: "rat option"
  cl_toBaseFactor :: "rat option"
  cl_rate :: rat
  cl_discPct :: "rat option"
  cl_discPerQty :: "rat option"
  cl_discAmt :: "rat option"
  cl_schPct :: "rat option"
  cl_schPerQty :: "rat option"
  cl_schAmt :: "rat option"
  cl_extraDiscAmt :: "rat option"
  cl_gstPct :: "rat option"
  cl_cessPct :: "rat option"
  cl_cessPerUnit :: "rat option"
  cl_weight :: "rat option"
  cl_itcClass :: "itc_class_in option"
  cl_shortagePct :: "rat option"

record charge_payee =
  py_partyId :: string
  py_amount :: "rat option"

record calc_charge_in =
  cc_key :: string
  cc_type :: charge_type
  cc_method :: charge_method
  cc_rate :: rat
  cc_amount :: "rat option"
  cc_alloc :: charge_alloc
  cc_beforeTax :: bool
  cc_onBill :: bool
  cc_landingCost :: bool
  cc_taxPct :: "rat option"
  cc_payees :: "charge_payee list"
  cc_lineKeys :: "string list option"

record calc_in =
  ci_interState :: bool
  ci_supplierTaxMode :: "supplier_tax_mode option"
  ci_lines :: "calc_line_in list"
  ci_charges :: "calc_charge_in list"
  ci_tcsAmount :: "rat option"
  ci_roundOffStep :: "rat option"

record tax_parts =
  tp_cgst :: rat
  tp_sgst :: rat
  tp_igst :: rat

record calc_line_out =
  lo_key :: string
  lo_gross :: rat
  lo_discAmt :: rat
  lo_schAmt :: rat
  lo_extraDiscAmt :: rat
  lo_netGross :: rat
  lo_chrgBeforeTax :: rat
  lo_chrgAfterTax :: rat
  lo_offbillShare :: rat
  lo_taxable :: rat
  lo_gstPct :: rat
  lo_tax :: tax_parts
  lo_cess :: rat
  lo_total :: rat
  lo_shortQty :: rat
  lo_absorbedShortQty :: rat
  lo_pendingShortQty :: rat
  lo_itcClass :: itc_class_in
  lo_itcEligible :: rat
  lo_itcPending :: rat
  lo_itcIneligible :: rat
  lo_shortValue :: rat
  lo_landedValue :: rat
  lo_landedCostWot :: rat

record calc_charge_out =
  ko_key :: string
  ko_amount :: rat
  ko_tax :: tax_parts
  ko_lineShares :: "(string \<times> rat) list"
  ko_payees :: "(string \<times> rat) list"

record calc_out =
  ot_lines :: "calc_line_out list"
  ot_charges :: "calc_charge_out list"
  ot_gross :: rat
  ot_discount :: rat
  ot_taxable :: rat
  ot_cgst :: rat
  ot_sgst :: rat
  ot_igst :: rat
  ot_cess :: rat
  ot_chargesOnBill :: rat
  ot_chargeTax :: rat
  ot_tcs :: rat
  ot_roundOff :: rat
  ot_netPayable :: rat
  ot_offbillCharges :: rat
  ot_shortValue :: rat
  ot_itcEligible :: rat
  ot_itcPending :: rat
  ot_itcIneligible :: rat

section \<open>The spread\<close>

text \<open>The walk over the weights: the shares so far, what is given, the last entry that took a share.\<close>

fun spread_walk :: "decimal_js \<Rightarrow> rat \<Rightarrow> rat \<Rightarrow> rat list \<Rightarrow> rat list \<times> rat \<times> nat option \<Rightarrow> rat list \<times> rat \<times> nat option" where
  "spread_walk J amount tot [] st = st"
| "spread_walk J amount tot (w # ws) (shares, given, i) =
     (if w = 0 then spread_walk J amount tot ws (shares @ [0], given, i)
      else (let share = r2 J (d_div J (d_times J amount w) tot)
        in spread_walk J amount tot ws (shares @ [share], d_plus J given share, Some (length shares))))"

definition spread :: "decimal_js \<Rightarrow> rat \<Rightarrow> rat list \<Rightarrow> rat list" where
  "spread J amount weights =
     (let tot = total_of J weights
      in if tot = 0 \<or> amount = 0 then map (\<lambda>_. 0) weights
         else (case spread_walk J amount tot weights ([], 0, None) of
             (shares, given, None) \<Rightarrow> shares
           | (shares, given, Some i) \<Rightarrow> shares[i := d_plus J (shares ! i) (d_minus J amount given)]))"

definition no_tax :: tax_parts where
  "no_tax = \<lparr> tp_cgst = 0, tp_sgst = 0, tp_igst = 0 \<rparr>"

definition gst :: "decimal_js \<Rightarrow> rat \<Rightarrow> rat \<Rightarrow> bool \<Rightarrow> tax_parts" where
  "gst J taxable pct interState =
     (if pct = 0 \<or> taxable = 0 then no_tax
      else if interState then no_tax\<lparr>tp_igst := r2 J (percent J taxable pct)\<rparr>
      else (let half = r2 J (d_div J (d_div J (d_times J taxable pct) 2) 100)
        in \<lparr> tp_cgst = half, tp_sgst = half, tp_igst = 0 \<rparr>))"

definition tax_sum :: "decimal_js \<Rightarrow> tax_parts \<Rightarrow> rat" where
  "tax_sum J t = d_plus J (d_plus J (tp_cgst t) (tp_sgst t)) (tp_igst t)"

section \<open>Step 1: the lines to net gross\<close>

record base_line =
  lb_line :: calc_line_in
  lb_billed :: rat
  lb_received :: rat
  lb_damaged :: rat
  lb_free :: rat
  lb_factor :: rat
  lb_weight :: rat
  lb_gross :: rat
  lb_discAmt :: rat
  lb_schAmt :: rat
  lb_extraDiscAmt :: rat
  lb_netGross :: rat
  lb_itcClass :: itc_class_in

text \<open>A discount or a scheme: a percentage of \<open>v\<close>, else an amount per billed unit, else the typed amount.\<close>

definition reduction_of :: "decimal_js \<Rightarrow> rat \<Rightarrow> rat \<Rightarrow> rat option \<Rightarrow> rat option \<Rightarrow> rat option \<Rightarrow> rat" where
  "reduction_of J v billed pct perQty amt =
     (if dec pct \<noteq> 0 then r2 J (percent J v (dec pct))
      else if dec perQty \<noteq> 0 then r2 J (d_times J billed (dec perQty))
      else r2 J (dec amt))"

definition noTaxSupplier :: "calc_in \<Rightarrow> bool" where
  "noTaxSupplier input \<longleftrightarrow> ci_supplierTaxMode input = Some COMPOSITION \<or> ci_supplierTaxMode input = Some UNREGISTERED"

definition line_class :: "calc_in \<Rightarrow> calc_line_in \<Rightarrow> itc_class_in" where
  "line_class input l =
     (if ci_supplierTaxMode input = Some COMPOSITION then ITC_COMPOSITION
      else if ci_supplierTaxMode input = Some UNREGISTERED then ITC_UNREGISTERED
      else or_else (cl_itcClass l) ITC_ELIGIBLE)"

definition base_of :: "decimal_js \<Rightarrow> calc_in \<Rightarrow> calc_line_in \<Rightarrow> base_line" where
  "base_of J input l =
     (let billed = cl_billedQty l;
          damaged = dec (cl_damagedQty l);
          received = (case cl_receivedQty l of None \<Rightarrow> max0 (d_minus J billed damaged) | Some q \<Rightarrow> q);
          gross = r2 J (d_times J billed (cl_rate l));
          discAmt = reduction_of J gross billed (cl_discPct l) (cl_discPerQty l) (cl_discAmt l);
          afterDisc = d_minus J gross discAmt;
          schAmt = reduction_of J afterDisc billed (cl_schPct l) (cl_schPerQty l) (cl_schAmt l);
          extraDiscAmt = r2 J (dec (cl_extraDiscAmt l))
      in \<lparr> lb_line = l, lb_billed = billed, lb_received = received, lb_damaged = damaged, lb_free = dec (cl_freeQty l),
           lb_factor = or_else (cl_toBaseFactor l) 1, lb_weight = dec (cl_weight l), lb_gross = gross,
           lb_discAmt = discAmt, lb_schAmt = schAmt, lb_extraDiscAmt = extraDiscAmt,
           lb_netGross = d_minus J (d_minus J afterDisc schAmt) extraDiscAmt, lb_itcClass = line_class input l \<rparr>)"

abbreviation lb_key :: "base_line \<Rightarrow> string" where
  "lb_key b \<equiv> cl_key (lb_line b)"

section \<open>Step 2: the charges and their spread\<close>

text \<open>What the charges add to a line.\<close>

record line_share =
  sh_before :: rat
  sh_after :: rat
  sh_offbill :: rat
  sh_beforeNotLanding :: rat
  sh_afterNotLanding :: rat

definition no_share :: line_share where
  "no_share = \<lparr> sh_before = 0, sh_after = 0, sh_offbill = 0, sh_beforeNotLanding = 0, sh_afterNotLanding = 0 \<rparr>"

type_synonym share_map = "(string \<times> line_share) list"

definition charge_lines :: "calc_charge_in \<Rightarrow> base_line list \<Rightarrow> base_line list" where
  "charge_lines c bases = filter (\<lambda>b. case cc_lineKeys c of None \<Rightarrow> True | Some keys \<Rightarrow> lb_key b \<in> set keys) bases"

definition charge_amount :: "decimal_js \<Rightarrow> calc_charge_in \<Rightarrow> base_line list \<Rightarrow> rat" where
  "charge_amount J c lines =
     (let rate = cc_rate c;
          qty = total_of J (map lb_billed lines);
          wt = total_of J (map lb_weight lines)
      in if dec (cc_amount c) \<noteq> 0 then r2 J \<bar>dec (cc_amount c)\<bar>
         else case cc_method c of
             FIXED \<Rightarrow> r2 J \<bar>rate\<bar>
           | PERCENT \<Rightarrow> r2 J (percent J (total_of J (map lb_netGross lines)) rate)
           | QTY \<Rightarrow> r2 J (d_times J qty rate)
           | NET_QTY \<Rightarrow> r2 J (d_times J qty rate)
           | KG \<Rightarrow> r2 J (d_times J wt rate)
           | QTL \<Rightarrow> r2 J (d_div J (d_times J wt rate) 100)
           | TON \<Rightarrow> r2 J (d_div J (d_times J wt rate) 1000))"

definition charge_signed :: "decimal_js \<Rightarrow> calc_charge_in \<Rightarrow> base_line list \<Rightarrow> rat" where
  "charge_signed J c lines = (case cc_type c of DEDUCT \<Rightarrow> - charge_amount J c lines | ADD \<Rightarrow> charge_amount J c lines)"

definition alloc_weight :: "decimal_js \<Rightarrow> calc_charge_in \<Rightarrow> base_line \<Rightarrow> rat" where
  "alloc_weight J c b = (case cc_alloc c of
     BY_QTY \<Rightarrow> d_times J (lb_billed b) (lb_factor b) | BY_WEIGHT \<Rightarrow> lb_weight b | _ \<Rightarrow> lb_netGross b)"

definition charge_parts :: "decimal_js \<Rightarrow> calc_charge_in \<Rightarrow> base_line list \<Rightarrow> rat list" where
  "charge_parts J c lines =
     (let weights = map (alloc_weight J c) lines
      in spread J (charge_signed J c lines) (if list_ex (\<lambda>w. w \<noteq> 0) weights then weights else map lb_netGross lines))"

definition add_share :: "decimal_js \<Rightarrow> calc_charge_in \<Rightarrow> rat \<Rightarrow> line_share \<Rightarrow> line_share" where
  "add_share J c part s =
     (if \<not> cc_onBill c then s\<lparr>sh_offbill := d_plus J (sh_offbill s) part\<rparr>
      else if cc_beforeTax c then
        (let s' = s\<lparr>sh_before := d_plus J (sh_before s) part\<rparr>
         in if cc_landingCost c then s' else s'\<lparr>sh_beforeNotLanding := d_plus J (sh_beforeNotLanding s') part\<rparr>)
      else
        (let s' = s\<lparr>sh_after := d_plus J (sh_after s) part\<rparr>
         in if cc_landingCost c then s' else s'\<lparr>sh_afterNotLanding := d_plus J (sh_afterNotLanding s') part\<rparr>))"

fun add_shares :: "decimal_js \<Rightarrow> calc_charge_in \<Rightarrow> (string \<times> rat) list \<Rightarrow> share_map \<Rightarrow> share_map" where
  "add_shares J c [] m = m"
| "add_shares J c ((key, part) # ps) m =
     add_shares J c ps (jmap_set key (add_share J c part (or_else (jmap_get m key) no_share)) m)"

text \<open>The payees of an off-bill charge: given amounts win, the rest is split equally.\<close>

fun payee_amounts :: "decimal_js \<Rightarrow> charge_payee list \<Rightarrow> rat list \<Rightarrow> (string \<times> rat) list" where
  "payee_amounts J [] rest = []"
| "payee_amounts J (p # ps) rest = (case py_amount p of
     Some a \<Rightarrow> (py_partyId p, r2 J a) # payee_amounts J ps rest
   | None \<Rightarrow> (py_partyId p, hd rest) # payee_amounts J ps (tl rest))"

definition charge_payees :: "decimal_js \<Rightarrow> calc_charge_in \<Rightarrow> rat \<Rightarrow> (string \<times> rat) list" where
  "charge_payees J c amount =
     (if cc_onBill c then []
      else (let given = total_of J (map (\<lambda>p. r2 J (dec (py_amount p))) (filter (\<lambda>p. py_amount p \<noteq> None) (cc_payees c)));
                rest = spread J (d_minus J amount given) (map (\<lambda>_. 1) (filter (\<lambda>p. py_amount p = None) (cc_payees c)))
            in payee_amounts J (cc_payees c) rest))"

definition charge_tax :: "decimal_js \<Rightarrow> calc_in \<Rightarrow> calc_charge_in \<Rightarrow> rat \<Rightarrow> tax_parts" where
  "charge_tax J input c signed =
     (if cc_onBill c \<and> \<not> cc_beforeTax c \<and> \<not> noTaxSupplier input \<and> dec (cc_taxPct c) \<noteq> 0
      then gst J signed (dec (cc_taxPct c)) (ci_interState input) else no_tax)"

definition charge_step :: "decimal_js \<Rightarrow> calc_in \<Rightarrow> base_line list \<Rightarrow> calc_charge_in \<Rightarrow> calc_charge_out list \<times> share_map \<Rightarrow>
    calc_charge_out list \<times> share_map" where
  "charge_step J input bases c st =
     (case st of (charges, m) \<Rightarrow>
      let lines = charge_lines c bases;
          signed = charge_signed J c lines;
          keyed = zip (map (\<lambda>b. lb_key b) lines) (charge_parts J c lines)
      in (charges @ [\<lparr> ko_key = cc_key c, ko_amount = signed, ko_tax = charge_tax J input c signed,
            ko_lineShares = foldl (\<lambda>r (k, part). jmap_set k part r) [] keyed,
            ko_payees = charge_payees J c (charge_amount J c lines) \<rparr>],
          add_shares J c keyed m))"

definition run_charges :: "decimal_js \<Rightarrow> calc_in \<Rightarrow> base_line list \<Rightarrow> calc_charge_out list \<times> share_map" where
  "run_charges J input bases = fold (charge_step J input bases) (ci_charges input)
     ([], foldl (\<lambda>m b. jmap_set (lb_key b) no_share m) [] bases)"

section \<open>Step 3: tax, input credit, short and cost of a line\<close>

text \<open>The short quantity: within the allowance it is absorbed, else wholly pending.\<close>

definition short_of :: "decimal_js \<Rightarrow> base_line \<Rightarrow> rat" where
  "short_of J b = max0 (d_minus J (d_minus J (lb_billed b) (lb_received b)) (lb_damaged b))"

definition absorbed_of :: "decimal_js \<Rightarrow> base_line \<Rightarrow> rat" where
  "absorbed_of J b =
     (let short = short_of J b; allowance = percent J (lb_received b) (dec (cl_shortagePct (lb_line b)))
      in if short = 0 \<or> allowance < short then 0 else short)"

text \<open>The credit on the tax of a line: eligible, pending and ineligible.\<close>

definition itc_split :: "decimal_js \<Rightarrow> base_line \<Rightarrow> rat \<Rightarrow> rat \<Rightarrow> rat \<Rightarrow> rat \<times> rat \<times> rat" where
  "itc_split J b tax pending absorbed =
     (if lb_billed b = 0 \<or> tax = 0 then (0, 0, 0)
      else (let pendingPart = r2 J (d_div J (d_times J tax pending) (lb_billed b));
                lostPart = r2 J (d_div J (d_times J tax absorbed) (lb_billed b))
        in if lb_itcClass b = ITC_INELIGIBLE \<or> lb_itcClass b = ITC_BLOCKED_17_5
           then (0, pendingPart, d_minus J tax pendingPart)
           else (d_minus J (d_minus J tax pendingPart) lostPart, pendingPart, lostPart)))"

definition line_taxed :: "base_line \<Rightarrow> bool" where
  "line_taxed b \<longleftrightarrow> \<not> (lb_itcClass b = ITC_COMPOSITION \<or> lb_itcClass b = ITC_UNREGISTERED \<or> lb_itcClass b = ITC_RCM)"

definition line_out :: "decimal_js \<Rightarrow> calc_in \<Rightarrow> share_map \<Rightarrow> base_line \<Rightarrow> calc_line_out" where
  "line_out J input m b =
     (let l = lb_line b;
          s = or_else (jmap_get m (lb_key b)) no_share;
          taxable = d_plus J (lb_netGross b) (sh_before s);
          gstPct = (if line_taxed b then dec (cl_gstPct l) else 0);
          t = gst J taxable gstPct (ci_interState input);
          cess = (if line_taxed b
            then r2 J (d_plus J (percent J taxable (dec (cl_cessPct l))) (d_times J (lb_billed b) (dec (cl_cessPerUnit l)))) else 0);
          tax = d_plus J (tax_sum J t) cess;
          short = short_of J b;
          absorbed = absorbed_of J b;
          pending = d_minus J short absorbed;
          (eligible, pendingTax, ineligible) = itc_split J b tax pending absorbed;
          shortValue = (if lb_billed b = 0 then 0 else r2 J (d_div J (d_times J taxable pending) (lb_billed b)));
          landedValue = r2 J (d_minus J (d_plus J (d_plus J (d_plus J (d_minus J taxable (sh_beforeNotLanding s))
            (d_minus J (sh_after s) (sh_afterNotLanding s))) (sh_offbill s)) ineligible) shortValue);
          inQtyBase = d_times J (d_plus J (d_plus J (lb_received b) (lb_damaged b)) (lb_free b)) (lb_factor b)
      in \<lparr> lo_key = lb_key b, lo_gross = lb_gross b, lo_discAmt = lb_discAmt b, lo_schAmt = lb_schAmt b,
           lo_extraDiscAmt = lb_extraDiscAmt b, lo_netGross = lb_netGross b, lo_chrgBeforeTax = sh_before s,
           lo_chrgAfterTax = sh_after s, lo_offbillShare = sh_offbill s, lo_taxable = taxable, lo_gstPct = gstPct,
           lo_tax = t, lo_cess = cess, lo_total = d_plus J taxable tax, lo_shortQty = short, lo_absorbedShortQty = absorbed,
           lo_pendingShortQty = pending, lo_itcClass = lb_itcClass b, lo_itcEligible = eligible, lo_itcPending = pendingTax,
           lo_itcIneligible = ineligible, lo_shortValue = shortValue, lo_landedValue = landedValue,
           lo_landedCostWot = (if inQtyBase = 0 then 0 else r6 J (d_div J landedValue inQtyBase)) \<rparr>)"

section \<open>Step 4: the bill\<close>

definition line_total :: "decimal_js \<Rightarrow> calc_line_out list \<Rightarrow> (calc_line_out \<Rightarrow> rat) \<Rightarrow> rat" where
  "line_total J lines f = total_of J (map f lines)"

definition round_off :: "decimal_js \<Rightarrow> rat \<Rightarrow> rat \<Rightarrow> rat" where
  "round_off J step raw = (if step = 0 then raw else d_times J (d_toDP J (d_div J raw step) 0 ROUND_HALF_UP) step)"

definition bill_raw :: "decimal_js \<Rightarrow> calc_in \<Rightarrow> calc_line_out list \<Rightarrow> rat \<Rightarrow> rat \<Rightarrow> rat" where
  "bill_raw J input lines onBillAfter chargeTax =
     d_plus J (d_plus J (d_plus J (line_total J lines lo_total) onBillAfter) chargeTax) (r2 J (dec (ci_tcsAmount input)))"

definition calcPurchase :: "decimal_js \<Rightarrow> calc_in \<Rightarrow> calc_out" where
  "calcPurchase J input =
     (let bases = map (base_of J input) (ci_lines input);
          (charges, m) = run_charges J input bases;
          lines = map (line_out J input m) bases;
          paired = zip (ci_charges input) charges;
          onBillAfter = total_of J (map (\<lambda>(c, k). ko_amount k) (filter (\<lambda>(c, k). cc_onBill c \<and> \<not> cc_beforeTax c) paired));
          chargeTax = foldl (\<lambda>a k. d_plus J (d_plus J (d_plus J a (tp_cgst (ko_tax k))) (tp_sgst (ko_tax k))) (tp_igst (ko_tax k))) 0 charges;
          offbill = total_of J (map (\<lambda>(c, k). ko_amount k) (filter (\<lambda>(c, k). \<not> cc_onBill c) paired));
          raw = bill_raw J input lines onBillAfter chargeTax;
          rounded = round_off J (or_else (ci_roundOffStep input) 1) raw
      in \<lparr> ot_lines = lines, ot_charges = charges, ot_gross = line_total J lines lo_gross,
           ot_discount = line_total J lines (\<lambda>l. d_plus J (d_plus J (lo_discAmt l) (lo_schAmt l)) (lo_extraDiscAmt l)),
           ot_taxable = line_total J lines lo_taxable, ot_cgst = line_total J lines (tp_cgst \<circ> lo_tax),
           ot_sgst = line_total J lines (tp_sgst \<circ> lo_tax), ot_igst = line_total J lines (tp_igst \<circ> lo_tax),
           ot_cess = line_total J lines lo_cess,
           ot_chargesOnBill = d_plus J onBillAfter (line_total J lines lo_chrgBeforeTax), ot_chargeTax = chargeTax,
           ot_tcs = r2 J (dec (ci_tcsAmount input)), ot_roundOff = r2 J (d_minus J rounded raw), ot_netPayable = r2 J rounded,
           ot_offbillCharges = offbill, ot_shortValue = line_total J lines lo_shortValue,
           ot_itcEligible = d_plus J (line_total J lines lo_itcEligible) chargeTax,
           ot_itcPending = line_total J lines lo_itcPending, ot_itcIneligible = line_total J lines lo_itcIneligible \<rparr>)"

section \<open>Prices, and the tax by rate\<close>

definition priceFromMarkup :: "decimal_js \<Rightarrow> rat \<Rightarrow> rat \<Rightarrow> rat option \<Rightarrow> rat" where
  "priceFromMarkup J costWot markupPct step =
     (let raw = d_div J (d_times J costWot (d_plus J 100 markupPct)) 100; st = dec step
      in if st = 0 then r2 J raw else r2 J (d_times J (d_toDP J (d_div J raw st) 0 ROUND_HALF_UP) st))"

definition markupOf :: "decimal_js \<Rightarrow> rat \<Rightarrow> rat \<Rightarrow> rat" where
  "markupOf J costWot sellWot = (if costWot = 0 then 0
     else d_toDP J (d_div J (d_times J (d_minus J sellWot costWot) 100) costWot) 4 ROUND_HALF_UP)"

definition marginOf :: "decimal_js \<Rightarrow> rat \<Rightarrow> rat \<Rightarrow> rat" where
  "marginOf J costWot sellWot = (if sellWot = 0 then 0
     else d_toDP J (d_div J (d_times J (d_minus J sellWot costWot) 100) sellWot) 4 ROUND_HALF_UP)"

record sell_level =
  sl_sell :: "rat option"
  sl_fromMarkup :: bool
  sl_markupPct :: "rat option"
  sl_marginPct :: "rat option"

definition sellLevel :: "decimal_js \<Rightarrow> rat \<Rightarrow> rat \<Rightarrow> rat option \<Rightarrow> rat option \<Rightarrow> sell_level" where
  "sellLevel J costWot gstPct sell markupPct =
     (let gstMul = d_plus J 1 (d_div J gstPct 100);
          fromMarkup = (sell = None \<and> markupPct \<noteq> None \<and> 0 < costWot);
          price = (case sell of Some v \<Rightarrow> Some v
            | None \<Rightarrow> (if fromMarkup then Some (r2 J (d_times J (priceFromMarkup J costWot (the markupPct) None) gstMul)) else None));
          sellWot = (case price of None \<Rightarrow> None | Some v \<Rightarrow> (if v = 0 then None else Some (d_div J v gstMul)));
          priced = (sellWot \<noteq> None \<and> 0 < costWot)
      in \<lparr> sl_sell = price, sl_fromMarkup = fromMarkup,
           sl_markupPct = (if priced then Some (markupOf J costWot (the sellWot)) else None),
           sl_marginPct = (if priced then Some (marginOf J costWot (the sellWot)) else None) \<rparr>)"

record gst_piece =
  gp_gstPct :: rat
  gp_taxable :: rat
  gp_tax :: tax_parts
  gp_cess :: "rat option"

record gst_breakup_row =
  br_gstPct :: rat
  br_taxable :: rat
  br_cgst :: rat
  br_sgst :: rat
  br_igst :: rat
  br_cess :: rat
  br_total :: rat

definition add_piece :: "decimal_js \<Rightarrow> gst_piece \<Rightarrow> (string \<times> gst_breakup_row) list \<Rightarrow> (string \<times> gst_breakup_row) list" where
  "add_piece J p m =
     (let key = d_toFixed J (gp_gstPct p) 6;
          row = or_else (jmap_get m key) \<lparr> br_gstPct = gp_gstPct p, br_taxable = 0, br_cgst = 0, br_sgst = 0, br_igst = 0,
            br_cess = 0, br_total = 0 \<rparr>
      in jmap_set key (row\<lparr> br_taxable := d_plus J (br_taxable row) (gp_taxable p),
           br_cgst := d_plus J (br_cgst row) (tp_cgst (gp_tax p)), br_sgst := d_plus J (br_sgst row) (tp_sgst (gp_tax p)),
           br_igst := d_plus J (br_igst row) (tp_igst (gp_tax p)), br_cess := d_plus J (br_cess row) (dec (gp_cess p)) \<rparr>) m)"

definition row_total :: "decimal_js \<Rightarrow> gst_breakup_row \<Rightarrow> gst_breakup_row" where
  "row_total J r = r\<lparr> br_total := d_plus J (d_plus J (d_plus J (d_plus J (br_taxable r) (br_cgst r)) (br_sgst r)) (br_igst r)) (br_cess r) \<rparr>"

definition row_empty :: "gst_breakup_row \<Rightarrow> bool" where
  "row_empty r \<longleftrightarrow> br_taxable r = 0 \<and> br_cgst r = 0 \<and> br_sgst r = 0 \<and> br_igst r = 0 \<and> br_cess r = 0"

definition gstBreakup :: "decimal_js \<Rightarrow> gst_piece list \<Rightarrow> gst_breakup_row list" where
  "gstBreakup J pieces = sort_key br_gstPct (filter (\<lambda>r. \<not> row_empty r)
     (map (\<lambda>(k, r). row_total J r) (fold (add_piece J) pieces [])))"

definition calcGstPieces :: "calc_in \<Rightarrow> calc_out \<Rightarrow> gst_piece list" where
  "calcGstPieces input out =
     map (\<lambda>l. \<lparr> gp_gstPct = lo_gstPct l, gp_taxable = lo_taxable l, gp_tax = lo_tax l, gp_cess = Some (lo_cess l) \<rparr>) (ot_lines out)
     @ map (\<lambda>(c, k). \<lparr> gp_gstPct = dec (cc_taxPct c), gp_taxable = ko_amount k, gp_tax = ko_tax k, gp_cess = Some 0 \<rparr>)
         (filter (\<lambda>(c, k). cc_onBill c \<and> \<not> cc_beforeTax c \<and> \<not> noTaxSupplier input \<and> dec (cc_taxPct c) \<noteq> 0)
           (zip (ci_charges input) (ot_charges out)))"

definition rateFromInclusiveCost :: "decimal_js \<Rightarrow> rat \<Rightarrow> rat \<Rightarrow> rat option \<Rightarrow> rat option \<Rightarrow> rat" where
  "rateFromInclusiveCost J costIncl gstPct cessPct cessPerUnit =
     (let divisor = d_div J (d_plus J (d_plus J 100 gstPct) (dec cessPct)) 100
      in r6 J (d_div J (d_minus J costIncl (dec cessPerUnit)) divisor))"

end
