(* ===== verification/Purchase_Correct.thy ===== *)
theory Purchase_Correct
  imports Purchase_Calc
begin

text \<open>
  The purchase calculation, proved: the spread hands out exactly the amount, the credit on a line's tax
  is split without loss, a supplier without tax charges none, the payable adds up and is a multiple of the
  rounding step, and the tax by rate adds up to the tax of the document.
\<close>

section \<open>Sums on a grid\<close>

lemma sum_list_update_value:
  "i < length xs \<Longrightarrow> sum_list (xs[i := v]) = sum_list xs + v - xs ! i" for xs :: "rat list"
proof (induction xs arbitrary: i)
  case (Cons x xs)
  then show ?case by (cases i) simp_all
qed simp

lemma grid_representable': "on_grid n x \<Longrightarrow> \<bar>x\<bar> * 10 ^ n \<le> 10 ^ 20 \<Longrightarrow> representable x"
  using grid_representable [of n x 0] by simp

context decimal_package
begin

lemma plus_grid: "on_grid n a \<Longrightarrow> on_grid n b \<Longrightarrow> \<bar>a + b\<bar> * 10 ^ n \<le> 10 ^ 20 \<Longrightarrow> d_plus J a b = a + b"
  by (intro plus_exact grid_representable') simp_all

lemma minus_grid: "on_grid n a \<Longrightarrow> on_grid n b \<Longrightarrow> \<bar>a - b\<bar> * 10 ^ n \<le> 10 ^ 20 \<Longrightarrow> d_minus J a b = a - b"
  by (intro minus_exact grid_representable') simp_all

lemma foldl_plus_grid:
  assumes "\<forall>x\<in>set (a # xs). on_grid n x" and "sum_list (map abs (a # xs)) * 10 ^ n \<le> 10 ^ 20"
  shows "foldl (d_plus J) a xs = a + sum_list xs"
  using assms
proof (induction xs arbitrary: a)
  case (Cons x xs)
  have nn: "0 \<le> sum_list (map abs xs)" by (intro sum_list_nonneg) auto
  have tri: "(\<bar>a + x\<bar> + sum_list (map abs xs)) * 10 ^ n \<le> (\<bar>a\<bar> + \<bar>x\<bar> + sum_list (map abs xs)) * 10 ^ n"
    by (intro mult_right_mono) simp_all
  then have sum: "(\<bar>a + x\<bar> + sum_list (map abs xs)) * 10 ^ n \<le> 10 ^ 20"
    by (rule order_trans) (use Cons.prems(2) in \<open>simp add: add.assoc\<close>)
  have "\<bar>a + x\<bar> * 10 ^ n \<le> (\<bar>a + x\<bar> + sum_list (map abs xs)) * 10 ^ n" using nn by (intro mult_right_mono) simp_all
  then have "\<bar>a + x\<bar> * 10 ^ n \<le> 10 ^ 20" using sum by (rule order_trans)
  then have "d_plus J a x = a + x" using Cons.prems(1) by (intro plus_grid [of n]) simp_all
  with Cons.IH [of "a + x"] Cons.prems(1) sum show ?case by (simp add: add.assoc)
qed simp

lemma total_of_grid:
  assumes "\<forall>x\<in>set xs. on_grid n x" and "sum_list (map abs xs) * 10 ^ n \<le> 10 ^ 20"
  shows "total_of J xs = sum_list xs"
  using foldl_plus_grid [of 0 xs n] assms by (simp add: total_of_def)

lemma total_of_paise: "exact_column xs \<Longrightarrow> total_of J xs = sum_list xs"
  by (simp add: total_of_def foldl_plus_0)

lemma r2_half_up: "r2 J v = half_up 2 v"
  by (simp add: r2_def toDP_half_up)

section \<open>The spread\<close>

definition part_of :: "rat \<Rightarrow> rat \<Rightarrow> rat \<Rightarrow> rat" where
  "part_of amount tot w = (if w = 0 then 0 else r2 J (d_div J (d_times J amount w) tot))"

lemma spread_walk_parts:
  "\<exists>i'. spread_walk J amount tot ws (sh, g, i) =
      (sh @ map (part_of amount tot) ws, foldl (d_plus J) g (map (part_of amount tot) (filter (\<lambda>w. w \<noteq> 0) ws)), i') \<and>
    ((\<forall>w\<in>set ws. w = 0) \<longrightarrow> i' = i) \<and>
    ((\<exists>w\<in>set ws. w \<noteq> 0) \<longrightarrow> (\<exists>k < length ws. i' = Some (length sh + k) \<and> ws ! k \<noteq> 0))"
proof (induction ws arbitrary: sh g i)
  case (Cons w ws)
  show ?case
  proof (cases "w = 0")
    case True
    from Cons.IH [of "sh @ [0]" g i] obtain i' where i': "spread_walk J amount tot ws (sh @ [0], g, i) =
      ((sh @ [0]) @ map (part_of amount tot) ws, foldl (d_plus J) g (map (part_of amount tot) (filter (\<lambda>w. w \<noteq> 0) ws)), i')"
      "(\<forall>w\<in>set ws. w = 0) \<longrightarrow> i' = i"
      "(\<exists>w\<in>set ws. w \<noteq> 0) \<longrightarrow> (\<exists>k < length ws. i' = Some (length (sh @ [0]) + k) \<and> ws ! k \<noteq> 0)" by blast
    have "(\<exists>w'\<in>set (w # ws). w' \<noteq> 0) \<longrightarrow> (\<exists>k < length (w # ws). i' = Some (length sh + k) \<and> (w # ws) ! k \<noteq> 0)"
    proof
      assume "\<exists>w'\<in>set (w # ws). w' \<noteq> 0"
      then obtain k where "k < length ws" "i' = Some (length (sh @ [0]) + k)" "ws ! k \<noteq> 0" using True i'(3) by auto
      then show "\<exists>k < length (w # ws). i' = Some (length sh + k) \<and> (w # ws) ! k \<noteq> 0" by (intro exI [of _ "Suc k"]) simp
    qed
    moreover have "part_of amount tot 0 = 0" by (simp add: part_of_def)
    ultimately show ?thesis using True i'(1,2) by (intro exI [of _ i']) simp
  next
    case False
    let ?share = "part_of amount tot w"
    have step: "spread_walk J amount tot (w # ws) (sh, g, i) = spread_walk J amount tot ws (sh @ [?share], d_plus J g ?share, Some (length sh))"
      using False by (simp add: part_of_def Let_def)
    from Cons.IH [of "sh @ [?share]" "d_plus J g ?share" "Some (length sh)"] obtain i' where i':
      "spread_walk J amount tot ws (sh @ [?share], d_plus J g ?share, Some (length sh)) =
      ((sh @ [?share]) @ map (part_of amount tot) ws, foldl (d_plus J) (d_plus J g ?share) (map (part_of amount tot) (filter (\<lambda>w. w \<noteq> 0) ws)), i')"
      "(\<forall>w\<in>set ws. w = 0) \<longrightarrow> i' = Some (length sh)"
      "(\<exists>w\<in>set ws. w \<noteq> 0) \<longrightarrow> (\<exists>k < length ws. i' = Some (length (sh @ [?share]) + k) \<and> ws ! k \<noteq> 0)" by blast
    have "\<exists>k < length (w # ws). i' = Some (length sh + k) \<and> (w # ws) ! k \<noteq> 0"
    proof (cases "\<exists>w\<in>set ws. w \<noteq> 0")
      case True
      then obtain k where "k < length ws" "i' = Some (length (sh @ [?share]) + k)" "ws ! k \<noteq> 0" using i'(3) by auto
      then show ?thesis by (intro exI [of _ "Suc k"]) simp
    next
      case none: False
      with i'(2) False show ?thesis by (intro exI [of _ 0]) simp
    qed
    with False i'(1) show ?thesis unfolding step by (intro exI [of _ i']) auto
  qed
qed simp

lemma near_bound: "\<bar>y - x\<bar> \<le> ulp_bound x \<Longrightarrow> \<bar>y\<bar> \<le> \<bar>x\<bar> * (1 + 1 / 10 ^ 19)" for x y :: rat
proof -
  assume "\<bar>y - x\<bar> \<le> ulp_bound x"
  moreover have "\<bar>y\<bar> \<le> \<bar>x\<bar> + \<bar>y - x\<bar>" using abs_triangle_ineq [of x "y - x"] by simp
  moreover have "ulp_bound x \<le> \<bar>x\<bar> / 10 ^ 19" by (simp add: ulp_bound_def field_simps)
  ultimately show ?thesis by (simp add: distrib_left)
qed

lemma part_bound:
  assumes "\<bar>amount\<bar> \<le> 10 ^ 12" and "0 \<le> w" and "w \<le> tot" and "0 < tot"
  shows "\<bar>part_of amount tot w\<bar> \<le> \<bar>amount\<bar> + 1"
proof (cases "w = 0")
  case False
  let ?p = "d_times J amount w" and ?q = "d_div J (d_times J amount w) tot"
  have p: "\<bar>?p\<bar> \<le> \<bar>amount * w\<bar> * (1 + 1 / 10 ^ 19)" by (rule near_bound [OF times_error])
  have q: "\<bar>?q\<bar> \<le> \<bar>?p / tot\<bar> * (1 + 1 / 10 ^ 19)" by (rule near_bound [OF div_error]) (use assms(4) in simp)
  have "\<bar>amount * w\<bar> \<le> \<bar>amount\<bar> * tot" using assms(2,3) by (simp add: abs_mult mult_left_mono)
  then have "\<bar>?p\<bar> \<le> \<bar>amount\<bar> * tot * (1 + 1 / 10 ^ 19)" using p by (meson mult_right_mono order_trans zero_le_one add_nonneg_nonneg divide_nonneg_nonneg zero_le_power zero_le_numeral)
  then have "\<bar>?p / tot\<bar> \<le> \<bar>amount\<bar> * (1 + 1 / 10 ^ 19)" using assms(4) by (simp add: field_simps)
  then have "\<bar>?q\<bar> \<le> \<bar>amount\<bar> * (1 + 1 / 10 ^ 19) * (1 + 1 / 10 ^ 19)" using q by (meson mult_right_mono order_trans zero_le_one add_nonneg_nonneg divide_nonneg_nonneg zero_le_power zero_le_numeral)
  also have "\<dots> \<le> \<bar>amount\<bar> + 1 / 2" using assms(1) by (simp add: field_simps)
  finally have "\<bar>?q\<bar> \<le> \<bar>amount\<bar> + 1 / 2" .
  moreover have "\<bar>half_up 2 ?q - ?q\<bar> \<le> 1 / 200" using half_up_error [of 2 ?q] by simp
  ultimately show ?thesis using False by (simp add: part_of_def r2_half_up abs_if split: if_splits)
qed (simp add: part_of_def)

end

text \<open>What a spread is given: a whole amount, weights of at most six places that are not negative.\<close>

definition spreadable :: "rat \<Rightarrow> rat list \<Rightarrow> bool" where
  "spreadable amount ws \<longleftrightarrow> paise amount \<and> \<bar>amount\<bar> \<le> 10 ^ 12 \<and> (\<forall>w\<in>set ws. 0 \<le> w \<and> on_grid 6 w) \<and>
     0 < sum_list ws \<and> sum_list ws \<le> 10 ^ 13 \<and> length ws \<le> 10 ^ 5"

context decimal_package
begin

text \<open>The spread is the rounded parts, one of which also takes the residue.\<close>

lemma spread_shape:
  fixes ws :: "rat list" and amount :: rat
  defines "parts \<equiv> map (part_of amount (sum_list ws)) ws"
  assumes "spreadable amount ws" and "amount \<noteq> 0"
  obtains k where "k < length ws" and "ws ! k \<noteq> 0" and "spread J amount ws = parts[k := parts ! k + (amount - sum_list parts)]"
    and "\<forall>x\<in>set parts. paise x \<and> \<bar>x\<bar> \<le> \<bar>amount\<bar> + 1" and "\<bar>sum_list parts\<bar> \<le> of_nat (length ws) * (\<bar>amount\<bar> + 1)"
    and "paise (sum_list parts)"
proof -
  note a = assms(2) [unfolded spreadable_def]
  have abs: "map abs ws = ws" using a by (intro map_idI) simp
  have tot: "total_of J ws = sum_list ws" using a by (intro total_of_grid [of _ 6]) (simp_all add: abs)
  let ?part = "part_of amount (sum_list ws)" and ?parts = "map (part_of amount (sum_list ws)) ws"
  have "\<exists>w\<in>set ws. w \<noteq> 0"
  proof (rule ccontr)
    assume "\<not> ?thesis"
    then have "sum_list ws = 0" by (induction ws) auto
    with a show False by simp
  qed
  then obtain k where walk: "spread_walk J amount (sum_list ws) ws ([], 0, None) =
      (?parts, foldl (d_plus J) 0 (map ?part (filter (\<lambda>w. w \<noteq> 0) ws)), Some k)" and k: "k < length ws" "ws ! k \<noteq> 0"
    using spread_walk_parts [of amount "sum_list ws" ws "[]" 0 None] by auto
  have le: "w \<le> sum_list ws" if "w \<in> set ws" for w using that a by (intro member_le_sum_list) auto
  have bound: "\<bar>?part w\<bar> \<le> \<bar>amount\<bar> + 1" if "w \<in> set ws" for w
    using that a le [OF that] by (intro part_bound) auto
  have paise: "paise (?part w)" for w by (simp add: part_of_def r2_half_up)
  have "sum_list (map (\<lambda>w. \<bar>?part w\<bar>) ws) \<le> sum_list (map (\<lambda>w. \<bar>amount\<bar> + 1) ws)"
    by (rule sum_list_mono) (rule bound)
  also have "\<dots> = of_nat (length ws) * (\<bar>amount\<bar> + 1)" by (simp add: sum_list_triv)
  finally have size': "sum_list (map (\<lambda>w. \<bar>?part w\<bar>) ws) \<le> of_nat (length ws) * (\<bar>amount\<bar> + 1)" .
  also have "\<dots> \<le> 10 ^ 5 * (10 ^ 12 + 1)" using a by (intro mult_mono) simp_all
  finally have size: "sum_list (map (\<lambda>w. \<bar>?part w\<bar>) ws) \<le> 10 ^ 5 * (10 ^ 12 + 1)" .
  then have col: "exact_column ?parts" using paise by (simp add: exact_column_def comp_def)
  have sum: "sum_list (map ?part (filter (\<lambda>w. w \<noteq> 0) ws)) = sum_list ?parts"
    by (rule sum_list_map_filter) (simp add: part_of_def)
  have given: "foldl (d_plus J) 0 (map ?part (filter (\<lambda>w. w \<noteq> 0) ws)) = sum_list ?parts"
    using foldl_plus_0 [OF exact_column_filter [OF col]] sum by simp
  have le': "\<bar>sum_list ?parts\<bar> \<le> sum_list (map (\<lambda>w. \<bar>?part w\<bar>) ws)" using abs_sum_list_le [of ?parts] by (simp add: comp_def)
  with size have small: "\<bar>sum_list ?parts\<bar> \<le> 10 ^ 5 * (10 ^ 12 + 1)" by linarith
  have p: "paise (sum_list ?parts)" using exact_column_sum [OF col] by simp
  have rest: "d_minus J amount (sum_list ?parts) = amount - sum_list ?parts"
    using a p small by (intro minus_paise) (simp_all add: abs_le_iff abs_less_iff)
  have last: "d_plus J (?parts ! k) (amount - sum_list ?parts) = ?parts ! k + (amount - sum_list ?parts)"
  proof (intro plus_paise)
    have "\<bar>?part (ws ! k)\<bar> \<le> \<bar>amount\<bar> + 1" using bound k(1) by simp
    moreover have "\<bar>amount\<bar> \<le> 10 ^ 12" using a by blast
    ultimately have "\<bar>?part (ws ! k) + (amount - sum_list ?parts)\<bar> \<le> 2 * 10 ^ 12 + 1 + 10 ^ 5 * (10 ^ 12 + 1)"
      using small by linarith
    also have "\<dots> < 10 ^ 18" by simp
    finally show "\<bar>?parts ! k + (amount - sum_list ?parts)\<bar> < 10 ^ 18" using k(1) by simp
  qed (use a p k(1) paise in simp_all)
  have eq: "spread J amount ws = ?parts[k := ?parts ! k + (amount - sum_list ?parts)]"
    using assms(3) a by (simp only: spread_def Let_def tot walk prod.case option.case given rest last) simp
  show thesis
    by (rule that [OF k]) (use eq p paise bound le' size' in \<open>auto simp: parts_def\<close>)
qed

lemma spread_exact:
  assumes "spreadable amount ws"
  shows "sum_list (spread J amount ws) = amount" and "length (spread J amount ws) = length ws"
    and "\<forall>x\<in>set (spread J amount ws). paise x" and "i < length ws \<Longrightarrow> ws ! i = 0 \<Longrightarrow> spread J amount ws ! i = 0"
proof -
  have goal: "sum_list (spread J amount ws) = amount \<and> length (spread J amount ws) = length ws \<and>
    (\<forall>x\<in>set (spread J amount ws). paise x) \<and> (i < length ws \<longrightarrow> ws ! i = 0 \<longrightarrow> spread J amount ws ! i = 0)" for i
  proof (cases "amount = 0")
    case True
    then show ?thesis by (auto simp: spread_def sum_list_0)
  next
    case False
    let ?parts = "map (part_of amount (sum_list ws)) ws"
    from spread_shape [OF assms False] obtain k where k: "k < length ws" "ws ! k \<noteq> 0"
      and eq: "spread J amount ws = ?parts[k := ?parts ! k + (amount - sum_list ?parts)]"
      and parts: "\<forall>x\<in>set ?parts. paise x \<and> \<bar>x\<bar> \<le> \<bar>amount\<bar> + 1" "paise (sum_list ?parts)" by blast
    have "paise (?parts ! k)" by (rule parts(1) [rule_format, THEN conjunct1], rule nth_mem) (simp add: k(1))
    then have p: "paise (?parts ! k + (amount - sum_list ?parts))"
      by (intro on_grid_add on_grid_diff parts(2)) (use assms in \<open>simp_all add: spreadable_def\<close>)
    have "sum_list (spread J amount ws) = amount" unfolding eq using k(1) by (simp add: sum_list_update_value)
    moreover have "\<forall>x\<in>set (spread J amount ws). paise x"
      unfolding eq using parts(1) p by (auto dest!: set_update_subset_insert [THEN subsetD])
    moreover have "i < length ws \<longrightarrow> ws ! i = 0 \<longrightarrow> spread J amount ws ! i = 0"
      unfolding eq using k by (auto simp: nth_list_update part_of_def)
    ultimately show ?thesis by (simp add: eq)
  qed
  from goal show "sum_list (spread J amount ws) = amount" "length (spread J amount ws) = length ws"
    "\<forall>x\<in>set (spread J amount ws). paise x" by blast+
  from goal [of i] show "i < length ws \<Longrightarrow> ws ! i = 0 \<Longrightarrow> spread J amount ws ! i = 0" by blast
qed

lemma spread_part_small:
  assumes "spreadable amount ws" and "\<bar>amount\<bar> \<le> 10 ^ 9" and "length ws \<le> 1000" and "x \<in> set (spread J amount ws)"
  shows "\<bar>x\<bar> \<le> 10 ^ 13"
proof (cases "amount = 0")
  case True
  with assms(4) show ?thesis by (auto simp: spread_def)
next
  case False
  let ?parts = "map (part_of amount (sum_list ws)) ws"
  from spread_shape [OF assms(1) False] obtain k where k: "k < length ws"
    and eq: "spread J amount ws = ?parts[k := ?parts ! k + (amount - sum_list ?parts)]"
    and parts: "\<forall>x\<in>set ?parts. paise x \<and> \<bar>x\<bar> \<le> \<bar>amount\<bar> + 1" and sum: "\<bar>sum_list ?parts\<bar> \<le> of_nat (length ws) * (\<bar>amount\<bar> + 1)" by blast
  have "of_nat (length ws) * (\<bar>amount\<bar> + 1) \<le> 1000 * (1000000000 + 1)" using assms(2,3) by (intro mult_mono) simp_all
  also have "\<dots> = 1000000001000" by simp
  finally have sum': "\<bar>sum_list ?parts\<bar> \<le> 1000000001000" using sum by linarith
  have a: "\<bar>amount\<bar> \<le> 1000000000" using assms(2) by simp
  have "\<bar>?parts ! k\<bar> \<le> \<bar>amount\<bar> + 1" using parts k by (simp add: nth_mem)
  with a have "\<bar>?parts ! k\<bar> \<le> 1000000001" by linarith
  moreover have "\<bar>u + (a - s)\<bar> \<le> 10000000000000"
    if "\<bar>s\<bar> \<le> 1000000001000" "\<bar>a\<bar> \<le> 1000000000" "\<bar>u\<bar> \<le> 1000000001" for s a u :: rat using that by linarith
  ultimately have "\<bar>?parts ! k + (amount - sum_list ?parts)\<bar> \<le> 10000000000000" using sum' a by blast
  moreover have "x = ?parts ! k + (amount - sum_list ?parts) \<or> x \<in> set ?parts"
    using assms(4) unfolding eq by (auto dest!: set_update_subset_insert [THEN subsetD])
  ultimately show ?thesis using parts assms(2) by fastforce
qed

section \<open>Every figure is in paise\<close>

lemma foldl_plus_paise: "paise a \<Longrightarrow> \<forall>x\<in>set xs. paise x \<Longrightarrow> paise (foldl (d_plus J) a xs)"
  by (induction xs arbitrary: a) (simp_all add: plus_places)

lemma total_of_places: "\<forall>x\<in>set xs. paise x \<Longrightarrow> paise (total_of J xs)"
  by (simp add: total_of_def foldl_plus_paise)

lemma r2_paise [simp]: "paise (r2 J v)"
  by (simp add: r2_half_up)

lemma part_paise: "paise (part_of amount tot w)"
  by (simp add: part_of_def)

lemma spread_paise:
  assumes "paise amount"
  shows "\<forall>x\<in>set (spread J amount ws). paise x"
proof (cases "total_of J ws = 0 \<or> amount = 0")
  case False
  let ?part = "part_of amount (total_of J ws)"
  obtain i where walk: "spread_walk J amount (total_of J ws) ws ([], 0, None) =
      (map ?part ws, foldl (d_plus J) 0 (map ?part (filter (\<lambda>w. w \<noteq> 0) ws)), i)"
    using spread_walk_parts [of amount "total_of J ws" ws "[]" 0 None] by auto
  have part: "\<forall>x\<in>set (map ?part ws). paise x" by (simp add: part_paise)
  have given: "paise (foldl (d_plus J) 0 (map ?part (filter (\<lambda>w. w \<noteq> 0) ws)))" by (rule foldl_plus_paise) (simp_all add: part_paise)
  show ?thesis
  proof (cases i)
    case None
    with False walk part show ?thesis by (simp add: spread_def Let_def)
  next
    case (Some k)
    have "paise (map ?part ws ! k)" if "k < length ws" using part that by (simp add: part_paise)
    then have "\<forall>x\<in>set ((map ?part ws)[k := d_plus J (map ?part ws ! k) (d_minus J amount v)]). paise x" if "paise v" for v
      using part assms that
      by (cases "k < length ws")
        (auto simp: list_update_beyond not_less simp del: set_map dest!: set_update_subset_insert [THEN subsetD] intro: plus_places minus_places)
    then show ?thesis using False walk Some given by (simp add: spread_def Let_def)
  qed
qed (auto simp: spread_def)

lemma gst_paise [simp]: "paise (tp_cgst (gst J x p b))" "paise (tp_sgst (gst J x p b))" "paise (tp_igst (gst J x p b))"
  by (simp_all add: gst_def no_tax_def Let_def)

lemma reduction_paise [simp]: "paise (reduction_of J v billed pct perQty amt)"
  by (simp add: reduction_of_def)

lemma base_paise [simp]: "paise (lb_netGross (base_of J input l))"
  by (simp add: base_of_def Let_def minus_places)

lemma charge_amount_paise [simp]: "paise (charge_amount J c lines)"
  by (simp add: charge_amount_def Let_def split: charge_method.split)

lemma charge_signed_paise [simp]: "paise (charge_signed J c lines)"
  by (simp add: charge_signed_def split: charge_type.split)

lemma charge_tax_paise [simp]: "paise (tp_cgst (charge_tax J input c x))" "paise (tp_sgst (charge_tax J input c x))"
  "paise (tp_igst (charge_tax J input c x))"
  by (simp_all add: charge_tax_def no_tax_def)

end

text \<open>The shares of the lines.\<close>

definition share_paise :: "line_share \<Rightarrow> bool" where
  "share_paise s \<longleftrightarrow> paise (sh_before s) \<and> paise (sh_after s) \<and> paise (sh_offbill s) \<and> paise (sh_beforeNotLanding s) \<and> paise (sh_afterNotLanding s)"

definition map_paise :: "share_map \<Rightarrow> bool" where
  "map_paise m \<longleftrightarrow> (\<forall>s\<in>set (map snd m). share_paise s)"

lemma no_share_paise [simp]: "share_paise no_share"
  by (simp add: share_paise_def no_share_def)

lemma map_paise_Nil [simp]: "map_paise []"
  by (simp add: map_paise_def)

lemma map_paise_get: "map_paise m \<Longrightarrow> share_paise (or_else (jmap_get m k) no_share)"
  by (cases "jmap_get m k") (auto simp: map_paise_def dest!: map_of_SomeD)

lemma map_paise_set: "map_paise m \<Longrightarrow> share_paise s \<Longrightarrow> map_paise (jmap_set k s m)"
  unfolding map_paise_def by (force dest!: jmap_set_member)

context decimal_package
begin

lemma add_share_paise: "share_paise s \<Longrightarrow> paise part \<Longrightarrow> share_paise (add_share J c part s)"
  by (simp add: add_share_def share_paise_def Let_def plus_places)

lemma add_shares_paise: "map_paise m \<Longrightarrow> \<forall>p\<in>set ps. paise (snd p) \<Longrightarrow> map_paise (add_shares J c ps m)"
  by (induction ps arbitrary: m) (auto simp: map_paise_set add_share_paise map_paise_get)

lemma charge_parts_paise: "\<forall>x\<in>set (charge_parts J c lines). paise x"
  unfolding charge_parts_def Let_def by (rule spread_paise) simp

lemma start_paise: "map_paise (foldl (\<lambda>m b. jmap_set (lb_key b) no_share m) m bases)" if "map_paise m"
  using that by (induction bases arbitrary: m) (simp_all add: map_paise_set)

lemma run_charges_paise: "map_paise (snd (run_charges J input bases)) \<and> (\<forall>k\<in>set (fst (run_charges J input bases)).
    paise (ko_amount k) \<and> paise (tp_cgst (ko_tax k)) \<and> paise (tp_sgst (ko_tax k)) \<and> paise (tp_igst (ko_tax k)))"
  unfolding run_charges_def
proof (rule fold_invariant [where Q = "\<lambda>c. True"])
  fix c and st :: "calc_charge_out list \<times> share_map"
  assume "map_paise (snd st) \<and> (\<forall>k\<in>set (fst st).
    paise (ko_amount k) \<and> paise (tp_cgst (ko_tax k)) \<and> paise (tp_sgst (ko_tax k)) \<and> paise (tp_igst (ko_tax k)))"
  moreover have "map_paise m \<Longrightarrow> map_paise (add_shares J c (zip ks (charge_parts J c lines)) m)" for ks lines m
    using charge_parts_paise [of c lines] by (intro add_shares_paise) (auto dest: set_zip_rightD)
  ultimately show "map_paise (snd (charge_step J input bases c st)) \<and> (\<forall>k\<in>set (fst (charge_step J input bases c st)).
    paise (ko_amount k) \<and> paise (tp_cgst (ko_tax k)) \<and> paise (tp_sgst (ko_tax k)) \<and> paise (tp_igst (ko_tax k)))"
    by (auto simp: charge_step_def Let_def split: prod.splits)
qed (simp_all add: start_paise)

section \<open>A line\<close>

lemma line_out_fields:
  "lo_total (line_out J input m b) = d_plus J (lo_taxable (line_out J input m b))
     (d_plus J (tax_sum J (lo_tax (line_out J input m b))) (lo_cess (line_out J input m b)))"
  "(lo_itcEligible (line_out J input m b), lo_itcPending (line_out J input m b), lo_itcIneligible (line_out J input m b)) =
     itc_split J b (d_plus J (tax_sum J (lo_tax (line_out J input m b))) (lo_cess (line_out J input m b)))
       (lo_pendingShortQty (line_out J input m b)) (lo_absorbedShortQty (line_out J input m b))"
  "lo_taxable (line_out J input m b) = d_plus J (lb_netGross b) (sh_before (or_else (jmap_get m (lb_key b)) no_share))"
  "lo_netGross (line_out J input m b) = lb_netGross b"
  "lo_chrgBeforeTax (line_out J input m b) = sh_before (or_else (jmap_get m (lb_key b)) no_share)"
  by (simp_all add: line_out_def Let_def split_def)

lemma line_out_paise:
  assumes "map_paise m"
  shows "paise (lo_taxable (line_out J input m (base_of J input l)))" and "paise (tp_cgst (lo_tax (line_out J input m (base_of J input l))))"
    and "paise (tp_sgst (lo_tax (line_out J input m (base_of J input l))))" and "paise (tp_igst (lo_tax (line_out J input m (base_of J input l))))"
    and "paise (lo_cess (line_out J input m (base_of J input l)))"
  using map_paise_get [OF assms, of "lb_key (base_of J input l)"]
  by (simp_all add: line_out_def Let_def split_def share_paise_def plus_places)

text \<open>The tax of a line, and its total, when its figures are small.\<close>

lemma tax_exact:
  assumes "paise (tp_cgst t)" "paise (tp_sgst t)" "paise (tp_igst t)" "paise cess"
    and "\<bar>tp_cgst t\<bar> + \<bar>tp_sgst t\<bar> + \<bar>tp_igst t\<bar> + \<bar>cess\<bar> \<le> 10 ^ 15"
  shows "d_plus J (tax_sum J t) cess = tp_cgst t + tp_sgst t + tp_igst t + cess"
proof -
  have b: "\<bar>x\<bar> \<le> 10 ^ 15 \<Longrightarrow> \<bar>x\<bar> < 10 ^ 18" for x :: rat by simp
  have "\<bar>tp_cgst t + tp_sgst t\<bar> \<le> 10 ^ 15" "\<bar>tp_cgst t + tp_sgst t + tp_igst t\<bar> \<le> 10 ^ 15"
    "\<bar>tp_cgst t + tp_sgst t + tp_igst t + cess\<bar> \<le> 10 ^ 15" using assms(5) by linarith+
  note small = this [THEN b]
  have "d_plus J (tp_cgst t) (tp_sgst t) = tp_cgst t + tp_sgst t" using assms(1,2) small(1) by (rule plus_paise)
  moreover have "d_plus J (tp_cgst t + tp_sgst t) (tp_igst t) = tp_cgst t + tp_sgst t + tp_igst t"
    using assms(1-3) small(2) by (intro plus_paise) simp_all
  moreover have "d_plus J (tp_cgst t + tp_sgst t + tp_igst t) cess = tp_cgst t + tp_sgst t + tp_igst t + cess"
    using assms(1-4) small(3) by (intro plus_paise) simp_all
  ultimately show ?thesis by (simp add: tax_sum_def)
qed

lemma itc_partition:
  assumes "itc_split J b tax pending absorbed = (e, p, i)" and "paise tax" and "lb_billed b \<noteq> 0"
    and "\<bar>tax\<bar> \<le> 10 ^ 15" and "\<bar>p\<bar> \<le> 10 ^ 15" and "\<bar>i\<bar> \<le> 10 ^ 15"
  shows "e + p + i = tax"
proof (cases "tax = 0")
  case True
  with assms(1) show ?thesis by (simp add: itc_split_def)
next
  case False
  have b: "\<bar>x\<bar> \<le> 3 * 10 ^ 15 \<Longrightarrow> \<bar>x\<bar> < 10 ^ 18" for x :: rat by simp
  have diff: "paise u \<Longrightarrow> paise v \<Longrightarrow> \<bar>u\<bar> \<le> 2 * 10 ^ 15 \<Longrightarrow> \<bar>v\<bar> \<le> 10 ^ 15 \<Longrightarrow> d_minus J u v = u - v" for u v
  proof (intro minus_paise b)
    assume "\<bar>u\<bar> \<le> 2 * 10 ^ 15" "\<bar>v\<bar> \<le> 10 ^ 15"
    then show "\<bar>u - v\<bar> \<le> 3 * 10 ^ 15" by linarith
  qed
  have pp: "paise p" and p: "\<bar>tax - p\<bar> \<le> 2 * 10 ^ 15"
    using assms False by (auto simp: itc_split_def Let_def split: if_splits)
  have m: "d_minus J tax p = tax - p" using assms pp by (intro diff) simp_all
  show ?thesis
  proof (cases "lb_itcClass b = ITC_INELIGIBLE \<or> lb_itcClass b = ITC_BLOCKED_17_5")
    case True
    with assms False m show ?thesis by (auto simp: itc_split_def Let_def)
  next
    case neither: False
    then have "e = d_minus J (d_minus J tax p) i" "paise i" using assms False by (auto simp: itc_split_def Let_def)
    then have "e = tax - p - i" using m diff [of "tax - p" i] assms(2,6) pp p by simp
    then show ?thesis by simp
  qed
qed

end

section \<open>The bill\<close>

definition line_size :: "calc_line_out \<Rightarrow> rat" where
  "line_size l = \<bar>lo_taxable l\<bar> + \<bar>tp_cgst (lo_tax l)\<bar> + \<bar>tp_sgst (lo_tax l)\<bar> + \<bar>tp_igst (lo_tax l)\<bar> + \<bar>lo_cess l\<bar>"

definition charge_size :: "calc_charge_out \<Rightarrow> rat" where
  "charge_size k = \<bar>ko_amount k\<bar> + \<bar>tp_cgst (ko_tax k)\<bar> + \<bar>tp_sgst (ko_tax k)\<bar> + \<bar>tp_igst (ko_tax k)\<bar>"

text \<open>The size of a document: every figure that goes into the payable, without its sign.\<close>

definition bill_size :: "calc_out \<Rightarrow> rat" where
  "bill_size out = sum_list (map line_size (ot_lines out)) + sum_list (map charge_size (ot_charges out)) + \<bar>ot_tcs out\<bar>"

text \<open>The charges on the bill after tax.\<close>

definition after_tax :: "calc_in \<Rightarrow> calc_out \<Rightarrow> rat" where
  "after_tax input out = sum_list (map (\<lambda>(c, k). ko_amount k)
     (filter (\<lambda>(c, k). cc_onBill c \<and> \<not> cc_beforeTax c) (zip (ci_charges input) (ot_charges out))))"

definition charge_tax_total :: "calc_out \<Rightarrow> rat" where
  "charge_tax_total out = sum_list (map (\<lambda>k. tp_cgst (ko_tax k) + tp_sgst (ko_tax k) + tp_igst (ko_tax k)) (ot_charges out))"

lemma size_nonneg: "0 \<le> line_size l" "0 \<le> charge_size k"
  by (simp_all add: line_size_def charge_size_def)

lemma calc_fields:
  obtains m where "ot_lines (calcPurchase J input) = map (line_out J input m) (map (base_of J input) (ci_lines input))"
    and "(ot_charges (calcPurchase J input), m) = run_charges J input (map (base_of J input) (ci_lines input))"
proof -
  obtain charges m where r: "run_charges J input (map (base_of J input) (ci_lines input)) = (charges, m)" by fastforce
  show thesis by (rule that [of m]) (simp_all add: calcPurchase_def Let_def r)
qed

definition on_bill_after :: "decimal_js \<Rightarrow> calc_in \<Rightarrow> calc_out \<Rightarrow> rat" where
  "on_bill_after J input out = total_of J (map (\<lambda>(c, k). ko_amount k)
     (filter (\<lambda>(c, k). cc_onBill c \<and> \<not> cc_beforeTax c) (zip (ci_charges input) (ot_charges out))))"

definition raw_of :: "decimal_js \<Rightarrow> calc_in \<Rightarrow> calc_out \<Rightarrow> rat" where
  "raw_of J input out = bill_raw J input (ot_lines out) (on_bill_after J input out) (ot_chargeTax out)"

lemma calc_totals:
  fixes J :: decimal_js and input :: calc_in
  defines "out \<equiv> calcPurchase J input" and "step \<equiv> or_else (ci_roundOffStep input) 1"
  shows "ot_taxable out = line_total J (ot_lines out) lo_taxable" and "ot_cgst out = line_total J (ot_lines out) (tp_cgst \<circ> lo_tax)"
    and "ot_sgst out = line_total J (ot_lines out) (tp_sgst \<circ> lo_tax)" and "ot_igst out = line_total J (ot_lines out) (tp_igst \<circ> lo_tax)"
    and "ot_cess out = line_total J (ot_lines out) lo_cess" and "ot_tcs out = r2 J (dec (ci_tcsAmount input))"
    and "ot_chargeTax out = foldl (\<lambda>a k. d_plus J (d_plus J (d_plus J a (tp_cgst (ko_tax k))) (tp_sgst (ko_tax k))) (tp_igst (ko_tax k))) 0 (ot_charges out)"
    and "ot_chargesOnBill out = d_plus J (on_bill_after J input out) (line_total J (ot_lines out) lo_chrgBeforeTax)"
    and "ot_netPayable out = r2 J (round_off J step (raw_of J input out))"
    and "ot_roundOff out = r2 J (d_minus J (round_off J step (raw_of J input out)) (raw_of J input out))"
    and "ot_itcEligible out = d_plus J (line_total J (ot_lines out) lo_itcEligible) (ot_chargeTax out)"
    and "ot_itcPending out = line_total J (ot_lines out) lo_itcPending" and "ot_itcIneligible out = line_total J (ot_lines out) lo_itcIneligible"
proof -
  obtain charges m where r: "run_charges J input (map (base_of J input) (ci_lines input)) = (charges, m)" by fastforce
  note d = calcPurchase_def [of J input, unfolded Let_def r prod.case]
  show "ot_taxable out = line_total J (ot_lines out) lo_taxable" "ot_cgst out = line_total J (ot_lines out) (tp_cgst \<circ> lo_tax)"
    "ot_sgst out = line_total J (ot_lines out) (tp_sgst \<circ> lo_tax)" "ot_igst out = line_total J (ot_lines out) (tp_igst \<circ> lo_tax)"
    "ot_cess out = line_total J (ot_lines out) lo_cess" "ot_tcs out = r2 J (dec (ci_tcsAmount input))"
    "ot_chargeTax out = foldl (\<lambda>a k. d_plus J (d_plus J (d_plus J a (tp_cgst (ko_tax k))) (tp_sgst (ko_tax k))) (tp_igst (ko_tax k))) 0 (ot_charges out)"
    "ot_chargesOnBill out = d_plus J (on_bill_after J input out) (line_total J (ot_lines out) lo_chrgBeforeTax)"
    "ot_netPayable out = r2 J (round_off J step (raw_of J input out))"
    "ot_roundOff out = r2 J (d_minus J (round_off J step (raw_of J input out)) (raw_of J input out))"
    "ot_itcEligible out = d_plus J (line_total J (ot_lines out) lo_itcEligible) (ot_chargeTax out)"
    "ot_itcPending out = line_total J (ot_lines out) lo_itcPending" "ot_itcIneligible out = line_total J (ot_lines out) lo_itcIneligible"
    unfolding out_def step_def raw_of_def on_bill_after_def by (simp_all add: d)
qed

lemma zip_filter_le:
  fixes f :: "'b \<Rightarrow> rat"
  assumes "\<And>k. 0 \<le> f k"
  shows "sum_list (map (\<lambda>(c, k). f k) (filter P (zip xs ys))) \<le> sum_list (map f ys)"
proof (induction xs ys rule: list_induct2')
  case (3 y ys)
  have "0 \<le> sum_list (map f (y # ys))" by (rule sum_list_nonneg) (use assms in auto)
  then show ?case by simp
next
  case (4 x xs y ys)
  then show ?case using assms [of y] by simp
qed simp_all

context decimal_package
begin

lemma calc_paise:
  fixes input :: calc_in
  defines "out \<equiv> calcPurchase J input"
  shows "\<forall>l\<in>set (ot_lines out). paise (lo_taxable l) \<and> paise (tp_cgst (lo_tax l)) \<and> paise (tp_sgst (lo_tax l)) \<and> paise (tp_igst (lo_tax l)) \<and> paise (lo_cess l)"
    and "\<forall>k\<in>set (ot_charges out). paise (ko_amount k) \<and> paise (tp_cgst (ko_tax k)) \<and> paise (tp_sgst (ko_tax k)) \<and> paise (tp_igst (ko_tax k))"
proof -
  obtain m where m: "ot_lines out = map (line_out J input m) (map (base_of J input) (ci_lines input))"
    "(ot_charges out, m) = run_charges J input (map (base_of J input) (ci_lines input))" unfolding out_def by (rule calc_fields)
  note r = run_charges_paise [of input "map (base_of J input) (ci_lines input)", folded m(2)]
  show "\<forall>l\<in>set (ot_lines out). paise (lo_taxable l) \<and> paise (tp_cgst (lo_tax l)) \<and> paise (tp_sgst (lo_tax l)) \<and> paise (tp_igst (lo_tax l)) \<and> paise (lo_cess l)"
    using r by (auto simp: m(1) line_out_paise)
  show "\<forall>k\<in>set (ot_charges out). paise (ko_amount k) \<and> paise (tp_cgst (ko_tax k)) \<and> paise (tp_sgst (ko_tax k)) \<and> paise (tp_igst (ko_tax k))"
    using r by simp
qed

lemma column_within:
  assumes "\<forall>x\<in>set xs. paise (f x) \<and> \<bar>f x\<bar> \<le> g x" and "sum_list (map g xs) \<le> 10 ^ 15"
  shows "exact_column (map f xs)" and "total_of J (map f xs) = sum_list (map f xs)" and "paise (sum_list (map f xs))"
    and "\<bar>sum_list (map f xs)\<bar> \<le> sum_list (map g xs)"
proof -
  have le: "sum_list (map (\<lambda>x. \<bar>f x\<bar>) xs) \<le> sum_list (map g xs)" by (rule sum_list_mono) (use assms(1) in auto)
  then have "sum_list (map (\<lambda>x. \<bar>f x\<bar>) xs) < 10 ^ 18" using assms(2) by simp
  then show col: "exact_column (map f xs)" using assms(1) by (simp add: exact_column_def comp_def)
  show "total_of J (map f xs) = sum_list (map f xs)" by (rule total_of_paise [OF col])
  show "paise (sum_list (map f xs))" using exact_column_sum [OF col] by simp
  show "\<bar>sum_list (map f xs)\<bar> \<le> sum_list (map g xs)" using abs_sum_list_le [of "map f xs"] le by (simp add: comp_def)
qed

lemma charge_taxes_exact:
  assumes "\<forall>k\<in>set ks. paise (tp_cgst (ko_tax k)) \<and> paise (tp_sgst (ko_tax k)) \<and> paise (tp_igst (ko_tax k))" and "paise a"
    and "\<bar>a\<bar> + sum_list (map charge_size ks) \<le> 10 ^ 15"
  shows "foldl (\<lambda>a k. d_plus J (d_plus J (d_plus J a (tp_cgst (ko_tax k))) (tp_sgst (ko_tax k))) (tp_igst (ko_tax k))) a ks =
    a + sum_list (map (\<lambda>k. tp_cgst (ko_tax k) + tp_sgst (ko_tax k) + tp_igst (ko_tax k)) ks)"
  using assms
proof (induction ks arbitrary: a)
  case (Cons k ks)
  let ?c = "tp_cgst (ko_tax k)" and ?s = "tp_sgst (ko_tax k)" and ?i = "tp_igst (ko_tax k)"
  have b: "\<bar>x\<bar> \<le> 10 ^ 15 \<Longrightarrow> \<bar>x\<bar> < 10 ^ 18" for x :: rat by simp
  have nn: "0 \<le> sum_list (map charge_size ks)" by (rule sum_list_nonneg) (auto simp: size_nonneg)
  have size: "\<bar>a\<bar> + \<bar>?c\<bar> + \<bar>?s\<bar> + \<bar>?i\<bar> + sum_list (map charge_size ks) \<le> 10 ^ 15"
    using Cons.prems(3) charge_size_def [of k] unfolding list.map sum_list.Cons by linarith
  then have "\<bar>a + ?c\<bar> \<le> 10 ^ 15" "\<bar>a + ?c + ?s\<bar> \<le> 10 ^ 15" "\<bar>a + ?c + ?s + ?i\<bar> \<le> 10 ^ 15"
    and sum: "\<bar>a + ?c + ?s + ?i\<bar> + sum_list (map charge_size ks) \<le> 10 ^ 15" using nn by linarith+
  note small = this(1-3) [THEN b]
  have step: "d_plus J (d_plus J (d_plus J a ?c) ?s) ?i = a + ?c + ?s + ?i"
    using Cons.prems(1,2) small by (simp add: plus_paise)
  have "foldl (\<lambda>a k. d_plus J (d_plus J (d_plus J a (tp_cgst (ko_tax k))) (tp_sgst (ko_tax k))) (tp_igst (ko_tax k))) (a + ?c + ?s + ?i) ks =
    (a + ?c + ?s + ?i) + sum_list (map (\<lambda>k. tp_cgst (ko_tax k) + tp_sgst (ko_tax k) + tp_igst (ko_tax k)) ks)"
    using Cons.prems(1,2) sum by (intro Cons.IH) simp_all
  then show ?case by (simp add: step add.assoc)
qed simp

end

end
