(* ===== verification/Purchase_Bill.thy ===== *)
theory Purchase_Bill
  imports Purchase_Correct
begin

text \<open>
  The bill of a purchase: what the supplier is paid is the taxable value, the tax, the charges and the
  collected tax, rounded to the step of the document.
\<close>

section \<open>The sum before rounding\<close>

definition bill_total :: "calc_in \<Rightarrow> calc_out \<Rightarrow> rat" where
  "bill_total input out = ot_taxable out + ot_cgst out + ot_sgst out + ot_igst out + ot_cess out +
     after_tax input out + ot_chargeTax out + ot_tcs out"

lemma line_size_sum:
  "sum_list (map line_size ls) = sum_list (map (\<lambda>l. \<bar>lo_taxable l\<bar>) ls) + sum_list (map (\<lambda>l. \<bar>tp_cgst (lo_tax l)\<bar>) ls) +
     sum_list (map (\<lambda>l. \<bar>tp_sgst (lo_tax l)\<bar>) ls) + sum_list (map (\<lambda>l. \<bar>tp_igst (lo_tax l)\<bar>) ls) + sum_list (map (\<lambda>l. \<bar>lo_cess l\<bar>) ls)"
  by (induction ls) (simp_all add: line_size_def)

lemma paise_times_int: "paise x \<Longrightarrow> paise (of_int n * x)"
proof -
  assume "paise x"
  then obtain k :: int where "x * 10 ^ 2 = of_int k" unfolding on_grid_def by blast
  then have "of_int n * x * 10 ^ 2 = of_int (n * k)" by simp
  then show ?thesis by (rule on_gridI)
qed

context decimal_package
begin

text \<open>Rounding to a step: a multiple of the step, at most half a step away.\<close>

lemma round_off_step:
  assumes "0 < step" and "paise step" and "step \<le> 1000" and "paise raw" and "\<bar>raw\<bar> \<le> 10 ^ 12"
  obtains n :: int where "round_off J step raw = of_int n * step" and "\<bar>of_int n * step - raw\<bar> \<le> step / 2"
proof -
  let ?q = "d_div J raw step"
  have "on_grid 0 (half_up 0 ?q)" by simp
  then obtain n :: int where n: "half_up 0 ?q = of_int n" unfolding on_grid_def by auto
  have q: "\<bar>?q - raw / step\<bar> \<le> \<bar>raw / step\<bar> / 10 ^ 19" using div_error [of step raw] assms(1) by (simp add: ulp_bound_def field_simps)
  have half: "\<bar>of_int n - ?q\<bar> \<le> 1 / 2" using half_up_error [of 0 ?q] n by simp
  have "\<bar>of_int n - raw / step\<bar> \<le> 1 / 2 + \<bar>raw / step\<bar> / 10 ^ 19" using q half by linarith
  then have "\<bar>of_int n - raw / step\<bar> * step \<le> (1 / 2 + \<bar>raw / step\<bar> / 10 ^ 19) * step"
    using assms(1) by (intro mult_right_mono) simp_all
  moreover have "\<bar>of_int n - raw / step\<bar> * step = \<bar>of_int n * step - raw\<bar>"
  proof -
    have "\<bar>of_int n - raw / step\<bar> * step = \<bar>(of_int n - raw / step) * step\<bar>" using assms(1) by (simp add: abs_mult)
    then show ?thesis using assms(1) by (simp add: left_diff_distrib)
  qed
  moreover have "(1 / 2 + \<bar>raw / step\<bar> / 10 ^ 19) * step = step / 2 + \<bar>raw\<bar> / 10 ^ 19"
    using assms(1) by (simp add: field_simps)
  ultimately have near: "\<bar>of_int n * step - raw\<bar> \<le> step / 2 + \<bar>raw\<bar> / 10 ^ 19" by simp
  have grid: "paise (of_int n * step)" by (rule paise_times_int) (rule assms(2))
  have within: "\<bar>of_int n * step - raw\<bar> \<le> step / 2"
  proof (rule ccontr)
    let ?d = "\<bar>of_int n * step - raw\<bar>"
    assume "\<not> ?thesis"
    then have "step < ?d + ?d" by simp
    moreover have "paise (?d + ?d)" by (rule on_grid_add) (use grid assms(4) in simp_all)
    ultimately have "step + 1 / 10 ^ 2 \<le> ?d + ?d" using assms(2) by (intro grid_less_step) simp_all
    with near assms(5) show False by simp
  qed
  have "\<bar>of_int n * step\<bar> \<le> 10 ^ 12 + 500" using within assms(3,5) by linarith
  then have "\<bar>of_int n * step\<bar> < 10 ^ 18" by simp
  then have "d_times J (of_int n) step = of_int n * step" using grid by (intro times_paise)
  then have "round_off J step raw = of_int n * step" using assms(1) n by (simp add: round_off_def toDP_half_up)
  then show thesis using within by (rule that)
qed

lemma bill_parts:
  assumes "bill_size out \<le> 10 ^ 12"
  shows "sum_list (map line_size (ot_lines out)) \<le> 10 ^ 12" and "sum_list (map charge_size (ot_charges out)) \<le> 10 ^ 12"
    and "\<bar>ot_tcs out\<bar> \<le> 10 ^ 12" and "l \<in> set (ot_lines out) \<Longrightarrow> line_size l \<le> 10 ^ 12"
    and "k \<in> set (ot_charges out) \<Longrightarrow> charge_size k \<le> 10 ^ 12"
proof -
  have nn: "0 \<le> sum_list (map line_size (ot_lines out))" "0 \<le> sum_list (map charge_size (ot_charges out))"
    by (auto intro!: sum_list_nonneg simp: size_nonneg)
  then show ls: "sum_list (map line_size (ot_lines out)) \<le> 10 ^ 12" and ks: "sum_list (map charge_size (ot_charges out)) \<le> 10 ^ 12"
    and "\<bar>ot_tcs out\<bar> \<le> 10 ^ 12" using assms unfolding bill_size_def by linarith+
  show "line_size l \<le> 10 ^ 12" if "l \<in> set (ot_lines out)"
    by (rule order_trans [OF member_le_sum_list ls]) (use that in \<open>auto simp: size_nonneg\<close>)
  show "charge_size k \<le> 10 ^ 12" if "k \<in> set (ot_charges out)"
    by (rule order_trans [OF member_le_sum_list ks]) (use that in \<open>auto simp: size_nonneg\<close>)
qed

lemma line_tax_exact:
  assumes "l \<in> set (ot_lines (calcPurchase J input))" and "line_size l \<le> 10 ^ 12"
  shows "d_plus J (tax_sum J (lo_tax l)) (lo_cess l) = tp_cgst (lo_tax l) + tp_sgst (lo_tax l) + tp_igst (lo_tax l) + lo_cess l"
proof (rule tax_exact)
  have "\<bar>tp_cgst (lo_tax l)\<bar> + \<bar>tp_sgst (lo_tax l)\<bar> + \<bar>tp_igst (lo_tax l)\<bar> + \<bar>lo_cess l\<bar> \<le> 10 ^ 12"
    using assms(2) unfolding line_size_def by linarith
  then show "\<bar>tp_cgst (lo_tax l)\<bar> + \<bar>tp_sgst (lo_tax l)\<bar> + \<bar>tp_igst (lo_tax l)\<bar> + \<bar>lo_cess l\<bar> \<le> 10 ^ 15" by simp
qed (use calc_paise(1) [of input] assms(1) in blast)+

lemma line_total_exact:
  assumes "l \<in> set (ot_lines (calcPurchase J input))" and "line_size l \<le> 10 ^ 12"
  shows "lo_total l = lo_taxable l + tp_cgst (lo_tax l) + tp_sgst (lo_tax l) + tp_igst (lo_tax l) + lo_cess l"
proof -
  let ?t = "tp_cgst (lo_tax l) + tp_sgst (lo_tax l) + tp_igst (lo_tax l) + lo_cess l"
  note p = calc_paise(1) [of input, rule_format, OF assms(1)]
  obtain m where m: "ot_lines (calcPurchase J input) = map (line_out J input m) (map (base_of J input) (ci_lines input))"
    by (rule calc_fields)
  have "lo_total l = d_plus J (lo_taxable l) (d_plus J (tax_sum J (lo_tax l)) (lo_cess l))"
    using assms(1) by (auto simp: m line_out_fields(1))
  moreover have "\<bar>lo_taxable l + ?t\<bar> \<le> 10 ^ 12" using assms(2) unfolding line_size_def by linarith
  then have "\<bar>lo_taxable l + ?t\<bar> < 10 ^ 18" by simp
  then have "d_plus J (lo_taxable l) ?t = lo_taxable l + ?t" using p by (intro plus_paise) simp_all
  ultimately show ?thesis using line_tax_exact [OF assms] by simp
qed

text \<open>A column of the lines is the plain sum.\<close>

lemma line_column:
  assumes "bill_size (calcPurchase J input) \<le> 10 ^ 12"
    and "\<And>l. l \<in> set (ot_lines (calcPurchase J input)) \<Longrightarrow> paise (f l) \<and> \<bar>f l\<bar> \<le> line_size l"
  shows "line_total J (ot_lines (calcPurchase J input)) f = sum_list (map f (ot_lines (calcPurchase J input)))"
    and "paise (sum_list (map f (ot_lines (calcPurchase J input))))"
    and "\<bar>sum_list (map f (ot_lines (calcPurchase J input)))\<bar> \<le> sum_list (map line_size (ot_lines (calcPurchase J input)))"
  using column_within [of "ot_lines (calcPurchase J input)" f line_size] assms(2) bill_parts(1) [OF assms(1)]
  by (simp_all add: line_total_def)

lemma tax_columns:
  assumes "bill_size (calcPurchase J input) \<le> 10 ^ 12"
  shows "ot_taxable (calcPurchase J input) = sum_list (map lo_taxable (ot_lines (calcPurchase J input)))"
    and "ot_cgst (calcPurchase J input) = sum_list (map (tp_cgst \<circ> lo_tax) (ot_lines (calcPurchase J input)))"
    and "ot_sgst (calcPurchase J input) = sum_list (map (tp_sgst \<circ> lo_tax) (ot_lines (calcPurchase J input)))"
    and "ot_igst (calcPurchase J input) = sum_list (map (tp_igst \<circ> lo_tax) (ot_lines (calcPurchase J input)))"
    and "ot_cess (calcPurchase J input) = sum_list (map lo_cess (ot_lines (calcPurchase J input)))"
proof -
  note p = calc_paise(1) [of input, rule_format]
  have "\<bar>lo_taxable l\<bar> \<le> line_size l" "\<bar>tp_cgst (lo_tax l)\<bar> \<le> line_size l" "\<bar>tp_sgst (lo_tax l)\<bar> \<le> line_size l"
    "\<bar>tp_igst (lo_tax l)\<bar> \<le> line_size l" "\<bar>lo_cess l\<bar> \<le> line_size l" for l
    by (simp_all add: line_size_def)
  note size = this
  show "ot_taxable (calcPurchase J input) = sum_list (map lo_taxable (ot_lines (calcPurchase J input)))"
    "ot_cgst (calcPurchase J input) = sum_list (map (tp_cgst \<circ> lo_tax) (ot_lines (calcPurchase J input)))"
    "ot_sgst (calcPurchase J input) = sum_list (map (tp_sgst \<circ> lo_tax) (ot_lines (calcPurchase J input)))"
    "ot_igst (calcPurchase J input) = sum_list (map (tp_igst \<circ> lo_tax) (ot_lines (calcPurchase J input)))"
    "ot_cess (calcPurchase J input) = sum_list (map lo_cess (ot_lines (calcPurchase J input)))"
    unfolding calc_totals by (rule line_column(1) [OF assms], simp add: p size)+
qed

lemma line_columns:
  assumes "bill_size (calcPurchase J input) \<le> 10 ^ 12"
  shows "line_total J (ot_lines (calcPurchase J input)) lo_total = ot_taxable (calcPurchase J input) + ot_cgst (calcPurchase J input) +
      ot_sgst (calcPurchase J input) + ot_igst (calcPurchase J input) + ot_cess (calcPurchase J input)"
    and "paise (line_total J (ot_lines (calcPurchase J input)) lo_total)"
    and "\<bar>line_total J (ot_lines (calcPurchase J input)) lo_total\<bar> \<le> sum_list (map line_size (ot_lines (calcPurchase J input)))"
proof -
  let ?ls = "ot_lines (calcPurchase J input)"
  note p = calc_paise(1) [of input, rule_format]
  note col = line_column [OF assms]
  have t: "lo_total l = lo_taxable l + tp_cgst (lo_tax l) + tp_sgst (lo_tax l) + tp_igst (lo_tax l) + lo_cess l" if "l \<in> set ?ls" for l
    using that bill_parts(4) [OF assms] by (intro line_total_exact) simp_all
  have "map lo_total ?ls = map (\<lambda>l. lo_taxable l + tp_cgst (lo_tax l) + tp_sgst (lo_tax l) + tp_igst (lo_tax l) + lo_cess l) ?ls"
    by (rule map_cong [OF refl t])
  from arg_cong [OF this, of sum_list] have "sum_list (map lo_total ?ls) = sum_list (map lo_taxable ?ls) + sum_list (map (tp_cgst \<circ> lo_tax) ?ls) +
      sum_list (map (tp_sgst \<circ> lo_tax) ?ls) + sum_list (map (tp_igst \<circ> lo_tax) ?ls) + sum_list (map lo_cess ?ls)"
    by (simp add: sum_list_addf comp_def)
  note total = this
  have good: "paise (lo_total l) \<and> \<bar>lo_total l\<bar> \<le> line_size l" if "l \<in> set ?ls" for l
  proof
    show "paise (lo_total l)" using p [OF that] by (simp add: t [OF that])
    show "\<bar>lo_total l\<bar> \<le> line_size l" unfolding t [OF that] line_size_def by linarith
  qed
  show "line_total J ?ls lo_total = ot_taxable (calcPurchase J input) + ot_cgst (calcPurchase J input) +
      ot_sgst (calcPurchase J input) + ot_igst (calcPurchase J input) + ot_cess (calcPurchase J input)"
    using col(1) [OF good] total by (simp add: tax_columns [OF assms])
  show "paise (line_total J ?ls lo_total)" "\<bar>line_total J ?ls lo_total\<bar> \<le> sum_list (map line_size ?ls)"
    using col [OF good] by simp_all
qed

text \<open>The charges after tax, and their tax.\<close>

lemma charge_columns:
  assumes "bill_size (calcPurchase J input) \<le> 10 ^ 12"
  shows "on_bill_after J input (calcPurchase J input) = after_tax input (calcPurchase J input)"
    and "ot_chargeTax (calcPurchase J input) = charge_tax_total (calcPurchase J input)"
    and "paise (after_tax input (calcPurchase J input))" and "paise (charge_tax_total (calcPurchase J input))"
    and "\<bar>after_tax input (calcPurchase J input)\<bar> + \<bar>charge_tax_total (calcPurchase J input)\<bar> \<le>
      sum_list (map charge_size (ot_charges (calcPurchase J input)))"
proof -
  let ?ks = "ot_charges (calcPurchase J input)"
  let ?pairs = "filter (\<lambda>(c, k). cc_onBill c \<and> \<not> cc_beforeTax c) (zip (ci_charges input) ?ks)"
  let ?t = "\<lambda>k. tp_cgst (ko_tax k) + tp_sgst (ko_tax k) + tp_igst (ko_tax k)"
  note p = calc_paise(2) [of input, rule_format]
  have size: "sum_list (map charge_size ?ks) \<le> 10 ^ 12" by (rule bill_parts(2) [OF assms])
  then have size': "sum_list (map charge_size ?ks) \<le> 10 ^ 15" by simp
  have two: "sum_list (map (\<lambda>k. \<bar>ko_amount k\<bar>) ?ks) + sum_list (map (\<lambda>k. \<bar>?t k\<bar>) ?ks) \<le> sum_list (map charge_size ?ks)"
    unfolding sum_list_addf [symmetric] unfolding charge_size_def by (rule sum_list_mono) linarith
  have taxes: "0 \<le> sum_list (map (\<lambda>k. \<bar>?t k\<bar>) ?ks)" by (rule sum_list_nonneg) auto
  have amounts: "sum_list (map (\<lambda>(c, k). \<bar>ko_amount k\<bar>) ?pairs) \<le> sum_list (map (\<lambda>k. \<bar>ko_amount k\<bar>) ?ks)"
    by (rule zip_filter_le) simp
  have "\<forall>x\<in>set ?pairs. paise ((\<lambda>(c, k). ko_amount k) x) \<and> \<bar>(\<lambda>(c, k). ko_amount k) x\<bar> \<le> (\<lambda>(c, k). \<bar>ko_amount k\<bar>) x"
    using p by (auto dest: set_zip_rightD)
  note col = column_within [OF this]
  have after: "sum_list (map (\<lambda>(c, k). \<bar>ko_amount k\<bar>) ?pairs) \<le> 10 ^ 15" using amounts two taxes size' by linarith
  show "on_bill_after J input (calcPurchase J input) = after_tax input (calcPurchase J input)"
    "paise (after_tax input (calcPurchase J input))"
    using col [OF after] by (simp_all add: on_bill_after_def after_tax_def)
  show "ot_chargeTax (calcPurchase J input) = charge_tax_total (calcPurchase J input)"
    using charge_taxes_exact [of ?ks 0] p size' by (simp add: calc_totals charge_tax_total_def)
  show "paise (charge_tax_total (calcPurchase J input))" unfolding charge_tax_total_def by (rule on_grid_sum_list) (use p in auto)
  have "\<bar>charge_tax_total (calcPurchase J input)\<bar> \<le> sum_list (map (\<lambda>k. \<bar>?t k\<bar>) ?ks)"
    unfolding charge_tax_total_def using abs_sum_list_le [of "map ?t ?ks"] by (simp add: comp_def)
  moreover have "\<bar>after_tax input (calcPurchase J input)\<bar> \<le> sum_list (map (\<lambda>(c, k). \<bar>ko_amount k\<bar>) ?pairs)"
    using col(4) [OF after] by (simp add: after_tax_def)
  ultimately show "\<bar>after_tax input (calcPurchase J input)\<bar> + \<bar>charge_tax_total (calcPurchase J input)\<bar> \<le> sum_list (map charge_size ?ks)"
    using amounts two by linarith
qed

lemma plus_chain:
  assumes "paise a" "paise b" "paise c" "paise d" and "\<bar>a\<bar> + (\<bar>b\<bar> + \<bar>c\<bar>) + \<bar>d\<bar> \<le> 10 ^ 12"
  shows "d_plus J (d_plus J (d_plus J a b) c) d = a + b + c + d" and "paise (a + b + c + d)" and "\<bar>a + b + c + d\<bar> \<le> 10 ^ 12"
proof -
  have b: "\<bar>x\<bar> \<le> 10 ^ 12 \<Longrightarrow> \<bar>x\<bar> < 10 ^ 18" for x :: rat by simp
  have small: "\<bar>a + b\<bar> \<le> 10 ^ 12" "\<bar>a + b + c\<bar> \<le> 10 ^ 12" "\<bar>a + b + c + d\<bar> \<le> 10 ^ 12" using assms(5) by linarith+
  then show "paise (a + b + c + d)" "\<bar>a + b + c + d\<bar> \<le> 10 ^ 12" using assms by simp_all
  have "d_plus J a b = a + b" "d_plus J (a + b) c = a + b + c" "d_plus J (a + b + c) d = a + b + c + d"
    using assms small [THEN b] by (simp_all add: plus_paise)
  then show "d_plus J (d_plus J (d_plus J a b) c) d = a + b + c + d" by simp
qed

lemma raw_exact:
  assumes size: "bill_size (calcPurchase J input) \<le> 10 ^ 12"
  shows "raw_of J input (calcPurchase J input) = bill_total input (calcPurchase J input)"
    and "paise (bill_total input (calcPurchase J input))" and "\<bar>bill_total input (calcPurchase J input)\<bar> \<le> 10 ^ 12"
proof -
  let ?out = "calcPurchase J input"
  let ?l = "line_total J (ot_lines ?out) lo_total" and ?a = "after_tax input ?out" and ?t = "charge_tax_total ?out" and ?c = "ot_tcs ?out"
  note l = line_columns [OF size] and c = charge_columns [OF size]
  have tcs: "r2 J (dec (ci_tcsAmount input)) = ?c" by (simp add: calc_totals)
  have paise: "paise ?c" unfolding tcs [symmetric] by simp
  have "\<bar>?l\<bar> + (\<bar>?a\<bar> + \<bar>?t\<bar>) + \<bar>?c\<bar> \<le> 10 ^ 12" using l(3) c(5) size unfolding bill_size_def by linarith
  note sum = plus_chain [OF l(2) c(3) c(4) paise this]
  have total: "bill_total input ?out = ?l + ?a + ?t + ?c" using l(1) c(2) by (simp add: bill_total_def)
  show "paise (bill_total input ?out)" "\<bar>bill_total input ?out\<bar> \<le> 10 ^ 12" unfolding total by (rule sum)+
  show "raw_of J input ?out = bill_total input ?out"
    unfolding total raw_of_def bill_raw_def c(1,2) tcs by (rule sum(1))
qed

text \<open>What is paid: the total, rounded to the step.\<close>

lemma payable_exact:
  assumes "bill_size (calcPurchase J input) \<le> 10 ^ 12" and "or_else (ci_roundOffStep input) 1 = step"
    and "0 < step" and "paise step" and "step \<le> 1000"
  shows "ot_netPayable (calcPurchase J input) = bill_total input (calcPurchase J input) + ot_roundOff (calcPurchase J input)"
    and "\<exists>n :: int. ot_netPayable (calcPurchase J input) = of_int n * step"
    and "\<bar>ot_roundOff (calcPurchase J input)\<bar> \<le> step / 2"
proof -
  let ?out = "calcPurchase J input" and ?raw = "bill_total input (calcPurchase J input)"
  note raw = raw_exact [OF assms(1)]
  obtain n :: int where n: "round_off J step ?raw = of_int n * step" and near: "\<bar>of_int n * step - ?raw\<bar> \<le> step / 2"
    by (rule round_off_step [OF assms(3-5) raw(2,3)])
  have grid: "paise (of_int n * step)" by (rule paise_times_int) (rule assms(4))
  have net: "ot_netPayable ?out = of_int n * step"
    using grid by (simp add: calc_totals assms(2) raw(1) n r2_half_up)
  have "\<bar>of_int n * step - ?raw\<bar> \<le> 500" using near assms(5) by linarith
  then have "d_minus J (of_int n * step) ?raw = of_int n * step - ?raw" using grid raw(2) by (intro minus_paise) simp_all
  then have off: "ot_roundOff ?out = of_int n * step - ?raw"
    using grid raw(2) by (simp add: calc_totals assms(2) raw(1) n r2_half_up)
  show "ot_netPayable ?out = ?raw + ot_roundOff ?out" "\<exists>n :: int. ot_netPayable ?out = of_int n * step"
    "\<bar>ot_roundOff ?out\<bar> \<le> step / 2" using near by (auto simp: net off)
qed

end

end
