(* ===== verification/Purchase_Credit.thy ===== *)
theory Purchase_Credit
  imports Purchase_Bill
begin

text \<open>
  The input credit of a purchase, and the supplier without tax: the tax of a line is eligible, pending or
  ineligible, and nothing of it is lost; a composition or unregistered supplier's bill has no tax at all.
\<close>

section \<open>The credit of a line\<close>

definition credit_size :: "calc_line_out \<Rightarrow> rat" where
  "credit_size l = \<bar>lo_itcEligible l\<bar> + \<bar>lo_itcPending l\<bar> + \<bar>lo_itcIneligible l\<bar>"

text \<open>The tax of a line, and what of it the credits take up: none of it on a line that is billed for nothing.\<close>

definition line_tax :: "calc_line_out \<Rightarrow> rat" where
  "line_tax l = tp_cgst (lo_tax l) + tp_sgst (lo_tax l) + tp_igst (lo_tax l) + lo_cess l"

definition credited_tax :: "calc_line_in \<Rightarrow> calc_line_out \<Rightarrow> rat" where
  "credited_tax x l = (if cl_billedQty x = 0 then 0 else line_tax l)"

text \<open>Against the tax of the bill: what lines billed for nothing are taxed is in no credit.\<close>

definition uncredited :: "calc_in \<Rightarrow> calc_out \<Rightarrow> rat" where
  "uncredited input out = sum_list (map (\<lambda>(x, l). line_tax l) (filter (\<lambda>(x, l). cl_billedQty x = 0) (zip (ci_lines input) (ot_lines out))))"

context decimal_package
begin

lemma itc_split_paise:
  assumes "itc_split J b tax pending absorbed = (e, p, i)" and "paise tax"
  shows "paise e" and "paise p" and "paise i"
  using assms by (auto simp: itc_split_def Let_def minus_places split: if_splits)

lemma credit_paise:
  assumes "l \<in> set (ot_lines (calcPurchase J input))"
  shows "paise (lo_itcEligible l)" and "paise (lo_itcPending l)" and "paise (lo_itcIneligible l)"
proof -
  obtain m where m: "ot_lines (calcPurchase J input) = map (line_out J input m) (map (base_of J input) (ci_lines input))"
    by (rule calc_fields)
  then obtain b where b: "l = line_out J input m b" using assms by auto
  have "paise (d_plus J (tax_sum J (lo_tax l)) (lo_cess l))"
    using calc_paise(1) [of input, rule_format, OF assms] by (simp add: tax_sum_def plus_places)
  from itc_split_paise [OF line_out_fields(2) [of input m b, symmetric, folded b] this]
  show "paise (lo_itcEligible l)" "paise (lo_itcPending l)" "paise (lo_itcIneligible l)" .
qed

lemma credit_line:
  assumes "l = line_out J input m (base_of J input x)" and "l \<in> set (ot_lines (calcPurchase J input))"
    and "line_size l \<le> 10 ^ 12" and "credit_size l \<le> 10 ^ 12"
  shows "lo_itcEligible l + lo_itcPending l + lo_itcIneligible l = credited_tax x l"
proof -
  have tax: "d_plus J (tax_sum J (lo_tax l)) (lo_cess l) = line_tax l" unfolding line_tax_def by (rule line_tax_exact [OF assms(2,3)])
  note split = line_out_fields(2) [of input m "base_of J input x", symmetric, folded assms(1), unfolded tax]
  have billed: "lb_billed (base_of J input x) = cl_billedQty x" by (simp add: base_of_def Let_def)
  show ?thesis
  proof (cases "cl_billedQty x = 0")
    case True
    then show ?thesis using split billed by (simp add: itc_split_def credited_tax_def)
  next
    case False
    have "\<bar>line_tax l\<bar> \<le> 10 ^ 12" "\<bar>lo_itcPending l\<bar> \<le> 10 ^ 12" "\<bar>lo_itcIneligible l\<bar> \<le> 10 ^ 12"
      using assms(3,4) unfolding line_size_def credit_size_def line_tax_def by linarith+
    then have small: "\<bar>line_tax l\<bar> \<le> 10 ^ 15" "\<bar>lo_itcPending l\<bar> \<le> 10 ^ 15" "\<bar>lo_itcIneligible l\<bar> \<le> 10 ^ 15" by simp_all
    moreover have "paise (line_tax l)" using calc_paise(1) [of input, rule_format, OF assms(2)] by (simp add: line_tax_def)
    ultimately show ?thesis using itc_partition [OF split] False billed by (simp add: credited_tax_def)
  qed
qed

lemma credit_lines:
  assumes "bill_size (calcPurchase J input) \<le> 10 ^ 12" and "sum_list (map credit_size (ot_lines (calcPurchase J input))) \<le> 10 ^ 12"
  shows "list_all2 (\<lambda>x l. lo_itcEligible l + lo_itcPending l + lo_itcIneligible l = credited_tax x l) (ci_lines input) (ot_lines (calcPurchase J input))"
proof -
  obtain m where m: "ot_lines (calcPurchase J input) = map (line_out J input m) (map (base_of J input) (ci_lines input))"
    by (rule calc_fields)
  show ?thesis
  proof (rule list_all2_all_nthI)
    show "length (ci_lines input) = length (ot_lines (calcPurchase J input))" by (simp add: m)
    fix i assume i: "i < length (ci_lines input)"
    let ?l = "ot_lines (calcPurchase J input) ! i"
    have l: "?l \<in> set (ot_lines (calcPurchase J input))" using i by (simp add: m)
    have "credit_size ?l \<le> sum_list (map credit_size (ot_lines (calcPurchase J input)))"
      using l by (intro member_le_sum_list) (auto simp: credit_size_def)
    then have "credit_size ?l \<le> 10 ^ 12" using assms(2) by linarith
    then show "lo_itcEligible ?l + lo_itcPending ?l + lo_itcIneligible ?l = credited_tax (ci_lines input ! i) ?l"
      by (rule credit_line [of _ input m, OF _ l bill_parts(4) [OF assms(1) l], rotated]) (use i in \<open>simp add: m\<close>)
  qed
qed

lemma credit_bill:
  assumes "bill_size (calcPurchase J input) \<le> 10 ^ 12" and "sum_list (map credit_size (ot_lines (calcPurchase J input))) \<le> 10 ^ 12"
  shows "ot_itcEligible (calcPurchase J input) + ot_itcPending (calcPurchase J input) + ot_itcIneligible (calcPurchase J input) =
    sum_list (map (\<lambda>(x, l). credited_tax x l) (zip (ci_lines input) (ot_lines (calcPurchase J input)))) + ot_chargeTax (calcPurchase J input)"
proof -
  let ?out = "calcPurchase J input" and ?ls = "ot_lines (calcPurchase J input)"
  have size: "\<bar>lo_itcEligible l\<bar> \<le> credit_size l" "\<bar>lo_itcPending l\<bar> \<le> credit_size l" "\<bar>lo_itcIneligible l\<bar> \<le> credit_size l" for l
    by (simp_all add: credit_size_def)
  have big: "sum_list (map credit_size ?ls) \<le> 10 ^ 15" using assms(2) by simp
  have col: "line_total J ?ls f = sum_list (map f ?ls) \<and> paise (sum_list (map f ?ls)) \<and> \<bar>sum_list (map f ?ls)\<bar> \<le> sum_list (map credit_size ?ls)"
    if "\<And>l. l \<in> set ?ls \<Longrightarrow> paise (f l) \<and> \<bar>f l\<bar> \<le> credit_size l" for f
    using column_within [of ?ls f credit_size, OF _ big] that by (simp add: line_total_def)
  note e = col [of lo_itcEligible] and p = col [of lo_itcPending] and i = col [of lo_itcIneligible]
  have e: "line_total J ?ls lo_itcEligible = sum_list (map lo_itcEligible ?ls)" "paise (sum_list (map lo_itcEligible ?ls))"
    "\<bar>sum_list (map lo_itcEligible ?ls)\<bar> \<le> 10 ^ 12"
    using e assms(2) by (force simp: credit_paise size)+
  have p: "line_total J ?ls lo_itcPending = sum_list (map lo_itcPending ?ls)" using p by (simp add: credit_paise size)
  have i: "line_total J ?ls lo_itcIneligible = sum_list (map lo_itcIneligible ?ls)" using i by (simp add: credit_paise size)
  note c = charge_columns [OF assms(1)]
  have "\<bar>charge_tax_total ?out\<bar> \<le> 10 ^ 12" using c(5) bill_parts(2) [OF assms(1)] by linarith
  then have "\<bar>sum_list (map lo_itcEligible ?ls) + charge_tax_total ?out\<bar> \<le> 2 * 10 ^ 12" using e(3) by linarith
  then have plus: "d_plus J (sum_list (map lo_itcEligible ?ls)) (charge_tax_total ?out) = sum_list (map lo_itcEligible ?ls) + charge_tax_total ?out"
    using e(2) c(4) by (intro plus_paise) simp_all
  have "sum_list (map lo_itcEligible ?ls) + sum_list (map lo_itcPending ?ls) + sum_list (map lo_itcIneligible ?ls) =
    sum_list (map (\<lambda>l. lo_itcEligible l + lo_itcPending l + lo_itcIneligible l) ?ls)" by (simp add: sum_list_addf)
  also have "\<dots> = sum_list (map (\<lambda>(x, l). credited_tax x l) (zip (ci_lines input) ?ls))"
    using credit_lines [OF assms] by (induction rule: list_all2_induct) simp_all
  finally show ?thesis by (simp add: calc_totals(11-13) c(2) e(1) p i plus)
qed

lemma credited_rest:
  "length xs = length ls \<Longrightarrow> sum_list (map (\<lambda>(x, l). credited_tax x l) (zip xs ls)) =
    sum_list (map line_tax ls) - sum_list (map (\<lambda>(x, l). line_tax l) (filter (\<lambda>(x, l). cl_billedQty x = 0) (zip xs ls)))"
  by (induction xs ls rule: list_induct2) (simp_all add: credited_tax_def)

lemma credit_bill_tax:
  assumes "bill_size (calcPurchase J input) \<le> 10 ^ 12" and "sum_list (map credit_size (ot_lines (calcPurchase J input))) \<le> 10 ^ 12"
  shows "ot_itcEligible (calcPurchase J input) + ot_itcPending (calcPurchase J input) + ot_itcIneligible (calcPurchase J input) =
    ot_cgst (calcPurchase J input) + ot_sgst (calcPurchase J input) + ot_igst (calcPurchase J input) + ot_cess (calcPurchase J input) +
    ot_chargeTax (calcPurchase J input) - uncredited input (calcPurchase J input)"
proof -
  let ?out = "calcPurchase J input"
  have "sum_list (map line_tax (ot_lines ?out)) = ot_cgst ?out + ot_sgst ?out + ot_igst ?out + ot_cess ?out"
    using tax_columns [OF assms(1)] by (simp add: line_tax_def [abs_def] sum_list_addf comp_def)
  then show ?thesis
    unfolding credit_bill [OF assms] uncredited_def using credited_rest [OF list_all2_lengthD [OF credit_lines [OF assms]]] by simp
qed

section \<open>A supplier without tax\<close>

lemma no_tax_line:
  assumes "noTaxSupplier input"
  shows "lo_tax (line_out J input m (base_of J input l)) = no_tax" and "lo_cess (line_out J input m (base_of J input l)) = 0"
    and "lo_itcEligible (line_out J input m (base_of J input l)) = 0" and "lo_itcPending (line_out J input m (base_of J input l)) = 0"
    and "lo_itcIneligible (line_out J input m (base_of J input l)) = 0"
proof -
  have t: "\<not> line_taxed (base_of J input l)"
    using assms by (auto simp: line_taxed_def base_of_def Let_def line_class_def noTaxSupplier_def)
  have z: "d_plus J 0 0 = 0" using plus_paise [of 0 0] by simp
  show "lo_tax (line_out J input m (base_of J input l)) = no_tax" "lo_cess (line_out J input m (base_of J input l)) = 0"
    "lo_itcEligible (line_out J input m (base_of J input l)) = 0" "lo_itcPending (line_out J input m (base_of J input l)) = 0"
    "lo_itcIneligible (line_out J input m (base_of J input l)) = 0"
    by (simp_all add: line_out_def Let_def split_def t gst_def no_tax_def tax_sum_def z itc_split_def)
qed

lemma charge_tax_none: "noTaxSupplier input \<Longrightarrow> charge_tax J input c x = no_tax"
  by (simp add: charge_tax_def)

lemma fold_charges_taxed:
  assumes "\<forall>k\<in>set charges. P (ko_tax k)" and "\<And>c x. P (charge_tax J input c x)"
  shows "\<forall>k\<in>set (fst (fold (charge_step J input bases) cs (charges, m))). P (ko_tax k)"
  using assms
proof (induction cs arbitrary: charges m)
  case (Cons c cs)
  show ?case unfolding fold_simps comp_def by (simp add: charge_step_def Let_def, rule Cons.IH) (use Cons.prems in auto)
qed simp

lemma no_tax_bill:
  assumes "noTaxSupplier input"
  shows "list_all (\<lambda>l. lo_tax l = no_tax \<and> lo_cess l = 0) (ot_lines (calcPurchase J input))"
    and "list_all (\<lambda>k. ko_tax k = no_tax) (ot_charges (calcPurchase J input))"
    and "ot_cgst (calcPurchase J input) = 0" "ot_sgst (calcPurchase J input) = 0" "ot_igst (calcPurchase J input) = 0"
      "ot_cess (calcPurchase J input) = 0" "ot_chargeTax (calcPurchase J input) = 0" "ot_itcEligible (calcPurchase J input) = 0"
      "ot_itcPending (calcPurchase J input) = 0" "ot_itcIneligible (calcPurchase J input) = 0"
proof -
  obtain m where m: "ot_lines (calcPurchase J input) = map (line_out J input m) (map (base_of J input) (ci_lines input))"
    "(ot_charges (calcPurchase J input), m) = run_charges J input (map (base_of J input) (ci_lines input))" by (rule calc_fields)
  have z: "d_plus J 0 0 = 0" using plus_paise [of 0 0] by simp
  have zeros: "foldl (d_plus J) 0 (map (\<lambda>x. 0) xs) = 0" for xs :: "'x list" by (induction xs) (simp_all add: z)
  show "list_all (\<lambda>l. lo_tax l = no_tax \<and> lo_cess l = 0) (ot_lines (calcPurchase J input))"
    by (simp add: m(1) list_all_iff no_tax_line [OF assms])
  have "\<forall>k\<in>set (fst (run_charges J input (map (base_of J input) (ci_lines input)))). ko_tax k = no_tax"
    unfolding run_charges_def by (rule fold_charges_taxed) (simp_all add: charge_tax_none [OF assms])
  then have taxes: "\<forall>k\<in>set (ot_charges (calcPurchase J input)). ko_tax k = no_tax" by (simp add: m(2) [symmetric])
  then show "list_all (\<lambda>k. ko_tax k = no_tax) (ot_charges (calcPurchase J input))" by (simp add: list_all_iff)
  have "foldl (\<lambda>a k. d_plus J (d_plus J (d_plus J a (tp_cgst (ko_tax k))) (tp_sgst (ko_tax k))) (tp_igst (ko_tax k))) 0 ks = 0"
    if "\<forall>k\<in>set ks. ko_tax k = no_tax" for ks using that by (induction ks) (simp_all add: z no_tax_def)
  with taxes show charge: "ot_chargeTax (calcPurchase J input) = 0" by (simp add: calc_totals)
  have column: "line_total J (ot_lines (calcPurchase J input)) f = 0" if "\<And>l. f (line_out J input m (base_of J input l)) = 0" for f
    using that by (simp add: line_total_def total_of_def m(1) comp_def zeros)
  show "ot_cgst (calcPurchase J input) = 0" "ot_sgst (calcPurchase J input) = 0" "ot_igst (calcPurchase J input) = 0"
    "ot_cess (calcPurchase J input) = 0" "ot_itcPending (calcPurchase J input) = 0" "ot_itcIneligible (calcPurchase J input) = 0"
    unfolding calc_totals by (rule column, simp add: no_tax_line [OF assms] no_tax_def)+
  have "line_total J (ot_lines (calcPurchase J input)) lo_itcEligible = 0" by (rule column) (simp add: no_tax_line [OF assms])
  then show "ot_itcEligible (calcPurchase J input) = 0" by (simp add: calc_totals(11) charge z)
qed

end

end
