(* ===== verification/Purchase_Gst.thy ===== *)
theory Purchase_Gst
  imports Purchase_Credit
begin

text \<open>
  The tax of a purchase by rate: the rows of the break-up add up to the pieces they are made of, column by
  column, and the pieces of a calculation are the tax of its lines and of its charges.
\<close>

section \<open>A column of the break-up\<close>

definition new_row :: "rat \<Rightarrow> gst_breakup_row" where
  "new_row pct = \<lparr> br_gstPct = pct, br_taxable = 0, br_cgst = 0, br_sgst = 0, br_igst = 0, br_cess = 0, br_total = 0 \<rparr>"

definition merged :: "decimal_js \<Rightarrow> gst_piece \<Rightarrow> gst_breakup_row \<Rightarrow> gst_breakup_row" where
  "merged J p row = row\<lparr> br_taxable := d_plus J (br_taxable row) (gp_taxable p),
     br_cgst := d_plus J (br_cgst row) (tp_cgst (gp_tax p)), br_sgst := d_plus J (br_sgst row) (tp_sgst (gp_tax p)),
     br_igst := d_plus J (br_igst row) (tp_igst (gp_tax p)), br_cess := d_plus J (br_cess row) (dec (gp_cess p)) \<rparr>"

lemma add_piece_merged:
  "add_piece J p m = (let key = d_toFixed J (gp_gstPct p) 6
     in jmap_set key (merged J p (or_else (jmap_get m key) (new_row (gp_gstPct p)))) m)"
  by (simp add: add_piece_def merged_def new_row_def Let_def)

definition breakup_column :: "(gst_breakup_row \<Rightarrow> rat) \<Rightarrow> (gst_piece \<Rightarrow> rat) \<Rightarrow> bool" where
  "breakup_column f g \<longleftrightarrow> (\<forall>J p r. f (merged J p r) = d_plus J (f r) (g p)) \<and> (\<forall>pct. f (new_row pct) = 0) \<and>
     (\<forall>J r. f (row_total J r) = f r) \<and> (\<forall>r. row_empty r \<longrightarrow> f r = 0)"

lemma breakup_columns:
  "breakup_column br_taxable gp_taxable" "breakup_column br_cgst (tp_cgst \<circ> gp_tax)" "breakup_column br_sgst (tp_sgst \<circ> gp_tax)"
  "breakup_column br_igst (tp_igst \<circ> gp_tax)" "breakup_column br_cess (dec \<circ> gp_cess)"
  by (simp_all add: breakup_column_def merged_def new_row_def row_total_def row_empty_def)

text \<open>Sums over a map of rows, before the empty rows are dropped and the rest is sorted.\<close>

lemma sum_sorted_rows:
  fixes f :: "gst_breakup_row \<Rightarrow> rat"
  assumes "\<And>r. row_empty r \<Longrightarrow> f r = 0"
  shows "sum_list (map f (sort_key br_gstPct (filter (\<lambda>r. \<not> row_empty r) rows))) = sum_list (map f rows)"
proof -
  have "sum_mset (image_mset f (mset (sort_key br_gstPct (filter (\<lambda>r. \<not> row_empty r) rows)))) =
      sum_mset (image_mset f (mset (filter (\<lambda>r. \<not> row_empty r) rows)))" by (simp only: mset_sort)
  then have "sum_list (map f (sort_key br_gstPct (filter (\<lambda>r. \<not> row_empty r) rows))) = sum_list (map f (filter (\<lambda>r. \<not> row_empty r) rows))"
    by (simp only: mset_map [symmetric] sum_mset_sum_list)
  also have "\<dots> = sum_list (map f rows)" by (rule sum_list_map_filter) (use assms in blast)
  finally show ?thesis .
qed

text \<open>A charge with a tax of its own.\<close>

abbreviation taxed_charge :: "calc_in \<Rightarrow> calc_charge_in \<Rightarrow> bool" where
  "taxed_charge input c \<equiv> cc_onBill c \<and> \<not> cc_beforeTax c \<and> \<not> noTaxSupplier input \<and> dec (cc_taxPct c) \<noteq> 0"

context decimal_package
begin

definition rows_ok :: "(gst_breakup_row \<Rightarrow> rat) \<Rightarrow> (string \<times> gst_breakup_row) list \<Rightarrow> rat \<Rightarrow> rat \<Rightarrow> bool" where
  "rows_ok f m tot sz \<longleftrightarrow> distinct (map fst m) \<and> sum_list (map (f \<circ> snd) m) = tot \<and> 0 \<le> sz \<and>
     (\<forall>r\<in>set (map snd m). paise (f r) \<and> \<bar>f r\<bar> \<le> sz)"

lemma rows_ok_step:
  assumes "breakup_column f g" and "rows_ok f m tot sz" and "paise (g p)" and "sz + \<bar>g p\<bar> \<le> 10 ^ 15"
  shows "rows_ok f (add_piece J p m) (tot + g p) (sz + \<bar>g p\<bar>)"
proof -
  let ?key = "d_toFixed J (gp_gstPct p) 6"
  let ?row = "or_else (jmap_get m ?key) (new_row (gp_gstPct p))"
  note ok = assms(2) [unfolded rows_ok_def]
  have row: "paise (f ?row) \<and> \<bar>f ?row\<bar> \<le> sz"
  proof (cases "jmap_get m ?key")
    case None
    then show ?thesis using assms(1) ok by (simp add: breakup_column_def)
  next
    case (Some r)
    then have "r \<in> set (map snd m)" by (force dest: map_of_SomeD)
    then have "paise (f r) \<and> \<bar>f r\<bar> \<le> sz" using ok by blast
    then show ?thesis by (simp add: Some)
  qed
  have bound: "\<bar>f ?row + g p\<bar> \<le> sz + \<bar>g p\<bar>" using row abs_triangle_ineq [of "f ?row" "g p"] by linarith
  then have "\<bar>f ?row + g p\<bar> \<le> 10 ^ 15" using assms(4) by linarith
  then have "\<bar>f ?row + g p\<bar> < 10 ^ 18" by simp
  then have new: "f (merged J p ?row) = f ?row + g p" using assms(1,3) row by (simp add: breakup_column_def plus_paise)
  have old: "(case jmap_get m ?key of None \<Rightarrow> 0 | Some w \<Rightarrow> f w) = f ?row"
    using assms(1) by (simp add: breakup_column_def split: option.split)
  have "sum_list (map (f \<circ> snd) (add_piece J p m)) = tot + g p"
    unfolding add_piece_merged Let_def using ok by (subst sum_list_jmap_set) (simp_all add: new old)
  moreover have "\<forall>r\<in>set (map snd (add_piece J p m)). paise (f r) \<and> \<bar>f r\<bar> \<le> sz + \<bar>g p\<bar>"
  proof
    fix r assume "r \<in> set (map snd (add_piece J p m))"
    then have "r = merged J p ?row \<or> r \<in> set (map snd m)"
      by (auto simp: add_piece_merged Let_def dest!: jmap_set_member)
    then show "paise (f r) \<and> \<bar>f r\<bar> \<le> sz + \<bar>g p\<bar>"
    proof
      assume "r = merged J p ?row"
      then show ?thesis using new row bound assms(3) by simp
    next
      assume "r \<in> set (map snd m)"
      then have "paise (f r) \<and> \<bar>f r\<bar> \<le> sz" using ok by blast
      then show ?thesis by (simp add: add_increasing2)
    qed
  qed
  moreover have "distinct (map fst (add_piece J p m))" using ok by (simp add: add_piece_merged Let_def)
  ultimately show ?thesis using ok by (simp add: rows_ok_def)
qed

lemma rows_ok_fold:
  assumes "breakup_column f g" and "rows_ok f m tot sz" and "\<forall>p\<in>set ps. paise (g p)"
    and "sz + sum_list (map (\<lambda>p. \<bar>g p\<bar>) ps) \<le> 10 ^ 15"
  shows "rows_ok f (fold (add_piece J) ps m) (tot + sum_list (map g ps)) (sz + sum_list (map (\<lambda>p. \<bar>g p\<bar>) ps))"
  using assms(2-)
proof (induction ps arbitrary: m tot sz)
  case (Cons p ps)
  have "0 \<le> sum_list (map (\<lambda>p. \<bar>g p\<bar>) ps)" by (rule sum_list_nonneg) auto
  then have "sz + \<bar>g p\<bar> \<le> 10 ^ 15" using Cons.prems(3) by simp
  then have "rows_ok f (add_piece J p m) (tot + g p) (sz + \<bar>g p\<bar>)" using Cons.prems by (intro rows_ok_step [OF assms(1)]) simp_all
  from Cons.IH [OF this] show ?case using Cons.prems by (simp add: add.assoc)
qed simp

lemma breakup_exact:
  assumes "breakup_column f g" and "\<forall>p\<in>set pieces. paise (g p)" and "sum_list (map (\<lambda>p. \<bar>g p\<bar>) pieces) \<le> 10 ^ 15"
  shows "sum_list (map f (gstBreakup J pieces)) = sum_list (map g pieces)"
    and "r \<in> set (gstBreakup J pieces) \<Longrightarrow> paise (f r) \<and> \<bar>f r\<bar> \<le> sum_list (map (\<lambda>p. \<bar>g p\<bar>) pieces)"
proof -
  have start: "rows_ok f [] 0 0" by (simp add: rows_ok_def)
  let ?m = "fold (add_piece J) pieces []"
  have ok: "rows_ok f ?m (sum_list (map g pieces)) (sum_list (map (\<lambda>p. \<bar>g p\<bar>) pieces))"
    using rows_ok_fold [OF assms(1) start assms(2)] assms(3) by simp
  have same: "f ((case x of (k, r) \<Rightarrow> row_total J r)) = f (snd x)" for x using assms(1) by (simp add: breakup_column_def split: prod.split)
  have "sum_list (map f (gstBreakup J pieces)) = sum_list (map f (map (\<lambda>(k, r). row_total J r) ?m))"
    unfolding gstBreakup_def by (rule sum_sorted_rows) (use assms(1) in \<open>simp add: breakup_column_def\<close>)
  also have "\<dots> = sum_list (map (f \<circ> snd) ?m)" by (simp add: comp_def same)
  finally show "sum_list (map f (gstBreakup J pieces)) = sum_list (map g pieces)" using ok by (simp add: rows_ok_def)
  assume "r \<in> set (gstBreakup J pieces)"
  then obtain k x where "(k, x) \<in> set ?m" "r = row_total J x" by (auto simp: gstBreakup_def)
  then show "paise (f r) \<and> \<bar>f r\<bar> \<le> sum_list (map (\<lambda>p. \<bar>g p\<bar>) pieces)"
    using ok assms(1) by (force simp: rows_ok_def breakup_column_def)
qed

section \<open>The break-up of a calculation\<close>

lemma charges_paired:
  assumes "fold (charge_step J input bases) cs (charges, m) = (charges', m')" and "length charges = length done_cs"
    and "list_all2 (\<lambda>c k. ko_tax k = charge_tax J input c (ko_amount k)) done_cs charges"
  shows "list_all2 (\<lambda>c k. ko_tax k = charge_tax J input c (ko_amount k)) (done_cs @ cs) charges'"
  using assms
proof (induction cs arbitrary: charges m done_cs)
  case (Cons c cs)
  let ?st = "charge_step J input bases c (charges, m)"
  obtain ko m1 where st: "?st = (charges @ [ko], m1)" and ko: "ko_tax ko = charge_tax J input c (ko_amount ko)"
    by (simp add: charge_step_def Let_def)
  have "list_all2 (\<lambda>c k. ko_tax k = charge_tax J input c (ko_amount k)) ((done_cs @ [c]) @ cs) charges'"
    by (rule Cons.IH [of "charges @ [ko]" m1]) (use Cons.prems st ko in \<open>auto intro: list_all2_appendI\<close>)
  then show ?case by simp
qed simp

lemma calc_charges_paired:
  "list_all2 (\<lambda>c k. ko_tax k = charge_tax J input c (ko_amount k)) (ci_charges input) (ot_charges (calcPurchase J input))"
proof -
  obtain m where "(ot_charges (calcPurchase J input), m) = run_charges J input (map (base_of J input) (ci_lines input))"
    by (rule calc_fields)
  from charges_paired [OF this [unfolded run_charges_def, symmetric], of "[]"] show ?thesis by simp
qed

lemma taxed_charges_sum:
  fixes f :: "tax_parts \<Rightarrow> rat"
  assumes "f no_tax = 0"
    and "list_all2 (\<lambda>c k. ko_tax k = charge_tax J input c (ko_amount k)) cs ks"
  shows "sum_list (map (\<lambda>(c, k). f (ko_tax k)) (filter (\<lambda>(c, k). taxed_charge input c) (zip cs ks))) = sum_list (map (f \<circ> ko_tax) ks)"
  using assms(2) by (induction cs ks rule: list_all2_induct) (auto simp: charge_tax_def assms(1))

lemma pieces_sum:
  fixes g :: "tax_parts \<Rightarrow> rat"
  assumes "g no_tax = 0"
  shows "sum_list (map (g \<circ> gp_tax) (calcGstPieces input (calcPurchase J input))) =
    sum_list (map (g \<circ> lo_tax) (ot_lines (calcPurchase J input))) + sum_list (map (g \<circ> ko_tax) (ot_charges (calcPurchase J input)))"
  using taxed_charges_sum [of g, OF assms calc_charges_paired [of input]]
  by (simp add: calcGstPieces_def comp_def split_def)

lemma pieces_cess:
  "sum_list (map (dec \<circ> gp_cess) (calcGstPieces input (calcPurchase J input))) = sum_list (map lo_cess (ot_lines (calcPurchase J input)))"
  by (simp add: calcGstPieces_def comp_def split_def dec_def sum_list_0)

lemma pieces_paise:
  assumes "p \<in> set (calcGstPieces input (calcPurchase J input))"
  shows "paise (gp_taxable p)" "paise (tp_cgst (gp_tax p))" "paise (tp_sgst (gp_tax p))" "paise (tp_igst (gp_tax p))" "paise (dec (gp_cess p))"
  using assms calc_paise [of input] by (auto simp: calcGstPieces_def dec_def dest!: set_zip_rightD)

lemma pieces_size:
  assumes "bill_size (calcPurchase J input) \<le> 10 ^ 12"
  shows "sum_list (map (\<lambda>p. \<bar>gp_taxable p\<bar>) (calcGstPieces input (calcPurchase J input))) \<le> 10 ^ 12"
    and "sum_list (map (\<lambda>p. \<bar>tp_cgst (gp_tax p)\<bar>) (calcGstPieces input (calcPurchase J input))) \<le> 10 ^ 12"
    and "sum_list (map (\<lambda>p. \<bar>tp_sgst (gp_tax p)\<bar>) (calcGstPieces input (calcPurchase J input))) \<le> 10 ^ 12"
    and "sum_list (map (\<lambda>p. \<bar>tp_igst (gp_tax p)\<bar>) (calcGstPieces input (calcPurchase J input))) \<le> 10 ^ 12"
    and "sum_list (map (\<lambda>p. \<bar>dec (gp_cess p)\<bar>) (calcGstPieces input (calcPurchase J input))) \<le> 10 ^ 12"
proof -
  let ?out = "calcPurchase J input" and ?pairs = "filter (\<lambda>(c, k). taxed_charge input c) (zip (ci_charges input) (ot_charges (calcPurchase J input)))"
  have sum: "sum_list (map F (calcGstPieces input ?out)) \<le> 10 ^ 12"
    if lines: "\<And>l. F \<lparr> gp_gstPct = lo_gstPct l, gp_taxable = lo_taxable l, gp_tax = lo_tax l, gp_cess = Some (lo_cess l) \<rparr> \<le> line_size l"
      and charges: "\<And>(c :: calc_charge_in) k. F \<lparr> gp_gstPct = dec (cc_taxPct c), gp_taxable = ko_amount k, gp_tax = ko_tax k, gp_cess = Some 0 \<rparr> \<le> charge_size k"
    for F :: "gst_piece \<Rightarrow> rat"
  proof -
    have "sum_list (map F (calcGstPieces input ?out)) \<le> sum_list (map line_size (ot_lines ?out)) + sum_list (map (\<lambda>(c, k). charge_size k) ?pairs)"
      unfolding calcGstPieces_def map_append sum_list_append map_map
      by (intro add_mono sum_list_mono) (auto simp: lines charges)
    also have "sum_list (map (\<lambda>(c, k). charge_size k) ?pairs) \<le> sum_list (map charge_size (ot_charges ?out))"
      by (rule zip_filter_le) (simp add: size_nonneg)
    also have "sum_list (map line_size (ot_lines ?out)) + sum_list (map charge_size (ot_charges ?out)) \<le> 10 ^ 12"
      using assms unfolding bill_size_def by linarith
    finally show ?thesis by simp
  qed
  show "sum_list (map (\<lambda>p. \<bar>gp_taxable p\<bar>) (calcGstPieces input ?out)) \<le> 10 ^ 12"
    "sum_list (map (\<lambda>p. \<bar>tp_cgst (gp_tax p)\<bar>) (calcGstPieces input ?out)) \<le> 10 ^ 12"
    "sum_list (map (\<lambda>p. \<bar>tp_sgst (gp_tax p)\<bar>) (calcGstPieces input ?out)) \<le> 10 ^ 12"
    "sum_list (map (\<lambda>p. \<bar>tp_igst (gp_tax p)\<bar>) (calcGstPieces input ?out)) \<le> 10 ^ 12"
    "sum_list (map (\<lambda>p. \<bar>dec (gp_cess p)\<bar>) (calcGstPieces input ?out)) \<le> 10 ^ 12"
    by (rule sum; simp add: line_size_def charge_size_def dec_def)+
qed

lemma plus_five:
  assumes "paise a" "paise b" "paise c" "paise d" "paise e"
    and "\<bar>a\<bar> \<le> 10 ^ 12" "\<bar>b\<bar> \<le> 10 ^ 12" "\<bar>c\<bar> \<le> 10 ^ 12" "\<bar>d\<bar> \<le> 10 ^ 12" "\<bar>e\<bar> \<le> 10 ^ 12"
  shows "d_plus J (d_plus J (d_plus J (d_plus J a b) c) d) e = a + b + c + d + e"
proof -
  have b: "\<bar>x\<bar> \<le> 5 * 10 ^ 12 \<Longrightarrow> \<bar>x\<bar> < 10 ^ 18" for x :: rat by simp
  have "\<bar>a + b\<bar> \<le> 5 * 10 ^ 12" "\<bar>a + b + c\<bar> \<le> 5 * 10 ^ 12" "\<bar>a + b + c + d\<bar> \<le> 5 * 10 ^ 12" "\<bar>a + b + c + d + e\<bar> \<le> 5 * 10 ^ 12"
    using assms(6-) by linarith+
  note small = this [THEN b]
  have "d_plus J a b = a + b" "d_plus J (a + b) c = a + b + c" "d_plus J (a + b + c) d = a + b + c + d"
    "d_plus J (a + b + c + d) e = a + b + c + d + e"
    using assms(1-5) small by (simp_all add: plus_paise)
  then show ?thesis by simp
qed

text \<open>The rows of a document: their totals, their tax and their taxable value.\<close>

lemma breakup_bill:
  fixes input :: calc_in
  defines "rows \<equiv> gstBreakup J (calcGstPieces input (calcPurchase J input))"
  assumes "bill_size (calcPurchase J input) \<le> 10 ^ 12"
  shows "sorted (map br_gstPct rows)"
    and "\<forall>r\<in>set rows. br_total r = br_taxable r + br_cgst r + br_sgst r + br_igst r + br_cess r"
    and "sum_list (map (\<lambda>r. br_cgst r + br_sgst r + br_igst r + br_cess r) rows) = ot_cgst (calcPurchase J input) +
      ot_sgst (calcPurchase J input) + ot_igst (calcPurchase J input) + ot_cess (calcPurchase J input) + ot_chargeTax (calcPurchase J input)"
    and "sum_list (map br_taxable rows) = ot_taxable (calcPurchase J input) + sum_list (map (\<lambda>(c, k). ko_amount k)
      (filter (\<lambda>(c, k). taxed_charge input c) (zip (ci_charges input) (ot_charges (calcPurchase J input)))))"
proof -
  let ?out = "calcPurchase J input" and ?ps = "calcGstPieces input (calcPurchase J input)"
  have le: "x \<le> 10 ^ 12 \<Longrightarrow> x \<le> 10 ^ 15" for x :: rat by simp
  note size = pieces_size [OF assms(2)] and p = pieces_paise [of _ input]
  have col: "sum_list (map f rows) = sum_list (map g ?ps) \<and> (\<forall>r\<in>set rows. paise (f r) \<and> \<bar>f r\<bar> \<le> 10 ^ 12)"
    if "breakup_column f g" "\<forall>p\<in>set ?ps. paise (g p)" "sum_list (map (\<lambda>p. \<bar>g p\<bar>) ?ps) \<le> 10 ^ 12" for f g
    using breakup_exact [OF that(1,2) le [OF that(3)]] that(3) unfolding rows_def by (fastforce intro: order_trans)
  have c1: "sum_list (map br_taxable rows) = sum_list (map gp_taxable ?ps)" "\<forall>r\<in>set rows. paise (br_taxable r) \<and> \<bar>br_taxable r\<bar> \<le> 10 ^ 12"
    using col [OF breakup_columns(1)] size(1) by (simp_all add: p comp_def)
  have c2: "sum_list (map br_cgst rows) = sum_list (map (tp_cgst \<circ> gp_tax) ?ps)" "\<forall>r\<in>set rows. paise (br_cgst r) \<and> \<bar>br_cgst r\<bar> \<le> 10 ^ 12"
    using col [OF breakup_columns(2)] size(2) by (simp_all add: p comp_def)
  have c3: "sum_list (map br_sgst rows) = sum_list (map (tp_sgst \<circ> gp_tax) ?ps)" "\<forall>r\<in>set rows. paise (br_sgst r) \<and> \<bar>br_sgst r\<bar> \<le> 10 ^ 12"
    using col [OF breakup_columns(3)] size(3) by (simp_all add: p comp_def)
  have c4: "sum_list (map br_igst rows) = sum_list (map (tp_igst \<circ> gp_tax) ?ps)" "\<forall>r\<in>set rows. paise (br_igst r) \<and> \<bar>br_igst r\<bar> \<le> 10 ^ 12"
    using col [OF breakup_columns(4)] size(4) by (simp_all add: p comp_def)
  have c5: "sum_list (map br_cess rows) = sum_list (map (dec \<circ> gp_cess) ?ps)" "\<forall>r\<in>set rows. paise (br_cess r) \<and> \<bar>br_cess r\<bar> \<le> 10 ^ 12"
    using col [OF breakup_columns(5)] size(5) by (simp_all add: p comp_def)
  show "sorted (map br_gstPct rows)" by (simp add: rows_def gstBreakup_def)
  have t: "ot_cgst ?out = sum_list (map (tp_cgst \<circ> lo_tax) (ot_lines ?out))" "ot_sgst ?out = sum_list (map (tp_sgst \<circ> lo_tax) (ot_lines ?out))"
    "ot_igst ?out = sum_list (map (tp_igst \<circ> lo_tax) (ot_lines ?out))" "ot_cess ?out = sum_list (map lo_cess (ot_lines ?out))"
    by (rule tax_columns [OF assms(2)])+
  have "sum_list (map (tp_cgst \<circ> gp_tax) ?ps) + sum_list (map (tp_sgst \<circ> gp_tax) ?ps) + sum_list (map (tp_igst \<circ> gp_tax) ?ps) +
      sum_list (map (dec \<circ> gp_cess) ?ps) = ot_cgst ?out + ot_sgst ?out + ot_igst ?out + ot_cess ?out + ot_chargeTax ?out"
    using pieces_sum [of tp_cgst input] pieces_sum [of tp_sgst input] pieces_sum [of tp_igst input] pieces_cess [of input]
    by (simp add: no_tax_def t charge_columns(2) [OF assms(2)] charge_tax_total_def sum_list_addf comp_def)
  then show "sum_list (map (\<lambda>r. br_cgst r + br_sgst r + br_igst r + br_cess r) rows) = ot_cgst ?out + ot_sgst ?out + ot_igst ?out +
      ot_cess ?out + ot_chargeTax ?out" unfolding sum_list_addf c2(1) [symmetric] c3(1) [symmetric] c4(1) [symmetric] c5(1) [symmetric] .
  show "sum_list (map br_taxable rows) = ot_taxable ?out + sum_list (map (\<lambda>(c, k). ko_amount k)
      (filter (\<lambda>(c, k). taxed_charge input c) (zip (ci_charges input) (ot_charges ?out))))"
    unfolding c1(1) by (simp add: tax_columns(1) [OF assms(2)] calcGstPieces_def comp_def split_def)
  show "\<forall>r\<in>set rows. br_total r = br_taxable r + br_cgst r + br_sgst r + br_igst r + br_cess r"
  proof
    fix r assume r: "r \<in> set rows"
    then obtain x where x: "r = row_total J x" by (auto simp: rows_def gstBreakup_def)
    have total: "br_total r = d_plus J (d_plus J (d_plus J (d_plus J (br_taxable r) (br_cgst r)) (br_sgst r)) (br_igst r)) (br_cess r)"
      by (simp add: x row_total_def)
    have f: "paise (br_taxable r)" "paise (br_cgst r)" "paise (br_sgst r)" "paise (br_igst r)" "paise (br_cess r)"
      and "\<bar>br_taxable r\<bar> \<le> 10 ^ 12" "\<bar>br_cgst r\<bar> \<le> 10 ^ 12" "\<bar>br_sgst r\<bar> \<le> 10 ^ 12" "\<bar>br_igst r\<bar> \<le> 10 ^ 12" "\<bar>br_cess r\<bar> \<le> 10 ^ 12"
      using c1(2) c2(2) c3(2) c4(2) c5(2) r by blast+
    then show "br_total r = br_taxable r + br_cgst r + br_sgst r + br_igst r + br_cess r"
      unfolding total by (rule plus_five)
  qed
qed

end

end
