(* ===== verification/Decimal_Text.thy ===== *)
theory Decimal_Text
  imports Decimal_Places Digits
begin

text \<open>
  \<open>toFixed\<close> as a key: two decimals of at most \<open>n\<close> places have the same \<open>n\<close>-place text only when they are the same
  number. The law is documented behaviour of the package; \<open>decimal20\<close> has it.
\<close>

locale decimal_text = decimal_package +
  assumes toFixed_inject: "on_grid n x \<Longrightarrow> on_grid n y \<Longrightarrow> d_toFixed J x n = d_toFixed J y n \<longleftrightarrow> x = y"

lemma read_nat_append: "read_nat (s @ t) = read_nat s * 10 ^ length t + read_nat t"
proof (induction t rule: rev_induct)
  case (snoc c t)
  have "read_nat (s @ t @ [c]) = read_nat ((s @ t) @ [c])" by simp
  also have "\<dots> = 10 * read_nat (s @ t) + (of_char c - 48)" by (rule read_nat_snoc)
  finally show ?case using snoc by (simp add: read_nat_snoc algebra_simps)
qed simp

lemma filter_show_nat [simp]: "filter is_digit (show_nat n) = show_nat n"
  using show_nat_all_digits [of n] by (simp add: filter_id_conv list_all_iff)

lemma pad_left_length: "b < 10 ^ n \<Longrightarrow> 0 < n \<Longrightarrow> length (pad_left n (show_nat b)) = n"
  using length_zero_padded [of n b] by (simp add: pad_left_def zero_padded_def)

lemma filter_pad_left: "filter is_digit (pad_left n (show_nat b)) = pad_left n (show_nat b)"
  by (simp add: pad_left_def)

text \<open>What the digits of \<open>toFixed\<close> read as, and its sign.\<close>

lemma toFixed_digits: "read_nat (filter is_digit (dec_toFixed x n)) = nat \<lfloor>\<bar>half_up n x\<bar> * 10 ^ n\<rfloor>"
proof -
  let ?u = "nat \<lfloor>\<bar>half_up n x\<bar> * 10 ^ n\<rfloor>"
  have signs: "\<not> is_digit (CHR ''-'')" "\<not> is_digit (CHR ''.'')" by (simp_all add: is_digit_def)
  show ?thesis
  proof (cases "n = 0")
    case True
    then show ?thesis by (simp add: dec_toFixed_def Let_def signs)
  next
    case False
    have "read_nat (show_nat (?u div 10 ^ n) @ pad_left n (show_nat (?u mod 10 ^ n))) = ?u"
      using pad_left_length [of "?u mod 10 ^ n" n] False unfolding read_nat_append by (simp add: pad_left_def div_mult_mod_eq)
    then show ?thesis using False by (simp add: dec_toFixed_def Let_def signs filter_pad_left)
  qed
qed

lemma toFixed_sign: "hd (dec_toFixed x n) = CHR ''-'' \<longleftrightarrow> x < 0"
proof -
  have "hd (show_nat k) \<noteq> CHR ''-''" for k
  proof
    assume "hd (show_nat k) = CHR ''-''"
    moreover have "is_digit (hd (show_nat k))" using show_nat_all_digits [of k] by (simp add: list_all_iff)
    ultimately show False by (simp add: is_digit_def)
  qed
  then show ?thesis by (simp add: dec_toFixed_def Let_def hd_append)
qed

lemma dec_toFixed_inject:
  assumes "on_grid n x" and "on_grid n y" and "dec_toFixed x n = dec_toFixed y n"
  shows "x = y"
proof -
  have int: "of_int \<lfloor>\<bar>z\<bar> * 10 ^ n\<rfloor> = \<bar>z\<bar> * 10 ^ n" if z: "on_grid n z" for z :: rat
  proof -
    obtain k :: int where k: "z * 10 ^ n = of_int k" using z by (auto simp: on_grid_def)
    have "\<bar>z\<bar> * 10 ^ n = \<bar>z * 10 ^ n\<bar>" by (simp add: abs_mult)
    then have "\<bar>z\<bar> * 10 ^ n = of_int \<bar>k\<bar>" by (simp add: k)
    then show ?thesis by simp
  qed
  have "nat \<lfloor>\<bar>x\<bar> * 10 ^ n\<rfloor> = nat \<lfloor>\<bar>y\<bar> * 10 ^ n\<rfloor>"
    using toFixed_digits [of x n] toFixed_digits [of y n] assms by simp
  then have "\<lfloor>\<bar>x\<bar> * 10 ^ n\<rfloor> = \<lfloor>\<bar>y\<bar> * 10 ^ n\<rfloor>" by (simp add: eq_nat_nat_iff)
  then have "\<bar>x\<bar> * 10 ^ n = \<bar>y\<bar> * 10 ^ n" using int [OF assms(1)] int [OF assms(2)] by metis
  then have "\<bar>x\<bar> = \<bar>y\<bar>" by simp
  moreover have "x < 0 \<longleftrightarrow> y < 0" using toFixed_sign [of x n] toFixed_sign [of y n] assms(3) by simp
  ultimately show ?thesis by (auto simp: abs_if split: if_splits)
qed

interpretation d20_text: decimal_text decimal20
  by unfold_locales (auto simp: decimal20_def dec_toFixed_inject)

lemma decimal20_text: "decimal_text decimal20"
  by unfold_locales

end
