(* ===== verification/Purchase_Rates.thy ===== *)
theory Purchase_Rates
  imports Purchase_Gst Decimal_Text
begin

text \<open>
  The tax of a purchase by rate, row by row: the rows of \<open>gstBreakup\<close> are, for each rate the pieces name, the sums of
  the pieces of that rate.
\<close>

section \<open>The row of a rate\<close>

definition of_rate :: "gst_piece list \<Rightarrow> rat \<Rightarrow> (gst_piece \<Rightarrow> rat) \<Rightarrow> rat" where
  "of_rate ps pct g = sum_list (map g (filter (\<lambda>p. gp_gstPct p = pct) ps))"

definition rate_sums :: "gst_piece list \<Rightarrow> rat \<Rightarrow> gst_breakup_row" where
  "rate_sums ps pct = \<lparr> br_gstPct = pct, br_taxable = of_rate ps pct gp_taxable, br_cgst = of_rate ps pct (tp_cgst \<circ> gp_tax),
     br_sgst = of_rate ps pct (tp_sgst \<circ> gp_tax), br_igst = of_rate ps pct (tp_igst \<circ> gp_tax), br_cess = of_rate ps pct (dec \<circ> gp_cess),
     br_total = 0 \<rparr>"

definition rate_row :: "gst_piece list \<Rightarrow> rat \<Rightarrow> gst_breakup_row" where
  "rate_row ps pct = (let r = rate_sums ps pct in r\<lparr> br_total := br_taxable r + br_cgst r + br_sgst r + br_igst r + br_cess r \<rparr>)"

text \<open>The rows in order of their rates, those with nothing on them left out.\<close>

definition rate_rows :: "gst_piece list \<Rightarrow> gst_breakup_row list" where
  "rate_rows ps = filter (\<lambda>r. \<not> row_empty r) (map (rate_row ps) (sort (remdups (map gp_gstPct ps))))"

text \<open>The rates as the pieces name them, in the order of the first.\<close>

definition first_rates :: "gst_piece list \<Rightarrow> rat list" where
  "first_rates ps = rev (remdups (rev (map gp_gstPct ps)))"

lemma first_rates_simps [simp]: "distinct (first_rates ps)" "set (first_rates ps) = gp_gstPct ` set ps" "first_rates [] = []"
  by (simp_all add: first_rates_def)

lemma first_rates_snoc: "first_rates (ps @ [p]) = (if gp_gstPct p \<in> set (first_rates ps) then first_rates ps else first_rates ps @ [gp_gstPct p])"
  by (simp add: first_rates_def)

lemma of_rate_snoc: "of_rate (ps @ [p]) pct g = of_rate ps pct g + (if gp_gstPct p = pct then g p else 0)"
  by (simp add: of_rate_def)

lemma of_rate_none: "pct \<notin> set (first_rates ps) \<Longrightarrow> of_rate ps pct g = 0"
proof -
  assume "pct \<notin> set (first_rates ps)"
  then have "filter (\<lambda>p. gp_gstPct p = pct) ps = []" by (auto simp: filter_empty_conv)
  then show "of_rate ps pct g = 0" unfolding of_rate_def by simp
qed

lemma rate_sums_none: "pct \<notin> set (first_rates ps) \<Longrightarrow> rate_sums ps pct = new_row pct"
  by (simp add: rate_sums_def new_row_def of_rate_none del: first_rates_simps)

lemma rate_sums_other: "gp_gstPct p \<noteq> pct \<Longrightarrow> rate_sums (ps @ [p]) pct = rate_sums ps pct"
  by (simp add: rate_sums_def of_rate_snoc)

section \<open>A map built from a list of keys\<close>

lemma map_of_keys:
  "inj_on k (insert a (set xs)) \<Longrightarrow> map_of (map (\<lambda>x. (k x, v x)) xs) (k a) = (if a \<in> set xs then Some (v a) else None)"
  by (induction xs) (auto simp: inj_on_def)

lemma jmap_set_keys_map:
  "inj_on k (insert a (set xs)) \<Longrightarrow> distinct xs \<Longrightarrow> jmap_set (k a) w (map (\<lambda>x. (k x, v x)) xs) =
    (if a \<in> set xs then map (\<lambda>x. (k x, if x = a then w else v x)) xs else map (\<lambda>x. (k x, v x)) xs @ [(k a, w)])"
proof (induction xs)
  case (Cons x xs)
  show ?case
  proof (cases "x = a")
    case True
    then show ?thesis using Cons.prems by auto
  next
    case False
    then have "k x \<noteq> k a" using Cons.prems by (auto simp: inj_on_def)
    moreover have "inj_on k (insert a (set xs))" using Cons.prems(1) by (auto simp: inj_on_def)
    ultimately show ?thesis using Cons.IH Cons.prems(2) False by auto
  qed
qed simp

section \<open>The rows\<close>

text \<open>Pieces whose rates have at most six places and whose columns are in paise and small.\<close>

definition column_small :: "gst_piece list \<Rightarrow> (gst_piece \<Rightarrow> rat) \<Rightarrow> bool" where
  "column_small ps g \<longleftrightarrow> (\<forall>p\<in>set ps. paise (g p)) \<and> sum_list (map (\<lambda>p. \<bar>g p\<bar>) ps) \<le> 10 ^ 12"

definition pieces_small :: "gst_piece list \<Rightarrow> bool" where
  "pieces_small ps \<longleftrightarrow> (\<forall>p\<in>set ps. on_grid 6 (gp_gstPct p)) \<and>
     list_all (column_small ps) [gp_taxable, tp_cgst \<circ> gp_tax, tp_sgst \<circ> gp_tax, tp_igst \<circ> gp_tax, dec \<circ> gp_cess]"

lemma column_small_snoc: "column_small (ps @ [p]) g \<Longrightarrow> column_small ps g"
  by (auto simp: column_small_def)

lemma of_rate_small:
  assumes "column_small ps g"
  shows "paise (of_rate ps pct g)" and "\<bar>of_rate ps pct g\<bar> \<le> 10 ^ 12"
proof -
  show "paise (of_rate ps pct g)" using assms unfolding of_rate_def by (intro on_grid_sum_list) (auto simp: column_small_def)
  have "\<bar>of_rate ps pct g\<bar> \<le> sum_list (map abs (map g (filter (\<lambda>p. gp_gstPct p = pct) ps)))" unfolding of_rate_def by (rule abs_sum_list_le)
  also have "\<dots> \<le> sum_list (map (\<lambda>p. \<bar>g p\<bar>) ps)" using sum_list_abs_filter_le [of g _ ps] by (simp add: comp_def)
  finally show "\<bar>of_rate ps pct g\<bar> \<le> 10 ^ 12" using assms by (simp add: column_small_def)
qed

context decimal_text
begin

lemma of_rate_step:
  assumes "column_small (ps @ [p]) g"
  shows "d_plus J (of_rate ps (gp_gstPct p) g) (g p) = of_rate (ps @ [p]) (gp_gstPct p) g"
proof -
  have "paise (g p)" using assms by (simp add: column_small_def)
  moreover have "\<bar>of_rate ps (gp_gstPct p) g + g p\<bar> \<le> 10 ^ 12" using of_rate_small(2) [OF assms, of "gp_gstPct p"] by (simp add: of_rate_snoc)
  then have "\<bar>of_rate ps (gp_gstPct p) g + g p\<bar> < 10 ^ 18" by simp
  ultimately show ?thesis using of_rate_small(1) [OF column_small_snoc [OF assms]] by (simp add: plus_paise of_rate_snoc)
qed

lemma merged_rate: "pieces_small (ps @ [p]) \<Longrightarrow> merged J p (rate_sums ps (gp_gstPct p)) = rate_sums (ps @ [p]) (gp_gstPct p)"
  using of_rate_step [of ps p gp_taxable] of_rate_step [of ps p "tp_cgst \<circ> gp_tax"] of_rate_step [of ps p "tp_sgst \<circ> gp_tax"]
    of_rate_step [of ps p "tp_igst \<circ> gp_tax"] of_rate_step [of ps p "dec \<circ> gp_cess"]
  by (simp add: merged_def rate_sums_def pieces_small_def)

lemma pieces_rates:
  assumes "pieces_small ps"
  shows "fold (add_piece J) ps [] = map (\<lambda>pct. (d_toFixed J pct 6, rate_sums ps pct)) (first_rates ps)"
  using assms
proof (induction ps rule: rev_induct)
  case (snoc p ps)
  let ?k = "\<lambda>pct. d_toFixed J pct 6" and ?a = "gp_gstPct p" and ?w = "rate_sums (ps @ [p]) (gp_gstPct p)"
  have small: "pieces_small ps" using snoc.prems by (auto simp: pieces_small_def dest: column_small_snoc)
  have grid: "on_grid 6 x" if "x \<in> insert ?a (set (first_rates ps))" for x using snoc.prems that by (auto simp: pieces_small_def)
  have inj: "inj_on ?k (insert ?a (set (first_rates ps)))" by (rule inj_onI) (metis grid toFixed_inject)
  let ?m = "map (\<lambda>pct. (?k pct, rate_sums ps pct)) (first_rates ps)"
  have w: "merged J p (or_else (jmap_get ?m (?k ?a)) (new_row ?a)) = ?w"
    unfolding map_of_keys [OF inj]
    using merged_rate [OF snoc.prems] rate_sums_none [of ?a ps] by (cases "?a \<in> set (first_rates ps)") (simp_all del: first_rates_simps)
  have "fold (add_piece J) (ps @ [p]) [] = add_piece J p (fold (add_piece J) ps [])" by simp
  also have "\<dots> = jmap_set (?k ?a) ?w ?m" unfolding snoc.IH [OF small] add_piece_merged Let_def w ..
  also have "\<dots> = map (\<lambda>pct. (?k pct, rate_sums (ps @ [p]) pct)) (first_rates (ps @ [p]))"
  proof -
    have other: "rate_sums ps x = rate_sums (ps @ [p]) x" if "x \<noteq> ?a" for x using rate_sums_other [of p x ps] that by simp
    show ?thesis unfolding jmap_set_keys_map [OF inj first_rates_simps(1)] first_rates_snoc
      by (auto simp del: first_rates_simps(2) intro: other)
  qed
  finally show ?case .
qed simp

lemma row_total_rate:
  assumes "pieces_small ps"
  shows "row_total J (rate_sums ps pct) = rate_row ps pct"
proof -
  have s: "column_small ps g" if "g \<in> set [gp_taxable, tp_cgst \<circ> gp_tax, tp_sgst \<circ> gp_tax, tp_igst \<circ> gp_tax, dec \<circ> gp_cess]" for g
    using assms that by (auto simp: pieces_small_def)
  have "d_plus J (d_plus J (d_plus J (d_plus J (of_rate ps pct gp_taxable) (of_rate ps pct (tp_cgst \<circ> gp_tax))) (of_rate ps pct (tp_sgst \<circ> gp_tax)))
      (of_rate ps pct (tp_igst \<circ> gp_tax))) (of_rate ps pct (dec \<circ> gp_cess)) =
      of_rate ps pct gp_taxable + of_rate ps pct (tp_cgst \<circ> gp_tax) + of_rate ps pct (tp_sgst \<circ> gp_tax) + of_rate ps pct (tp_igst \<circ> gp_tax) +
      of_rate ps pct (dec \<circ> gp_cess)"
    by (rule plus_five) (rule of_rate_small, rule s, simp)+
  then show ?thesis by (simp add: row_total_def rate_row_def rate_sums_def Let_def)
qed

lemma gstBreakup_rates:
  assumes "pieces_small ps"
  shows "gstBreakup J ps = rate_rows ps"
proof -
  have rate: "br_gstPct (rate_row ps pct) = pct" for pct by (simp add: rate_row_def rate_sums_def Let_def)
  have "gstBreakup J ps = filter (\<lambda>r. \<not> row_empty r) (sort_key br_gstPct (map (rate_row ps) (first_rates ps)))"
    unfolding gstBreakup_def pieces_rates [OF assms] filter_sort by (simp add: comp_def row_total_rate [OF assms])
  also have "sort_key br_gstPct (map (rate_row ps) (first_rates ps)) = map (rate_row ps) (sort (remdups (map gp_gstPct ps)))"
  proof (rule sort_key_inj_key_eq)
    have "mset (first_rates ps) = mset (sort (remdups (map gp_gstPct ps)))" by (rule set_eq_iff_mset_eq_distinct [THEN iffD1]) simp_all
    then show "mset (map (rate_row ps) (first_rates ps)) = mset (map (rate_row ps) (sort (remdups (map gp_gstPct ps))))" by simp
    show "inj_on br_gstPct (set (map (rate_row ps) (first_rates ps)))" by (auto simp: inj_on_def rate)
    show "sorted (map br_gstPct (map (rate_row ps) (sort (remdups (map gp_gstPct ps)))))" by (simp add: comp_def rate)
  qed
  finally show ?thesis by (simp add: rate_rows_def)
qed

text \<open>The pieces of a calculation, of a document whose rates have at most six places.\<close>

lemma calc_pieces_small:
  assumes "bill_size (calcPurchase J input) \<le> 10 ^ 12" and "list_all (\<lambda>l. on_grid 6 (dec (cl_gstPct l))) (ci_lines input)"
    and "list_all (\<lambda>c. on_grid 6 (dec (cc_taxPct c))) (ci_charges input)"
  shows "pieces_small (calcGstPieces input (calcPurchase J input))"
proof -
  obtain m where m: "ot_lines (calcPurchase J input) = map (line_out J input m) (map (base_of J input) (ci_lines input))"
    by (rule calc_fields)
  have rate: "lo_gstPct (line_out J input m (base_of J input l)) = (if line_taxed (base_of J input l) then dec (cl_gstPct l) else 0)" for l
    by (simp add: line_out_def Let_def split_def base_of_def)
  have "on_grid 6 (gp_gstPct p)" if "p \<in> set (calcGstPieces input (calcPurchase J input))" for p
    using that assms(2,3) by (auto simp: calcGstPieces_def m rate list_all_iff dest: set_zip_leftD)
  then show ?thesis
    using pieces_size [OF assms(1)] pieces_paise [of _ input] by (simp add: pieces_small_def column_small_def)
qed

end

end
