(* ===== verification/Purchase_Charges.thy ===== *)
theory Purchase_Charges
  imports Purchase_Bill
begin

text \<open>
  The charges of a purchase land on its lines: what the lines carry of the charges before tax, after tax
  and off the bill is exactly what the charges come to.
\<close>

section \<open>A charge that can be spread\<close>

text \<open>The weights a charge is spread by, as \<open>charge_parts\<close> chooses them.\<close>

definition charge_weights :: "decimal_js \<Rightarrow> calc_charge_in \<Rightarrow> base_line list \<Rightarrow> rat list" where
  "charge_weights J c lines =
     (if list_ex (\<lambda>w. w \<noteq> 0) (map (alloc_weight J c) lines) then map (alloc_weight J c) lines else map lb_netGross lines)"

text \<open>Whether anything takes the charge: without a weight the spread hands out zeros.\<close>

definition charge_weighed :: "decimal_js \<Rightarrow> base_line list \<Rightarrow> calc_charge_in \<Rightarrow> bool" where
  "charge_weighed J bases c \<longleftrightarrow> list_ex (\<lambda>w. w \<noteq> 0) (charge_weights J c (charge_lines c bases))"

definition charge_lands :: "decimal_js \<Rightarrow> base_line list \<Rightarrow> calc_charge_in \<Rightarrow> bool" where
  "charge_lands J bases c \<longleftrightarrow>
     (\<not> charge_weighed J bases c \<or> spreadable (charge_signed J c (charge_lines c bases)) (charge_weights J c (charge_lines c bases))) \<and>
     \<bar>charge_signed J c (charge_lines c bases)\<bar> \<le> 10 ^ 9"

text \<open>A document of at most a thousand lines with keys of their own, and a thousand charges, each spread by weights that are not negative or taken by no line.\<close>

definition charges_land :: "decimal_js \<Rightarrow> calc_in \<Rightarrow> bool" where
  "charges_land J input \<longleftrightarrow> distinct (map cl_key (ci_lines input)) \<and> length (ci_lines input) \<le> 1000 \<and>
     length (ci_charges input) \<le> 1000 \<and> list_all (charge_lands J (map (base_of J input) (ci_lines input))) (ci_charges input)"

text \<open>What the charges of a kind come to, those that nothing takes left out.\<close>

definition landed :: "decimal_js \<Rightarrow> calc_in \<Rightarrow> (calc_charge_in \<Rightarrow> bool) \<Rightarrow> rat" where
  "landed J input goes = sum_list (map (\<lambda>(c, k). ko_amount k)
     (filter (\<lambda>(c, k). goes c \<and> charge_weighed J (map (base_of J input) (ci_lines input)) c) (zip (ci_charges input) (ot_charges (calcPurchase J input)))))"

lemma sum_over_keys:
  fixes ps :: "('k \<times> rat) list"
  assumes "distinct keys" and "distinct (map fst ps)" and "fst ` set ps \<subseteq> set keys"
  shows "sum_list (map (\<lambda>k. or_else (map_of ps k) 0) keys) = sum_list (map snd ps)"
proof -
  have "sum_list (map (\<lambda>k. or_else (map_of ps k) 0) keys) = (\<Sum>k\<in>set keys. or_else (map_of ps k) 0)"
    using assms(1) by (simp add: sum_list_distinct_conv_sum_set)
  also have "\<dots> = (\<Sum>k\<in>fst ` set ps. or_else (map_of ps k) 0)"
    using assms(3) by (intro sum.mono_neutral_right) (force simp: or_else_def split: option.splits dest!: map_of_SomeD)+
  also have "\<dots> = (\<Sum>k\<leftarrow>map fst ps. or_else (map_of ps k) 0)"
    using sum_list_distinct_conv_sum_set [OF assms(2), of "\<lambda>k. or_else (map_of ps k) 0"] by simp
  also have "map (\<lambda>k. or_else (map_of ps k) 0) (map fst ps) = map snd ps"
    using assms(2) by (auto simp: map_of_is_SomeI)
  finally show ?thesis .
qed

lemma add_shares_get:
  assumes "distinct (map fst ps)"
  shows "jmap_get (add_shares J c ps m) k = (case map_of ps k of None \<Rightarrow> jmap_get m k
    | Some part \<Rightarrow> Some (add_share J c part (or_else (jmap_get m k) no_share)))"
  using assms
proof (induction J c ps m rule: add_shares.induct)
  case (2 J c key part ps m)
  then have "map_of ps key = None" by (simp add: map_of_eq_None_iff)
  with 2 show ?case by (cases "k = key") (auto simp: update_conv' split: option.split)
qed simp

text \<open>The three columns of a share, and the charges that go into each.\<close>

definition share_column :: "(line_share \<Rightarrow> rat) \<Rightarrow> (calc_charge_in \<Rightarrow> bool) \<Rightarrow> bool" where
  "share_column sel goes \<longleftrightarrow> sel no_share = 0 \<and>
     (\<forall>J c part s. sel (add_share J c part s) = (if goes c then d_plus J (sel s) part else sel s))"

lemma share_columns:
  "share_column sh_before (\<lambda>c. cc_onBill c \<and> cc_beforeTax c)" "share_column sh_after (\<lambda>c. cc_onBill c \<and> \<not> cc_beforeTax c)"
  "share_column sh_offbill (\<lambda>c. \<not> cc_onBill c)"
  by (auto simp: share_column_def add_share_def Let_def no_share_def)


text \<open>The share of a key after a charge: its part is added in the column the charge goes into.\<close>

definition column_of :: "(line_share \<Rightarrow> rat) \<Rightarrow> share_map \<Rightarrow> string \<Rightarrow> rat" where
  "column_of sel m k = sel (or_else (jmap_get m k) no_share)"

lemma column_after:
  assumes "share_column sel goes" and "distinct (map fst ps)"
  shows "column_of sel (add_shares J c ps m) k =
    (case map_of ps k of None \<Rightarrow> column_of sel m k | Some part \<Rightarrow> if goes c then d_plus J (column_of sel m k) part else column_of sel m k)"
  using assms(1) by (auto simp: column_of_def add_shares_get [OF assms(2)] share_column_def split: option.split)

text \<open>What a charge hands to the lines it is on.\<close>

definition keyed_parts :: "decimal_js \<Rightarrow> base_line list \<Rightarrow> calc_charge_in \<Rightarrow> (string \<times> rat) list" where
  "keyed_parts J bases c = zip (map (\<lambda>b. lb_key b) (charge_lines c bases)) (charge_parts J c (charge_lines c bases))"

lemma charge_step_parts:
  "charge_step J input bases c (charges, m) = (charges @ [ko], add_shares J c (keyed_parts J bases c) m) \<Longrightarrow>
    ko_amount ko = charge_signed J c (charge_lines c bases)"
  by (auto simp: charge_step_def Let_def)

context decimal_package
begin

lemma keyed_parts_land:
  assumes "charge_lands J bases c" and "distinct (map (\<lambda>b. lb_key b) bases)" and "length bases \<le> 1000"
  shows "distinct (map fst (keyed_parts J bases c))" and "fst ` set (keyed_parts J bases c) \<subseteq> set (map (\<lambda>b. lb_key b) bases)"
    and "sum_list (map snd (keyed_parts J bases c)) = (if charge_weighed J bases c then charge_signed J c (charge_lines c bases) else 0)"
    and "\<forall>p\<in>set (keyed_parts J bases c). paise (snd p) \<and> \<bar>snd p\<bar> \<le> 10 ^ 13"
proof -
  let ?ls = "charge_lines c bases" and ?a = "charge_signed J c (charge_lines c bases)"
  have parts: "charge_parts J c ?ls = spread J ?a (charge_weights J c ?ls)"
    by (simp add: charge_parts_def charge_weights_def Let_def)
  note ok = assms(1) [unfolded charge_lands_def]
  have wl: "length (charge_weights J c ?ls) = length ?ls" by (simp add: charge_weights_def)
  have none: "spread J ?a (charge_weights J c ?ls) = map (\<lambda>_. 0) (charge_weights J c ?ls)" if "\<not> charge_weighed J bases c"
  proof -
    have zeros: "foldl (d_plus J) 0 ws = 0" if "list_all (\<lambda>w. w = 0) ws" for ws using that plus_paise [of 0 0] by (induction ws) simp_all
    have "list_all (\<lambda>w. w = 0) (charge_weights J c ?ls)" using that by (auto simp: charge_weighed_def list_ex_iff list_all_iff)
    then show ?thesis by (simp add: spread_def total_of_def zeros)
  qed
  have sp: "length (spread J ?a (charge_weights J c ?ls)) = length (charge_weights J c ?ls)"
    using none spread_exact(2) ok by (cases "charge_weighed J bases c") auto
  have len: "length ?ls \<le> 1000" using length_filter_le [of _ bases] assms(3) unfolding charge_lines_def by (rule le_trans)
  have fst: "map fst (keyed_parts J bases c) = map (\<lambda>b. lb_key b) ?ls" and snd: "map snd (keyed_parts J bases c) = charge_parts J c ?ls"
    using sp wl by (simp_all add: keyed_parts_def parts)
  show "distinct (map fst (keyed_parts J bases c))" unfolding fst charge_lines_def by (rule distinct_map_filter) (rule assms(2))
  have "set (map fst (keyed_parts J bases c)) \<subseteq> set (map (\<lambda>b. lb_key b) bases)" unfolding fst by (auto simp: charge_lines_def)
  then show "fst ` set (keyed_parts J bases c) \<subseteq> set (map (\<lambda>b. lb_key b) bases)" by simp
  show "sum_list (map snd (keyed_parts J bases c)) = (if charge_weighed J bases c then ?a else 0)"
    unfolding snd parts using none spread_exact(1) ok by (auto simp: sum_list_0)
  have "\<forall>x\<in>set (map snd (keyed_parts J bases c)). paise x \<and> \<bar>x\<bar> \<le> 10 ^ 13"
  proof (cases "charge_weighed J bases c")
    case True
    then have w: "spreadable ?a (charge_weights J c ?ls)" using ok by simp
    show ?thesis unfolding snd parts using spread_exact(3) [OF w] spread_part_small [OF w ok [THEN conjunct2]] len wl by simp
  next
    case False
    then show ?thesis unfolding snd parts none [OF False] by simp
  qed
  then show "\<forall>p\<in>set (keyed_parts J bases c). paise (snd p) \<and> \<bar>snd p\<bar> \<le> 10 ^ 13" by simp
qed

text \<open>The columns through the charges: in paise, small, and adding up to the charges that go into them.\<close>

definition columns_ok :: "(line_share \<Rightarrow> rat) \<Rightarrow> string list \<Rightarrow> share_map \<Rightarrow> rat \<Rightarrow> nat \<Rightarrow> bool" where
  "columns_ok sel keys m tot n \<longleftrightarrow> sum_list (map (column_of sel m) keys) = tot \<and>
     (\<forall>k. paise (column_of sel m k) \<and> \<bar>column_of sel m k\<bar> \<le> of_nat n * 10 ^ 13)"

lemma columns_step:
  assumes col: "share_column sel goes" and land: "charge_lands J bases c" and dist: "distinct (map (\<lambda>b. lb_key b) bases)"
    and len: "length bases \<le> 1000" and ok: "columns_ok sel (map (\<lambda>b. lb_key b) bases) m tot n" and n: "n \<le> 1000"
  shows "columns_ok sel (map (\<lambda>b. lb_key b) bases) (add_shares J c (keyed_parts J bases c) m)
    (if goes c \<and> charge_weighed J bases c then tot + charge_signed J c (charge_lines c bases) else tot) (Suc n)"
proof -
  let ?ps = "keyed_parts J bases c" and ?keys = "map (\<lambda>b. lb_key b) bases"
  let ?m' = "add_shares J c ?ps m"
  note k = keyed_parts_land [OF land dist len]
  note after = column_after [OF col k(1), of J c m]
  have get: "column_of sel ?m' key = column_of sel m key + (if goes c then or_else (map_of ?ps key) 0 else 0) \<and>
      paise (column_of sel ?m' key) \<and> \<bar>column_of sel ?m' key\<bar> \<le> of_nat (Suc n) * 10 ^ 13" for key
  proof (cases "map_of ?ps key")
    case None
    with ok show ?thesis by (auto simp: after columns_ok_def field_simps intro: order_trans)
  next
    case (Some part)
    then have part: "paise part" "\<bar>part\<bar> \<le> 10 ^ 13" using k(4) by (auto dest!: map_of_SomeD)
    have old: "paise (column_of sel m key)" "\<bar>column_of sel m key\<bar> \<le> of_nat n * 10 ^ 13" using ok by (auto simp: columns_ok_def)
    have sum: "\<bar>column_of sel m key + part\<bar> \<le> of_nat (Suc n) * 10 ^ 13" using abs_triangle_ineq [of "column_of sel m key" part] part(2) old(2) by (simp add: field_simps)
    have "of_nat (Suc n) * 10 ^ 13 \<le> (1001 * 10 ^ 13 :: rat)" using n by (intro mult_right_mono) simp_all
    then have "of_nat (Suc n) * 10 ^ 13 < (10 ^ 18 :: rat)" by simp
    then have "d_plus J (column_of sel m key) part = column_of sel m key + part"
      using old(1) part(1) sum by (intro plus_paise) linarith+
    then show ?thesis using Some old part(1) sum by (auto simp: after field_simps)
  qed
  have "sum_list (map (column_of sel ?m') ?keys) =
      sum_list (map (column_of sel m) ?keys) + sum_list (map (\<lambda>key. if goes c then or_else (map_of ?ps key) 0 else 0) ?keys)"
    unfolding sum_list_addf [symmetric] by (rule arg_cong [of _ _ sum_list], rule map_cong [OF refl], rule conjunct1, rule get)
  then have "sum_list (map (column_of sel ?m') ?keys) = (if goes c \<and> charge_weighed J bases c then tot + charge_signed J c (charge_lines c bases) else tot)"
    using sum_over_keys [OF dist k(1,2)] k(3) ok by (cases "goes c") (simp_all add: columns_ok_def comp_def sum_list_0)
  moreover have "\<forall>key. paise (column_of sel ?m' key) \<and> \<bar>column_of sel ?m' key\<bar> \<le> of_nat (Suc n) * 10 ^ 13" using get by blast
  ultimately show ?thesis unfolding columns_ok_def by blast
qed

lemma columns_run:
  assumes col: "share_column sel goes" and dist: "distinct (map (\<lambda>b. lb_key b) bases)" and len: "length bases \<le> 1000"
    and "list_all (charge_lands J bases) cs" and "length done_cs + length cs \<le> 1000" and "length charges = length done_cs"
    and "columns_ok sel (map (\<lambda>b. lb_key b) bases) m
      (sum_list (map (\<lambda>(c, k). ko_amount k) (filter (\<lambda>(c, k). goes c \<and> charge_weighed J bases c) (zip done_cs charges)))) (length done_cs)"
  shows "\<exists>charges' m'. fold (charge_step J input bases) cs (charges, m) = (charges', m') \<and> length charges' = length done_cs + length cs \<and>
    columns_ok sel (map (\<lambda>b. lb_key b) bases) m'
      (sum_list (map (\<lambda>(c, k). ko_amount k) (filter (\<lambda>(c, k). goes c \<and> charge_weighed J bases c) (zip (done_cs @ cs) charges')))) (length done_cs + length cs)"
  using assms(4-)
proof (induction cs arbitrary: done_cs charges m)
  case (Cons c cs)
  obtain ko where step: "charge_step J input bases c (charges, m) = (charges @ [ko], add_shares J c (keyed_parts J bases c) m)"
    by (simp add: charge_step_def Let_def keyed_parts_def)
  note ko = charge_step_parts [OF step]
  have "columns_ok sel (map (\<lambda>b. lb_key b) bases) (add_shares J c (keyed_parts J bases c) m)
      (sum_list (map (\<lambda>(c, k). ko_amount k) (filter (\<lambda>(c, k). goes c \<and> charge_weighed J bases c) (zip (done_cs @ [c]) (charges @ [ko]))))) (length (done_cs @ [c]))"
    using columns_step [OF col _ dist len Cons.prems(4), of c] Cons.prems by (cases "goes c \<and> charge_weighed J bases c") (auto simp: ko)
  then show ?case using Cons.IH [of "done_cs @ [c]" "charges @ [ko]" "add_shares J c (keyed_parts J bases c) m"] Cons.prems
    by (simp add: step)
qed simp

lemma start_columns:
  "jmap_get (foldl (\<lambda>m b. jmap_set (lb_key b) no_share m) m0 bases) k =
    (if k \<in> set (map (\<lambda>b. lb_key b) bases) then Some no_share else jmap_get m0 k)"
  by (induction bases arbitrary: m0) (auto simp: update_conv')

lemma share_columns_land:
  assumes "charges_land J input" and "share_column sel goes"
    and m: "(ot_charges (calcPurchase J input), m) = run_charges J input (map (base_of J input) (ci_lines input))"
  shows "sum_list (map (\<lambda>l. column_of sel m (cl_key l)) (ci_lines input)) =
      landed J input goes"
    and "\<forall>k. paise (column_of sel m k) \<and> \<bar>column_of sel m k\<bar> \<le> 10 ^ 16"
proof -
  let ?bases = "map (base_of J input) (ci_lines input)" and ?start = "foldl (\<lambda>m b. jmap_set (lb_key b) no_share m) [] (map (base_of J input) (ci_lines input))"
  have keys: "map (\<lambda>b. lb_key b) ?bases = map cl_key (ci_lines input)" by (simp add: comp_def base_of_def Let_def)
  have "column_of sel ?start = (\<lambda>k. 0)"
    using assms(2) by (simp add: fun_eq_iff column_of_def start_columns share_column_def)
  then have "columns_ok sel (map (\<lambda>b. lb_key b) ?bases) ?start
      (sum_list (map (\<lambda>(c, k). ko_amount k) (filter (\<lambda>(c, k). goes c \<and> charge_weighed J ?bases c) (zip [] [])))) (length [])"
    by (simp add: columns_ok_def comp_def sum_list_0)
  from columns_run [OF assms(2) _ _ _ _ _ this, of "ci_charges input" input, unfolded keys]
  have ok: "columns_ok sel (map cl_key (ci_lines input)) m
      (landed J input goes)
      (length (ci_charges input))"
    using assms(1) m [symmetric] by (simp add: charges_land_def run_charges_def landed_def)
  have "of_nat (length (ci_charges input)) * 10 ^ 13 \<le> (1000 * 10 ^ 13 :: rat)"
    using assms(1) by (intro mult_right_mono) (simp_all add: charges_land_def)
  then have le: "of_nat (length (ci_charges input)) * 10 ^ 13 \<le> (10 ^ 16 :: rat)" by simp
  from ok show "sum_list (map (\<lambda>l. column_of sel m (cl_key l)) (ci_lines input)) =
      landed J input goes"
    by (simp add: columns_ok_def comp_def)
  from ok le show "\<forall>k. paise (column_of sel m k) \<and> \<bar>column_of sel m k\<bar> \<le> 10 ^ 16" by (auto simp: columns_ok_def intro: order_trans)
qed

text \<open>What the lines carry is what the charges come to, in each of the three columns.\<close>

lemma line_share_columns:
  "lo_chrgBeforeTax (line_out J input m (base_of J input l)) = column_of sh_before m (cl_key l)"
  "lo_chrgAfterTax (line_out J input m (base_of J input l)) = column_of sh_after m (cl_key l)"
  "lo_offbillShare (line_out J input m (base_of J input l)) = column_of sh_offbill m (cl_key l)"
  by (simp_all add: line_out_def Let_def split_def column_of_def base_of_def)

lemma charges_on_lines:
  assumes "charges_land J input"
  shows "sum_list (map lo_chrgBeforeTax (ot_lines (calcPurchase J input))) = landed J input (\<lambda>c. cc_onBill c \<and> cc_beforeTax c)"
    and "sum_list (map lo_chrgAfterTax (ot_lines (calcPurchase J input))) = landed J input (\<lambda>c. cc_onBill c \<and> \<not> cc_beforeTax c)"
    and "sum_list (map lo_offbillShare (ot_lines (calcPurchase J input))) = landed J input (\<lambda>c. \<not> cc_onBill c)"
    and "l \<in> set (ot_lines (calcPurchase J input)) \<Longrightarrow> \<bar>lo_netGross l\<bar> \<le> 10 ^ 12 \<Longrightarrow> lo_taxable l = lo_netGross l + lo_chrgBeforeTax l"
proof -
  obtain m where m: "ot_lines (calcPurchase J input) = map (line_out J input m) (map (base_of J input) (ci_lines input))"
    "(ot_charges (calcPurchase J input), m) = run_charges J input (map (base_of J input) (ci_lines input))" by (rule calc_fields)
  have land: "sum_list (map (\<lambda>l. column_of sel m (cl_key l)) (ci_lines input)) =
      landed J input goes \<and>
      (\<forall>k. paise (column_of sel m k) \<and> \<bar>column_of sel m k\<bar> \<le> 10 ^ 16)" if "share_column sel goes" for sel goes
    using share_columns_land [OF assms that m(2)] by blast
  show "sum_list (map lo_chrgBeforeTax (ot_lines (calcPurchase J input))) = landed J input (\<lambda>c. cc_onBill c \<and> cc_beforeTax c)"
    "sum_list (map lo_chrgAfterTax (ot_lines (calcPurchase J input))) = landed J input (\<lambda>c. cc_onBill c \<and> \<not> cc_beforeTax c)"
    "sum_list (map lo_offbillShare (ot_lines (calcPurchase J input))) = landed J input (\<lambda>c. \<not> cc_onBill c)"
    using land [OF share_columns(1)] land [OF share_columns(2)] land [OF share_columns(3)]
    by (simp_all add: m(1) comp_def line_share_columns)
  assume l: "l \<in> set (ot_lines (calcPurchase J input))" and small: "\<bar>lo_netGross l\<bar> \<le> 10 ^ 12"
  then obtain x where x: "l = line_out J input m (base_of J input x)" by (auto simp: m(1))
  have b: "paise (lo_chrgBeforeTax l)" "\<bar>lo_chrgBeforeTax l\<bar> \<le> 10 ^ 16" using land [OF share_columns(1)] by (simp_all add: x line_share_columns)
  have "\<bar>lo_netGross l + lo_chrgBeforeTax l\<bar> < 10 ^ 18" using b(2) small abs_triangle_ineq [of "lo_netGross l" "lo_chrgBeforeTax l"] by simp
  then show "lo_taxable l = lo_netGross l + lo_chrgBeforeTax l" using b(1)
    by (simp add: x line_out_fields(3-5) plus_paise)
qed

end

end
