(* ===== verification/Purchase_Properties.thy ===== *)
theory Purchase_Properties
  imports Purchase_Rates Purchase_Charges
begin

text \<open>
  The properties of the purchase calculation, over the lemmas of \<open>Purchase_Correct\<close>, \<open>Purchase_Bill\<close>,
  \<open>Purchase_Credit\<close>, \<open>Purchase_Charges\<close> and \<open>Purchase_Gst\<close>, and the documents the witnesses evaluate.
\<close>

section \<open>A document\<close>

text \<open>Two lines (one short by more than its allowance, one by less), freight before tax, packing after tax with tax of
  its own, and a cost of our own off the bill.\<close>

definition sample_item :: "string \<Rightarrow> rat \<Rightarrow> rat \<Rightarrow> rat \<Rightarrow> rat \<Rightarrow> calc_line_in" where
  "sample_item key billed received gstPct shortage = \<lparr> cl_key = key, cl_billedQty = billed, cl_receivedQty = Some received,
     cl_damagedQty = None, cl_freeQty = None, cl_toBaseFactor = None, cl_rate = 100, cl_discPct = None, cl_discPerQty = None,
     cl_discAmt = None, cl_schPct = None, cl_schPerQty = None, cl_schAmt = None, cl_extraDiscAmt = None, cl_gstPct = Some gstPct,
     cl_cessPct = None, cl_cessPerUnit = None, cl_weight = None, cl_itcClass = None, cl_shortagePct = Some shortage \<rparr>"

definition sample_charge :: "string \<Rightarrow> rat \<Rightarrow> bool \<Rightarrow> bool \<Rightarrow> rat option \<Rightarrow> calc_charge_in" where
  "sample_charge key rate beforeTax onBill taxPct = \<lparr> cc_key = key, cc_type = ADD, cc_method = FIXED, cc_rate = rate, cc_amount = None,
     cc_alloc = BY_VALUE, cc_beforeTax = beforeTax, cc_onBill = onBill, cc_landingCost = True, cc_taxPct = taxPct, cc_payees = [],
     cc_lineKeys = None \<rparr>"

definition sample_doc :: "supplier_tax_mode option \<Rightarrow> calc_in" where
  "sample_doc mode = \<lparr> ci_interState = False, ci_supplierTaxMode = mode,
     ci_lines = [sample_item ''a'' 10 8 20 0, sample_item ''b'' 30 20 10 50],
     ci_charges = [sample_charge ''freight'' 400 True True None, sample_charge ''packing'' 100 False True (Some 18),
       sample_charge ''load'' 800 False False None],
     ci_tcsAmount = Some 1, ci_roundOffStep = Some 5 \<rparr>"

lemmas item_defs = sample_doc_def sample_item_def sample_charge_def dec_def or_else_def
lemmas d20_purchase = d20.plus_paise d20.minus_paise d20.times_paise d20.div_paise d20.r2_half_up

definition sample_base :: "string \<Rightarrow> rat \<Rightarrow> rat \<Rightarrow> rat \<Rightarrow> rat \<Rightarrow> base_line" where
  "sample_base key billed received gstPct shortage = \<lparr> lb_line = sample_item key billed received gstPct shortage, lb_billed = billed,
     lb_received = received, lb_damaged = 0, lb_free = 0, lb_factor = 1, lb_weight = 0, lb_gross = billed * 100, lb_discAmt = 0,
     lb_schAmt = 0, lb_extraDiscAmt = 0, lb_netGross = billed * 100, lb_itcClass = ITC_ELIGIBLE \<rparr>"

lemma sample_bases: "map (base_of decimal20 (sample_doc None)) (ci_lines (sample_doc None)) =
  [sample_base ''a'' 10 8 20 0, sample_base ''b'' 30 20 10 50]"
  by (simp add: item_defs base_of_def line_class_def reduction_of_def d20_purchase sample_base_def)

definition sample_share :: "rat \<Rightarrow> rat \<Rightarrow> rat \<Rightarrow> line_share" where
  "sample_share b a off = \<lparr> sh_before = b, sh_after = a, sh_offbill = off, sh_beforeNotLanding = 0, sh_afterNotLanding = 0 \<rparr>"

lemma sample_doc_run: "run_charges decimal20 (sample_doc None) (map (base_of decimal20 (sample_doc None)) (ci_lines (sample_doc None))) =
  ([\<lparr> ko_key = ''freight'', ko_amount = 400, ko_tax = no_tax, ko_lineShares = [(''a'', 100), (''b'', 300)], ko_payees = [] \<rparr>,
    \<lparr> ko_key = ''packing'', ko_amount = 100, ko_tax = \<lparr> tp_cgst = 9, tp_sgst = 9, tp_igst = 0 \<rparr>, ko_lineShares = [(''a'', 25), (''b'', 75)],
      ko_payees = [] \<rparr>,
    \<lparr> ko_key = ''load'', ko_amount = 800, ko_tax = no_tax, ko_lineShares = [(''a'', 200), (''b'', 600)], ko_payees = [] \<rparr>],
   [(''a'', sample_share 100 25 200), (''b'', sample_share 300 75 600)])"
  unfolding sample_bases
  by (simp add: item_defs sample_base_def run_charges_def charge_step_def Let_def charge_lines_def charge_signed_def charge_amount_def charge_parts_def
      alloc_weight_def spread_def total_of_def d20_purchase charge_tax_def gst_def no_tax_def noTaxSupplier_def charge_payees_def
      add_share_def no_share_def sample_share_def)

lemma calc_run:
  assumes "run_charges J input (map (base_of J input) (ci_lines input)) = (ks, m)"
  shows "ot_lines (calcPurchase J input) = map (line_out J input m) (map (base_of J input) (ci_lines input))"
    and "ot_charges (calcPurchase J input) = ks"
  by (simp_all add: calcPurchase_def Let_def assms)

lemma line_out_tax:
  "lo_tax (line_out J input m b) = gst J (lo_taxable (line_out J input m b))
     (if line_taxed b then dec (cl_gstPct (lb_line b)) else 0) (ci_interState input)"
  "lo_cess (line_out J input m b) = (if line_taxed b then r2 J (d_plus J (percent J (lo_taxable (line_out J input m b)) (dec (cl_cessPct (lb_line b))))
     (d_times J (lb_billed b) (dec (cl_cessPerUnit (lb_line b))))) else 0)"
  "lo_absorbedShortQty (line_out J input m b) = absorbed_of J b"
  "lo_pendingShortQty (line_out J input m b) = d_minus J (short_of J b) (absorbed_of J b)"
  by (simp_all add: line_out_def Let_def split_def)

abbreviation sample_shares :: share_map where
  "sample_shares \<equiv> [(''a'', sample_share 100 25 200), (''b'', sample_share 300 75 600)]"

lemmas line_eval = d20.line_out_fields(3) line_out_tax line_taxed_def short_of_def absorbed_of_def max0_def itc_split_def gst_def no_tax_def
  tax_sum_def percent_def

text \<open>The first line: taxable 1100, tax 220, of which 44 pending. The second: taxable 3300, tax 330, of which 110 lost.\<close>

lemma sample_line_taxes:
  "lo_taxable (line_out decimal20 (sample_doc None) sample_shares (sample_base ''a'' 10 8 20 0)) = 1100"
  "lo_tax (line_out decimal20 (sample_doc None) sample_shares (sample_base ''a'' 10 8 20 0)) = \<lparr> tp_cgst = 110, tp_sgst = 110, tp_igst = 0 \<rparr>"
  "lo_cess (line_out decimal20 (sample_doc None) sample_shares (sample_base ''a'' 10 8 20 0)) = 0"
  "lo_taxable (line_out decimal20 (sample_doc None) sample_shares (sample_base ''b'' 30 20 10 50)) = 3300"
  "lo_tax (line_out decimal20 (sample_doc None) sample_shares (sample_base ''b'' 30 20 10 50)) = \<lparr> tp_cgst = 165, tp_sgst = 165, tp_igst = 0 \<rparr>"
  "lo_cess (line_out decimal20 (sample_doc None) sample_shares (sample_base ''b'' 30 20 10 50)) = 0"
  by (simp_all add: sample_base_def item_defs line_eval d20_purchase sample_share_def)

lemma line_out_credit:
  "itc_split J b (d_plus J (tax_sum J (lo_tax (line_out J input m b))) (lo_cess (line_out J input m b)))
     (d_minus J (short_of J b) (absorbed_of J b)) (absorbed_of J b) = (e, p, i) \<Longrightarrow>
   lo_itcEligible (line_out J input m b) = e \<and> lo_itcPending (line_out J input m b) = p \<and> lo_itcIneligible (line_out J input m b) = i"
  by (simp add: line_out_def Let_def split_def)

lemma sample_line_credits:
  "lo_itcEligible (line_out decimal20 (sample_doc None) sample_shares (sample_base ''a'' 10 8 20 0)) = 176 \<and>
   lo_itcPending (line_out decimal20 (sample_doc None) sample_shares (sample_base ''a'' 10 8 20 0)) = 44 \<and>
   lo_itcIneligible (line_out decimal20 (sample_doc None) sample_shares (sample_base ''a'' 10 8 20 0)) = 0"
  "lo_itcEligible (line_out decimal20 (sample_doc None) sample_shares (sample_base ''b'' 30 20 10 50)) = 220 \<and>
   lo_itcPending (line_out decimal20 (sample_doc None) sample_shares (sample_base ''b'' 30 20 10 50)) = 0 \<and>
   lo_itcIneligible (line_out decimal20 (sample_doc None) sample_shares (sample_base ''b'' 30 20 10 50)) = 110"
  by (rule line_out_credit, simp add: sample_line_taxes, simp add: sample_base_def item_defs itc_split_def short_of_def absorbed_of_def
      max0_def percent_def tax_sum_def d20_purchase)+

lemma sample_sizes:
  "bill_size (calcPurchase decimal20 (sample_doc None)) \<le> 10 ^ 12"
  "sum_list (map credit_size (ot_lines (calcPurchase decimal20 (sample_doc None)))) \<le> 10 ^ 12"
proof -
  note run = calc_run [OF sample_doc_run]
  have "ot_tcs (calcPurchase decimal20 (sample_doc None)) = 1"
    by (simp add: calc_totals item_defs d20_purchase)
  then show "bill_size (calcPurchase decimal20 (sample_doc None)) \<le> 10 ^ 12"
    "sum_list (map credit_size (ot_lines (calcPurchase decimal20 (sample_doc None)))) \<le> 10 ^ 12"
    by (simp_all add: bill_size_def run sample_bases line_size_def credit_size_def charge_size_def no_tax_def sample_line_taxes
        sample_line_credits del: map_map)
qed

section \<open>Two boundaries of the calculation\<close>

text \<open>
  A document of free goods only, with freight of 100 before tax: no line has a net gross or a weight, the spread
  hands out zeros, and the charge is shown with its amount but is neither in the taxable value nor in the payable.
\<close>

definition free_goods :: calc_in where
  "free_goods = \<lparr> ci_interState = False, ci_supplierTaxMode = None,
     ci_lines = [(sample_item ''a'' 0 0 18 0)\<lparr>cl_freeQty := Some 5\<rparr>],
     ci_charges = [sample_charge ''freight'' 100 True True None], ci_tcsAmount = None, ci_roundOffStep = None \<rparr>"

lemma free_goods_run: "run_charges decimal20 free_goods (map (base_of decimal20 free_goods) (ci_lines free_goods)) =
  ([\<lparr> ko_key = ''freight'', ko_amount = 100, ko_tax = no_tax, ko_lineShares = [(''a'', 0)], ko_payees = [] \<rparr>], [(''a'', no_share)])"
  by (simp add: free_goods_def item_defs base_of_def line_class_def reduction_of_def d20_purchase run_charges_def charge_step_def Let_def
      charge_lines_def charge_signed_def charge_amount_def charge_parts_def alloc_weight_def spread_def total_of_def charge_tax_def
      charge_payees_def add_share_def no_share_def)

lemma calcPurchase_drops_charge:
  "map ko_amount (ot_charges (calcPurchase decimal20 free_goods)) = [100] \<and> ot_taxable (calcPurchase decimal20 free_goods) = 0 \<and>
   ot_chargesOnBill (calcPurchase decimal20 free_goods) = 0"
proof -
  note run = calc_run [OF free_goods_run]
  have "lo_taxable (line_out decimal20 free_goods [(''a'', no_share)] (base_of decimal20 free_goods l)) = 0 \<and>
      lo_chrgBeforeTax (line_out decimal20 free_goods [(''a'', no_share)] (base_of decimal20 free_goods l)) = 0"
    if "l \<in> set (ci_lines free_goods)" for l
    using that by (simp add: d20.line_out_fields free_goods_def item_defs base_of_def reduction_of_def d20_purchase no_share_def)
  then have "\<forall>l\<in>set (ot_lines (calcPurchase decimal20 free_goods)). lo_taxable l = 0 \<and> lo_chrgBeforeTax l = 0" by (simp add: run(1))
  moreover have "length (ot_lines (calcPurchase decimal20 free_goods)) = 1" unfolding run(1) by (simp add: free_goods_def)
  ultimately obtain l where l: "ot_lines (calcPurchase decimal20 free_goods) = [l]" "lo_taxable l = 0" "lo_chrgBeforeTax l = 0"
    by (auto simp: length_Suc_conv)
  show ?thesis
    by (simp add: calc_totals l line_total_def total_of_def on_bill_after_def run(2) d20_purchase)
      (simp add: free_goods_def sample_charge_def d20_purchase)
qed

text \<open>
  A free line that takes a share of a charge by weight is taxed on that share, and the tax of the line, whose
  billed quantity is zero, is in none of the three credits.
\<close>

definition weighed_free :: base_line where
  "weighed_free = (sample_base ''a'' 0 0 20 0)\<lparr>lb_free := 5, lb_weight := 10\<rparr>"

lemma free_line_credit:
  "lo_tax (line_out decimal20 (sample_doc None) [(''a'', sample_share 100 0 0)] weighed_free) = \<lparr> tp_cgst = 10, tp_sgst = 10, tp_igst = 0 \<rparr> \<and>
   lo_itcEligible (line_out decimal20 (sample_doc None) [(''a'', sample_share 100 0 0)] weighed_free) = 0 \<and>
   lo_itcPending (line_out decimal20 (sample_doc None) [(''a'', sample_share 100 0 0)] weighed_free) = 0 \<and>
   lo_itcIneligible (line_out decimal20 (sample_doc None) [(''a'', sample_share 100 0 0)] weighed_free) = 0"
proof -
  have "itc_split decimal20 weighed_free tax pending absorbed = (0, 0, 0)" for tax pending absorbed
    by (simp add: itc_split_def weighed_free_def sample_base_def)
  then have "lo_itcEligible (line_out decimal20 (sample_doc None) [(''a'', sample_share 100 0 0)] weighed_free) = 0 \<and>
   lo_itcPending (line_out decimal20 (sample_doc None) [(''a'', sample_share 100 0 0)] weighed_free) = 0 \<and>
   lo_itcIneligible (line_out decimal20 (sample_doc None) [(''a'', sample_share 100 0 0)] weighed_free) = 0"
    by (rule line_out_credit)
  then show ?thesis
    by (simp add: weighed_free_def sample_base_def item_defs line_eval d20_purchase sample_share_def)
qed

section \<open>Properties\<close>

text \<open>
  The spread of a charge loses nothing: over weights that are not negative, the shares are in paise, one
  per weight, nothing on a weight of zero, and they add up to exactly the amount.
\<close>

theorem spread_hands_out:
  assumes "decimal_package J" and "spreadable amount ws"
  shows "length (spread J amount ws) = length ws \<and> sum_list (spread J amount ws) = amount \<and>
    (\<forall>i<length ws. paise (spread J amount ws ! i) \<and> (ws ! i = 0 \<longrightarrow> spread J amount ws ! i = 0))"
  using decimal_package.spread_exact [OF assms] by (auto simp: nth_mem)

theorem spread_hands_out_witness:
  "sum_list (spread decimal20 100 [1, 0, 1, 1]) = 100 \<and> spread decimal20 100 [1, 0, 1, 1] ! 1 = 0"
  using spread_hands_out [OF decimal20_package, of 100 "[1, 0, 1, 1]"]
  by (simp add: spreadable_def)

text \<open>
  C25: the payable adds up. For a step of rounding in paise, what the supplier is paid is the taxable value, the
  tax, the charges after tax with their tax and the tax collected at source, plus the round-off; it is a whole
  multiple of the step, and the round-off is at most half a step.
\<close>

theorem calcPurchase_payable:
  assumes "decimal_package J" and "bill_size (calcPurchase J input) \<le> 10 ^ 12" and "or_else (ci_roundOffStep input) 1 = step"
    and "0 < step" and "paise step" and "step \<le> 1000"
  shows "ot_netPayable (calcPurchase J input) = ot_taxable (calcPurchase J input) + ot_cgst (calcPurchase J input) +
      ot_sgst (calcPurchase J input) + ot_igst (calcPurchase J input) + ot_cess (calcPurchase J input) +
      after_tax input (calcPurchase J input) + ot_chargeTax (calcPurchase J input) + ot_tcs (calcPurchase J input) +
      ot_roundOff (calcPurchase J input) \<and>
    (\<exists>n :: int. ot_netPayable (calcPurchase J input) = of_int n * step) \<and> \<bar>ot_roundOff (calcPurchase J input)\<bar> \<le> step / 2"
  using decimal_package.payable_exact [OF assms] by (simp add: bill_total_def)

theorem calcPurchase_payable_witness:
  "(\<exists>n :: int. ot_netPayable (calcPurchase decimal20 (sample_doc None)) = of_int n * 5) \<and>
   \<bar>ot_roundOff (calcPurchase decimal20 (sample_doc None))\<bar> \<le> 5 / 2"
proof -
  have "or_else (ci_roundOffStep (sample_doc None)) 1 = 5" by (simp add: sample_doc_def)
  from calcPurchase_payable [OF decimal20_package sample_sizes(1) this, THEN conjunct2] show ?thesis by simp
qed

text \<open>
  C26: the input credit. The eligible, pending and ineligible credit of a line are exactly its tax, or nothing for a line that is billed
  for nothing; the credits of the bill are its tax and the tax of its charges, less the tax of lines that are billed for nothing.
\<close>

theorem calcPurchase_credit:
  assumes "decimal_package J" and "bill_size (calcPurchase J input) \<le> 10 ^ 12"
    and "sum_list (map credit_size (ot_lines (calcPurchase J input))) \<le> 10 ^ 12"
  shows "list_all2 (\<lambda>x l. lo_itcEligible l + lo_itcPending l + lo_itcIneligible l =
      (if cl_billedQty x = 0 then 0 else tp_cgst (lo_tax l) + tp_sgst (lo_tax l) + tp_igst (lo_tax l) + lo_cess l))
      (ci_lines input) (ot_lines (calcPurchase J input)) \<and>
    ot_itcEligible (calcPurchase J input) + ot_itcPending (calcPurchase J input) + ot_itcIneligible (calcPurchase J input) =
      ot_cgst (calcPurchase J input) + ot_sgst (calcPurchase J input) + ot_igst (calcPurchase J input) +
      ot_cess (calcPurchase J input) + ot_chargeTax (calcPurchase J input) - uncredited input (calcPurchase J input)"
  using decimal_package.credit_lines [OF assms, unfolded credited_tax_def line_tax_def] decimal_package.credit_bill_tax [OF assms] by blast

theorem calcPurchase_credit_witness:
  "ot_itcEligible (calcPurchase decimal20 (sample_doc None)) + ot_itcPending (calcPurchase decimal20 (sample_doc None)) +
     ot_itcIneligible (calcPurchase decimal20 (sample_doc None)) =
   ot_cgst (calcPurchase decimal20 (sample_doc None)) + ot_sgst (calcPurchase decimal20 (sample_doc None)) +
     ot_igst (calcPurchase decimal20 (sample_doc None)) + ot_cess (calcPurchase decimal20 (sample_doc None)) +
     ot_chargeTax (calcPurchase decimal20 (sample_doc None)) - uncredited (sample_doc None) (calcPurchase decimal20 (sample_doc None))"
  using calcPurchase_credit [OF decimal20_package sample_sizes] by blast

text \<open>
  C29: a composition or unregistered supplier charges no tax: no line and no charge of the document has tax, and
  there is no credit on it.
\<close>

theorem calcPurchase_no_tax:
  assumes "decimal_package J" and "noTaxSupplier input"
  shows "list_all (\<lambda>l. lo_tax l = no_tax \<and> lo_cess l = 0) (ot_lines (calcPurchase J input)) \<and>
    list_all (\<lambda>k. ko_tax k = no_tax) (ot_charges (calcPurchase J input)) \<and>
    ot_cgst (calcPurchase J input) = 0 \<and> ot_sgst (calcPurchase J input) = 0 \<and> ot_igst (calcPurchase J input) = 0 \<and>
    ot_cess (calcPurchase J input) = 0 \<and> ot_chargeTax (calcPurchase J input) = 0 \<and> ot_itcEligible (calcPurchase J input) = 0 \<and>
    ot_itcPending (calcPurchase J input) = 0 \<and> ot_itcIneligible (calcPurchase J input) = 0"
  using decimal_package.no_tax_bill [OF assms] by simp

theorem calcPurchase_no_tax_witness:
  "ot_cgst (calcPurchase decimal20 (sample_doc (Some COMPOSITION))) = 0 \<and> ot_chargeTax (calcPurchase decimal20 (sample_doc (Some COMPOSITION))) = 0"
  using calcPurchase_no_tax [OF decimal20_package, of "sample_doc (Some COMPOSITION)"] by (simp add: noTaxSupplier_def sample_doc_def)

text \<open>
  C27: the charges land. In a document whose lines have keys of their own and whose charges are spread by weights that are not negative,
  what the lines carry of the charges before tax, after tax and off the bill is what those charges come to, but for a charge that no line
  has a weight or a net gross for, which lands nowhere; and the taxable value of a line is its net gross and its share of the charges
  before tax.
\<close>

theorem calcPurchase_charges_land:
  assumes "decimal_package J" and "charges_land J input"
  shows "sum_list (map lo_chrgBeforeTax (ot_lines (calcPurchase J input))) = landed J input (\<lambda>c. cc_onBill c \<and> cc_beforeTax c) \<and>
    sum_list (map lo_chrgAfterTax (ot_lines (calcPurchase J input))) = landed J input (\<lambda>c. cc_onBill c \<and> \<not> cc_beforeTax c) \<and>
    sum_list (map lo_offbillShare (ot_lines (calcPurchase J input))) = landed J input (\<lambda>c. \<not> cc_onBill c) \<and>
    (\<forall>l\<in>set (ot_lines (calcPurchase J input)). \<bar>lo_netGross l\<bar> \<le> 10 ^ 12 \<longrightarrow> lo_taxable l = lo_netGross l + lo_chrgBeforeTax l)"
  using decimal_package.charges_on_lines [OF assms] by simp

lemma sample_lands: "charges_land decimal20 (sample_doc None)"
proof -
  have "list_all (charge_lands decimal20 [sample_base ''a'' 10 8 20 0, sample_base ''b'' 30 20 10 50]) (ci_charges (sample_doc None))"
    by (simp add: item_defs sample_base_def charge_lands_def charge_lines_def charge_signed_def charge_amount_def charge_weights_def
        alloc_weight_def spreadable_def d20_purchase)
  then show ?thesis unfolding charges_land_def sample_bases by (simp add: sample_doc_def sample_item_def)
qed

lemma sample_landed:
  "landed decimal20 (sample_doc None) goes = sum_list (map (\<lambda>(c, k). ko_amount k)
     (filter (\<lambda>(c, k). goes c) (zip (ci_charges (sample_doc None)) (ot_charges (calcPurchase decimal20 (sample_doc None))))))"
proof -
  have "\<forall>c \<in> set (ci_charges (sample_doc None)). charge_weighed decimal20 [sample_base ''a'' 10 8 20 0, sample_base ''b'' 30 20 10 50] c"
    by (simp add: item_defs sample_base_def charge_weighed_def charge_lines_def charge_weights_def alloc_weight_def)
  then have "filter (\<lambda>(c, k). goes c \<and> charge_weighed decimal20 [sample_base ''a'' 10 8 20 0, sample_base ''b'' 30 20 10 50] c) ps =
      filter (\<lambda>(c, k). goes c) ps" if "fst ` set ps \<subseteq> set (ci_charges (sample_doc None))" for ps :: "(calc_charge_in \<times> calc_charge_out) list"
    using that by (intro filter_cong refl) auto
  from this [of "zip (ci_charges (sample_doc None)) (ot_charges (calcPurchase decimal20 (sample_doc None)))"]
  show ?thesis unfolding landed_def sample_bases using set_zip_leftD by fastforce
qed

theorem calcPurchase_charges_land_witness:
  "sum_list (map lo_chrgBeforeTax (ot_lines (calcPurchase decimal20 (sample_doc None)))) = 400 \<and>
   sum_list (map lo_offbillShare (ot_lines (calcPurchase decimal20 (sample_doc None)))) = 800"
  using calcPurchase_charges_land [OF decimal20_package sample_lands]
  by (simp add: calc_run(2) [OF sample_doc_run] sample_landed) (simp add: sample_doc_def sample_charge_def)

text \<open>
  C28: the tax by rate is the tax of the document. For rates of at most six places the rows are, for each rate a line or a taxed charge has,
  in order of the rates, the taxable value and the taxes of what is taxed at that rate and their total, rates with nothing on them left
  out. The taxable values of the rows add up to those of the lines and of the taxed charges, and their taxes to the tax and the charge tax
  of the bill.
\<close>

theorem gstBreakup_of_calc:
  assumes "decimal_text J" and "bill_size (calcPurchase J input) \<le> 10 ^ 12"
    and "list_all (\<lambda>l. on_grid 6 (dec (cl_gstPct l))) (ci_lines input)" and "list_all (\<lambda>c. on_grid 6 (dec (cc_taxPct c))) (ci_charges input)"
  shows "gstBreakup J (calcGstPieces input (calcPurchase J input)) = rate_rows (calcGstPieces input (calcPurchase J input)) \<and>
    sum_list (map (\<lambda>r. br_cgst r + br_sgst r + br_igst r + br_cess r) (gstBreakup J (calcGstPieces input (calcPurchase J input)))) =
      ot_cgst (calcPurchase J input) + ot_sgst (calcPurchase J input) + ot_igst (calcPurchase J input) +
      ot_cess (calcPurchase J input) + ot_chargeTax (calcPurchase J input) \<and>
    sum_list (map br_taxable (gstBreakup J (calcGstPieces input (calcPurchase J input)))) = ot_taxable (calcPurchase J input) +
      sum_list (map (\<lambda>(c, k). ko_amount k) (filter (\<lambda>(c, k). taxed_charge input c) (zip (ci_charges input) (ot_charges (calcPurchase J input)))))"
  using decimal_text.gstBreakup_rates [OF assms(1) decimal_text.calc_pieces_small [OF assms]]
    decimal_package.breakup_bill(3,4) [OF decimal_text.axioms(1) [OF assms(1)] assms(2)] by blast

text \<open>The rows of the sample document: 3300 at 10, 100 of packing at 18, 1100 at 20.\<close>

lemma sample_pieces: "calcGstPieces (sample_doc None) (calcPurchase decimal20 (sample_doc None)) =
  [\<lparr> gp_gstPct = 20, gp_taxable = 1100, gp_tax = \<lparr> tp_cgst = 110, tp_sgst = 110, tp_igst = 0 \<rparr>, gp_cess = Some 0 \<rparr>,
   \<lparr> gp_gstPct = 10, gp_taxable = 3300, gp_tax = \<lparr> tp_cgst = 165, tp_sgst = 165, tp_igst = 0 \<rparr>, gp_cess = Some 0 \<rparr>,
   \<lparr> gp_gstPct = 18, gp_taxable = 100, gp_tax = \<lparr> tp_cgst = 9, tp_sgst = 9, tp_igst = 0 \<rparr>, gp_cess = Some 0 \<rparr>]"
proof -
  have rate: "lo_gstPct (line_out J input m b) = (if line_taxed b then dec (cl_gstPct (lb_line b)) else 0)" for J input m b
    by (simp add: line_out_def Let_def split_def)
  note run = calc_run [OF sample_doc_run]
  have "calcGstPieces (sample_doc None) (calcPurchase decimal20 (sample_doc None)) =
    map (\<lambda>l. \<lparr> gp_gstPct = lo_gstPct l, gp_taxable = lo_taxable l, gp_tax = lo_tax l, gp_cess = Some (lo_cess l) \<rparr>)
      (ot_lines (calcPurchase decimal20 (sample_doc None))) @
    [\<lparr> gp_gstPct = 18, gp_taxable = 100, gp_tax = \<lparr> tp_cgst = 9, tp_sgst = 9, tp_igst = 0 \<rparr>, gp_cess = Some 0 \<rparr>]"
    unfolding calcGstPieces_def run(2) by (simp add: item_defs noTaxSupplier_def)
  then show ?thesis unfolding run(1) sample_bases
    by (simp add: sample_line_taxes rate) (simp add: sample_base_def item_defs line_taxed_def)
qed

theorem gstBreakup_of_calc_witness:
  "map (\<lambda>r. (br_gstPct r, br_taxable r, br_total r)) (gstBreakup decimal20 (calcGstPieces (sample_doc None) (calcPurchase decimal20 (sample_doc None)))) =
    [(10, 3300, 3630), (18, 100, 118), (20, 1100, 1320)]"
proof -
  have grid: "on_grid 6 (of_int k :: rat)" for k using on_grid_of_int by blast
  have rates: "list_all (\<lambda>l. on_grid 6 (dec (cl_gstPct l))) (ci_lines (sample_doc None))"
    "list_all (\<lambda>c. on_grid 6 (dec (cc_taxPct c))) (ci_charges (sample_doc None))"
    using grid [of 20] grid [of 10] grid [of 18] grid [of 0] by (simp_all add: item_defs)
  show ?thesis
    using gstBreakup_of_calc [OF decimal20_text sample_sizes(1) rates, THEN conjunct1]
    by (simp add: sample_pieces rate_rows_def rate_row_def rate_sums_def of_rate_def row_empty_def dec_def)
qed

end
