(* ===== verification/Settlement_Match.thy ===== *)
theory Settlement_Match
  imports Js_Date Decimal_Js
begin

text \<open>
  \<open>accountsModule/tenderSettlement/settlement-match.ts\<close>: a provider's statement lines matched to tender rows, by
  reference, by approval code, and by amount and time. The set of used rows and the map of verdicts are the
  state the three passes thread; a row is held as \<open>kind|tdId\<close>.
\<close>

section \<open>Lines, candidates, verdicts\<close>

datatype line_kind = SALE | REFUND | CHARGEBACK | FEE | ADJUSTMENT

datatype match_status = UNMATCHED | SUGGESTED | MATCHED | IGNORED | RESOLVED

datatype match_rule = RULE_REF | RULE_AUTH | RULE_AMOUNT_TIME | RULE_MANUAL

datatype row_side = ROW_DR | ROW_CR

datatype settle_status = NA | PENDING | PARTIAL | SETTLED | FAILED

definition kind_text :: "line_kind \<Rightarrow> string" where
  "kind_text k = (case k of SALE \<Rightarrow> ''SALE'' | REFUND \<Rightarrow> ''REFUND'' | CHARGEBACK \<Rightarrow> ''CHARGEBACK'' | FEE \<Rightarrow> ''FEE'' | ADJUSTMENT \<Rightarrow> ''ADJUSTMENT'')"

record match_line =
  ml_aslId :: string
  ml_kind :: line_kind
  ml_tenderId :: "string option"
  ml_refNo :: "string option"
  ml_authCode :: "string option"
  ml_cardLast4 :: "string option"
  ml_gross :: rat
  ml_txnOn :: "int option"

record match_candidate =
  mc_tdId :: string
  mc_tdAccYear :: string
  mc_tenderId :: string
  mc_drCr :: row_side
  mc_settleStatus :: settle_status
  mc_refNo :: "string option"
  mc_authCode :: "string option"
  mc_cardLast4 :: "string option"
  mc_amount :: rat
  mc_docDate :: string
  mc_createdOn :: int

record match_verdict =
  mv_aslId :: string
  mv_status :: match_status
  mv_rule :: "match_rule option"
  mv_tdId :: "string option"
  mv_tdAccYear :: "string option"
  mv_diff :: rat

record match_options =
  mo_tolerance :: rat
  mo_windowMinutes :: int
  mo_taken :: "string list"

section \<open>Judging one row\<close>

definition isCustomerKind :: "line_kind \<Rightarrow> bool" where
  "isCustomerKind k \<longleftrightarrow> k = SALE \<or> k = REFUND \<or> k = CHARGEBACK"

definition kindTakes :: "line_kind \<Rightarrow> match_candidate \<Rightarrow> bool" where
  "kindTakes k c = (case k of
     SALE \<Rightarrow> mc_drCr c = ROW_DR \<and> (mc_settleStatus c = PENDING \<or> mc_settleStatus c = PARTIAL)
   | REFUND \<Rightarrow> mc_drCr c = ROW_CR \<and> (mc_settleStatus c = PENDING \<or> mc_settleStatus c = PARTIAL)
   | CHARGEBACK \<Rightarrow> mc_drCr c = ROW_DR \<and> (mc_settleStatus c = SETTLED \<or> mc_settleStatus c = PARTIAL)
   | _ \<Rightarrow> False)"

definition held_key :: "match_line \<Rightarrow> match_candidate \<Rightarrow> string" where
  "held_key l c = kind_text (ml_kind l) @ ''|'' @ mc_tdId c"

definition eligible :: "string list \<Rightarrow> match_line \<Rightarrow> match_candidate \<Rightarrow> bool" where
  "eligible used l c \<longleftrightarrow> ml_tenderId l = Some (mc_tenderId c) \<and> held_key l c \<notin> set used \<and> kindTakes (ml_kind l) c"

definition off_by :: "decimal_js \<Rightarrow> match_line \<Rightarrow> match_candidate \<Rightarrow> rat" where
  "off_by J l c = \<bar>d_minus J (ml_gross l) (mc_amount c)\<bar>"

text \<open>The smaller difference, then the earlier row, then the order given.\<close>

definition closest :: "decimal_js \<Rightarrow> match_line \<Rightarrow> match_candidate list \<Rightarrow> match_candidate option" where
  "closest J l hits = (case sort_key (\<lambda>c. (off_by J l c, mc_createdOn c)) hits of [] \<Rightarrow> None | c # _ \<Rightarrow> Some c)"

definition withinDays :: "int \<Rightarrow> string \<Rightarrow> int \<Rightarrow> bool" where
  "withinDays on docDate days = (case ist_midnight docDate of None \<Rightarrow> False
     | Some doc \<Rightarrow> doc - days * DAY_MS \<le> on \<and> on < doc + (days + 1) * DAY_MS)"

definition folded :: "string \<Rightarrow> string" where
  "folded s = toUpperCase (js_trim s)"

definition ref_hit :: "decimal_js \<Rightarrow> match_options \<Rightarrow> match_line \<Rightarrow> match_candidate \<Rightarrow> bool" where
  "ref_hit J opts l c \<longleftrightarrow> map_option folded (mc_refNo c) = map_option folded (ml_refNo l) \<and> off_by J l c \<le> mo_tolerance opts"

definition auth_hit :: "match_line \<Rightarrow> match_candidate \<Rightarrow> bool" where
  "auth_hit l c \<longleftrightarrow> map_option folded (mc_authCode c) = map_option folded (ml_authCode l) \<and> mc_cardLast4 c = ml_cardLast4 l \<and>
     mc_amount c = ml_gross l \<and> (case ml_txnOn l of None \<Rightarrow> True | Some t \<Rightarrow> withinDays t (mc_docDate c) 1)"

definition window_ms :: "match_options \<Rightarrow> int" where
  "window_ms opts = max 0 (mo_windowMinutes opts) * 60000"

definition time_hit :: "match_options \<Rightarrow> match_line \<Rightarrow> match_candidate \<Rightarrow> bool" where
  "time_hit opts l c \<longleftrightarrow> mc_amount c = ml_gross l \<and> (case ml_txnOn l of None \<Rightarrow> False | Some t \<Rightarrow> \<bar>mc_createdOn c - t\<bar> \<le> window_ms opts)"

section \<open>The passes\<close>

type_synonym verdicts = "(string \<times> match_verdict) list"
type_synonym match_state = "string list \<times> verdicts"

definition take_row :: "decimal_js \<Rightarrow> match_line \<Rightarrow> match_candidate \<Rightarrow> match_rule \<Rightarrow> match_status \<Rightarrow> match_state \<Rightarrow> match_state" where
  "take_row J l c rule status st = (case st of (used, vs) \<Rightarrow>
     (List.insert (held_key l c) used,
      jmap_set (ml_aslId l) \<lparr> mv_aslId = ml_aslId l, mv_status = status, mv_rule = Some rule, mv_tdId = Some (mc_tdId c),
        mv_tdAccYear = Some (mc_tdAccYear c), mv_diff = d_minus J (ml_gross l) (mc_amount c) \<rparr> vs))"

definition ref_step :: "decimal_js \<Rightarrow> match_options \<Rightarrow> match_candidate list \<Rightarrow> match_line \<Rightarrow> match_state \<Rightarrow> match_state" where
  "ref_step J opts cands l st =
     (if \<not> truthy (ml_refNo l) then st
      else (case closest J l (filter (\<lambda>c. eligible (fst st) l c \<and> ref_hit J opts l c) cands) of
          None \<Rightarrow> st | Some best \<Rightarrow> take_row J l best RULE_REF MATCHED st))"

definition auth_step :: "decimal_js \<Rightarrow> match_candidate list \<Rightarrow> match_line \<Rightarrow> match_state \<Rightarrow> match_state" where
  "auth_step J cands l st =
     (if jmap_get (snd st) (ml_aslId l) \<noteq> None \<or> \<not> truthy (ml_authCode l) \<or> \<not> truthy (ml_cardLast4 l) then st
      else (case closest J l (filter (\<lambda>c. eligible (fst st) l c \<and> auth_hit l c) cands) of
          None \<Rightarrow> st | Some best \<Rightarrow> take_row J l best RULE_AUTH MATCHED st))"

text \<open>The open lines with the rows each could take, and how many lines claim a row.\<close>

definition open_lines :: "match_line list \<Rightarrow> match_state \<Rightarrow> match_line list" where
  "open_lines lines st = filter (\<lambda>l. jmap_get (snd st) (ml_aslId l) = None \<and> ml_txnOn l \<noteq> None) lines"

definition time_options :: "match_options \<Rightarrow> match_candidate list \<Rightarrow> match_line list \<Rightarrow> match_state \<Rightarrow> (string \<times> match_candidate list) list" where
  "time_options opts cands waiting st = foldl (\<lambda>m l. jmap_set (ml_aslId l) (filter (\<lambda>c. eligible (fst st) l c \<and> time_hit opts l c) cands) m) [] waiting"

definition claims_of :: "(string \<times> match_candidate list) list \<Rightarrow> string \<Rightarrow> nat" where
  "claims_of m td = length (filter (\<lambda>c. mc_tdId c = td) (concat (map snd m)))"

definition time_step :: "decimal_js \<Rightarrow> (string \<times> match_candidate list) list \<Rightarrow> match_line \<Rightarrow> match_state \<Rightarrow> match_state" where
  "time_step J m l st = (case or_else (jmap_get m (ml_aslId l)) [] of
     [c] \<Rightarrow> (if claims_of m (mc_tdId c) = 1 \<and> eligible (fst st) l c then take_row J l c RULE_AMOUNT_TIME SUGGESTED st else st)
   | _ \<Rightarrow> st)"

definition customer_lines :: "match_line list \<Rightarrow> match_line list" where
  "customer_lines lines = filter (\<lambda>l. isCustomerKind (ml_kind l) \<and> truthy (ml_tenderId l)) lines"

definition unmatched :: "match_line \<Rightarrow> match_verdict" where
  "unmatched l = \<lparr> mv_aslId = ml_aslId l, mv_status = UNMATCHED, mv_rule = None, mv_tdId = None, mv_tdAccYear = None, mv_diff = 0 \<rparr>"

definition matchLines :: "decimal_js \<Rightarrow> match_line list \<Rightarrow> match_candidate list \<Rightarrow> match_options \<Rightarrow> match_verdict list" where
  "matchLines J lines cands opts =
     (let customers = customer_lines lines;
          st1 = fold (ref_step J opts cands) customers (remdups (mo_taken opts), []);
          st2 = fold (auth_step J cands) customers st1;
          waiting = open_lines customers st2;
          m = time_options opts cands waiting st2;
          st3 = fold (time_step J m) waiting st2
      in map (\<lambda>l. or_else (jmap_get (snd st3) (ml_aslId l)) (unmatched l)) lines)"

section \<open>What a verdict means\<close>

text \<open>The row a line takes under a rule.\<close>

definition takes_by :: "decimal_js \<Rightarrow> match_options \<Rightarrow> match_rule \<Rightarrow> match_line \<Rightarrow> match_candidate \<Rightarrow> bool" where
  "takes_by J opts rule l c \<longleftrightarrow> ml_tenderId l = Some (mc_tenderId c) \<and> kindTakes (ml_kind l) c \<and>
     (case rule of RULE_REF \<Rightarrow> ref_hit J opts l c | RULE_AUTH \<Rightarrow> auth_hit l c | RULE_AMOUNT_TIME \<Rightarrow> time_hit opts l c | RULE_MANUAL \<Rightarrow> False)"

definition verdict_ok :: "decimal_js \<Rightarrow> match_options \<Rightarrow> match_candidate list \<Rightarrow> match_line \<Rightarrow> match_verdict \<Rightarrow> bool" where
  "verdict_ok J opts cands l v \<longleftrightarrow> (\<exists>rule. \<exists>c\<in>set cands. takes_by J opts rule l c \<and>
     v = \<lparr> mv_aslId = ml_aslId l, mv_status = (if rule = RULE_AMOUNT_TIME then SUGGESTED else MATCHED), mv_rule = Some rule,
       mv_tdId = Some (mc_tdId c), mv_tdAccYear = Some (mc_tdAccYear c), mv_diff = d_minus J (ml_gross l) (mc_amount c) \<rparr>)"

definition line_key :: "match_line \<Rightarrow> match_verdict \<Rightarrow> string" where
  "line_key l v = kind_text (ml_kind l) @ ''|'' @ the (mv_tdId v)"

text \<open>The state of the passes: every verdict is sound, its row is held and was free at the start, no two lines hold
  one row, and a row is held only since the start or by a line.\<close>

definition match_inv :: "decimal_js \<Rightarrow> match_options \<Rightarrow> match_candidate list \<Rightarrow> match_line list \<Rightarrow> match_state \<Rightarrow> bool" where
  "match_inv J opts cands lines st \<longleftrightarrow> set (mo_taken opts) \<subseteq> set (fst st) \<and>
     (\<forall>l\<in>set lines. \<forall>v. jmap_get (snd st) (ml_aslId l) = Some v \<longrightarrow>
        verdict_ok J opts cands l v \<and> line_key l v \<in> set (fst st) \<and> line_key l v \<notin> set (mo_taken opts)) \<and>
     (\<forall>l\<in>set lines. \<forall>l'\<in>set lines. \<forall>v v'. jmap_get (snd st) (ml_aslId l) = Some v \<longrightarrow> jmap_get (snd st) (ml_aslId l') = Some v' \<longrightarrow>
        line_key l v = line_key l' v' \<longrightarrow> ml_aslId l = ml_aslId l') \<and>
     (\<forall>k\<in>set (fst st). k \<in> set (mo_taken opts) \<or> (\<exists>l\<in>set lines. \<exists>v. jmap_get (snd st) (ml_aslId l) = Some v \<and> line_key l v = k))"

lemma take_row_inv:
  assumes "match_inv J opts cands lines st" and "distinct (map ml_aslId lines)" and "l \<in> set lines" and "c \<in> set cands"
    and "jmap_get (snd st) (ml_aslId l) = None" and "eligible (fst st) l c" and "takes_by J opts rule l c" and "status = (if rule = RULE_AMOUNT_TIME then SUGGESTED else MATCHED)"
  shows "match_inv J opts cands lines (take_row J l c rule status st)"
proof -
  obtain used vs where st: "st = (used, vs)" by fastforce
  let ?v = "\<lparr> mv_aslId = ml_aslId l, mv_status = status, mv_rule = Some rule, mv_tdId = Some (mc_tdId c),
        mv_tdAccYear = Some (mc_tdAccYear c), mv_diff = d_minus J (ml_gross l) (mc_amount c) \<rparr>"
  have same: "l' = l" if "l' \<in> set lines" "ml_aslId l' = ml_aslId l" for l'
    using that assms(2,3) by (auto simp: distinct_map dest: inj_onD)
  have new: "verdict_ok J opts cands l ?v" "line_key l ?v = held_key l c" using assms(4,7,8)
    by (auto simp: verdict_ok_def line_key_def held_key_def)
  have free: "held_key l c \<notin> set used" using assms(6) by (simp add: eligible_def st)
  note inv = assms(1) [unfolded match_inv_def st fst_conv snd_conv]
  have taken: "held_key l c \<notin> set (mo_taken opts)" using free inv by blast
  have get: "jmap_get (jmap_set (ml_aslId l) ?v vs) a = (if a = ml_aslId l then Some ?v else jmap_get vs a)" for a
    by (simp add: update_conv')
  show ?thesis
    unfolding match_inv_def take_row_def st prod.case fst_conv snd_conv get
  proof (intro conjI ballI allI impI)
    show "set (mo_taken opts) \<subseteq> set (List.insert (held_key l c) used)" using inv by auto
  next
    fix l' v assume l': "l' \<in> set lines" and v: "(if ml_aslId l' = ml_aslId l then Some ?v else jmap_get vs (ml_aslId l')) = Some v"
    show "verdict_ok J opts cands l' v" "line_key l' v \<in> set (List.insert (held_key l c) used)" "line_key l' v \<notin> set (mo_taken opts)"
      using l' v same [OF l'] new taken inv by (auto split: if_splits)
  next
    fix l1 l2 v1 v2
    assume l: "l1 \<in> set lines" "l2 \<in> set lines" and v1: "(if ml_aslId l1 = ml_aslId l then Some ?v else jmap_get vs (ml_aslId l1)) = Some v1"
      and v2: "(if ml_aslId l2 = ml_aslId l then Some ?v else jmap_get vs (ml_aslId l2)) = Some v2" and key: "line_key l1 v1 = line_key l2 v2"
    show "ml_aslId l1 = ml_aslId l2"
      using l v1 v2 key same [OF l(1)] same [OF l(2)] new(2) free inv by (auto split: if_splits)
  next
    fix k assume "k \<in> set (List.insert (held_key l c) used)"
    then consider "k = held_key l c" | "k \<in> set used" by auto
    then show "k \<in> set (mo_taken opts) \<or> (\<exists>l'\<in>set lines. \<exists>v. (if ml_aslId l' = ml_aslId l then Some ?v else jmap_get vs (ml_aslId l')) = Some v \<and> line_key l' v = k)"
    proof cases
      case 1
      then show ?thesis using new(2) assms(3) by (intro disjI2 bexI [of _ l]) simp_all
    next
      case 2
      with inv consider "k \<in> set (mo_taken opts)" | l' v where "l' \<in> set lines" "jmap_get vs (ml_aslId l') = Some v" "line_key l' v = k" by blast
      then show ?thesis
      proof cases
        case 2
        then have "ml_aslId l' \<noteq> ml_aslId l" using assms(5) by (auto simp: st)
        with 2 show ?thesis by (intro disjI2 bexI [of _ l'] exI [of _ v]) simp_all
      qed simp
    qed
  qed
qed

lemma closest_member: "closest J l hits = Some c \<Longrightarrow> c \<in> set hits"
  by (auto simp: closest_def split: list.splits dest: arg_cong [of _ _ set])

lemma closest_None: "closest J l hits = None \<longleftrightarrow> hits = []"
  by (auto simp: closest_def split: list.splits dest: arg_cong [of _ _ set])

text \<open>What one step of a pass does: nothing, or the line takes a row.\<close>

definition pass_step :: "decimal_js \<Rightarrow> match_options \<Rightarrow> match_candidate list \<Rightarrow> match_line \<Rightarrow> match_state \<Rightarrow> match_state \<Rightarrow> bool" where
  "pass_step J opts cands l st st' \<longleftrightarrow> st' = st \<or> (\<exists>c\<in>set cands. \<exists>rule. eligible (fst st) l c \<and> takes_by J opts rule l c \<and>
     st' = take_row J l c rule (if rule = RULE_AMOUNT_TIME then SUGGESTED else MATCHED) st)"

lemma ref_pass_step: "pass_step J opts cands l st (ref_step J opts cands l st)"
proof (cases "closest J l (filter (\<lambda>c. eligible (fst st) l c \<and> ref_hit J opts l c) cands)")
  case (Some c)
  then have "c \<in> set cands" "eligible (fst st) l c" "ref_hit J opts l c" by (auto dest!: closest_member)
  then have "takes_by J opts RULE_REF l c" by (simp add: takes_by_def eligible_def)
  then show ?thesis using Some \<open>c \<in> set cands\<close> \<open>eligible (fst st) l c\<close>
    by (auto simp: pass_step_def ref_step_def intro!: bexI [of _ c] exI [of _ RULE_REF])
qed (simp add: pass_step_def ref_step_def)

lemma auth_pass_step: "pass_step J opts cands l st (auth_step J cands l st)"
proof (cases "closest J l (filter (\<lambda>c. eligible (fst st) l c \<and> auth_hit l c) cands)")
  case (Some c)
  then have "c \<in> set cands" "eligible (fst st) l c" "auth_hit l c" by (auto dest!: closest_member)
  then have "takes_by J opts RULE_AUTH l c" by (simp add: takes_by_def eligible_def)
  then show ?thesis using Some \<open>c \<in> set cands\<close> \<open>eligible (fst st) l c\<close>
    by (auto simp: pass_step_def auth_step_def intro!: bexI [of _ c] exI [of _ RULE_AUTH])
qed (simp add: pass_step_def auth_step_def)

lemma time_options_get:
  assumes "distinct (map ml_aslId ls)"
  shows "jmap_get (foldl (\<lambda>m l. jmap_set (ml_aslId l) (F l) m) m0 ls) a =
    (case find (\<lambda>l. ml_aslId l = a) ls of None \<Rightarrow> jmap_get m0 a | Some l \<Rightarrow> Some (F l))"
  using assms
proof (induction ls arbitrary: m0)
  case (Cons l ls)
  have "find (\<lambda>x. ml_aslId x = ml_aslId l) ls = None" 
    unfolding find_None_iff using Cons.prems by (auto simp: image_iff)
  then show ?case using Cons by (auto simp: update_conv' split: option.split)
qed simp

lemma time_pass_step:
  assumes "distinct (map ml_aslId ls)" and "l \<in> set ls"
  shows "pass_step J opts cands l st (time_step J (time_options opts cands ls st0) l st)"
proof -
  let ?hits = "filter (\<lambda>c. eligible (fst st0) l c \<and> time_hit opts l c) cands"
  have "find (\<lambda>x. ml_aslId x = ml_aslId l) ls = Some l"
    using assms by (induction ls) auto
  then have get: "jmap_get (time_options opts cands ls st0) (ml_aslId l) = Some ?hits"
    by (simp add: time_options_def time_options_get [OF assms(1)])
  show ?thesis
  proof (cases "\<exists>c. ?hits = [c] \<and> claims_of (time_options opts cands ls st0) (mc_tdId c) = 1 \<and> eligible (fst st) l c")
    case True
    then obtain c where c: "?hits = [c]" "claims_of (time_options opts cands ls st0) (mc_tdId c) = 1" "eligible (fst st) l c" by blast
    then have "c \<in> set ?hits" by simp
    then have "c \<in> set cands" "takes_by J opts RULE_AMOUNT_TIME l c" using c(3) by (auto simp: takes_by_def eligible_def)
    moreover have "time_step J (time_options opts cands ls st0) l st = take_row J l c RULE_AMOUNT_TIME SUGGESTED st"
      by (simp only: time_step_def get or_else_simps c(1) list.case) (simp add: c(2,3))
    ultimately show ?thesis using c(3) unfolding pass_step_def by (intro disjI2 bexI [of _ c] exI [of _ RULE_AMOUNT_TIME]) simp_all
  next
    case False
    then have "time_step J (time_options opts cands ls st0) l st = st"
      by (auto simp: time_step_def get split: list.splits)
    then show ?thesis by (simp add: pass_step_def)
  qed
qed

text \<open>A pass over lines without a verdict, each once, keeps the invariant.\<close>

lemma pass_inv:
  assumes "distinct (map ml_aslId lines)" and "\<And>l st. l \<in> set ls \<Longrightarrow> pass_step J opts cands l st (f l st)"
    and "match_inv J opts cands lines st" and "set ls \<subseteq> set lines" and "distinct (map ml_aslId ls)"
    and "\<forall>l\<in>set ls. jmap_get (snd st) (ml_aslId l) = None \<or> (\<forall>st. jmap_get (snd st) (ml_aslId l) \<noteq> None \<longrightarrow> f l st = st)"
  shows "match_inv J opts cands lines (fold f ls st)"
  using assms(2-)
proof (induction ls arbitrary: st)
  case (Cons l ls)
  have "match_inv J opts cands lines (f l st) \<and> (\<forall>a. a \<noteq> ml_aslId l \<longrightarrow> jmap_get (snd (f l st)) a = jmap_get (snd st) a)"
  proof (cases "f l st = st")
    case False
    with Cons.prems(1) [of l st] obtain c rule where c: "c \<in> set cands" "eligible (fst st) l c" "takes_by J opts rule l c"
      and f: "f l st = take_row J l c rule (if rule = RULE_AMOUNT_TIME then SUGGESTED else MATCHED) st" by (auto simp: pass_step_def)
    have "jmap_get (snd st) (ml_aslId l) = None" using Cons.prems(5) False by (meson list.set_intros(1))
    then have "match_inv J opts cands lines (f l st)" unfolding f
      by (intro take_row_inv [OF Cons.prems(2) assms(1) _ c(1) _ c(2,3) refl]) (use Cons.prems(3) in auto)
    then show ?thesis by (auto simp: f take_row_def update_conv' split: prod.split)
  qed (simp add: Cons.prems(2))
  moreover have "ml_aslId l' \<noteq> ml_aslId l" if "l' \<in> set ls" for l' using Cons.prems(4) that by (auto simp: image_iff)
  ultimately have "match_inv J opts cands lines (fold f ls (f l st))"
    using Cons.prems(1,3-5) by (intro Cons.IH) simp_all
  then show ?case by simp
qed simp

lemma match_start: "match_inv J opts cands lines (remdups (mo_taken opts), [])"
  by (auto simp: match_inv_def)

definition after_ref :: "decimal_js \<Rightarrow> match_line list \<Rightarrow> match_candidate list \<Rightarrow> match_options \<Rightarrow> match_state" where
  "after_ref J lines cands opts = fold (ref_step J opts cands) (customer_lines lines) (remdups (mo_taken opts), [])"

definition after_auth :: "decimal_js \<Rightarrow> match_line list \<Rightarrow> match_candidate list \<Rightarrow> match_options \<Rightarrow> match_state" where
  "after_auth J lines cands opts = fold (auth_step J cands) (customer_lines lines) (after_ref J lines cands opts)"

definition after_time :: "decimal_js \<Rightarrow> match_line list \<Rightarrow> match_candidate list \<Rightarrow> match_options \<Rightarrow> match_state" where
  "after_time J lines cands opts = (let st = after_auth J lines cands opts; waiting = open_lines (customer_lines lines) st in
     fold (time_step J (time_options opts cands waiting st)) waiting st)"

lemma matchLines_state:
  "matchLines J lines cands opts = map (\<lambda>l. or_else (jmap_get (snd (after_time J lines cands opts)) (ml_aslId l)) (unmatched l)) lines"
  by (simp add: matchLines_def after_time_def after_auth_def after_ref_def Let_def)

lemma customer_subset: "set (customer_lines lines) \<subseteq> set lines" "distinct (map ml_aslId lines) \<Longrightarrow> distinct (map ml_aslId (customer_lines lines))"
  by (auto simp: customer_lines_def distinct_map_filter)

lemma matched_inv:
  assumes "distinct (map ml_aslId lines)"
  shows "match_inv J opts cands lines (after_ref J lines cands opts)" and "match_inv J opts cands lines (after_auth J lines cands opts)"
    and "match_inv J opts cands lines (after_time J lines cands opts)"
proof -
  note sub = customer_subset(1) [of lines] customer_subset(2) [OF assms]
  show ref: "match_inv J opts cands lines (after_ref J lines cands opts)"
    unfolding after_ref_def by (rule pass_inv [OF assms ref_pass_step match_start sub]) simp
  show auth: "match_inv J opts cands lines (after_auth J lines cands opts)"
    unfolding after_auth_def by (rule pass_inv [OF assms auth_pass_step ref sub]) (simp add: auth_step_def)
  let ?w = "open_lines (customer_lines lines) (after_auth J lines cands opts)"
  have w: "set ?w \<subseteq> set lines" "distinct (map ml_aslId ?w)" "\<forall>l\<in>set ?w. jmap_get (snd (after_auth J lines cands opts)) (ml_aslId l) = None"
    using sub by (auto simp: open_lines_def distinct_map_filter)
  show "match_inv J opts cands lines (after_time J lines cands opts)"
    unfolding after_time_def Let_def by (rule pass_inv [OF assms time_pass_step [OF w(2)] auth w(1,2)]) (use w(3) in auto)
qed

text \<open>Verdicts, and the rows held, only grow.\<close>

definition grows :: "match_state \<Rightarrow> match_state \<Rightarrow> bool" where
  "grows st st' \<longleftrightarrow> set (fst st) \<subseteq> set (fst st') \<and> (\<forall>a. jmap_get (snd st) a \<noteq> None \<longrightarrow> jmap_get (snd st') a \<noteq> None)"

lemma grows_refl [simp]: "grows st st"
  by (simp add: grows_def)

lemma grows_trans: "grows st1 st2 \<Longrightarrow> grows st2 st3 \<Longrightarrow> grows st1 st3"
  by (auto simp: grows_def)

lemma pass_step_grows: "pass_step J opts cands l st st' \<Longrightarrow> grows st st'"
  by (auto simp: pass_step_def grows_def take_row_def update_conv' split: prod.split)

lemma pass_grows:
  assumes "\<And>l st. l \<in> set ls \<Longrightarrow> pass_step J opts cands l st (f l st)"
  shows "grows st (fold f ls st)"
  using assms
proof (induction ls arbitrary: st)
  case (Cons l ls)
  have "grows st (f l st)" by (rule pass_step_grows [of J opts cands l]) (use Cons.prems in simp)
  moreover have "grows (f l st) (fold f ls (f l st))" using Cons by simp
  ultimately show ?case by (auto intro: grows_trans)
qed simp

text \<open>After the pass by reference, every row a line names is held by then, or the line has a verdict.\<close>

lemma ref_pass_complete:
  assumes "l \<in> set ls" and "truthy (ml_refNo l)" and "c \<in> set cands" and "takes_by J opts RULE_REF l c"
  shows "jmap_get (snd (fold (ref_step J opts cands) ls st)) (ml_aslId l) \<noteq> None \<or> held_key l c \<in> set (fst (fold (ref_step J opts cands) ls st))"
  using assms(1)
proof (induction ls arbitrary: st)
  case (Cons x ls)
  show ?case
  proof (cases "l = x")
    case True
    let ?st = "ref_step J opts cands l st"
    have "jmap_get (snd ?st) (ml_aslId l) \<noteq> None \<or> held_key l c \<in> set (fst ?st)"
    proof (cases "held_key l c \<in> set (fst st)")
      case True
      then show ?thesis using pass_step_grows [OF ref_pass_step [of J opts cands l st]] by (auto simp: grows_def)
    next
      case False
      then have "c \<in> set (filter (\<lambda>c. eligible (fst st) l c \<and> ref_hit J opts l c) cands)"
        using assms(3,4) by (simp add: takes_by_def eligible_def)
      then have "filter (\<lambda>c. eligible (fst st) l c \<and> ref_hit J opts l c) cands \<noteq> []" by (metis empty_iff empty_set)
      then obtain best where "closest J l (filter (\<lambda>c. eligible (fst st) l c \<and> ref_hit J opts l c) cands) = Some best"
        by (metis closest_None option.exhaust)
      then show ?thesis using assms(2) by (simp add: ref_step_def take_row_def update_conv' split: prod.split)
    qed
    moreover have "grows ?st (fold (ref_step J opts cands) ls ?st)" by (rule pass_grows) (rule ref_pass_step)
    ultimately show ?thesis using True by (auto simp: grows_def)
  next
    case False
    then show ?thesis using Cons by simp
  qed
qed simp

lemma state_grows: "grows (after_ref J lines cands opts) (after_time J lines cands opts)" if "distinct (map ml_aslId lines)"
proof -
  have w: "distinct (map ml_aslId (open_lines (customer_lines lines) (after_auth J lines cands opts)))"
    using customer_subset(2) [OF that] by (simp add: open_lines_def distinct_map_filter)
  have "grows (after_ref J lines cands opts) (after_auth J lines cands opts)"
    unfolding after_auth_def by (rule pass_grows) (rule auth_pass_step)
  moreover have "grows (after_auth J lines cands opts) (after_time J lines cands opts)"
    unfolding after_time_def Let_def by (rule pass_grows) (rule time_pass_step [OF w])
  ultimately show ?thesis by (rule grows_trans)
qed

text \<open>A statement of two lines for one row: the first takes it by its reference, the second finds it held.\<close>

definition sample_statement :: "match_line list" where
  "sample_statement = map (\<lambda>i. \<lparr> ml_aslId = i, ml_kind = SALE, ml_tenderId = Some ''t'', ml_refNo = Some ''R1'', ml_authCode = None,
     ml_cardLast4 = None, ml_gross = 100, ml_txnOn = None \<rparr>) [''a'', ''b'']"

definition sample_row :: match_candidate where
  "sample_row = \<lparr> mc_tdId = ''row'', mc_tdAccYear = ''2026-2027'', mc_tenderId = ''t'', mc_drCr = ROW_DR, mc_settleStatus = PENDING,
     mc_refNo = Some ''R1 '', mc_authCode = None, mc_cardLast4 = None, mc_amount = 100, mc_docDate = ''2026-03-01'', mc_createdOn = 0 \<rparr>"

definition sample_matching :: match_options where
  "sample_matching = \<lparr> mo_tolerance = 1, mo_windowMinutes = 10, mo_taken = [] \<rparr>"

lemma sample_matched: "map mv_tdId (matchLines decimal20 sample_statement [sample_row] sample_matching) = [Some ''row'', None]"
  by (simp add: matchLines_def sample_statement_def sample_row_def sample_matching_def customer_lines_def isCustomerKind_def truthy_def
      ref_step_def closest_def eligible_def held_key_def kind_text_def kindTakes_def ref_hit_def off_by_def folded_def toUpperCase_def
      js_trim_def is_space_def upper_char_def take_row_def d20.minus_paise auth_step_def open_lines_def time_options_def unmatched_def)

section \<open>Properties\<close>

text \<open>
  C30: no tender row is settled twice. For lines with ids of their own, two lines of one kind never get the same row,
  and no line gets a row its kind already holds outside the run.
\<close>

theorem matchLines_one_to_one:
  assumes "distinct (map ml_aslId lines)" and "i < length lines" and "j < length lines"
    and "mv_tdId (matchLines J lines cands opts ! i) = Some td"
  shows "kind_text (ml_kind (lines ! i)) @ ''|'' @ td \<notin> set (mo_taken opts) \<and>
    (mv_tdId (matchLines J lines cands opts ! j) = Some td \<longrightarrow> ml_kind (lines ! j) = ml_kind (lines ! i) \<longrightarrow> j = i)"
proof -
  let ?st = "after_time J lines cands opts"
  note inv = matched_inv(3) [OF assms(1), of J opts cands, unfolded match_inv_def]
  have get: "\<exists>v. jmap_get (snd ?st) (ml_aslId (lines ! k)) = Some v \<and> mv_tdId v = Some td"
    if "k < length lines" "mv_tdId (matchLines J lines cands opts ! k) = Some td" for k
    using that by (cases "jmap_get (snd ?st) (ml_aslId (lines ! k))") (simp_all add: matchLines_state unmatched_def)
  obtain v where v: "jmap_get (snd ?st) (ml_aslId (lines ! i)) = Some v" "mv_tdId v = Some td" using get [OF assms(2,4)] by blast
  have "line_key (lines ! i) v \<notin> set (mo_taken opts)" using inv v(1) assms(2) nth_mem by blast
  moreover have "j = i" if td: "mv_tdId (matchLines J lines cands opts ! j) = Some td" and kind: "ml_kind (lines ! j) = ml_kind (lines ! i)"
  proof -
    obtain w where w: "jmap_get (snd ?st) (ml_aslId (lines ! j)) = Some w" "mv_tdId w = Some td" using get [OF assms(3) td] by blast
    have "line_key (lines ! i) v = line_key (lines ! j) w" using v(2) w(2) kind by (simp add: line_key_def)
    then have "ml_aslId (lines ! i) = ml_aslId (lines ! j)" using inv v(1) w(1) nth_mem [OF assms(2)] nth_mem [OF assms(3)] by blast
    then show ?thesis using assms(1-3) by (simp add: distinct_conv_nth) (metis nth_map)
  qed
  ultimately show ?thesis using v(2) by (simp add: line_key_def)
qed

theorem matchLines_one_to_one_witness:
  "mv_tdId (matchLines decimal20 sample_statement [sample_row] sample_matching ! 0) = Some ''row'' \<and>
   mv_tdId (matchLines decimal20 sample_statement [sample_row] sample_matching ! 1) \<noteq> Some ''row''"
proof -
  have len: "length sample_statement = 2" "distinct (map ml_aslId sample_statement)" "ml_kind (sample_statement ! 0) = ml_kind (sample_statement ! 1)"
    by (simp_all add: sample_statement_def)
  have row: "mv_tdId (matchLines decimal20 sample_statement [sample_row] sample_matching ! 0) = Some ''row''"
    using arg_cong [OF sample_matched, of "\<lambda>xs. xs ! 0"] len(1) by (simp add: matchLines_state)
  with matchLines_one_to_one [OF len(2), of 0 1 decimal20 "[sample_row]" sample_matching "''row''"] len show ?thesis by auto
qed

end
