(* ===== verification/Settlement_Choice.thy ===== *)
theory Settlement_Choice
  imports Settlement_Match
begin

text \<open>
  What \<open>matchLines\<close> decides for each line, said of its result: which rows were free when the line had its turn in a pass,
  the nearest of them under its reference or its approval code, and the only one on both sides under amount and time.
\<close>

section \<open>The decision\<close>

text \<open>The rows held when a line has its turn: those held outside the run, and those of the lines that were served before it.\<close>

definition held_rows :: "match_options \<Rightarrow> match_line list \<Rightarrow> match_verdict list \<Rightarrow> (nat \<Rightarrow> match_rule \<Rightarrow> bool) \<Rightarrow> string set" where
  "held_rows opts lines vs before = set (mo_taken opts) \<union>
     {line_key (lines ! j) (vs ! j) |j. j < length lines \<and> (\<exists>r. mv_rule (vs ! j) = Some r \<and> before j r)}"

definition rows_for :: "decimal_js \<Rightarrow> match_options \<Rightarrow> match_candidate list \<Rightarrow> match_rule \<Rightarrow> match_line \<Rightarrow> string set \<Rightarrow> match_candidate list" where
  "rows_for J opts cands rule l held = filter (\<lambda>c. takes_by J opts rule l c \<and> held_key l c \<notin> held) cands"

text \<open>The rows a line may take by its reference, by its approval code (after every reference), and by amount and time (after both).\<close>

definition ref_rows :: "decimal_js \<Rightarrow> match_options \<Rightarrow> match_candidate list \<Rightarrow> match_line list \<Rightarrow> match_verdict list \<Rightarrow> nat \<Rightarrow> match_candidate list" where
  "ref_rows J opts cands lines vs i = (if truthy (ml_refNo (lines ! i))
     then rows_for J opts cands RULE_REF (lines ! i) (held_rows opts lines vs (\<lambda>j r. r = RULE_REF \<and> j < i)) else [])"

definition auth_rows :: "decimal_js \<Rightarrow> match_options \<Rightarrow> match_candidate list \<Rightarrow> match_line list \<Rightarrow> match_verdict list \<Rightarrow> nat \<Rightarrow> match_candidate list" where
  "auth_rows J opts cands lines vs i = (if truthy (ml_authCode (lines ! i)) \<and> truthy (ml_cardLast4 (lines ! i))
     then rows_for J opts cands RULE_AUTH (lines ! i) (held_rows opts lines vs (\<lambda>j r. r = RULE_REF \<or> r = RULE_AUTH \<and> j < i)) else [])"

definition time_rows :: "decimal_js \<Rightarrow> match_options \<Rightarrow> match_candidate list \<Rightarrow> match_line list \<Rightarrow> match_verdict list \<Rightarrow> nat \<Rightarrow> match_candidate list" where
  "time_rows J opts cands lines vs i = rows_for J opts cands RULE_AMOUNT_TIME (lines ! i) (held_rows opts lines vs (\<lambda>j r. r = RULE_REF \<or> r = RULE_AUTH))"

definition is_customer :: "match_line \<Rightarrow> bool" where
  "is_customer l \<longleftrightarrow> isCustomerKind (ml_kind l) \<and> truthy (ml_tenderId l)"

text \<open>A row the line wants that no other line without a match by reference or approval code wants.\<close>

definition only_claim :: "decimal_js \<Rightarrow> match_options \<Rightarrow> match_candidate list \<Rightarrow> match_line list \<Rightarrow> match_verdict list \<Rightarrow> nat \<Rightarrow> match_candidate \<Rightarrow> bool" where
  "only_claim J opts cands lines vs i c \<longleftrightarrow> time_rows J opts cands lines vs i = [c] \<and>
     (\<forall>j < length lines. j \<noteq> i \<longrightarrow> is_customer (lines ! j) \<longrightarrow> mv_rule (vs ! j) \<notin> {Some RULE_REF, Some RULE_AUTH} \<longrightarrow>
        mc_tdId c \<notin> mc_tdId ` set (time_rows J opts cands lines vs j))"

text \<open>The smallest difference, then the earliest row.\<close>

definition nearest :: "decimal_js \<Rightarrow> match_line \<Rightarrow> match_candidate list \<Rightarrow> match_candidate \<Rightarrow> bool" where
  "nearest J l hits c \<longleftrightarrow> c \<in> set hits \<and> (\<forall>d \<in> set hits. off_by J l c < off_by J l d \<or> off_by J l c = off_by J l d \<and> mc_createdOn c \<le> mc_createdOn d)"

definition gets :: "decimal_js \<Rightarrow> match_line \<Rightarrow> match_candidate \<Rightarrow> match_rule \<Rightarrow> match_verdict" where
  "gets J l c rule = \<lparr> mv_aslId = ml_aslId l, mv_status = (if rule = RULE_AMOUNT_TIME then SUGGESTED else MATCHED), mv_rule = Some rule,
     mv_tdId = Some (mc_tdId c), mv_tdAccYear = Some (mc_tdAccYear c), mv_diff = d_minus J (ml_gross l) (mc_amount c) \<rparr>"

definition line_choice :: "decimal_js \<Rightarrow> match_options \<Rightarrow> match_candidate list \<Rightarrow> match_line list \<Rightarrow> match_verdict list \<Rightarrow> nat \<Rightarrow> bool" where
  "line_choice J opts cands lines vs i \<longleftrightarrow>
     (if \<not> is_customer (lines ! i) then vs ! i = unmatched (lines ! i)
      else if ref_rows J opts cands lines vs i \<noteq> [] then
        \<exists>c. nearest J (lines ! i) (ref_rows J opts cands lines vs i) c \<and> vs ! i = gets J (lines ! i) c RULE_REF
      else if auth_rows J opts cands lines vs i \<noteq> [] then
        \<exists>c. nearest J (lines ! i) (auth_rows J opts cands lines vs i) c \<and> vs ! i = gets J (lines ! i) c RULE_AUTH
      else if \<exists>c. only_claim J opts cands lines vs i c then
        \<exists>c. only_claim J opts cands lines vs i c \<and> vs ! i = gets J (lines ! i) c RULE_AMOUNT_TIME
      else vs ! i = unmatched (lines ! i))"

section \<open>A pass, line by line\<close>

lemma take_row_get: "jmap_get (snd (take_row J l c rule (if rule = RULE_AMOUNT_TIME then SUGGESTED else MATCHED) st)) a =
    (if a = ml_aslId l then Some (gets J l c rule) else jmap_get (snd st) a)"
  by (cases st) (simp add: take_row_def gets_def update_conv')

lemma pass_frame:
  assumes "\<And>l st. l \<in> set ls \<Longrightarrow> pass_step J opts cands l st (f l st)" and "a \<notin> ml_aslId ` set ls"
  shows "jmap_get (snd (fold f ls st)) a = jmap_get (snd st) a"
  using assms
proof (induction ls arbitrary: st)
  case (Cons l ls)
  have "jmap_get (snd (f l st)) a = jmap_get (snd st) a"
    using Cons.prems(1) [of l st] Cons.prems(2) by (auto simp: pass_step_def take_row_get)
  moreover have "jmap_get (snd (fold f ls (f l st))) a = jmap_get (snd (f l st)) a"
    using Cons.prems by (intro Cons.IH) simp_all
  ultimately show ?case by simp
qed simp

text \<open>What a pass over the lines that satisfy \<open>P\<close> leaves, and what it had before the turn of line \<open>i\<close>.\<close>

lemma pass_at:
  fixes st :: match_state
  assumes "\<forall>l \<in> set lines. P l \<longrightarrow> (\<forall>st. pass_step J opts cands l st (f l st))" and "distinct (map ml_aslId lines)" and "i < length lines"
  defines "pre \<equiv> fold f (filter P (take i lines)) st"
  shows "P (lines ! i) \<Longrightarrow> jmap_get (snd (fold f (filter P lines) st)) (ml_aslId (lines ! i)) = jmap_get (snd (f (lines ! i) pre)) (ml_aslId (lines ! i))"
    and "j < length lines \<Longrightarrow> jmap_get (snd pre) (ml_aslId (lines ! j)) =
      (if j < i then jmap_get (snd (fold f (filter P lines) st)) (ml_aslId (lines ! j)) else jmap_get (snd st) (ml_aslId (lines ! j)))"
proof -
  let ?post = "drop (Suc i) lines"
  have lines: "lines = take i lines @ lines ! i # ?post" by (rule id_take_nth_drop [OF assms(3)])
  have ids: "ml_aslId (lines ! j) \<in> ml_aslId ` set (filter P xs) \<Longrightarrow> lines ! j \<in> set xs \<and> P (lines ! j)"
    if "set xs \<subseteq> set lines" "j < length lines" for xs j
    using that assms(2) by (auto simp: distinct_map dest: inj_onD)
  have step: "l \<in> set (filter P xs) \<Longrightarrow> pass_step J opts cands l st (f l st)" if "set xs \<subseteq> set lines" for xs l st
    using assms(1) [rule_format, of l st] that by (simp add: subset_iff)
  have sub: "set (take i lines) \<subseteq> set lines" "set ?post \<subseteq> set lines" "set (lines ! i # ?post) \<subseteq> set lines"
    by (auto simp: set_take_subset set_drop_subset assms(3) dest: in_set_takeD in_set_dropD)
  have position: "lines ! j \<in> set (take i lines) \<longleftrightarrow> j < i" if "j < length lines" for j
    using that assms(2,3) by (auto simp: in_set_conv_nth nth_eq_iff_index_eq distinct_map)
  have later: "lines ! j \<in> set ?post \<longleftrightarrow> i < j" if "j < length lines" for j
  proof
    assume "lines ! j \<in> set ?post"
    then obtain k where "k < length lines - Suc i" "lines ! j = lines ! (Suc i + k)" by (auto simp: in_set_conv_nth)
    then show "i < j" using that assms(2) by (auto simp: nth_eq_iff_index_eq distinct_map)
  next
    assume "i < j"
    then show "lines ! j \<in> set ?post" using that by (auto simp: in_set_conv_nth intro!: exI [of _ "j - Suc i"])
  qed
  have whole: "fold f (filter P lines) st = fold f (filter P (lines ! i # ?post)) pre"
    unfolding pre_def by (subst lines) (simp only: filter_append fold_append comp_def)
  have frame_post: "jmap_get (snd (fold f (filter P ?post) X)) (ml_aslId (lines ! j)) = jmap_get (snd X) (ml_aslId (lines ! j))" if "j < length lines" "j \<le> i" for X j
    by (rule pass_frame [OF step [OF sub(2)]]) (use ids [OF sub(2) that(1)] later [OF that(1)] that(2) in auto)
  show "P (lines ! i) \<Longrightarrow> jmap_get (snd (fold f (filter P lines) st)) (ml_aslId (lines ! i)) = jmap_get (snd (f (lines ! i) pre)) (ml_aslId (lines ! i))"
    unfolding whole using frame_post [OF assms(3)] by simp
  assume j: "j < length lines"
  show "jmap_get (snd pre) (ml_aslId (lines ! j)) =
      (if j < i then jmap_get (snd (fold f (filter P lines) st)) (ml_aslId (lines ! j)) else jmap_get (snd st) (ml_aslId (lines ! j)))"
  proof (cases "j < i")
    case True
    have "ml_aslId (lines ! j) \<notin> ml_aslId ` set (filter P (lines ! i # ?post))"
    proof
      assume "ml_aslId (lines ! j) \<in> ml_aslId ` set (filter P (lines ! i # ?post))"
      then have "lines ! j \<in> set (lines ! i # ?post)" using ids [OF sub(3) j] by simp
      then show False using later [OF j] True j assms(2,3) by (auto simp: nth_eq_iff_index_eq distinct_map)
    qed
    then have "jmap_get (snd (fold f (filter P (lines ! i # ?post)) pre)) (ml_aslId (lines ! j)) = jmap_get (snd pre) (ml_aslId (lines ! j))"
      by (rule pass_frame [OF step [OF sub(3)], rotated])
    then show ?thesis using True by (simp only: whole if_True)
  next
    case False
    then have "ml_aslId (lines ! j) \<notin> ml_aslId ` set (filter P (take i lines))" using ids [OF sub(1) j] position [OF j] by blast
    then have "jmap_get (snd pre) (ml_aslId (lines ! j)) = jmap_get (snd st) (ml_aslId (lines ! j))"
      unfolding pre_def by (rule pass_frame [OF step [OF sub(1)], rotated])
    then show ?thesis using False by (simp only: if_False)
  qed
qed

section \<open>The three passes\<close>

text \<open>Each pass writes its own rule.\<close>

lemma ref_pass_rule:
  "jmap_get (snd (fold (ref_step J opts cands) ls st)) a = Some v \<Longrightarrow> jmap_get (snd st) a = Some v \<or> mv_rule v = Some RULE_REF"
proof (induction ls arbitrary: st)
  case (Cons l ls)
  have "jmap_get (snd (ref_step J opts cands l st)) a = Some v \<or> mv_rule v = Some RULE_REF" using Cons by simp
  then show ?case by (auto simp: ref_step_def take_row_def update_conv' split: if_splits option.splits prod.splits)
qed simp

lemma auth_pass_rule:
  "jmap_get (snd (fold (auth_step J cands) ls st)) a = Some v \<Longrightarrow> jmap_get (snd st) a = Some v \<or> mv_rule v = Some RULE_AUTH"
proof (induction ls arbitrary: st)
  case (Cons l ls)
  have "jmap_get (snd (auth_step J cands l st)) a = Some v \<or> mv_rule v = Some RULE_AUTH" using Cons by simp
  then show ?case by (auto simp: auth_step_def take_row_def update_conv' split: if_splits option.splits prod.splits)
qed simp

lemma time_pass_rule:
  "jmap_get (snd (fold (time_step J m) ls st)) a = Some v \<Longrightarrow> jmap_get (snd st) a = Some v \<or> mv_rule v = Some RULE_AMOUNT_TIME"
proof (induction ls arbitrary: st)
  case (Cons l ls)
  have "jmap_get (snd (time_step J m l st)) a = Some v \<or> mv_rule v = Some RULE_AMOUNT_TIME" using Cons by simp
  then show ?case by (auto simp: time_step_def take_row_def update_conv' split: if_splits option.splits list.splits prod.splits)
qed simp

text \<open>A verdict by reference or approval code stays.\<close>

lemma auth_keeps: "jmap_get (snd st) a = Some v \<Longrightarrow> jmap_get (snd (fold (auth_step J cands) ls st)) a = Some v"
proof (induction ls arbitrary: st)
  case (Cons l ls)
  have "jmap_get (snd (auth_step J cands l st)) a = Some v"
    using Cons.prems by (auto simp: auth_step_def take_row_def update_conv' split: option.splits prod.splits)
  then show ?case using Cons.IH by simp
qed simp

abbreviation waiting_lines :: "decimal_js \<Rightarrow> match_line list \<Rightarrow> match_candidate list \<Rightarrow> match_options \<Rightarrow> match_line list" where
  "waiting_lines J lines cands opts \<equiv> open_lines (customer_lines lines) (after_auth J lines cands opts)"

lemma waiting_distinct: "distinct (map ml_aslId lines) \<Longrightarrow> distinct (map ml_aslId (waiting_lines J lines cands opts))"
  using customer_subset(2) [of lines] by (simp add: open_lines_def distinct_map_filter)

lemma time_keeps:
  assumes "distinct (map ml_aslId lines)" and "jmap_get (snd (after_auth J lines cands opts)) a = Some v"
  shows "jmap_get (snd (after_time J lines cands opts)) a = Some v"
proof -
  have "a \<notin> ml_aslId ` set (waiting_lines J lines cands opts)" using assms(2) by (auto simp: open_lines_def)
  then show ?thesis
    unfolding after_time_def Let_def using pass_frame [OF time_pass_step [OF waiting_distinct [OF assms(1)]]] assms(2) by (simp add: Let_def)
qed

lemma result_at: "j < length lines \<Longrightarrow> matchLines J lines cands opts ! j = or_else (jmap_get (snd (after_time J lines cands opts)) (ml_aslId (lines ! j))) (unmatched (lines ! j))"
  by (simp add: matchLines_state)

lemma result_auth:
  assumes "j < length lines" and ids: "distinct (map ml_aslId lines)"
  shows "jmap_get (snd (after_auth J lines cands opts)) (ml_aslId (lines ! j)) = Some v \<longleftrightarrow>
    matchLines J lines cands opts ! j = v \<and> (mv_rule v = Some RULE_REF \<or> mv_rule v = Some RULE_AUTH)"
proof
  assume a: "jmap_get (snd (after_auth J lines cands opts)) (ml_aslId (lines ! j)) = Some v"
  have "mv_rule v = Some RULE_REF \<or> mv_rule v = Some RULE_AUTH"
    using a ref_pass_rule [of J opts cands "customer_lines lines" "(remdups (mo_taken opts), [])"] unfolding after_auth_def after_ref_def
    by (auto dest!: auth_pass_rule)
  then show "matchLines J lines cands opts ! j = v \<and> (mv_rule v = Some RULE_REF \<or> mv_rule v = Some RULE_AUTH)"
    using time_keeps [OF ids a] by (simp add: result_at [OF assms(1)])
next
  assume r: "matchLines J lines cands opts ! j = v \<and> (mv_rule v = Some RULE_REF \<or> mv_rule v = Some RULE_AUTH)"
  then have "jmap_get (snd (after_time J lines cands opts)) (ml_aslId (lines ! j)) = Some v"
    by (cases "jmap_get (snd (after_time J lines cands opts)) (ml_aslId (lines ! j))") (auto simp: result_at [OF assms(1)] unmatched_def)
  then show "jmap_get (snd (after_auth J lines cands opts)) (ml_aslId (lines ! j)) = Some v"
    using r unfolding after_time_def Let_def by (auto dest!: time_pass_rule)
qed

lemma result_ref:
  assumes "j < length lines" and ids: "distinct (map ml_aslId lines)"
  shows "jmap_get (snd (after_ref J lines cands opts)) (ml_aslId (lines ! j)) = Some v \<longleftrightarrow> matchLines J lines cands opts ! j = v \<and> mv_rule v = Some RULE_REF"
proof
  assume a: "jmap_get (snd (after_ref J lines cands opts)) (ml_aslId (lines ! j)) = Some v"
  have "mv_rule v = Some RULE_REF" using a unfolding after_ref_def by (auto dest!: ref_pass_rule)
  moreover have "jmap_get (snd (after_auth J lines cands opts)) (ml_aslId (lines ! j)) = Some v" unfolding after_auth_def using a by (rule auth_keeps)
  ultimately show "matchLines J lines cands opts ! j = v \<and> mv_rule v = Some RULE_REF" using result_auth [OF assms] by blast
next
  assume r: "matchLines J lines cands opts ! j = v \<and> mv_rule v = Some RULE_REF"
  then have "jmap_get (snd (after_auth J lines cands opts)) (ml_aslId (lines ! j)) = Some v" using result_auth [OF assms] by blast
  then show "jmap_get (snd (after_ref J lines cands opts)) (ml_aslId (lines ! j)) = Some v" using r unfolding after_auth_def by (auto dest!: auth_pass_rule)
qed

text \<open>What is held in a state of the passes, by line number.\<close>

lemma held_by_index:
  assumes "match_inv J opts cands lines st"
    and "\<And>j v. j < length lines \<Longrightarrow> jmap_get (snd st) (ml_aslId (lines ! j)) = Some v \<longleftrightarrow> matchLines J lines cands opts ! j = v \<and> (\<exists>r. mv_rule v = Some r \<and> before j r)"
  shows "set (fst st) = held_rows opts lines (matchLines J lines cands opts) before"
proof (rule set_eqI)
  fix k
  note inv = assms(1) [unfolded match_inv_def]
  show "k \<in> set (fst st) \<longleftrightarrow> k \<in> held_rows opts lines (matchLines J lines cands opts) before"
  proof
    assume "k \<in> set (fst st)"
    then consider "k \<in> set (mo_taken opts)" | l v where "l \<in> set lines" "jmap_get (snd st) (ml_aslId l) = Some v" "line_key l v = k" using inv by blast
    then show "k \<in> held_rows opts lines (matchLines J lines cands opts) before"
    proof cases
      case 2
      then obtain j where j: "j < length lines" "l = lines ! j" by (auto simp: in_set_conv_nth)
      then show ?thesis using 2 assms(2) [OF j(1), of v] by (auto simp: held_rows_def)
    qed (simp add: held_rows_def)
  next
    assume "k \<in> held_rows opts lines (matchLines J lines cands opts) before"
    then consider "k \<in> set (mo_taken opts)" | j r where "k = line_key (lines ! j) (matchLines J lines cands opts ! j)" "j < length lines" "mv_rule (matchLines J lines cands opts ! j) = Some r" "before j r"
      by (auto simp: held_rows_def)
    then show "k \<in> set (fst st)"
    proof cases
      case 1
      then show ?thesis using inv by blast
    next
      case 2
      then have "jmap_get (snd st) (ml_aslId (lines ! j)) = Some (matchLines J lines cands opts ! j)" using assms(2) by blast
      then show ?thesis using inv 2 nth_mem by blast
    qed
  qed
qed

lemma customers_filter: "customer_lines lines = filter is_customer lines"
  by (simp add: customer_lines_def is_customer_def [abs_def])

section \<open>The nearest row, and the rows of a turn\<close>

lemma closest_nearest: "closest J l hits = Some c \<Longrightarrow> nearest J l hits c"
proof -
  let ?key = "\<lambda>c. (off_by J l c, mc_createdOn c)"
  assume "closest J l hits = Some c"
  then obtain cs where cs: "sort_key ?key hits = c # cs" by (auto simp: closest_def split: list.splits)
  have "sorted (map ?key (c # cs))" using sorted_sort_key [of ?key hits] unfolding cs .
  moreover have "set hits = set (c # cs)" using set_sort [of ?key hits] unfolding cs by simp
  ultimately show ?thesis by (auto simp: nearest_def less_eq_prod_def)
qed

lemma rows_for_eligible:
  "filter (\<lambda>c. eligible (fst st) l c \<and> ref_hit J opts l c) cands = rows_for J opts cands RULE_REF l (set (fst st))"
  "filter (\<lambda>c. eligible (fst st) l c \<and> auth_hit l c) cands = rows_for J opts cands RULE_AUTH l (set (fst st))"
  "filter (\<lambda>c. eligible (fst st) l c \<and> time_hit opts l c) cands = rows_for J opts cands RULE_AMOUNT_TIME l (set (fst st))"
  by (auto simp: rows_for_def eligible_def takes_by_def intro!: filter_cong)

lemma take_customers: "set (filter P (take i lines)) \<subseteq> set lines" "distinct (map ml_aslId lines) \<Longrightarrow> distinct (map ml_aslId (filter P (take i lines)))"
  by (auto dest: in_set_takeD simp: distinct_map_filter distinct_take take_map [symmetric])

lemma ref_turn:
  fixes J :: decimal_js and opts :: match_options and cands :: "match_candidate list"
  assumes "i < length lines" and ids: "distinct (map ml_aslId lines)" and c: "is_customer (lines ! i)"
  defines "vs \<equiv> matchLines J lines cands opts"
  shows "if ref_rows J opts cands lines vs i = [] then jmap_get (snd (after_ref J lines cands opts)) (ml_aslId (lines ! i)) = None
    else \<exists>c. nearest J (lines ! i) (ref_rows J opts cands lines vs i) c \<and> vs ! i = gets J (lines ! i) c RULE_REF"
proof -
  let ?l = "lines ! i" and ?start = "(remdups (mo_taken opts), []) :: match_state"
  define st where "st = fold (ref_step J opts cands) (filter is_customer (take i lines)) ?start"
  have step: "\<forall>l \<in> set lines. is_customer l \<longrightarrow> (\<forall>st. pass_step J opts cands l st (ref_step J opts cands l st))" using ref_pass_step by blast
  note at = pass_at [where f = "ref_step J opts cands" and P = is_customer and st = ?start, OF step ids assms(1), folded st_def customers_filter, folded after_ref_def]
  have inv: "match_inv J opts cands lines st" unfolding st_def by (rule pass_inv [OF ids ref_pass_step match_start take_customers(1) take_customers(2) [OF ids]]) simp
  have held: "set (fst st) = held_rows opts lines vs (\<lambda>j r. r = RULE_REF \<and> j < i)"
    unfolding vs_def by (rule held_by_index [OF inv]) (use at(2) result_ref [OF _ ids] in auto)
  have none: "jmap_get (snd st) (ml_aslId ?l) = None" using at(2) [OF assms(1)] by simp
  have rows: "truthy (ml_refNo ?l) \<Longrightarrow> filter (\<lambda>c. eligible (fst st) ?l c \<and> ref_hit J opts ?l c) cands = ref_rows J opts cands lines vs i"
    unfolding rows_for_eligible held by (simp add: ref_rows_def)
  show ?thesis
  proof (cases "closest J ?l (ref_rows J opts cands lines vs i)")
    case None
    then have empty: "ref_rows J opts cands lines vs i = []" by (simp add: closest_None)
    then have "ref_step J opts cands ?l st = st" using rows None by (auto simp: ref_step_def)
    then show ?thesis using at(1) [OF c] none empty by simp
  next
    case (Some b)
    then have b: "nearest J ?l (ref_rows J opts cands lines vs i) b" by (rule closest_nearest)
    have t: "truthy (ml_refNo ?l)" using b by (auto simp: nearest_def ref_rows_def split: if_splits)
    have "ref_step J opts cands ?l st = take_row J ?l b RULE_REF (if RULE_REF = RULE_AMOUNT_TIME then SUGGESTED else MATCHED) st"
      using t Some by (simp add: ref_step_def rows)
    then have "jmap_get (snd (after_ref J lines cands opts)) (ml_aslId ?l) = Some (gets J ?l b RULE_REF)"
      using at(1) [OF c] by (simp only: take_row_get refl if_True)
    then have "vs ! i = gets J ?l b RULE_REF" using result_ref [OF assms(1) ids] unfolding vs_def by blast
    then show ?thesis using b by (auto simp: nearest_def)
  qed
qed

lemma auth_turn:
  fixes J :: decimal_js and opts :: match_options and cands :: "match_candidate list"
  assumes "i < length lines" and ids: "distinct (map ml_aslId lines)" and c: "is_customer (lines ! i)"
    and none: "jmap_get (snd (after_ref J lines cands opts)) (ml_aslId (lines ! i)) = None"
  defines "vs \<equiv> matchLines J lines cands opts"
  shows "if auth_rows J opts cands lines vs i = [] then jmap_get (snd (after_auth J lines cands opts)) (ml_aslId (lines ! i)) = None
    else \<exists>c. nearest J (lines ! i) (auth_rows J opts cands lines vs i) c \<and> vs ! i = gets J (lines ! i) c RULE_AUTH"
proof -
  let ?l = "lines ! i" and ?start = "after_ref J lines cands opts"
  define st where "st = fold (auth_step J cands) (filter is_customer (take i lines)) ?start"
  have step: "\<forall>l \<in> set lines. is_customer l \<longrightarrow> (\<forall>st. pass_step J opts cands l st (auth_step J cands l st))" using auth_pass_step by blast
  note at = pass_at [where f = "auth_step J cands" and P = is_customer and st = ?start, OF step ids assms(1), folded st_def customers_filter, folded after_auth_def]
  have inv: "match_inv J opts cands lines st"
    unfolding st_def by (rule pass_inv [OF ids auth_pass_step matched_inv(1) [OF ids] take_customers(1) take_customers(2) [OF ids]]) (simp add: auth_step_def)
  have held: "set (fst st) = held_rows opts lines vs (\<lambda>j r. r = RULE_REF \<or> r = RULE_AUTH \<and> j < i)"
    unfolding vs_def by (rule held_by_index [OF inv]) (use at(2) result_ref [OF _ ids] result_auth [OF _ ids] in auto)
  have none': "jmap_get (snd st) (ml_aslId ?l) = None" using at(2) [OF assms(1)] none by simp
  have rows: "truthy (ml_authCode ?l) \<and> truthy (ml_cardLast4 ?l) \<Longrightarrow>
      filter (\<lambda>c. eligible (fst st) ?l c \<and> auth_hit ?l c) cands = auth_rows J opts cands lines vs i"
    unfolding rows_for_eligible(2) [where J = J and opts = opts] held by (simp add: auth_rows_def)
  show ?thesis
  proof (cases "closest J ?l (auth_rows J opts cands lines vs i)")
    case None
    then have empty: "auth_rows J opts cands lines vs i = []" by (simp add: closest_None)
    then have "auth_step J cands ?l st = st" using rows None by (auto simp: auth_step_def)
    then show ?thesis using at(1) [OF c] none' empty by simp
  next
    case (Some b)
    then have b: "nearest J ?l (auth_rows J opts cands lines vs i) b" by (rule closest_nearest)
    have t: "truthy (ml_authCode ?l) \<and> truthy (ml_cardLast4 ?l)" using b by (auto simp: nearest_def auth_rows_def split: if_splits)
    have "auth_step J cands ?l st = take_row J ?l b RULE_AUTH (if RULE_AUTH = RULE_AMOUNT_TIME then SUGGESTED else MATCHED) st"
      using t Some none' by (simp add: auth_step_def rows)
    then have "jmap_get (snd (after_auth J lines cands opts)) (ml_aslId ?l) = Some (gets J ?l b RULE_AUTH)"
      using at(1) [OF c] by (simp only: take_row_get refl if_True)
    then have "vs ! i = gets J ?l b RULE_AUTH" using result_auth [OF assms(1) ids] unfolding vs_def by blast
    then show ?thesis using b by (auto simp: nearest_def)
  qed
qed

section \<open>The claims\<close>

lemma options_list:
  "distinct (map ml_aslId ls) \<Longrightarrow> fst ` set m0 \<inter> ml_aslId ` set ls = {} \<Longrightarrow>
   foldl (\<lambda>m l. jmap_set (ml_aslId l) (F l) m) m0 ls = m0 @ map (\<lambda>l. (ml_aslId l, F l)) ls"
proof (induction ls arbitrary: m0)
  case (Cons l ls)
  have new: "jmap_set (ml_aslId l) v m0 = m0 @ [(ml_aslId l, v)]" for v
  proof -
    have "ml_aslId l \<notin> fst ` set m0" using Cons.prems by auto
    then show ?thesis by (induction m0) auto
  qed
  have "fst ` set (m0 @ [(ml_aslId l, F l)]) \<inter> ml_aslId ` set ls = {}" using Cons.prems by auto
  then show ?case using Cons.IH Cons.prems(1) by (simp add: new)
qed simp

lemma claims_once:
  assumes "distinct (map ml_aslId ls)" and "l \<in> set ls" and "F l = [c]"
  shows "claims_of (map (\<lambda>l. (ml_aslId l, F l)) ls) (mc_tdId c) = 1 \<longleftrightarrow> (\<forall>l' \<in> set ls. l' \<noteq> l \<longrightarrow> mc_tdId c \<notin> mc_tdId ` set (F l'))"
proof -
  let ?n = "\<lambda>l. length (filter (\<lambda>d. mc_tdId d = mc_tdId c) (F l))"
  have "claims_of (map (\<lambda>l. (ml_aslId l, F l)) ls) (mc_tdId c) = (\<Sum>l\<leftarrow>ls. ?n l)"
    by (simp add: claims_of_def filter_concat length_concat comp_def)
  also have "\<dots> = ?n l + (\<Sum>l\<leftarrow>remove1 l ls. ?n l)" using assms(2) by (rule sum_list_map_remove1)
  finally have "claims_of (map (\<lambda>l. (ml_aslId l, F l)) ls) (mc_tdId c) = 1 \<longleftrightarrow> (\<Sum>l\<leftarrow>remove1 l ls. ?n l) = 0" using assms(3) by simp
  then have once: "claims_of (map (\<lambda>l. (ml_aslId l, F l)) ls) (mc_tdId c) = 1 \<longleftrightarrow> (\<forall>l' \<in> set (remove1 l ls). ?n l' = 0)"
    by (simp add: sum_list_eq_0_iff)
  have zero: "?n l' = 0 \<longleftrightarrow> mc_tdId c \<notin> mc_tdId ` set (F l')" for l'
    unfolding length_0_conv filter_empty_conv by (auto simp: image_iff)
  note once
  also have "set (remove1 l ls) = set ls - {l}" using assms(1) by (simp add: distinct_map)
  also have "(\<forall>l' \<in> set ls - {l}. ?n l' = 0) \<longleftrightarrow> (\<forall>l' \<in> set ls. l' \<noteq> l \<longrightarrow> mc_tdId c \<notin> mc_tdId ` set (F l'))"
    unfolding zero by blast
  finally show ?thesis .
qed

lemma time_holds:
  "k \<in> set (fst (fold (time_step J m) ls st)) \<Longrightarrow>
    k \<in> set (fst st) \<or> (\<exists>l \<in> set ls. \<exists>c. or_else (jmap_get m (ml_aslId l)) [] = [c] \<and> k = held_key l c)"
proof (induction ls arbitrary: st)
  case (Cons l ls)
  have "k \<in> set (fst (time_step J m l st)) \<or> (\<exists>l \<in> set ls. \<exists>c. or_else (jmap_get m (ml_aslId l)) [] = [c] \<and> k = held_key l c)"
    using Cons by simp
  moreover have "k \<in> set (fst (time_step J m l st)) \<Longrightarrow> k \<in> set (fst st) \<or> (\<exists>c. or_else (jmap_get m (ml_aslId l)) [] = [c] \<and> k = held_key l c)"
    by (auto simp: time_step_def take_row_def split: list.splits if_splits prod.splits)
  ultimately show ?case by auto
qed simp

lemma held_key_td: "held_key l c = held_key l' c' \<Longrightarrow> mc_tdId c = mc_tdId c'"
  by (cases "ml_kind l"; cases "ml_kind l'") (simp_all add: held_key_def kind_text_def)

lemma time_rows_none: "ml_txnOn (lines ! i) = None \<Longrightarrow> time_rows J opts cands lines vs i = []"
  by (simp add: time_rows_def rows_for_def takes_by_def time_hit_def)

lemma time_turn:
  fixes J :: decimal_js and opts :: match_options and cands :: "match_candidate list"
  assumes "i < length lines" and ids: "distinct (map ml_aslId lines)" and c: "is_customer (lines ! i)"
    and none: "jmap_get (snd (after_auth J lines cands opts)) (ml_aslId (lines ! i)) = None"
  defines "vs \<equiv> matchLines J lines cands opts"
  shows "if \<exists>c. only_claim J opts cands lines vs i c then \<exists>c. only_claim J opts cands lines vs i c \<and> vs ! i = gets J (lines ! i) c RULE_AMOUNT_TIME
    else vs ! i = unmatched (lines ! i)"
proof -
  let ?l = "lines ! i" and ?st = "after_auth J lines cands opts" and ?P = "\<lambda>l. is_customer l \<and> jmap_get (snd (after_auth J lines cands opts)) (ml_aslId l) = None \<and> ml_txnOn l \<noteq> None"
  define ls where "ls = waiting_lines J lines cands opts"
  define rows where "rows = (\<lambda>l. filter (\<lambda>c. eligible (fst ?st) l c \<and> time_hit opts l c) cands)"
  define m where "m = time_options opts cands ls ?st"
  define st where "st = fold (time_step J m) (filter ?P (take i lines)) ?st"
  have ls: "ls = filter ?P lines" by (auto simp: ls_def open_lines_def customers_filter intro!: filter_cong)
  have dist: "distinct (map ml_aslId ls)" unfolding ls_def by (rule waiting_distinct [OF ids])
  have m: "m = map (\<lambda>l. (ml_aslId l, rows l)) ls" unfolding m_def time_options_def rows_def by (subst options_list [OF dist]) simp_all
  have get: "or_else (jmap_get m (ml_aslId l)) [] = rows l" if "l \<in> set ls" for l
  proof -
    have "jmap_get m (ml_aslId l) = Some (rows l)" using that dist by (intro map_of_is_SomeI) (auto simp: m comp_def)
    then show ?thesis by simp
  qed
  have held: "set (fst ?st) = held_rows opts lines vs (\<lambda>j r. r = RULE_REF \<or> r = RULE_AUTH)"
    unfolding vs_def by (rule held_by_index [OF matched_inv(2) [OF ids]]) (use result_auth [OF _ ids] in auto)
  have rows: "rows (lines ! j) = time_rows J opts cands lines vs j" for j
    unfolding rows_def rows_for_eligible(3) [where J = J] held by (simp add: time_rows_def)
  have member: "lines ! j \<in> set ls \<longleftrightarrow> is_customer (lines ! j) \<and> mv_rule (vs ! j) \<notin> {Some RULE_REF, Some RULE_AUTH} \<and> ml_txnOn (lines ! j) \<noteq> None"
    if "j < length lines" for j
  proof -
    have "jmap_get (snd ?st) (ml_aslId (lines ! j)) = None \<longleftrightarrow> mv_rule (vs ! j) \<notin> {Some RULE_REF, Some RULE_AUTH}"
      using result_auth [OF that ids, of J cands opts] unfolding vs_def by (metis (no_types, lifting) empty_iff insert_iff not_None_eq)
    then show ?thesis using that by (auto simp: ls)
  qed
  have same: "lines ! j = lines ! k \<longleftrightarrow> j = k" if "j < length lines" "k < length lines" for j k
    using that ids by (auto simp: distinct_map nth_eq_iff_index_eq)
  have claim: "only_claim J opts cands lines vs i d \<longleftrightarrow> rows ?l = [d] \<and> claims_of m (mc_tdId d) = 1" if "?l \<in> set ls" for d
  proof (cases "rows ?l = [d]")
    case True
    have "(\<forall>l' \<in> set ls. l' \<noteq> ?l \<longrightarrow> mc_tdId d \<notin> mc_tdId ` set (rows l')) \<longleftrightarrow>
        (\<forall>j < length lines. j \<noteq> i \<longrightarrow> is_customer (lines ! j) \<longrightarrow> mv_rule (vs ! j) \<notin> {Some RULE_REF, Some RULE_AUTH} \<longrightarrow>
          mc_tdId d \<notin> mc_tdId ` set (time_rows J opts cands lines vs j))" (is "?A \<longleftrightarrow> ?B")
    proof
      assume A: ?A
      show ?B
      proof (intro allI impI)
        fix j assume j: "j < length lines" "j \<noteq> i" "is_customer (lines ! j)" "mv_rule (vs ! j) \<notin> {Some RULE_REF, Some RULE_AUTH}"
        show "mc_tdId d \<notin> mc_tdId ` set (time_rows J opts cands lines vs j)"
        proof (cases "ml_txnOn (lines ! j) = None")
          case False
          then have "lines ! j \<in> set ls" "lines ! j \<noteq> ?l" using j member same assms(1) by simp_all
          then show ?thesis using A rows by force
        qed (simp add: time_rows_none)
      qed
    next
      assume B: ?B
      show ?A
      proof (intro ballI impI)
        fix l' assume l': "l' \<in> set ls" "l' \<noteq> ?l"
        then obtain j where j: "j < length lines" "l' = lines ! j" by (auto simp: ls in_set_conv_nth)
        then have "j \<noteq> i" "is_customer (lines ! j)" "mv_rule (vs ! j) \<notin> {Some RULE_REF, Some RULE_AUTH}" using l' member [OF j(1)] by auto
        then show "mc_tdId d \<notin> mc_tdId ` set (rows l')" using B j rows by simp
      qed
    qed
    then show ?thesis using True rows claims_once [where F = rows, OF dist that True] by (simp add: only_claim_def m)
  qed (simp add: only_claim_def rows)
  have final: "vs ! i = or_else (jmap_get (snd (after_time J lines cands opts)) (ml_aslId ?l)) (unmatched ?l)"
    unfolding vs_def by (rule result_at [OF assms(1)])
  show ?thesis
  proof (cases "ml_txnOn ?l = None")
    case True
    then have "ml_aslId ?l \<notin> ml_aslId ` set ls" using ids assms(1) by (auto simp: ls distinct_map dest: inj_onD)
    then have "jmap_get (snd (after_time J lines cands opts)) (ml_aslId ?l) = None"
      unfolding after_time_def Let_def using pass_frame [OF time_pass_step [OF dist [unfolded ls_def]]] none by (simp add: ls_def)
    then show ?thesis using time_rows_none [OF True] final by (simp add: only_claim_def)
  next
    case False
    then have l: "?l \<in> set ls" and P: "?P ?l" using assms(1) c none by (simp_all add: ls)
    have step: "\<forall>l \<in> set lines. ?P l \<longrightarrow> (\<forall>st. pass_step J opts cands l st (time_step J m l st))"
      unfolding m_def using time_pass_step [OF dist] by (simp add: ls)
    note at = pass_at [where f = "time_step J m" and P = ?P and st = ?st, OF step ids assms(1), folded st_def ls]
    have time: "fold (time_step J m) ls ?st = after_time J lines cands opts" by (simp add: after_time_def m_def ls_def Let_def)
    have free: "held_key ?l d \<notin> set (fst st)" if d: "rows ?l = [d]" "claims_of m (mc_tdId d) = 1" for d
    proof
      assume "held_key ?l d \<in> set (fst st)"
      moreover have "d \<in> set (rows ?l)" using d(1) by simp
      then have "held_key ?l d \<notin> set (fst ?st)" by (simp add: rows_def eligible_def)
      ultimately obtain l' d' where l': "l' \<in> set (filter ?P (take i lines))" "or_else (jmap_get m (ml_aslId l')) [] = [d']" "held_key ?l d = held_key l' d'"
        unfolding st_def using time_holds by blast
      have "l' \<in> set ls" using l'(1) by (auto simp: ls dest: in_set_takeD)
      moreover have "l' \<noteq> ?l" using l'(1) same assms(1) by (auto simp: in_set_conv_nth)
      moreover have "mc_tdId d \<in> mc_tdId ` set (rows l')" using l'(2) get [OF \<open>l' \<in> set ls\<close>] held_key_td [OF l'(3)] by simp
      ultimately show False using claims_once [where F = rows, OF dist l d(1)] d(2) by (simp add: m)
    qed
    have none': "jmap_get (snd st) (ml_aslId ?l) = None" using at(2) [OF assms(1)] none by simp
    show ?thesis
    proof (cases "\<exists>d. only_claim J opts cands lines vs i d")
      case True
      then obtain d where d: "only_claim J opts cands lines vs i d" by blast
      then have r: "rows ?l = [d]" "claims_of m (mc_tdId d) = 1" using claim [OF l] by blast+
      have "d \<in> set (rows ?l)" using r(1) by simp
      then have "eligible (fst st) ?l d" using free [OF r] by (simp add: rows_def eligible_def)
      then have "time_step J m ?l st = take_row J ?l d RULE_AMOUNT_TIME (if RULE_AMOUNT_TIME = RULE_AMOUNT_TIME then SUGGESTED else MATCHED) st"
        using r by (simp add: time_step_def get [OF l])
      then have "jmap_get (snd (after_time J lines cands opts)) (ml_aslId ?l) = Some (gets J ?l d RULE_AMOUNT_TIME)"
        using at(1) [OF P] take_row_get [of J ?l d RULE_AMOUNT_TIME st "ml_aslId ?l"] by (simp add: time)
      then show ?thesis using d final by auto
    next
      case none_claims: False
      then have "time_step J m ?l st = st" using claim [OF l] by (auto simp: time_step_def get [OF l] split: list.splits)
      then have "jmap_get (snd (after_time J lines cands opts)) (ml_aslId ?l) = None" using at(1) [OF P] none' by (simp add: time)
      then show ?thesis using none_claims final by simp
    qed
  qed
qed

lemma other_line:
  assumes "i < length lines" and ids: "distinct (map ml_aslId lines)" and "\<not> is_customer (lines ! i)"
  shows "matchLines J lines cands opts ! i = unmatched (lines ! i)"
proof -
  have no: "ml_aslId (lines ! i) \<notin> ml_aslId ` set (customer_lines lines)"
    using assms ids by (auto simp: customers_filter distinct_map dest: inj_onD)
  have "jmap_get (snd (after_ref J lines cands opts)) (ml_aslId (lines ! i)) = None"
    unfolding after_ref_def using pass_frame [OF ref_pass_step no] by simp
  then have "jmap_get (snd (after_auth J lines cands opts)) (ml_aslId (lines ! i)) = None"
    unfolding after_auth_def using pass_frame [OF auth_pass_step no] by simp
  moreover have "ml_aslId (lines ! i) \<notin> ml_aslId ` set (waiting_lines J lines cands opts)" using no by (auto simp: open_lines_def)
  ultimately have "jmap_get (snd (after_time J lines cands opts)) (ml_aslId (lines ! i)) = None"
    unfolding after_time_def Let_def using pass_frame [OF time_pass_step [OF waiting_distinct [OF ids]]] by (simp add: Let_def)
  then show ?thesis by (simp add: result_at [OF assms(1)])
qed

section \<open>Property\<close>

text \<open>
  C40: the verdict of every line, for lines with ids of their own. A line with no customer is unmatched. Another is matched to the nearest row
  that its reference names within the tolerance, of the rows not held by lines that were served before it; else to the nearest row with its
  approval code, card and amount; else, as a suggestion, to the row of its amount within the window, when that row is the only one the line
  can take and no other line left without a match can take it; else it is unmatched. The nearest row is the one of the smallest difference,
  then the earliest.
\<close>

theorem matchLines_sound:
  assumes "distinct (map ml_aslId lines)" and "i < length lines"
  shows "line_choice J opts cands lines (matchLines J lines cands opts) i"
proof (cases "is_customer (lines ! i)")
  case False
  then show ?thesis using other_line [OF assms(2,1) False] by (simp add: line_choice_def)
next
  case True
  note ref = ref_turn [OF assms(2,1) True, of J opts cands]
  show ?thesis
  proof (cases "ref_rows J opts cands lines (matchLines J lines cands opts) i = []")
    case no_ref: True
    then have r: "jmap_get (snd (after_ref J lines cands opts)) (ml_aslId (lines ! i)) = None" using ref by simp
    note auth = auth_turn [OF assms(2,1) True r]
    show ?thesis
    proof (cases "auth_rows J opts cands lines (matchLines J lines cands opts) i = []")
      case no_auth: True
      then have a: "jmap_get (snd (after_auth J lines cands opts)) (ml_aslId (lines ! i)) = None" using auth by simp
      show ?thesis using time_turn [OF assms(2,1) True a] True no_ref no_auth by (simp add: line_choice_def)
    qed (use auth True no_ref in \<open>simp add: line_choice_def\<close>)
  qed (use ref True in \<open>simp add: line_choice_def\<close>)
qed

text \<open>A line whose reference two rows carry, one a rupee off and listed first: it takes the exact one.\<close>

definition sample_off :: match_candidate where
  "sample_off = sample_row\<lparr> mc_tdId := ''off'', mc_amount := 99 \<rparr>"

theorem matchLines_sound_witness:
  "mv_tdId (matchLines decimal20 sample_statement [sample_off, sample_row] sample_matching ! 0) = Some ''row'' \<and>
   mv_rule (matchLines decimal20 sample_statement [sample_off, sample_row] sample_matching ! 0) = Some RULE_REF"
proof -
  let ?vs = "matchLines decimal20 sample_statement [sample_off, sample_row] sample_matching"
  have sample: "length sample_statement = 2" "distinct (map ml_aslId sample_statement)" "is_customer (sample_statement ! 0)"
    by (simp_all add: sample_statement_def is_customer_def isCustomerKind_def truthy_def)
  have "held_rows sample_matching sample_statement ?vs (\<lambda>j r. r = RULE_REF \<and> j < 0) = {}" by (simp add: held_rows_def sample_matching_def)
  then have rows: "ref_rows decimal20 sample_matching [sample_off, sample_row] sample_statement ?vs 0 = [sample_off, sample_row]"
    by (simp add: ref_rows_def rows_for_def takes_by_def kindTakes_def ref_hit_def off_by_def folded_def toUpperCase_def js_trim_def is_space_def
        upper_char_def sample_statement_def sample_off_def sample_row_def sample_matching_def truthy_def d20.minus_paise)
  have "c = sample_row" if "nearest decimal20 (sample_statement ! 0) [sample_off, sample_row] c" for c
    using that by (auto simp: nearest_def off_by_def sample_statement_def sample_off_def sample_row_def d20.minus_paise)
  moreover have "line_choice decimal20 sample_matching [sample_off, sample_row] sample_statement ?vs 0"
    using sample(1) by (intro matchLines_sound [OF sample(2)]) simp
  ultimately have "?vs ! 0 = gets decimal20 (sample_statement ! 0) sample_row RULE_REF" using sample(3) rows by (auto simp: line_choice_def)
  moreover have "mc_tdId sample_row = ''row''" by (simp add: sample_row_def)
  ultimately show ?thesis by (simp add: gets_def)
qed

end
