(* ===== verification/Csv_Reader.thy ===== *)
theory Csv_Reader
  imports Prelude "HOL-Library.Word"
begin

text \<open>
  \<open>stocks/stock-voucher/csv.helper.ts\<close>: the CSV reader of the stock import and of the settlement statements.
  A JavaScript string is its list of 16-bit code units. The loop over \<open>index\<close> is the recursion over what
  is left of the input; \<open>toLowerCase\<close>, a table of Unicode, is the parameter \<open>lower\<close>.
\<close>

section \<open>Code units\<close>

type_synonym code = "16 word"
type_synonym text16 = "code list"

text \<open>An ASCII text in UTF-16.\<close>

definition ascii16 :: "string \<Rightarrow> text16" where
  "ascii16 s = map (\<lambda>c. of_char c) s"

definition BOM :: code where "BOM = 0xFEFF"
definition QUOTE :: code where "QUOTE = 0x22"
definition COMMA :: code where "COMMA = 0x2C"
definition CR :: code where "CR = 0x0D"
definition LF :: code where "LF = 0x0A"

lemmas code_defs = BOM_def QUOTE_def COMMA_def CR_def LF_def

text \<open>The white space and line terminators \<open>trim\<close> removes.\<close>

definition white :: "code \<Rightarrow> bool" where
  "white c \<longleftrightarrow> (let n = unat c in 9 \<le> n \<and> n \<le> 13 \<or> n = 32 \<or> n = 160 \<or> n = 0x1680 \<or> 0x2000 \<le> n \<and> n \<le> 0x200A \<or>
     n = 0x2028 \<or> n = 0x2029 \<or> n = 0x202F \<or> n = 0x205F \<or> n = 0x3000 \<or> n = 0xFEFF)"

definition trim16 :: "text16 \<Rightarrow> text16" where
  "trim16 s = rev (dropWhile white (rev (dropWhile white s)))"

section \<open>Splitting the text\<close>

record csv_state =
  cv_rows :: "text16 list list"
  cv_row :: "text16 list"
  cv_cell :: text16

definition endCell :: "csv_state \<Rightarrow> csv_state" where
  "endCell s = s\<lparr> cv_row := cv_row s @ [cv_cell s], cv_cell := [] \<rparr>"

definition endRow :: "csv_state \<Rightarrow> csv_state" where
  "endRow s = (let t = endCell s in t\<lparr> cv_rows := cv_rows t @ [cv_row t], cv_row := [] \<rparr>)"

text \<open>The two modes of the loop: \<open>csv_plain\<close> outside quotes, \<open>csv_quoted\<close> inside.\<close>

fun csv_plain :: "text16 \<Rightarrow> csv_state \<Rightarrow> csv_state"
and csv_quoted :: "text16 \<Rightarrow> csv_state \<Rightarrow> csv_state" where
  "csv_plain [] s = s"
| "csv_plain (c # cs) s =
     (if c = QUOTE then csv_quoted cs s
      else if c = COMMA then csv_plain cs (endCell s)
      else if c = CR \<or> c = LF then csv_plain (if c = CR \<and> cs \<noteq> [] \<and> hd cs = LF then tl cs else cs) (endRow s)
      else csv_plain cs (s\<lparr>cv_cell := cv_cell s @ [c]\<rparr>))"
| "csv_quoted [] s = s"
| "csv_quoted (c # cs) s =
     (if c = QUOTE then
        (if cs \<noteq> [] \<and> hd cs = QUOTE then csv_quoted (tl cs) (s\<lparr>cv_cell := cv_cell s @ [QUOTE]\<rparr>) else csv_plain cs s)
      else csv_quoted cs (s\<lparr>cv_cell := cv_cell s @ [c]\<rparr>))"

definition csv_start :: csv_state where
  "csv_start = \<lparr> cv_rows = [], cv_row = [], cv_cell = [] \<rparr>"

definition csv_finish :: "csv_state \<Rightarrow> text16 list list" where
  "csv_finish s = cv_rows (if cv_cell s \<noteq> [] \<or> cv_row s \<noteq> [] then endRow s else s)"

definition parseCsv :: "text16 \<Rightarrow> text16 list list" where
  "parseCsv text = csv_finish (csv_plain (if text \<noteq> [] \<and> hd text = BOM then tl text else text) csv_start)"

section \<open>The table\<close>

record csv_row =
  cw_lineNo :: nat
  cw_cells :: "(text16 \<times> text16) list"

record csv_table =
  ct_headers :: "text16 list"
  ct_rows :: "csv_row list"

text \<open>A plain object ignores a string assigned to its \<open>__proto__\<close>.\<close>

definition proto_key :: text16 where
  "proto_key = [0x5F, 0x5F, 0x70, 0x72, 0x6F, 0x74, 0x6F, 0x5F, 0x5F]"

definition blank_row :: "text16 list \<Rightarrow> bool" where
  "blank_row cells \<longleftrightarrow> list_all (\<lambda>cell. trim16 cell = []) cells"

text \<open>\<open>cells[column] ?? ''\<close>, trimmed.\<close>

definition cell_at :: "text16 list \<Rightarrow> nat \<Rightarrow> text16" where
  "cell_at cells column = trim16 (if column < length cells then cells ! column else [])"

definition csv_record :: "text16 list \<Rightarrow> text16 list \<Rightarrow> (text16 \<times> text16) list" where
  "csv_record headers cells = foldl (\<lambda>r (column, header). if header = proto_key then r else jmap_set header (cell_at cells column) r) []
     (zip [0..<length headers] headers)"

fun csv_records :: "text16 list \<Rightarrow> nat \<Rightarrow> text16 list list \<Rightarrow> csv_row list" where
  "csv_records headers i [] = []"
| "csv_records headers i (cells # rest) =
     (if blank_row cells then csv_records headers (i + 1) rest
      else \<lparr> cw_lineNo = i + 1, cw_cells = csv_record headers cells \<rparr> # csv_records headers (i + 1) rest)"

definition readCsvTable :: "(text16 \<Rightarrow> text16) \<Rightarrow> text16 \<Rightarrow> csv_table" where
  "readCsvTable lower text = (case parseCsv text of [] \<Rightarrow> \<lparr> ct_headers = [], ct_rows = [] \<rparr>
     | h # rows \<Rightarrow> (let headers = map (\<lambda>c. lower (trim16 c)) h
         in \<lparr> ct_headers = headers, ct_rows = csv_records headers 1 rows \<rparr>))"

section \<open>A printer, as RFC 4180 has it\<close>

text \<open>A cell is printed as it is, or in quotes with its quotes doubled; it must be in quotes when it holds a quote, a
  comma or a line ending.\<close>

definition double_quotes :: "text16 \<Rightarrow> text16" where
  "double_quotes cell = concat (map (\<lambda>c. if c = QUOTE then [QUOTE, QUOTE] else [c]) cell)"

definition plain_cell :: "text16 \<Rightarrow> bool" where
  "plain_cell cell \<longleftrightarrow> list_all (\<lambda>c. c \<noteq> QUOTE \<and> c \<noteq> COMMA \<and> c \<noteq> CR \<and> c \<noteq> LF) cell"

definition print_cell :: "bool \<times> text16 \<Rightarrow> text16" where
  "print_cell q = (if fst q then QUOTE # double_quotes (snd q) @ [QUOTE] else snd q)"

fun print_row :: "(bool \<times> text16) list \<Rightarrow> text16" where
  "print_row [] = []"
| "print_row [q] = print_cell q"
| "print_row (q # qs) = print_cell q @ COMMA # print_row qs"

definition print_csv :: "text16 \<Rightarrow> (bool \<times> text16) list list \<Rightarrow> text16" where
  "print_csv eol rows = concat (map (\<lambda>r. print_row r @ eol) rows)"

text \<open>A document that can be printed: no empty row, and every cell that needs quotes has them.\<close>

definition printable :: "(bool \<times> text16) list list \<Rightarrow> bool" where
  "printable rows \<longleftrightarrow> list_all (\<lambda>r. r \<noteq> [] \<and> list_all (\<lambda>q. fst q \<or> plain_cell (snd q)) r) rows"

section \<open>The scanner over a printed cell\<close>

lemma quoted_cell:
  assumes "rest = [] \<or> hd rest \<noteq> QUOTE"
  shows "csv_quoted (double_quotes cell @ QUOTE # rest) s = csv_plain rest (s\<lparr>cv_cell := cv_cell s @ cell\<rparr>)"
proof (induction cell arbitrary: s)
  case Nil
  then show ?case using assms by (auto simp: double_quotes_def)
next
  case (Cons c cell)
  have "double_quotes (c # cell) = (if c = QUOTE then [QUOTE, QUOTE] else [c]) @ double_quotes cell" by (simp add: double_quotes_def)
  then show ?case using Cons.IH [of "s\<lparr>cv_cell := cv_cell s @ [c]\<rparr>"] by (cases "c = QUOTE") auto
qed

lemma plain_scan:
  "plain_cell cell \<Longrightarrow> csv_plain (cell @ rest) s = csv_plain rest (s\<lparr>cv_cell := cv_cell s @ cell\<rparr>)"
proof (induction cell arbitrary: s)
  case (Cons c cell)
  then show ?case using Cons.IH [of "s\<lparr>cv_cell := cv_cell s @ [c]\<rparr>"] by (auto simp: plain_cell_def)
qed simp

lemma scan_cell:
  assumes "fst q \<or> plain_cell (snd q)" and "rest = [] \<or> hd rest \<noteq> QUOTE"
  shows "csv_plain (print_cell q @ rest) s = csv_plain rest (s\<lparr>cv_cell := cv_cell s @ snd q\<rparr>)"
  using assms quoted_cell [OF assms(2), of "snd q" s] plain_scan [of "snd q" rest s] by (auto simp: print_cell_def)

text \<open>A line ending of one kind through the document.\<close>

definition line_ending :: "text16 \<Rightarrow> bool" where
  "line_ending eol \<longleftrightarrow> eol = [LF] \<or> eol = [CR] \<or> eol = [CR, LF]"

lemma distinct_codes [simp]: "QUOTE \<noteq> COMMA" "QUOTE \<noteq> CR" "QUOTE \<noteq> LF" "COMMA \<noteq> CR" "COMMA \<noteq> LF" "CR \<noteq> LF" "COMMA \<noteq> QUOTE"
  "CR \<noteq> QUOTE" "LF \<noteq> QUOTE" "CR \<noteq> COMMA" "LF \<noteq> COMMA" "LF \<noteq> CR" "QUOTE \<noteq> BOM" "BOM \<noteq> QUOTE"
  by (simp_all add: code_defs)

text \<open>What follows a row ended by a lone carriage return does not begin with a line feed.\<close>

lemma scan_ending:
  assumes "line_ending eol" and "eol = [CR] \<longrightarrow> rest = [] \<or> hd rest \<noteq> LF"
  shows "csv_plain (eol @ rest) s = csv_plain rest (endRow s)"
  using assms by (auto simp: line_ending_def)

lemma ending_head: "line_ending eol \<Longrightarrow> eol @ rest \<noteq> [] \<and> hd (eol @ rest) \<noteq> QUOTE"
  by (auto simp: line_ending_def)

lemma scan_row:
  assumes "r \<noteq> []" and "list_all (\<lambda>q. fst q \<or> plain_cell (snd q)) r" and "line_ending eol" and "eol = [CR] \<longrightarrow> rest = [] \<or> hd rest \<noteq> LF"
    and "cv_cell s = []"
  shows "csv_plain (print_row r @ eol @ rest) s =
    csv_plain rest (s\<lparr> cv_rows := cv_rows s @ [cv_row s @ map snd r], cv_row := [], cv_cell := [] \<rparr>)"
  using assms
proof (induction r arbitrary: s rule: print_row.induct)
  case (2 q)
  then have "csv_plain (print_cell q @ (eol @ rest)) s = csv_plain (eol @ rest) (s\<lparr>cv_cell := cv_cell s @ snd q\<rparr>)"
    using ending_head [of eol rest] by (intro scan_cell) auto
  then show ?case using 2 by (cases s) (simp add: scan_ending endRow_def endCell_def)
next
  case (3 q q' qs)
  have "csv_plain (print_cell q @ (COMMA # print_row (q' # qs) @ eol @ rest)) s =
      csv_plain (COMMA # print_row (q' # qs) @ eol @ rest) (s\<lparr>cv_cell := cv_cell s @ snd q\<rparr>)"
    using 3 by (intro scan_cell) auto
  then show ?case using "3.IH" [of "endCell (s\<lparr>cv_cell := cv_cell s @ snd q\<rparr>)"] "3.prems" by (simp add: endCell_def)
qed simp

lemma row_head:
  assumes "r \<noteq> []" and "list_all (\<lambda>q. fst q \<or> plain_cell (snd q)) r"
  shows "print_row r = [] \<or> hd (print_row r) \<noteq> LF"
  using assms
proof (induction r rule: print_row.induct)
  case (2 q)
  then show ?case by (cases "snd q") (auto simp: print_cell_def plain_cell_def)
next
  case (3 q q' qs)
  then show ?case by (cases "snd q") (auto simp: print_cell_def plain_cell_def)
qed simp

lemma scan_rows:
  assumes "printable rows" and "line_ending eol" and "cv_cell s = []" and "cv_row s = []" and "eol = [CR] \<longrightarrow> rest = [] \<or> hd rest \<noteq> LF"
  shows "csv_plain (print_csv eol rows @ rest) s = csv_plain rest (s\<lparr> cv_rows := cv_rows s @ map (map snd) rows \<rparr>)"
  using assms(1-4)
proof (induction rows arbitrary: s)
  case Nil
  then show ?case by (simp add: print_csv_def)
next
  case (Cons r rows)
  have r: "r \<noteq> []" "list_all (\<lambda>q. fst q \<or> plain_cell (snd q)) r" and rows: "printable rows" using Cons.prems(1) by (auto simp: printable_def)
  have head: "eol = [CR] \<longrightarrow> print_csv eol rows @ rest = [] \<or> hd (print_csv eol rows @ rest) \<noteq> LF"
  proof (cases rows)
    case (Cons r' rows')
    then have "print_row r' = [] \<or> hd (print_row r') \<noteq> LF" using rows by (intro row_head) (auto simp: printable_def)
    then show ?thesis using Cons by (auto simp: print_csv_def hd_append)
  qed (use assms(5) in \<open>simp add: print_csv_def\<close>)
  have "print_csv eol (r # rows) @ rest = print_row r @ eol @ print_csv eol rows @ rest" by (simp add: print_csv_def)
  then show ?case
    using scan_row [OF r Cons.prems(2) head Cons.prems(3)] Cons.IH [OF rows Cons.prems(2), of "s\<lparr> cv_rows := cv_rows s @ [cv_row s @ map snd r], cv_row := [], cv_cell := [] \<rparr>"]
      Cons.prems(3,4) by (cases s) simp
qed

text \<open>A last row that no line ending follows stays in the buffers.\<close>

lemma scan_last:
  assumes "r \<noteq> []" and "list_all (\<lambda>q. fst q \<or> plain_cell (snd q)) r" and "cv_cell s = []"
  shows "csv_plain (print_row r) s = s\<lparr> cv_row := cv_row s @ map snd (butlast r), cv_cell := snd (last r) \<rparr>"
  using assms
proof (induction r arbitrary: s rule: print_row.induct)
  case (2 q)
  then show ?case using scan_cell [of q "[]" s] by (cases s) simp
next
  case (3 q q' qs)
  have "csv_plain (print_cell q @ (COMMA # print_row (q' # qs))) s = csv_plain (COMMA # print_row (q' # qs)) (s\<lparr>cv_cell := cv_cell s @ snd q\<rparr>)"
    using 3 by (intro scan_cell) auto
  then show ?case using "3.IH" [of "endCell (s\<lparr>cv_cell := cv_cell s @ snd q\<rparr>)"] "3.prems" by (simp add: endCell_def)
qed simp

text \<open>A document as a file: the last row ended like the others, or not.\<close>

definition print_file :: "text16 \<Rightarrow> bool \<Rightarrow> (bool \<times> text16) list list \<Rightarrow> text16" where
  "print_file eol ended rows = (if ended \<or> rows = [] then print_csv eol rows else print_csv eol (butlast rows) @ print_row (last rows))"

text \<open>What is read of it: all the rows, but for a last row of one empty cell that no line ending follows.\<close>

definition file_rows :: "bool \<Rightarrow> (bool \<times> text16) list list \<Rightarrow> text16 list list" where
  "file_rows ended rows = (if \<not> ended \<and> rows \<noteq> [] \<and> map snd (last rows) = [[]] then map (map snd) (butlast rows) else map (map snd) rows)"

lemma file_scanned:
  assumes "printable rows" and "line_ending eol"
  shows "csv_finish (csv_plain (print_file eol ended rows) csv_start) = file_rows ended rows"
proof (cases "ended \<or> rows = []")
  case True
  then show ?thesis using scan_rows [OF assms, of csv_start "[]"] by (auto simp: print_file_def file_rows_def csv_finish_def csv_start_def)
next
  case False
  then obtain front r where rows: "rows = front @ [r]" by (cases rows rule: rev_cases) auto
  have r: "r \<noteq> []" "list_all (\<lambda>q. fst q \<or> plain_cell (snd q)) r" and front: "printable front" using assms(1) by (auto simp: printable_def rows)
  have "csv_plain (print_csv eol front @ print_row r) csv_start = csv_plain (print_row r) (csv_start\<lparr> cv_rows := map (map snd) front \<rparr>)"
    using scan_rows [OF front assms(2), of csv_start "print_row r"] row_head [OF r] by (simp add: csv_start_def)
  also have "\<dots> = \<lparr> cv_rows = map (map snd) front, cv_row = map snd (butlast r), cv_cell = snd (last r) \<rparr>"
    using scan_last [OF r] by (simp add: csv_start_def)
  finally have scanned: "csv_plain (print_file eol ended rows) csv_start = \<lparr> cv_rows = map (map snd) front, cv_row = map snd (butlast r), cv_cell = snd (last r) \<rparr>"
    using False by (simp add: print_file_def rows)
  have cells: "map snd r = map snd (butlast r) @ [snd (last r)]" using r(1) by (metis append_butlast_last_id list.simps(8,9) map_append)
  then have "map snd r = [[]] \<longleftrightarrow> snd (last r) = [] \<and> butlast r = []" by auto
  then show ?thesis using False unfolding scanned by (simp add: csv_finish_def endRow_def endCell_def file_rows_def rows cells)
qed

lemma csv_printed:
  assumes "printable rows" and "line_ending eol"
  shows "parseCsv (BOM # print_file eol ended rows) = file_rows ended rows"
    and "print_file eol ended rows = [] \<or> hd (print_file eol ended rows) \<noteq> BOM \<Longrightarrow> parseCsv (print_file eol ended rows) = file_rows ended rows"
  using file_scanned [OF assms] by (auto simp: parseCsv_def)

section \<open>The records of a table\<close>

text \<open>The rows that are not blank, with their place in the file.\<close>

definition filled_rows :: "text16 list list \<Rightarrow> (nat \<times> text16 list) list" where
  "filled_rows rows = filter (\<lambda>(i, cells). \<not> blank_row cells) (zip [0..<length rows] rows)"

lemma zip_from: "zip [i..<i + length (x # xs)] (x # xs) = (i, x) # zip [Suc i..<Suc i + length xs] xs"
proof -
  have "[i..<i + length (x # xs)] = i # [Suc i..<Suc i + length xs]" by (simp add: upt_rec)
  then show ?thesis by simp
qed

lemma csv_records_filter:
  "csv_records headers i rows = map (\<lambda>(n, cells). \<lparr> cw_lineNo = n + 1, cw_cells = csv_record headers cells \<rparr>)
     (filter (\<lambda>(n, cells). \<not> blank_row cells) (zip [i..<i + length rows] rows))"
proof (induction rows arbitrary: i)
  case (Cons cells rows)
  show ?case using Cons.IH [of "Suc i"] unfolding zip_from by simp
qed simp

lemma csv_fold_other:
  "h \<notin> set hs \<Longrightarrow> jmap_get (foldl (\<lambda>r (column, header). if header = proto_key then r else jmap_set header (f column) r) r0
     (zip [k..<k + length hs] hs)) h = jmap_get r0 h"
proof (induction hs arbitrary: k r0)
  case (Cons x hs)
  then show ?case using Cons.IH [where k = "Suc k"] unfolding zip_from by (simp add: update_conv' del: upt_Suc)
qed simp

lemma csv_fold_get:
  "distinct hs \<Longrightarrow> j < length hs \<Longrightarrow> hs ! j \<noteq> proto_key \<Longrightarrow>
   jmap_get (foldl (\<lambda>r (column, header). if header = proto_key then r else jmap_set header (f column) r) r0
     (zip [k..<k + length hs] hs)) (hs ! j) = Some (f (k + j))"
proof (induction hs arbitrary: k r0 j)
  case (Cons x hs)
  show ?case
  proof (cases j)
    case 0
    then show ?thesis using Cons.prems csv_fold_other [where h = x and hs = hs and k = "Suc k" and f = f] unfolding zip_from by (simp add: update_conv' del: upt_Suc)
  next
    case (Suc i)
    then show ?thesis using Cons.prems Cons.IH [where j = i and k = "Suc k"] unfolding zip_from by (simp del: upt_Suc)
  qed
qed simp

lemma csv_record_get:
  "distinct headers \<Longrightarrow> j < length headers \<Longrightarrow> headers ! j \<noteq> proto_key \<Longrightarrow>
   jmap_get (csv_record headers cells) (headers ! j) = Some (cell_at cells j)"
  using csv_fold_get [of headers j "cell_at cells" "[]" 0] by (simp add: csv_record_def)

lemma zip_shift: "zip [Suc 0..<Suc (length xs)] xs = map (\<lambda>(i, c). (Suc i, c)) (zip [0..<length xs] xs)"
  by (simp add: map_Suc_upt [symmetric] zip_map1 del: upt_Suc)

lemma table_rows:
  assumes "parseCsv text = h # rows"
  shows "ct_rows (readCsvTable lower text) = map (\<lambda>(i, cells). \<lparr> cw_lineNo = i + 2,
    cw_cells = csv_record (map (\<lambda>c. lower (trim16 c)) h) cells \<rparr>) (filled_rows rows)"
  using zip_shift [of rows]
  by (simp add: readCsvTable_def assms Let_def csv_records_filter filled_rows_def filter_map comp_def split_def del: upt_Suc)

section \<open>Properties\<close>

text \<open>
  C38: what is written is read back. A document of non-empty rows, printed with any choice of quotes that quotes the
  cells that need it, with one kind of line ending, the last row ended or not, and a byte-order mark, is read as the same
  rows of cells; only a last row of one empty cell that is not ended is not there. Without the mark the same holds unless
  the text happens to begin with one.
\<close>

theorem parseCsv_roundtrip:
  assumes "printable rows" and "line_ending eol"
  shows "parseCsv (BOM # print_file eol ended rows) = file_rows ended rows \<and>
    (print_file eol ended rows = [] \<or> hd (print_file eol ended rows) \<noteq> BOM \<longrightarrow> parseCsv (print_file eol ended rows) = file_rows ended rows)"
  using csv_printed [OF assms] by blast

theorem parseCsv_roundtrip_witness:
  "parseCsv (BOM # print_file [CR, LF] False [[(False, [0x61]), (True, [0x62, COMMA, QUOTE, LF])], [(False, []), (False, [])]]) =
     [[[0x61], [0x62, COMMA, QUOTE, LF]], [[], []]]"
  using parseCsv_roundtrip [of "[[(False, [0x61]), (True, [0x62, COMMA, QUOTE, LF])], [(False, []), (False, [])]]" "[CR, LF]" False]
  by (simp add: printable_def plain_cell_def line_ending_def file_rows_def code_defs)

text \<open>
  A printed table is read row by row. Each row of cells after the header that is not blank gives one record, in
  order, carrying its place among the rows, and each column whose header is its own holds the cell of that row,
  trimmed, or the empty text where the row is short.
\<close>

theorem readCsvTable_rows:
  assumes "printable (h # rows)" and "line_ending eol" and "distinct (map (\<lambda>q. lower (trim16 (snd q))) h)"
  shows "map (\<lambda>r. cw_lineNo r) (ct_rows (readCsvTable lower (BOM # print_csv eol (h # rows)))) =
      map (\<lambda>(i, cells). i + 2) (filled_rows (map (map snd) rows)) \<and>
    (\<forall>k < length (filled_rows (map (map snd) rows)). \<forall>j < length h. lower (trim16 (snd (h ! j))) \<noteq> proto_key \<longrightarrow>
      jmap_get (cw_cells (ct_rows (readCsvTable lower (BOM # print_csv eol (h # rows))) ! k)) (lower (trim16 (snd (h ! j)))) =
        Some (cell_at (snd (filled_rows (map (map snd) rows) ! k)) j))"
proof -
  let ?hs = "map (\<lambda>q. lower (trim16 (snd q))) h" and ?rows = "map (map snd) rows"
  have "parseCsv (BOM # print_csv eol (h # rows)) = map snd h # ?rows"
    using csv_printed(1) [OF assms(1,2), of True] by (simp add: print_file_def file_rows_def)
  note t = table_rows [OF this, of lower, unfolded map_map comp_def]
  show ?thesis unfolding t using csv_record_get [OF assms(3)] by (auto simp: comp_def split_def)
qed

theorem readCsvTable_rows_witness:
  "map (\<lambda>r. cw_lineNo r) (ct_rows (readCsvTable (\<lambda>t. t) (BOM # print_csv [LF] [[(False, [0x61])], [(False, [])], [(False, [0x62])]]))) = [3]"
  using readCsvTable_rows [of "[(False, [0x61])]" "[[(False, [])], [(False, [0x62])]]" "[LF]" "\<lambda>t. t"]
  by (simp add: printable_def plain_cell_def line_ending_def code_defs filled_rows_def blank_row_def trim16_def white_def)

end
