(* ===== verification/Batch_Number.thy ===== *)
theory Batch_Number
  imports Digits
begin

text \<open>
  \<open>common/utils/batch-number.util.ts\<close>: the next batch number of an item. A number read from a batch is a natural
  number, as the double of the source is while it stays below 2^53; the loop over taken candidates is a partial
  function, proved to return. Text is ASCII.
\<close>

section \<open>Reading a batch number\<close>

record batch_sequence =
  bq_prefix :: string
  bq_numericValue :: nat
  bq_width :: nat

definition normalizeBatchNo :: "string option \<Rightarrow> string option" where
  "normalizeBatchNo value = trim_or_null value"

definition normalizeBatchNoKey :: "string \<Rightarrow> string" where
  "normalizeBatchNoKey value = toLowerCase (js_trim value)"

definition normalizeConfiguredPrefix :: "string option \<Rightarrow> string option" where
  "normalizeConfiguredPrefix value = (case normalizeBatchNo value of None \<Rightarrow> None
     | Some p \<Rightarrow> Some (if last p \<in> {CHR ''-'', CHR ''_'', CHR ''/''} then p else p @ ''-''))"

text \<open>The pattern \<open>^(.*?)(\d+)$\<close>: the shortest prefix leaves the longest run of digits at the end, and the dot matches
  no line ending.\<close>

definition split_digits :: "string \<Rightarrow> string \<times> string" where
  "split_digits s = (rev (dropWhile is_digit (rev s)), rev (takeWhile is_digit (rev s)))"

definition parseBatchNoSequence :: "string \<Rightarrow> batch_sequence option" where
  "parseBatchNoSequence batchNo = (case normalizeBatchNo (Some batchNo) of None \<Rightarrow> None
     | Some s \<Rightarrow> (case split_digits s of (p, ds) \<Rightarrow>
         if ds = [] \<or> list_ex (\<lambda>c. (of_char c :: nat) \<in> {10, 13}) p then None
         else Some \<lparr> bq_prefix = p, bq_numericValue = read_nat ds, bq_width = length ds \<rparr>))"

definition pad_zeros :: "nat \<Rightarrow> string \<Rightarrow> string" where
  "pad_zeros w s = replicate (w - length s) (CHR ''0'') @ s"

definition formatGeneratedBatchNo :: "string \<Rightarrow> nat \<Rightarrow> nat \<Rightarrow> string" where
  "formatGeneratedBatchNo p nextNumber width = p @ pad_zeros (max width (length (show_nat nextNumber))) (show_nat nextNumber)"

section \<open>The next one\<close>

text \<open>The highest number, the first of equals.\<close>

definition highest_sequence :: "batch_sequence list \<Rightarrow> batch_sequence option" where
  "highest_sequence qs = foldl (\<lambda>best q. case best of None \<Rightarrow> Some q
     | Some h \<Rightarrow> (if bq_numericValue h < bq_numericValue q then Some q else Some h)) None qs"

partial_function (option) next_free :: "string list \<Rightarrow> string \<Rightarrow> nat \<Rightarrow> nat \<Rightarrow> string option" where
  "next_free taken p n width =
     (if normalizeBatchNoKey (formatGeneratedBatchNo p n width) \<in> set taken then next_free taken p (n + 1) width
      else Some (formatGeneratedBatchNo p n width))"

definition taken_keys :: "string list \<Rightarrow> string list" where
  "taken_keys existing = map normalizeBatchNoKey (List.map_filter (\<lambda>b. normalizeBatchNo (Some b)) existing)"

text \<open>Where the search starts: prefix, number and width.\<close>

definition batch_start :: "string list \<Rightarrow> string option \<Rightarrow> string \<times> nat \<times> nat" where
  "batch_start existing prefixOpt =
     (let configured = normalizeConfiguredPrefix prefixOpt;
          sequences = List.map_filter parseBatchNoSequence existing;
          candidates = (case configured of None \<Rightarrow> sequences
            | Some c \<Rightarrow> filter (\<lambda>q. normalizeBatchNoKey (bq_prefix q) = normalizeBatchNoKey c) sequences)
      in case highest_sequence candidates of
           None \<Rightarrow> (or_else configured ''B-'', 1, if configured = None then 1 else 2)
         | Some q \<Rightarrow> (bq_prefix q, bq_numericValue q + 1, bq_width q))"

definition generateNextBatchNo :: "string list \<Rightarrow> string option \<Rightarrow> string option" where
  "generateNextBatchNo existing prefixOpt = (case batch_start existing prefixOpt of (p, n, width) \<Rightarrow> next_free (taken_keys existing) p n width)"

section \<open>Candidates are told apart by their number\<close>

lemma digit_not_space: "is_digit c \<Longrightarrow> \<not> is_space c"
  by (auto simp: is_digit_def is_space_def)

lemma lower_digit [simp]: "is_digit c \<Longrightarrow> lower_char c = c"
  by (simp add: is_digit_def lower_char_def Let_def)

lemma trim_digits:
  assumes "ds \<noteq> []" and "list_all is_digit ds"
  shows "js_trim (p @ ds) = dropWhile is_space p @ ds"
proof -
  obtain d es where d: "ds = d # es" using assms(1) by (cases ds) auto
  then have "\<not> is_space d" using assms(2) digit_not_space by simp
  then have front: "dropWhile is_space (p @ ds) = dropWhile is_space p @ ds" using d by (induction p) auto
  obtain e fs where e: "rev ds = e # fs" using assms(1) by (cases "rev ds") auto
  then have "e \<in> set ds" by (metis list.set_intros(1) set_rev)
  then have "\<not> is_space e" using assms(2) digit_not_space by (auto simp: list_all_iff)
  then have rear: "dropWhile is_space (rev ds @ xs) = rev ds @ xs" for xs using e by simp
  show ?thesis unfolding js_trim_def front rev_append rear by simp
qed

lemma padded_digits: "list_all is_digit (pad_zeros w (show_nat n))" "pad_zeros w (show_nat n) \<noteq> []" "read_nat (pad_zeros w (show_nat n)) = n"
proof -
  show "list_all is_digit (pad_zeros w (show_nat n))"
    using show_nat_digits by (auto simp: pad_zeros_def list_all_iff is_digit_def)
  have "show_nat n \<noteq> []" by (subst show_nat.simps) simp
  then show "pad_zeros w (show_nat n) \<noteq> []" by (simp add: pad_zeros_def)
  show "read_nat (pad_zeros w (show_nat n)) = n" by (simp add: pad_zeros_def)
qed

lemma candidate_key: "normalizeBatchNoKey (formatGeneratedBatchNo p n width) =
    map lower_char (dropWhile is_space p) @ pad_zeros (max width (length (show_nat n))) (show_nat n)"
proof -
  have "map lower_char ds = ds" if "list_all is_digit ds" for ds using that by (induction ds) auto
  then show ?thesis
    by (simp add: normalizeBatchNoKey_def formatGeneratedBatchNo_def trim_digits padded_digits toLowerCase_def)
qed

lemma candidate_inject:
  "normalizeBatchNoKey (formatGeneratedBatchNo p m width) = normalizeBatchNoKey (formatGeneratedBatchNo p n width) \<longleftrightarrow> m = n"
  unfolding candidate_key by (metis append_same_eq padded_digits(3) same_append_eq)

text \<open>Trimming twice is trimming once, so the keys taken are those of the batches there are.\<close>

lemma dropWhile_rev_trim: "dropWhile P (rev (dropWhile P (rev (dropWhile P s)))) = rev (dropWhile P (rev (dropWhile P s)))"
proof (cases "dropWhile P s")
  case (Cons c cs)
  then have c: "\<not> P c" by (metis hd_dropWhile list.discI list.sel(1))
  then have "rev (dropWhile P (rev (c # cs))) = c # rev (dropWhile P (rev cs))" by (simp add: dropWhile_append)
  then show ?thesis using c Cons by simp
next
  case Nil
  show ?thesis unfolding Nil by simp
qed

lemma trim_twice [simp]: "js_trim (js_trim s) = js_trim s"
  unfolding js_trim_def dropWhile_rev_trim by simp

lemma taken_existing: "k \<noteq> [] \<Longrightarrow> k \<in> set (taken_keys existing) \<longleftrightarrow> k \<in> normalizeBatchNoKey ` set existing"
proof -
  have "normalizeBatchNo (Some b) = (if js_trim b = [] then None else Some (js_trim b))" for b
    by (simp add: normalizeBatchNo_def trim_or_null_def)
  moreover have "normalizeBatchNoKey (js_trim b) = normalizeBatchNoKey b" for b by (simp add: normalizeBatchNoKey_def)
  moreover have "js_trim b \<noteq> []" if "normalizeBatchNoKey b \<noteq> []" for b using that by (auto simp: normalizeBatchNoKey_def toLowerCase_def)
  ultimately show "k \<noteq> [] \<Longrightarrow> ?thesis" by (force simp: taken_keys_def List.map_filter_def image_iff)
qed

section \<open>The search ends\<close>

text \<open>Of one more candidates than there are keys, one is free.\<close>

lemma free_candidate:
  "\<exists>k \<le> length taken. normalizeBatchNoKey (formatGeneratedBatchNo p (n + k) width) \<notin> set taken"
proof (rule ccontr)
  let ?f = "\<lambda>k. normalizeBatchNoKey (formatGeneratedBatchNo p (n + k) width)"
  assume "\<not> ?thesis"
  then have "?f ` {..length taken} \<subseteq> set taken" by auto
  then have "card (?f ` {..length taken}) \<le> length taken" by (meson card_length card_mono finite_set le_trans)
  moreover have "inj_on ?f {..length taken}" by (rule inj_onI) (simp add: candidate_inject)
  ultimately show False by (simp add: card_image)
qed

lemma next_free_finds:
  assumes "normalizeBatchNoKey (formatGeneratedBatchNo p (n + k) width) \<notin> set taken"
  shows "\<exists>j \<le> k. next_free taken p n width = Some (formatGeneratedBatchNo p (n + j) width) \<and>
    normalizeBatchNoKey (formatGeneratedBatchNo p (n + j) width) \<notin> set taken \<and>
    (\<forall>i<j. normalizeBatchNoKey (formatGeneratedBatchNo p (n + i) width) \<in> set taken)"
  using assms
proof (induction k arbitrary: n)
  case 0
  then show ?case by (subst next_free.simps) simp
next
  case (Suc k)
  show ?case
  proof (cases "normalizeBatchNoKey (formatGeneratedBatchNo p n width) \<in> set taken")
    case True
    then have step: "next_free taken p n width = next_free taken p (Suc n) width" by (subst next_free.simps) simp
    from Suc.IH [of "Suc n"] Suc.prems obtain j where j: "j \<le> k" "next_free taken p (Suc n) width = Some (formatGeneratedBatchNo p (Suc n + j) width)"
      "normalizeBatchNoKey (formatGeneratedBatchNo p (Suc n + j) width) \<notin> set taken"
      "\<forall>i<j. normalizeBatchNoKey (formatGeneratedBatchNo p (Suc n + i) width) \<in> set taken" by auto
    have "\<forall>i<Suc j. normalizeBatchNoKey (formatGeneratedBatchNo p (n + i) width) \<in> set taken"
    proof (intro allI impI)
      fix i assume "i < Suc j"
      then show "normalizeBatchNoKey (formatGeneratedBatchNo p (n + i) width) \<in> set taken" using True j(4) by (cases i) simp_all
    qed
    then show ?thesis using j step by (intro exI [of _ "Suc j"]) simp
  next
    case False
    then show ?thesis by (intro exI [of _ 0]) (subst next_free.simps, simp)
  qed
qed

section \<open>Properties\<close>

text \<open>The numbers a double counts exactly: batches of at most fifteen digits, and fewer than 10^15 of them.\<close>

definition safe_numbers :: "string list \<Rightarrow> bool" where
  "safe_numbers existing \<longleftrightarrow> length existing < 10 ^ 15 \<and> list_all (\<lambda>q. bq_width q \<le> 15) (List.map_filter parseBatchNoSequence existing)"

lemma parsed_bound:
  assumes "parseBatchNoSequence b = Some q"
  shows "bq_numericValue q < 10 ^ bq_width q"
proof -
  have "list_all is_digit (rev (takeWhile is_digit (rev s)))" for s by (auto simp: list_all_iff dest: set_takeWhileD)
  from read_nat_bound [OF this] show ?thesis
    using assms by (auto simp: parseBatchNoSequence_def split_digits_def split: option.splits if_splits)
qed

lemma highest_member: "highest_sequence qs = Some q \<Longrightarrow> q \<in> set qs"
proof -
  have "foldl (\<lambda>best q. case best of None \<Rightarrow> Some q | Some h \<Rightarrow> (if bq_numericValue h < bq_numericValue q then Some q else Some h)) b qs = Some q \<Longrightarrow>
      q \<in> set qs \<or> b = Some q" for b
  proof (induction qs arbitrary: b)
    case (Cons x xs)
    from Cons.IH [OF Cons.prems [unfolded foldl_Cons]] show ?case by (auto split: option.splits if_splits)
  qed simp
  from this [of None] show "highest_sequence qs = Some q \<Longrightarrow> q \<in> set qs" by (simp add: highest_sequence_def)
qed

lemma start_bound:
  assumes "safe_numbers existing" and "batch_start existing prefixOpt = (p, n, width)"
  shows "n \<le> 10 ^ 15"
proof (cases "\<exists>q. n = bq_numericValue q + 1 \<and> q \<in> set (List.map_filter parseBatchNoSequence existing)")
  case True
  then obtain q b where q: "n = bq_numericValue q + 1" "parseBatchNoSequence b = Some q" "q \<in> set (List.map_filter parseBatchNoSequence existing)"
    by (fastforce simp: List.map_filter_def)
  then have "bq_width q \<le> 15" using assms(1) by (auto simp: safe_numbers_def list_all_iff)
  then have "(10::nat) ^ bq_width q \<le> 10 ^ 15" by (intro power_increasing) simp_all
  then show ?thesis using parsed_bound [OF q(2)] q(1) by simp
next
  case False
  then have "n = 1" using assms(2)
    by (auto simp: batch_start_def Let_def split: option.splits if_splits dest!: highest_member)
  then show ?thesis by simp
qed

text \<open>
  C39: the next batch number is found and is new. Where the numbers stay within a double, the search ends after at most
  one try more than there are batches, its number stays below 2^53, the batch number it returns differs from every
  existing one in more than case and surrounding space, and every number between the highest and it is taken.
\<close>

theorem generateNextBatchNo_fresh:
  assumes "safe_numbers existing" and "batch_start existing prefixOpt = (p, n, width)"
  shows "\<exists>j \<le> length existing. n + j < 2 ^ 53 \<and>
    generateNextBatchNo existing prefixOpt = Some (formatGeneratedBatchNo p (n + j) width) \<and>
    normalizeBatchNoKey (formatGeneratedBatchNo p (n + j) width) \<notin> normalizeBatchNoKey ` set existing \<and>
    (\<forall>i<j. normalizeBatchNoKey (formatGeneratedBatchNo p (n + i) width) \<in> normalizeBatchNoKey ` set existing)"
proof -
  have some: "normalizeBatchNoKey (formatGeneratedBatchNo p m width) \<noteq> []" for m
    unfolding candidate_key using padded_digits(2) by simp
  have len: "length (taken_keys existing) \<le> length existing" by (simp add: taken_keys_def List.map_filter_def)
  obtain k where k: "k \<le> length (taken_keys existing)" "normalizeBatchNoKey (formatGeneratedBatchNo p (n + k) width) \<notin> set (taken_keys existing)"
    using free_candidate by blast
  from next_free_finds [OF k(2)] obtain j where j: "j \<le> k" "next_free (taken_keys existing) p n width = Some (formatGeneratedBatchNo p (n + j) width)"
    "normalizeBatchNoKey (formatGeneratedBatchNo p (n + j) width) \<notin> set (taken_keys existing)"
    "\<forall>i<j. normalizeBatchNoKey (formatGeneratedBatchNo p (n + i) width) \<in> set (taken_keys existing)" by blast
  have "n + j < 2 ^ 53" using start_bound [OF assms] assms(1) j(1) k(1) len by (simp add: safe_numbers_def)
  then show ?thesis using j k(1) len assms(2) by (intro exI [of _ j]) (simp add: generateNextBatchNo_def flip: taken_existing [OF some])
qed

theorem generateNextBatchNo_fresh_witness:
  "\<exists>j \<le> 3. 8 + j < 2 ^ 53 \<and> generateNextBatchNo [''LOT-007'', ''lot-003'', ''B1''] (Some ''LOT'') = Some (formatGeneratedBatchNo ''LOT-'' (8 + j) 3)"
proof -
  have start: "batch_start [''LOT-007'', ''lot-003'', ''B1''] (Some ''LOT'') = (''LOT-'', 8, 3)"
    by (simp add: batch_start_def normalizeConfiguredPrefix_def normalizeBatchNo_def trim_or_null_def js_trim_def is_space_def
        parseBatchNoSequence_def split_digits_def is_digit_def read_nat_def normalizeBatchNoKey_def toLowerCase_def lower_char_def
        highest_sequence_def List.map_filter_def)
  have "safe_numbers [''LOT-007'', ''lot-003'', ''B1'']"
    by (simp add: safe_numbers_def normalizeBatchNo_def trim_or_null_def js_trim_def is_space_def
        parseBatchNoSequence_def split_digits_def is_digit_def List.map_filter_def)
  from generateNextBatchNo_fresh [OF this start] obtain j where "j \<le> length [''LOT-007'', ''lot-003'', ''B1'']" "8 + j < 2 ^ 53"
    "generateNextBatchNo [''LOT-007'', ''lot-003'', ''B1''] (Some ''LOT'') = Some (formatGeneratedBatchNo ''LOT-'' (8 + j) 3)" by blast
  then show ?thesis by (intro exI [of _ j] conjI) simp_all
qed

end
