(* ===== verification/Cheque_Allocation.thy ===== *)
theory Cheque_Allocation
  imports Allocation_Properties Js_Date
begin

text \<open>
  \<open>accountsModule/cheques/cheque-allocation.ts\<close> and \<open>assertBillUsable\<close> of \<open>receipt/receipt.guards.ts\<close>: the money of
  one cheque poured into the bills of a party through the allocation engine. The tables the transaction reads are
  arguments and the rows it writes are results. Of the database's order on the open bills the model leaves open only how its
  collation ranks the document references (\<open>rank\<close>) and the order of rows that agree on all three columns.
\<close>

section \<open>Refusals\<close>

datatype cheque_status = NOT_FOUND_404 | BAD_REQUEST_400 | CONFLICT_409

datatype cheque_error = ChequeError (ce_status: cheque_status) (ce_field: string) (ce_code: string)
  | EngineError alloc_error

definition wrong :: "cheque_status \<Rightarrow> string \<Rightarrow> cheque_error" where
  "wrong status field = ChequeError status field ''CHQ_ALLOCATION_WRONG''"

section \<open>Bills under lock\<close>

record locked_bill =
  lk_ablId :: string
  lk_ablAccYear :: string
  lk_ablPartyId :: string
  lk_ablBillType :: BillType
  lk_ablDocRefno :: string
  lk_ablDocDate :: int
  lk_ablDueDate :: "int option"
  lk_ablBillAmount :: rat
  lk_ablPendingAmount :: rat
  lk_ablDrCr :: DrCr
  lk_ablIsDeleted :: bool
  lk_ablCompanyId :: string
  lk_ablBranchId :: string

datatype bill_kind = RECEIVABLE | CREDIT_HELD

definition RECEIVABLE_BILL_TYPES :: "BillType list" where
  "RECEIVABLE_BILL_TYPES = [SALES, OPENING, INTEREST, BillType.JOURNAL, PURCHASE_RETURN]"

definition CREDIT_BILL_TYPES :: "BillType list" where
  "CREDIT_BILL_TYPES = [BillType.ADVANCE, SALES_RETURN, OPENING, BillType.JOURNAL]"

type_synonym locked_map = "(string \<times> locked_bill) list"

text \<open>The key of a bill under lock; the rows come in the order of their ids, which the map does not keep.\<close>

definition locked_key :: "locked_bill \<Rightarrow> string" where
  "locked_key b = key_of (lk_ablId b) (lk_ablAccYear b)"

definition lockBills :: "locked_bill list \<Rightarrow> (string \<times> string) list \<Rightarrow> locked_map" where
  "lockBills tab bills = (if bills = [] then []
     else foldl (\<lambda>m row. jmap_set (locked_key row) row m) []
       (filter (\<lambda>row. lk_ablId row \<in> set (map fst bills) \<and> lk_ablAccYear row \<in> set (map snd bills)) tab))"

definition assertBillUsable :: "locked_bill option \<Rightarrow> string \<Rightarrow> string \<Rightarrow> bill_kind \<Rightarrow> string \<Rightarrow> cheque_error + locked_bill" where
  "assertBillUsable bill partyId companyId kind field = (case bill of
     None \<Rightarrow> Inl (ChequeError NOT_FOUND_404 field ''VCH_BILL_NOT_FOUND'')
   | Some b \<Rightarrow>
      (if lk_ablIsDeleted b then Inl (ChequeError NOT_FOUND_404 field ''VCH_BILL_NOT_FOUND'')
       else if lk_ablPartyId b \<noteq> partyId then Inl (ChequeError BAD_REQUEST_400 field ''VCH_BILL_WRONG_PARTY'')
       else if lk_ablCompanyId b \<noteq> companyId then Inl (ChequeError BAD_REQUEST_400 field ''VCH_BILL_WRONG_PARTY'')
       else if lk_ablBillType b \<notin> set (if kind = RECEIVABLE then RECEIVABLE_BILL_TYPES else CREDIT_BILL_TYPES)
         then Inl (ChequeError BAD_REQUEST_400 field ''VCH_BILL_WRONG_SIDE'')
       else if lk_ablDrCr b \<noteq> (if kind = RECEIVABLE then DR else CR)
         then Inl (ChequeError BAD_REQUEST_400 field ''VCH_BILL_WRONG_SIDE'')
       else Inr b))"

section \<open>Scope and request\<close>

text \<open>Of the locked cheque, the columns this component reads.\<close>

record locked_cheque =
  chq_apdId :: string
  chq_apdAccYear :: string
  chq_apdInstrumentNo :: string
  chq_apdInstrumentDate :: int
  chq_apdAmount :: rat
  chq_apdVoucherId :: "string option"
  chq_apdVoucherAccYear :: "string option"
  chq_apdTenderId :: "string option"

record cheque_scope =
  cs_voucherId :: string
  cs_accYear :: string
  cs_voucherTypeId :: int
  cs_voucherNo :: int
  cs_voucherRefno :: "string option"
  cs_companyId :: string
  cs_branchId :: string
  cs_tenantId :: "string option"
  cs_partyId :: string
  cs_salesmanId :: "string option"
  cs_userId :: string
  cs_sessionId :: "string option"
  cs_actor :: string
  cs_adjDate :: int
  cs_isPostDated :: bool
  cs_cheque :: locked_cheque
  cs_tenderId :: "string option"
  cs_tenderAccYear :: "string option"

record named_row =
  nr_billId :: string
  nr_billAccYear :: string
  nr_amount :: rat
  nr_discount :: "rat option"
  nr_writeoff :: "rat option"
  nr_writeoffApprovedBy :: "string option"

record restored_row =
  rr_billId :: string
  rr_billAccYear :: string
  rr_amount :: rat
  rr_discount :: rat
  rr_writeoff :: rat
  rr_roundoff :: rat
  rr_writeoffApprovedBy :: "string option"

datatype cheque_request = NAMED "named_row list" | AUTO_FIFO | RESTORE "restored_row list"

definition namedOrAutoFifo :: "named_row list \<Rightarrow> cheque_request" where
  "namedOrAutoFifo rows = (if 0 < length rows then NAMED rows else AUTO_FIFO)"

section \<open>The bills\<close>

text \<open>A refusal in a \<open>map\<close> ends it.\<close>

fun e_map :: "(nat \<Rightarrow> 'a \<Rightarrow> 'e + 'b) \<Rightarrow> nat \<Rightarrow> 'a list \<Rightarrow> 'e + 'b list" where
  "e_map f i [] = Inr []"
| "e_map f i (x # xs) = e_bind (f i x) (\<lambda>y. e_bind (e_map f (Suc i) xs) (\<lambda>ys. Inr (y # ys)))"

definition named_bill :: "decimal_js \<Rightarrow> cheque_scope \<Rightarrow> locked_map \<Rightarrow> nat \<Rightarrow> named_row \<Rightarrow> cheque_error + alloc_bill" where
  "named_bill J scope locked index row =
     e_bind (assertBillUsable (jmap_get locked (key_of (nr_billId row) (nr_billAccYear row))) (cs_partyId scope)
         (cs_companyId scope) RECEIVABLE (indexed ''allocations.'' index ''.billId''))
       (\<lambda>bill. Inr \<lparr> ab_billId = lk_ablId bill, ab_billAccYear = lk_ablAccYear bill, ab_docRefno = lk_ablDocRefno bill,
          ab_amount = money J (nr_amount row), ab_discount = money J (or_else (nr_discount row) 0),
          ab_writeoff = money J (or_else (nr_writeoff row) 0), ab_roundoff = 0,
          ab_pendingAmount = lk_ablPendingAmount bill, ab_writeoffApprovedBy = nr_writeoffApprovedBy row \<rparr>)"

definition loadNamedBills :: "decimal_js \<Rightarrow> cheque_scope \<Rightarrow> locked_bill list \<Rightarrow> named_row list \<Rightarrow> cheque_error + alloc_bill list" where
  "loadNamedBills J scope tab requested =
     (let locked = lockBills tab (map (\<lambda>r. (nr_billId r, nr_billAccYear r)) requested)
      in e_map (named_bill J scope locked) 0 requested)"

definition restored_settled :: "decimal_js \<Rightarrow> restored_row \<Rightarrow> rat" where
  "restored_settled J row = d_plus J (d_plus J (d_plus J (rr_amount row) (rr_discount row)) (rr_writeoff row)) (rr_roundoff row)"

definition restored_bill :: "decimal_js \<Rightarrow> cheque_scope \<Rightarrow> locked_map \<Rightarrow> nat \<Rightarrow> restored_row \<Rightarrow> cheque_error + alloc_bill" where
  "restored_bill J scope locked index row =
     (let bill = jmap_get locked (key_of (rr_billId row) (rr_billAccYear row));
          field = indexed ''allocations.'' index ''.billId''
      in if bill = None \<or> lk_ablIsDeleted (the bill) then Inl (wrong CONFLICT_409 field)
         else e_bind (assertBillUsable bill (cs_partyId scope) (cs_companyId scope) RECEIVABLE field)
           (\<lambda>b. if lk_ablPendingAmount b < restored_settled J row
              then Inl (wrong CONFLICT_409 (indexed ''allocations.'' index ''.amount''))
              else Inr \<lparr> ab_billId = lk_ablId b, ab_billAccYear = lk_ablAccYear b, ab_docRefno = lk_ablDocRefno b,
                ab_amount = rr_amount row, ab_discount = rr_discount row, ab_writeoff = rr_writeoff row,
                ab_roundoff = rr_roundoff row, ab_pendingAmount = lk_ablPendingAmount b,
                ab_writeoffApprovedBy = rr_writeoffApprovedBy row \<rparr>))"

definition loadRestoredBills :: "decimal_js \<Rightarrow> cheque_scope \<Rightarrow> locked_bill list \<Rightarrow> restored_row list \<Rightarrow> cheque_error + alloc_bill list" where
  "loadRestoredBills J scope tab restored =
     (if restored = [] then Inr []
      else let locked = lockBills tab (map (\<lambda>r. (rr_billId r, rr_billAccYear r)) restored)
        in e_map (restored_bill J scope locked) 0 restored)"

text \<open>The open bills of the first query: a snapshot read before the lock, with the status of each row.\<close>

type_synonym open_rows = "(locked_bill \<times> string) list"

definition open_receivable :: "cheque_scope \<Rightarrow> locked_bill \<times> string \<Rightarrow> bool" where
  "open_receivable scope row = (case row of (b, status) \<Rightarrow> lk_ablPartyId b = cs_partyId scope \<and> lk_ablCompanyId b = cs_companyId scope \<and>
     \<not> lk_ablIsDeleted b \<and> lk_ablDrCr b = DR \<and> lk_ablBillType b \<in> set RECEIVABLE_BILL_TYPES \<and> status \<noteq> ''CLOSED'')"

text \<open>The \<open>orderBy\<close>: due date with a missing one last (the ascending order of PostgreSQL), document date, document reference.\<close>

definition due_key :: "(string \<Rightarrow> int) \<Rightarrow> locked_bill \<Rightarrow> bool \<times> int \<times> int \<times> int" where
  "due_key rank b = (lk_ablDueDate b = None, or_else (lk_ablDueDate b) 0, lk_ablDocDate b, rank (lk_ablDocRefno b))"

definition query_order :: "(string \<Rightarrow> int) \<Rightarrow> open_rows \<Rightarrow> open_rows" where
  "query_order rank rows = sort_key (\<lambda>(b, _). due_key rank b) rows"

definition fifo_candidates :: "(string \<Rightarrow> int) \<Rightarrow> cheque_scope \<Rightarrow> open_rows \<Rightarrow> (string \<times> string) list" where
  "fifo_candidates rank scope before =
     map (\<lambda>(b, _). (lk_ablId b, lk_ablAccYear b)) (take 500 (query_order rank (filter (open_receivable scope) before)))"

definition fifo_bill :: "locked_bill \<Rightarrow> rat \<Rightarrow> alloc_bill" where
  "fifo_bill b amount = \<lparr> ab_billId = lk_ablId b, ab_billAccYear = lk_ablAccYear b, ab_docRefno = lk_ablDocRefno b,
     ab_amount = amount, ab_discount = 0, ab_writeoff = 0, ab_roundoff = 0,
     ab_pendingAmount = lk_ablPendingAmount b, ab_writeoffApprovedBy = None \<rparr>"

fun fifo_fill :: "decimal_js \<Rightarrow> locked_map \<Rightarrow> (string \<times> string) list \<Rightarrow> rat \<Rightarrow> alloc_bill list" where
  "fifo_fill J locked [] left = []"
| "fifo_fill J locked ((billId, accYear) # candidates) left =
     (if left \<le> 0 then []
      else (case jmap_get locked (key_of billId accYear) of
          None \<Rightarrow> fifo_fill J locked candidates left
        | Some bill \<Rightarrow>
            (if lk_ablIsDeleted bill \<or> lk_ablPendingAmount bill \<le> 0 then fifo_fill J locked candidates left
             else let amt = min left (lk_ablPendingAmount bill)
               in fifo_bill bill amt # fifo_fill J locked candidates (d_minus J left amt))))"

definition autoFifoBills :: "decimal_js \<Rightarrow> (string \<Rightarrow> int) \<Rightarrow> cheque_scope \<Rightarrow> open_rows \<Rightarrow> locked_bill list \<Rightarrow> rat \<Rightarrow> alloc_bill list" where
  "autoFifoBills J rank scope before tab amount =
     (let candidates = fifo_candidates rank scope before
      in fifo_fill J (lockBills tab candidates) candidates amount)"

section \<open>The rows written\<close>

record abj_row =
  abj_id :: string
  abj_companyId :: string
  abj_branchId :: string
  abj_tenantId :: "string option"
  abj_accYear :: string
  abj_billId :: string
  abj_billAccYear :: string
  abj_partyId :: string
  abj_rowNo :: nat
  abj_againstBillId :: "string option"
  abj_againstBillAccYear :: "string option"
  abj_voucherId :: string
  abj_voucherAccYear :: string
  abj_adjType :: BillAdjType
  abj_adjDate :: int
  abj_drCr :: DrCr
  abj_amount :: rat
  abj_settlementMode :: BillSettlementMode
  abj_settlementLedgerId :: "string option"
  abj_tenderId :: "string option"
  abj_tenderAccYear :: "string option"
  abj_chequeId :: "string option"
  abj_chequeAccYear :: "string option"
  abj_isPostDated :: bool
  abj_approvedBy :: "string option"
  abj_remarks :: "string option"
  abj_userId :: string
  abj_sessionId :: "string option"
  abj_createdBy :: string
  abj_reversalOfId :: "string option"
  abj_reversalReason :: "string option"
  abj_isDeleted :: bool

text \<open>The id of a row is given by the database: \<open>ids\<close> are the ones it hands out.\<close>

definition adjustment_row :: "cheque_scope \<Rightarrow> string \<Rightarrow> nat \<Rightarrow> alloc_adjustment \<Rightarrow> abj_row" where
  "adjustment_row scope i index a =
     \<lparr> abj_id = i, abj_companyId = cs_companyId scope, abj_branchId = cs_branchId scope, abj_tenantId = cs_tenantId scope,
       abj_accYear = cs_accYear scope, abj_billId = adj_billId a, abj_billAccYear = adj_billAccYear a,
       abj_partyId = cs_partyId scope, abj_rowNo = index + 1, abj_againstBillId = map_option fst (adj_againstBill a),
       abj_againstBillAccYear = map_option snd (adj_againstBill a), abj_voucherId = cs_voucherId scope,
       abj_voucherAccYear = cs_accYear scope, abj_adjType = adj_adjType a, abj_adjDate = cs_adjDate scope,
       abj_drCr = adj_drCr a, abj_amount = adj_amount a, abj_settlementMode = adj_settlementMode a,
       abj_settlementLedgerId = None, abj_tenderId = cs_tenderId scope,
       abj_tenderAccYear = (if truthy (cs_tenderId scope) then cs_tenderAccYear scope else None),
       abj_chequeId = Some (chq_apdId (cs_cheque scope)), abj_chequeAccYear = Some (chq_apdAccYear (cs_cheque scope)),
       abj_isPostDated = cs_isPostDated scope, abj_approvedBy = adj_approvedBy a, abj_remarks = adj_remarks a,
       abj_userId = cs_userId scope, abj_sessionId = cs_sessionId scope, abj_createdBy = cs_actor scope,
       abj_reversalOfId = None, abj_reversalReason = None, abj_isDeleted = False \<rparr>"

definition writeAdjustments :: "cheque_scope \<Rightarrow> (nat \<Rightarrow> string) \<Rightarrow> alloc_result \<Rightarrow> abj_row list" where
  "writeAdjustments scope ids plan = map (\<lambda>(i, a). adjustment_row scope (ids i) i a) (enumerate 0 (ar_adjustments plan))"

record advance_row =
  av_companyId :: string
  av_branchId :: string
  av_tenantId :: "string option"
  av_accYear :: string
  av_partyId :: string
  av_salesmanId :: "string option"
  av_billType :: BillType
  av_srcModule :: string
  av_srcDocType :: string
  av_srcDocId :: string
  av_srcAccYear :: string
  av_voucherId :: string
  av_voucherTypeId :: int
  av_voucherNo :: int
  av_voucherRefno :: "string option"
  av_voucherDate :: int
  av_docRefno :: string
  av_docDate :: int
  av_drCr :: DrCr
  av_billAmount :: rat
  av_narration :: string
  av_createdBy :: string

definition writeAdvanceBill :: "cheque_scope \<Rightarrow> alloc_result \<Rightarrow> advance_row option" where
  "writeAdvanceBill scope plan =
     (if ar_totalOnAccount plan \<le> 0 then None
      else Some \<lparr> av_companyId = cs_companyId scope, av_branchId = cs_branchId scope, av_tenantId = cs_tenantId scope,
        av_accYear = cs_accYear scope, av_partyId = cs_partyId scope, av_salesmanId = cs_salesmanId scope,
        av_billType = BillType.ADVANCE, av_srcModule = ''ACCOUNTS'', av_srcDocType = ''RECEIPT_ADVANCE'',
        av_srcDocId = cs_voucherId scope, av_srcAccYear = cs_accYear scope, av_voucherId = cs_voucherId scope,
        av_voucherTypeId = cs_voucherTypeId scope, av_voucherNo = cs_voucherNo scope, av_voucherRefno = cs_voucherRefno scope,
        av_voucherDate = cs_adjDate scope, av_docRefno = ''ADV/'' @ chq_apdInstrumentNo (cs_cheque scope),
        av_docDate = cs_adjDate scope, av_drCr = CR, av_billAmount = ar_totalOnAccount plan,
        av_narration = ''On account from cheque '' @ chq_apdInstrumentNo (cs_cheque scope) @ '' dated '' @
          toDateString (chq_apdInstrumentDate (cs_cheque scope)), av_createdBy = cs_actor scope \<rparr>)"

section \<open>The whole\<close>

definition cheque_tender :: "cheque_scope \<Rightarrow> rat \<Rightarrow> alloc_tender" where
  "cheque_tender scope amount = \<lparr> at_tenderRowNo = 1, at_amount = amount, at_isCheque = True, at_isPostDated = False,
     at_instrumentDate = Some (chq_apdInstrumentDate (cs_cheque scope)), at_settlementMode = BillSettlementMode.CHEQUE \<rparr>"

definition cheque_input :: "decimal_js \<Rightarrow> cheque_scope \<Rightarrow> rat \<Rightarrow> alloc_bill list \<Rightarrow> rat \<Rightarrow> alloc_input" where
  "cheque_input J scope amount bills allocated =
     \<lparr> ai_receiptDate = cs_adjDate scope, ai_bills = bills, ai_credits = [], ai_otherLines = [],
       ai_tenders = [cheque_tender scope amount], ai_pins = [], ai_claimedOnAccount = d_minus J amount allocated,
       ai_direction = None \<rparr>"

record cheque_bill_ref =
  cb_billId :: string
  cb_billAccYear :: string
  cb_billType :: string
  cb_docRefno :: string
  cb_docDate :: string
  cb_dueDate :: "string option"
  cb_billAmount :: rat
  cb_pendingAmount :: rat
  cb_settledByThisCheque :: rat

record cheque_outcome =
  co_plan :: alloc_result
  co_bills :: "(string \<times> string) list"
  co_refs :: "cheque_bill_ref list"
  co_partyCredit :: rat
  co_onAccount :: rat

definition cheque_ref :: "decimal_js \<Rightarrow> alloc_bill \<Rightarrow> cheque_bill_ref" where
  "cheque_ref J bill = \<lparr> cb_billId = ab_billId bill, cb_billAccYear = ab_billAccYear bill, cb_billType = '''',
     cb_docRefno = ab_docRefno bill, cb_docDate = '''', cb_dueDate = None, cb_billAmount = 0, cb_pendingAmount = 0,
     cb_settledByThisCheque = money J (ab_amount bill) \<rparr>"

definition cheque_outcome_of :: "decimal_js \<Rightarrow> alloc_bill list \<Rightarrow> alloc_result \<Rightarrow> cheque_outcome" where
  "cheque_outcome_of J bills plan = \<lparr> co_plan = plan, co_bills = map (\<lambda>b. (ab_billId b, ab_billAccYear b)) bills,
     co_refs = map (cheque_ref J) bills,
     co_partyCredit = or_else (jmap_get (ar_partyCreditByVoucher plan) RECEIPT_VOUCHER_KEY) 0,
     co_onAccount = ar_totalOnAccount plan \<rparr>"

text \<open>What the transaction reads and the database decides.\<close>

record cheque_db =
  db_rank :: "string \<Rightarrow> int"
  db_before :: open_rows
  db_bills :: "locked_bill list"
  db_ids :: "nat \<Rightarrow> string"

definition cheque_bills :: "decimal_js \<Rightarrow> cheque_db \<Rightarrow> cheque_scope \<Rightarrow> cheque_request \<Rightarrow> cheque_error + alloc_bill list" where
  "cheque_bills J db scope request = (case request of
     NAMED rows \<Rightarrow> loadNamedBills J scope (db_bills db) rows
   | RESTORE rows \<Rightarrow> loadRestoredBills J scope (db_bills db) rows
   | AUTO_FIFO \<Rightarrow> Inr (autoFifoBills J (db_rank db) scope (db_before db) (db_bills db)
       (money J (chq_apdAmount (cs_cheque scope)))))"

definition allocateChequeMoney :: "decimal_js \<Rightarrow> cheque_db \<Rightarrow> cheque_scope \<Rightarrow> cheque_request \<Rightarrow>
    (cheque_error + cheque_outcome \<times> abj_row list \<times> advance_row option) option" where
  "allocateChequeMoney J db scope request =
     (let amount = money J (chq_apdAmount (cs_cheque scope))
      in case cheque_bills J db scope request of
         Inl e \<Rightarrow> Some (Inl e)
       | Inr bills \<Rightarrow>
          (let allocated = sum_money J (map ab_amount bills)
           in if amount < allocated
              then Some (Inl (wrong (case request of RESTORE _ \<Rightarrow> CONFLICT_409 | _ \<Rightarrow> BAD_REQUEST_400) ''allocations''))
              else (case allocate J (cheque_input J scope amount bills allocated) of
                  None \<Rightarrow> None
                | Some (Inl e) \<Rightarrow> Some (Inl (EngineError e))
                | Some (Inr plan) \<Rightarrow> Some (Inr (cheque_outcome_of J bills plan, writeAdjustments scope (db_ids db) plan,
                    writeAdvanceBill scope plan)))))"

end
