(* ===== verification/Cheque_Fifo.thy ===== *)
theory Cheque_Fifo
  imports Cheque_Allocation "HOL-Library.Multiset"
begin

text \<open>
  What the first-in first-out filling of a cheque pours, against a closed form, and the success of the allocation
  that follows it.
\<close>

section \<open>The closed form\<close>

text \<open>Bill \<open>i\<close> takes what it needs or what the bills before it leave, down to the first that gets nothing.\<close>

definition greedy :: "rat \<Rightarrow> rat list \<Rightarrow> rat list" where
  "greedy a ps = takeWhile (\<lambda>x. 0 < x) (map (\<lambda>i. min (ps ! i) (a - sum_list (take i ps))) [0..<length ps])"

text \<open>The bills that can be filled: under lock, alive, with something pending.\<close>

definition fillable :: "locked_map \<Rightarrow> (string \<times> string) list \<Rightarrow> locked_bill list" where
  "fillable locked candidates = List.map_filter (\<lambda>(i, y). case jmap_get locked (key_of i y) of None \<Rightarrow> None
     | Some b \<Rightarrow> (if lk_ablIsDeleted b \<or> lk_ablPendingAmount b \<le> 0 then None else Some b)) candidates"

lemma greedy_Nil [simp]: "greedy a [] = []"
  by (simp add: greedy_def)

lemma greedy_Cons: "0 < p \<Longrightarrow> greedy a (p # ps) = (if 0 < a then min p a # greedy (a - p) ps else [])"
proof -
  have "[0..<length (p # ps)] = 0 # map Suc [0..<length ps]" by (simp add: upt_conv_Cons map_Suc_upt del: upt_Suc)
  then show "0 < p \<Longrightarrow> ?thesis" by (simp add: greedy_def comp_def algebra_simps del: upt_Suc)
qed

lemma greedy_nonpos: "a \<le> 0 \<Longrightarrow> \<forall>p\<in>set ps. 0 < p \<Longrightarrow> greedy a ps = []"
  by (cases ps) (auto simp: greedy_Cons)

lemma greedy_sum:
  "\<forall>p\<in>set ps. 0 < p \<Longrightarrow> 0 \<le> a \<Longrightarrow> sum_list (greedy a ps) = min a (sum_list ps)"
proof (induction ps arbitrary: a)
  case (Cons p ps)
  have nonneg: "0 \<le> sum_list ps" using Cons.prems by (intro sum_list_nonneg) force
  show ?case
  proof (cases "p \<le> a")
    case True
    then have "0 < a" using Cons.prems by auto
    then show ?thesis using True Cons by (auto simp: greedy_Cons min_def)
  next
    case False
    then have "greedy (a - p) ps = []" using Cons.prems by (intro greedy_nonpos) auto
    then show ?thesis using False Cons.prems nonneg by (auto simp: greedy_Cons min_def)
  qed
qed simp

lemma greedy_values: "\<forall>p\<in>set ps. 0 < p \<Longrightarrow> paise a \<Longrightarrow> \<forall>p\<in>set ps. paise p \<Longrightarrow> x \<in> set (greedy a ps) \<Longrightarrow> paise x \<and> 0 < x"
proof (induction ps arbitrary: a)
  case (Cons p ps)
  have "x = min p a \<or> x \<in> set (greedy (a - p) ps)" "0 < a" using Cons.prems by (auto simp: greedy_Cons split: if_splits)
  moreover have "paise (a - p)" using Cons.prems by simp
  ultimately show ?case using Cons.prems Cons.IH [of "a - p"] by (auto simp: min_def)
qed simp

section \<open>The loop against it\<close>

lemma fillable_simps [simp]:
  "fillable locked [] = []"
  "fillable locked ((i, y) # cs) = (case jmap_get locked (key_of i y) of None \<Rightarrow> fillable locked cs
     | Some b \<Rightarrow> (if lk_ablIsDeleted b \<or> lk_ablPendingAmount b \<le> 0 then fillable locked cs else b # fillable locked cs))"
  by (auto simp: fillable_def List.map_filter_def split: option.splits)

lemma fillable_pending: "b \<in> set (fillable locked cs) \<Longrightarrow> 0 < lk_ablPendingAmount b"
  by (auto simp: fillable_def List.map_filter_def split: option.splits if_splits)

context decimal_package
begin

lemma fifo_fill_greedy:
  assumes "\<forall>b\<in>set (fillable locked cs). paise (lk_ablPendingAmount b)" and "paise left" and "0 \<le> left" and "left < 10 ^ 18"
  shows "fifo_fill J locked cs left =
    map2 fifo_bill (fillable locked cs) (greedy left (map lk_ablPendingAmount (fillable locked cs)))"
  using assms
proof (induction cs arbitrary: left)
  case (Cons c cs)
  obtain i y where c: "c = (i, y)" by (cases c)
  show ?case
  proof (cases "left = 0")
    case True
    have "greedy 0 (map lk_ablPendingAmount (fillable locked (c # cs))) = []"
      using fillable_pending [of _ locked "c # cs"] by (intro greedy_nonpos) auto
    then show ?thesis using True c by simp
  next
    case False
    then have pos: "0 < left" using Cons.prems by simp
    show ?thesis
    proof (cases "fillable locked (c # cs) = fillable locked cs")
      case True
      then have "fifo_fill J locked (c # cs) left = fifo_fill J locked cs left"
        using pos by (auto simp: c split: option.splits if_splits)
      then show ?thesis using Cons True by metis
    next
      case False
      then obtain b where b: "jmap_get locked (key_of i y) = Some b" "\<not> lk_ablIsDeleted b" "0 < lk_ablPendingAmount b"
        by (auto simp: c split: option.splits if_splits)
      let ?p = "lk_ablPendingAmount b"
      have p: "paise ?p" using Cons.prems(1) b by (simp add: c)
      have step: "d_minus J left (min left ?p) = left - min left ?p"
        using Cons.prems p b(3) by (intro minus_paise) (auto simp: min_def)
      have rest: "fifo_fill J locked cs (left - min left ?p) =
          map2 fifo_bill (fillable locked cs) (greedy (left - min left ?p) (map lk_ablPendingAmount (fillable locked cs)))"
        using Cons.prems p b by (intro Cons.IH) (auto simp: c min_def)
      have "greedy (left - min left ?p) (map lk_ablPendingAmount (fillable locked cs)) =
          greedy (left - ?p) (map lk_ablPendingAmount (fillable locked cs))"
        using fillable_pending [of _ locked cs] by (cases "?p \<le> left") (simp_all add: min_def greedy_nonpos)
      then show ?thesis using rest step b pos by (simp add: c greedy_Cons Let_def min.commute)
    qed
  qed
qed simp

end

section \<open>Keys\<close>

lemma lockBills_get: "jmap_get (lockBills tab bs) k = Some b \<Longrightarrow> locked_key b = k \<and> b \<in> set tab"
proof -
  have "jmap_get (foldl (\<lambda>m row. jmap_set (locked_key row) row m) m rows) k = Some b \<Longrightarrow>
      locked_key b = k \<and> b \<in> set rows \<or> jmap_get m k = Some b" for m rows
  proof (induction rows arbitrary: m)
    case (Cons row rows)
    from Cons.IH [OF Cons.prems [unfolded foldl_Cons]] show ?case by (auto simp: update_conv' split: if_splits)
  qed simp
  from this [of "[]"] show "jmap_get (lockBills tab bs) k = Some b \<Longrightarrow> locked_key b = k \<and> b \<in> set tab"
    by (fastforce simp: lockBills_def split: if_splits)
qed

lemma fillable_member: "b \<in> set (fillable locked cs) \<Longrightarrow> \<exists>i y. (i, y) \<in> set cs \<and> jmap_get locked (key_of i y) = Some b"
  by (fastforce simp: fillable_def List.map_filter_def split: option.splits if_splits)

lemma fillable_keys:
  assumes "distinct (map (\<lambda>(i, y). key_of i y) cs)"
  shows "distinct (map locked_key (fillable (lockBills tab bs) cs))"
  using assms
proof (induction cs)
  case (Cons c cs)
  obtain i y where c: "c = (i, y)" by (cases c)
  have "key_of i y \<notin> locked_key ` set (fillable (lockBills tab bs) cs)"
  proof
    assume "key_of i y \<in> locked_key ` set (fillable (lockBills tab bs) cs)"
    then obtain b i' y' where "locked_key b = key_of i y" "(i', y') \<in> set cs" "jmap_get (lockBills tab bs) (key_of i' y') = Some b"
      using fillable_member by force
    then show False using Cons.prems c lockBills_get by force
  qed
  moreover have "locked_key b = key_of i y" if "jmap_get (lockBills tab bs) (key_of i y) = Some b" for b
    using lockBills_get [OF that] by simp
  ultimately show ?case using Cons c by (auto split: option.splits)
qed simp

lemma candidate_keys:
  assumes "distinct (map (\<lambda>(b, _). locked_key b) before)"
  shows "distinct (map (\<lambda>(i, y). key_of i y) (fifo_candidates rank scope before))"
proof -
  let ?f = "\<lambda>(b, _ :: string). locked_key b" and ?rows = "query_order rank (filter (open_receivable scope) before)"
  have "distinct (map ?f (filter (open_receivable scope) before))" using assms by (rule distinct_map_filter)
  moreover have "mset (map ?f ?rows) = mset (map ?f (filter (open_receivable scope) before))"
    by (simp add: query_order_def mset_map)
  ultimately have "distinct (map ?f ?rows)" by (metis mset_eq_imp_distinct_iff)
  then have "distinct (take 500 (map ?f ?rows))" by simp
  then show ?thesis by (simp add: fifo_candidates_def locked_key_def split_def comp_def take_map)
qed

section \<open>Order\<close>

lemma fillable_filter:
  "map locked_key (fillable (lockBills tab bs) (map (\<lambda>b. (lk_ablId b, lk_ablAccYear b)) xs)) =
    map locked_key (filter (\<lambda>b. case jmap_get (lockBills tab bs) (locked_key b) of None \<Rightarrow> False
      | Some l \<Rightarrow> \<not> (lk_ablIsDeleted l \<or> lk_ablPendingAmount l \<le> 0)) xs)"
proof (induction xs)
  case (Cons x xs)
  show ?case
  proof (cases "jmap_get (lockBills tab bs) (locked_key x)")
    case None
    then show ?thesis using Cons by (simp add: locked_key_def [symmetric])
  next
    case (Some l)
    then have "locked_key l = locked_key x" using lockBills_get by blast
    then show ?thesis using Some Cons by (simp add: locked_key_def [symmetric])
  qed
qed simp

text \<open>The bills that can be filled come in the order of the query, which is by due date.\<close>

lemma fillable_ordered:
  obtains rows where "sorted (map (due_key rank) rows)" and "set rows \<subseteq> fst ` set (filter (open_receivable scope) before)"
    and "map locked_key (fillable (lockBills tab bs) (fifo_candidates rank scope before)) = map locked_key rows"
proof -
  let ?query = "take 500 (query_order rank (filter (open_receivable scope) before))"
  let ?keep = "\<lambda>b. case jmap_get (lockBills tab bs) (locked_key b) of None \<Rightarrow> False
      | Some l \<Rightarrow> \<not> (lk_ablIsDeleted l \<or> lk_ablPendingAmount l \<le> 0)"
  have cands: "fifo_candidates rank scope before = map (\<lambda>b. (lk_ablId b, lk_ablAccYear b)) (map fst ?query)"
    by (simp add: fifo_candidates_def split_def)
  have key: "(\<lambda>x. due_key rank (fst x)) = (\<lambda>(b, _ :: string). due_key rank b)" by auto
  have "sorted (map (\<lambda>(b, _). due_key rank b) (query_order rank (filter (open_receivable scope) before)))"
    unfolding query_order_def by (rule sorted_sort_key)
  then have "sorted (map (due_key rank) (map fst ?query))"
    unfolding map_map comp_def key by (simp add: take_map [symmetric] sorted_wrt_take)
  then have "sorted (map (due_key rank) (filter ?keep (map fst ?query)))"
    unfolding sorted_map by (rule sorted_wrt_filter)
  moreover have "set (filter ?keep (map fst ?query)) \<subseteq> fst ` set (filter (open_receivable scope) before)"
    by (auto simp: query_order_def dest!: in_set_takeD)
  ultimately show thesis using that fillable_filter [of tab bs "map fst ?query"] by (simp add: cands)
qed

end
