(* ===== verification/Cheque_Plan.thy ===== *)
theory Cheque_Plan
  imports Cheque_Allocation
begin

text \<open>
  The allocation engine on the input a cheque gives it: one cheque, no credits, no other lines. What the plan holds,
  type by type, and when the engine accepts the input.
\<close>

section \<open>The trace of a cheque\<close>

text \<open>What a bill receives under each type of adjustment.\<close>

definition typed_part :: "decimal_js \<Rightarrow> BillAdjType \<Rightarrow> alloc_bill \<Rightarrow> rat" where
  "typed_part J ty b = (case ty of BillAdjType.ALLOCATION \<Rightarrow> money J (ab_amount b) | BillAdjType.DISCOUNT \<Rightarrow> money J (ab_discount b)
     | BillAdjType.WRITEOFF \<Rightarrow> money J (ab_writeoff b) | BillAdjType.ROUND_OFF \<Rightarrow> money J (ab_roundoff b) | _ \<Rightarrow> 0)"

definition on_bill :: "alloc_bill \<Rightarrow> alloc_adjustment \<Rightarrow> bool" where
  "on_bill b row \<longleftrightarrow> adj_billId row = ab_billId b \<and> adj_billAccYear row = ab_billAccYear b"

lemma cheque_fields [simp]:
  "ai_receiptDate (cheque_input J scope amount bills allocated) = cs_adjDate scope"
  "ai_bills (cheque_input J scope amount bills allocated) = bills" "ai_credits (cheque_input J scope amount bills allocated) = []"
  "ai_otherLines (cheque_input J scope amount bills allocated) = []" "ai_pins (cheque_input J scope amount bills allocated) = []"
  "ai_tenders (cheque_input J scope amount bills allocated) = [cheque_tender scope amount]"
  "ai_claimedOnAccount (cheque_input J scope amount bills allocated) = d_minus J amount allocated"
  "ai_direction (cheque_input J scope amount bills allocated) = None"
  "sidesOf (cheque_input J scope amount bills allocated) = \<lparr> sd_direction = IN, sd_settle = CR, sd_mirror = DR, sd_deduction = DR,
     sd_extra = CR, sd_moved = ''Received'', sd_route = ''/receipts/open-items'' \<rparr>"
  by (simp_all add: cheque_input_def sidesOf_def)

lemma tender_fields [simp]: "at_amount (cheque_tender scope amount) = amount" "at_isPostDated (cheque_tender scope amount) = False"
  "at_isCheque (cheque_tender scope amount) = True" "at_tenderRowNo (cheque_tender scope amount) = 1"
  by (simp_all add: cheque_tender_def)

lemma cheque_totals [simp]:
  "deductions_total J (cheque_input J' scope amount bills allocated) = 0" "floating_total J (cheque_input J' scope amount bills allocated) = 0"
  "extras_total J (cheque_input J' scope amount bills allocated) = 0"
  "instant_total J (cheque_input J' scope amount bills allocated) = money J amount"
  by (simp_all add: deductions_total_def floating_total_def extras_total_def instant_total_def column_def)

lemma cheque_only_source:
  "s \<in> set (buildSources J (cheque_input J' scope amount bills allocated) sides) \<Longrightarrow> src_kind s = CREDIT \<Longrightarrow> False"
  by (auto simp: buildSources_def Let_def cheque_source_def pooled_source_def pdc_source_def split: if_splits)

lemma settlement_of_money:
  "src_kind s \<noteq> CREDIT \<Longrightarrow> \<exists>row. settlementRows b s t sides = [row] \<and> on_bill b row \<and> adj_adjType row = BillAdjType.ALLOCATION \<and>
     adj_drCr row = sd_settle sides \<and> adj_amount row = t"
  by (auto simp: settlementRows_def on_bill_def split: source_kind.splits option.splits)

context decimal_package
begin

lemma cheque_trace:
  assumes input: "input = cheque_input J' scope amount bills allocated" and pre: "alloc_pre J input"
    and ok: "allocate J input = Some (Inr r)"
  obtains ts where "ar_adjustments r = flow_rows (sidesOf input) ts @ concat (map (red_rows J input (sidesOf input)) bills)"
    and "\<forall>(b, s, t)\<in>set ts. b \<in> set bills \<and> src_kind s \<noteq> CREDIT \<and> paise t \<and> 0 < t"
    and "\<And>f. moved_by (\<lambda>b s. f b) ts = sum_list (map (\<lambda>b. f b * money J (ab_amount b)) bills)"
    and "\<forall>b\<in>set bills. bill_fits J b \<and> (\<exists>rows. bill_reductions J input (sidesOf input) b = Inr rows)"
    and "distinct (map bill_key bills)"
proof -
  from allocate_success [OF pre ok] obtain ps ts cs rs v where g: "guards_pass J input"
    and run: "alloc_run J input ps ts cs rs v" and full: "\<forall>c\<in>set cs. c = 0"
    and adj: "ar_adjustments r = trace_rows J input ps ts"
    and red: "\<forall>b\<in>set bills. \<exists>rows. bill_reductions J input (sidesOf input) b = Inr rows" by (auto simp: input)
  have ps: "ps = []" using run by (cases ps) (auto simp: input alloc_run_def placed_ok_def)
  have src: "src_kind s \<noteq> CREDIT" if "s \<in> src_tag ` set (buildSources J input (sidesOf input))" for s
    using that cheque_only_source by (auto simp: input src_tag_def simp del: cheque_fields)
  have ts: "\<forall>(b, s, t)\<in>set ts. b \<in> set bills \<and> src_kind s \<noteq> CREDIT \<and> paise t \<and> 0 < t"
    using run src unfolding alloc_run_def moved_ok_def by (fastforce simp: input simp del: cheque_fields(9))
  have moved: "moved_by (\<lambda>b s. f b) ts = sum_list (map (\<lambda>b. f b * money J (ab_amount b)) bills)" for f
  proof -
    have "moved_by (\<lambda>b l. f b) ps + moved_by (\<lambda>b s. f b) ts =
        weigh f (ai_bills input) (map (\<lambda>b. money J (ab_amount b)) (ai_bills input)) - weigh f (ai_bills input) cs"
      using run unfolding alloc_run_def by (elim conjE allE) assumption
    then show ?thesis using full ps by (simp add: input weigh_zero weigh_map del: money_half_up)
  qed
  have "\<forall>b\<in>set bills. bill_fits J b" "distinct (map bill_key bills)"
    using g by (auto simp: input guards_pass_def assertBillsFit_iff)
  with adj ps ts moved red show ?thesis by (intro that [of ts]) (simp_all add: input trace_rows_def ded_rows_def)
qed

end

lemma flow_rows_plain:
  assumes "\<forall>(b, s, t)\<in>set ts. b \<in> set bills \<and> src_kind s \<noteq> CREDIT \<and> paise t \<and> 0 < t" and "row \<in> set (flow_rows sides ts)"
  shows "\<exists>b\<in>set bills. on_bill b row \<and> adj_adjType row = BillAdjType.ALLOCATION \<and> adj_drCr row = sd_settle sides \<and> 0 < adj_amount row \<and>
    paise (adj_amount row)"
  using assms
proof (induction ts)
  case (Cons x ts)
  obtain b s t where x: "x = (b, s, t)" by (cases x)
  then obtain row' where "settlementRows b s t sides = [row']" "on_bill b row'" "adj_adjType row' = BillAdjType.ALLOCATION"
    "adj_drCr row' = sd_settle sides" "adj_amount row' = t"
    using settlement_of_money [of s b t sides] Cons.prems(1) by auto
  then show ?case using Cons x by auto
qed simp

lemma red_rows_plain:
  assumes "row \<in> set (red_rows J input sides b)"
  shows "on_bill b row \<and> adj_adjType row \<in> {BillAdjType.DISCOUNT, BillAdjType.WRITEOFF, BillAdjType.ROUND_OFF} \<and>
    adj_drCr row = sd_settle sides \<and> 0 < adj_amount row \<and> (\<exists>v. adj_amount row = money J v) \<and>
    adj_approvedBy row = (if adj_adjType row = BillAdjType.WRITEOFF then ab_writeoffApprovedBy b else None)"
  using assms by (auto simp: red_rows_def bill_reductions_def reductionRow_def on_bill_def Let_def split: sum.splits if_splits)

lemma flow_rows_total:
  assumes "\<forall>(b, s, t)\<in>set ts. src_kind s \<noteq> CREDIT"
  shows "sum_list (map adj_amount (filter (\<lambda>row. on_bill b row \<and> adj_adjType row = ty) (flow_rows sides ts))) =
    moved_by (\<lambda>b' s. if ab_billId b' = ab_billId b \<and> ab_billAccYear b' = ab_billAccYear b \<and> ty = BillAdjType.ALLOCATION then 1 else 0) ts"
  using assms
proof (induction ts)
  case (Cons x ts)
  obtain b' s t where x: "x = (b', s, t)" by (cases x)
  then obtain row where "settlementRows b' s t sides = [row]" "on_bill b' row" "adj_adjType row = BillAdjType.ALLOCATION" "adj_amount row = t"
    using settlement_of_money [of s b' t sides] Cons.prems(1) by auto
  then show ?case using Cons x by (auto simp: on_bill_def)
qed simp

context decimal_package
begin

lemma red_rows_total:
  assumes "bill_reductions J input sides b' = Inr rows" and "bill_fits J b'" and "ty \<noteq> BillAdjType.ALLOCATION"
  shows "sum_list (map adj_amount (filter (\<lambda>row. on_bill b row \<and> adj_adjType row = ty) (red_rows J input sides b'))) =
    (if ab_billId b' = ab_billId b \<and> ab_billAccYear b' = ab_billAccYear b then typed_part J ty b' else 0)"
proof -
  have nn: "0 \<le> money J (ab_discount b')" "0 \<le> money J (ab_writeoff b')" "0 \<le> money J (ab_roundoff b')"
    using assms(2) by (simp_all add: bill_fits_def)
  have z: "x = 0" if "\<not> 0 < x" "0 \<le> x" for x :: rat using that by simp
  show ?thesis
    using assms(1,3) z [OF _ nn(1)] z [OF _ nn(2)] z [OF _ nn(3)]
    by (cases ty) (auto simp: red_rows_def bill_reductions_def reductionRow_def on_bill_def typed_part_def Let_def simp del: money_half_up split: if_splits)
qed

lemma typed_total:
  assumes input: "input = cheque_input J' scope amount bills allocated" and pre: "alloc_pre J input"
    and ok: "allocate J input = Some (Inr r)" and b: "b \<in> set bills"
  shows "sum_list (map adj_amount (filter (\<lambda>row. on_bill b row \<and> adj_adjType row = ty) (ar_adjustments r))) = typed_part J ty b"
proof -
  from cheque_trace [OF input pre ok] obtain ts where
    rows: "ar_adjustments r = flow_rows (sidesOf input) ts @ concat (map (red_rows J input (sidesOf input)) bills)"
    and ts: "\<forall>(b, s, t)\<in>set ts. b \<in> set bills \<and> src_kind s \<noteq> CREDIT \<and> paise t \<and> 0 < t"
    and moved: "\<And>f. moved_by (\<lambda>b s. f b) ts = sum_list (map (\<lambda>b. f b * money J (ab_amount b)) bills)"
    and fits: "\<forall>b\<in>set bills. bill_fits J b \<and> (\<exists>rows. bill_reductions J input (sidesOf input) b = Inr rows)"
    and dist: "distinct (map bill_key bills)" by blast
  let ?same = "\<lambda>b'. ab_billId b' = ab_billId b \<and> ab_billAccYear b' = ab_billAccYear b"
  let ?P = "\<lambda>row. on_bill b row \<and> adj_adjType row = ty"
  have pairs: "distinct (map (\<lambda>x. (ab_billId x, ab_billAccYear x)) bills)" using dist unfolding bill_key_def by (rule distinct_pairs)
  have pick: "sum_list (map (\<lambda>b'. (if ?same b' then 1 else 0) * h b') bills) = h b" for h :: "alloc_bill \<Rightarrow> rat"
    by (rule sum_pick [OF pairs b]) auto
  have kinds: "\<forall>(b, s, t)\<in>set ts. src_kind s \<noteq> CREDIT" using ts by auto
  show ?thesis
  proof (cases "ty = BillAdjType.ALLOCATION")
    case True
    have "filter ?P (concat (map (red_rows J input (sidesOf input)) bills)) = []"
      using True by (auto simp: filter_empty_conv dest: red_rows_plain)
    then show ?thesis using flow_rows_total [OF kinds, of b ty "sidesOf input"] moved [of "\<lambda>b'. if ?same b' then 1 else 0"] pick [of "\<lambda>b. money J (ab_amount b)"]
      by (simp add: rows True typed_part_def del: money_half_up)
  next
    case False
    have "filter ?P (flow_rows (sidesOf input) ts) = []" using False by (auto simp: filter_empty_conv dest: flow_rows_plain [OF ts])
    moreover have "sum_list (map adj_amount (filter ?P (concat (map (red_rows J input (sidesOf input)) bs)))) =
        sum_list (map (\<lambda>b'. (if ?same b' then 1 else 0) * typed_part J ty b') bs)" if "set bs \<subseteq> set bills" for bs
      using that
    proof (induction bs)
      case (Cons x bs)
      then obtain xs where "bill_reductions J input (sidesOf input) x = Inr xs" "bill_fits J x" using fits by auto
      from red_rows_total [OF this False, of b] Cons show ?case by simp
    qed simp
    ultimately show ?thesis using pick [of "typed_part J ty"] by (simp add: rows)
  qed
qed

text \<open>Every row of the plan is a positive row of one of the four settlement types, on the credit side of a bill sent.\<close>

lemma cheque_rows:
  assumes input: "input = cheque_input J' scope amount bills allocated" and pre: "alloc_pre J input"
    and ok: "allocate J input = Some (Inr r)" and row: "row \<in> set (ar_adjustments r)"
  shows "\<exists>b\<in>set bills. on_bill b row \<and> adj_drCr row = CR \<and> 0 < adj_amount row \<and> paise (adj_amount row) \<and>
    adj_adjType row \<in> {BillAdjType.ALLOCATION, BillAdjType.DISCOUNT, BillAdjType.WRITEOFF, BillAdjType.ROUND_OFF} \<and>
    (adj_adjType row = BillAdjType.WRITEOFF \<longrightarrow> adj_approvedBy row = ab_writeoffApprovedBy b)"
proof -
  have CR: "sd_settle (sidesOf input) = CR" by (simp add: input)
  from cheque_trace [OF input pre ok] obtain ts where
    rows: "ar_adjustments r = flow_rows (sidesOf input) ts @ concat (map (red_rows J input (sidesOf input)) bills)"
    and ts: "\<forall>(b, s, t)\<in>set ts. b \<in> set bills \<and> src_kind s \<noteq> CREDIT \<and> paise t \<and> 0 < t"
    and "\<And>f. moved_by (\<lambda>b s. f b) ts = sum_list (map (\<lambda>b. f b * money J (ab_amount b)) bills)"
    and "\<forall>b\<in>set bills. bill_fits J b \<and> (\<exists>rows. bill_reductions J input (sidesOf input) b = Inr rows)"
    and "distinct (map bill_key bills)" by blast
  from row consider "row \<in> set (flow_rows (sidesOf input) ts)" | b where "b \<in> set bills" "row \<in> set (red_rows J input (sidesOf input) b)"
    by (auto simp: rows)
  then show ?thesis
  proof cases
    case 1
    from flow_rows_plain [OF ts 1] obtain b where "b \<in> set bills" "on_bill b row" "adj_adjType row = BillAdjType.ALLOCATION"
      "adj_drCr row = CR" "0 < adj_amount row" "paise (adj_amount row)" unfolding CR by blast
    then show ?thesis by (intro bexI [of _ b]) simp_all
  next
    case 2
    from red_rows_plain [OF 2(2)] 2(1) show ?thesis unfolding CR by (intro bexI [of _ b]) auto
  qed
qed

lemma cheque_rows_total:
  assumes input: "input = cheque_input J' scope amount bills allocated" and pre: "alloc_pre J input"
    and ok: "allocate J input = Some (Inr r)"
  shows "sum_list (map adj_amount (ar_adjustments r)) = sum_list (map (\<lambda>b. money J (ab_amount b) + reduction J b) bills)"
proof -
  from cheque_trace [OF input pre ok] obtain ts where
    rows: "ar_adjustments r = flow_rows (sidesOf input) ts @ concat (map (red_rows J input (sidesOf input)) bills)"
    and ts: "\<forall>(b, s, t)\<in>set ts. b \<in> set bills \<and> src_kind s \<noteq> CREDIT \<and> paise t \<and> 0 < t"
    and moved: "\<And>f. moved_by (\<lambda>b s. f b) ts = sum_list (map (\<lambda>b. f b * money J (ab_amount b)) bills)"
    and fits: "\<forall>b\<in>set bills. bill_fits J b \<and> (\<exists>rows. bill_reductions J input (sidesOf input) b = Inr rows)"
    and "distinct (map bill_key bills)" by blast
  have "sum_list (map adj_amount (flow_rows (sidesOf input) us)) = moved_by (\<lambda>b s. 1) us"
    if "\<forall>(b, s, t)\<in>set us. src_kind s \<noteq> CREDIT" for us
    using that
  proof (induction us)
    case (Cons x us)
    obtain b' s t where x: "x = (b', s, t)" by (cases x)
    then obtain row where "settlementRows b' s t (sidesOf input) = [row]" "adj_amount row = t"
      using settlement_of_money [of s b' t "sidesOf input"] Cons.prems(1) by auto
    then show ?case using Cons x by simp
  qed simp
  moreover have "\<forall>(b, s, t)\<in>set ts. src_kind s \<noteq> CREDIT" using ts by auto
  moreover have "sum_list (map adj_amount (concat (map (red_rows J input (sidesOf input)) bs))) = sum_list (map (reduction J) bs)"
    if "set bs \<subseteq> set bills" for bs
    using that
  proof (induction bs)
    case (Cons x bs)
    then obtain xs where "bill_reductions J input (sidesOf input) x = Inr xs" "bill_fits J x" using fits by auto
    then have "sum_list (map adj_amount (red_rows J input (sidesOf input) x)) = 1 * reduction J x"
      by (rule red_rows_sum) (simp add: reductionRow_def)
    with Cons show ?case by simp
  qed simp
  ultimately show ?thesis using moved [of "\<lambda>b. 1"] by (simp add: rows sum_list_addf)
qed

text \<open>The engine accepts a cheque that covers its bills.\<close>

lemma cheque_accepted:
  assumes fits: "\<forall>b\<in>set bills. bill_fits J b \<and> paise (ab_amount b)" and dist: "distinct (map bill_key bills)"
    and reds: "\<forall>b\<in>set bills. ab_discount b = 0 \<and> ab_writeoff b = 0 \<and> ab_roundoff b = 0"
    and amount: "paise amount" "0 \<le> amount" "amount \<le> split_limit" and covers: "sum_list (map ab_amount bills) \<le> amount"
    and input: "input = cheque_input J scope amount bills (sum_money J (map ab_amount bills))"
  shows "alloc_pre J input" and "\<exists>r. allocate J input = Some (Inr r)"
    and "d_minus J amount (sum_money J (map ab_amount bills)) = amount - sum_list (map ab_amount bills)"
proof -
  let ?S = "sum_list (map ab_amount bills)"
  have moneys: "map (\<lambda>b. money J (ab_amount b)) bills = map ab_amount bills" using fits by simp
  have nonneg: "\<forall>x\<in>set (map ab_amount bills). paise x \<and> 0 \<le> x" using fits by (auto simp: bill_fits_def)
  then have S: "0 \<le> ?S" "paise ?S" by (auto intro!: sum_list_nonneg on_grid_sum_list)
  have lim: "split_limit = 40000000" "amount_limit = 1000000000000000" by (simp_all add: split_limit_def amount_limit_def)
  have col: "exact_column (map ab_amount bills)" using nonneg covers amount lim by (intro exact_column_nonneg) auto
  then have sum: "sum_money J (map ab_amount bills) = ?S" by (rule sum_money_exact)
  show minus: "d_minus J amount (sum_money J (map ab_amount bills)) = amount - ?S"
    unfolding sum using S amount covers lim by (intro minus_paise) auto
  have left: "paise (amount - ?S)" "0 \<le> amount - ?S" "amount - ?S \<le> split_limit" using S amount covers by auto
  have zero: "column J f bills = 0" if "\<forall>b\<in>set bills. f b = 0" for f
    using that by (induction bills) (simp_all add: column_def)
  have colB: "column J ab_amount bills = ?S" unfolding column_def moneys ..
  show pre: "alloc_pre J input"
    using amount covers lim S reds by (simp add: input alloc_pre_def column_def [of J at_amount] column_def [of J ol_amount] column_def [of J pin_amount]
        column_def [of J ac_amount] colB zero)
  have plus: "d_plus J a b = a + b" if "paise a" "paise b" "0 \<le> a" "0 \<le> b" "a \<le> split_limit" "b \<le> split_limit" for a b
    using that lim by (intro plus_paise) auto
  have one: "sum_money J [amount] = amount" using amount lim sum_money_exact [of "[amount]"] by (simp add: exact_column_def)
  have none: "sum_money J [] = 0" using sum_money_exact [of "[]"] by simp
  have "assertIdentity J input (sidesOf input) = Inr ()"
    using amount left S covers lim by (simp add: assertIdentity_def input moneys [unfolded money_half_up] sum minus [unfolded sum] one none plus Let_def)
  moreover have "assertBillsFit J (ai_bills input) = Inr ()" using fits dist by (simp add: input assertBillsFit_iff)
  moreover have "assertCreditsFit J (ai_credits input) = Inr ()" by (simp add: input assertCreditsFit_iff)
  ultimately have "guards_pass J input" by (simp add: guards_pass_def)
  moreover have "claim_ok input" using left lim by (simp add: claim_ok_def input minus)
  ultimately show "\<exists>r. allocate J input = Some (Inr r)"
    using pre left reds by (intro alloc_succeeds) (auto simp: input minus colB S column_def [of J ac_amount])
qed

end

end
