(* ===== verification/Cheque_Properties.thy ===== *)
theory Cheque_Properties
  imports Cheque_Fifo Cheque_Plan
begin

text \<open>
  The properties of the allocation of a cheque: first-in first-out when nobody decided, and what a plan that is
  written settles in every mode.
\<close>

section \<open>The rows written\<close>

lemma adjustment_fields [simp, row_simps]:
  "abj_id (adjustment_row scope i n a) = i" "abj_billId (adjustment_row scope i n a) = adj_billId a"
  "abj_billAccYear (adjustment_row scope i n a) = adj_billAccYear a" "abj_adjType (adjustment_row scope i n a) = adj_adjType a"
  "abj_drCr (adjustment_row scope i n a) = adj_drCr a" "abj_amount (adjustment_row scope i n a) = adj_amount a"
  "abj_voucherId (adjustment_row scope i n a) = cs_voucherId scope" "abj_voucherAccYear (adjustment_row scope i n a) = cs_accYear scope"
  "abj_chequeId (adjustment_row scope i n a) = Some (chq_apdId (cs_cheque scope))"
  "abj_chequeAccYear (adjustment_row scope i n a) = Some (chq_apdAccYear (cs_cheque scope))"
  "abj_approvedBy (adjustment_row scope i n a) = adj_approvedBy a" "abj_isDeleted (adjustment_row scope i n a) = False"
  "abj_reversalOfId (adjustment_row scope i n a) = None" "abj_rowNo (adjustment_row scope i n a) = n + 1"
  "abj_partyId (adjustment_row scope i n a) = cs_partyId scope" "abj_adjDate (adjustment_row scope i n a) = cs_adjDate scope"
  "abj_isPostDated (adjustment_row scope i n a) = cs_isPostDated scope"
  by (simp_all add: adjustment_row_def)

lemma written_total:
  assumes "\<And>i n a. P (adjustment_row scope i n a) \<longleftrightarrow> Q a"
  shows "sum_list (map abj_amount (filter P (writeAdjustments scope ids plan))) = sum_list (map adj_amount (filter Q (ar_adjustments plan)))"
proof -
  have "sum_list (map abj_amount (filter P (map (\<lambda>(i, a). adjustment_row scope (ids i) i a) (enumerate n xs)))) =
      sum_list (map adj_amount (filter Q xs))" for n xs
    by (induction xs arbitrary: n) (simp_all add: assms)
  then show ?thesis by (simp add: writeAdjustments_def)
qed

lemma written_total_all: "sum_list (map abj_amount (writeAdjustments scope ids plan)) = sum_list (map adj_amount (ar_adjustments plan))"
  using written_total [of "\<lambda>_. True" scope "\<lambda>_. True"] by simp

lemma written_member: "row \<in> set (writeAdjustments scope ids plan) \<Longrightarrow> \<exists>i n a. a \<in> set (ar_adjustments plan) \<and> row = adjustment_row scope i n a"
  using nth_mem by (fastforce simp: writeAdjustments_def in_set_enumerate_eq)

section \<open>First in, first out\<close>

lemma greedy_length: "length (greedy a ps) \<le> length ps"
  using length_takeWhile_le [of "\<lambda>x. 0 < x" "map (\<lambda>i. min (ps ! i) (a - sum_list (take i ps))) [0..<length ps]"] by (simp add: greedy_def)

lemma greedy_le: "i < length (greedy a ps) \<Longrightarrow> greedy a ps ! i \<le> ps ! i"
proof -
  assume i: "i < length (greedy a ps)"
  then have "i < length ps" using greedy_length [of a ps] by simp
  then show ?thesis using i by (simp add: greedy_def takeWhile_nth)
qed

lemma filled_columns:
  assumes "length gs \<le> length bs"
  shows "map ab_amount (map2 fifo_bill bs gs) = gs" and "map bill_key (map2 fifo_bill bs gs) = take (length gs) (map locked_key bs)"
    and "map (\<lambda>b. (ab_billId b, ab_billAccYear b)) (map2 fifo_bill bs gs) = take (length gs) (map (\<lambda>b. (lk_ablId b, lk_ablAccYear b)) bs)"
  using assms by (induction bs gs rule: list_induct2') (simp_all add: fifo_bill_def bill_key_def locked_key_def)

text \<open>The bills a cheque with no instructions may fill, in the order of the query.\<close>

definition fifo_open :: "cheque_db \<Rightarrow> cheque_scope \<Rightarrow> locked_bill list" where
  "fifo_open db scope = (let candidates = fifo_candidates (db_rank db) scope (db_before db)
     in fillable (lockBills (db_bills db) candidates) candidates)"

context decimal_package
begin

lemma filled_fit:
  assumes pend: "\<forall>b\<in>set bs. paise (lk_ablPendingAmount b) \<and> 0 < lk_ablPendingAmount b" and a: "paise a" "0 \<le> a" "a < 10 ^ 18"
    and x: "x \<in> set (map2 fifo_bill bs (greedy a (map lk_ablPendingAmount bs)))"
  shows "bill_fits J x \<and> paise (ab_amount x) \<and> ab_discount x = 0 \<and> ab_writeoff x = 0 \<and> ab_roundoff x = 0"
proof -
  let ?gs = "greedy a (map lk_ablPendingAmount bs)"
  obtain i where i: "i < length bs" "i < length ?gs" "x = fifo_bill (bs ! i) (?gs ! i)" using x by (auto simp: set_zip)
  let ?g = "?gs ! i" and ?p = "lk_ablPendingAmount (bs ! i)"
  have g: "paise ?g" "0 < ?g" using greedy_values [of "map lk_ablPendingAmount bs" a ?g] pend a i(2) by auto
  have le: "?g \<le> ?p" using greedy_le [OF i(2)] i(1) by simp
  have "?g \<le> sum_list ?gs" using greedy_values [of "map lk_ablPendingAmount bs" a] pend a i(2) by (intro member_le_sum_list) (auto simp: order.strict_implies_order)
  also have "\<dots> \<le> a" using greedy_sum [of "map lk_ablPendingAmount bs" a] pend a by simp
  finally have "?g < 10 ^ 18" using a by simp
  then have "d_plus J ?g 0 = ?g" using g by (intro plus_paise [of _ 0, simplified]) auto
  then show ?thesis using g le pend i(1) by (simp add: i(3) bill_fits_def bill_settled_def fifo_bill_def)
qed

lemma on_bill_total:
  assumes input: "input = cheque_input J' scope amount bills allocated" and pre: "alloc_pre J input"
    and ok: "allocate J input = Some (Inr r)" and b: "b \<in> set bills"
  shows "sum_list (map adj_amount (filter (on_bill b) (ar_adjustments r))) = money J (ab_amount b) + reduction J b"
proof -
  have "filter (on_bill b) (ar_adjustments r) = filter (row_on (ab_billId b) (ab_billAccYear b) CR) (ar_adjustments r)"
    using cheque_rows [OF input pre ok] by (intro filter_cong refl) (auto simp: on_bill_def row_on_def)
  then show ?thesis using bill_settled_total [OF pre ok, of b] b by (simp add: input moved_on_def)
qed

lemma fifo_plan:
  assumes amount: "money J (chq_apdAmount (cs_cheque scope)) = a" "0 \<le> a" "a \<le> split_limit"
    and keys: "distinct (map (\<lambda>(b, _). locked_key b) (db_before db))"
    and pend: "\<forall>b\<in>set (db_bills db). paise (lk_ablPendingAmount b)"
    and bills: "bills = map2 fifo_bill (fifo_open db scope) (greedy a (map lk_ablPendingAmount (fifo_open db scope)))"
    and input: "input = cheque_input J scope a bills (sum_money J (map ab_amount bills))"
  shows "cheque_bills J db scope AUTO_FIFO = Inr bills" and "map ab_amount bills = greedy a (map lk_ablPendingAmount (fifo_open db scope))"
    and "alloc_pre J input" and "\<exists>r. allocate J input = Some (Inr r)" and "\<not> a < sum_money J (map ab_amount bills)"
    and "d_minus J a (sum_money J (map ab_amount bills)) = a - min a (sum_list (map lk_ablPendingAmount (fifo_open db scope)))"
    and "\<forall>x\<in>set bills. bill_fits J x \<and> paise (ab_amount x) \<and> ab_discount x = 0 \<and> ab_writeoff x = 0 \<and> ab_roundoff x = 0"
proof -
  let ?cands = "fifo_candidates (db_rank db) scope (db_before db)" and ?open = "fifo_open db scope"
  let ?ps = "map lk_ablPendingAmount ?open"
  have lim: "split_limit = 40000000" by (simp add: split_limit_def)
  have a: "paise a" "a < 10 ^ 18" using amount lim by auto
  have dist: "distinct (map (\<lambda>(i, y). key_of i y) ?cands)" using keys by (rule candidate_keys)
  have pos: "\<forall>b\<in>set ?open. paise (lk_ablPendingAmount b) \<and> 0 < lk_ablPendingAmount b"
    using pend fillable_pending fillable_member lockBills_get unfolding fifo_open_def Let_def by blast
  have len: "length (greedy a ?ps) \<le> length ?open" using greedy_length [of a ?ps] by simp
  show "cheque_bills J db scope AUTO_FIFO = Inr bills"
    using fifo_fill_greedy [of "lockBills (db_bills db) ?cands" ?cands a] pos a amount(2)
    by (simp add: cheque_bills_def autoFifoBills_def Let_def bills fifo_open_def amount(1) del: money_half_up)
  show amounts: "map ab_amount bills = greedy a ?ps" unfolding bills by (rule filled_columns(1) [OF len])
  show fits: "\<forall>x\<in>set bills. bill_fits J x \<and> paise (ab_amount x) \<and> ab_discount x = 0 \<and> ab_writeoff x = 0 \<and> ab_roundoff x = 0"
    unfolding bills using filled_fit [OF pos a(1) amount(2) a(2)] by blast
  have keys: "distinct (map bill_key bills)"
    unfolding bills filled_columns(2) [OF len] using fillable_keys [OF dist] by (simp add: fifo_open_def Let_def)
  have sum: "sum_list (map ab_amount bills) = min a (sum_list ?ps)"
    unfolding amounts using pos amount(2) by (intro greedy_sum) auto
  note acc = cheque_accepted [OF _ keys _ a(1) amount(2,3) _ input]
  show "alloc_pre J input" "\<exists>r. allocate J input = Some (Inr r)" using fits sum by (intro acc(1,2); simp)+
  show minus: "d_minus J a (sum_money J (map ab_amount bills)) = a - min a (sum_list ?ps)"
    unfolding sum [symmetric] using fits sum by (intro acc(3)) simp_all
  have nn: "\<forall>x\<in>set (map ab_amount bills). paise x \<and> 0 \<le> x" using fits by (auto simp: bill_fits_def)
  then have "exact_column (map ab_amount bills)" using sum a by (intro exact_column_nonneg) auto
  then show "\<not> a < sum_money J (map ab_amount bills)" using sum by (simp add: sum_money_exact)
qed

lemma fifo_lands:
  assumes "0 \<le> chq_apdAmount (cs_cheque scope)" and "money J (chq_apdAmount (cs_cheque scope)) \<le> split_limit"
    and "distinct (map (\<lambda>(b, _). locked_key b) (db_before db))"
    and "\<forall>b\<in>set (db_bills db). paise (lk_ablPendingAmount b)"
  shows "\<exists>out rows advance. allocateChequeMoney J db scope AUTO_FIFO = Some (Inr (out, rows, advance)) \<and>
    map cb_settledByThisCheque (co_refs out) =
      greedy (money J (chq_apdAmount (cs_cheque scope))) (map lk_ablPendingAmount (fifo_open db scope)) \<and>
    co_bills out = take (length (co_refs out)) (map (\<lambda>b. (lk_ablId b, lk_ablAccYear b)) (fifo_open db scope)) \<and>
    (\<forall>ref\<in>set (co_refs out). cb_settledByThisCheque ref =
      sum_list (map abj_amount (filter (\<lambda>row. abj_billId row = cb_billId ref \<and> abj_billAccYear row = cb_billAccYear ref) rows))) \<and>
    co_onAccount out = max 0 (money J (chq_apdAmount (cs_cheque scope)) - sum_list (map lk_ablPendingAmount (fifo_open db scope))) \<and>
    map_option av_billAmount advance = (if co_onAccount out = 0 then None else Some (co_onAccount out)) \<and>
    (\<exists>rows. sorted (map (due_key (db_rank db)) rows) \<and> set rows \<subseteq> fst ` set (filter (open_receivable scope) (db_before db)) \<and>
      map (\<lambda>(i, y). key_of i y) (co_bills out) = map locked_key rows)"
proof -
  let ?a = "money J (chq_apdAmount (cs_cheque scope))" and ?open = "fifo_open db scope"
  let ?ps = "map lk_ablPendingAmount ?open" and ?bills = "map2 fifo_bill ?open (greedy ?a (map lk_ablPendingAmount ?open))"
  let ?input = "cheque_input J scope ?a ?bills (sum_money J (map ab_amount ?bills))"
  have a: "0 \<le> ?a" using assms(1) by simp
  note plan = fifo_plan [OF refl a assms(2-4) refl refl]
  from plan(4) obtain r where r: "allocate J ?input = Some (Inr r)" by blast
  let ?out = "cheque_outcome_of J ?bills r" and ?rows = "writeAdjustments scope (db_ids db) r" and ?adv = "writeAdvanceBill scope r"
  have run: "allocateChequeMoney J db scope AUTO_FIFO = Some (Inr (?out, ?rows, ?adv))"
    using plan(1,5) r by (simp add: allocateChequeMoney_def Let_def del: money_half_up)
  have paise: "map (\<lambda>b. money J (ab_amount b)) ?bills = map ab_amount ?bills" using plan(7) by simp
  have "map cb_settledByThisCheque (co_refs (cheque_outcome_of J bs r)) = map (\<lambda>b. money J (ab_amount b)) bs" for bs
    by (simp add: cheque_outcome_of_def cheque_ref_def)
  then have refs: "map cb_settledByThisCheque (co_refs ?out) = greedy ?a ?ps" using paise plan(2) by (simp only:)
  have len: "length (greedy ?a ?ps) \<le> length ?open" using greedy_length [of ?a ?ps] by simp
  note ids = filled_columns(3) [OF len]
  have "length (co_refs ?out) = length (greedy ?a ?ps)" using refs by (metis length_map)
  then have bills: "co_bills ?out = take (length (co_refs ?out)) (map (\<lambda>b. (lk_ablId b, lk_ablAccYear b)) ?open)"
    using ids by (simp only: cheque_outcome_of_def cheque_outcome.simps)
  have settled: "cb_settledByThisCheque ref =
      sum_list (map abj_amount (filter (\<lambda>row. abj_billId row = cb_billId ref \<and> abj_billAccYear row = cb_billAccYear ref) ?rows))"
    if "ref \<in> set (co_refs ?out)" for ref
  proof -
    from that obtain b where b: "b \<in> set ?bills" "ref = cheque_ref J b" by (auto simp: cheque_outcome_of_def)
    have "sum_list (map abj_amount (filter (\<lambda>row. abj_billId row = ab_billId b \<and> abj_billAccYear row = ab_billAccYear b) ?rows)) =
        sum_list (map adj_amount (filter (on_bill b) (ar_adjustments r)))"
      by (rule written_total) (simp add: on_bill_def)
    also have "\<dots> = money J (ab_amount b) + reduction J b" by (rule on_bill_total [OF refl plan(3) r b(1)])
    also have "reduction J b = 0" using bspec [OF plan(7) b(1)] by (simp add: reduction_def)
    finally show ?thesis by (simp add: b(2) cheque_ref_def)
  qed
  have "ar_totalOnAccount r = money J (?a - min ?a (sum_list ?ps))"
    using on_account_total(1) [OF plan(3) r] unfolding cheque_fields plan(6) .
  moreover have "paise (sum_list ?ps)"
    using assms(4) fillable_member lockBills_get unfolding fifo_open_def Let_def by (intro on_grid_sum_list) (fastforce simp del: fillable_simps)
  ultimately have tot: "ar_totalOnAccount r = max 0 (?a - sum_list ?ps)" by (auto simp: min_def max_def)
  then have "co_onAccount ?out = max 0 (?a - sum_list ?ps)"
    and "map_option av_billAmount ?adv = (if co_onAccount ?out = 0 then None else Some (co_onAccount ?out))"
    by (auto simp: cheque_outcome_of_def writeAdvanceBill_def simp del: money_half_up)
  moreover obtain order where order: "sorted (map (due_key (db_rank db)) order)"
      "set order \<subseteq> fst ` set (filter (open_receivable scope) (db_before db))" "map locked_key ?open = map locked_key order"
    by (rule fillable_ordered) (auto simp: fifo_open_def Let_def)
  let ?n = "length (co_refs ?out)"
  have "map (\<lambda>(i, y). key_of i y) (co_bills ?out) = take ?n (map locked_key ?open)"
    unfolding bills by (simp add: take_map comp_def locked_key_def)
  then have "map (\<lambda>(i, y). key_of i y) (co_bills ?out) = map locked_key (take ?n order)" unfolding order(3) by (simp only: take_map)
  moreover have "sorted (map (due_key (db_rank db)) (take ?n order))"
    using order(1) by (simp only: sorted_map sorted_wrt_take)
  moreover have "set (take ?n order) \<subseteq> fst ` set (filter (open_receivable scope) (db_before db))"
    using order(2) set_take_subset [of ?n order] by blast
  ultimately show ?thesis using run refs bills settled by blast
qed

end

section \<open>Every mode\<close>

lemma e_map_member: "e_map f i xs = Inr ys \<Longrightarrow> y \<in> set ys \<Longrightarrow> \<exists>j x. x \<in> set xs \<and> f j x = Inr y"
  by (induction xs arbitrary: i ys) (fastforce simp: e_bind_Inr_conv)+

text \<open>A bill of the table a cheque may settle.\<close>

definition live_bill :: "cheque_db \<Rightarrow> alloc_bill \<Rightarrow> locked_bill \<Rightarrow> bool" where
  "live_bill db b l \<longleftrightarrow> l \<in> set (db_bills db) \<and> lk_ablId l = ab_billId b \<and> lk_ablAccYear l = ab_billAccYear b \<and>
     \<not> lk_ablIsDeleted l \<and> lk_ablPendingAmount l = ab_pendingAmount b"

definition owed_by :: "cheque_scope \<Rightarrow> locked_bill \<Rightarrow> bool" where
  "owed_by scope l \<longleftrightarrow> lk_ablPartyId l = cs_partyId scope \<and> lk_ablCompanyId l = cs_companyId scope \<and> lk_ablDrCr l = DR \<and>
     lk_ablBillType l \<in> set RECEIVABLE_BILL_TYPES"

lemma usable_owed:
  "assertBillUsable bill (cs_partyId scope) (cs_companyId scope) RECEIVABLE field = Inr l \<Longrightarrow>
   bill = Some l \<and> \<not> lk_ablIsDeleted l \<and> owed_by scope l"
  by (auto simp: assertBillUsable_def owed_by_def split: option.splits if_splits)

lemma named_live:
  assumes "named_bill J scope (lockBills (db_bills db) bs) i row = Inr b"
  shows "\<exists>l. live_bill db b l \<and> owed_by scope l"
  using assms by (auto simp: named_bill_def e_bind_Inr_conv live_bill_def dest!: usable_owed lockBills_get)

lemma restored_live:
  assumes "restored_bill J scope (lockBills (db_bills db) bs) i row = Inr b"
  shows "\<exists>l. live_bill db b l \<and> owed_by scope l"
  using assms by (auto simp: restored_bill_def e_bind_Inr_conv live_bill_def Let_def split: if_splits dest!: usable_owed lockBills_get)

text \<open>A bill keeps its party, company, side and type between the query and the lock.\<close>

definition kept_identity :: "cheque_db \<Rightarrow> bool" where
  "kept_identity db \<longleftrightarrow> (\<forall>(row, status)\<in>set (db_before db). \<forall>l\<in>set (db_bills db). locked_key l = locked_key row \<longrightarrow>
     lk_ablPartyId l = lk_ablPartyId row \<and> lk_ablCompanyId l = lk_ablCompanyId row \<and> lk_ablDrCr l = lk_ablDrCr row \<and>
     lk_ablBillType l = lk_ablBillType row)"

lemma fifo_live:
  assumes "b \<in> set (fifo_fill J (lockBills (db_bills db) bs) cs a)" and "\<forall>(i, y)\<in>set cs. key_of i y \<in> K"
  shows "\<exists>l. live_bill db b l \<and> locked_key l \<in> K"
  using assms
proof (induction J "lockBills (db_bills db) bs" cs a rule: fifo_fill.induct)
  case (2 J i y cs a)
  show ?case
  proof (cases "a \<le> 0 \<or> jmap_get (lockBills (db_bills db) bs) (key_of i y) = None")
    case True
    then show ?thesis using 2 by (auto split: if_splits)
  next
    case False
    then obtain l where l: "jmap_get (lockBills (db_bills db) bs) (key_of i y) = Some l" by auto
    show ?thesis
    proof (cases "lk_ablIsDeleted l \<or> lk_ablPendingAmount l \<le> 0")
      case True
      then show ?thesis using 2 l by (auto split: if_splits)
    next
      case live: False
      then have "b = fifo_bill l (min a (lk_ablPendingAmount l)) \<or>
          b \<in> set (fifo_fill J (lockBills (db_bills db) bs) cs (d_minus J a (min a (lk_ablPendingAmount l))))"
        using "2.prems" l False by (simp add: Let_def)
      then show ?thesis
      proof
        assume "b = fifo_bill l (min a (lk_ablPendingAmount l))"
        then show ?thesis using live lockBills_get [OF l] "2.prems"(2) by (intro exI [of _ l]) (simp add: live_bill_def fifo_bill_def)
      next
        assume "b \<in> set (fifo_fill J (lockBills (db_bills db) bs) cs (d_minus J a (min a (lk_ablPendingAmount l))))"
        then show ?thesis using "2.hyps"(3) "2.prems"(2) l live False by (simp add: not_le)
      qed
    qed
  qed
qed simp

lemma candidate_owed:
  assumes "kept_identity db" and "l \<in> set (db_bills db)"
    and "locked_key l \<in> set (map (\<lambda>(i, y). key_of i y) (fifo_candidates rank scope (db_before db)))"
  shows "owed_by scope l"
proof -
  obtain row status where row: "(row, status) \<in> set (db_before db)" "open_receivable scope (row, status)" "locked_key l = locked_key row"
    using assms(3) by (fastforce simp: fifo_candidates_def query_order_def locked_key_def dest!: in_set_takeD)
  then show ?thesis using assms(1,2) by (fastforce simp: kept_identity_def owed_by_def open_receivable_def)
qed

lemma cheque_bills_live:
  assumes "cheque_bills J db scope request = Inr bills" and "b \<in> set bills" and "request = AUTO_FIFO \<longrightarrow> kept_identity db"
  shows "\<exists>l. live_bill db b l \<and> owed_by scope l"
proof (cases request)
  case (NAMED rows)
  then show ?thesis using assms by (auto simp: cheque_bills_def loadNamedBills_def Let_def dest!: e_map_member named_live)
next
  case AUTO_FIFO
  let ?K = "set (map (\<lambda>(i, y). key_of i y) (fifo_candidates (db_rank db) scope (db_before db)))"
  have "b \<in> set (fifo_fill J (lockBills (db_bills db) (fifo_candidates (db_rank db) scope (db_before db)))
      (fifo_candidates (db_rank db) scope (db_before db)) (money J (chq_apdAmount (cs_cheque scope))))"
    using assms(1,2) AUTO_FIFO by (simp add: cheque_bills_def autoFifoBills_def Let_def del: decimal_package.money_half_up)
  from fifo_live [OF this, of ?K] obtain l where l: "live_bill db b l" "locked_key l \<in> ?K" by fastforce
  then have "owed_by scope l" using assms(3) AUTO_FIFO by (intro candidate_owed [of db l "db_rank db" scope]) (simp_all add: live_bill_def)
  with l show ?thesis by blast
next
  case (RESTORE rows)
  then show ?thesis using assms
    by (auto simp: cheque_bills_def loadRestoredBills_def Let_def split: if_splits dest!: e_map_member restored_live)
qed

text \<open>What the rows written settle on a bill.\<close>

definition settled_by :: "abj_row list \<Rightarrow> alloc_bill \<Rightarrow> rat" where
  "settled_by rows b = sum_list (map abj_amount (filter (\<lambda>row. abj_billId row = ab_billId b \<and> abj_billAccYear row = ab_billAccYear b) rows))"

text \<open>A row this cheque wrote under its voucher, on the credit side of a bill of the list.\<close>

definition cheque_row :: "cheque_scope \<Rightarrow> alloc_bill list \<Rightarrow> abj_row \<Rightarrow> bool" where
  "cheque_row scope bills row \<longleftrightarrow> abj_chequeId row = Some (chq_apdId (cs_cheque scope)) \<and> abj_voucherId row = cs_voucherId scope \<and>
     abj_drCr row = CR \<and> 0 < abj_amount row \<and> abj_reversalOfId row = None \<and>
     (abj_billId row, abj_billAccYear row) \<in> set (map (\<lambda>b. (ab_billId b, ab_billAccYear b)) bills)"

lemma allocate_cheque_Inr:
  assumes "allocateChequeMoney J db scope request = Some (Inr (out, rows, advance))"
  shows "\<exists>bills r. cheque_bills J db scope request = Inr bills \<and>
    allocate J (cheque_input J scope (money J (chq_apdAmount (cs_cheque scope))) bills (sum_money J (map ab_amount bills))) = Some (Inr r) \<and>
    out = cheque_outcome_of J bills r \<and> rows = writeAdjustments scope (db_ids db) r \<and> advance = writeAdvanceBill scope r"
  using assms by (auto simp: allocateChequeMoney_def Let_def split: sum.splits if_splits option.splits)

context decimal_package
begin

lemma settles_in_full:
  assumes ok: "allocateChequeMoney J db scope request = Some (Inr (out, rows, advance))" and bills: "cheque_bills J db scope request = Inr bills"
    and pre: "alloc_pre J (cheque_input J scope (money J (chq_apdAmount (cs_cheque scope))) bills (sum_money J (map ab_amount bills)))"
    and kept: "request = AUTO_FIFO \<longrightarrow> kept_identity db"
  shows "(\<forall>b\<in>set bills. settled_by rows b = money J (ab_amount b) + reduction J b \<and> bill_settled J b \<le> money J (ab_pendingAmount b) \<and>
      (\<exists>l. live_bill db b l \<and> owed_by scope l)) \<and>
    (\<forall>row\<in>set rows. cheque_row scope bills row) \<and>
    sum_list (map abj_amount rows) + co_onAccount out = money J (chq_apdAmount (cs_cheque scope)) + sum_list (map (reduction J) bills) \<and>
    co_partyCredit out = sum_list (map abj_amount rows) + co_onAccount out \<and>
    map_option av_billAmount advance = (if co_onAccount out \<le> 0 then None else Some (co_onAccount out))"
proof -
  let ?a = "money J (chq_apdAmount (cs_cheque scope))"
  obtain input where input: "input = cheque_input J scope ?a bills (sum_money J (map ab_amount bills))" by blast
  from allocate_cheque_Inr [OF ok] bills obtain r where r: "allocate J input = Some (Inr r)" "out = cheque_outcome_of J bills r"
    "rows = writeAdjustments scope (db_ids db) r" "advance = writeAdvanceBill scope r" by (auto simp: input)
  note pre = pre [folded input]
  have fits: "\<forall>b\<in>set bills. bill_fits J b" using allocate_success [OF pre r(1)] by (simp add: input guards_pass_def assertBillsFit_iff)
  have settled: "settled_by rows b = money J (ab_amount b) + reduction J b" if "b \<in> set bills" for b
  proof -
    have "settled_by rows b = sum_list (map adj_amount (filter (on_bill b) (ar_adjustments r)))"
      unfolding settled_by_def r(3) by (rule written_total) (simp add: on_bill_def)
    then show ?thesis using on_bill_total [OF input pre r(1) that] by simp
  qed
  have rows: "cheque_row scope bills row" if "row \<in> set rows" for row
  proof -
    from written_member [OF that [unfolded r(3)]] obtain i n a where a: "a \<in> set (ar_adjustments r)" "row = adjustment_row scope i n a" by blast
    from cheque_rows [OF input pre r(1) a(1)] show ?thesis by (auto simp: a(2) cheque_row_def on_bill_def)
  qed
  have total: "sum_list (map abj_amount rows) = column J ab_amount bills + sum_list (map (reduction J) bills)"
    unfolding r(3) written_total_all cheque_rows_total [OF input pre r(1)] column_def by (simp add: sum_list_addf)
  have "identity_holds J input" by (rule on_account_total(3) [OF pre r(1)])
  then have money: "?a = column J ab_amount bills + ar_totalOnAccount r"
    using on_account_total(1) [OF pre r(1)] by (simp add: input identity_holds_def column_def [of J at_amount] column_def [of J ac_amount])
  have "co_partyCredit out = ?a + sum_list (map (reduction J) bills)"
    using party_leg_receipt [OF pre r(1)] by (simp add: r(2) input cheque_outcome_of_def)
  moreover have "co_onAccount out = ar_totalOnAccount r" by (simp add: r(2) cheque_outcome_of_def)
  moreover have "map_option av_billAmount advance = (if ar_totalOnAccount r \<le> 0 then None else Some (ar_totalOnAccount r))"
    by (simp add: r(4) writeAdvanceBill_def)
  ultimately show ?thesis using settled rows total money fits cheque_bills_live [OF bills _ kept] by (auto simp: bill_fits_def simp del: money_half_up)
qed

end

section \<open>A cheque of 100 against bills of 60 and 80\<close>

definition sample_cheque :: locked_cheque where
  "sample_cheque = \<lparr> chq_apdId = ''c1'', chq_apdAccYear = ''2026-2027'', chq_apdInstrumentNo = ''000123'', chq_apdInstrumentDate = 1772323200000,
     chq_apdAmount = 100, chq_apdVoucherId = None, chq_apdVoucherAccYear = None, chq_apdTenderId = None \<rparr>"

definition sample_scope :: cheque_scope where
  "sample_scope = \<lparr> cs_voucherId = ''v1'', cs_accYear = ''2026-2027'', cs_voucherTypeId = 7, cs_voucherNo = 12, cs_voucherRefno = None,
     cs_companyId = ''co'', cs_branchId = ''br'', cs_tenantId = None, cs_partyId = ''p1'', cs_salesmanId = None, cs_userId = ''u'',
     cs_sessionId = None, cs_actor = ''u'', cs_adjDate = 1772323200000, cs_isPostDated = False, cs_cheque = sample_cheque,
     cs_tenderId = None, cs_tenderAccYear = None \<rparr>"

definition sample_owed :: "string \<Rightarrow> int option \<Rightarrow> rat \<Rightarrow> locked_bill" where
  "sample_owed i due pending = \<lparr> lk_ablId = i, lk_ablAccYear = ''2026-2027'', lk_ablPartyId = ''p1'', lk_ablBillType = SALES,
     lk_ablDocRefno = i, lk_ablDocDate = 0, lk_ablDueDate = due, lk_ablBillAmount = pending, lk_ablPendingAmount = pending,
     lk_ablDrCr = DR, lk_ablIsDeleted = False, lk_ablCompanyId = ''co'', lk_ablBranchId = ''br'' \<rparr>"

definition sample_db :: cheque_db where
  "sample_db = (let late = sample_owed ''b2'' None 80; early = sample_owed ''b1'' (Some 1772236800000) 60
     in \<lparr> db_rank = (\<lambda>_. 0), db_before = [(late, ''OPEN''), (early, ''OPEN'')], db_bills = [early, late], db_ids = show_nat \<rparr>)"

lemma sample_scope_fields [simp]: "cs_cheque sample_scope = sample_cheque" "chq_apdAmount sample_cheque = 100"
  by (simp_all add: sample_scope_def sample_cheque_def)

lemma sample_db_fields: "db_rank sample_db = (\<lambda>_. 0)" "db_ids sample_db = show_nat"
  "db_before sample_db = [(sample_owed ''b2'' None 80, ''OPEN''), (sample_owed ''b1'' (Some 1772236800000) 60, ''OPEN'')]"
  "db_bills sample_db = [sample_owed ''b1'' (Some 1772236800000) 60, sample_owed ''b2'' None 80]"
  by (simp_all add: sample_db_def Let_def)

lemma sample_candidates: "fifo_candidates (\<lambda>_. 0) sample_scope (db_before sample_db) = [(''b1'', ''2026-2027''), (''b2'', ''2026-2027'')]"
  by (simp add: fifo_candidates_def sample_db_fields open_receivable_def sample_owed_def sample_scope_def query_order_def due_key_def RECEIVABLE_BILL_TYPES_def)

lemma sample_open: "fifo_open sample_db sample_scope = [sample_owed ''b1'' (Some 1772236800000) 60, sample_owed ''b2'' None 80]"
  by (simp add: fifo_open_def sample_db_fields(1) sample_candidates lockBills_def sample_db_fields(4) Let_def locked_key_def key_of_def sample_owed_def)

lemma sample_pending: "map lk_ablPendingAmount (fifo_open sample_db sample_scope) = [60, 80]"
  by (simp add: sample_open sample_owed_def)

lemma sample_greedy: "greedy 100 [60, 80] = [60, 40]"
  by (simp add: greedy_Cons)

lemma sample_db_ok: "0 \<le> chq_apdAmount (cs_cheque sample_scope)" "money decimal20 (chq_apdAmount (cs_cheque sample_scope)) = 100"
  "money decimal20 (chq_apdAmount (cs_cheque sample_scope)) \<le> split_limit"
  "kept_identity sample_db" "distinct (map (\<lambda>(b, _). locked_key b) (db_before sample_db))" "\<forall>b\<in>set (db_bills sample_db). paise (lk_ablPendingAmount b)"
  by (simp_all add: decimal_package.money_half_up [OF decimal20_package] split_limit_def sample_db_fields kept_identity_def locked_key_def key_of_def sample_owed_def)

section \<open>Properties\<close>

text \<open>
  C15: when nobody decided, the cheque always lands, first in, first out. For a cheque up to the split limit, bills of
  the table that are told apart by their key and pending amounts in paise, the allocation is never refused: the bills of
  the query that are still open under lock get, in its order, the closed form of the greedy filling, the rows written on
  each bill add up to what it is said to have got, what the bills cannot take is held on account, and exactly then an
  advance is raised for it. The bills come in the order of their due dates as the query read them, a bill without one
  last, then of their document dates and references.
\<close>

theorem allocateChequeMoney_fifo:
  assumes "decimal_package J" and "0 \<le> chq_apdAmount (cs_cheque scope)" and "money J (chq_apdAmount (cs_cheque scope)) \<le> split_limit"
    and "distinct (map (\<lambda>(b, _). locked_key b) (db_before db))"
    and "\<forall>b\<in>set (db_bills db). paise (lk_ablPendingAmount b)"
  shows "\<exists>out rows advance. allocateChequeMoney J db scope AUTO_FIFO = Some (Inr (out, rows, advance)) \<and>
    map cb_settledByThisCheque (co_refs out) =
      greedy (money J (chq_apdAmount (cs_cheque scope))) (map lk_ablPendingAmount (fifo_open db scope)) \<and>
    co_bills out = take (length (co_refs out)) (map (\<lambda>b. (lk_ablId b, lk_ablAccYear b)) (fifo_open db scope)) \<and>
    (\<forall>ref\<in>set (co_refs out). cb_settledByThisCheque ref =
      sum_list (map abj_amount (filter (\<lambda>row. abj_billId row = cb_billId ref \<and> abj_billAccYear row = cb_billAccYear ref) rows))) \<and>
    co_onAccount out = max 0 (money J (chq_apdAmount (cs_cheque scope)) - sum_list (map lk_ablPendingAmount (fifo_open db scope))) \<and>
    map_option av_billAmount advance = (if co_onAccount out = 0 then None else Some (co_onAccount out)) \<and>
    (\<exists>rows. sorted (map (due_key (db_rank db)) rows) \<and> set rows \<subseteq> fst ` set (filter (open_receivable scope) (db_before db)) \<and>
      map (\<lambda>(i, y). key_of i y) (co_bills out) = map locked_key rows)"
  by (rule decimal_package.fifo_lands [OF assms])

theorem allocateChequeMoney_fifo_witness:
  "\<exists>out rows advance. allocateChequeMoney decimal20 sample_db sample_scope AUTO_FIFO = Some (Inr (out, rows, advance)) \<and>
    map cb_settledByThisCheque (co_refs out) = [60, 40] \<and> co_onAccount out = 0 \<and> advance = None"
  using allocateChequeMoney_fifo [OF decimal20_package sample_db_ok(1,3,5,6)]
  unfolding sample_db_ok(2) sample_pending sample_greedy by fastforce

text \<open>
  C13: whichever way the bills of a cheque are chosen, an allocation that is written settles each of them by exactly its
  amount, discount, write-off and round-off, within what was pending, and each is a live bill of the table, of the party,
  the company, the receivable side and types; for the bills the code chooses itself this is read in the query, so it
  takes that a bill keeps these between the query and the lock. Every row names the cheque and the voucher; the rows and
  the on account together come to the cheque and the reductions, and so does the party credit; the advance raised is the
  on account.
\<close>

theorem allocateChequeMoney_settles:
  assumes "decimal_package J" and "allocateChequeMoney J db scope request = Some (Inr (out, rows, advance))"
    and "cheque_bills J db scope request = Inr bills"
    and "alloc_pre J (cheque_input J scope (money J (chq_apdAmount (cs_cheque scope))) bills (sum_money J (map ab_amount bills)))"
    and "request = AUTO_FIFO \<longrightarrow> kept_identity db"
  shows "(\<forall>b\<in>set bills. settled_by rows b = money J (ab_amount b) + reduction J b \<and> bill_settled J b \<le> money J (ab_pendingAmount b) \<and>
      (\<exists>l. live_bill db b l \<and> owed_by scope l)) \<and>
    (\<forall>row\<in>set rows. cheque_row scope bills row) \<and>
    sum_list (map abj_amount rows) + co_onAccount out = money J (chq_apdAmount (cs_cheque scope)) + sum_list (map (reduction J) bills) \<and>
    co_partyCredit out = sum_list (map abj_amount rows) + co_onAccount out \<and>
    map_option av_billAmount advance = (if co_onAccount out \<le> 0 then None else Some (co_onAccount out))"
  by (rule decimal_package.settles_in_full [OF assms])

theorem allocateChequeMoney_settles_witness:
  "\<exists>out rows advance. allocateChequeMoney decimal20 sample_db sample_scope AUTO_FIFO = Some (Inr (out, rows, advance)) \<and>
    sum_list (map abj_amount rows) + co_onAccount out = 100 \<and> co_partyCredit out = 100"
proof -
  let ?bills = "map2 fifo_bill (fifo_open sample_db sample_scope) (greedy 100 [60, 80])"
  note plan = decimal_package.fifo_plan [OF decimal20_package sample_db_ok(2) _ _ sample_db_ok(5,6) _ refl, of ?bills, unfolded sample_pending, simplified split_limit_def, simplified]
  obtain out rows advance where run: "allocateChequeMoney decimal20 sample_db sample_scope AUTO_FIFO = Some (Inr (out, rows, advance))"
    using decimal_package.fifo_lands [OF decimal20_package sample_db_ok(1,3,5,6)] by blast
  have "sum_list (map (reduction decimal20) ?bills) = 0"
    by (simp add: sample_open sample_greedy reduction_def fifo_bill_def decimal_package.money_half_up [OF decimal20_package])
  then show ?thesis using allocateChequeMoney_settles [OF decimal20_package run plan(1)] plan(3) run sample_db_ok(2,4) by simp
qed

end
