(* ===== verification/Cheque_Reversal.thy ===== *)
theory Cheque_Reversal
  imports Cheque_Allocation
begin

text \<open>
  \<open>accountsModule/cheques/cheque-reversal.helper.ts\<close>: what a bounce takes back. The tables are lists of rows; what the
  transaction writes is appended. \<open>rank\<close> is the order of the database on ids, \<open>ids\<close> the ids it gives to new rows.
\<close>

section \<open>The rows of a cheque\<close>

record reversal_scope =
  rs_voucherId :: string
  rs_accYear :: string
  rs_companyId :: string
  rs_branchId :: string
  rs_tenantId :: "string option"
  rs_userId :: string
  rs_sessionId :: "string option"
  rs_actor :: string
  rs_reason :: string

definition of_cheque :: "locked_cheque \<Rightarrow> abj_row \<Rightarrow> bool" where
  "of_cheque cheque row \<longleftrightarrow> abj_chequeId row = Some (chq_apdId cheque) \<and> abj_chequeAccYear row = Some (chq_apdAccYear cheque) \<and>
     \<not> abj_isDeleted row"

definition cheque_rows_of :: "(string \<Rightarrow> nat) \<Rightarrow> abj_row list \<Rightarrow> locked_cheque \<Rightarrow> abj_row list" where
  "cheque_rows_of rank tab cheque = sort_key (\<lambda>row. (rank (abj_voucherId row), abj_rowNo row)) (filter (of_cheque cheque) tab)"

text \<open>\<open>loadChequeAdjustments\<close>: the rows still standing, and the reversals.\<close>

definition loadChequeAdjustments :: "(string \<Rightarrow> nat) \<Rightarrow> abj_row list \<Rightarrow> locked_cheque \<Rightarrow> abj_row list \<times> abj_row list" where
  "loadChequeAdjustments rank tab cheque =
     (let rows = cheque_rows_of rank tab cheque;
          reversals = filter (\<lambda>row. abj_reversalOfId row \<noteq> None) rows;
          alreadyReversed = map (\<lambda>row. the (abj_reversalOfId row)) reversals
      in (filter (\<lambda>row. abj_reversalOfId row = None \<and> abj_id row \<notin> set alreadyReversed) rows, reversals))"

section \<open>Writing reversals\<close>

definition reversal_row :: "reversal_scope \<Rightarrow> string \<Rightarrow> nat \<Rightarrow> abj_row \<Rightarrow> abj_row" where
  "reversal_row scope i rowNo row =
     \<lparr> abj_id = i, abj_companyId = rs_companyId scope, abj_branchId = rs_branchId scope, abj_tenantId = rs_tenantId scope,
       abj_accYear = rs_accYear scope, abj_billId = abj_billId row, abj_billAccYear = abj_billAccYear row,
       abj_partyId = abj_partyId row, abj_rowNo = rowNo, abj_againstBillId = abj_againstBillId row,
       abj_againstBillAccYear = abj_againstBillAccYear row, abj_voucherId = rs_voucherId scope,
       abj_voucherAccYear = rs_accYear scope, abj_adjType = abj_adjType row, abj_adjDate = abj_adjDate row,
       abj_drCr = otherSide (abj_drCr row), abj_amount = - abj_amount row, abj_settlementMode = abj_settlementMode row,
       abj_settlementLedgerId = abj_settlementLedgerId row, abj_tenderId = abj_tenderId row,
       abj_tenderAccYear = abj_tenderAccYear row, abj_chequeId = abj_chequeId row, abj_chequeAccYear = abj_chequeAccYear row,
       abj_isPostDated = abj_isPostDated row, abj_approvedBy = abj_approvedBy row, abj_remarks = None,
       abj_userId = rs_userId scope, abj_sessionId = rs_sessionId scope, abj_createdBy = rs_actor scope,
       abj_reversalOfId = Some (abj_id row), abj_reversalReason = Some (take 250 (rs_reason scope)), abj_isDeleted = False \<rparr>"

definition writeReversals :: "(nat \<Rightarrow> string) \<Rightarrow> abj_row list \<Rightarrow> reversal_scope \<Rightarrow> nat \<Rightarrow> abj_row list \<times> nat" where
  "writeReversals ids originals scope startRowNo =
     (if originals = [] then ([], startRowNo)
      else (map (\<lambda>(n, row). reversal_row scope (ids n) n row) (enumerate startRowNo originals), startRowNo + length originals))"

record reversed_rows =
  rv_bills :: "(string \<times> string) list"
  rv_count :: nat
  rv_amountByBill :: "(string \<times> rat) list"
  rv_nextRowNo :: nat

definition abj_key :: "abj_row \<Rightarrow> string" where
  "abj_key row = key_of (abj_billId row) (abj_billAccYear row)"

definition amount_by_bill :: "decimal_js \<Rightarrow> abj_row list \<Rightarrow> (string \<times> rat) list" where
  "amount_by_bill J rows = foldl (\<lambda>m row. jmap_set (abj_key row) (d_plus J (or_else (jmap_get m (abj_key row)) 0) (abj_amount row)) m) [] rows"

definition reverseChequeAdjustments :: "decimal_js \<Rightarrow> (string \<Rightarrow> nat) \<Rightarrow> (nat \<Rightarrow> string) \<Rightarrow> abj_row list \<Rightarrow> locked_cheque \<Rightarrow> reversal_scope \<Rightarrow> nat \<Rightarrow>
    abj_row list \<times> reversed_rows" where
  "reverseChequeAdjustments J rank ids tab cheque scope startRowNo =
     (let standing = fst (loadChequeAdjustments rank tab cheque);
          (written, nextRowNo) = writeReversals ids standing scope startRowNo
      in (written, \<lparr> rv_bills = map (\<lambda>row. (abj_billId row, abj_billAccYear row)) standing, rv_count = length standing,
        rv_amountByBill = amount_by_bill J standing, rv_nextRowNo = nextRowNo \<rparr>))"

section \<open>What a bounce took off the bills\<close>

definition SETTLEMENT_ADJ_TYPES :: "BillAdjType list" where
  "SETTLEMENT_ADJ_TYPES = [BillAdjType.ALLOCATION, BillAdjType.DISCOUNT, BillAdjType.WRITEOFF, BillAdjType.ROUND_OFF]"

definition bounce_rows :: "abj_row list \<Rightarrow> locked_cheque \<Rightarrow> string \<Rightarrow> string \<Rightarrow> abj_row list" where
  "bounce_rows tab cheque voucherId accYear = sort_key abj_rowNo (filter (\<lambda>row. of_cheque cheque row \<and> abj_reversalOfId row \<noteq> None \<and>
     abj_voucherId row = voucherId \<and> abj_voucherAccYear row = accYear \<and> abj_adjType row \<in> set SETTLEMENT_ADJ_TYPES) tab)"

definition fresh_restored :: "abj_row \<Rightarrow> restored_row" where
  "fresh_restored row = \<lparr> rr_billId = abj_billId row, rr_billAccYear = abj_billAccYear row, rr_amount = 0, rr_discount = 0,
     rr_writeoff = 0, rr_roundoff = 0, rr_writeoffApprovedBy = None \<rparr>"

definition give_back :: "decimal_js \<Rightarrow> abj_row \<Rightarrow> restored_row \<Rightarrow> restored_row" where
  "give_back J row entry = (let amount = - abj_amount row in case abj_adjType row of
     BillAdjType.ALLOCATION \<Rightarrow> entry\<lparr>rr_amount := d_plus J (rr_amount entry) amount\<rparr>
   | BillAdjType.DISCOUNT \<Rightarrow> entry\<lparr>rr_discount := d_plus J (rr_discount entry) amount\<rparr>
   | BillAdjType.WRITEOFF \<Rightarrow> entry\<lparr>rr_writeoff := d_plus J (rr_writeoff entry) amount,
       rr_writeoffApprovedBy := or_maybe (abj_approvedBy row) (rr_writeoffApprovedBy entry)\<rparr>
   | BillAdjType.ROUND_OFF \<Rightarrow> entry\<lparr>rr_roundoff := d_plus J (rr_roundoff entry) amount\<rparr>
   | _ \<Rightarrow> entry)"

definition restore_step :: "decimal_js \<Rightarrow> (string \<times> restored_row) list \<Rightarrow> abj_row \<Rightarrow> (string \<times> restored_row) list" where
  "restore_step J byBill row = jmap_set (abj_key row) (give_back J row (or_else (jmap_get byBill (abj_key row)) (fresh_restored row))) byBill"

definition allocationsReversedBy :: "decimal_js \<Rightarrow> abj_row list \<Rightarrow> locked_cheque \<Rightarrow> string \<Rightarrow> string \<Rightarrow> restored_row list" where
  "allocationsReversedBy J tab cheque voucherId accYear = map snd (foldl (restore_step J) [] (bounce_rows tab cheque voucherId accYear))"

section \<open>The advances of the cheque's voucher\<close>

text \<open>Of a bill balance, a tender row and a register row, the columns the cascade reads or writes.\<close>

record balance_row =
  bb_ablId :: string
  bb_ablAccYear :: string
  bb_ablVoucherId :: string
  bb_ablBillType :: BillType
  bb_ablDocRefno :: string
  bb_ablIsDeleted :: bool
  bb_ablIsActive :: bool
  bb_ablModifiedOn :: int
  bb_ablModifiedBy :: string

record tender_row =
  tdr_tdId :: string
  tdr_tdSrcDocId :: string
  tdr_tdIsDeleted :: bool

record register_row =
  pr_apdId :: string
  pr_apdVoucherId :: "string option"
  pr_apdVoucherAccYear :: "string option"
  pr_apdIsDeleted :: bool

record cascade_db =
  cd_balances :: "balance_row list"
  cd_adjustments :: "abj_row list"
  cd_tenders :: "tender_row list"
  cd_register :: "register_row list"

record cascade_report =
  cr_advanceBillsRemoved :: "(string \<times> string \<times> string) list"
  cr_advanceApplicationsReversed :: nat
  cr_advancesLeftMixed :: "(string \<times> string \<times> string) list"

definition isSoleMoneySource :: "cascade_db \<Rightarrow> locked_cheque \<Rightarrow> bool" where
  "isSoleMoneySource db cheque =
     (if list_ex (\<lambda>t. Some (tdr_tdId t) \<noteq> chq_apdTenderId cheque)
        (filter (\<lambda>t. Some (tdr_tdSrcDocId t) = chq_apdVoucherId cheque \<and> \<not> tdr_tdIsDeleted t) (cd_tenders db)) then False
      else length (filter (\<lambda>r. pr_apdVoucherId r = chq_apdVoucherId cheque \<and> pr_apdVoucherAccYear r = chq_apdVoucherAccYear cheque \<and>
        \<not> pr_apdIsDeleted r \<and> pr_apdId r \<noteq> chq_apdId cheque) (cd_register db)) = 0)"

definition applications_of :: "(string \<Rightarrow> nat) \<Rightarrow> abj_row list \<Rightarrow> balance_row \<Rightarrow> abj_row list" where
  "applications_of rank tab advance = sort_key (\<lambda>row. (rank (abj_voucherId row), abj_rowNo row))
     (filter (\<lambda>row. \<not> abj_isDeleted row \<and> abj_reversalOfId row = None \<and>
        abj_adjType row \<in> {BillAdjType.ADVANCE_ADJUST, BillAdjType.NOTE_ADJUST} \<and>
        (abj_billId row = bb_ablId advance \<and> abj_billAccYear row = bb_ablAccYear advance \<or>
         abj_againstBillId row = Some (bb_ablId advance) \<and> abj_againstBillAccYear row = Some (bb_ablAccYear advance))) tab)"

definition soft_delete :: "int \<Rightarrow> string \<Rightarrow> balance_row \<Rightarrow> balance_row list \<Rightarrow> balance_row list" where
  "soft_delete now actor advance = map (\<lambda>b. if bb_ablId b = bb_ablId advance \<and> bb_ablAccYear b = bb_ablAccYear advance
     then b\<lparr>bb_ablIsDeleted := True, bb_ablIsActive := False, bb_ablModifiedOn := now, bb_ablModifiedBy := actor\<rparr> else b)"

type_synonym cascade_state = "cascade_db \<times> cascade_report \<times> (string \<times> string) list \<times> nat"

definition cascade_step :: "(string \<Rightarrow> nat) \<Rightarrow> (nat \<Rightarrow> string) \<Rightarrow> int \<Rightarrow> reversal_scope \<Rightarrow> bool \<Rightarrow> cascade_state \<Rightarrow> balance_row \<Rightarrow> cascade_state" where
  "cascade_step rank ids now scope soleSource st advance = (case st of (db, report, bills, rowNo) \<Rightarrow>
     let ref = (bb_ablId advance, bb_ablAccYear advance, bb_ablDocRefno advance) in
     if \<not> soleSource then (db, report\<lparr>cr_advancesLeftMixed := cr_advancesLeftMixed report @ [ref]\<rparr>, bills, rowNo)
     else let applications = applications_of rank (cd_adjustments db) advance;
              (written, rowNo') = writeReversals ids applications scope rowNo
       in (db\<lparr>cd_adjustments := cd_adjustments db @ written, cd_balances := soft_delete now (rs_actor scope) advance (cd_balances db)\<rparr>,
           report\<lparr>cr_advanceApplicationsReversed := cr_advanceApplicationsReversed report + length applications,
             cr_advanceBillsRemoved := cr_advanceBillsRemoved report @ [ref]\<rparr>,
           bills @ map (\<lambda>row. (abj_billId row, abj_billAccYear row)) applications, rowNo'))"

definition cascadeAdvances :: "(string \<Rightarrow> nat) \<Rightarrow> (nat \<Rightarrow> string) \<Rightarrow> int \<Rightarrow> cascade_db \<Rightarrow> locked_cheque \<Rightarrow> reversal_scope \<Rightarrow> nat \<Rightarrow> cascade_state" where
  "cascadeAdvances rank ids now db cheque scope startRowNo =
     (let report = \<lparr> cr_advanceBillsRemoved = [], cr_advanceApplicationsReversed = 0, cr_advancesLeftMixed = [] \<rparr>;
          advances = filter (\<lambda>b. Some (bb_ablVoucherId b) = chq_apdVoucherId cheque \<and> Some (bb_ablAccYear b) = chq_apdVoucherAccYear cheque \<and>
            bb_ablBillType b = BillType.ADVANCE \<and> \<not> bb_ablIsDeleted b) (cd_balances db)
      in if \<not> truthy (chq_apdVoucherId cheque) \<or> \<not> truthy (chq_apdVoucherAccYear cheque) then (db, report, [], startRowNo)
         else if advances = [] then (db, report, [], startRowNo)
         else foldl (cascade_step rank ids now scope (isSoleMoneySource db cheque)) (db, report, [], startRowNo) advances)"

end
