(* ===== verification/Cheque_Bounce.thy ===== *)
theory Cheque_Bounce
  imports Cheque_Properties Cheque_Reversal
begin

text \<open>
  The properties of a bounce: every row of the cheque is answered once, and a re-presentation finds what the bounce
  took off the bills.
\<close>

section \<open>Rows and their reversals\<close>

definition mirrors :: "abj_row \<Rightarrow> abj_row \<Rightarrow> bool" where
  "mirrors r q \<longleftrightarrow> abj_reversalOfId r = Some (abj_id q) \<and> abj_reversalOfId q = None \<and> \<not> abj_isDeleted q \<and>
     abj_billId r = abj_billId q \<and> abj_billAccYear r = abj_billAccYear q \<and> abj_adjType r = abj_adjType q \<and>
     abj_chequeId r = abj_chequeId q \<and> abj_chequeAccYear r = abj_chequeAccYear q \<and> abj_amount r = - abj_amount q \<and>
     abj_drCr r = otherSide (abj_drCr q) \<and> abj_adjDate r = abj_adjDate q \<and> abj_isPostDated r = abj_isPostDated q"

definition reversal :: "abj_row \<Rightarrow> bool" where
  "reversal r \<longleftrightarrow> \<not> abj_isDeleted r \<and> abj_reversalOfId r \<noteq> None"

text \<open>Rows have ids of their own, and a live row is reversed at most once, by its mirror.\<close>

definition paired :: "abj_row list \<Rightarrow> bool" where
  "paired tab \<longleftrightarrow> distinct (map abj_id tab) \<and> distinct (map abj_reversalOfId (filter reversal tab)) \<and>
     (\<forall>r\<in>set tab. reversal r \<longrightarrow> (\<exists>q\<in>set tab. mirrors r q))"

text \<open>What the live rows of a cheque come to on a bill.\<close>

definition cheque_net :: "abj_row list \<Rightarrow> locked_cheque \<Rightarrow> string \<Rightarrow> string \<Rightarrow> rat" where
  "cheque_net tab cheque billId accYear =
     sum_list (map abj_amount (filter (\<lambda>r. of_cheque cheque r \<and> abj_billId r = billId \<and> abj_billAccYear r = accYear) tab))"

definition standing :: "abj_row list \<Rightarrow> locked_cheque \<Rightarrow> abj_row set" where
  "standing tab cheque = {q \<in> set tab. of_cheque cheque q \<and> abj_reversalOfId q = None \<and>
     (\<forall>r\<in>set tab. of_cheque cheque r \<longrightarrow> abj_reversalOfId r \<noteq> Some (abj_id q))}"

lemma standing_loaded: "set (fst (loadChequeAdjustments rank tab cheque)) = standing tab cheque"
  by (auto simp: loadChequeAdjustments_def cheque_rows_of_def standing_def Let_def) force

lemma unique_row: "distinct (map abj_id tab) \<Longrightarrow> x \<in> set tab \<Longrightarrow> y \<in> set tab \<Longrightarrow> abj_id x = abj_id y \<Longrightarrow> x = y"
  by (metis (no_types, lifting) distinct_map inj_onD)

lemma unique_reversal:
  assumes "paired tab" and "x \<in> set tab" and "y \<in> set tab" and "reversal x" and "reversal y" and "abj_reversalOfId x = abj_reversalOfId y"
  shows "x = y"
  using assms by (auto simp: paired_def distinct_map dest: inj_onD)

lemma net_zero:
  assumes pairs: "paired tab" and none: "standing tab cheque = {}"
  shows "cheque_net tab cheque billId accYear = 0"
proof -
  let ?P = "\<lambda>r. of_cheque cheque r \<and> abj_billId r = billId \<and> abj_billAccYear r = accYear"
  let ?Q = "{r \<in> set tab. ?P r \<and> abj_reversalOfId r = None}" and ?R = "{r \<in> set tab. ?P r \<and> abj_reversalOfId r \<noteq> None}"
  define g where "g r = (SOME q. q \<in> set tab \<and> mirrors r q)" for r
  have rev: "reversal r" if "r \<in> ?R" for r using that by (auto simp: reversal_def of_cheque_def)
  have g: "g r \<in> set tab \<and> mirrors r (g r)" if "r \<in> ?R" for r
  proof -
    have "\<exists>q. q \<in> set tab \<and> mirrors r q" using pairs rev [OF that] that unfolding paired_def by blast
    then show ?thesis unfolding g_def by (rule someI_ex)
  qed
  have dist: "distinct tab" "distinct (map abj_id tab)" using pairs by (auto simp: paired_def distinct_map)
  have bij: "bij_betw g ?R ?Q"
  proof (rule bij_betw_imageI)
    show "inj_on g ?R"
    proof (rule inj_onI)
      fix x y assume xy: "x \<in> ?R" "y \<in> ?R" "g x = g y"
      have "mirrors x (g x)" "mirrors y (g x)" using g [OF xy(1)] g [OF xy(2)] xy(3) by simp_all
      then have "abj_reversalOfId x = abj_reversalOfId y" by (simp add: mirrors_def)
      moreover have "x \<in> set tab" "y \<in> set tab" using xy by simp_all
      ultimately show "x = y" using rev [OF xy(1)] rev [OF xy(2)] by (intro unique_reversal [OF pairs])
    qed
    show "g ` ?R = ?Q"
    proof (intro set_eqI iffI)
      fix q assume "q \<in> g ` ?R"
      then obtain r where r: "r \<in> ?R" "q = g r" by blast
      then have "q \<in> set tab" "mirrors r q" using g by simp_all
      then show "q \<in> ?Q" using r(1) by (simp add: mirrors_def of_cheque_def)
    next
      fix q assume q: "q \<in> ?Q"
      then obtain r where r: "r \<in> set tab" "of_cheque cheque r" "abj_reversalOfId r = Some (abj_id q)"
        using none by (auto simp: standing_def)
      then have "reversal r" by (auto simp: reversal_def of_cheque_def)
      then obtain q' where q': "q' \<in> set tab" "mirrors r q'" using pairs r(1) unfolding paired_def by blast
      have same: "x = q" if "x \<in> set tab" "mirrors r x" for x
        using that q r(3) by (intro unique_row [OF dist(2)]) (simp_all add: mirrors_def)
      then have R: "r \<in> ?R" using q q' r by (simp add: mirrors_def)
      then have "g r = q" using g same by simp
      then show "q \<in> g ` ?R" using R by blast
    qed
  qed
  have "cheque_net tab cheque billId accYear = sum abj_amount {r \<in> set tab. ?P r}"
    unfolding cheque_net_def using dist(1) by (simp add: sum_list_distinct_conv_sum_set)
  also have "{r \<in> set tab. ?P r} = ?Q \<union> ?R" by auto
  also have "sum abj_amount (?Q \<union> ?R) = sum abj_amount ?Q + sum abj_amount ?R" by (rule sum.union_disjoint) auto
  also have "sum abj_amount ?Q = sum (\<lambda>r. abj_amount (g r)) ?R" by (rule sum.reindex_bij_betw [OF bij, symmetric])
  also have "\<dots> = sum (\<lambda>r. - abj_amount r) ?R" using g by (intro sum.cong refl) (auto simp: mirrors_def)
  finally show ?thesis by (simp add: sum_negf)
qed

section \<open>Taking the rows back\<close>

definition fresh_ids :: "(nat \<Rightarrow> string) \<Rightarrow> abj_row list \<Rightarrow> bool" where
  "fresh_ids ids tab \<longleftrightarrow> inj ids \<and> (\<forall>n. \<forall>r\<in>set tab. abj_id r \<noteq> ids n)"

lemma reversal_fields [simp, row_simps]:
  "abj_id (reversal_row scope i n q) = i" "abj_reversalOfId (reversal_row scope i n q) = Some (abj_id q)"
  "abj_isDeleted (reversal_row scope i n q) = False" "abj_billId (reversal_row scope i n q) = abj_billId q"
  "abj_billAccYear (reversal_row scope i n q) = abj_billAccYear q" "abj_amount (reversal_row scope i n q) = - abj_amount q"
  "abj_adjType (reversal_row scope i n q) = abj_adjType q" "abj_chequeId (reversal_row scope i n q) = abj_chequeId q"
  "abj_chequeAccYear (reversal_row scope i n q) = abj_chequeAccYear q" "abj_rowNo (reversal_row scope i n q) = n"
  "abj_voucherId (reversal_row scope i n q) = rs_voucherId scope" "abj_voucherAccYear (reversal_row scope i n q) = rs_accYear scope"
  "abj_approvedBy (reversal_row scope i n q) = abj_approvedBy q"
  by (simp_all add: reversal_row_def)

lemma reversal_mirrors: "abj_reversalOfId q = None \<Longrightarrow> \<not> abj_isDeleted q \<Longrightarrow> mirrors (reversal_row scope i n q) q"
  by (simp add: mirrors_def reversal_row_def)

lemma reversals_written: "fst (writeReversals ids st scope start) = map (\<lambda>(n, q). reversal_row scope (ids n) n q) (enumerate start st)"
  by (simp add: writeReversals_def)

lemma reversed_columns:
  "map abj_reversalOfId (map (\<lambda>(n, q). reversal_row scope (ids n) n q) (enumerate start st)) = map (Some \<circ> abj_id) st"
  "map abj_id (map (\<lambda>(n, q). reversal_row scope (ids n) n q) (enumerate start st)) = map ids [start..<start + length st]"
  "filter reversal (map (\<lambda>(n, q). reversal_row scope (ids n) n q) (enumerate start st)) =
     map (\<lambda>(n, q). reversal_row scope (ids n) n q) (enumerate start st)"
  by (induction st arbitrary: start) (simp_all add: reversal_def upt_conv_Cons del: upt_Suc)

lemma reversed_member:
  "w \<in> set (map (\<lambda>(n, q). reversal_row scope (ids n) n q) (enumerate start st)) \<Longrightarrow> \<exists>n q. q \<in> set st \<and> w = reversal_row scope (ids n) n q"
  by (auto simp: enumerate_eq_zip dest: set_zip_rightD)

lemma loaded_distinct:
  assumes "paired tab"
  shows "distinct (map abj_id (fst (loadChequeAdjustments rank tab cheque)))"
proof -
  have "distinct tab" "inj_on abj_id (set tab)" using assms by (auto simp: paired_def distinct_map)
  moreover have "set (fst (loadChequeAdjustments rank tab cheque)) \<subseteq> set tab" by (auto simp: standing_loaded standing_def)
  ultimately show ?thesis by (auto simp: distinct_map loadChequeAdjustments_def cheque_rows_of_def Let_def intro: inj_on_subset)
qed

lemma standing_unreversed:
  assumes pairs: "paired tab" and q: "q \<in> standing tab cheque" and r: "r \<in> set tab" "reversal r"
  shows "abj_reversalOfId r \<noteq> Some (abj_id q)"
proof
  assume eq: "abj_reversalOfId r = Some (abj_id q)"
  from pairs r obtain q' where q': "q' \<in> set tab" "mirrors r q'" unfolding paired_def by blast
  have "q' = q" using pairs q' q eq by (intro unique_row [of tab]) (auto simp: paired_def standing_def mirrors_def)
  then have "of_cheque cheque r" using q q' r(2) by (simp add: standing_def of_cheque_def mirrors_def reversal_def)
  then show False using q r(1) eq by (simp add: standing_def)
qed

lemma reversed_pairs:
  assumes pairs: "paired tab" and fresh: "fresh_ids ids tab" and st: "st = fst (loadChequeAdjustments rank tab cheque)"
    and w: "w = map (\<lambda>(n, q). reversal_row scope (ids n) n q) (enumerate start st)"
  shows "paired (tab @ w)" and "standing (tab @ w) cheque = {}"
proof -
  have stand: "set st = standing tab cheque" by (simp add: st standing_loaded)
  have q: "q \<in> set tab \<and> abj_reversalOfId q = None \<and> \<not> abj_isDeleted q" if "q \<in> set st" for q
    using that by (simp add: stand standing_def of_cheque_def)
  have mir: "\<exists>q\<in>set (tab @ w). mirrors r q" if "r \<in> set w" for r
  proof -
    from reversed_member [OF that [unfolded w]] obtain n q' where "q' \<in> set st" "r = reversal_row scope (ids n) n q'" by blast
    then show ?thesis using q [of q'] reversal_mirrors by (intro bexI [of _ q']) auto
  qed
  have ids: "map abj_id w = map ids [start..<start + length st]" unfolding w by (rule reversed_columns(2))
  have "distinct (map abj_id (tab @ w))"
    using pairs fresh unfolding map_append ids distinct_append
    by (auto simp: paired_def fresh_ids_def distinct_map intro: inj_on_subset)
  moreover have "distinct (map abj_reversalOfId (filter reversal (tab @ w)))"
  proof -
    have revs: "map abj_reversalOfId (filter reversal w) = map (Some \<circ> abj_id) st"
      unfolding w reversed_columns(3) by (rule reversed_columns(1))
    have "distinct (map (Some \<circ> abj_id) st)" using loaded_distinct [OF pairs, of rank cheque] st by (simp add: distinct_map inj_on_def)
    moreover have "set (map abj_reversalOfId (filter reversal tab)) \<inter> set (map (Some \<circ> abj_id) st) = {}"
      using standing_unreversed [OF pairs] by (auto simp: stand)
    ultimately show ?thesis using pairs by (simp add: revs paired_def del: comp_apply)
  qed
  ultimately show "paired (tab @ w)" using pairs mir unfolding paired_def by (auto 4 3)
  show "standing (tab @ w) cheque = {}"
  proof (rule ccontr)
    assume "standing (tab @ w) cheque \<noteq> {}"
    then obtain q' where q': "q' \<in> standing (tab @ w) cheque" by blast
    have "q' \<notin> set w" using q' reversed_member unfolding w by (fastforce simp: standing_def)
    then have "q' \<in> set st" using q' by (auto simp: stand standing_def)
    then have "Some (abj_id q') \<in> set (map abj_reversalOfId w)" unfolding w reversed_columns(1) by auto
    then obtain r where r: "r \<in> set w" "abj_reversalOfId r = Some (abj_id q')" by auto
    from reversed_member [OF r(1) [unfolded w]] obtain n q'' where q'': "q'' \<in> set st" "r = reversal_row scope (ids n) n q''" by blast
    then have "of_cheque cheque r" by (auto simp: stand standing_def of_cheque_def)
    then show False using q' r by (auto simp: standing_def)
  qed
qed

text \<open>
  C14: a bounce takes back exactly what the cheque settled, once. Where every live reversal so far is the one mirror of its
  row, the rows a bounce writes are mirrors of the rows that stand, one each and numbered on from the start, so that
  the live rows of the cheque come to zero on every bill; the pairing holds again, and a second bounce writes nothing.
\<close>

theorem reverseChequeAdjustments_nets:
  assumes "paired tab" and "fresh_ids ids tab" and "reverseChequeAdjustments J rank ids tab cheque scope start = (written, rv)"
  shows "paired (tab @ written) \<and>
    (\<forall>billId accYear. cheque_net (tab @ written) cheque billId accYear = 0 \<and>
      cheque_net written cheque billId accYear = - cheque_net tab cheque billId accYear) \<and>
    (\<forall>w\<in>set written. \<exists>q\<in>standing tab cheque. mirrors w q) \<and> length written = card (standing tab cheque) \<and>
    rv_nextRowNo rv = start + length written \<and> map abj_rowNo written = [start..<rv_nextRowNo rv] \<and>
    fst (reverseChequeAdjustments J rank ids' (tab @ written) cheque scope' start') = []"
proof -
  let ?st = "fst (loadChequeAdjustments rank tab cheque)"
  have w: "written = map (\<lambda>(n, q). reversal_row scope (ids n) n q) (enumerate start ?st)"
    and nxt: "rv_nextRowNo rv = start + length written"
    using assms(3) by (auto simp: reverseChequeAdjustments_def writeReversals_def Let_def split: if_splits)
  note pairs = reversed_pairs [OF assms(1,2) refl w]
  have zero: "cheque_net (tab @ written) cheque billId accYear = 0" for billId accYear by (rule net_zero [OF pairs])
  moreover have "cheque_net written cheque billId accYear = - cheque_net tab cheque billId accYear" for billId accYear
    using zero [of billId accYear] by (simp add: cheque_net_def)
  moreover have "\<exists>q\<in>standing tab cheque. mirrors r q" if "r \<in> set written" for r
  proof -
    from reversed_member [OF that [unfolded w]] obtain n q where q: "q \<in> set ?st" "r = reversal_row scope (ids n) n q" by blast
    then have "q \<in> standing tab cheque" by (simp add: standing_loaded)
    then show ?thesis using q by (intro bexI [of _ q]) (simp_all add: reversal_mirrors standing_def of_cheque_def)
  qed
  moreover have "length written = card (standing tab cheque)"
    using loaded_distinct [OF assms(1), of rank cheque] by (simp add: w distinct_map distinct_card flip: standing_loaded [of rank])
  moreover have "map abj_rowNo written = [start..<rv_nextRowNo rv]"
  proof -
    have "map abj_rowNo (map (\<lambda>(n, q). reversal_row scope (ids n) n q) (enumerate start st)) = [start..<start + length st]" for st
      by (induction st arbitrary: start) (simp_all add: upt_conv_Cons del: upt_Suc)
    then show ?thesis unfolding nxt unfolding w by simp
  qed
  moreover have "fst (reverseChequeAdjustments J rank ids' (tab @ written) cheque scope' start') = []"
  proof -
    have "fst (loadChequeAdjustments rank (tab @ written) cheque) = []" using pairs(2) by (simp flip: set_empty add: standing_loaded)
    then show ?thesis by (simp add: reverseChequeAdjustments_def writeReversals_def Let_def)
  qed
  ultimately show ?thesis using pairs(1) nxt by blast
qed

definition sample_bounce :: reversal_scope where
  "sample_bounce = \<lparr> rs_voucherId = ''v2'', rs_accYear = ''2026-2027'', rs_companyId = ''co'', rs_branchId = ''br'', rs_tenantId = None,
     rs_userId = ''u'', rs_sessionId = None, rs_actor = ''u'', rs_reason = ''Cheque 000123 bounced: funds'' \<rparr>"

definition sample_settled :: abj_row where
  "sample_settled = adjustment_row sample_scope ''r1'' 0 \<lparr> adj_billId = ''b1'', adj_billAccYear = ''2026-2027'', adj_adjType = BillAdjType.ALLOCATION,
     adj_settlementMode = BillSettlementMode.CHEQUE, adj_drCr = CR, adj_amount = 60, adj_adjDate = 1772323200000, adj_isPostDated = False,
     adj_voucherKey = RECEIPT_VOUCHER_KEY, adj_tenderRowNo = Some 1, adj_otherLineNo = None, adj_againstBill = None, adj_approvedBy = None,
     adj_countsToAdjustAmount = True, adj_remarks = None \<rparr>"

lemma sample_settled_fields: "abj_id sample_settled = ''r1''" "abj_reversalOfId sample_settled = None" "abj_isDeleted sample_settled = False"
  "abj_amount sample_settled = 60" "abj_billId sample_settled = ''b1''" "abj_billAccYear sample_settled = ''2026-2027''"
  "of_cheque sample_cheque sample_settled"
  by (simp_all add: sample_settled_def of_cheque_def)

theorem reverseChequeAdjustments_nets_witness:
  "\<exists>written rv. reverseChequeAdjustments decimal20 (\<lambda>_. 0) show_nat [sample_settled] sample_cheque sample_bounce 1 = (written, rv) \<and>
    cheque_net written sample_cheque ''b1'' ''2026-2027'' = -60 \<and> cheque_net ([sample_settled] @ written) sample_cheque ''b1'' ''2026-2027'' = 0 \<and>
    length written = 1"
proof -
  obtain written rv where run: "reverseChequeAdjustments decimal20 (\<lambda>_. 0) show_nat [sample_settled] sample_cheque sample_bounce 1 = (written, rv)" by fastforce
  have "''r1'' \<noteq> show_nat n" for n
  proof
    assume eq: "''r1'' = show_nat n"
    have "CHR ''r'' \<in> set (show_nat n)" unfolding eq [symmetric] by simp
    then show False using show_nat_digits [of "CHR ''r''" n] by (simp add: is_digit_def)
  qed
  then have fresh: "fresh_ids show_nat [sample_settled]" by (auto simp: fresh_ids_def inj_on_def sample_settled_fields)
  have pairs: "paired [sample_settled]" by (simp add: paired_def reversal_def sample_settled_fields)
  have "standing [sample_settled] sample_cheque = {sample_settled}" by (auto simp: standing_def sample_settled_fields)
  moreover have "cheque_net [sample_settled] sample_cheque ''b1'' ''2026-2027'' = 60" by (simp add: cheque_net_def sample_settled_fields)
  ultimately show ?thesis using reverseChequeAdjustments_nets [OF pairs fresh run] run by auto
qed

end
