(* ===== verification/Cheque_Restore.thy ===== *)
theory Cheque_Restore
  imports Cheque_Bounce
begin

text \<open>
  A cheque that is presented again: what \<open>allocationsReversedBy\<close> reads back from a bounce is what the allocation wrote.
\<close>

section \<open>Reading the rows of a bounce\<close>

definition rr_part :: "BillAdjType \<Rightarrow> restored_row \<Rightarrow> rat" where
  "rr_part ty e = (case ty of BillAdjType.ALLOCATION \<Rightarrow> rr_amount e | BillAdjType.DISCOUNT \<Rightarrow> rr_discount e
     | BillAdjType.WRITEOFF \<Rightarrow> rr_writeoff e | BillAdjType.ROUND_OFF \<Rightarrow> rr_roundoff e | _ \<Rightarrow> 0)"

lemma give_back_part: "ty \<in> set SETTLEMENT_ADJ_TYPES \<Longrightarrow>
  rr_part ty (give_back J row e) = (if abj_adjType row = ty then d_plus J (rr_part ty e) (- abj_amount row) else rr_part ty e)"
  by (cases ty; cases "abj_adjType row") (simp_all add: rr_part_def give_back_def SETTLEMENT_ADJ_TYPES_def)

lemma give_back_bill [simp]: "rr_billId (give_back J row e) = rr_billId e" "rr_billAccYear (give_back J row e) = rr_billAccYear e"
  by (cases "abj_adjType row"; simp add: give_back_def)+

lemma fresh_part [simp]: "rr_part ty (fresh_restored row) = 0"
  by (cases ty) (simp_all add: rr_part_def fresh_restored_def)

lemma restored_part:
  "ty \<in> set SETTLEMENT_ADJ_TYPES \<Longrightarrow> jmap_get (foldl (restore_step J) m rows) k = Some e \<Longrightarrow>
   rr_part ty e = foldl (d_plus J) (case jmap_get m k of None \<Rightarrow> 0 | Some e0 \<Rightarrow> rr_part ty e0)
     (map (\<lambda>r. - abj_amount r) (filter (\<lambda>r. abj_key r = k \<and> abj_adjType r = ty) rows))"
proof (induction rows arbitrary: m)
  case (Cons row rows)
  note IH = Cons.IH [OF Cons.prems(1) Cons.prems(2) [unfolded foldl_Cons]]
  show ?case
    by (cases "abj_key row = k"; cases "jmap_get m k")
      (simp_all add: IH restore_step_def update_conv' give_back_part [OF Cons.prems(1)])
qed simp

lemma restored_keys:
  "set (map fst (foldl (restore_step J) m rows)) = set (map fst m) \<union> abj_key ` set rows"
proof (induction rows arbitrary: m)
  case (Cons row rows)
  have "set (map fst (restore_step J m row)) = insert (abj_key row) (set (map fst m))"
    by (simp add: restore_step_def dom_map_of_conv_image_fst [symmetric] update_conv')
  then show ?case using Cons.IH [of "restore_step J m row"] by auto
qed simp

lemma restored_distinct: "distinct (map fst m) \<Longrightarrow> distinct (map fst (foldl (restore_step J) m rows))"
  by (induction rows arbitrary: m) (simp_all add: restore_step_def)

lemma restored_bill:
  "jmap_get (foldl (restore_step J) m rows) k = Some e \<Longrightarrow>
   (\<exists>r\<in>set rows. abj_key r = k \<and> rr_billId e = abj_billId r \<and> rr_billAccYear e = abj_billAccYear r) \<or>
   (\<exists>e0. jmap_get m k = Some e0 \<and> rr_billId e = rr_billId e0 \<and> rr_billAccYear e = rr_billAccYear e0)"
proof (induction rows arbitrary: m)
  case (Cons row rows)
  from Cons.IH [OF Cons.prems [unfolded foldl_Cons]] show ?case
    by (cases "jmap_get m k") (auto simp: restore_step_def update_conv' fresh_restored_def split: if_splits)
qed simp

lemma restored_approver:
  "jmap_get (foldl (restore_step J) m rows) k = Some e \<Longrightarrow>
   \<forall>r\<in>set rows. abj_key r = k \<and> abj_adjType r = BillAdjType.WRITEOFF \<longrightarrow> abj_approvedBy r = Some a \<Longrightarrow>
   (case jmap_get m k of None \<Rightarrow> True | Some e0 \<Rightarrow> rr_writeoffApprovedBy e0 \<in> {None, Some a}) \<Longrightarrow>
   rr_writeoffApprovedBy e = (if (\<exists>r\<in>set rows. abj_key r = k \<and> abj_adjType r = BillAdjType.WRITEOFF) then Some a
     else case jmap_get m k of None \<Rightarrow> None | Some e0 \<Rightarrow> rr_writeoffApprovedBy e0)"
proof (induction rows arbitrary: m)
  case (Cons row rows)
  have step: "rr_writeoffApprovedBy (give_back J row x) =
      (if abj_adjType row = BillAdjType.WRITEOFF then or_maybe (abj_approvedBy row) (rr_writeoffApprovedBy x) else rr_writeoffApprovedBy x)" for x
    by (cases "abj_adjType row") (simp_all add: give_back_def)
  have fresh: "rr_writeoffApprovedBy (fresh_restored row) = None" by (simp add: fresh_restored_def)
  have get: "jmap_get (restore_step J m row) k = (if abj_key row = k then Some (give_back J row (or_else (jmap_get m k) (fresh_restored row))) else jmap_get m k)"
    by (auto simp: restore_step_def update_conv')
  show ?case
    using Cons.IH [OF Cons.prems(1) [unfolded foldl_Cons]] Cons.prems(2,3)
    by (cases "abj_key row = k"; cases "abj_adjType row = BillAdjType.WRITEOFF"; cases "jmap_get m k") (auto simp: get step fresh)
qed simp

section \<open>The rows of one bounce\<close>

lemma bounced_rowNos: "map abj_rowNo (map (\<lambda>(n, q). reversal_row scope (ids n) n q) (enumerate start st)) = [start..<start + length st]"
  by (induction st arbitrary: start) (simp_all add: upt_conv_Cons del: upt_Suc)

lemma bounce_found:
  assumes w: "w = map (\<lambda>(n, q). reversal_row scope (ids n) n q) (enumerate start st)"
    and st: "\<forall>q\<in>set st. of_cheque cheque q \<and> abj_adjType q \<in> set SETTLEMENT_ADJ_TYPES"
    and other: "\<forall>r\<in>set tab. abj_voucherId r \<noteq> rs_voucherId scope"
  shows "bounce_rows (tab @ w) cheque (rs_voucherId scope) (rs_accYear scope) = w"
proof -
  let ?P = "\<lambda>row. of_cheque cheque row \<and> abj_reversalOfId row \<noteq> None \<and> abj_voucherId row = rs_voucherId scope \<and>
    abj_voucherAccYear row = rs_accYear scope \<and> abj_adjType row \<in> set SETTLEMENT_ADJ_TYPES"
  have "?P row" if "row \<in> set w" for row
  proof -
    from reversed_member [OF that [unfolded w]] obtain n q where "q \<in> set st" "row = reversal_row scope (ids n) n q" by blast
    then show ?thesis using st by (simp add: of_cheque_def)
  qed
  then have "filter ?P w = w" by (simp add: filter_id_conv)
  moreover have "filter ?P tab = []" using other by (auto simp: filter_empty_conv)
  moreover have "sorted (map abj_rowNo w)" unfolding w bounced_rowNos by simp
  ultimately show ?thesis unfolding bounce_rows_def by (simp add: sort_key_id_if_sorted)
qed

lemma bounced_amounts:
  "map (\<lambda>r. - abj_amount r) (filter (\<lambda>r. P (abj_billId r) (abj_billAccYear r) (abj_adjType r))
     (map (\<lambda>(n, q). reversal_row scope (ids n) n q) (enumerate start st))) =
   map abj_amount (filter (\<lambda>r. P (abj_billId r) (abj_billAccYear r) (abj_adjType r)) st)"
  by (induction st arbitrary: start) simp_all

section \<open>The rows just written stand\<close>

lemma written_ids: "map abj_id (writeAdjustments scope ids plan) = map ids [0..<length (ar_adjustments plan)]"
proof -
  have "map abj_id (map (\<lambda>(i, a). adjustment_row scope (ids i) i a) (enumerate n xs)) = map ids [n..<n + length xs]" for n xs
    by (induction xs arbitrary: n) (simp_all add: upt_conv_Cons del: upt_Suc)
  then show ?thesis by (simp add: writeAdjustments_def)
qed

lemma written_stand:
  assumes pairs: "paired tab" and none: "standing tab (cs_cheque scope) = {}" and fresh: "fresh_ids ids tab"
  shows "paired (tab @ writeAdjustments scope ids plan)"
    and "standing (tab @ writeAdjustments scope ids plan) (cs_cheque scope) = set (writeAdjustments scope ids plan)"
proof -
  let ?w = "writeAdjustments scope ids plan"
  have w: "abj_reversalOfId r = None \<and> \<not> abj_isDeleted r \<and> of_cheque (cs_cheque scope) r" if "r \<in> set ?w" for r
    using written_member [OF that] by (auto simp: of_cheque_def)
  have new: "abj_id q \<noteq> abj_id r" if "q \<in> set tab" "r \<in> set ?w" for q r
  proof -
    have "abj_id r \<in> set (map ids [0..<length (ar_adjustments plan)])" unfolding written_ids [of scope, symmetric] using that by simp
    then show ?thesis using fresh that by (auto simp: fresh_ids_def)
  qed
  have "filter reversal ?w = []" using w by (auto simp: filter_empty_conv reversal_def)
  moreover have "distinct (map abj_id ?w)" unfolding written_ids using fresh by (auto simp: fresh_ids_def distinct_map intro: inj_on_subset)
  moreover have "abj_id ` set tab \<inter> abj_id ` set ?w = {}" using new by blast
  ultimately show "paired (tab @ ?w)" using pairs unfolding paired_def by (auto simp: filter_empty_conv)
  have "abj_reversalOfId r \<noteq> Some (abj_id q)" if r: "r \<in> set tab" "of_cheque (cs_cheque scope) r" and q: "q \<in> set ?w" for r q
  proof
    assume eq: "abj_reversalOfId r = Some (abj_id q)"
    then have "reversal r" using r by (auto simp: reversal_def of_cheque_def)
    then obtain q' where "q' \<in> set tab" "mirrors r q'" using pairs r(1) unfolding paired_def by blast
    then show False using eq new [OF _ q, of q'] by (simp add: mirrors_def)
  qed
  then show "standing (tab @ ?w) (cs_cheque scope) = set ?w" using none w by (auto simp: standing_def)
qed

section \<open>Back on the bills\<close>

context decimal_package
begin

lemma plan_bills:
  assumes input: "input = cheque_input J' scope' amount bills allocated" and pre: "alloc_pre J input" and ok: "allocate J input = Some (Inr r)"
  shows "distinct (map bill_key bills)" and "\<forall>b\<in>set bills. bill_fits J b"
    and "b \<in> set bills \<Longrightarrow> 0 < money J (ab_writeoff b) \<Longrightarrow> \<exists>a. ab_writeoffApprovedBy b = Some a"
proof -
  show "distinct (map bill_key bills)" "\<forall>b\<in>set bills. bill_fits J b"
    using allocate_success [OF pre ok] by (simp_all add: input guards_pass_def assertBillsFit_iff)
  show "\<exists>a. ab_writeoffApprovedBy b = Some a" if b: "b \<in> set bills" and pos: "0 < money J (ab_writeoff b)"
  proof -
    obtain xs where "bill_reductions J input (sidesOf input) b = Inr xs" using allocate_success [OF pre ok] b by (auto simp: input)
    then show ?thesis using pos by (auto simp: bill_reductions_def Let_def truthy_def simp del: money_half_up split: if_splits option.splits)
  qed
qed

lemma plan_row:
  assumes input: "input = cheque_input J' scope' amount bills allocated" and pre: "alloc_pre J input"
    and ok: "allocate J input = Some (Inr r)" and written: "written = writeAdjustments scope ids r"
    and q: "q \<in> set written"
  shows "paise (abj_amount q)" and "0 < abj_amount q" and "abj_adjType q \<in> set SETTLEMENT_ADJ_TYPES"
    and "\<exists>b\<in>set bills. abj_billId q = ab_billId b \<and> abj_billAccYear q = ab_billAccYear b \<and>
      (abj_adjType q = BillAdjType.WRITEOFF \<longrightarrow> abj_approvedBy q = ab_writeoffApprovedBy b)"
proof -
  from written_member [OF q [unfolded written]] obtain i n a where a: "a \<in> set (ar_adjustments r)" "q = adjustment_row scope i n a" by blast
  from cheque_rows [OF input pre ok a(1)] show "paise (abj_amount q)" "0 < abj_amount q" "abj_adjType q \<in> set SETTLEMENT_ADJ_TYPES"
    "\<exists>b\<in>set bills. abj_billId q = ab_billId b \<and> abj_billAccYear q = ab_billAccYear b \<and>
      (abj_adjType q = BillAdjType.WRITEOFF \<longrightarrow> abj_approvedBy q = ab_writeoffApprovedBy b)"
    by (auto simp: a(2) on_bill_def SETTLEMENT_ADJ_TYPES_def)
qed

lemma plan_key:
  assumes input: "input = cheque_input J' scope' amount bills allocated" and pre: "alloc_pre J input"
    and ok: "allocate J input = Some (Inr r)" and written: "written = writeAdjustments scope ids r"
    and q: "q \<in> set written" and b: "b \<in> set bills"
  shows "abj_key q = bill_key b \<longleftrightarrow> abj_billId q = ab_billId b \<and> abj_billAccYear q = ab_billAccYear b"
    and "abj_key q = bill_key b \<Longrightarrow> abj_adjType q = BillAdjType.WRITEOFF \<Longrightarrow> abj_approvedBy q = ab_writeoffApprovedBy b"
proof -
  from plan_row(4) [OF input pre ok written q] obtain b' where b': "b' \<in> set bills" "abj_billId q = ab_billId b'"
    "abj_billAccYear q = ab_billAccYear b'" "abj_adjType q = BillAdjType.WRITEOFF \<longrightarrow> abj_approvedBy q = ab_writeoffApprovedBy b'" by blast
  have same: "b' = b" if "abj_key q = bill_key b"
  proof -
    have "bill_key b' = bill_key b" using that b' by (simp add: abj_key_def bill_key_def)
    then show ?thesis using plan_bills(1) [OF input pre ok] b b'(1) by (auto simp: distinct_map dest: inj_onD)
  qed
  show "abj_key q = bill_key b \<longleftrightarrow> abj_billId q = ab_billId b \<and> abj_billAccYear q = ab_billAccYear b"
    using same b' by (auto simp: abj_key_def bill_key_def)
  show "abj_key q = bill_key b \<Longrightarrow> abj_adjType q = BillAdjType.WRITEOFF \<Longrightarrow> abj_approvedBy q = ab_writeoffApprovedBy b"
    using same b' by simp
qed

lemma plan_typed:
  assumes input: "input = cheque_input J' scope' amount bills allocated" and pre: "alloc_pre J input"
    and ok: "allocate J input = Some (Inr r)" and written: "written = writeAdjustments scope ids r"
    and b: "b \<in> set bills"
  shows "sum_list (map abj_amount (filter (\<lambda>r. abj_key r = bill_key b \<and> abj_adjType r = ty) written)) = typed_part J ty b"
    and "sum_list (map abj_amount (filter (\<lambda>r. abj_key r = bill_key b) written)) = money J (ab_amount b) + reduction J b"
proof -
  have on: "filter (\<lambda>r. abj_key r = bill_key b \<and> P r) written = filter (\<lambda>q. (abj_billId q = ab_billId b \<and> abj_billAccYear q = ab_billAccYear b) \<and> P q) written" for P
    using plan_key(1) [OF input pre ok written _ b] by (intro filter_cong refl) simp
  have "sum_list (map abj_amount (filter (\<lambda>q. (abj_billId q = ab_billId b \<and> abj_billAccYear q = ab_billAccYear b) \<and> abj_adjType q = ty) written)) =
      sum_list (map adj_amount (filter (\<lambda>row. on_bill b row \<and> adj_adjType row = ty) (ar_adjustments r)))"
    unfolding written by (rule written_total) (simp add: on_bill_def)
  then show "sum_list (map abj_amount (filter (\<lambda>r. abj_key r = bill_key b \<and> abj_adjType r = ty) written)) = typed_part J ty b"
    unfolding on using typed_total [OF input pre ok b] by simp
  have "sum_list (map abj_amount (filter (\<lambda>q. (abj_billId q = ab_billId b \<and> abj_billAccYear q = ab_billAccYear b) \<and> True) written)) =
      sum_list (map adj_amount (filter (on_bill b) (ar_adjustments r)))"
    unfolding written by (rule written_total) (simp add: on_bill_def)
  then show "sum_list (map abj_amount (filter (\<lambda>r. abj_key r = bill_key b) written)) = money J (ab_amount b) + reduction J b"
    using on [of "\<lambda>_. True"] on_bill_total [OF input pre ok b] by simp
qed

lemma typed_small:
  assumes "alloc_pre J input" and "ai_bills input = bills" and fits: "\<forall>b\<in>set bills. bill_fits J b" and b: "b \<in> set bills"
  shows "typed_part J ty b < 10 ^ 18"
proof -
  have col: "money J (f b) \<le> column J f bills" if "\<forall>b\<in>set bills. 0 \<le> f b" for f
    unfolding column_def using that b by (intro member_le_sum_list) auto
  have nn: "\<forall>b\<in>set bills. 0 \<le> ab_amount b" "\<forall>b\<in>set bills. 0 \<le> ab_discount b" "\<forall>b\<in>set bills. 0 \<le> ab_writeoff b"
    "\<forall>b\<in>set bills. 0 \<le> ab_roundoff b" using fits by (simp_all add: bill_fits_def)
  have lim: "column J ab_amount bills \<le> 40000000" "column J ab_discount bills \<le> 1000000000000000"
    "column J ab_writeoff bills \<le> 1000000000000000" "column J ab_roundoff bills \<le> 1000000000000000"
    using assms(1,2) by (simp_all add: alloc_pre_def amount_limit_def split_limit_def)
  show ?thesis using col [OF nn(1)] col [OF nn(2)] col [OF nn(3)] col [OF nn(4)] lim
    by (cases ty) (simp_all add: typed_part_def del: money_half_up)
qed

text \<open>The keys the rows of a plan name: the bills that were settled at all.\<close>

lemma plan_keys:
  assumes input: "input = cheque_input J' scope' amount bills allocated" and pre: "alloc_pre J input"
    and ok: "allocate J input = Some (Inr r)" and written: "written = writeAdjustments scope ids r"
  shows "abj_key ` set written = bill_key ` {b \<in> set bills. 0 < money J (ab_amount b) + reduction J b}"
proof (intro set_eqI iffI)
  fix k assume "k \<in> abj_key ` set written"
  then obtain q where q: "q \<in> set written" "k = abj_key q" by blast
  from plan_row(4) [OF input pre ok written q(1)] obtain b where b: "b \<in> set bills" "abj_key q = bill_key b"
    by (auto simp: abj_key_def bill_key_def)
  have "abj_amount q \<le> sum_list (map abj_amount (filter (\<lambda>r. abj_key r = bill_key b) written))"
    using q b plan_row(2) [OF input pre ok written] by (intro member_le_sum_list) (auto intro: less_imp_le)
  then have "0 < money J (ab_amount b) + reduction J b"
    using plan_row(2) [OF input pre ok written q(1)] plan_typed(2) [OF input pre ok written b(1)] by simp
  then show "k \<in> bill_key ` {b \<in> set bills. 0 < money J (ab_amount b) + reduction J b}" using b q by auto
next
  fix k assume "k \<in> bill_key ` {b \<in> set bills. 0 < money J (ab_amount b) + reduction J b}"
  then obtain b where b: "b \<in> set bills" "k = bill_key b" "0 < money J (ab_amount b) + reduction J b" by blast
  then have "filter (\<lambda>r. abj_key r = bill_key b) written \<noteq> []"
    using plan_typed(2) [OF input pre ok written b(1)] by (metis less_irrefl list.map_disc_iff sum_list.Nil)
  then show "k \<in> abj_key ` set written" by (force simp: b(2) filter_empty_conv)
qed

end

section \<open>What the bounce finds\<close>

lemma reversed_keys:
  "abj_key ` set (map (\<lambda>(n, q). reversal_row scope (ids n) n q) (enumerate start st)) = abj_key ` set st"
proof -
  have "map abj_key (map (\<lambda>(n, q). reversal_row scope (ids n) n q) (enumerate start st)) = map abj_key st"
    by (induction st arbitrary: start) (simp_all add: abj_key_def)
  then show ?thesis by (metis list.set_map)
qed

lemma same_sums:
  assumes "mset xs = mset ys"
  shows "sum_list (map abj_amount (filter P xs)) = sum_list (map abj_amount (filter P ys))"
proof -
  have "sum_mset (image_mset abj_amount (filter_mset P (mset xs))) = sum_mset (image_mset abj_amount (filter_mset P (mset ys)))"
    by (simp add: assms)
  then show ?thesis by (simp flip: sum_mset_sum_list)
qed

text \<open>What a bounce that follows the allocation writes, and what reading it back finds.\<close>

lemma bounce_rows_found:
  assumes pairs: "paired (tab @ written)" and stand: "standing (tab @ written) cheque = set written"
    and types: "\<forall>q\<in>set written. abj_adjType q \<in> set SETTLEMENT_ADJ_TYPES"
    and bounce: "reverseChequeAdjustments J rank ids (tab @ written) cheque bscope start = (reversed, rv)"
    and other: "\<forall>r\<in>set (tab @ written). abj_voucherId r \<noteq> rs_voucherId bscope"
  shows "\<exists>st. mset st = mset written \<and> reversed = map (\<lambda>(n, q). reversal_row bscope (ids n) n q) (enumerate start st) \<and>
    bounce_rows (tab @ written @ reversed) cheque (rs_voucherId bscope) (rs_accYear bscope) = reversed"
proof -
  let ?st = "fst (loadChequeAdjustments rank (tab @ written) cheque)"
  have st: "set ?st = set written" by (simp add: standing_loaded stand)
  have w: "reversed = map (\<lambda>(n, q). reversal_row bscope (ids n) n q) (enumerate start ?st)"
    using bounce by (auto simp: reverseChequeAdjustments_def writeReversals_def Let_def split: if_splits)
  have "distinct ?st" using loaded_distinct [OF pairs, of rank cheque] by (simp add: distinct_map)
  moreover have "distinct written" using pairs by (simp add: paired_def distinct_map)
  ultimately have "mset ?st = mset written" using st by (simp add: set_eq_iff_mset_eq_distinct [symmetric])
  moreover have "\<forall>q\<in>set ?st. of_cheque cheque q \<and> abj_adjType q \<in> set SETTLEMENT_ADJ_TYPES"
    using types by (auto simp: standing_loaded stand [symmetric]) (auto simp: standing_def stand)
  ultimately show ?thesis using bounce_found [OF w _ other] w by (intro exI [of _ ?st]) simp
qed

context decimal_package
begin

lemma bounce_gives_back:
  assumes input: "input = cheque_input J' scope' amount bills allocated" and pre: "alloc_pre J input"
    and ok: "allocate J input = Some (Inr r)" and written: "written = writeAdjustments scope ids r"
    and st: "mset st = mset written" and reversed: "reversed = map (\<lambda>(n, q). reversal_row bscope (ids' n) n q) (enumerate start st)"
    and b: "b \<in> set bills" and e: "jmap_get (foldl (restore_step J) [] reversed) (bill_key b) = Some e"
  shows "rr_billId e = ab_billId b \<and> rr_billAccYear e = ab_billAccYear b \<and> rr_amount e = money J (ab_amount b) \<and>
    rr_discount e = money J (ab_discount b) \<and> rr_writeoff e = money J (ab_writeoff b) \<and> rr_roundoff e = money J (ab_roundoff b) \<and>
    (0 < rr_writeoff e \<longrightarrow> rr_writeoffApprovedBy e = ab_writeoffApprovedBy b)"
proof -
  note row = plan_row [OF input pre ok written] and key = plan_key [OF input pre ok written _ b] and bills = plan_bills [OF input pre ok]
  have set: "set st = set written" using st by (rule mset_eq_setD)
  have part: "foldl (d_plus J) 0 (map (\<lambda>r. - abj_amount r) (filter (\<lambda>r. abj_key r = bill_key b \<and> abj_adjType r = ty) reversed)) = typed_part J ty b" for ty
  proof -
    let ?xs = "map abj_amount (filter (\<lambda>r. abj_key r = bill_key b \<and> abj_adjType r = ty) st)"
    have sum: "sum_list ?xs = typed_part J ty b" unfolding same_sums [OF st] by (rule plan_typed(1) [OF input pre ok written b])
    have "typed_part J ty b < 10 ^ 18" using input by (intro typed_small [OF pre _ bills(2) b]) simp
    then have "exact_column ?xs" using row(1,2) set sum by (intro exact_column_nonneg) (auto intro: less_imp_le)
    then show ?thesis unfolding reversed using bounced_amounts [of "\<lambda>i y t. key_of i y = bill_key b \<and> t = ty" bscope ids' start st] sum
      by (simp add: abj_key_def foldl_plus_0)
  qed
  have parts: "rr_part ty e = typed_part J ty b" if "ty \<in> set SETTLEMENT_ADJ_TYPES" for ty
    using restored_part [OF that e] part by simp
  have origin: "\<exists>q'\<in>set written. abj_key q' = abj_key q \<and> abj_billId q' = abj_billId q \<and> abj_billAccYear q' = abj_billAccYear q \<and>
      abj_adjType q' = abj_adjType q \<and> abj_approvedBy q' = abj_approvedBy q" if "q \<in> set reversed" for q
  proof -
    from reversed_member [OF that [unfolded reversed]] obtain n q' where "q' \<in> set st" "q = reversal_row bscope (ids' n) n q'" by blast
    then show ?thesis using set by (intro bexI [of _ q']) (simp_all add: abj_key_def)
  qed
  from restored_bill [OF e] obtain q where q: "q \<in> set reversed" "abj_key q = bill_key b" "rr_billId e = abj_billId q" "rr_billAccYear e = abj_billAccYear q"
    by auto
  with origin [OF q(1)] obtain q' where q': "q' \<in> set written" "abj_key q' = bill_key b" "abj_billId q' = rr_billId e" "abj_billAccYear q' = rr_billAccYear e"
    by auto
  have "rr_writeoffApprovedBy e = ab_writeoffApprovedBy b" if pos: "0 < typed_part J BillAdjType.WRITEOFF b"
  proof -
    obtain a where a: "ab_writeoffApprovedBy b = Some a" using bills(3) [OF b] pos by (auto simp: typed_part_def)
    have rows: "\<forall>q\<in>set reversed. abj_key q = bill_key b \<and> abj_adjType q = BillAdjType.WRITEOFF \<longrightarrow> abj_approvedBy q = Some a"
    proof (intro ballI impI)
      fix q assume q: "q \<in> set reversed" "abj_key q = bill_key b \<and> abj_adjType q = BillAdjType.WRITEOFF"
      with origin obtain q' where "q' \<in> set written" "abj_key q' = bill_key b" "abj_adjType q' = BillAdjType.WRITEOFF" "abj_approvedBy q' = abj_approvedBy q"
        by (metis (no_types, lifting))
      then show "abj_approvedBy q = Some a" using key(2) a by simp
    qed
    have "\<exists>r\<in>set reversed. abj_key r = bill_key b \<and> abj_adjType r = BillAdjType.WRITEOFF"
      using part [of BillAdjType.WRITEOFF] pos by (auto simp: filter_empty_conv intro: ccontr)
    then show ?thesis using restored_approver [OF e rows] a by simp
  qed
  then show ?thesis
    using parts [of BillAdjType.ALLOCATION] parts [of BillAdjType.DISCOUNT] parts [of BillAdjType.WRITEOFF] parts [of BillAdjType.ROUND_OFF]
      key(1) [OF q'(1)] q'
    by (simp add: SETTLEMENT_ADJ_TYPES_def rr_part_def typed_part_def del: money_half_up)
qed

lemma represented:
  assumes ok: "allocateChequeMoney J db scope request = Some (Inr (out, written, advance))" and bills: "cheque_bills J db scope request = Inr bills"
    and pre: "alloc_pre J (cheque_input J scope (money J (chq_apdAmount (cs_cheque scope))) bills (sum_money J (map ab_amount bills)))"
    and tab: "paired tab" "standing tab (cs_cheque scope) = {}" "fresh_ids (db_ids db) tab"
    and bounce: "reverseChequeAdjustments J rank ids (tab @ written) (cs_cheque scope) bscope start = (reversed, rv)"
      "\<forall>r\<in>set (tab @ written). abj_voucherId r \<noteq> rs_voucherId bscope"
    and restored: "restored = allocationsReversedBy J (tab @ written @ reversed) (cs_cheque scope) (rs_voucherId bscope) (rs_accYear bscope)"
  shows "set (map (\<lambda>e. (rr_billId e, rr_billAccYear e)) restored) =
      set (map (\<lambda>b. (ab_billId b, ab_billAccYear b)) (filter (\<lambda>b. 0 < money J (ab_amount b) + reduction J b) bills)) \<and>
    distinct (map (\<lambda>e. key_of (rr_billId e) (rr_billAccYear e)) restored) \<and>
    (\<forall>e\<in>set restored. \<exists>b\<in>set bills. rr_billId e = ab_billId b \<and> rr_billAccYear e = ab_billAccYear b \<and> rr_amount e = money J (ab_amount b) \<and>
      rr_discount e = money J (ab_discount b) \<and> rr_writeoff e = money J (ab_writeoff b) \<and> rr_roundoff e = money J (ab_roundoff b) \<and>
      (0 < rr_writeoff e \<longrightarrow> rr_writeoffApprovedBy e = ab_writeoffApprovedBy b))"
proof -
  obtain input where input: "input = cheque_input J scope (money J (chq_apdAmount (cs_cheque scope))) bills (sum_money J (map ab_amount bills))" by blast
  from allocate_cheque_Inr [OF ok] bills obtain r where r: "allocate J input = Some (Inr r)"
    and written: "written = writeAdjustments scope (db_ids db) r" by (auto simp: input)
  note pre = pre [folded input]
  have "\<forall>q\<in>set written. abj_adjType q \<in> set SETTLEMENT_ADJ_TYPES" using plan_row(3) [OF input pre r written] by blast
  then obtain st where st: "mset st = mset written" "reversed = map (\<lambda>(n, q). reversal_row bscope (ids n) n q) (enumerate start st)"
    and found: "bounce_rows (tab @ written @ reversed) (cs_cheque scope) (rs_voucherId bscope) (rs_accYear bscope) = reversed"
    using bounce_rows_found [OF written_stand [OF tab, of r, folded written] _ bounce] by blast
  let ?m = "foldl (restore_step J) [] reversed"
  have m: "restored = map snd ?m" by (simp add: restored allocationsReversedBy_def found)
  have keys: "set (map fst ?m) = bill_key ` {b \<in> set bills. 0 < money J (ab_amount b) + reduction J b}"
    using restored_keys [of J "[]" reversed] reversed_keys [of bscope ids start st] plan_keys [OF input pre r written] mset_eq_setD [OF st(1)]
    by (simp add: st(2))
  have dist: "distinct (map fst ?m)" by (rule restored_distinct) simp
  have entry: "\<exists>b\<in>set bills. 0 < money J (ab_amount b) + reduction J b \<and> fst ke = bill_key b \<and> rr_billId (snd ke) = ab_billId b \<and>
      rr_billAccYear (snd ke) = ab_billAccYear b \<and> rr_amount (snd ke) = money J (ab_amount b) \<and> rr_discount (snd ke) = money J (ab_discount b) \<and>
      rr_writeoff (snd ke) = money J (ab_writeoff b) \<and> rr_roundoff (snd ke) = money J (ab_roundoff b) \<and>
      (0 < rr_writeoff (snd ke) \<longrightarrow> rr_writeoffApprovedBy (snd ke) = ab_writeoffApprovedBy b)" if ke: "ke \<in> set ?m" for ke
  proof -
    have "fst ke \<in> set (map fst ?m)" using ke by simp
    then obtain b where b: "b \<in> set bills" "0 < money J (ab_amount b) + reduction J b" "fst ke = bill_key b" unfolding keys by blast
    have "jmap_get ?m (bill_key b) = Some (snd ke)" using ke b(3) dist by (metis map_of_eq_Some_iff prod.collapse)
    then show ?thesis using bounce_gives_back [OF input pre r written st b(1)] b by blast
  qed
  have "map (\<lambda>e. key_of (rr_billId e) (rr_billAccYear e)) restored = map fst ?m"
    unfolding m map_map by (intro map_cong refl) (use entry in \<open>force simp: bill_key_def\<close>)
  moreover have "set (map (\<lambda>e. (rr_billId e, rr_billAccYear e)) restored) =
      set (map (\<lambda>b. (ab_billId b, ab_billAccYear b)) (filter (\<lambda>b. 0 < money J (ab_amount b) + reduction J b) bills))"
  proof (intro equalityI subsetI)
    fix k assume "k \<in> set (map (\<lambda>e. (rr_billId e, rr_billAccYear e)) restored)"
    then obtain ke where ke: "ke \<in> set ?m" "k = (rr_billId (snd ke), rr_billAccYear (snd ke))" unfolding m by auto
    from entry [OF ke(1)] obtain b where "b \<in> set bills" "0 < money J (ab_amount b) + reduction J b" "k = (ab_billId b, ab_billAccYear b)"
      using ke(2) by auto
    then show "k \<in> set (map (\<lambda>b. (ab_billId b, ab_billAccYear b)) (filter (\<lambda>b. 0 < money J (ab_amount b) + reduction J b) bills))"
      by (simp del: money_half_up)
  next
    fix k assume "k \<in> set (map (\<lambda>b. (ab_billId b, ab_billAccYear b)) (filter (\<lambda>b. 0 < money J (ab_amount b) + reduction J b) bills))"
    then obtain b where b: "b \<in> set bills" "0 < money J (ab_amount b) + reduction J b" "k = (ab_billId b, ab_billAccYear b)" by auto
    then have "bill_key b \<in> set (map fst ?m)" unfolding keys by blast
    then obtain ke where ke: "ke \<in> set ?m" "fst ke = bill_key b" by auto
    from entry [OF ke(1)] obtain b' where b': "b' \<in> set bills" "bill_key b' = bill_key b" "rr_billId (snd ke) = ab_billId b'"
      "rr_billAccYear (snd ke) = ab_billAccYear b'" using ke(2) by auto
    then have "b' = b" using plan_bills(1) [OF input pre r] b(1) by (auto simp: distinct_map dest: inj_onD)
    then have "k = (rr_billId (snd ke), rr_billAccYear (snd ke))" using b b' by simp
    then show "k \<in> set (map (\<lambda>e. (rr_billId e, rr_billAccYear e)) restored)" unfolding m using ke(1) by auto
  qed
  moreover have "\<exists>b\<in>set bills. rr_billId e = ab_billId b \<and> rr_billAccYear e = ab_billAccYear b \<and> rr_amount e = money J (ab_amount b) \<and>
      rr_discount e = money J (ab_discount b) \<and> rr_writeoff e = money J (ab_writeoff b) \<and> rr_roundoff e = money J (ab_roundoff b) \<and>
      (0 < rr_writeoff e \<longrightarrow> rr_writeoffApprovedBy e = ab_writeoffApprovedBy b)" if "e \<in> set restored" for e
  proof -
    from that obtain ke where ke: "ke \<in> set ?m" "e = snd ke" unfolding m by auto
    from entry [OF ke(1)] ke(2) show ?thesis by blast
  qed
  ultimately show ?thesis using dist by (intro conjI ballI) simp_all
qed

end

section \<open>An advance that was already given back\<close>

text \<open>
  The cascade asks for the applications of an advance that are no reversals, not for those that stand. An application
  already reversed, as the cancellation of the receipt that applied it leaves it, is reversed a second time.
\<close>

lemma cascade_reverses_twice:
  assumes q: "q \<in> set (applications_of rank (cd_adjustments db) advance)" and r: "r \<in> set (cd_adjustments db)" "reversal r" "mirrors r q"
    and step: "cascade_step rank ids now scope True (db, report, bills, rowNo) advance = (db', report', bills', rowNo')"
  shows "\<not> paired (cd_adjustments db')"
proof -
  let ?st = "applications_of rank (cd_adjustments db) advance"
  let ?w = "map (\<lambda>(n, q). reversal_row scope (ids n) n q) (enumerate rowNo ?st)"
  have db': "cd_adjustments db' = cd_adjustments db @ ?w"
    using step by (auto simp: cascade_step_def Let_def writeReversals_def split: if_splits)
  have "Some (abj_id q) \<in> set (map abj_reversalOfId ?w)" unfolding reversed_columns(1) using q by auto
  moreover have "Some (abj_id q) \<in> set (map abj_reversalOfId (filter reversal (cd_adjustments db)))" using r by (force simp: mirrors_def)
  ultimately have "\<not> distinct (map abj_reversalOfId (filter reversal (cd_adjustments db')))"
    unfolding db' filter_append map_append distinct_append reversed_columns(3) by blast
  then show ?thesis by (simp add: paired_def)
qed

section \<open>Properties\<close>

text \<open>
  C12: a cheque that bounces and is presented again settles what it settled. Reading back the bounce finds one entry for
  every bill the allocation settled, with the amount, the discount, the write-off and its approver and the round-off
  the allocation wrote, and nothing for any other bill, provided every earlier round of the cheque was taken back and
  the bounce has a voucher of its own.
\<close>

theorem bounce_restores:
  assumes "decimal_package J" and "allocateChequeMoney J db scope request = Some (Inr (out, written, advance))"
    and "cheque_bills J db scope request = Inr bills"
    and "alloc_pre J (cheque_input J scope (money J (chq_apdAmount (cs_cheque scope))) bills (sum_money J (map ab_amount bills)))"
    and "paired tab" and "standing tab (cs_cheque scope) = {}" and "fresh_ids (db_ids db) tab"
    and "reverseChequeAdjustments J rank ids (tab @ written) (cs_cheque scope) bscope start = (reversed, rv)"
    and "\<forall>r\<in>set (tab @ written). abj_voucherId r \<noteq> rs_voucherId bscope"
    and "restored = allocationsReversedBy J (tab @ written @ reversed) (cs_cheque scope) (rs_voucherId bscope) (rs_accYear bscope)"
  shows "set (map (\<lambda>e. (rr_billId e, rr_billAccYear e)) restored) =
      set (map (\<lambda>b. (ab_billId b, ab_billAccYear b)) (filter (\<lambda>b. 0 < money J (ab_amount b) + reduction J b) bills)) \<and>
    distinct (map (\<lambda>e. key_of (rr_billId e) (rr_billAccYear e)) restored) \<and>
    (\<forall>e\<in>set restored. \<exists>b\<in>set bills. rr_billId e = ab_billId b \<and> rr_billAccYear e = ab_billAccYear b \<and> rr_amount e = money J (ab_amount b) \<and>
      rr_discount e = money J (ab_discount b) \<and> rr_writeoff e = money J (ab_writeoff b) \<and> rr_roundoff e = money J (ab_roundoff b) \<and>
      (0 < rr_writeoff e \<longrightarrow> rr_writeoffApprovedBy e = ab_writeoffApprovedBy b))"
  by (rule decimal_package.represented [OF assms])

lemma fresh_show_nat: "fresh_ids show_nat []"
  by (simp add: fresh_ids_def inj_on_def)

theorem bounce_restores_witness:
  "\<exists>out written advance reversed rv. allocateChequeMoney decimal20 sample_db sample_scope AUTO_FIFO = Some (Inr (out, written, advance)) \<and>
    reverseChequeAdjustments decimal20 (\<lambda>_. 0) (\<lambda>n. CHR ''b'' # show_nat n) written sample_cheque sample_bounce 1 = (reversed, rv) \<and>
    set (map (\<lambda>e. (rr_billId e, rr_billAccYear e)) (allocationsReversedBy decimal20 (written @ reversed) sample_cheque ''v2'' ''2026-2027'')) =
      {(''b1'', ''2026-2027''), (''b2'', ''2026-2027'')}"
proof -
  let ?bills = "map2 fifo_bill (fifo_open sample_db sample_scope) (greedy 100 [60, 80])"
  note plan = decimal_package.fifo_plan [OF decimal20_package sample_db_ok(2) _ _ sample_db_ok(5,6) _ refl, of ?bills, unfolded sample_pending, simplified split_limit_def, simplified]
  obtain out written advance where run: "allocateChequeMoney decimal20 sample_db sample_scope AUTO_FIFO = Some (Inr (out, written, advance))"
    using decimal_package.fifo_lands [OF decimal20_package sample_db_ok(1,3,5,6)] by blast
  obtain reversed rv where rev: "reverseChequeAdjustments decimal20 (\<lambda>_. 0) (\<lambda>n. CHR ''b'' # show_nat n) ([] @ written) (cs_cheque sample_scope) sample_bounce 1 = (reversed, rv)"
    by fastforce
  have "\<forall>r\<in>set ([] @ written). abj_voucherId r \<noteq> rs_voucherId sample_bounce"
    using allocate_cheque_Inr [OF run] by (auto simp: sample_bounce_def sample_scope_def dest!: written_member)
  note again = bounce_restores [OF decimal20_package run plan(1) _ _ _ _ rev this refl]
  have "filter (\<lambda>b. 0 < money decimal20 (ab_amount b) + reduction decimal20 b) ?bills = ?bills"
    by (simp add: sample_open sample_greedy reduction_def fifo_bill_def decimal_package.money_half_up [OF decimal20_package])
  moreover have "map (\<lambda>b. (ab_billId b, ab_billAccYear b)) ?bills = [(''b1'', ''2026-2027''), (''b2'', ''2026-2027'')]"
    by (simp add: sample_open sample_greedy fifo_bill_def sample_owed_def)
  ultimately show ?thesis
    using again run rev plan(3) fresh_show_nat by (auto simp: sample_db_ok(2) paired_def standing_def sample_db_fields(2) sample_bounce_def)
qed

end
