(* ===== verification/Calendar.thy ===== *)
theory Calendar
  imports Js_Date Digits
begin

text \<open>
  The Gregorian calendar behind \<open>Js_Date\<close>: a day of the count since 1970 has one year, month and day of the month, and
  a date of the years 0 to 9999 is read back from what is printed, and the order of the texts is the order of the days.
\<close>

section \<open>Years\<close>

lemma div_step:
  fixes x k :: int
  assumes "0 < k"
  shows "(x + 1) div k = x div k + (if k dvd x + 1 then 1 else 0)"
proof -
  define q r where "q = x div k" and "r = x mod k"
  have x: "x = k * q + r" "0 \<le> r" "r < k" using assms by (simp_all add: q_def r_def)
  show ?thesis
  proof (cases "r + 1 = k")
    case True
    then have "x + 1 = k * (q + 1)" using x by (simp add: algebra_simps)
    then show ?thesis using assms by (simp add: q_def)
  next
    case False
    have split: "x + 1 = k * q + (r + 1)" using x(1) by simp
    have "(x + 1) div k = q" by (rule int_div_pos_eq [OF split]) (use x False in auto)
    moreover have "(x + 1) mod k = r + 1" by (rule int_mod_pos_eq [OF split]) (use x False in auto)
    then have "\<not> k dvd x + 1" using x by (simp add: dvd_eq_mod_eq_0)
    ultimately show ?thesis by (simp add: q_def)
  qed
qed

lemma dvd_shift:
  fixes y k c :: int
  assumes "k dvd c"
  shows "k dvd y - c \<longleftrightarrow> k dvd y"
  using dvd_diff_right_iff [of k c y] assms by (simp add: dvd_diff_left_iff)

lemma DayFromYear_Suc: "DayFromYear (y + 1) = DayFromYear y + (if leap_year y then 366 else 365)"
proof -
  have "(y + 1 - 1969) div 4 = (y - 1969) div 4 + (if 4 dvd y then 1 else 0)"
    using div_step [of 4 "y - 1969"] dvd_shift [of 4 1968 y] by simp
  moreover have "(y + 1 - 1901) div 100 = (y - 1901) div 100 + (if 100 dvd y then 1 else 0)"
    using div_step [of 100 "y - 1901"] dvd_shift [of 100 1900 y] by simp
  moreover have "(y + 1 - 1601) div 400 = (y - 1601) div 400 + (if 400 dvd y then 1 else 0)"
    using div_step [of 400 "y - 1601"] dvd_shift [of 400 1600 y] by simp
  moreover have "400 dvd y \<Longrightarrow> 100 dvd y" "100 dvd y \<Longrightarrow> 4 dvd y" using dvd_trans [of 100 400 y] dvd_trans [of 4 100 y] by simp_all
  ultimately show ?thesis unfolding DayFromYear_def leap_year_def by auto
qed

lemma DayFromYear_near:
  "146097 * (y - 1970) - 600 \<le> 400 * DayFromYear y" "400 * DayFromYear y \<le> 146097 * (y - 1970) + 600"
proof -
  define z a b c where "z = y - 1970" and "a = (y - 1969) div 4" and "b = (y - 1901) div 100" and "c = (y - 1601) div 400"
  have near: "0 < k \<Longrightarrow> k * (x div k) \<le> x \<and> x + 1 \<le> k * (x div k) + k" for x k :: int
    using minus_mult_div_eq_mod [of x k] pos_mod_sign [of k x] pos_mod_bound [of k x] by linarith
  have "4 * a \<le> z + 1" "z + 1 \<le> 4 * a + 3" using near [of 4 "y - 1969"] by (simp_all add: z_def a_def)
  moreover have "100 * b \<le> z + 69" "z + 69 \<le> 100 * b + 99" using near [of 100 "y - 1901"] by (simp_all add: z_def b_def)
  moreover have "400 * c \<le> z + 369" "z + 369 \<le> 400 * c + 399" using near [of 400 "y - 1601"] by (simp_all add: z_def c_def)
  ultimately have "400 * a \<le> 100 * z + 100" "100 * z - 200 \<le> 400 * a" "400 * b \<le> 4 * z + 276" "4 * z - 120 \<le> 400 * b"
    "400 * c \<le> z + 369" "z - 30 \<le> 400 * c" by simp_all
  then have "146097 * z - 600 \<le> 400 * (365 * z + a - b + c) \<and> 400 * (365 * z + a - b + c) \<le> 146097 * z + 600"
    by (auto simp: algebra_simps)
  then show "146097 * (y - 1970) - 600 \<le> 400 * DayFromYear y" "400 * DayFromYear y \<le> 146097 * (y - 1970) + 600"
    unfolding DayFromYear_def a_def [symmetric] b_def [symmetric] c_def [symmetric] z_def [symmetric] by blast+
qed

lemma DayFromYear_less: "y < z \<Longrightarrow> DayFromYear y + 365 \<le> DayFromYear z"
proof (induction z rule: int_gr_induct)
  case base
  then show ?case by (simp add: DayFromYear_Suc)
next
  case (step z)
  then show ?case using DayFromYear_Suc [of z] by (auto split: if_splits)
qed

lemma year_of_bounds: "DayFromYear (year_of n) \<le> n" "n < DayFromYear (year_of n + 1)"
proof -
  define y where "y = 1970 + (n * 400) div 146097"
  have "146097 * (y - 1970) \<le> 400 * n" "400 * n < 146097 * (y - 1970) + 146097" by (simp_all add: y_def)
  then have "DayFromYear (y - 1) \<le> n \<and> n < DayFromYear (y + 2)"
    using DayFromYear_near [of "y - 1"] DayFromYear_near [of "y + 2"] by (auto simp: algebra_simps)
  then show "DayFromYear (year_of n) \<le> n" "n < DayFromYear (year_of n + 1)"
    unfolding year_of_def y_def [symmetric] Let_def by (auto simp: algebra_simps)
qed

lemma DayFromYear_mono: "y \<le> z \<Longrightarrow> DayFromYear y \<le> DayFromYear z"
  using DayFromYear_less [of y z] by (cases "y = z") auto

lemma year_of_unique: "DayFromYear y \<le> n \<Longrightarrow> n < DayFromYear (y + 1) \<Longrightarrow> year_of n = y"
  using year_of_bounds [of n] DayFromYear_mono [of "y + 1" "year_of n"] DayFromYear_mono [of "year_of n + 1" y] by linarith

section \<open>Months\<close>

definition days_in_month :: "int \<Rightarrow> int \<Rightarrow> int" where
  "days_in_month y m = (if m = 2 then (if leap_year y then 29 else 28) else if m \<in> {4, 6, 9, 11} then 30 else 31)"

definition real_date :: "int \<Rightarrow> int \<Rightarrow> int \<Rightarrow> bool" where
  "real_date y m d \<longleftrightarrow> 1 \<le> m \<and> m \<le> 12 \<and> 1 \<le> d \<and> d \<le> days_in_month y m"

lemma month_cases: "1 \<le> (m::int) \<Longrightarrow> m \<le> 12 \<Longrightarrow> m = 1 \<or> m = 2 \<or> m = 3 \<or> m = 4 \<or> m = 5 \<or> m = 6 \<or> m = 7 \<or> m = 8 \<or> m = 9 \<or> m = 10 \<or> m = 11 \<or> m = 12"
  by presburger

lemma month_starts:
  "month_start y 1 = 0" "month_start y 2 = 31" "month_start y 3 = (if leap_year y then 60 else 59)"
  "month_start y 4 = (if leap_year y then 91 else 90)" "month_start y 5 = (if leap_year y then 121 else 120)"
  "month_start y 6 = (if leap_year y then 152 else 151)" "month_start y 7 = (if leap_year y then 182 else 181)"
  "month_start y 8 = (if leap_year y then 213 else 212)" "month_start y 9 = (if leap_year y then 244 else 243)"
  "month_start y 10 = (if leap_year y then 274 else 273)" "month_start y 11 = (if leap_year y then 305 else 304)"
  "month_start y 12 = (if leap_year y then 335 else 334)"
  by (simp_all add: month_start_def)

lemma month_of_eq:
  assumes "month_start y m \<le> k" and "1 \<le> m" and "m \<le> 12" and "m = 12 \<or> k < month_start y (m + 1)"
  shows "month_of y k = m"
  using month_cases [OF assms(2,3)] assms(1,4)
  by (elim disjE; cases "leap_year y"; simp add: month_of_def month_starts)

lemma month_length: "1 \<le> m \<Longrightarrow> m < 12 \<Longrightarrow> month_start y (m + 1) = month_start y m + days_in_month y m"
  by (drule month_cases, simp, elim disjE; simp add: days_in_month_def month_starts)

lemma december: "month_start y 12 + days_in_month y 12 = (if leap_year y then 366 else 365)"
  by (simp add: days_in_month_def month_starts)

lemma month_start_nonneg: "1 \<le> m \<Longrightarrow> m \<le> 12 \<Longrightarrow> 0 \<le> month_start y m"
  by (drule month_cases, simp, elim disjE; simp add: month_starts)

lemma month_end: "1 \<le> m \<Longrightarrow> m \<le> 12 \<Longrightarrow> month_start y m + days_in_month y m \<le> (if leap_year y then 366 else 365)"
  by (drule month_cases, simp, elim disjE; simp add: days_in_month_def month_starts)

lemma month_start_mono: "m \<le> n \<Longrightarrow> 1 \<le> m \<Longrightarrow> n \<le> 12 \<Longrightarrow> month_start y m \<le> month_start y n"
proof (induction n rule: int_ge_induct)
  case (step n)
  then have "month_start y m \<le> month_start y n" "0 \<le> days_in_month y n" by (simp_all add: days_in_month_def)
  then show ?case using month_length [of n y] step by simp
qed simp

lemma month_of_day:
  assumes "real_date y m d"
  shows "month_of y (month_start y m + d - 1) = m" and "0 \<le> month_start y m + d - 1"
    and "month_start y m + d - 1 < (if leap_year y then 366 else 365)"
  using assms month_of_eq [of y m "month_start y m + d - 1"] month_length [of m y] month_start_nonneg [of m y] month_end [of m y]
  unfolding real_date_def by (cases "m = 12", auto split: if_splits)+

text \<open>Climbing the months, the first one that ends after the day holds it.\<close>

lemma month_found:
  assumes "0 \<le> k" and "k < (if leap_year y then 366 else 365)"
  shows "\<exists>m. 1 \<le> m \<and> m \<le> 12 \<and> month_start y m \<le> k \<and> k < month_start y m + days_in_month y m"
proof (rule ccontr)
  assume none: "\<not> ?thesis"
  have up: "1 \<le> m \<Longrightarrow> m \<le> 12 \<Longrightarrow> month_start y m \<le> k" for m
  proof (induction m rule: int_ge_induct)
    case base
    then show ?case using assms(1) by (simp add: month_starts)
  next
    case (step m)
    then have "month_start y m \<le> k" by simp
    then have "month_start y m + days_in_month y m \<le> k" using none step.hyps step.prems by (smt (verit))
    then show ?case using month_length [of m y] step by simp
  qed
  show False using up [of 12] none december [of y] assms(2) by force
qed

lemma day_in_year:
  assumes "0 \<le> k" and "k < (if leap_year y then 366 else 365)"
  shows "real_date y (month_of y k) (k - month_start y (month_of y k) + 1)"
proof -
  obtain m where m: "1 \<le> m" "m \<le> 12" "month_start y m \<le> k" "k < month_start y m + days_in_month y m" using month_found [OF assms] by blast
  then have "month_of y k = m" using month_length [of m y] by (intro month_of_eq) linarith+
  then show ?thesis using m by (simp add: real_date_def)
qed

section \<open>A day and its date\<close>

definition date_of :: "int \<Rightarrow> int \<times> int \<times> int" where
  "date_of n = (let y = year_of n; m = month_of y (n - DayFromYear y) in (y, m, n - DayFromYear y - month_start y m + 1))"

lemma date_of_real: "date_of n = (y, m, d) \<Longrightarrow> real_date y m d \<and> day_number y m d = n"
  using year_of_bounds [of n] day_in_year [of "n - DayFromYear (year_of n)" "year_of n"]
  by (auto simp: date_of_def Let_def day_number_def DayFromYear_Suc)

lemma date_of_number: "real_date y m d \<Longrightarrow> date_of (day_number y m d) = (y, m, d)"
  using month_of_day [of y m d] year_of_unique [of y "day_number y m d"]
  by (simp add: date_of_def Let_def day_number_def DayFromYear_Suc) (simp add: algebra_simps)

lemma day_number_inject: "real_date y m d \<Longrightarrow> real_date y' m' d' \<Longrightarrow> day_number y m d = day_number y' m' d' \<longleftrightarrow> y = y' \<and> m = m' \<and> d = d'"
  using date_of_number [of y m d] date_of_number [of y' m' d'] by (metis prod.inject)

text \<open>A day of 29 to 31 past the end of its month stays in its year.\<close>

lemma year_of_parsed:
  assumes "1 \<le> m" and "m \<le> 12" and "1 \<le> d" and "d \<le> 31"
  shows "year_of (day_number y m d) = y"
proof -
  have "month_start y m \<le> month_start y 12" using assms by (intro month_start_mono) simp_all
  then have "0 \<le> month_start y m + d - 1" "month_start y m + d - 1 < (if leap_year y then 366 else 365)"
    using december [of y] month_start_nonneg [of m y] assms by (auto simp: days_in_month_def split: if_splits)
  then show ?thesis by (intro year_of_unique) (auto simp: day_number_def DayFromYear_Suc split: if_splits)
qed

section \<open>The text of a date\<close>

definition iso_text :: "int \<Rightarrow> int \<Rightarrow> int \<Rightarrow> string" where
  "iso_text y m d = zero_padded 4 (nat y) @ ''-'' @ zero_padded 2 (nat m) @ ''-'' @ zero_padded 2 (nat d)"

definition four_digit_year :: "int \<Rightarrow> bool" where
  "four_digit_year y \<longleftrightarrow> 0 \<le> y \<and> y \<le> 9999"

lemma pad_digits_padded: "pad_digits w n = zero_padded w (nat n)"
  by (simp add: pad_digits_def zero_padded_def Let_def)

lemma two_digits: "0 \<le> m \<Longrightarrow> m \<le> 99 \<Longrightarrow> length (zero_padded 2 (nat m)) = 2"
  by (rule length_zero_padded) simp_all

lemma four_digits: "four_digit_year y \<Longrightarrow> length (zero_padded 4 (nat y)) = 4"
  by (rule length_zero_padded) (auto simp: four_digit_year_def nat_less_iff)

lemma length_iso_text: "four_digit_year y \<Longrightarrow> real_date y m d \<Longrightarrow> length (iso_text y m d) = 10"
  using two_digits [of m] two_digits [of d] four_digits [of y]
  by (auto simp: iso_text_def real_date_def days_in_month_def split: if_splits)

lemma toDateString_date:
  assumes "date_of (t div DAY_MS) = (y, m, d)" and "four_digit_year y"
  shows "toDateString t = iso_text y m d"
proof -
  have "toDateString t = take 10 (iso_text y m d)"
    using assms by (auto simp: toDateString_def date_of_def Let_def iso_text_def pad_digits_padded four_digit_year_def)
  then show ?thesis using length_iso_text [of y m d] date_of_real [OF assms(1)] assms(2) by simp
qed

lemma length_ten: "length s = 10 \<Longrightarrow> \<exists>a b c d e f g h i j. s = [a, b, c, d, e, f, g, h, i, j]"
  by (simp add: numeral_eq_Suc length_Suc_conv) blast

text \<open>What is read as a day is the text of its year, month and day.\<close>

lemma parse_day_iff:
  "parse_day s = Some n \<longleftrightarrow> (\<exists>y m d. four_digit_year y \<and> 1 \<le> m \<and> m \<le> 12 \<and> 1 \<le> d \<and> d \<le> 31 \<and> s = iso_text y m d \<and> n = day_number y m d)"
proof
  assume "\<exists>y m d. four_digit_year y \<and> 1 \<le> m \<and> m \<le> 12 \<and> 1 \<le> d \<and> d \<le> 31 \<and> s = iso_text y m d \<and> n = day_number y m d"
  then obtain y m d where r: "four_digit_year y" "1 \<le> m" "m \<le> 12" "1 \<le> d" "d \<le> 31" and s: "s = iso_text y m d" and n: "n = day_number y m d" by blast
  have l: "length (zero_padded 4 (nat y)) = 4" "length (zero_padded 2 (nat m)) = 2" "length (zero_padded 2 (nat d)) = 2"
    using r four_digits two_digits by simp_all
  have parts: "take 4 s = zero_padded 4 (nat y)" "take 2 (drop 5 s) = zero_padded 2 (nat m)" "drop 8 s = zero_padded 2 (nat d)"
    "s ! 4 = CHR ''-''" "s ! 7 = CHR ''-''" "length s = 10"
    using l by (simp_all add: s iso_text_def nth_append)
  show "parse_day s = Some n" using r unfolding parse_day_def parts by (simp add: n four_digit_year_def)
next
  assume p: "parse_day s = Some n"
  then have r: "length s = 10" "list_all is_digit (take 4 s)" "s ! 4 = CHR ''-''" "list_all is_digit (take 2 (drop 5 s))" "s ! 7 = CHR ''-''"
    "list_all is_digit (drop 8 s)" by (auto simp: parse_day_def Let_def split: if_splits)
  define y m d where "y = int (read_nat (take 4 s))" and "m = int (read_nat (take 2 (drop 5 s)))" and "d = int (read_nat (drop 8 s))"
  have q: "1 \<le> m \<and> m \<le> 12 \<and> 1 \<le> d \<and> d \<le> 31 \<and> n = day_number y m d"
    using p by (auto simp: parse_day_def Let_def y_def m_def d_def split: if_splits)
  have "read_nat (take 4 s) < 10 ^ length (take 4 s)" using r by (intro read_nat_bound) simp
  then have fy: "four_digit_year y" using r(1) by (simp add: four_digit_year_def y_def)
  have "zero_padded 4 (nat y) = take 4 s" "zero_padded 2 (nat m) = take 2 (drop 5 s)" "zero_padded 2 (nat d) = drop 8 s"
    using r by (simp_all add: y_def m_def d_def zero_padded_read)
  moreover obtain c0 c1 c2 c3 c4 c5 c6 c7 c8 c9 where "s = [c0, c1, c2, c3, c4, c5, c6, c7, c8, c9]" using length_ten [OF r(1)] by blast
  ultimately have "s = iso_text y m d" using r(3,5) by (simp add: iso_text_def)
  then show "\<exists>y m d. four_digit_year y \<and> 1 \<le> m \<and> m \<le> 12 \<and> 1 \<le> d \<and> d \<le> 31 \<and> s = iso_text y m d \<and> n = day_number y m d" using q fy by blast
qed

lemma days_at_most: "days_in_month y m \<le> 31"
  by (simp add: days_in_month_def)

lemma parse_iso_text: "four_digit_year y \<Longrightarrow> real_date y m d \<Longrightarrow> parse_day (iso_text y m d) = Some (day_number y m d)"
  by (rule parse_day_iff [THEN iffD2], rule exI [of _ y], rule exI [of _ m], rule exI [of _ d])
    (use days_at_most [of y m] in \<open>simp add: real_date_def\<close>)

section \<open>The order of the texts\<close>

lemma str_less_append:
  "length a = length b \<Longrightarrow> str_less (a @ x) (b @ y) \<longleftrightarrow> str_less a b \<or> (a = b \<and> str_less x y)"
  by (induction a b rule: list_induct2) auto

lemma read_nat_Cons: "read_nat (c # s) = (of_char c - 48) * 10 ^ length s + read_nat s"
proof (induction s rule: rev_induct)
  case Nil
  then show ?case by (simp add: read_nat_def)
next
  case (snoc d s)
  then show ?case unfolding append_Cons [symmetric] read_nat_snoc by (simp add: algebra_simps)
qed

lemma lead_less:
  fixes a b p x y :: nat
  assumes "x < p" and "y < p"
  shows "a * p + x < b * p + y \<longleftrightarrow> a < b \<or> (a = b \<and> x < y)"
proof (cases a b rule: linorder_cases)
  case less
  then have "a * p + p \<le> b * p" by (metis Suc_leI mult_Suc mult_le_mono1 add.commute)
  then show ?thesis using less assms by linarith
next
  case greater
  then have "b * p + p \<le> a * p" by (metis Suc_leI mult_Suc mult_le_mono1 add.commute)
  then show ?thesis using greater assms by linarith
qed simp

lemma str_less_digits:
  "length a = length b \<Longrightarrow> list_all is_digit a \<Longrightarrow> list_all is_digit b \<Longrightarrow> str_less a b \<longleftrightarrow> read_nat a < read_nat b"
proof (induction a b rule: list_induct2)
  case (Cons c cs d ds)
  have "str_less (c # cs) (d # ds) \<longleftrightarrow> (of_char c :: nat) - 48 < of_char d - 48 \<or> (of_char c - 48 = (of_char d :: nat) - 48 \<and> read_nat cs < read_nat ds)"
    using Cons digit_inject [of c d] by (auto simp: is_digit_def)
  also have "\<dots> \<longleftrightarrow> read_nat (c # cs) < read_nat (d # ds)"
    using lead_less [of "read_nat cs" "10 ^ length cs" "read_nat ds"] read_nat_bound [of cs] read_nat_bound [of ds] Cons by (simp add: read_nat_Cons)
  finally show ?case .
qed simp

lemma zero_padded_less:
  assumes "0 < w" and "m < 10 ^ w" and "n < 10 ^ w"
  shows "str_less (zero_padded w m @ x) (zero_padded w n @ y) \<longleftrightarrow> m < n \<or> (m = n \<and> str_less x y)"
  using assms str_less_append [of "zero_padded w m" "zero_padded w n" x y] str_less_digits [of "zero_padded w m" "zero_padded w n"]
  by (metis length_zero_padded zero_padded_facts)

lemma iso_text_less:
  assumes "four_digit_year y" and "four_digit_year y'" and "real_date y m d" and "real_date y' m' d'"
  shows "str_less (iso_text y m d) (iso_text y' m' d') \<longleftrightarrow> y < y' \<or> (y = y' \<and> (m < m' \<or> (m = m' \<and> d < d')))"
proof -
  have "d \<le> 31" "d' \<le> 31" using assms(3,4) days_at_most [of y m] days_at_most [of y' m'] by (simp_all add: real_date_def)
  then show ?thesis
    using assms zero_padded_less [of 2 "nat d" "nat d'" "[]" "[]"]
    by (auto simp: iso_text_def zero_padded_less four_digit_year_def real_date_def)
qed

lemma day_number_less:
  assumes "real_date y m d" and "real_date y' m' d'"
  shows "day_number y m d < day_number y' m' d' \<longleftrightarrow> y < y' \<or> (y = y' \<and> (m < m' \<or> (m = m' \<and> d < d')))"
proof -
  have up: "day_number y m d < day_number y' m' d'" if r: "real_date y m d" "real_date y' m' d'" and l: "y < y' \<or> (y = y' \<and> (m < m' \<or> (m = m' \<and> d < d')))"
    for y m d y' m' d'
  proof -
    note k = month_of_day [OF r(1)] month_of_day [OF r(2)]
    have years: "y < y' \<Longrightarrow> DayFromYear (y + 1) \<le> DayFromYear y'" by (rule DayFromYear_mono) simp
    have months: "m < m' \<Longrightarrow> month_start y m + days_in_month y m \<le> month_start y m'"
      using month_start_mono [of "m + 1" m' y] month_length [of m y] r by (simp add: real_date_def)
    show ?thesis using l years months k r by (auto simp: day_number_def DayFromYear_Suc real_date_def split: if_splits)
  qed
  show ?thesis using up [OF assms] up [OF assms(2,1)]
    by (cases y y' rule: linorder_cases; cases m m' rule: linorder_cases; cases d d' rule: linorder_cases) auto
qed

section \<open>Real dates as texts\<close>

text \<open>The texts of the dates of the calendar, with the number of the day.\<close>

definition iso_day :: "string \<Rightarrow> int \<Rightarrow> bool" where
  "iso_day s n \<longleftrightarrow> (\<exists>y m d. four_digit_year y \<and> real_date y m d \<and> s = iso_text y m d \<and> n = day_number y m d)"

lemma iso_day_parse: "iso_day s n \<Longrightarrow> parse_day s = Some n"
  by (auto simp: iso_day_def parse_iso_text)

lemma iso_day_unique: "iso_day s n \<Longrightarrow> iso_day s k \<Longrightarrow> n = k"
  using iso_day_parse [of s n] iso_day_parse [of s k] by simp

lemma div_day: "0 \<le> r \<Longrightarrow> r < DAY_MS \<Longrightarrow> (n * DAY_MS + r) div DAY_MS = n"
  by (simp add: DAY_MS_def)

lemma iso_day_print: "iso_day s n \<Longrightarrow> t div DAY_MS = n \<Longrightarrow> toDateString t = s"
  by (auto simp: iso_day_def date_of_number intro: toDateString_date)

lemma printed_iso_day: "four_digit_year (year_of (t div DAY_MS)) \<Longrightarrow> iso_day (toDateString t) (t div DAY_MS)"
proof -
  assume r: "four_digit_year (year_of (t div DAY_MS))"
  obtain y m d where d: "date_of (t div DAY_MS) = (y, m, d)" by (cases "date_of (t div DAY_MS)") auto
  then have "y = year_of (t div DAY_MS)" by (simp add: date_of_def Let_def)
  then show "iso_day (toDateString t) (t div DAY_MS)"
    using r toDateString_date [OF d] date_of_real [OF d] unfolding iso_day_def by metis
qed

lemma iso_day_year: "iso_day s n \<Longrightarrow> four_digit_year (year_of n)"
  using date_of_number by (fastforce simp: iso_day_def date_of_def Let_def)

lemma iso_day_less: "iso_day s n \<Longrightarrow> iso_day t k \<Longrightarrow> str_less s t \<longleftrightarrow> n < k"
  unfolding iso_day_def by (elim exE conjE) (simp add: iso_text_less day_number_less)

lemma iso_day_inject: "iso_day s n \<Longrightarrow> iso_day t n \<Longrightarrow> s = t"
  using iso_day_print [of s n "n * DAY_MS"] iso_day_print [of t n "n * DAY_MS"] div_day [of 0 n] by (simp add: DAY_MS_def)

end
