(* ===== verification/Settlement_Format.thy ===== *)
theory Settlement_Format
  imports Settlement_Match Calendar Csv_Reader
begin

text \<open>
  \<open>accountsModule/tenderSettlement/settlement-format.ts\<close>: a provider's statement, read from CSV with a map of its columns into
  lines, its amounts and dates, and the lines split into payouts. Texts are UTF-16; \<open>lower\<close> is \<open>toLowerCase\<close>; \<open>newDecimal\<close>,
  the decimal package's constructor on a text of digits, gives the sign and the value (zero has a sign too).
\<close>

section \<open>The format\<close>

datatype settlement_source = SRC_CARD | SRC_UPI | SRC_WALLET | SRC_BANK

datatype column_key = COL_gross | COL_txnOn | COL_kind | COL_terminalId | COL_vpa | COL_refNo | COL_authCode | COL_cardLast4 |
  COL_payer | COL_fee | COL_tax | COL_net | COL_payoutRef | COL_payoutDate

definition COLUMN_KEYS :: "column_key list" where
  "COLUMN_KEYS = [COL_gross, COL_txnOn, COL_kind, COL_terminalId, COL_vpa, COL_refNo, COL_authCode, COL_cardLast4, COL_payer,
     COL_fee, COL_tax, COL_net, COL_payoutRef, COL_payoutDate]"

record statement_format =
  sf_source :: settlement_source
  sf_provider :: text16
  sf_columns :: "column_key \<Rightarrow> text16 option"
  sf_kindMap :: "(line_kind \<times> text16 list) list option"
  sf_dateFormat :: "text16 option"
  sf_negativeIsRefund :: "bool option"

definition IST_OFFSET_MS :: int where
  "IST_OFFSET_MS = 330 * 60000"

record stmt_line =
  sl_lineNo :: nat
  sl_kind :: line_kind
  sl_txnOn :: "int option"
  sl_terminalId :: "text16 option"
  sl_vpa :: "text16 option"
  sl_refNo :: "text16 option"
  sl_authCode :: "text16 option"
  sl_cardLast4 :: "text16 option"
  sl_payer :: "text16 option"
  sl_gross :: rat
  sl_fee :: rat
  sl_tax :: rat
  sl_net :: rat
  sl_payoutRef :: "text16 option"
  sl_payoutDate :: "string option"
  sl_raw :: "(text16 \<times> text16) list"

text \<open>What is wrong with a row; the text of the message is left out.\<close>

datatype stmt_error = No_column column_key | Bad_gross | Bad_kind | Bad_fee | Bad_tax | Bad_net | Bad_txnOn | Bad_payoutDate | Bad_cardLast4

section \<open>Amounts\<close>

definition digit16 :: "code \<Rightarrow> bool" where
  "digit16 c \<longleftrightarrow> 0x30 \<le> c \<and> c \<le> 0x39"

text \<open>A letter, in either case.\<close>

definition letter_is :: "code \<Rightarrow> code \<Rightarrow> bool" where
  "letter_is l c \<longleftrightarrow> c = l \<or> c = l - 0x20"

text \<open>\<open>replace(/\u20B9|rs\.?|inr/gi, '')\<close>: the rupee sign, \<open>rs\<close> with or without a full stop, \<open>inr\<close>.\<close>

fun strip_currency :: "text16 \<Rightarrow> text16" where
  "strip_currency [] = []"
| "strip_currency (c # cs) =
     (if c = 0x20B9 then strip_currency cs
      else case cs of
          d # ds \<Rightarrow>
            (if letter_is 0x72 c \<and> letter_is 0x73 d then (case ds of e # es \<Rightarrow> strip_currency (if e = 0x2E then es else ds) | [] \<Rightarrow> [])
             else case ds of
                 e # es \<Rightarrow> (if letter_is 0x69 c \<and> letter_is 0x6E d \<and> letter_is 0x72 e then strip_currency es else c # strip_currency cs)
               | [] \<Rightarrow> c # strip_currency cs)
        | [] \<Rightarrow> [c])"

text \<open>\<open>/^[-+]?\d+(\.\d+)?$/\<close>.\<close>

definition unsigned_amount :: "text16 \<Rightarrow> bool" where
  "unsigned_amount s \<longleftrightarrow> (let whole = takeWhile digit16 s; rest = dropWhile digit16 s
     in whole \<noteq> [] \<and> (case rest of [] \<Rightarrow> True | c # f \<Rightarrow> c = 0x2E \<and> f \<noteq> [] \<and> list_all digit16 f))"

definition amount_shape :: "text16 \<Rightarrow> bool" where
  "amount_shape s \<longleftrightarrow> unsigned_amount (case s of c # cs \<Rightarrow> (if c = 0x2D \<or> c = 0x2B then cs else s) | [] \<Rightarrow> s)"

text \<open>Brackets: \<open>/^\(.*\)$/\<close> and the text between them.\<close>

definition bracketed :: "text16 \<Rightarrow> bool" where
  "bracketed s \<longleftrightarrow> 2 \<le> length s \<and> hd s = 0x28 \<and> last s = 0x29"

text \<open>\<open>/(cr|dr)$/i\<close>: \<open>Some True\<close> for a debit.\<close>

definition amount_side :: "text16 \<Rightarrow> bool option" where
  "amount_side s = (case rev s of r # k # _ \<Rightarrow>
       (if letter_is 0x72 r \<and> letter_is 0x63 k then Some False else if letter_is 0x72 r \<and> letter_is 0x64 k then Some True else None)
     | _ \<Rightarrow> None)"

definition parseAmount :: "(text16 \<Rightarrow> bool \<times> rat) \<Rightarrow> text16 option \<Rightarrow> (bool \<times> rat) option" where
  "parseAmount newDecimal value = (case value of None \<Rightarrow> None
     | Some v \<Rightarrow>
         (let token1 = filter (\<lambda>c. c \<noteq> COMMA \<and> \<not> white c) (strip_currency v);
              token2 = (if bracketed token1 then butlast (tl token1) else token1);
              side = amount_side token2;
              negative = bracketed token1 \<or> side = Some True;
              token3 = (if side = None then token2 else take (length token2 - 2) token2)
          in if \<not> amount_shape token3 then None
             else case newDecimal token3 of (neg, x) \<Rightarrow> Some (if negative then (\<not> neg, - x) else (neg, x))))"

section \<open>Dates\<close>

definition read16 :: "text16 \<Rightarrow> int" where
  "read16 s = foldl (\<lambda>n c. 10 * n + (uint c - 48)) 0 s"

record date_parts =
  dp_y :: "int option"
  dp_m :: "int option"
  dp_d :: "int option"
  dp_hh :: "int option"
  dp_mi :: "int option"
  dp_ss :: "int option"

text \<open>The tokens of a pattern; a letter that is none stands for itself.\<close>

datatype fmt_token = T_YYYY | T_YY | T_MM | T_M | T_DD | T_D | T_HH | T_mm | T_ss | T_sep | T_char code

definition letter16 :: "code \<Rightarrow> bool" where
  "letter16 c \<longleftrightarrow> 0x41 \<le> c \<and> c \<le> 0x5A \<or> 0x61 \<le> c \<and> c \<le> 0x7A"

function (sequential) format_tokens :: "text16 \<Rightarrow> fmt_token list" where
  "format_tokens [] = []"
| "format_tokens (c # cs) =
     (if c = 0x59 \<and> take 3 cs = [0x59, 0x59, 0x59] then T_YYYY # format_tokens (drop 3 cs)
      else if c = 0x59 \<and> take 1 cs = [0x59] then T_YY # format_tokens (drop 1 cs)
      else if c = 0x4D \<and> take 1 cs = [0x4D] then T_MM # format_tokens (drop 1 cs)
      else if c = 0x4D then T_M # format_tokens cs
      else if c = 0x44 \<and> take 1 cs = [0x44] then T_DD # format_tokens (drop 1 cs)
      else if c = 0x44 then T_D # format_tokens cs
      else if c = 0x48 \<and> take 1 cs = [0x48] then T_HH # format_tokens (drop 1 cs)
      else if c = 0x6D \<and> take 1 cs = [0x6D] then T_mm # format_tokens (drop 1 cs)
      else if c = 0x73 \<and> take 1 cs = [0x73] then T_ss # format_tokens (drop 1 cs)
      else if letter16 c then T_char c # format_tokens cs
      else T_sep # format_tokens (dropWhile (\<lambda>d. \<not> letter16 d) cs))"
  by pat_completeness auto
termination
  by (relation "measure length") (auto intro: le_imp_less_Suc length_dropWhile_le)

text \<open>What a token matches: the characters, the least and the greatest number of them, and whether they are captured.\<close>

definition token_class :: "fmt_token \<Rightarrow> code \<Rightarrow> bool" where
  "token_class t c = (case t of T_sep \<Rightarrow> \<not> digit16 c | T_char l \<Rightarrow> c = l | _ \<Rightarrow> digit16 c)"

definition token_least :: "fmt_token \<Rightarrow> nat" where
  "token_least t = (case t of T_YYYY \<Rightarrow> 4 | T_M \<Rightarrow> 1 | T_D \<Rightarrow> 1 | T_sep \<Rightarrow> 1 | T_char _ \<Rightarrow> 1 | _ \<Rightarrow> 2)"

definition token_most :: "fmt_token \<Rightarrow> nat option" where
  "token_most t = (case t of T_YYYY \<Rightarrow> Some 4 | T_sep \<Rightarrow> None | T_char _ \<Rightarrow> Some 1 | _ \<Rightarrow> Some 2)"

definition token_captures :: "fmt_token \<Rightarrow> bool" where
  "token_captures t = (case t of T_sep \<Rightarrow> False | T_char _ \<Rightarrow> False | _ \<Rightarrow> True)"

text \<open>The regular expression on the whole text: greedy, with backtracking.\<close>

fun first_some :: "('a \<Rightarrow> 'b option) \<Rightarrow> 'a list \<Rightarrow> 'b option" where
  "first_some f [] = None"
| "first_some f (x # xs) = (case f x of None \<Rightarrow> first_some f xs | Some y \<Rightarrow> Some y)"

definition token_lengths :: "fmt_token \<Rightarrow> text16 \<Rightarrow> nat list" where
  "token_lengths t s = (let run = length (takeWhile (token_class t) s); most = (case token_most t of None \<Rightarrow> run | Some k \<Rightarrow> min k run)
     in rev [token_least t..<Suc most])"

primrec match_tokens :: "fmt_token list \<Rightarrow> text16 \<Rightarrow> (fmt_token \<times> int) list option" where
  "match_tokens [] s = (if s = [] then Some [] else None)"
| "match_tokens (t # ts) s = first_some (\<lambda>k. map_option (\<lambda>got. (if token_captures t then [(t, read16 (take k s))] else []) @ got)
     (match_tokens ts (drop k s))) (token_lengths t s)"

text \<open>\<open>got[token]\<close>, where a later capture replaces an earlier one.\<close>

definition got :: "(fmt_token \<times> int) list \<Rightarrow> fmt_token \<Rightarrow> int option" where
  "got captures t = map_of (rev captures) t"

definition readWithPattern :: "text16 \<Rightarrow> text16 \<Rightarrow> date_parts option" where
  "readWithPattern text format = map_option (\<lambda>cs.
     \<lparr> dp_y = or_maybe (got cs T_YYYY) (map_option (\<lambda>n. 2000 + n) (got cs T_YY)),
       dp_m = or_maybe (got cs T_MM) (got cs T_M), dp_d = or_maybe (got cs T_DD) (got cs T_D),
       dp_hh = Some (or_else (got cs T_HH) 0), dp_mi = Some (or_else (got cs T_mm) 0), dp_ss = Some (or_else (got cs T_ss) 0) \<rparr>)
     (match_tokens (format_tokens format) text)"

text \<open>\<open>/^(\d{4})-(\d{2})-(\d{2})(?:[T ](\d{2}):(\d{2})(?::(\d{2}))?)?$/\<close>: the piece of a length at a place, of digits.\<close>

definition digits_at :: "nat \<Rightarrow> nat \<Rightarrow> text16 \<Rightarrow> int option" where
  "digits_at i k s = (if length (take k (drop i s)) = k \<and> list_all digit16 (take k (drop i s)) then Some (read16 (take k (drop i s))) else None)"

definition code_at :: "nat \<Rightarrow> code list \<Rightarrow> text16 \<Rightarrow> bool" where
  "code_at i cs s \<longleftrightarrow> i < length s \<and> s ! i \<in> set cs"

definition iso_date_shape :: "text16 \<Rightarrow> bool" where
  "iso_date_shape s \<longleftrightarrow> digits_at 0 4 s \<noteq> None \<and> code_at 4 [0x2D] s \<and> digits_at 5 2 s \<noteq> None \<and> code_at 7 [0x2D] s \<and> digits_at 8 2 s \<noteq> None"

definition iso_minutes_shape :: "text16 \<Rightarrow> bool" where
  "iso_minutes_shape s \<longleftrightarrow> code_at 10 [0x54, 0x20] s \<and> digits_at 11 2 s \<noteq> None \<and> code_at 13 [0x3A] s \<and> digits_at 14 2 s \<noteq> None"

definition iso_seconds_shape :: "text16 \<Rightarrow> bool" where
  "iso_seconds_shape s \<longleftrightarrow> code_at 16 [0x3A] s \<and> digits_at 17 2 s \<noteq> None"

definition read_iso :: "text16 \<Rightarrow> date_parts option" where
  "read_iso s =
     (if iso_date_shape s \<and> (length s = 10 \<or> iso_minutes_shape s \<and> (length s = 16 \<or> iso_seconds_shape s \<and> length s = 19))
      then Some \<lparr> dp_y = digits_at 0 4 s, dp_m = digits_at 5 2 s, dp_d = digits_at 8 2 s,
          dp_hh = Some (or_else (digits_at 11 2 s) 0), dp_mi = Some (or_else (digits_at 14 2 s) 0), dp_ss = Some (or_else (digits_at 17 2 s) 0) \<rparr>
      else None)"

text \<open>\<open>Date.UTC\<close>, with the years 0 to 99 read as 1900 to 1999, and the day of a time in India.\<close>

definition Date_UTC :: "int \<Rightarrow> int \<Rightarrow> int \<Rightarrow> int \<Rightarrow> int \<Rightarrow> int \<Rightarrow> int" where
  "Date_UTC y m d hh mi ss = day_number (if 0 \<le> y \<and> y \<le> 99 then 1900 + y else y) m d * DAY_MS + hh * 3600000 + mi * 60000 + ss * 1000"

definition istDate :: "int \<Rightarrow> string" where
  "istDate t = toDateString (t + IST_OFFSET_MS)"

definition pad2 :: "int \<Rightarrow> string" where
  "pad2 n = (let s = show_int n in replicate (2 - length s) (CHR ''0'') @ s)"

definition date_of_parts :: "date_parts \<Rightarrow> int option" where
  "date_of_parts p = (case (dp_y p, dp_m p, dp_d p, dp_hh p, dp_mi p, dp_ss p) of
     (Some y, Some m, Some d, Some hh, Some mi, Some ss) \<Rightarrow>
       (if m < 1 \<or> m > 12 \<or> d < 1 \<or> d > 31 then None
        else if hh > 23 \<or> mi > 59 \<or> ss > 59 then None
        else let date = Date_UTC y m d hh mi ss - IST_OFFSET_MS
             in if istDate date = show_int y @ ''-'' @ pad2 m @ ''-'' @ pad2 d then Some date else None)
   | _ \<Rightarrow> None)"

definition read_parts :: "text16 \<Rightarrow> text16 option \<Rightarrow> date_parts option" where
  "read_parts text format = (case format of
     Some f \<Rightarrow> (if f = [] then read_iso text
       else let datePart = takeWhile (\<lambda>c. \<not> white c) f
            in or_maybe (readWithPattern text f) (if datePart \<noteq> f then readWithPattern text datePart else None))
   | None \<Rightarrow> read_iso text)"

definition parseDateTime :: "text16 \<Rightarrow> text16 option \<Rightarrow> int option" where
  "parseDateTime value format = (case read_parts (trim16 value) format of None \<Rightarrow> None | Some p \<Rightarrow> date_of_parts p)"

section \<open>A row\<close>

definition col :: "(text16 \<Rightarrow> text16) \<Rightarrow> statement_format \<Rightarrow> column_key \<Rightarrow> text16 option" where
  "col lower format key = (case sf_columns format key of None \<Rightarrow> None
     | Some h \<Rightarrow> (if h = [] \<or> lower (trim16 h) = [] then None else Some (lower (trim16 h))))"

definition cell :: "(text16 \<Rightarrow> text16) \<Rightarrow> statement_format \<Rightarrow> (text16 \<times> text16) list \<Rightarrow> column_key \<Rightarrow> text16 option" where
  "cell lower format cells key = (case col lower format key of None \<Rightarrow> None
     | Some header \<Rightarrow> (let value = trim16 (or_else (jmap_get cells header) []) in if value = [] then None else Some value))"

definition kindOf :: "(text16 \<Rightarrow> text16) \<Rightarrow> text16 option \<Rightarrow> (line_kind \<times> text16 list) list \<Rightarrow> line_kind option" where
  "kindOf lower value kindMap = (case value of None \<Rightarrow> None
     | Some v \<Rightarrow> (if v = [] then None
         else map_option fst (find (\<lambda>(kind, ws). list_ex (\<lambda>w. lower w = lower (trim16 v)) ws) kindMap)))"

definition trimTo :: "text16 option \<Rightarrow> nat \<Rightarrow> text16 option" where
  "trimTo value most = map_option (take most) value"

definition money2 :: "decimal_js \<Rightarrow> rat \<Rightarrow> rat" where
  "money2 J x = d_toDP J x 2 ROUND_HALF_UP"

definition last4_of :: "text16 \<Rightarrow> text16 option" where
  "last4_of s = (let ds = filter digit16 s; l = drop (length ds - 4) ds in if l = [] then None else Some l)"

text \<open>The line of a row, or what is wrong with it.\<close>

definition read_amount :: "(text16 \<Rightarrow> bool \<times> rat) \<Rightarrow> text16 option \<Rightarrow> stmt_error \<Rightarrow> stmt_error + rat" where
  "read_amount newDecimal value e = (case parseAmount newDecimal value of
     Some (_, x) \<Rightarrow> Inr x | None \<Rightarrow> (if value \<noteq> None then Inl e else Inr 0))"

definition read_kind :: "(text16 \<Rightarrow> text16) \<Rightarrow> statement_format \<Rightarrow> text16 option \<Rightarrow> bool \<Rightarrow> stmt_error + line_kind" where
  "read_kind lower format value negative =
     (if col lower format COL_kind \<noteq> None
      then (case kindOf lower value (or_else (sf_kindMap format) []) of None \<Rightarrow> Inl Bad_kind | Some k \<Rightarrow> Inr k)
      else Inr (if negative \<and> sf_negativeIsRefund format \<noteq> Some False then REFUND else SALE))"

definition net_agrees :: "decimal_js \<Rightarrow> (text16 \<Rightarrow> bool \<times> rat) \<Rightarrow> text16 option \<Rightarrow> rat \<Rightarrow> bool" where
  "net_agrees J newDecimal value net = (case value of None \<Rightarrow> True
     | Some v \<Rightarrow> (case parseAmount newDecimal (Some v) of None \<Rightarrow> False
         | Some (_, stated) \<Rightarrow> \<bar>d_minus J \<bar>stated\<bar> \<bar>net\<bar>\<bar> < 5 / 1000))"

definition read_date :: "text16 option \<Rightarrow> text16 option \<Rightarrow> stmt_error \<Rightarrow> stmt_error + int option" where
  "read_date value format e = (case value of None \<Rightarrow> Inr None
     | Some v \<Rightarrow> (case parseDateTime v format of None \<Rightarrow> Inl e | Some t \<Rightarrow> Inr (Some t)))"

definition read_last4 :: "text16 option \<Rightarrow> stmt_error + text16 option" where
  "read_last4 value = (case value of None \<Rightarrow> Inr None
     | Some v \<Rightarrow> (case last4_of v of None \<Rightarrow> Inl Bad_cardLast4 | Some l \<Rightarrow> (if length l \<noteq> 4 then Inl Bad_cardLast4 else Inr (Some l))))"

definition read_row :: "decimal_js \<Rightarrow> (text16 \<Rightarrow> bool \<times> rat) \<Rightarrow> (text16 \<Rightarrow> text16) \<Rightarrow> statement_format \<Rightarrow> csv_row \<Rightarrow> stmt_error + stmt_line" where
  "read_row J newDecimal lower format row =
     (let c = cell lower format (cw_cells row) in
      case parseAmount newDecimal (c COL_gross) of None \<Rightarrow> Inl Bad_gross
      | Some (neg, grossRaw) \<Rightarrow>
        e_bind (read_kind lower format (c COL_kind) neg) (\<lambda>kind.
        e_bind (read_amount newDecimal (c COL_fee) Bad_fee) (\<lambda>fee.
        e_bind (read_amount newDecimal (c COL_tax) Bad_tax) (\<lambda>tax.
        let gross = \<bar>grossRaw\<bar>; feeAbs = \<bar>fee\<bar>; taxAbs = \<bar>tax\<bar>; net = d_minus J (d_minus J gross feeAbs) taxAbs in
        e_bind (throw_if (\<not> net_agrees J newDecimal (c COL_net) net) Bad_net) (\<lambda>_.
        e_bind (read_date (c COL_txnOn) (sf_dateFormat format) Bad_txnOn) (\<lambda>txnOn.
        e_bind (read_date (c COL_payoutDate) (sf_dateFormat format) Bad_payoutDate) (\<lambda>payoutOn.
        e_bind (read_last4 (c COL_cardLast4)) (\<lambda>last4.
        Inr \<lparr> sl_lineNo = cw_lineNo row, sl_kind = kind, sl_txnOn = txnOn,
          sl_terminalId = trimTo (c COL_terminalId) 40, sl_vpa = trimTo (c COL_vpa) 100, sl_refNo = trimTo (c COL_refNo) 60,
          sl_authCode = trimTo (c COL_authCode) 20, sl_cardLast4 = last4, sl_payer = trimTo (c COL_payer) 150,
          sl_gross = money2 J gross, sl_fee = money2 J feeAbs, sl_tax = money2 J taxAbs,
          sl_net = d_minus J (d_minus J (money2 J gross) (money2 J feeAbs)) (money2 J taxAbs),
          sl_payoutRef = trimTo (c COL_payoutRef) 60, sl_payoutDate = map_option istDate payoutOn, sl_raw = cw_cells row \<rparr>))))))))"

section \<open>The statement\<close>

type_synonym stmt_problem = "nat \<times> stmt_error"

definition missing_columns :: "(text16 \<Rightarrow> text16) \<Rightarrow> statement_format \<Rightarrow> text16 list \<Rightarrow> stmt_problem list" where
  "missing_columns lower format headers = map (\<lambda>key. (1, No_column key))
     (filter (\<lambda>key. case col lower format key of None \<Rightarrow> False | Some header \<Rightarrow> header \<notin> set headers) COLUMN_KEYS)"

definition row_step :: "decimal_js \<Rightarrow> (text16 \<Rightarrow> bool \<times> rat) \<Rightarrow> (text16 \<Rightarrow> text16) \<Rightarrow> statement_format \<Rightarrow> csv_row \<Rightarrow>
    stmt_line list \<times> stmt_problem list \<Rightarrow> stmt_line list \<times> stmt_problem list" where
  "row_step J newDecimal lower format row st = (case read_row J newDecimal lower format row of
     Inl e \<Rightarrow> (fst st, snd st @ [(cw_lineNo row, e)]) | Inr l \<Rightarrow> (fst st @ [l], snd st))"

definition parseStatementCsv :: "decimal_js \<Rightarrow> (text16 \<Rightarrow> bool \<times> rat) \<Rightarrow> (text16 \<Rightarrow> text16) \<Rightarrow> text16 \<Rightarrow> statement_format \<Rightarrow> stmt_line list \<times> stmt_problem list" where
  "parseStatementCsv J newDecimal lower text format =
     (let table = readCsvTable lower text; problems = missing_columns lower format (ct_headers table)
      in if problems \<noteq> [] then ([], problems) else fold (row_step J newDecimal lower format) (ct_rows table) ([], []))"

section \<open>Payouts\<close>

record payout_group =
  pg_payoutRef :: "text16 option"
  pg_payoutDate :: "string option"
  pg_lines :: "stmt_line list"

record payout_fallback =
  pf_payoutRef :: "text16 option"
  pf_payoutDate :: "string option"

definition truthy16 :: "'a list option \<Rightarrow> bool" where
  "truthy16 v \<longleftrightarrow> v \<noteq> None \<and> v \<noteq> Some []"

definition line_ref :: "payout_fallback \<Rightarrow> stmt_line \<Rightarrow> text16 option" where
  "line_ref fb l = or_maybe (sl_payoutRef l) (pf_payoutRef fb)"

definition line_date :: "payout_fallback \<Rightarrow> stmt_line \<Rightarrow> string option" where
  "line_date fb l = or_maybe (sl_payoutDate l) (pf_payoutDate fb)"

definition BAR :: code where
  "BAR = 0x7C"

definition payout_key :: "payout_fallback \<Rightarrow> stmt_line \<Rightarrow> text16" where
  "payout_key fb l = or_else (line_ref fb l) [] @ BAR # (if truthy16 (line_ref fb l) then [] else ascii16 (or_else (line_date fb l) []))"

definition later_date :: "string option \<Rightarrow> string option \<Rightarrow> string option" where
  "later_date old new = (if truthy16 new \<and> (\<not> truthy16 old \<or> str_less (the old) (the new)) then new else old)"

definition group_step :: "payout_fallback \<Rightarrow> (text16 \<times> payout_group) list \<Rightarrow> stmt_line \<Rightarrow> (text16 \<times> payout_group) list" where
  "group_step fb groups l =
     (let g = or_else (jmap_get groups (payout_key fb l)) \<lparr> pg_payoutRef = line_ref fb l, pg_payoutDate = line_date fb l, pg_lines = [] \<rparr>
      in jmap_set (payout_key fb l) (g\<lparr> pg_payoutDate := later_date (pg_payoutDate g) (line_date fb l), pg_lines := pg_lines g @ [l] \<rparr>) groups)"

definition groupByPayout :: "payout_fallback \<Rightarrow> stmt_line list \<Rightarrow> payout_group list" where
  "groupByPayout fb lines = map snd (foldl (group_step fb) [] lines)"

end
