(* ===== verification/Settlement_Dates.thy ===== *)
theory Settlement_Dates
  imports Settlement_Format
begin

text \<open>
  The dates of a statement: a text spelled by a pattern is matched piece by piece, and gives its instant when it is a real
  date and time, and nothing otherwise.
\<close>

section \<open>Matching a text that is spelled\<close>

definition fits :: "fmt_token \<Rightarrow> text16 \<Rightarrow> bool" where
  "fits t s \<longleftrightarrow> list_all (token_class t) s \<and> token_least t \<le> length s \<and> (case token_most t of None \<Rightarrow> True | Some k \<Rightarrow> length s \<le> k)"

text \<open>Where a token ends: it has one width, or what follows is not of its class.\<close>

definition ends_at :: "fmt_token \<Rightarrow> text16 \<Rightarrow> bool" where
  "ends_at t rest \<longleftrightarrow> token_most t = Some (token_least t) \<or> rest = [] \<or> \<not> token_class t (hd rest)"

fun spelled :: "(fmt_token \<times> text16) list \<Rightarrow> bool" where
  "spelled [] = True"
| "spelled ((t, s) # ps) = (fits t s \<and> ends_at t (concat (map snd ps)) \<and> spelled ps)"

definition captures :: "(fmt_token \<times> text16) list \<Rightarrow> (fmt_token \<times> int) list" where
  "captures ps = map (\<lambda>(t, s). (t, read16 s)) (filter (\<lambda>p. token_captures (fst p)) ps)"

lemma token_least_pos: "0 < token_least t"
  by (cases t) (auto simp: token_least_def)

lemma run_length:
  assumes "list_all (token_class t) s"
  shows "length (takeWhile (token_class t) (s @ rest)) = length s + length (takeWhile (token_class t) rest)"
  using assms by (induction s) auto

lemma token_lengths_first:
  assumes "fits t s" and "ends_at t rest"
  shows "\<exists>ks. token_lengths t (s @ rest) = length s # ks"
proof -
  let ?run = "length s + length (takeWhile (token_class t) rest)"
  have r: "length (takeWhile (token_class t) (s @ rest)) = ?run" using assms(1) by (intro run_length) (simp add: fits_def)
  have most: "(case token_most t of None \<Rightarrow> ?run | Some k \<Rightarrow> min k ?run) = length s"
    using assms by (cases rest) (auto simp: fits_def ends_at_def split: option.splits)
  have "token_least t \<le> length s" using assms(1) by (simp add: fits_def)
  then have "rev [token_least t..<Suc (length s)] = length s # rev [token_least t..<length s]" by simp
  then show ?thesis unfolding token_lengths_def r Let_def most by blast
qed

lemma match_spelled: "spelled ps \<Longrightarrow> match_tokens (map fst ps) (concat (map snd ps)) = Some (captures ps)"
proof (induction ps rule: spelled.induct)
  case (2 t s ps)
  then obtain ks where "token_lengths t (s @ concat (map snd ps)) = length s # ks" using token_lengths_first by fastforce
  then show ?case using 2 by (auto simp: captures_def)
qed (simp add: captures_def)

section \<open>What the captures say\<close>

text \<open>A date and time as the numbers of year, month, day, hour, minute and second.\<close>

type_synonym moment = "int \<times> int \<times> int \<times> int \<times> int \<times> int"

fun says :: "moment \<Rightarrow> fmt_token \<Rightarrow> int \<Rightarrow> bool" where
  "says (y, m, d, hh, mi, ss) t n = (case t of T_YYYY \<Rightarrow> n = y | T_YY \<Rightarrow> 2000 + n = y | T_MM \<Rightarrow> n = m | T_M \<Rightarrow> n = m | T_DD \<Rightarrow> n = d | T_D \<Rightarrow> n = d
     | T_HH \<Rightarrow> n = hh | T_mm \<Rightarrow> n = mi | T_ss \<Rightarrow> n = ss | _ \<Rightarrow> True)"

text \<open>The pattern has the date; a time it leaves out is midnight.\<close>

fun tells :: "fmt_token list \<Rightarrow> moment \<Rightarrow> bool" where
  "tells ts (y, m, d, hh, mi, ss) \<longleftrightarrow> (T_YYYY \<in> set ts \<or> T_YY \<in> set ts) \<and> (T_MM \<in> set ts \<or> T_M \<in> set ts) \<and> (T_DD \<in> set ts \<or> T_D \<in> set ts) \<and>
     (T_HH \<in> set ts \<or> hh = 0) \<and> (T_mm \<in> set ts \<or> mi = 0) \<and> (T_ss \<in> set ts \<or> ss = 0)"

definition spells :: "(fmt_token \<times> text16) list \<Rightarrow> moment \<Rightarrow> bool" where
  "spells ps w \<longleftrightarrow> spelled ps \<and> tells (map fst ps) w \<and> (\<forall>(t, s) \<in> set ps. says w t (read16 s))"

lemma got_token:
  assumes "token_captures t"
  shows "(t \<in> set (map fst ps) \<longrightarrow> (\<exists>s. (t, s) \<in> set ps \<and> got (captures ps) t = Some (read16 s))) \<and> (t \<notin> set (map fst ps) \<longrightarrow> got (captures ps) t = None)"
proof -
  have m: "fst ` set (captures ps) = {t \<in> set (map fst ps). token_captures t}" by (force simp: captures_def)
  have "got (captures ps) t = None \<longleftrightarrow> t \<notin> fst ` set (captures ps)" by (simp add: got_def map_of_eq_None_iff)
  moreover have "got (captures ps) t = Some v \<Longrightarrow> \<exists>s. (t, s) \<in> set ps \<and> v = read16 s" for v
    by (auto simp: got_def captures_def dest!: map_of_SomeD)
  ultimately show ?thesis using m assms by (cases "got (captures ps) t") force+
qed

lemma pattern_parts:
  assumes "spells ps (y, m, d, hh, mi, ss)" and "map fst ps = format_tokens f"
  shows "readWithPattern (concat (map snd ps)) f =
    Some \<lparr> dp_y = Some y, dp_m = Some m, dp_d = Some d, dp_hh = Some hh, dp_mi = Some mi, dp_ss = Some ss \<rparr>"
proof -
  have match: "match_tokens (format_tokens f) (concat (map snd ps)) = Some (captures ps)"
    using match_spelled [of ps] assms by (simp add: spells_def)
  have cap: "token_captures t \<Longrightarrow> t \<in> set (map fst ps) \<Longrightarrow> \<exists>n. got (captures ps) t = Some n \<and> says (y, m, d, hh, mi, ss) t n"
    and none: "token_captures t \<Longrightarrow> t \<notin> set (map fst ps) \<Longrightarrow> got (captures ps) t = None" for t
    using got_token [of t ps] assms(1) unfolding spells_def by blast+
  note c = cap [of T_YYYY] cap [of T_YY] cap [of T_MM] cap [of T_M] cap [of T_DD] cap [of T_D] cap [of T_HH] cap [of T_mm] cap [of T_ss]
  note n = none [of T_YYYY] none [of T_YY] none [of T_MM] none [of T_M] none [of T_DD] none [of T_D] none [of T_HH] none [of T_mm] none [of T_ss]
  have t: "tells (map fst ps) (y, m, d, hh, mi, ss)" using assms(1) by (simp add: spells_def)
  have "or_maybe (got (captures ps) T_YYYY) (map_option (\<lambda>n. 2000 + n) (got (captures ps) T_YY)) = Some y"
    using t c(1,2) n(1) by (cases "T_YYYY \<in> set (map fst ps)") (auto simp: token_captures_def)
  moreover have "or_maybe (got (captures ps) T_MM) (got (captures ps) T_M) = Some m"
    using t c(3,4) n(3) by (cases "T_MM \<in> set (map fst ps)") (auto simp: token_captures_def)
  moreover have "or_maybe (got (captures ps) T_DD) (got (captures ps) T_D) = Some d"
    using t c(5,6) n(5) by (cases "T_DD \<in> set (map fst ps)") (auto simp: token_captures_def)
  moreover have "or_else (got (captures ps) T_HH) 0 = hh" using t c(7) n(7) by (cases "T_HH \<in> set (map fst ps)") (auto simp: token_captures_def)
  moreover have "or_else (got (captures ps) T_mm) 0 = mi" using t c(8) n(8) by (cases "T_mm \<in> set (map fst ps)") (auto simp: token_captures_def)
  moreover have "or_else (got (captures ps) T_ss) 0 = ss" using t c(9) n(9) by (cases "T_ss \<in> set (map fst ps)") (auto simp: token_captures_def)
  ultimately show ?thesis unfolding readWithPattern_def match by simp
qed

section \<open>The instant of the parts\<close>

definition instant :: "moment \<Rightarrow> int" where
  "instant w = (case w of (y, m, d, hh, mi, ss) \<Rightarrow> day_number y m d * DAY_MS + hh * 3600000 + mi * 60000 + ss * 1000 - IST_OFFSET_MS)"

definition real_moment :: "moment \<Rightarrow> bool" where
  "real_moment w \<longleftrightarrow> (case w of (y, m, d, hh, mi, ss) \<Rightarrow> 1000 \<le> y \<and> y \<le> 9999 \<and> real_date y m d \<and> 0 \<le> hh \<and> hh \<le> 23 \<and> 0 \<le> mi \<and> mi \<le> 59 \<and> 0 \<le> ss \<and> ss \<le> 59)"

lemma pad2_padded: "0 \<le> n \<Longrightarrow> pad2 n = zero_padded 2 (nat n)"
  by (simp add: pad2_def zero_padded_def show_int_def Let_def)

lemma show_year: "1000 \<le> y \<Longrightarrow> y \<le> 9999 \<Longrightarrow> show_int y = zero_padded 4 (nat y)"
proof -
  assume y: "1000 \<le> y" "y \<le> 9999"
  have "\<not> nat y < 10 ^ 3" using y by (simp add: nat_less_iff)
  then have "\<not> length (show_nat (nat y)) \<le> 3" using show_nat_length [of 3 "nat y"] by simp
  then show ?thesis using y by (simp add: show_int_def zero_padded_def)
qed

lemma short_year: "0 \<le> y \<Longrightarrow> y < 1000 \<Longrightarrow> length (show_int y) \<le> 3"
  using show_nat_length [of 3 "nat y"] by (simp add: show_int_def nat_less_iff)

lemma iso_text_inject:
  assumes "four_digit_year y" and "0 \<le> m" "m \<le> 99" "0 \<le> m'" "m' \<le> 99" "0 \<le> d" "0 \<le> d'" and "iso_text y m d = iso_text y m' d'"
  shows "m = m' \<and> d = d'"
proof -
  have "zero_padded 2 (nat m) @ ''-'' @ zero_padded 2 (nat d) = zero_padded 2 (nat m') @ ''-'' @ zero_padded 2 (nat d')"
    using assms(8) by (simp add: iso_text_def)
  then have "zero_padded 2 (nat m) = zero_padded 2 (nat m')" "zero_padded 2 (nat d) = zero_padded 2 (nat d')"
    using two_digits [of m] two_digits [of m'] assms by (simp_all add: append_eq_append_conv)
  then show ?thesis using assms zero_padded_facts(2) by (metis nat_eq_iff2 nat_0_le)
qed

lemma time_of_day:
  assumes "0 \<le> hh" "hh \<le> 23" "0 \<le> mi" "mi \<le> 59" "0 \<le> ss" "ss \<le> (59::int)"
  shows "(n * DAY_MS + hh * 3600000 + mi * 60000 + ss * 1000) div DAY_MS = n"
  using div_day [of "hh * 3600000 + mi * 60000 + ss * 1000" n] assms by (simp add: DAY_MS_def add.assoc)

lemma date_of_parts_moment:
  assumes "0 \<le> y" "y \<le> 9999" "0 \<le> m" "0 \<le> d" "0 \<le> hh" "0 \<le> mi" "0 \<le> ss"
  shows "date_of_parts \<lparr> dp_y = Some y, dp_m = Some m, dp_d = Some d, dp_hh = Some hh, dp_mi = Some mi, dp_ss = Some ss \<rparr> =
    (if real_moment (y, m, d, hh, mi, ss) then Some (instant (y, m, d, hh, mi, ss)) else None)"
proof (cases "1 \<le> m \<and> m \<le> 12 \<and> 1 \<le> d \<and> d \<le> 31 \<and> hh \<le> 23 \<and> mi \<le> 59 \<and> ss \<le> 59")
  case False
  then show ?thesis using days_at_most [of y m] by (auto simp: date_of_parts_def real_moment_def real_date_def)
next
  case True
  define Y where "Y = (if y \<le> 99 then 1900 + y else y)"
  define n where "n = day_number Y m d"
  obtain y' m' d' where e: "date_of n = (y', m', d')" by (cases "date_of n") auto
  have y': "y' = Y" using e year_of_parsed [of m d Y] True by (simp add: n_def date_of_def Let_def)
  have r': "real_date y' m' d'" "day_number y' m' d' = n" using date_of_real [OF e] by simp_all
  have fy: "four_digit_year Y" using assms by (simp add: Y_def four_digit_year_def)
  let ?T = "n * DAY_MS + hh * 3600000 + mi * 60000 + ss * 1000"
  have day: "?T div DAY_MS = n" using time_of_day True assms by simp
  have printed: "toDateString ?T = iso_text Y m' d'" using toDateString_date [of ?T] e fy by (simp add: day y')
  have utc: "Date_UTC y m d hh mi ss = ?T" using assms(1) by (simp add: Date_UTC_def n_def Y_def)
  have same: "toDateString ?T = show_int y @ ''-'' @ pad2 m @ ''-'' @ pad2 d \<longleftrightarrow> 1000 \<le> y \<and> real_date y m d"
  proof (cases "1000 \<le> y")
    case False
    have "length (pad2 m) = 2" "length (pad2 d) = 2" using pad2_padded two_digits [of m] two_digits [of d] True by simp_all
    then have "length (show_int y @ ''-'' @ pad2 m @ ''-'' @ pad2 d) < 10" using short_year [of y] False assms(1) by simp
    moreover have "length (iso_text Y m' d') = 10" using length_iso_text [OF fy] r'(1) y' by simp
    ultimately show ?thesis using printed False by auto
  next
    case big: True
    have Yy: "Y = y" using big by (simp add: Y_def)
    have typed: "show_int y @ ''-'' @ pad2 m @ ''-'' @ pad2 d = iso_text y m d" using big assms pad2_padded show_year by (simp add: iso_text_def)
    have bounds: "0 \<le> m'" "m' \<le> 99" "0 \<le> d'" using r'(1) by (simp_all add: real_date_def)
    have "iso_text y m' d' = iso_text y m d \<longleftrightarrow> real_date y m d"
    proof
      assume "iso_text y m' d' = iso_text y m d"
      then have "m' = m \<and> d' = d" using True bounds fy by (intro iso_text_inject [of y]) (auto simp: Yy)
      then show "real_date y m d" using r'(1) y' Yy by simp
    next
      assume "real_date y m d"
      then have "m' = m \<and> d' = d" using r' day_number_inject [of y' m' d' y m d] by (simp add: n_def Yy)
      then show "iso_text y m' d' = iso_text y m d" by simp
    qed
    then show ?thesis using big printed typed Yy by simp
  qed
  have off: "istDate (?T - IST_OFFSET_MS) = toDateString ?T" by (simp add: istDate_def)
  show ?thesis
  proof (cases "1000 \<le> y \<and> real_date y m d")
    case real: True
    then have "Y = y" by (simp add: Y_def)
    then show ?thesis using real True assms same off by (simp add: date_of_parts_def utc Let_def real_moment_def instant_def n_def)
  next
    case unreal: False
    then show ?thesis using True same off by (auto simp: date_of_parts_def utc Let_def real_moment_def)
  qed
qed

section \<open>The numbers a text can spell\<close>

lemma read16_snoc: "read16 (s @ [c]) = 10 * read16 s + (uint c - 48)"
  by (simp add: read16_def)

lemma digit16_value: "digit16 c \<Longrightarrow> 48 \<le> uint c \<and> uint c \<le> 57"
  by (simp add: digit16_def word_le_def)

lemma read16_range: "list_all digit16 s \<Longrightarrow> 0 \<le> read16 s \<and> read16 s < 10 ^ length s"
proof (induction s rule: rev_induct)
  case Nil
  then show ?case by (simp add: read16_def)
next
  case (snoc c s)
  then show ?case using digit16_value [of c] by (simp add: read16_snoc)
qed

lemma captured_range:
  assumes "spelled ps" and "(t, s) \<in> set ps" and "token_captures t"
  shows "0 \<le> read16 s \<and> read16 s < (if t = T_YYYY then 10000 else 100)"
proof -
  have f: "fits t s" using assms(1,2) by (induction ps rule: spelled.induct) auto
  then have "list_all digit16 s" using assms(3) by (auto simp: fits_def token_captures_def token_class_def list_all_iff split: fmt_token.splits)
  then have r: "0 \<le> read16 s \<and> read16 s < 10 ^ length s" by (rule read16_range)
  have "length s \<le> (if t = T_YYYY then 4 else 2)" using f assms(3) by (auto simp: fits_def token_captures_def token_most_def split: fmt_token.splits)
  then have "(10::int) ^ length s \<le> 10 ^ (if t = T_YYYY then 4 else 2)" by (intro power_increasing) auto
  then have "read16 s < 10 ^ (if t = T_YYYY then 4 else 2)" using r by linarith
  then show ?thesis using r by (simp split: if_splits)
qed

lemma spells_range:
  assumes "spells ps (y, m, d, hh, mi, ss)"
  shows "0 \<le> y \<and> y \<le> 9999 \<and> 0 \<le> m \<and> 0 \<le> d \<and> 0 \<le> hh \<and> 0 \<le> mi \<and> 0 \<le> ss"
proof -
  have s: "spelled ps" and t: "tells (map fst ps) (y, m, d, hh, mi, ss)" using assms by (simp_all add: spells_def)
  have k: "\<exists>n. 0 \<le> n \<and> n < (if t = T_YYYY then 10000 else 100) \<and> says (y, m, d, hh, mi, ss) t n"
    if "t \<in> set (map fst ps)" "token_captures t" for t
    using that assms captured_range [OF s] unfolding spells_def by (fastforce simp del: says.simps)
  have "0 \<le> y \<and> y \<le> 9999" using t k [of T_YYYY] k [of T_YY] by (auto simp: token_captures_def)
  moreover have "0 \<le> m" using t k [of T_MM] k [of T_M] by (auto simp: token_captures_def)
  moreover have "0 \<le> d" using t k [of T_DD] k [of T_D] by (auto simp: token_captures_def)
  moreover have "0 \<le> hh" using t k [of T_HH] by (auto simp: token_captures_def)
  moreover have "0 \<le> mi" using t k [of T_mm] by (auto simp: token_captures_def)
  moreover have "0 \<le> ss" using t k [of T_ss] by (auto simp: token_captures_def)
  ultimately show ?thesis by blast
qed

lemma istDate_instant: "real_moment (y, m, d, hh, mi, ss) \<Longrightarrow> istDate (instant (y, m, d, hh, mi, ss)) = iso_text y m d"
  using time_of_day [of hh mi ss "day_number y m d"] date_of_number [of y m d]
  by (simp add: istDate_def instant_def real_moment_def toDateString_date four_digit_year_def)

section \<open>Properties\<close>

text \<open>
  C32: a provider's date is read as it is written, or refused. A text that spells a year, month, day, hour, minute and second by
  the pattern of its format (any widths and separators, each piece ending where its token ends) gives the instant of that
  time in India, whose day is that date, when it is a real date from the year 1000 on and a time of the day; a date that
  would roll into another month, or a time past the day, gives nothing.
\<close>

theorem parseDateTime_spelled:
  assumes "spells ps (y, m, d, hh, mi, ss)" and "map fst ps = format_tokens f" and "f \<noteq> []"
    and "trim16 (concat (map snd ps)) = concat (map snd ps)"
  shows "parseDateTime (concat (map snd ps)) (Some f) = (if real_moment (y, m, d, hh, mi, ss) then Some (instant (y, m, d, hh, mi, ss)) else None) \<and>
    (real_moment (y, m, d, hh, mi, ss) \<longrightarrow> istDate (instant (y, m, d, hh, mi, ss)) = iso_text y m d)"
  using pattern_parts [OF assms(1,2)] spells_range [OF assms(1)] date_of_parts_moment [of y m d hh mi ss] istDate_instant assms(3,4)
  by (simp add: parseDateTime_def read_parts_def)

text \<open>The pattern \<open>DD/MM/YYYY\<close> and the text \<open>31/02/2026\<close>.\<close>

definition sample_pattern :: text16 where
  "sample_pattern = [0x44, 0x44, 0x2F, 0x4D, 0x4D, 0x2F, 0x59, 0x59, 0x59, 0x59]"

definition sample_pieces :: "(fmt_token \<times> text16) list" where
  "sample_pieces = [(T_DD, [0x33, 0x31]), (T_sep, [0x2F]), (T_MM, [0x30, 0x32]), (T_sep, [0x2F]), (T_YYYY, [0x32, 0x30, 0x32, 0x36])]"

theorem parseDateTime_spelled_witness:
  "parseDateTime [0x33, 0x31, 0x2F, 0x30, 0x32, 0x2F, 0x32, 0x30, 0x32, 0x36] (Some sample_pattern) = None"
proof -
  have s: "spells sample_pieces (2026, 2, 31, 0, 0, 0)"
    unfolding spells_def sample_pieces_def
    by (simp add: fits_def ends_at_def token_class_def token_least_def token_most_def digit16_def read16_def)
  have f: "map fst sample_pieces = format_tokens sample_pattern"
    by (simp add: sample_pieces_def sample_pattern_def letter16_def word_le_def)
  have t: "trim16 (concat (map snd sample_pieces)) = concat (map snd sample_pieces)"
    by (simp add: sample_pieces_def trim16_def white_def Let_def)
  have "\<not> real_moment (2026, 2, 31, 0, 0, 0)" by code_simp
  then show ?thesis using parseDateTime_spelled [OF s f _ t] by (simp add: sample_pieces_def sample_pattern_def)
qed

end
