(* ===== verification/Settlement_Statement.thy ===== *)
theory Settlement_Statement
  imports Settlement_Dates "HOL-Library.Multiset"
begin

text \<open>
  A statement as a whole: every row of the table is a line or a problem, what holds of a line, and how the lines are split
  into payouts.
\<close>

section \<open>Rows\<close>

definition row_lines :: "decimal_js \<Rightarrow> (text16 \<Rightarrow> bool \<times> rat) \<Rightarrow> (text16 \<Rightarrow> text16) \<Rightarrow> statement_format \<Rightarrow> csv_row list \<Rightarrow> stmt_line list" where
  "row_lines J newDecimal lower format rows = concat (map (\<lambda>r. case read_row J newDecimal lower format r of Inl _ \<Rightarrow> [] | Inr l \<Rightarrow> [l]) rows)"

definition row_problems :: "decimal_js \<Rightarrow> (text16 \<Rightarrow> bool \<times> rat) \<Rightarrow> (text16 \<Rightarrow> text16) \<Rightarrow> statement_format \<Rightarrow> csv_row list \<Rightarrow> stmt_problem list" where
  "row_problems J newDecimal lower format rows = concat (map (\<lambda>r. case read_row J newDecimal lower format r of Inl e \<Rightarrow> [(cw_lineNo r, e)] | Inr _ \<Rightarrow> []) rows)"

lemma fold_rows:
  "fold (row_step J newDecimal lower format) rows (ls, ps) = (ls @ row_lines J newDecimal lower format rows, ps @ row_problems J newDecimal lower format rows)"
  by (induction rows arbitrary: ls ps) (auto simp: row_step_def row_lines_def row_problems_def split: sum.splits)

lemma parseStatement_rows:
  assumes "missing_columns lower format (ct_headers (readCsvTable lower text)) = []"
  shows "parseStatementCsv J newDecimal lower text format =
    (row_lines J newDecimal lower format (ct_rows (readCsvTable lower text)), row_problems J newDecimal lower format (ct_rows (readCsvTable lower text)))"
  using assms by (simp add: parseStatementCsv_def Let_def fold_rows)

lemma read_row_lineNo: "read_row J newDecimal lower format row = Inr l \<Longrightarrow> sl_lineNo l = cw_lineNo row \<and> sl_raw l = cw_cells row"
  by (auto simp: read_row_def Let_def e_bind_Inr_conv split: option.splits)

lemma rows_accounted:
  "mset (map sl_lineNo (row_lines J newDecimal lower format rows)) + mset (map fst (row_problems J newDecimal lower format rows)) = mset (map cw_lineNo rows)"
  by (induction rows) (auto simp: row_lines_def row_problems_def read_row_lineNo split: sum.splits)

lemma row_lines_iff: "l \<in> set (row_lines J newDecimal lower format rows) \<longleftrightarrow> (\<exists>r \<in> set rows. read_row J newDecimal lower format r = Inr l)"
  by (force simp: row_lines_def split: sum.splits)

section \<open>What holds of a line\<close>

definition at_most :: "text16 option \<Rightarrow> nat \<Rightarrow> bool" where
  "at_most v most \<longleftrightarrow> (case v of None \<Rightarrow> True | Some s \<Rightarrow> length s \<le> most)"

definition fits_columns :: "stmt_line \<Rightarrow> bool" where
  "fits_columns l \<longleftrightarrow> at_most (sl_terminalId l) 40 \<and> at_most (sl_vpa l) 100 \<and> at_most (sl_refNo l) 60 \<and> at_most (sl_authCode l) 20 \<and>
     at_most (sl_payer l) 150 \<and> at_most (sl_payoutRef l) 60 \<and>
     (case sl_cardLast4 l of None \<Rightarrow> True | Some s \<Rightarrow> length s = 4 \<and> list_all digit16 s)"

lemma at_most_trimTo: "at_most (trimTo v n) n"
  by (cases v) (simp_all add: at_most_def trimTo_def)

lemma last4_digits: "last4_of s = Some l \<Longrightarrow> list_all digit16 l"
  by (auto simp: last4_of_def Let_def list_all_iff dest!: in_set_dropD split: if_splits)

lemma read_last4_ok: "read_last4 v = Inr r \<Longrightarrow> (case r of None \<Rightarrow> True | Some s \<Rightarrow> length s = 4 \<and> list_all digit16 s)"
  by (auto simp: read_last4_def last4_digits split: option.splits if_splits)

lemma line_fits: "read_row J newDecimal lower format row = Inr l \<Longrightarrow> fits_columns l"
  by (auto simp: read_row_def Let_def e_bind_Inr_conv fits_columns_def at_most_trimTo dest!: read_last4_ok split: option.splits)

text \<open>The amounts of a line: whole paise, not negative, and the net is what is left of the gross.\<close>

definition net_is_rest :: "stmt_line \<Rightarrow> bool" where
  "net_is_rest l \<longleftrightarrow> paise (sl_gross l) \<and> paise (sl_fee l) \<and> paise (sl_tax l) \<and> 0 \<le> sl_gross l \<and> 0 \<le> sl_fee l \<and> 0 \<le> sl_tax l \<and>
     (sl_gross l + sl_fee l + sl_tax l < 10 ^ 17 \<longrightarrow> sl_net l = sl_gross l - sl_fee l - sl_tax l)"

context decimal_package
begin

lemma money2_half_up: "money2 J x = half_up 2 x"
  by (simp add: money2_def toDP_half_up)

lemma minus_twice:
  assumes "paise a" "paise b" "paise c" and "0 \<le> a" "0 \<le> b" "0 \<le> c" and "a + b + c < 10 ^ 17"
  shows "d_minus J (d_minus J a b) c = a - b - c"
proof -
  have "\<bar>a - b\<bar> < 10 ^ 18" "\<bar>a - b - c\<bar> < 10 ^ 18" using assms(4-7) by auto
  then show ?thesis using assms(1-3) minus_paise [of a b] minus_paise [of "a - b" c] by simp
qed

lemma line_net: "read_row J newDecimal lower format row = Inr l \<Longrightarrow> net_is_rest l"
  by (auto simp: read_row_def Let_def e_bind_Inr_conv net_is_rest_def money2_half_up minus_twice split: option.splits)

text \<open>A net the file states is the net of the line, where the amounts of the row are whole paise.\<close>

lemma grid_half_cent: "paise a \<Longrightarrow> paise b \<Longrightarrow> \<bar>a - b\<bar> < 5 / 1000 \<Longrightarrow> a = b"
  using grid_eqI [of 2 a b] by simp

lemma net_agreed:
  assumes "net_agrees J newDecimal (Some v) net" and "paise (snd (the (parseAmount newDecimal (Some v))))" and "paise net"
    and "\<bar>snd (the (parseAmount newDecimal (Some v)))\<bar> < 10 ^ 17" and "\<bar>net\<bar> < 10 ^ 17"
  shows "\<bar>snd (the (parseAmount newDecimal (Some v)))\<bar> = \<bar>net\<bar>"
proof -
  obtain b st where st: "parseAmount newDecimal (Some v) = Some (b, st)" and near: "\<bar>d_minus J \<bar>st\<bar> \<bar>net\<bar>\<bar> < 5 / 1000"
    using assms(1) by (auto simp: net_agrees_def split: option.splits)
  have "\<bar>\<bar>st\<bar> - \<bar>net\<bar>\<bar> < 10 ^ 18" using assms(4,5) st by auto
  then have "d_minus J \<bar>st\<bar> \<bar>net\<bar> = \<bar>st\<bar> - \<bar>net\<bar>" using assms(2,3) st by (intro minus_paise) simp_all
  then show ?thesis using grid_half_cent [of "\<bar>st\<bar>" "\<bar>net\<bar>"] near assms(2,3) st by simp
qed

end

definition row_amount :: "(text16 \<Rightarrow> bool \<times> rat) \<Rightarrow> (text16 \<Rightarrow> text16) \<Rightarrow> statement_format \<Rightarrow> csv_row \<Rightarrow> column_key \<Rightarrow> rat" where
  "row_amount newDecimal lower format row key = (case parseAmount newDecimal (cell lower format (cw_cells row) key) of None \<Rightarrow> 0 | Some (_, x) \<Rightarrow> x)"

text \<open>The amounts of a row are whole paise, and small enough.\<close>

definition plain_amounts :: "(text16 \<Rightarrow> bool \<times> rat) \<Rightarrow> (text16 \<Rightarrow> text16) \<Rightarrow> statement_format \<Rightarrow> csv_row \<Rightarrow> bool" where
  "plain_amounts newDecimal lower format row \<longleftrightarrow> (\<forall>key \<in> {COL_gross, COL_fee, COL_tax, COL_net}. paise (row_amount newDecimal lower format row key)) \<and>
     \<bar>row_amount newDecimal lower format row COL_gross\<bar> + \<bar>row_amount newDecimal lower format row COL_fee\<bar> +
       \<bar>row_amount newDecimal lower format row COL_tax\<bar> + \<bar>row_amount newDecimal lower format row COL_net\<bar> < 10 ^ 17"

definition as_stated :: "(text16 \<Rightarrow> bool \<times> rat) \<Rightarrow> (text16 \<Rightarrow> text16) \<Rightarrow> statement_format \<Rightarrow> csv_row \<Rightarrow> stmt_line \<Rightarrow> bool" where
  "as_stated newDecimal lower format row l \<longleftrightarrow> sl_gross l = \<bar>row_amount newDecimal lower format row COL_gross\<bar> \<and>
     sl_fee l = \<bar>row_amount newDecimal lower format row COL_fee\<bar> \<and> sl_tax l = \<bar>row_amount newDecimal lower format row COL_tax\<bar> \<and>
     (cell lower format (cw_cells row) COL_net \<noteq> None \<longrightarrow> \<bar>sl_net l\<bar> = \<bar>row_amount newDecimal lower format row COL_net\<bar>)"

lemma read_amount_value: "read_amount newDecimal v e = Inr x \<Longrightarrow> x = (case parseAmount newDecimal v of None \<Rightarrow> 0 | Some (_, y) \<Rightarrow> y)"
  by (auto simp: read_amount_def split: option.splits if_splits)

lemma row_amounts:
  assumes "read_row J newDecimal lower format row = Inr l"
  shows "sl_gross l = money2 J \<bar>row_amount newDecimal lower format row COL_gross\<bar> \<and> sl_fee l = money2 J \<bar>row_amount newDecimal lower format row COL_fee\<bar> \<and>
    sl_tax l = money2 J \<bar>row_amount newDecimal lower format row COL_tax\<bar> \<and> sl_net l = d_minus J (d_minus J (sl_gross l) (sl_fee l)) (sl_tax l) \<and>
    net_agrees J newDecimal (cell lower format (cw_cells row) COL_net) (d_minus J (d_minus J \<bar>row_amount newDecimal lower format row COL_gross\<bar>
      \<bar>row_amount newDecimal lower format row COL_fee\<bar>) \<bar>row_amount newDecimal lower format row COL_tax\<bar>)"
  using assms by (auto simp: read_row_def Let_def e_bind_Inr_conv row_amount_def dest!: read_amount_value split: option.splits)

context decimal_package
begin

lemma line_as_stated:
  assumes "read_row J newDecimal lower format row = Inr l" and "plain_amounts newDecimal lower format row"
  shows "as_stated newDecimal lower format row l"
proof -
  let ?a = "\<lambda>key. row_amount newDecimal lower format row key"
  note r = row_amounts [OF assms(1)]
  have p: "paise (?a COL_gross)" "paise (?a COL_fee)" "paise (?a COL_tax)" "paise (?a COL_net)"
    and b: "\<bar>?a COL_gross\<bar> + \<bar>?a COL_fee\<bar> + \<bar>?a COL_tax\<bar> + \<bar>?a COL_net\<bar> < 10 ^ 17" using assms(2) by (simp_all add: plain_amounts_def)
  have eq: "sl_gross l = \<bar>?a COL_gross\<bar>" "sl_fee l = \<bar>?a COL_fee\<bar>" "sl_tax l = \<bar>?a COL_tax\<bar>" using r p by (simp_all add: money2_half_up)
  have net: "d_minus J (d_minus J \<bar>?a COL_gross\<bar> \<bar>?a COL_fee\<bar>) \<bar>?a COL_tax\<bar> = \<bar>?a COL_gross\<bar> - \<bar>?a COL_fee\<bar> - \<bar>?a COL_tax\<bar>"
    using p b by (intro minus_twice) auto
  have "\<bar>sl_net l\<bar> = \<bar>?a COL_net\<bar>" if some: "cell lower format (cw_cells row) COL_net = Some v" for v
  proof -
    have "net_agrees J newDecimal (Some v) (\<bar>?a COL_gross\<bar> - \<bar>?a COL_fee\<bar> - \<bar>?a COL_tax\<bar>)" using r some net by simp
    moreover from this have st: "snd (the (parseAmount newDecimal (Some v))) = ?a COL_net"
      using some by (auto simp: net_agrees_def row_amount_def split: option.splits)
    moreover have "\<bar>?a COL_net\<bar> < 10 ^ 17" "\<bar>\<bar>?a COL_gross\<bar> - \<bar>?a COL_fee\<bar> - \<bar>?a COL_tax\<bar>\<bar> < 10 ^ 17" using b by arith+
    ultimately have "\<bar>?a COL_net\<bar> = \<bar>\<bar>?a COL_gross\<bar> - \<bar>?a COL_fee\<bar> - \<bar>?a COL_tax\<bar>\<bar>"
      using net_agreed [of newDecimal v "\<bar>?a COL_gross\<bar> - \<bar>?a COL_fee\<bar> - \<bar>?a COL_tax\<bar>"] p by simp
    then show ?thesis using r eq net by simp
  qed
  then show ?thesis using eq by (auto simp: as_stated_def)
qed

end

section \<open>Payouts\<close>

lemma str_less_trans: "str_less a b \<Longrightarrow> str_less b c \<Longrightarrow> str_less a c"
proof (induction a b arbitrary: c rule: str_less.induct)
  case (2 x xs)
  then show ?case by (cases c) auto
next
  case (3 x xs y ys)
  then show ?case by (cases c) auto
qed simp

text \<open>No line of a group names a later date than the group.\<close>

definition latest :: "payout_fallback \<Rightarrow> payout_group \<Rightarrow> bool" where
  "latest fb g \<longleftrightarrow> pg_payoutDate g \<in> line_date fb ` set (pg_lines g) \<and>
     (\<forall>l \<in> set (pg_lines g). truthy16 (line_date fb l) \<longrightarrow> truthy16 (pg_payoutDate g) \<and> \<not> str_less (the (pg_payoutDate g)) (the (line_date fb l)))"

lemma later_date_latest:
  "latest fb \<lparr> pg_payoutRef = r, pg_payoutDate = d, pg_lines = ls \<rparr> \<Longrightarrow>
   latest fb \<lparr> pg_payoutRef = r, pg_payoutDate = later_date d (line_date fb l), pg_lines = ls @ [l] \<rparr>"
  using str_less_trans by (fastforce simp: latest_def later_date_def)

text \<open>What the groups of the lines so far are.\<close>

definition group_of :: "payout_fallback \<Rightarrow> stmt_line list \<Rightarrow> text16 \<Rightarrow> payout_group \<Rightarrow> bool" where
  "group_of fb lines k g \<longleftrightarrow> pg_lines g = filter (\<lambda>l. payout_key fb l = k) lines \<and> pg_lines g \<noteq> [] \<and>
     pg_payoutRef g = line_ref fb (hd (pg_lines g)) \<and> latest fb g"

definition groups_of :: "payout_fallback \<Rightarrow> stmt_line list \<Rightarrow> (text16 \<times> payout_group) list \<Rightarrow> bool" where
  "groups_of fb lines groups \<longleftrightarrow> distinct (map fst groups) \<and> set (map fst groups) = payout_key fb ` set lines \<and>
     (\<forall>(k, g) \<in> set groups. group_of fb lines k g)"

lemma groups_of_get: "groups_of fb lines groups \<Longrightarrow> jmap_get groups k = Some g \<Longrightarrow> group_of fb lines k g"
  by (auto simp: groups_of_def dest: map_of_SomeD)

lemma group_step_groups:
  assumes "groups_of fb lines groups"
  shows "groups_of fb (lines @ [l]) (group_step fb groups l)"
proof -
  let ?k = "payout_key fb l"
  define g where "g = or_else (jmap_get groups ?k) \<lparr> pg_payoutRef = line_ref fb l, pg_payoutDate = line_date fb l, pg_lines = [] \<rparr>"
  define g' where "g' = g\<lparr> pg_payoutDate := later_date (pg_payoutDate g) (line_date fb l), pg_lines := pg_lines g @ [l] \<rparr>"
  have step: "group_step fb groups l = jmap_set ?k g' groups" by (simp add: group_step_def g_def g'_def Let_def)
  have new: "group_of fb (lines @ [l]) ?k g'"
  proof (cases "jmap_get groups ?k")
    case None
    then have "?k \<notin> payout_key fb ` set lines" using assms by (simp add: groups_of_def map_of_eq_None_iff)
    then have "filter (\<lambda>x. payout_key fb x = ?k) lines = []" by (auto simp: filter_empty_conv image_iff)
    then show ?thesis using None by (auto simp: group_of_def g'_def g_def latest_def later_date_def)
  next
    case (Some h)
    then have h: "group_of fb lines ?k h" and gh: "g = h" using groups_of_get [OF assms] by (simp_all add: g_def)
    then have "latest fb g'" using later_date_latest [of fb "pg_payoutRef h" "pg_payoutDate h" "pg_lines h" l]
      by (cases h) (simp add: group_of_def g'_def)
    then show ?thesis using h gh by (auto simp: group_of_def g'_def)
  qed
  have old: "group_of fb (lines @ [l]) k h" if "(k, h) \<in> set groups" "k \<noteq> ?k" for k h
    using assms that by (auto simp: groups_of_def group_of_def)
  have "set (jmap_set ?k g' groups) \<subseteq> {(?k, g')} \<union> {(k, h). (k, h) \<in> set groups \<and> k \<noteq> ?k}"
    using assms by (auto simp: groups_of_def dest!: map_of_is_SomeI [rotated] simp: update_conv' split: if_splits)
  then show ?thesis unfolding step using new old assms by (auto simp: groups_of_def dom_update)
qed

lemma groups_of_lines: "groups_of fb lines (foldl (group_step fb) [] lines)"
  by (induction lines rule: rev_induct) (simp add: groups_of_def, simp add: group_step_groups)

lemma mset_by_key:
  "distinct ks \<Longrightarrow> mset (concat (map (\<lambda>k. filter (\<lambda>x. f x = k) xs) ks)) = mset (filter (\<lambda>x. f x \<in> set ks) xs)"
proof (induction ks)
  case (Cons k ks)
  have "mset (filter (\<lambda>x. f x \<in> set (k # ks)) xs) = mset (filter (\<lambda>x. f x = k) xs) + mset (filter (\<lambda>x. f x \<in> set ks) xs)"
    using Cons.prems by (induction xs) auto
  then show ?case using Cons by simp
qed simp

lemma group_key: "group_of fb lines k g \<Longrightarrow> payout_key fb (hd (pg_lines g)) = k"
  using hd_in_set [of "pg_lines g"] by (auto simp: group_of_def)

section \<open>Properties\<close>

text \<open>
  C31: no row of a statement is lost or guessed. Where the format names a column the file lacks, there are no lines and one
  problem for each such column. Otherwise every row is one line or one problem, under its number; the amounts of a line are whole
  paise and not negative and its net is what fee and tax leave of the gross; its texts fit their columns and the card has four
  digits; and where the row's amounts are whole paise the line has just these, its net being the one the row states.
\<close>

theorem parseStatementCsv_rows:
  assumes "decimal_package J"
  shows "case parseStatementCsv J newDecimal lower text format of (lines, problems) \<Rightarrow>
    (missing_columns lower format (ct_headers (readCsvTable lower text)) \<noteq> [] \<longrightarrow>
       lines = [] \<and> problems = missing_columns lower format (ct_headers (readCsvTable lower text))) \<and>
    (missing_columns lower format (ct_headers (readCsvTable lower text)) = [] \<longrightarrow>
       mset (map sl_lineNo lines) + mset (map fst problems) = mset (map cw_lineNo (ct_rows (readCsvTable lower text))) \<and>
       (\<forall>l \<in> set lines. net_is_rest l \<and> fits_columns l \<and>
          (\<exists>row \<in> set (ct_rows (readCsvTable lower text)). sl_lineNo l = cw_lineNo row \<and> sl_raw l = cw_cells row \<and>
             (plain_amounts newDecimal lower format row \<longrightarrow> as_stated newDecimal lower format row l))))"
proof (cases "missing_columns lower format (ct_headers (readCsvTable lower text)) = []")
  case False
  then show ?thesis by (simp add: parseStatementCsv_def Let_def)
next
  case True
  let ?rows = "ct_rows (readCsvTable lower text)"
  have "net_is_rest l \<and> fits_columns l \<and> (\<exists>row \<in> set ?rows. sl_lineNo l = cw_lineNo row \<and> sl_raw l = cw_cells row \<and>
      (plain_amounts newDecimal lower format row \<longrightarrow> as_stated newDecimal lower format row l))"
    if l: "l \<in> set (row_lines J newDecimal lower format ?rows)" for l
  proof -
    obtain row where row: "row \<in> set ?rows" "read_row J newDecimal lower format row = Inr l" using l unfolding row_lines_iff by blast
    then show ?thesis
      using decimal_package.line_net [OF assms row(2)] line_fits [OF row(2)] read_row_lineNo [OF row(2)] decimal_package.line_as_stated [OF assms row(2)] by blast
  qed
  then show ?thesis using True rows_accounted [of J newDecimal lower format ?rows] unfolding parseStatement_rows [OF True] by simp
qed

text \<open>A file of one column and two rows, of which the second is no amount.\<close>

definition sample_decimal :: "text16 \<Rightarrow> bool \<times> rat" where
  "sample_decimal s = (s \<noteq> [] \<and> hd s = 0x2D, of_int (read16 (filter digit16 s)) * (if s \<noteq> [] \<and> hd s = 0x2D then - 1 else 1))"

definition sample_statement_format :: statement_format where
  "sample_statement_format = \<lparr> sf_source = SRC_CARD, sf_provider = [0x50], sf_columns = (\<lambda>key. if key = COL_gross then Some [0x61] else None),
     sf_kindMap = None, sf_dateFormat = None, sf_negativeIsRefund = None \<rparr>"

definition sample_file :: text16 where
  "sample_file = [0x61, 0x0A, 0x2D, 0x31, 0x36, 0x30, 0x0A, 0x78, 0x0A]"

lemma sample_cells: "parseCsv sample_file = [[[0x61]], [[0x2D, 0x31, 0x36, 0x30]], [[0x78]]]"
  by (simp add: sample_file_def parseCsv_def code_defs csv_start_def csv_finish_def endRow_def endCell_def)

lemma sample_table: "ct_headers (readCsvTable (\<lambda>t. t) sample_file) = [[0x61]]" "map cw_lineNo (ct_rows (readCsvTable (\<lambda>t. t) sample_file)) = [2, 3]"
  by (simp_all add: readCsvTable_def sample_cells trim16_def white_def Let_def blank_row_def csv_record_def cell_at_def proto_key_def)

theorem parseStatementCsv_rows_witness:
  "case parseStatementCsv decimal20 sample_decimal (\<lambda>t. t) sample_file sample_statement_format of (lines, problems) \<Rightarrow>
     mset (map sl_lineNo lines) + mset (map fst problems) = {#2, 3#} \<and> (\<forall>l \<in> set lines. net_is_rest l \<and> fits_columns l)"
proof -
  have "missing_columns (\<lambda>t. t) sample_statement_format (ct_headers (readCsvTable (\<lambda>t. t) sample_file)) = []"
    by (simp add: missing_columns_def sample_table col_def sample_statement_format_def trim16_def white_def Let_def)
  note m = this [unfolded sample_table]
  show ?thesis
    using parseStatementCsv_rows [OF decimal20_package, of "\<lambda>t. t" sample_statement_format sample_file sample_decimal]
    unfolding sample_table m by (auto split: prod.splits)
qed

text \<open>
  C34: the payouts of a statement part its lines. Every line is in exactly one payout, in the order of the file; a payout has
  at least one line and holds all the lines of its reference, or of its date where no reference is given; no two payouts have
  the same; and the date of a payout is the latest one its lines name.
\<close>

theorem groupByPayout_parts:
  "mset (concat (map pg_lines (groupByPayout fb lines))) = mset lines \<and>
   distinct (map (\<lambda>g. payout_key fb (hd (pg_lines g))) (groupByPayout fb lines)) \<and>
   (\<forall>g \<in> set (groupByPayout fb lines). group_of fb lines (payout_key fb (hd (pg_lines g))) g)"
proof -
  let ?gs = "foldl (group_step fb) [] lines"
  have g: "groups_of fb lines ?gs" by (rule groups_of_lines)
  then have each: "p \<in> set ?gs \<Longrightarrow> group_of fb lines (fst p) (snd p) \<and> payout_key fb (hd (pg_lines (snd p))) = fst p" for p
    using group_key by (auto simp: groups_of_def)
  then have keys: "map (\<lambda>g. payout_key fb (hd (pg_lines g))) (map snd ?gs) = map fst ?gs" by (simp add: comp_def)
  have "map pg_lines (map snd ?gs) = map (\<lambda>k. filter (\<lambda>l. payout_key fb l = k) lines) (map fst ?gs)"
    using each by (auto simp: group_of_def)
  then have "mset (concat (map pg_lines (map snd ?gs))) = mset (filter (\<lambda>l. payout_key fb l \<in> set (map fst ?gs)) lines)"
    using mset_by_key [of "map fst ?gs" "payout_key fb" lines] g by (simp only: groups_of_def)
  also have "filter (\<lambda>l. payout_key fb l \<in> set (map fst ?gs)) lines = lines" using g by (auto simp: groups_of_def filter_id_conv)
  finally show ?thesis unfolding groupByPayout_def keys using g each by (auto simp: groups_of_def)
qed

text \<open>Two lines of one reference, the second of a later day.\<close>

definition sample_payout_line :: "nat \<Rightarrow> string \<Rightarrow> stmt_line" where
  "sample_payout_line n day = \<lparr> sl_lineNo = n, sl_kind = SALE, sl_txnOn = None, sl_terminalId = None, sl_vpa = None, sl_refNo = None, sl_authCode = None,
     sl_cardLast4 = None, sl_payer = None, sl_gross = 1, sl_fee = 0, sl_tax = 0, sl_net = 1, sl_payoutRef = Some [0x52], sl_payoutDate = Some day, sl_raw = [] \<rparr>"

theorem groupByPayout_parts_witness:
  "map pg_payoutDate (groupByPayout \<lparr> pf_payoutRef = None, pf_payoutDate = None \<rparr> [sample_payout_line 2 ''2026-03-01'', sample_payout_line 3 ''2026-03-02'']) =
     [Some ''2026-03-02''] \<and>
   mset (concat (map pg_lines (groupByPayout \<lparr> pf_payoutRef = None, pf_payoutDate = None \<rparr> [sample_payout_line 2 ''2026-03-01'', sample_payout_line 3 ''2026-03-02'']))) =
     {#sample_payout_line 2 ''2026-03-01'', sample_payout_line 3 ''2026-03-02''#}"
  using groupByPayout_parts [of "\<lparr> pf_payoutRef = None, pf_payoutDate = None \<rparr>" "[sample_payout_line 2 ''2026-03-01'', sample_payout_line 3 ''2026-03-02'']"]
  by (simp add: groupByPayout_def group_step_def payout_key_def line_ref_def line_date_def truthy16_def later_date_def sample_payout_line_def Let_def)

end
