(* ===== verification/Settlement_Validate.thy ===== *)
theory Settlement_Validate
  imports Settlement_Format
begin

text \<open>
  \<open>validateStatementFormat\<close> of \<open>settlement-format.ts\<close>: a stored or sent column map, a JSON value, checked into a format, every
  problem at once; and a format written as JSON, which is read back as itself.
\<close>

section \<open>The check\<close>

datatype json = J_undefined | J_null | J_bool bool | J_num rat | J_str text16 | J_arr "json list" | J_obj "(text16 \<times> json) list"

datatype format_problem = Not_an_object | Bad_version | Bad_source | Bad_provider | No_columns | Unknown_column text16 | Unnamed_column text16 |
  No_gross | KindMap_no_object | Unknown_kind text16 | Bad_words text16 | Kind_without_map | Bad_dateFormat | Bad_negativeIsRefund

definition jprop :: "(text16 \<times> json) list \<Rightarrow> string \<Rightarrow> json" where
  "jprop obj key = or_else (jmap_get obj (ascii16 key)) J_undefined"

definition column_text :: "column_key \<Rightarrow> text16" where
  "column_text key = ascii16 (case key of COL_gross \<Rightarrow> ''gross'' | COL_txnOn \<Rightarrow> ''txnOn'' | COL_kind \<Rightarrow> ''kind'' | COL_terminalId \<Rightarrow> ''terminalId''
     | COL_vpa \<Rightarrow> ''vpa'' | COL_refNo \<Rightarrow> ''refNo'' | COL_authCode \<Rightarrow> ''authCode'' | COL_cardLast4 \<Rightarrow> ''cardLast4'' | COL_payer \<Rightarrow> ''payer''
     | COL_fee \<Rightarrow> ''fee'' | COL_tax \<Rightarrow> ''tax'' | COL_net \<Rightarrow> ''net'' | COL_payoutRef \<Rightarrow> ''payoutRef'' | COL_payoutDate \<Rightarrow> ''payoutDate'')"

definition source_text :: "settlement_source \<Rightarrow> text16" where
  "source_text s = ascii16 (case s of SRC_CARD \<Rightarrow> ''CARD'' | SRC_UPI \<Rightarrow> ''UPI'' | SRC_WALLET \<Rightarrow> ''WALLET'' | SRC_BANK \<Rightarrow> ''BANK'')"

definition text_of :: "json \<Rightarrow> text16 option" where
  "text_of v = (case v of J_str s \<Rightarrow> Some s | _ \<Rightarrow> None)"

definition column_named :: "text16 \<Rightarrow> column_key option" where
  "column_named t = find (\<lambda>key. column_text key = t) COLUMN_KEYS"

definition source_named :: "text16 \<Rightarrow> settlement_source option" where
  "source_named t = find (\<lambda>s. source_text s = t) [SRC_CARD, SRC_UPI, SRC_WALLET, SRC_BANK]"

definition kind_named :: "text16 \<Rightarrow> line_kind option" where
  "kind_named t = find (\<lambda>k. ascii16 (kind_text k) = t) [SALE, REFUND, CHARGEBACK, FEE, ADJUSTMENT]"

text \<open>A string that is not blank, trimmed.\<close>

definition named_text :: "json \<Rightarrow> text16 option" where
  "named_text v = (case text_of v of None \<Rightarrow> None | Some s \<Rightarrow> (if trim16 s = [] then None else Some (trim16 s)))"

type_synonym columns_state = "(column_key \<times> text16) list \<times> format_problem list"

definition column_step :: "text16 \<times> json \<Rightarrow> columns_state \<Rightarrow> columns_state" where
  "column_step entry st = (case entry of (key, v) \<Rightarrow> (case column_named key of
       None \<Rightarrow> (fst st, snd st @ [Unknown_column key])
     | Some k \<Rightarrow> (case named_text v of None \<Rightarrow> (fst st, snd st @ [Unnamed_column key]) | Some h \<Rightarrow> (jmap_set k h (fst st), snd st))))"

definition read_columns :: "json \<Rightarrow> columns_state" where
  "read_columns v = (case v of
     J_obj entries \<Rightarrow> (let st = fold column_step entries ([], [])
       in (fst st, snd st @ (if jmap_get (fst st) COL_gross = None then [No_gross] else [])))
   | _ \<Rightarrow> ([], [No_columns]))"

type_synonym kinds_state = "(line_kind \<times> text16 list) list \<times> format_problem list"

definition word_list :: "json \<Rightarrow> text16 list option" where
  "word_list v = (case v of J_arr ws \<Rightarrow> (if list_ex (\<lambda>w. named_text w = None) ws then None else Some (map (\<lambda>w. the (named_text w)) ws)) | _ \<Rightarrow> None)"

definition kind_step :: "text16 \<times> json \<Rightarrow> kinds_state \<Rightarrow> kinds_state" where
  "kind_step entry st = (case entry of (kind, v) \<Rightarrow> (case kind_named kind of
       None \<Rightarrow> (fst st, snd st @ [Unknown_kind kind])
     | Some k \<Rightarrow> (case word_list v of None \<Rightarrow> (fst st, snd st @ [Bad_words kind]) | Some ws \<Rightarrow> (jmap_set k ws (fst st), snd st))))"

definition read_kindMap :: "json \<Rightarrow> (line_kind \<times> text16 list) list option \<times> format_problem list" where
  "read_kindMap v = (case v of
     J_undefined \<Rightarrow> (None, []) | J_null \<Rightarrow> (None, [])
   | J_obj entries \<Rightarrow> (let st = fold kind_step entries ([], []) in (Some (fst st), snd st))
   | _ \<Rightarrow> (None, [KindMap_no_object]))"

text \<open>\<open>/D/\<close>, \<open>/M/\<close> and \<open>/YY/\<close> somewhere in the pattern.\<close>

fun has_pair :: "code \<Rightarrow> text16 \<Rightarrow> bool" where
  "has_pair c (x # y # xs) = (x = c \<and> y = c \<or> has_pair c (y # xs))"
| "has_pair c _ = False"

definition dates_told :: "text16 \<Rightarrow> bool" where
  "dates_told f \<longleftrightarrow> 0x44 \<in> set f \<and> 0x4D \<in> set f \<and> has_pair 0x59 f"

definition validateStatementFormat :: "(text16 \<Rightarrow> text16) \<Rightarrow> json \<Rightarrow> statement_format option \<times> format_problem list" where
  "validateStatementFormat upper raw = (case raw of
     J_obj f \<Rightarrow>
       (let source = source_named (case text_of (jprop f ''source'') of None \<Rightarrow> [] | Some s \<Rightarrow> upper s);
            provider = (case text_of (jprop f ''provider'') of None \<Rightarrow> [] | Some s \<Rightarrow> trim16 s);
            columns = read_columns (jprop f ''columns'');
            kindMap = read_kindMap (jprop f ''kindMap'');
            dateFormat = map_option trim16 (text_of (jprop f ''dateFormat''));
            negative = jprop f ''negativeIsRefund'';
            problems = (if jprop f ''version'' \<noteq> J_num 1 then [Bad_version] else []) @
              (if source = None then [Bad_source] else []) @
              (if provider = [] \<or> length provider > 60 then [Bad_provider] else []) @
              snd columns @ snd kindMap @
              (if jmap_get (fst columns) COL_kind \<noteq> None \<and> fst kindMap = None then [Kind_without_map] else []) @
              (if truthy16 dateFormat \<and> \<not> dates_told (the dateFormat) then [Bad_dateFormat] else []) @
              (case negative of J_undefined \<Rightarrow> [] | J_bool _ \<Rightarrow> [] | _ \<Rightarrow> [Bad_negativeIsRefund])
        in if problems \<noteq> [] then (None, problems)
           else (Some \<lparr> sf_source = the source, sf_provider = provider, sf_columns = jmap_get (fst columns), sf_kindMap = fst kindMap,
               sf_dateFormat = (if truthy16 dateFormat then dateFormat else None),
               sf_negativeIsRefund = Some (case negative of J_bool b \<Rightarrow> b | _ \<Rightarrow> True) \<rparr>, problems))
   | _ \<Rightarrow> (None, [Not_an_object]))"

section \<open>A format as JSON\<close>

definition format_json :: "statement_format \<Rightarrow> json" where
  "format_json fmt = J_obj ([(ascii16 ''version'', J_num 1), (ascii16 ''source'', J_str (source_text (sf_source fmt))), (ascii16 ''provider'', J_str (sf_provider fmt)),
     (ascii16 ''columns'', J_obj (map (\<lambda>key. (column_text key, J_str (the (sf_columns fmt key)))) (filter (\<lambda>key. sf_columns fmt key \<noteq> None) COLUMN_KEYS)))] @
     (case sf_kindMap fmt of None \<Rightarrow> [] | Some ks \<Rightarrow> [(ascii16 ''kindMap'', J_obj (map (\<lambda>(k, ws). (ascii16 (kind_text k), J_arr (map J_str ws))) ks))]) @
     (case sf_dateFormat fmt of None \<Rightarrow> [] | Some f \<Rightarrow> [(ascii16 ''dateFormat'', J_str f)]) @
     (case sf_negativeIsRefund fmt of None \<Rightarrow> [] | Some b \<Rightarrow> [(ascii16 ''negativeIsRefund'', J_bool b)]))"

text \<open>A text as the check leaves it.\<close>

definition neat :: "text16 \<Rightarrow> bool" where
  "neat s \<longleftrightarrow> s \<noteq> [] \<and> trim16 s = s"

text \<open>The shape of a stored format: texts as the check leaves them, a header for the gross, a kind map beside a kind column, one entry for a
  kind. What the pattern of the dates must say is the check's own, a D, an M and a YY anywhere: the shape does not promise that a
  statement can be read with it.\<close>

definition stored_format :: "statement_format \<Rightarrow> bool" where
  "stored_format fmt \<longleftrightarrow> neat (sf_provider fmt) \<and> length (sf_provider fmt) \<le> 60 \<and> sf_columns fmt COL_gross \<noteq> None \<and>
     (\<forall>key h. sf_columns fmt key = Some h \<longrightarrow> neat h) \<and> (sf_columns fmt COL_kind \<noteq> None \<longrightarrow> sf_kindMap fmt \<noteq> None) \<and>
     (\<forall>ks. sf_kindMap fmt = Some ks \<longrightarrow> distinct (map fst ks) \<and> (\<forall>(k, ws) \<in> set ks. list_all neat ws)) \<and>
     (\<forall>f. sf_dateFormat fmt = Some f \<longrightarrow> neat f \<and> dates_told f) \<and> sf_negativeIsRefund fmt \<noteq> None"

section \<open>Trimmed texts\<close>

lemma dropWhile_idem [simp]: "dropWhile P (dropWhile P xs) = dropWhile P xs"
  by (induction xs) auto

lemma dropWhile_front:
  assumes "dropWhile P xs = xs"
  shows "dropWhile P (rev (dropWhile P (rev xs))) = rev (dropWhile P (rev xs))"
proof (cases "rev (dropWhile P (rev xs))")
  case (Cons y ys)
  obtain zs where "rev xs = zs @ dropWhile P (rev xs)" by (metis takeWhile_dropWhile_id)
  then have "xs = rev (dropWhile P (rev xs)) @ rev zs" by (metis rev_append rev_rev_ident)
  then have x: "xs = y # ys @ rev zs" using Cons by simp
  have "\<not> P y" using assms length_dropWhile_le [of P "ys @ rev zs"] unfolding x by (cases "P y") auto
  then show ?thesis unfolding Cons by simp
next
  case Nil
  then show ?thesis unfolding Nil by simp
qed

lemma trim16_idem [simp]: "trim16 (trim16 s) = trim16 s"
proof -
  let ?d = "dropWhile white s"
  have "dropWhile white (rev (dropWhile white (rev ?d))) = rev (dropWhile white (rev ?d))" by (rule dropWhile_front) simp
  then show ?thesis by (simp add: trim16_def)
qed

lemma named_text_neat: "named_text v = Some s \<Longrightarrow> neat s"
  by (auto simp: named_text_def neat_def split: option.splits if_splits)

lemma named_text_str [simp]: "neat s \<Longrightarrow> named_text (J_str s) = Some s"
  by (simp add: named_text_def text_of_def neat_def)

section \<open>Names\<close>

lemma of_char16_inject: "(of_char c :: code) = of_char d \<longleftrightarrow> c = d"
proof -
  have "unat (of_char c :: code) = of_char c" for c :: char
  proof -
    have "(of_char c :: nat) mod 256 = of_char c" by (rule of_char_mod_256)
    then have "(of_char c :: nat) < 256" by (metis mod_less_divisor zero_less_numeral)
    then have "(of_char c :: nat) < 2 ^ LENGTH(16)" by (rule order.strict_trans) simp
    then have "unat (of_nat (of_char c) :: code) = of_char c" unfolding unat_of_nat by (rule mod_less)
    then show ?thesis by (simp only: of_nat_of_char)
  qed
  then show ?thesis by (metis of_char_eq_iff)
qed

lemma ascii16_inject [simp]: "ascii16 s = ascii16 t \<longleftrightarrow> s = t"
  unfolding ascii16_def by (rule inj_map_eq_map) (simp add: inj_def of_char16_inject)

lemma column_named_text [simp]: "column_named (column_text key) = Some key"
  by (cases key) (simp_all add: column_named_def column_text_def COLUMN_KEYS_def)

lemma source_named_text [simp]: "source_named (source_text s) = Some s"
  by (cases s) (simp_all add: source_named_def source_text_def)

lemma kind_named_text [simp]: "kind_named (ascii16 (kind_text k)) = Some k"
  by (cases k) (simp_all add: kind_named_def kind_text_def)

lemma COLUMN_KEYS_all [simp]: "key \<in> set COLUMN_KEYS" "distinct COLUMN_KEYS"
  by (cases key) (simp_all add: COLUMN_KEYS_def)

section \<open>What the check lets through\<close>

definition neat_columns :: "(column_key \<times> text16) list \<Rightarrow> bool" where
  "neat_columns m \<longleftrightarrow> (\<forall>k h. jmap_get m k = Some h \<longrightarrow> neat h)"

lemma fold_column_neat: "neat_columns (fst st) \<Longrightarrow> neat_columns (fst (fold column_step entries st))"
proof (induction entries arbitrary: st)
  case (Cons e entries)
  have "neat_columns (fst (column_step e st))"
    using Cons.prems by (auto simp: column_step_def neat_columns_def update_conv' dest: named_text_neat split: prod.splits option.splits if_splits)
  then show ?case using Cons.IH by simp
qed simp

definition neat_kinds :: "(line_kind \<times> text16 list) list \<Rightarrow> bool" where
  "neat_kinds ks \<longleftrightarrow> distinct (map fst ks) \<and> (\<forall>k ws. jmap_get ks k = Some ws \<longrightarrow> list_all neat ws)"

lemma word_list_neat: "word_list v = Some ws \<Longrightarrow> list_all neat ws"
  by (auto simp: word_list_def list_all_iff list_ex_iff named_text_neat split: json.splits if_splits)

lemma set_jmap_set: "distinct (map fst m) \<Longrightarrow> (k, v) \<in> set (jmap_set a b m) \<longleftrightarrow> (if k = a then v = b else (k, v) \<in> set m)"
  using map_of_eq_Some_iff [of m k v] map_of_eq_Some_iff [OF distinct_jmap_set, of m a b k v] by (simp only: update_conv' fun_upd_apply) auto

lemma fold_kind_neat: "neat_kinds (fst st) \<Longrightarrow> neat_kinds (fst (fold kind_step entries st))"
proof (induction entries arbitrary: st)
  case (Cons e entries)
  have "neat_kinds (fst (kind_step e st))"
    using Cons.prems by (auto simp: kind_step_def neat_kinds_def set_jmap_set dest: word_list_neat split: prod.splits option.splits if_splits)
  then show ?case using Cons.IH by simp
qed simp

lemma read_columns_good: "read_columns v = (m, []) \<Longrightarrow> neat_columns m \<and> jmap_get m COL_gross \<noteq> None"
  using fold_column_neat [of "([], [])"] by (auto simp: read_columns_def Let_def neat_columns_def split: json.splits if_splits)

lemma read_kindMap_good: "read_kindMap v = (Some ks, ps) \<Longrightarrow> neat_kinds ks"
  using fold_kind_neat [of "([], [])"] by (auto simp: read_kindMap_def Let_def neat_kinds_def split: json.splits)

lemma neat_trim: "trim16 s \<noteq> [] \<Longrightarrow> neat (trim16 s)"
  by (simp add: neat_def)

lemma validate_good:
  assumes "validateStatementFormat upper raw = (Some fmt, ps)"
  shows "stored_format fmt \<and> ps = []"
proof -
  obtain f where raw: "raw = J_obj f" using assms by (cases raw) (auto simp: validateStatementFormat_def)
  obtain m mp where m: "read_columns (jprop f ''columns'') = (m, mp)" by fastforce
  obtain kso kp where k: "read_kindMap (jprop f ''kindMap'') = (kso, kp)" by fastforce
  define d where "d = map_option trim16 (text_of (jprop f ''dateFormat''))"
  define pr where "pr = (case text_of (jprop f ''provider'') of None \<Rightarrow> [] | Some s \<Rightarrow> trim16 s)"
  have empty: "mp = []" "kp = []" "ps = []" "pr \<noteq> [] \<and> length pr \<le> 60" "jmap_get m COL_kind \<noteq> None \<longrightarrow> kso \<noteq> None"
      "truthy16 d \<longrightarrow> dates_told (the d)"
    and fmt: "sf_provider fmt = pr" "sf_columns fmt = jmap_get m" "sf_kindMap fmt = kso" "sf_dateFormat fmt = (if truthy16 d then d else None)"
    and negative: "sf_negativeIsRefund fmt \<noteq> None"
    using assms unfolding raw by (auto simp: validateStatementFormat_def Let_def m k d_def [symmetric] pr_def [symmetric] split: if_splits)
  have cols: "neat_columns m \<and> jmap_get m COL_gross \<noteq> None" using read_columns_good m empty(1) by simp
  have kinds: "\<forall>ks. kso = Some ks \<longrightarrow> distinct (map fst ks) \<and> (\<forall>(k, ws) \<in> set ks. list_all neat ws)"
  proof (intro allI impI)
    fix ks
    assume "kso = Some ks"
    then have "neat_kinds ks" using read_kindMap_good k by simp
    then show "distinct (map fst ks) \<and> (\<forall>(k, ws) \<in> set ks. list_all neat ws)" by (auto simp: neat_kinds_def)
  qed
  have "neat pr" using empty(4) by (auto simp: pr_def neat_trim split: option.splits)
  moreover have "truthy16 d \<longrightarrow> neat (the d)" by (auto simp: d_def truthy16_def neat_trim)
  ultimately show ?thesis using cols kinds empty negative unfolding stored_format_def fmt neat_columns_def by (auto simp: truthy16_def split: if_splits)
qed

lemma refused_outcome: "(if ps \<noteq> [] then (None, ps) else (Some x, ps)) = (None, qs) \<Longrightarrow> qs \<noteq> []"
  by (cases "ps = []") auto

lemma validate_refused: "validateStatementFormat upper raw = (None, ps) \<Longrightarrow> ps \<noteq> []"
  unfolding validateStatementFormat_def Let_def by (cases raw; simp only: json.case) (erule refused_outcome | blast)+

section \<open>What an accepted format says\<close>

text \<open>The entry a JSON object has for a key, the last of two.\<close>

definition sent :: "(text16 \<times> json) list \<Rightarrow> text16 \<Rightarrow> json option" where
  "sent entries key = map_of (rev entries) key"

text \<open>A format says what was sent: its source in capitals, its provider and date pattern trimmed, for each column the trimmed header sent for
  it and no column beside, for each kind the trimmed words sent for it and no kind beside, and the sign rule.\<close>

definition says_columns :: "json \<Rightarrow> (column_key \<Rightarrow> text16 option) \<Rightarrow> bool" where
  "says_columns v cols \<longleftrightarrow> (case v of
     J_obj entries \<Rightarrow> fst ` set entries \<subseteq> range column_text \<and>
       (\<forall>key. cols key = (case sent entries (column_text key) of Some (J_str h) \<Rightarrow> Some (trim16 h) | _ \<Rightarrow> None))
   | _ \<Rightarrow> False)"

definition says_kinds :: "json \<Rightarrow> (line_kind \<times> text16 list) list option \<Rightarrow> bool" where
  "says_kinds v kinds \<longleftrightarrow> (case v of
     J_undefined \<Rightarrow> kinds = None | J_null \<Rightarrow> kinds = None
   | J_obj entries \<Rightarrow> fst ` set entries \<subseteq> range (\<lambda>k. ascii16 (kind_text k)) \<and> kinds \<noteq> None \<and>
       (\<forall>k. jmap_get (the kinds) k = (case sent entries (ascii16 (kind_text k)) of
          Some (J_arr ws) \<Rightarrow> Some (map (\<lambda>w. trim16 (the (text_of w))) ws) | _ \<Rightarrow> None))
   | _ \<Rightarrow> False)"

definition says :: "(text16 \<Rightarrow> text16) \<Rightarrow> json \<Rightarrow> statement_format \<Rightarrow> bool" where
  "says upper raw fmt \<longleftrightarrow> (case raw of
     J_obj f \<Rightarrow> jprop f ''version'' = J_num 1 \<and>
       (\<exists>s. jprop f ''source'' = J_str s \<and> upper s = source_text (sf_source fmt)) \<and>
       (\<exists>p. jprop f ''provider'' = J_str p \<and> trim16 p = sf_provider fmt) \<and>
       says_columns (jprop f ''columns'') (sf_columns fmt) \<and> says_kinds (jprop f ''kindMap'') (sf_kindMap fmt) \<and>
       sf_dateFormat fmt = (case jprop f ''dateFormat'' of J_str d \<Rightarrow> (if trim16 d = [] then None else Some (trim16 d)) | _ \<Rightarrow> None) \<and>
       (jprop f ''negativeIsRefund'' = J_undefined \<and> sf_negativeIsRefund fmt = Some True \<or>
        (\<exists>b. jprop f ''negativeIsRefund'' = J_bool b \<and> sf_negativeIsRefund fmt = Some b))
   | _ \<Rightarrow> False)"

lemma find_holds: "find P xs = Some x \<Longrightarrow> P x"
  by (induction xs) (auto split: if_splits)

lemma names_of_text: "column_named t = Some key \<Longrightarrow> column_text key = t" "kind_named t = Some k \<Longrightarrow> ascii16 (kind_text k) = t"
    "source_named t = Some src \<Longrightarrow> source_text src = t"
  by (auto simp: column_named_def kind_named_def source_named_def simp del: find.simps(2) dest: find_holds)

lemma named_text_eq: "named_text v = Some h \<Longrightarrow> \<exists>s. v = J_str s \<and> trim16 s = h"
  by (auto simp: named_text_def text_of_def split: json.splits if_splits)

lemma word_list_eq: "word_list v = Some ws \<Longrightarrow> \<exists>us. v = J_arr us \<and> ws = map (\<lambda>w. trim16 (the (text_of w))) us"
proof -
  assume w: "word_list v = Some ws"
  then obtain us where v: "v = J_arr us" and ok: "\<not> list_ex (\<lambda>w. named_text w = None) us" and ws: "ws = map (\<lambda>w. the (named_text w)) us"
    by (auto simp: word_list_def split: json.splits if_splits)
  have "the (named_text w) = trim16 (the (text_of w))" if "w \<in> set us" for w
  proof -
    have "named_text w \<noteq> None" using ok that by (auto simp: list_ex_iff)
    then obtain h where "named_text w = Some h" by blast
    then show ?thesis by (auto simp: text_of_def dest!: named_text_eq)
  qed
  then show ?thesis using v ws by simp
qed

lemma fold_column_says:
  "snd (fold column_step entries ([], [])) = [] \<Longrightarrow> fst ` set entries \<subseteq> range column_text \<and>
    (\<forall>key. jmap_get (fst (fold column_step entries ([], []))) key =
      (case sent entries (column_text key) of Some (J_str h) \<Rightarrow> Some (trim16 h) | _ \<Rightarrow> None))"
proof (induction entries rule: rev_induct)
  case Nil
  then show ?case by (simp add: sent_def)
next
  case (snoc e entries)
  obtain t v where e: "e = (t, v)" by (cases e)
  let ?st = "fold column_step entries ([], [])"
  have step: "snd (column_step e ?st) = []" using snoc.prems by simp
  then obtain key h where key: "column_named t = Some key" and h: "named_text v = Some h" and none: "snd ?st = []"
    by (auto simp: column_step_def e split: option.splits)
  have new: "column_step e ?st = (jmap_set key h (fst ?st), snd ?st)" by (simp add: column_step_def e key h)
  have t: "t = column_text key" using names_of_text(1) [OF key] by simp
  have inj: "column_text k = column_text key \<longleftrightarrow> k = key" for k by (metis column_named_text option.inject)
  have "jmap_get (fst (fold column_step (entries @ [e]) ([], []))) k =
      (case sent (entries @ [e]) (column_text k) of Some (J_str h) \<Rightarrow> Some (trim16 h) | _ \<Rightarrow> None)" for k
  proof -
    have "fst (fold column_step (entries @ [e]) ([], [])) = jmap_set key h (fst ?st)" using new by simp
    moreover have "sent (entries @ [e]) (column_text k) = (if k = key then Some v else sent entries (column_text k))"
      by (simp add: sent_def e t inj)
    ultimately show ?thesis using snoc.IH [OF none] named_text_eq [OF h] by (auto simp: update_conv')
  qed
  moreover have "fst ` set (entries @ [e]) \<subseteq> range column_text" using snoc.IH [OF none] by (auto simp: e t)
  ultimately show ?case by blast
qed

lemma fold_kind_says:
  "snd (fold kind_step entries ([], [])) = [] \<Longrightarrow> fst ` set entries \<subseteq> range (\<lambda>k. ascii16 (kind_text k)) \<and>
    (\<forall>k. jmap_get (fst (fold kind_step entries ([], []))) k =
      (case sent entries (ascii16 (kind_text k)) of Some (J_arr ws) \<Rightarrow> Some (map (\<lambda>w. trim16 (the (text_of w))) ws) | _ \<Rightarrow> None))"
proof (induction entries rule: rev_induct)
  case Nil
  then show ?case by (simp add: sent_def)
next
  case (snoc e entries)
  obtain t v where e: "e = (t, v)" by (cases e)
  let ?st = "fold kind_step entries ([], [])"
  have step: "snd (kind_step e ?st) = []" using snoc.prems by simp
  then obtain k ws where k: "kind_named t = Some k" and ws: "word_list v = Some ws" and none: "snd ?st = []"
    by (auto simp: kind_step_def e split: option.splits)
  have new: "kind_step e ?st = (jmap_set k ws (fst ?st), snd ?st)" by (simp add: kind_step_def e k ws)
  have t: "t = ascii16 (kind_text k)" using names_of_text(2) [OF k] by simp
  have inj: "kind_text j = kind_text k \<longleftrightarrow> j = k" for j using kind_named_text by (metis option.inject)
  have "jmap_get (fst (fold kind_step (entries @ [e]) ([], []))) j =
      (case sent (entries @ [e]) (ascii16 (kind_text j)) of Some (J_arr ws) \<Rightarrow> Some (map (\<lambda>w. trim16 (the (text_of w))) ws) | _ \<Rightarrow> None)" for j
  proof -
    have "fst (fold kind_step (entries @ [e]) ([], [])) = jmap_set k ws (fst ?st)" using new by simp
    moreover have "sent (entries @ [e]) (ascii16 (kind_text j)) = (if j = k then Some v else sent entries (ascii16 (kind_text j)))"
      by (simp add: sent_def e t inj)
    ultimately show ?thesis using snoc.IH [OF none] word_list_eq [OF ws] by (auto simp: update_conv')
  qed
  moreover have "fst ` set (entries @ [e]) \<subseteq> range (\<lambda>k. ascii16 (kind_text k))" using snoc.IH [OF none] by (auto simp: e t)
  ultimately show ?case by blast
qed

lemma read_columns_says: "read_columns v = (m, []) \<Longrightarrow> says_columns v (jmap_get m)"
  using fold_column_says by (auto simp: read_columns_def says_columns_def Let_def split: json.splits)

lemma read_kindMap_says: "read_kindMap v = (ks, []) \<Longrightarrow> says_kinds v ks"
  using fold_kind_says by (auto simp: read_kindMap_def says_kinds_def Let_def split: json.splits)

lemma validate_says:
  assumes "validateStatementFormat upper raw = (Some fmt, ps)"
  shows "says upper raw fmt"
proof -
  obtain f where raw: "raw = J_obj f" using assms by (cases raw) (auto simp: validateStatementFormat_def)
  obtain m mp where m: "read_columns (jprop f ''columns'') = (m, mp)" by fastforce
  obtain kso kp where k: "read_kindMap (jprop f ''kindMap'') = (kso, kp)" by fastforce
  define src where "src = source_named (case text_of (jprop f ''source'') of None \<Rightarrow> [] | Some s \<Rightarrow> upper s)"
  define d where "d = map_option trim16 (text_of (jprop f ''dateFormat''))"
  define pr where "pr = (case text_of (jprop f ''provider'') of None \<Rightarrow> [] | Some s \<Rightarrow> trim16 s)"
  have empty: "mp = []" "kp = []" "jprop f ''version'' = J_num 1" "src \<noteq> None" "pr \<noteq> []"
    and fmt: "sf_source fmt = the src" "sf_provider fmt = pr" "sf_columns fmt = jmap_get m" "sf_kindMap fmt = kso" "sf_dateFormat fmt = (if truthy16 d then d else None)"
    and negative: "jprop f ''negativeIsRefund'' = J_undefined \<and> sf_negativeIsRefund fmt = Some True \<or> (\<exists>b. jprop f ''negativeIsRefund'' = J_bool b \<and> sf_negativeIsRefund fmt = Some b)"
    using assms unfolding raw
    by (auto simp: validateStatementFormat_def Let_def m k d_def [symmetric] pr_def [symmetric] src_def [symmetric] split: if_splits json.splits)
  have empty_source: "source_named [] = None" by (simp add: source_named_def source_text_def ascii16_def)
  have "\<exists>s. jprop f ''source'' = J_str s \<and> upper s = source_text (sf_source fmt)"
    using empty(4) names_of_text(3) empty_source unfolding src_def fmt(1) by (auto simp: text_of_def split: json.splits)
  moreover have "\<exists>p. jprop f ''provider'' = J_str p \<and> trim16 p = sf_provider fmt"
    using empty(5) by (auto simp: pr_def fmt text_of_def split: json.splits)
  moreover have "sf_dateFormat fmt = (case jprop f ''dateFormat'' of J_str d \<Rightarrow> (if trim16 d = [] then None else Some (trim16 d)) | _ \<Rightarrow> None)"
    by (auto simp: fmt d_def text_of_def truthy16_def split: json.splits)
  ultimately show ?thesis
    using empty negative read_columns_says m read_kindMap_says k by (simp add: says_def raw fmt)
qed

section \<open>A format read back\<close>

lemma fold_columns_back:
  "\<forall>key \<in> set keys. neat (h key) \<Longrightarrow>
   fold column_step (map (\<lambda>key. (column_text key, J_str (h key))) keys) (m, ps) = (fold (\<lambda>k. jmap_set k (h k)) keys m, ps)"
  by (induction keys arbitrary: m) (auto simp: column_step_def)

lemma fold_set_get: "jmap_get (fold (\<lambda>k. jmap_set k (h k)) keys m) k = (if k \<in> set keys then Some (h k) else jmap_get m k)"
  by (induction keys arbitrary: m) (auto simp: update_conv')

lemma columns_back:
  assumes "\<forall>key h. cols key = Some h \<longrightarrow> neat h" and "cols COL_gross \<noteq> None"
  shows "\<exists>m. read_columns (J_obj (map (\<lambda>key. (column_text key, J_str (the (cols key)))) (filter (\<lambda>key. cols key \<noteq> None) COLUMN_KEYS))) = (m, []) \<and> jmap_get m = cols"
proof -
  let ?keys = "filter (\<lambda>key. cols key \<noteq> None) COLUMN_KEYS"
  let ?m = "fold (\<lambda>k. jmap_set k (the (cols k))) ?keys []"
  have get: "jmap_get ?m = cols"
  proof (rule ext)
    fix k
    show "jmap_get ?m k = cols k" unfolding fold_set_get by auto
  qed
  have "\<forall>key \<in> set ?keys. neat (the (cols key))" using assms(1) by auto
  from fold_columns_back [OF this, of "[]" "[]"] show ?thesis using get assms(2) by (auto simp: read_columns_def Let_def)
qed

lemma update_new: "k \<notin> set (map fst m) \<Longrightarrow> jmap_set k v m = m @ [(k, v)]"
  by (induction m) auto

lemma words_back: "list_all neat ws \<Longrightarrow> word_list (J_arr (map J_str ws)) = Some ws"
  by (induction ws) (auto simp: word_list_def)

lemma fold_kinds_back:
  "distinct (map fst (acc @ ks)) \<Longrightarrow> (\<forall>(k, ws) \<in> set ks. list_all neat ws) \<Longrightarrow>
   fold kind_step (map (\<lambda>(k, ws). (ascii16 (kind_text k), J_arr (map J_str ws))) ks) (acc, ps) = (acc @ ks, ps)"
proof (induction ks arbitrary: acc)
  case (Cons p ks)
  obtain k ws where p: "p = (k, ws)" by (cases p)
  have "kind_step (ascii16 (kind_text k), J_arr (map J_str ws)) (acc, ps) = (acc @ [p], ps)"
    using Cons.prems by (simp add: kind_step_def p words_back update_new)
  then show ?case using Cons.IH [of "acc @ [p]"] Cons.prems by (simp add: p)
qed simp

lemma jprop_texts:
  "jprop ((ascii16 a, v) # obj) key = (if a = key then v else jprop obj key)" "jprop [] key = J_undefined"
  by (simp_all add: jprop_def)

lemma validate_back:
  assumes "stored_format fmt" and "\<forall>s. upper (source_text s) = source_text s"
  shows "validateStatementFormat upper (format_json fmt) = (Some fmt, [])"
proof -
  note g = assms(1) [unfolded stored_format_def]
  obtain m where m: "read_columns (J_obj (map (\<lambda>key. (column_text key, J_str (the (sf_columns fmt key)))) (filter (\<lambda>key. sf_columns fmt key \<noteq> None) COLUMN_KEYS))) = (m, [])"
    and get: "jmap_get m = sf_columns fmt" using columns_back [of "sf_columns fmt"] g by blast
  obtain f where f: "format_json fmt = J_obj f" by (simp add: format_json_def)
  have props: "jprop f ''version'' = J_num 1" "jprop f ''source'' = J_str (source_text (sf_source fmt))" "jprop f ''provider'' = J_str (sf_provider fmt)"
    "read_columns (jprop f ''columns'') = (m, [])" "read_kindMap (jprop f ''kindMap'') = (sf_kindMap fmt, [])"
    "map_option trim16 (text_of (jprop f ''dateFormat'')) = sf_dateFormat fmt" "jprop f ''negativeIsRefund'' = J_bool (the (sf_negativeIsRefund fmt))"
    using f m g fold_kinds_back [of "[]" _ "[]"]
    by (auto simp: format_json_def jprop_texts read_kindMap_def Let_def text_of_def neat_def split: option.splits)
  have neg: "Some (the (sf_negativeIsRefund fmt)) = sf_negativeIsRefund fmt" using g by simp
  have d: "truthy16 (sf_dateFormat fmt) \<longleftrightarrow> sf_dateFormat fmt \<noteq> None" using g by (auto simp: truthy16_def neat_def)
  have "sf_provider fmt \<noteq> []" using g by (simp add: neat_def)
  then show ?thesis
    unfolding f validateStatementFormat_def json.case Let_def props
    using g d by (auto simp: text_of_def assms(2) get neg neat_def)
qed

section \<open>Properties\<close>

text \<open>
  C37: a format is refused with its problems, or accepted without any. An accepted format says exactly what was sent: the source in capitals,
  the provider, the headers, the words and the date pattern trimmed, no column and no kind more or less; it has the shape of a stored format;
  and, written as JSON and checked again, it is accepted as itself, as is every format of that shape.
\<close>

theorem validateStatementFormat_roundtrip:
  assumes "\<forall>s. upper (source_text s) = source_text s"
  shows "(case validateStatementFormat upper raw of
      (None, problems) \<Rightarrow> problems \<noteq> []
    | (Some fmt, problems) \<Rightarrow> problems = [] \<and> says upper raw fmt \<and> stored_format fmt \<and> validateStatementFormat upper (format_json fmt) = (Some fmt, [])) \<and>
    (stored_format fmt' \<longrightarrow> validateStatementFormat upper (format_json fmt') = (Some fmt', []))"
proof (cases "validateStatementFormat upper raw")
  case (Pair r ps)
  then show ?thesis
    using validate_refused [of upper raw ps] validate_good [of upper raw _ ps] validate_says [of upper raw _ ps] validate_back [OF _ assms] by (cases r) auto
qed

theorem validateStatementFormat_roundtrip_witness:
  "validateStatementFormat (\<lambda>t. t) (format_json \<lparr> sf_source = SRC_UPI, sf_provider = [0x50], sf_columns = (\<lambda>key. if key = COL_gross then Some [0x61] else None),
     sf_kindMap = Some [(REFUND, [[0x52]])], sf_dateFormat = None, sf_negativeIsRefund = Some True \<rparr>) \<noteq> (None, [])"
proof -
  have "stored_format \<lparr> sf_source = SRC_UPI, sf_provider = [0x50], sf_columns = (\<lambda>key. if key = COL_gross then Some [0x61] else None),
     sf_kindMap = Some [(REFUND, [[0x52]])], sf_dateFormat = None, sf_negativeIsRefund = Some True \<rparr>"
    by (simp add: stored_format_def neat_def trim16_def white_def Let_def)
  then show ?thesis using validateStatementFormat_roundtrip [of "\<lambda>t. t" J_null] by simp
qed

end
