(* ===== verification/Price_Resolver.thy ===== *)
theory Price_Resolver
  imports Calendar
begin

text \<open>
  \<open>Inventory/items-price-master/price-resolver.ts\<close>: the row of the price table that prices a line. An amount is a rational;
  \<open>num\<close> is the rounding of a real number to a JavaScript number, a parameter, applied where \<open>Number(...)\<close> reads a stored
  amount and where two numbers are subtracted.
\<close>

section \<open>Rows and keys\<close>

record bucket_key =
  bk_mrp :: "rat option"
  bk_salePrice :: "rat option"

datatype price_source = BUCKET | MASTER

datatype price_scope = BRANCH | CHAIN

definition HEADLINE_KEY :: bucket_key where
  "HEADLINE_KEY = \<lparr> bk_mrp = None, bk_salePrice = None \<rparr>"

definition NO_BUCKET_KEY :: rat where
  "NO_BUCKET_KEY = - 1"

text \<open>A date column is a Date (milliseconds) or a text; a stored amount is absent when it is null or no finite number.\<close>

datatype date_like = DateTime int | DateText string

record price_row =
  ip_companyId :: "string option"
  ip_branchId :: "string option"
  ip_keyMrp :: "rat option"
  ip_keySp :: "rat option"
  ip_effectiveFrom :: date_like
  ip_effectiveTo :: date_like
  ip_isDeleted :: bool

record price_caller =
  pc_companyId :: "string option"
  pc_branchId :: "string option"

record resolved_price =
  rp_row :: price_row
  rp_source :: price_source
  rp_scope :: price_scope

section \<open>Amounts\<close>

definition toAmount :: "(rat \<Rightarrow> rat) \<Rightarrow> rat option \<Rightarrow> rat option" where
  "toAmount num v = map_option num v"

definition sameAmount :: "(rat \<Rightarrow> rat) \<Rightarrow> rat \<Rightarrow> rat \<Rightarrow> bool" where
  "sameAmount num a b \<longleftrightarrow> \<bar>num (a - b)\<bar> < num (5 / 10000000)"

definition nullableEquals :: "(rat \<Rightarrow> rat) \<Rightarrow> rat option \<Rightarrow> rat option \<Rightarrow> bool" where
  "nullableEquals num a b = (case (a, b) of (Some x, Some y) \<Rightarrow> sameAmount num x y | _ \<Rightarrow> a = None \<and> b = None)"

definition bucketKeyOfRow :: "(rat \<Rightarrow> rat) \<Rightarrow> price_row \<Rightarrow> bucket_key" where
  "bucketKeyOfRow num row =
     (let part = (\<lambda>v. case toAmount num v of None \<Rightarrow> None | Some x \<Rightarrow> (if sameAmount num x NO_BUCKET_KEY then None else Some x))
      in \<lparr> bk_mrp = part (ip_keyMrp row), bk_salePrice = part (ip_keySp row) \<rparr>)"

definition normalizeBucketValue :: "(rat \<Rightarrow> rat) \<Rightarrow> rat option \<Rightarrow> rat option" where
  "normalizeBucketValue num v = (case toAmount num v of None \<Rightarrow> None | Some x \<Rightarrow> (if x > 0 then Some x else None))"

definition sameBucket :: "(rat \<Rightarrow> rat) \<Rightarrow> bucket_key \<Rightarrow> bucket_key \<Rightarrow> bool" where
  "sameBucket num a b \<longleftrightarrow> nullableEquals num (bk_mrp a) (bk_mrp b) \<and> nullableEquals num (bk_salePrice a) (bk_salePrice b)"

definition isHeadlineKey :: "bucket_key \<Rightarrow> bool" where
  "isHeadlineKey key \<longleftrightarrow> bk_mrp key = None \<and> bk_salePrice key = None"

definition keyOf :: "bucket_key \<Rightarrow> rat \<times> rat" where
  "keyOf key = (or_else (bk_mrp key) NO_BUCKET_KEY, or_else (bk_salePrice key) NO_BUCKET_KEY)"

definition rowKeyEquals :: "(rat \<Rightarrow> rat) \<Rightarrow> rat \<times> rat \<Rightarrow> price_row \<Rightarrow> bool" where
  "rowKeyEquals num wanted row \<longleftrightarrow>
     sameAmount num (or_else (toAmount num (ip_keyMrp row)) NO_BUCKET_KEY) (fst wanted) \<and>
     sameAmount num (or_else (toAmount num (ip_keySp row)) NO_BUCKET_KEY) (snd wanted)"

section \<open>The rows in force\<close>

definition scopeOf :: "price_row \<Rightarrow> price_scope" where
  "scopeOf row = (if ip_branchId row = None then CHAIN else BRANCH)"

definition toDay :: "date_like \<Rightarrow> string" where
  "toDay v = (case v of DateText s \<Rightarrow> take 10 s | DateTime t \<Rightarrow> toDateString t)"

definition isInForce :: "string \<Rightarrow> price_row \<Rightarrow> bool" where
  "isInForce onDate row \<longleftrightarrow> (let day = take 10 onDate
     in \<not> ip_isDeleted row \<and> \<not> str_less day (toDay (ip_effectiveFrom row)) \<and> \<not> str_less (toDay (ip_effectiveTo row)) day)"

definition isInScope :: "price_caller \<Rightarrow> price_row \<Rightarrow> bool" where
  "isInScope caller row \<longleftrightarrow>
     (\<not> truthy (pc_companyId caller) \<or> ip_companyId row = None \<or> ip_companyId row = pc_companyId caller) \<and>
     (\<not> truthy (pc_branchId caller) \<or> ip_branchId row = None \<or> ip_branchId row = pc_branchId caller)"

definition livePriceRows :: "price_row list \<Rightarrow> string \<Rightarrow> price_caller \<Rightarrow> price_row list" where
  "livePriceRows rows onDate caller = filter (\<lambda>row. isInForce onDate row \<and> isInScope caller row) rows"

section \<open>The row that prices a line\<close>

definition row_rank :: "price_row \<Rightarrow> nat" where
  "row_rank row = (if ip_branchId row = None then 2 else 0) + (if ip_companyId row = None then 1 else 0)"

text \<open>The best row so far, kept on a tie; no row yet is a rank of infinity.\<close>

definition better :: "price_row option \<Rightarrow> price_row \<Rightarrow> price_row option" where
  "better best row = (case best of None \<Rightarrow> Some row | Some b \<Rightarrow> (if row_rank row < row_rank b then Some row else best))"

definition mostSpecific :: "price_row list \<Rightarrow> price_row option" where
  "mostSpecific rows = foldl better None rows"

definition resolveEffectivePrice :: "(rat \<Rightarrow> rat) \<Rightarrow> price_row list \<Rightarrow> bucket_key \<Rightarrow> string \<Rightarrow> price_caller \<Rightarrow> resolved_price option" where
  "resolveEffectivePrice num rows key onDate caller =
     (let live = livePriceRows rows onDate caller;
          exact = mostSpecific (filter (rowKeyEquals num (keyOf key)) live);
          headline = mostSpecific (filter (rowKeyEquals num (keyOf HEADLINE_KEY)) live);
          master = map_option (\<lambda>r. \<lparr> rp_row = r, rp_source = MASTER, rp_scope = scopeOf r \<rparr>) headline
      in case exact of
           Some r \<Rightarrow> (if \<not> isHeadlineKey key then Some \<lparr> rp_row = r, rp_source = BUCKET, rp_scope = scopeOf r \<rparr> else master)
         | None \<Rightarrow> master)"

section \<open>The most specific row\<close>

text \<open>Of the rows that qualify, one before which every other ranks worse and after which none ranks better.\<close>

definition first_best :: "(price_row \<Rightarrow> bool) \<Rightarrow> price_row list \<Rightarrow> price_row \<Rightarrow> bool" where
  "first_best ok rows r \<longleftrightarrow> (\<exists>pre post. rows = pre @ r # post \<and> ok r \<and> (\<forall>q \<in> set pre. ok q \<longrightarrow> row_rank r < row_rank q) \<and>
     (\<forall>q \<in> set post. ok q \<longrightarrow> row_rank r \<le> row_rank q))"

lemma first_best_split:
  "ok r \<Longrightarrow> (\<forall>q \<in> set pre. ok q \<longrightarrow> row_rank r < row_rank q) \<Longrightarrow> (\<forall>q \<in> set post. ok q \<longrightarrow> row_rank r \<le> row_rank q) \<Longrightarrow>
   rows = pre @ r # post \<Longrightarrow> first_best ok rows r"
  unfolding first_best_def by blast

lemma first_best_snoc:
  assumes "first_best ok rows r" and "ok q \<longrightarrow> row_rank r \<le> row_rank q"
  shows "first_best ok (rows @ [q]) r"
proof -
  obtain pre post where "rows = pre @ r # post" "ok r" "\<forall>q \<in> set pre. ok q \<longrightarrow> row_rank r < row_rank q"
    "\<forall>q \<in> set post. ok q \<longrightarrow> row_rank r \<le> row_rank q" using assms(1) unfolding first_best_def by blast
  then show ?thesis using assms(2) by (intro first_best_split [where pre = pre and post = "post @ [q]"]) auto
qed

lemma first_best_last: "ok q \<Longrightarrow> (\<forall>p \<in> set rows. ok p \<longrightarrow> row_rank q < row_rank p) \<Longrightarrow> first_best ok (rows @ [q]) q"
  by (rule first_best_split [where pre = rows and post = "[]"]) auto

lemma first_best_rank: "first_best ok rows r \<Longrightarrow> q \<in> set rows \<Longrightarrow> ok q \<Longrightarrow> row_rank r \<le> row_rank q"
  by (fastforce simp: first_best_def)

lemma mostSpecific_snoc: "mostSpecific (rows @ [q]) = better (mostSpecific rows) q"
  by (simp add: mostSpecific_def)

lemma mostSpecific_filter:
  "case mostSpecific (filter ok rows) of None \<Rightarrow> \<forall>q \<in> set rows. \<not> ok q | Some r \<Rightarrow> first_best ok rows r"
proof (induction rows rule: rev_induct)
  case Nil
  then show ?case by (simp add: mostSpecific_def)
next
  case (snoc q rows)
  show ?case
  proof (cases "ok q")
    case False
    then show ?thesis using snoc by (auto split: option.splits intro: first_best_snoc)
  next
    case True
    show ?thesis
    proof (cases "mostSpecific (filter ok rows)")
      case None
      then have "first_best ok (rows @ [q]) q" using snoc True by (intro first_best_last) auto
      then show ?thesis using None True by (simp add: mostSpecific_snoc better_def)
    next
      case (Some b)
      then have b: "first_best ok rows b" using snoc by simp
      show ?thesis
      proof (cases "row_rank q < row_rank b")
        case less: True
        have "first_best ok (rows @ [q]) q" using True less first_best_rank [OF b] by (intro first_best_last) force+
        then show ?thesis using Some True less by (simp add: mostSpecific_snoc better_def)
      next
        case False
        then show ?thesis using Some True first_best_snoc [OF b, of q] by (simp add: mostSpecific_snoc better_def)
      qed
    qed
  qed
qed

lemma first_best_ok: "first_best ok rows r \<Longrightarrow> ok r \<and> r \<in> set rows"
  by (auto simp: first_best_def)

text \<open>The rows of the caller's scope in force on the day, for a key.\<close>

definition prices :: "(rat \<Rightarrow> rat) \<Rightarrow> bucket_key \<Rightarrow> string \<Rightarrow> price_caller \<Rightarrow> price_row \<Rightarrow> bool" where
  "prices num key onDate caller row \<longleftrightarrow> isInForce onDate row \<and> isInScope caller row \<and> rowKeyEquals num (keyOf key) row"

lemma live_with_key: "filter (rowKeyEquals num (keyOf key)) (livePriceRows rows onDate caller) = filter (prices num key onDate caller) rows"
  by (auto simp: livePriceRows_def prices_def intro: filter_cong)

lemma resolve_exact:
  assumes "\<not> isHeadlineKey key" and "q \<in> set rows" and "prices num key onDate caller q"
  shows "\<exists>r. resolveEffectivePrice num rows key onDate caller = Some \<lparr> rp_row = r, rp_source = BUCKET, rp_scope = scopeOf r \<rparr> \<and>
    first_best (prices num key onDate caller) rows r"
  using assms mostSpecific_filter [where ok = "prices num key onDate caller" and rows = rows]
  by (auto simp: resolveEffectivePrice_def Let_def live_with_key split: option.splits)

lemma resolve_headline:
  assumes "isHeadlineKey key \<or> (\<forall>q \<in> set rows. \<not> prices num key onDate caller q)"
  shows "case resolveEffectivePrice num rows key onDate caller of
      None \<Rightarrow> \<forall>q \<in> set rows. \<not> prices num HEADLINE_KEY onDate caller q
    | Some p \<Rightarrow> p = \<lparr> rp_row = rp_row p, rp_source = MASTER, rp_scope = scopeOf (rp_row p) \<rparr> \<and> first_best (prices num HEADLINE_KEY onDate caller) rows (rp_row p)"
  using assms mostSpecific_filter [where ok = "prices num key onDate caller" and rows = rows] mostSpecific_filter [where ok = "prices num HEADLINE_KEY onDate caller" and rows = rows]
  by (auto simp: resolveEffectivePrice_def Let_def live_with_key first_best_ok split: option.splits dest!: first_best_ok)

section \<open>Days in force\<close>

text \<open>A column that holds a day: a Date of the years 0 to 9999, or the text of one.\<close>

definition date_day :: "date_like \<Rightarrow> int \<Rightarrow> bool" where
  "date_day v n \<longleftrightarrow> (case v of DateTime t \<Rightarrow> n = t div DAY_MS \<and> four_digit_year (year_of n) | DateText s \<Rightarrow> iso_day (take 10 s) n)"

lemma toDay_day: "date_day v n \<Longrightarrow> iso_day (toDay v) n"
  by (cases v) (auto simp: date_day_def toDay_def printed_iso_day)

lemma isInForce_days:
  assumes "iso_day (take 10 onDate) n" and "date_day (ip_effectiveFrom row) a" and "date_day (ip_effectiveTo row) b"
  shows "isInForce onDate row \<longleftrightarrow> \<not> ip_isDeleted row \<and> a \<le> n \<and> n \<le> b"
  using iso_day_less [OF assms(1) toDay_day [OF assms(2)]] iso_day_less [OF toDay_day [OF assms(3)] assms(1)]
  by (auto simp: isInForce_def Let_def)

section \<open>A table of three rows\<close>

definition sample_price :: "string option \<Rightarrow> rat \<Rightarrow> price_row" where
  "sample_price branch mrp = \<lparr> ip_companyId = None, ip_branchId = branch, ip_keyMrp = Some mrp, ip_keySp = Some (- 1),
     ip_effectiveFrom = DateTime 0, ip_effectiveTo = DateText ''2026-03-01'', ip_isDeleted = False \<rparr>"

section \<open>Properties\<close>

text \<open>
  C33: the price of a line. A row is chosen exactly when one of the caller's scope, in force on the day, prices the exact bucket
  asked for or is a headline. A bucket asked for that some such row prices is answered by a row of that bucket, otherwise by a headline; of the
  rows that qualify it is the most specific (branch before chain, then company before shared), and the first the caller gave of
  those that tie.
\<close>

theorem resolveEffectivePrice_row:
  "case resolveEffectivePrice num rows key onDate caller of
     None \<Rightarrow> \<forall>q \<in> set rows. \<not> (\<not> isHeadlineKey key \<and> prices num key onDate caller q) \<and> \<not> prices num HEADLINE_KEY onDate caller q
   | Some p \<Rightarrow> rp_scope p = scopeOf (rp_row p) \<and>
       (if \<not> isHeadlineKey key \<and> (\<exists>q \<in> set rows. prices num key onDate caller q)
        then rp_source p = BUCKET \<and> first_best (prices num key onDate caller) rows (rp_row p)
        else rp_source p = MASTER \<and> first_best (prices num HEADLINE_KEY onDate caller) rows (rp_row p))"
proof (cases "\<not> isHeadlineKey key \<and> (\<exists>q \<in> set rows. prices num key onDate caller q)")
  case True
  then show ?thesis using resolve_exact [of key _ rows num onDate caller] by fastforce
next
  case False
  then have "isHeadlineKey key \<or> (\<forall>q \<in> set rows. \<not> prices num key onDate caller q)" by blast
  from resolve_headline [OF this] show ?thesis using False by (auto split: option.splits) (metis resolved_price.select_convs)+
qed

theorem resolveEffectivePrice_row_witness:
  "first_best (prices (\<lambda>x. x) \<lparr> bk_mrp = Some 50, bk_salePrice = None \<rparr> ''2026-02-28'' \<lparr> pc_companyId = None, pc_branchId = Some ''B1'' \<rparr>)
     [sample_price None (- 1), sample_price None 50, sample_price (Some ''B1'') 50] (sample_price (Some ''B1'') 50)"
proof -
  let ?rows = "[sample_price None (- 1), sample_price None 50, sample_price (Some ''B1'') 50]"
  let ?key = "\<lparr> bk_mrp = Some 50, bk_salePrice = None \<rparr>" and ?caller = "\<lparr> pc_companyId = None, pc_branchId = Some ''B1'' \<rparr>"
  have "resolveEffectivePrice (\<lambda>x. x) ?rows ?key ''2026-02-28'' ?caller = Some \<lparr> rp_row = sample_price (Some ''B1'') 50, rp_source = BUCKET, rp_scope = BRANCH \<rparr>"
    by code_simp
  then show ?thesis using resolveEffectivePrice_row [where num = "\<lambda>x. x" and rows = ?rows and key = ?key and onDate = "''2026-02-28''" and caller = ?caller] by (auto split: if_splits)
qed

lemma resolved_prices:
  assumes "resolveEffectivePrice num rows key onDate caller = Some p"
  shows "rp_row p \<in> set rows \<and> isInForce onDate (rp_row p) \<and> isInScope caller (rp_row p)"
proof -
  have "\<exists>k. first_best (prices num k onDate caller) rows (rp_row p)"
  proof (cases "\<not> isHeadlineKey key \<and> (\<exists>q \<in> set rows. prices num key onDate caller q)")
    case True
    then show ?thesis using resolve_exact [of key _ rows num onDate caller] assms by force
  next
    case False
    then have "isHeadlineKey key \<or> (\<forall>q \<in> set rows. \<not> prices num key onDate caller q)" by blast
    from resolve_headline [OF this] show ?thesis using assms by auto
  qed
  then show ?thesis using first_best_ok by (fastforce simp: prices_def)
qed

text \<open>
  No price of another day or another branch. On a table whose date columns hold days of the years 0 to 9999, the row that
  prices a line is one of the table, not deleted, whose days in force, counted on the calendar, hold the day asked for, and
  which belongs to the company and the branch of the caller or to none.
\<close>

theorem resolveEffectivePrice_in_force:
  assumes "resolveEffectivePrice num rows key onDate caller = Some p" and "iso_day (take 10 onDate) n"
    and "\<forall>r \<in> set rows. date_day (ip_effectiveFrom r) (first_day r) \<and> date_day (ip_effectiveTo r) (last_day r)"
  shows "rp_row p \<in> set rows \<and> \<not> ip_isDeleted (rp_row p) \<and> first_day (rp_row p) \<le> n \<and> n \<le> last_day (rp_row p) \<and>
    (truthy (pc_branchId caller) \<longrightarrow> ip_branchId (rp_row p) \<in> {None, pc_branchId caller}) \<and>
    (truthy (pc_companyId caller) \<longrightarrow> ip_companyId (rp_row p) \<in> {None, pc_companyId caller})"
  using resolved_prices [OF assms(1)] assms(2,3) isInForce_days [of onDate n "rp_row p" "first_day (rp_row p)" "last_day (rp_row p)"]
  by (auto simp: isInScope_def)

theorem resolveEffectivePrice_in_force_witness:
  "rp_row (the (resolveEffectivePrice (\<lambda>x. x) [sample_price None (- 1), sample_price None 50, sample_price (Some ''B1'') 50]
      \<lparr> bk_mrp = Some 50, bk_salePrice = None \<rparr> ''2026-02-28'' \<lparr> pc_companyId = None, pc_branchId = Some ''B1'' \<rparr>)) = sample_price (Some ''B1'') 50 \<and>
   (0::int) \<le> 20512 \<and> (20512::int) \<le> 20513"
proof -
  let ?rows = "[sample_price None (- 1), sample_price None 50, sample_price (Some ''B1'') 50]"
  let ?key = "\<lparr> bk_mrp = Some 50, bk_salePrice = None \<rparr>" and ?caller = "\<lparr> pc_companyId = None, pc_branchId = Some ''B1'' \<rparr>"
  have r: "resolveEffectivePrice (\<lambda>x. x) ?rows ?key ''2026-02-28'' ?caller = Some \<lparr> rp_row = sample_price (Some ''B1'') 50, rp_source = BUCKET, rp_scope = BRANCH \<rparr>"
    by code_simp
  have day: "iso_day (take 10 ''2026-02-28'') 20512"
  proof -
    have "four_digit_year 2026" "real_date 2026 2 28" "take 10 ''2026-02-28'' = iso_text 2026 2 28" "20512 = day_number 2026 2 28" by code_simp+
    then show ?thesis unfolding iso_day_def by blast
  qed
  have upto: "iso_day (take 10 ''2026-03-01'') 20513"
  proof -
    have "four_digit_year 2026" "real_date 2026 3 1" "take 10 ''2026-03-01'' = iso_text 2026 3 1" "20513 = day_number 2026 3 1" by code_simp+
    then show ?thesis unfolding iso_day_def by blast
  qed
  have "four_digit_year (year_of 0)" by code_simp
  then have "\<forall>q \<in> set ?rows. date_day (ip_effectiveFrom q) 0 \<and> date_day (ip_effectiveTo q) 20513"
    using upto by (simp add: date_day_def sample_price_def DAY_MS_def)
  from resolveEffectivePrice_in_force [OF r day this] r show ?thesis by simp
qed

end
