(* ===== verification/Party_Ageing.thy ===== *)
theory Party_Ageing
  imports Calendar Csv_Reader
begin

text \<open>
  \<open>reports/party-outstanding/party-outstanding.ageing.ts\<close>: the buckets of ageing, their labels, the bucket of an age in
  code and as a SQL \<open>CASE\<close>, the due date a bill is aged from, and the arithmetic on \<open>YYYY-MM-DD\<close> texts.
\<close>

datatype age_by = BILL_DATE | DUE_DATE

section \<open>Buckets\<close>

definition DEFAULT_BUCKETS :: "int list" where
  "DEFAULT_BUCKETS = [30, 60, 90, 180]"

definition MAX_BUCKET_EDGES :: nat where
  "MAX_BUCKET_EDGES = 6"

definition MAX_BUCKET_DAYS :: int where
  "MAX_BUCKET_DAYS = 3650"

text \<open>\<open>raw.split(/[\s,]+/)\<close> without its empty parts.\<close>

fun split_parts :: "string \<Rightarrow> string \<Rightarrow> string list" where
  "split_parts acc [] = [acc]"
| "split_parts acc (c # cs) = (if is_space c \<or> c = CHR '','' then acc # split_parts [] cs else split_parts (acc @ [c]) cs)"

definition bucket_parts :: "string \<Rightarrow> string list" where
  "bucket_parts raw = filter (\<lambda>p. p \<noteq> []) (split_parts [] raw)"

fun read_edges :: "int list \<Rightarrow> string list \<Rightarrow> int list option" where
  "read_edges edges [] = Some edges"
| "read_edges edges (part # parts) =
     (if part = [] \<or> \<not> list_all is_digit part then None
      else let n = int (read_nat part)
           in if n < 1 \<or> n > MAX_BUCKET_DAYS then None
              else if 0 < length edges \<and> n \<le> last edges then None
              else read_edges (edges @ [n]) parts)"

definition parseBuckets :: "string option \<Rightarrow> int list option" where
  "parseBuckets raw = (case raw of None \<Rightarrow> Some DEFAULT_BUCKETS
     | Some s \<Rightarrow> (if js_trim s = [] then Some DEFAULT_BUCKETS
         else let parts = bucket_parts s
              in if length parts < 1 \<or> length parts > MAX_BUCKET_EDGES then None else read_edges [] parts))"

text \<open>Labels are UTF-16 texts: the range is written with an en dash.\<close>

definition EN_DASH :: code where
  "EN_DASH = 0x2013"

definition NOT_DUE_LABEL :: text16 where
  "NOT_DUE_LABEL = ascii16 ''Not due''"

definition range_label :: "int \<Rightarrow> int \<Rightarrow> text16" where
  "range_label low edge = ascii16 (show_int low) @ EN_DASH # ascii16 (show_int edge)"

definition above_label :: "int \<Rightarrow> text16" where
  "above_label edge = ascii16 (''> '' @ show_int edge)"

fun range_labels :: "int \<Rightarrow> int list \<Rightarrow> text16 list" where
  "range_labels low [] = []"
| "range_labels low (edge # edges) = range_label low edge # range_labels (edge + 1) edges"

definition bucketLabels :: "int list \<Rightarrow> age_by \<Rightarrow> text16 list" where
  "bucketLabels edges ageBy = (if ageBy = DUE_DATE then [NOT_DUE_LABEL] else []) @ range_labels 0 edges @ [above_label (last edges)]"

definition bucketCount :: "int list \<Rightarrow> age_by \<Rightarrow> nat" where
  "bucketCount edges ageBy = length edges + 1 + (if ageBy = DUE_DATE then 1 else 0)"

fun first_edge :: "int \<Rightarrow> int list \<Rightarrow> nat" where
  "first_edge age [] = 0"
| "first_edge age (edge # edges) = (if age \<le> edge then 0 else Suc (first_edge age edges))"

definition bucketIndex :: "int \<Rightarrow> int list \<Rightarrow> age_by \<Rightarrow> nat" where
  "bucketIndex age edges ageBy =
     (let shift = (if ageBy = DUE_DATE then 1 else 0)
      in if ageBy = DUE_DATE \<and> age < 0 then 0 else first_edge age edges + shift)"

text \<open>The same as a SQL \<open>CASE\<close>: the arms in order, each with its comparison and its value, and the \<open>ELSE\<close>.\<close>

datatype sql_when = When_below int nat | When_upto int nat

definition bucketIndexSql :: "int list \<Rightarrow> age_by \<Rightarrow> sql_when list \<times> nat" where
  "bucketIndexSql edges ageBy =
     (let shift = (if ageBy = DUE_DATE then 1 else 0)
      in ((if ageBy = DUE_DATE then [When_below 0 0] else []) @ map (\<lambda>(i, edge). When_upto edge (i + shift)) (zip [0..<length edges] edges),
          length edges + shift))"

fun sql_case :: "int \<Rightarrow> sql_when list \<Rightarrow> nat \<Rightarrow> nat" where
  "sql_case age [] otherwise = otherwise"
| "sql_case age (When_below k v # arms) otherwise = (if age < k then v else sql_case age arms otherwise)"
| "sql_case age (When_upto k v # arms) otherwise = (if age \<le> k then v else sql_case age arms otherwise)"

definition aboveDaysEdge :: "int list \<Rightarrow> int option" where
  "aboveDaysEdge edges = (if 2 < length edges then Some (edges ! 2) else if edges = [] then None else Some (last edges))"

section \<open>Due dates and ages\<close>

text \<open>\<open>toISOString\<close> throws on a time past what a Date holds, as on NaN; \<open>None\<close> is the throw.\<close>

definition age_addDays :: "string \<Rightarrow> int \<Rightarrow> string option" where
  "age_addDays s days = (case parse_day s of None \<Rightarrow> None
     | Some n \<Rightarrow> (let t = n * DAY_MS + days * DAY_MS in if \<bar>t\<bar> \<le> MAX_TIME then Some (toDateString t) else None))"

text \<open>\<open>Math.round\<close> of the quotient; \<open>None\<close> is NaN.\<close>

definition age_daysBetween :: "string \<Rightarrow> string \<Rightarrow> int option" where
  "age_daysBetween since until = (case (parse_day until, parse_day since) of
     (Some b, Some a) \<Rightarrow> Some ((2 * (b * DAY_MS - a * DAY_MS) + DAY_MS) div (2 * DAY_MS)) | _ \<Rightarrow> None)"

definition dueEff :: "string \<Rightarrow> string option \<Rightarrow> int option \<Rightarrow> string option" where
  "dueEff docDate dueDate creditDays = (case dueDate of Some d \<Rightarrow> Some d | None \<Rightarrow> age_addDays docDate (or_else creditDays 0))"

definition overdueDays :: "string \<Rightarrow> string \<Rightarrow> int option \<Rightarrow> int option" where
  "overdueDays asOn due graceDays = (case age_daysBetween due asOn of None \<Rightarrow> None
     | Some n \<Rightarrow> (let days = n - or_else graceDays 0 in if days > 0 then Some days else None))"

definition ageOf :: "string \<Rightarrow> string \<Rightarrow> string \<Rightarrow> age_by \<Rightarrow> int option" where
  "ageOf asOn docDate due ageBy = (if ageBy = DUE_DATE then age_daysBetween due asOn else age_daysBetween docDate asOn)"

definition iso_shape :: "string \<Rightarrow> bool" where
  "iso_shape s \<longleftrightarrow> length s = 10 \<and> list_all is_digit (take 4 s) \<and> s ! 4 = CHR ''-'' \<and> list_all is_digit (take 2 (drop 5 s)) \<and>
     s ! 7 = CHR ''-'' \<and> list_all is_digit (drop 8 s)"

definition isRealIsoDate :: "string \<Rightarrow> bool" where
  "isRealIsoDate s \<longleftrightarrow> iso_shape s \<and> (case parse_day s of None \<Rightarrow> False | Some n \<Rightarrow> toDateString (n * DAY_MS) = s)"

definition istToday :: "int \<Rightarrow> string" where
  "istToday now = toDateString (now + 330 * 60000)"

section \<open>Collection days\<close>

definition COLLECTION_DAYS :: "string list" where
  "COLLECTION_DAYS = [''MON'', ''TUE'', ''WED'', ''THU'', ''FRI'', ''SAT'', ''SUN'']"

text \<open>\<open>indexOf(day) + 1\<close>, which is 0 for a text that is no day.\<close>

definition collectionDayNumber :: "string \<Rightarrow> nat" where
  "collectionDayNumber day = (let before = takeWhile (\<lambda>d. d \<noteq> day) COLLECTION_DAYS
     in if length before < length COLLECTION_DAYS then length before + 1 else 0)"

definition collectionDayNames :: "int list option \<Rightarrow> string list" where
  "collectionDayNames days = map (\<lambda>d. COLLECTION_DAYS ! nat (d - 1))
     (sort (filter (\<lambda>d. 1 \<le> d \<and> d \<le> 7) (rev (remdups (rev (or_else days []))))))"

section \<open>The edges\<close>

text \<open>What a list of buckets obeys: one to six whole numbers from 1 to 3650, rising.\<close>

definition good_edges :: "int list \<Rightarrow> bool" where
  "good_edges edges \<longleftrightarrow> edges \<noteq> [] \<and> length edges \<le> MAX_BUCKET_EDGES \<and> (\<forall>e \<in> set edges. 1 \<le> e \<and> e \<le> MAX_BUCKET_DAYS) \<and> sorted_wrt (<) edges"

lemma below_last: "sorted_wrt (<) (edges :: int list) \<Longrightarrow> e \<in> set edges \<Longrightarrow> e \<le> last edges"
proof (induction edges)
  case (Cons a edges)
  then show ?case using last_in_set [of edges] by (cases "edges = []") (auto intro: less_imp_le)
qed simp

lemma rising_last: "sorted_wrt (<) (edges :: int list) \<Longrightarrow> last edges < n \<Longrightarrow> sorted_wrt (<) (edges @ [n])"
  using below_last [of edges] by (fastforce simp: sorted_wrt_append)

lemma read_edges_good:
  "read_edges edges parts = Some out \<Longrightarrow> (\<forall>e \<in> set edges. 1 \<le> e \<and> e \<le> MAX_BUCKET_DAYS) \<Longrightarrow> sorted_wrt (<) edges \<Longrightarrow>
   length out = length edges + length parts \<and> (\<forall>e \<in> set out. 1 \<le> e \<and> e \<le> MAX_BUCKET_DAYS) \<and> sorted_wrt (<) out"
proof (induction edges parts rule: read_edges.induct)
  case (2 edges part parts)
  have "sorted_wrt (<) (edges @ [int (read_nat part)])"
    using "2.prems" rising_last [of edges "int (read_nat part)"] by (cases "edges = []") (auto simp: Let_def split: if_splits)
  then show ?case using 2 by (auto simp: Let_def split: if_splits)
qed auto

lemma parseBuckets_good: "parseBuckets raw = Some edges \<Longrightarrow> good_edges edges"
  using read_edges_good [of "[]" _ edges]
  by (fastforce simp: parseBuckets_def good_edges_def DEFAULT_BUCKETS_def MAX_BUCKET_EDGES_def MAX_BUCKET_DAYS_def Let_def split: option.splits if_splits)

section \<open>The bucket of an age\<close>

lemma sql_arms: "sql_case age (map (\<lambda>(i, edge). When_upto edge (i + shift)) (zip [k..<k + length edges] edges)) (k + length edges + shift) =
    k + first_edge age edges + shift"
proof (induction edges arbitrary: k)
  case (Cons edge edges)
  show ?case using Cons.IH [of "Suc k"] unfolding zip_from by simp
qed simp

lemma bucketIndex_sql: "(case bucketIndexSql edges ageBy of (arms, otherwise) \<Rightarrow> sql_case age arms otherwise) = bucketIndex age edges ageBy"
  using sql_arms [of age 0 0 edges] sql_arms [of age 1 0 edges] by (cases ageBy) (auto simp: bucketIndexSql_def bucketIndex_def Let_def)

lemma length_range_labels [simp]: "length (range_labels low edges) = length edges"
  by (induction edges arbitrary: low) auto

lemma first_edge_le: "first_edge age edges \<le> length edges"
  by (induction edges) auto

lemma first_edge_upto: "first_edge age edges < length edges \<Longrightarrow> age \<le> edges ! first_edge age edges"
  by (induction edges) auto

lemma first_edge_after: "i < first_edge age edges \<Longrightarrow> edges ! i < age"
proof (induction edges arbitrary: i)
  case (Cons e es)
  then show ?case by (cases i) (auto split: if_splits)
qed simp

lemma range_label_at: "i < length edges \<Longrightarrow> range_labels low edges ! i = range_label (if i = 0 then low else edges ! (i - 1) + 1) (edges ! i)"
proof (induction edges arbitrary: low i)
  case (Cons e es)
  then show ?case by (cases i) (auto simp: nth_Cons' split: if_splits)
qed simp

text \<open>The bucket an age lies in: \<open>Not due\<close>, a range whose ends the edges give, or above the last.\<close>

definition in_range :: "int \<Rightarrow> int list \<Rightarrow> text16 \<Rightarrow> nat \<Rightarrow> bool" where
  "in_range age edges label i \<longleftrightarrow> label = range_label (if i = 0 then 0 else edges ! (i - 1) + 1) (edges ! i) \<and>
     age \<le> edges ! i \<and> (0 < i \<longrightarrow> edges ! (i - 1) < age)"

definition label_holds :: "int \<Rightarrow> int list \<Rightarrow> age_by \<Rightarrow> text16 \<Rightarrow> bool" where
  "label_holds age edges ageBy label \<longleftrightarrow>
     (if ageBy = DUE_DATE \<and> age < 0 then label = NOT_DUE_LABEL
      else if last edges < age then label = above_label (last edges)
      else \<exists>i < length edges. in_range age edges label i)"

text \<open>The ranges with the label past them, at the first edge an age does not pass.\<close>

lemma first_edge_range:
  assumes "first_edge age edges < length edges"
  shows "in_range age edges ((range_labels 0 edges @ [past]) ! first_edge age edges) (first_edge age edges)"
  unfolding in_range_def nth_append length_range_labels
  using assms first_edge_upto [OF assms] first_edge_after [of "first_edge age edges - 1" age edges] range_label_at [OF assms, of 0]
  by (intro conjI impI) simp_all

lemma first_edge_above:
  assumes "edges \<noteq> []" and "first_edge age edges = length edges"
  shows "last edges < age"
proof -
  have "length edges - 1 < first_edge age edges" using assms by simp
  from first_edge_after [OF this] show ?thesis using assms(1) by (simp add: last_conv_nth)
qed

lemma label_of_index:
  assumes "edges \<noteq> []" and "sorted_wrt (<) edges"
  shows "label_holds age edges ageBy (bucketLabels edges ageBy ! bucketIndex age edges ageBy)"
proof (cases "ageBy = DUE_DATE \<and> age < 0")
  case True
  then show ?thesis by (simp add: label_holds_def bucketLabels_def bucketIndex_def)
next
  case False
  let ?labels = "range_labels 0 edges @ [above_label (last edges)]"
  have at: "bucketLabels edges ageBy ! bucketIndex age edges ageBy = ?labels ! first_edge age edges"
    using False by (auto simp: bucketLabels_def bucketIndex_def Let_def)
  show ?thesis
  proof (cases "first_edge age edges < length edges")
    case True
    then have "age \<le> last edges" using below_last [OF assms(2) nth_mem [OF True]] first_edge_upto [OF True] by simp
    then show ?thesis
      unfolding label_holds_def at if_not_P [OF False] using True first_edge_range [OF True, of "above_label (last edges)"] by auto
  next
    case above: False
    then have i: "first_edge age edges = length edges" using first_edge_le [of age edges] by simp
    have "last edges < age" using first_edge_above [OF assms(1) i] .
    moreover have "?labels ! first_edge age edges = above_label (last edges)" unfolding i using nth_append_length [of "range_labels 0 edges"] by simp
    ultimately show ?thesis unfolding label_holds_def at if_not_P [OF False] by simp
  qed
qed

lemma bucketIndex_bound: "bucketIndex age edges ageBy < bucketCount edges ageBy"
  using first_edge_le [of age edges] by (auto simp: bucketIndex_def bucketCount_def Let_def)

lemma length_bucketLabels: "length (bucketLabels edges ageBy) = bucketCount edges ageBy"
  by (simp add: bucketLabels_def bucketCount_def)

section \<open>Dates\<close>

lemma iso_shape_text:
  assumes "four_digit_year y" and "real_date y m d"
  shows "iso_shape (iso_text y m d)"
  using parse_iso_text [OF assms] by (auto simp: parse_day_def iso_shape_def Let_def split: if_splits)

lemma isRealIsoDate_day: "isRealIsoDate s \<longleftrightarrow> (\<exists>n. iso_day s n)"
proof
  assume r: "isRealIsoDate s"
  then obtain n where n: "parse_day s = Some n" "toDateString (n * DAY_MS) = s" by (auto simp: isRealIsoDate_def split: option.splits)
  then obtain y m d where d: "four_digit_year y" "1 \<le> m" "m \<le> 12" "1 \<le> d" "d \<le> 31" "n = day_number y m d"
    unfolding parse_day_iff by blast
  then have "four_digit_year (year_of (n * DAY_MS div DAY_MS))" using year_of_parsed [of m d y] by (simp add: DAY_MS_def)
  then have "iso_day s (n * DAY_MS div DAY_MS)" using printed_iso_day [of "n * DAY_MS"] n(2) by simp
  then show "\<exists>n. iso_day s n" ..
next
  assume "\<exists>n. iso_day s n"
  then obtain n where n: "iso_day s n" ..
  then have "toDateString (n * DAY_MS) = s" using iso_day_print [OF n, of "n * DAY_MS"] by (simp add: DAY_MS_def)
  then show "isRealIsoDate s" using n iso_shape_text iso_day_parse [OF n] by (auto simp: isRealIsoDate_def iso_day_def)
qed

lemma daysBetween_days: "iso_day s a \<Longrightarrow> iso_day t b \<Longrightarrow> age_daysBetween s t = Some (b - a)"
proof -
  assume s: "iso_day s a" and t: "iso_day t b"
  have "2 * (b * DAY_MS - a * DAY_MS) + DAY_MS = 2 * DAY_MS * (b - a) + DAY_MS" by (simp add: algebra_simps)
  then have "(2 * (b * DAY_MS - a * DAY_MS) + DAY_MS) div (2 * DAY_MS) = b - a" by (simp add: DAY_MS_def)
  then show "age_daysBetween s t = Some (b - a)" using iso_day_parse [OF s] iso_day_parse [OF t] by (simp add: age_daysBetween_def)
qed

text \<open>The days of four-digit years are days a Date holds.\<close>

lemma four_digit_time: "four_digit_year (year_of n) \<Longrightarrow> \<bar>n * DAY_MS\<bar> \<le> MAX_TIME"
proof -
  assume y: "four_digit_year (year_of n)"
  have "DayFromYear 0 \<le> n" using year_of_bounds(1) [of n] DayFromYear_mono [of 0 "year_of n"] y by (simp add: four_digit_year_def)
  moreover have "n < DayFromYear 10000" using year_of_bounds(2) [of n] DayFromYear_mono [of "year_of n + 1" 10000] y by (simp add: four_digit_year_def)
  ultimately show ?thesis by (simp add: DayFromYear_def DAY_MS_def MAX_TIME_def abs_le_iff)
qed

lemma age_addDays_day:
  assumes "iso_day s n" and "four_digit_year (year_of (n + k))"
  shows "\<exists>t. age_addDays s k = Some t \<and> iso_day t (n + k)"
proof -
  have t: "n * DAY_MS + k * DAY_MS = (n + k) * DAY_MS" by (simp add: algebra_simps)
  have d: "(n + k) * DAY_MS div DAY_MS = n + k" by (simp add: DAY_MS_def)
  show ?thesis
    using assms printed_iso_day [of "(n + k) * DAY_MS"] four_digit_time [OF assms(2)] iso_day_parse [OF assms(1)]
    unfolding age_addDays_def d by (simp add: t Let_def)
qed

section \<open>Properties\<close>

text \<open>
  C35: a row's bucket and its label cannot disagree. The edges read from a request are one to six whole numbers from 1 to
  3650, rising; for every age the SQL \<open>CASE\<close> gives the index the code gives, the index is one of the labels, and the label
  there is the one that holds the age.
\<close>

theorem bucketIndex_labels:
  assumes "parseBuckets raw = Some edges"
  shows "good_edges edges \<and>
    (case bucketIndexSql edges ageBy of (arms, otherwise) \<Rightarrow> sql_case age arms otherwise) = bucketIndex age edges ageBy \<and>
    bucketIndex age edges ageBy < bucketCount edges ageBy \<and> length (bucketLabels edges ageBy) = bucketCount edges ageBy \<and>
    label_holds age edges ageBy (bucketLabels edges ageBy ! bucketIndex age edges ageBy)"
  using parseBuckets_good [OF assms] bucketIndex_sql bucketIndex_bound length_bucketLabels label_of_index [of edges age ageBy]
  by (simp add: good_edges_def)

theorem bucketIndex_labels_witness:
  "bucketIndex 45 [30, 60] DUE_DATE < bucketCount [30, 60] DUE_DATE \<and> label_holds 45 [30, 60] DUE_DATE (range_label 31 60)"
  using bucketIndex_labels [of "Some ''30, 60''" "[30, 60]" 45 DUE_DATE]
  by (simp add: parseBuckets_def bucket_parts_def js_trim_def is_space_def is_digit_def read_nat_def MAX_BUCKET_DAYS_def MAX_BUCKET_EDGES_def Let_def
      bucketIndex_def bucketLabels_def)

text \<open>
  C36: the due date and the days overdue. For a real document date and a real day of the report, whose due date and last
  day of grace are in the years 0 to 9999, the due date is the real date as many days later as the credit says, and the
  bill is overdue exactly when the report day comes after the last day of grace in the order of the texts, by the number of
  days that leads from that day to the report day.
\<close>

theorem overdueDays_dueEff:
  assumes "isRealIsoDate doc" and "parse_day doc = Some n" and "isRealIsoDate asOn" and "n' = n + or_else credit 0"
    and "four_digit_year (year_of n')" and "four_digit_year (year_of (n' + or_else grace 0))"
  shows "\<exists>due limit. dueEff doc None credit = Some due \<and> isRealIsoDate due \<and> age_daysBetween doc due = Some (or_else credit 0) \<and>
    age_addDays due (or_else grace 0) = Some limit \<and>
    (case overdueDays asOn due grace of None \<Rightarrow> \<not> str_less limit asOn
     | Some j \<Rightarrow> 0 < j \<and> str_less limit asOn \<and> age_addDays limit j = Some asOn)"
proof -
  have doc: "iso_day doc n" using assms(1,2) iso_day_parse unfolding isRealIsoDate_day by fastforce
  obtain k where asOn: "iso_day asOn k" using assms(3) unfolding isRealIsoDate_day by blast
  obtain due where due: "age_addDays doc (or_else credit 0) = Some due" "iso_day due n'"
    using age_addDays_day [OF doc, of "or_else credit 0"] assms(4,5) by auto
  obtain limit where limit: "age_addDays due (or_else grace 0) = Some limit" "iso_day limit (n' + or_else grace 0)"
    using age_addDays_day [OF due(2) assms(6)] by blast
  have "age_addDays limit (k - (n' + or_else grace 0)) = Some asOn"
    using age_addDays_day [OF limit(2), of "k - (n' + or_else grace 0)"] iso_day_year [OF asOn] iso_day_inject [OF _ asOn] by auto
  moreover have "str_less limit asOn \<longleftrightarrow> n' + or_else grace 0 < k" using iso_day_less [OF limit(2) asOn] .
  ultimately show ?thesis
    using due limit(1) daysBetween_days [OF doc due(2)] daysBetween_days [OF due(2) asOn] assms(4)
    by (auto simp: dueEff_def overdueDays_def isRealIsoDate_day algebra_simps)
qed

theorem overdueDays_dueEff_witness:
  "\<exists>due. dueEff ''2024-01-30'' None (Some 30) = Some due \<and> isRealIsoDate due \<and> age_daysBetween ''2024-01-30'' due = Some 30"
proof -
  have "isRealIsoDate ''2024-01-30''" "parse_day ''2024-01-30'' = Some 19752" "isRealIsoDate ''2024-03-05''" by code_simp+
  moreover have "four_digit_year (year_of 19782)" by code_simp
  ultimately show ?thesis using overdueDays_dueEff [of "''2024-01-30''" 19752 "''2024-03-05''" 19782 "Some 30" None] by auto
qed

end
