(* ===== verification/Number_Js.thy ===== *)
theory Number_Js
  imports Prelude "HOL-Library.Log_Nat"
begin

text \<open>
  JavaScript numbers: IEEE doubles, held as the rationals they stand for. \<open>fl\<close> rounds a result to a number, a parameter of
  every definition; the locale states its error, and the interpretation \<open>binary64\<close> discharges it for rounding to nearest, ties to
  even, at 53 binary digits with subnormals. Numbers past the largest double are not reached by the amounts below.
\<close>

section \<open>Rounding to a double\<close>

text \<open>The smallest positive double is one part in \<open>SUBNORMALS\<close>.\<close>

definition SUBNORMALS :: rat where
  "SUBNORMALS = 2 ^ 1074"

lemma SUBNORMALS_bound: "0 < SUBNORMALS" "2 ^ 60 \<le> SUBNORMALS"
  unfolding SUBNORMALS_def by (rule zero_less_power, simp, rule power_increasing, simp_all)

locale number_js =
  fixes fl :: "rat \<Rightarrow> rat"
  assumes fl_error: "\<bar>fl x - x\<bar> \<le> \<bar>x\<bar> / 2 ^ 53 + 1 / (2 * SUBNORMALS)"
    and fl_int: "\<bar>i\<bar> < 2 ^ 53 \<Longrightarrow> fl (of_int i) = of_int i"

definition round_even :: "rat \<Rightarrow> int" where
  "round_even x = (let f = \<lfloor>x\<rfloor>; d = x - of_int f
     in if d < 1 / 2 then f else if 1 / 2 < d then f + 1 else if even f then f else f + 1)"

definition fl64 :: "rat \<Rightarrow> rat" where
  "fl64 x = (let n = x * SUBNORMALS; s = nat (bitlen \<lfloor>\<bar>n\<bar>\<rfloor> - 53) in of_int (round_even (n / 2 ^ s)) * 2 ^ s / SUBNORMALS)"

lemma round_even_error: "\<bar>of_int (round_even x) - x\<bar> \<le> 1 / 2"
proof -
  have "of_int \<lfloor>x\<rfloor> \<le> x" "x < of_int \<lfloor>x\<rfloor> + 1" by linarith+
  then show ?thesis by (auto simp: round_even_def Let_def abs_le_iff)
qed

lemma round_even_int [simp]: "round_even (of_int i) = i"
  by (simp add: round_even_def)

lemma fl64_error: "\<bar>fl64 x - x\<bar> \<le> \<bar>x\<bar> / 2 ^ 53 + 1 / (2 * SUBNORMALS)"
proof -
  note pos = SUBNORMALS_bound(1)
  define n where "n = x * SUBNORMALS"
  define s where "s = nat (bitlen \<lfloor>\<bar>n\<bar>\<rfloor> - 53)"
  define e where "e = of_int (round_even (n / 2 ^ s)) - n / 2 ^ s"
  have e: "\<bar>e\<bar> \<le> 1 / 2" unfolding e_def by (rule round_even_error)
  have "fl64 x = of_int (round_even (n / 2 ^ s)) * 2 ^ s / SUBNORMALS" by (simp add: fl64_def Let_def n_def s_def)
  also have "of_int (round_even (n / 2 ^ s)) = n / 2 ^ s + e" by (simp add: e_def)
  also have "(n / 2 ^ s + e) * 2 ^ s / SUBNORMALS = x + e * 2 ^ s / SUBNORMALS" using pos by (simp add: n_def field_simps)
  finally have "\<bar>fl64 x - x\<bar> = \<bar>e\<bar> * 2 ^ s / SUBNORMALS" using pos by (simp add: abs_mult)
  also have "\<dots> \<le> (1 / 2) * 2 ^ s / SUBNORMALS" using e pos by (intro divide_right_mono mult_right_mono) simp_all
  finally have bound: "\<bar>fl64 x - x\<bar> \<le> 2 ^ s / (2 * SUBNORMALS)" by simp
  show ?thesis
  proof (cases "s = 0")
    case True
    then have "\<bar>fl64 x - x\<bar> \<le> 1 / (2 * SUBNORMALS)" using bound by simp
    moreover have "0 \<le> \<bar>x\<bar> / 2 ^ 53" by simp
    ultimately show ?thesis by linarith
  next
    case False
    have "0 < \<lfloor>\<bar>n\<bar>\<rfloor>"
    proof (rule ccontr)
      assume "\<not> 0 < \<lfloor>\<bar>n\<bar>\<rfloor>"
      then have "\<lfloor>\<bar>n\<bar>\<rfloor> = 0" by (simp add: order.antisym)
      then show False using False by (simp add: s_def)
    qed
    then have "2 ^ nat (bitlen \<lfloor>\<bar>n\<bar>\<rfloor> - 1) \<le> \<lfloor>\<bar>n\<bar>\<rfloor>" using bitlen_bounds by blast
    moreover have "nat (bitlen \<lfloor>\<bar>n\<bar>\<rfloor> - 1) = s + 52" using False by (simp add: s_def)
    ultimately have "(2::int) ^ (s + 52) \<le> \<lfloor>\<bar>n\<bar>\<rfloor>" by simp
    then have "of_int (2 ^ (s + 52)) \<le> \<bar>n\<bar>" by (simp only: le_floor_iff)
    then have "2 ^ s * 2 ^ 52 \<le> \<bar>x\<bar> * SUBNORMALS" using pos by (simp add: n_def abs_mult power_add)
    then have "2 ^ s / (2 * SUBNORMALS) \<le> \<bar>x\<bar> / 2 ^ 53" using pos by (simp add: field_simps)
    moreover have "0 \<le> 1 / (2 * SUBNORMALS)" using pos by simp
    ultimately show ?thesis using bound by linarith
  qed
qed

lemma fl64_int:
  assumes "\<bar>i\<bar> < 2 ^ 53"
  shows "fl64 (of_int i) = of_int i"
proof -
  obtain P :: nat where P: "SUBNORMALS = 2 ^ P" unfolding SUBNORMALS_def by blast
  define k where "k = i * 2 ^ P"
  have n: "of_int i * SUBNORMALS = of_int k" by (simp add: P k_def)
  have floor: "\<lfloor>\<bar>of_int k :: rat\<bar>\<rfloor> = \<bar>k\<bar>" by (simp flip: of_int_abs)
  define s where "s = nat (bitlen \<bar>k\<bar> - 53)"
  have "\<bar>k\<bar> < 2 ^ 53 * 2 ^ P" using assms by (simp add: k_def abs_mult)
  then have "\<bar>k\<bar> < 2 ^ nat (int (53 + P))" by (simp only: nat_int power_add)
  then have "bitlen \<bar>k\<bar> \<le> int (53 + P)" by (simp only: bitlen_le_iff_power of_nat_0_le_iff simp_thms)
  then have "s \<le> P" by (simp add: s_def)
  then have "(2::int) ^ P = 2 ^ (P - s) * 2 ^ s" by (simp flip: power_add)
  then have "of_int k / 2 ^ s = (of_int (i * 2 ^ (P - s)) :: rat)" by (simp add: k_def)
  then have "fl64 (of_int i) = of_int (i * 2 ^ (P - s)) * 2 ^ s / SUBNORMALS"
    unfolding fl64_def Let_def n floor s_def [symmetric] by (simp only: round_even_int)
  also have "\<dots> = of_int (i * 2 ^ (P - s) * 2 ^ s) / SUBNORMALS" by simp
  also have "i * 2 ^ (P - s) * 2 ^ s = k" using \<open>s \<le> P\<close> by (simp add: k_def flip: power_add)
  also have "of_int k / SUBNORMALS = (of_int i :: rat)" using SUBNORMALS_bound(1) by (simp flip: n)
  finally show ?thesis .
qed

interpretation binary64: number_js fl64
  by unfold_locales (rule fl64_error, rule fl64_int)

section \<open>Money in numbers\<close>

text \<open>The double that an amount of \<open>k\<close> paise is read as, and how far a computed number may be from it: \<open>n\<close> steps of \<open>STEP\<close>.
  Amounts stay within \<open>PAISE_LIMIT\<close> paise, a thousand million.\<close>

definition PAISE_LIMIT :: int where
  "PAISE_LIMIT = 100000000000"

definition STEP :: rat where
  "STEP = 1 / 1000000"

definition near :: "nat \<Rightarrow> rat \<Rightarrow> int \<Rightarrow> bool" where
  "near n v k \<longleftrightarrow> \<bar>v - of_int k / 100\<bar> \<le> of_nat n * STEP"

text \<open>\<open>Math.round((v + Number.EPSILON * Math.sign(v || 1)) * 100) / 100\<close>.\<close>

definition EPSILON :: rat where
  "EPSILON = 1 / 2 ^ 52"

definition num_round2 :: "(rat \<Rightarrow> rat) \<Rightarrow> rat \<Rightarrow> rat" where
  "num_round2 fl v = fl (of_int \<lfloor>fl (fl (v + EPSILON * (if v < 0 then - 1 else 1)) * 100) + 1 / 2\<rfloor> / 100)"

text \<open>The paise a number stands for, and the numbers that stand for whole paise: a double of a two-place amount, or a sum of two.\<close>

definition to_paise :: "rat \<Rightarrow> int" where
  "to_paise v = \<lfloor>v * 100 + 1 / 2\<rfloor>"

definition whole_paise :: "rat \<Rightarrow> bool" where
  "whole_paise v \<longleftrightarrow> near 3 v (to_paise v)"

lemma near_error:
  assumes "near n v k" and "n \<le> 4000"
  shows "\<bar>v - of_int k / 100\<bar> \<le> 4 / 1000"
proof -
  have "of_nat n * STEP \<le> 4 / 1000" using assms(2) by (simp add: STEP_def)
  then show ?thesis using assms(1) unfolding near_def by (rule order_trans [rotated])
qed

lemma near_paise:
  assumes "near n v k" and "n \<le> 4000"
  shows "to_paise v = k"
  using near_error [OF assms] unfolding to_paise_def by (intro floor_unique) linarith+

lemma near_mono:
  assumes "near m v k" and "m \<le> n"
  shows "near n v k"
proof -
  have "of_nat m * STEP \<le> of_nat n * STEP" using assms(2) by (intro mult_right_mono) (simp_all add: STEP_def)
  then show ?thesis using assms(1) unfolding near_def by (rule order_trans [rotated])
qed

lemma near_uminus: "near n v k \<Longrightarrow> near n (- v) (- k)"
  by (simp add: near_def abs_minus_commute algebra_simps)

lemma near_abs:
  assumes "near n v k"
  shows "near n \<bar>v\<bar> \<bar>k\<bar>"
proof -
  have "\<bar>\<bar>v\<bar> - \<bar>of_int k / 100\<bar>\<bar> \<le> \<bar>v - of_int k / 100\<bar>" by (rule abs_triangle_ineq3)
  then show ?thesis using assms by (simp add: near_def)
qed

lemma whole_paise_near: "whole_paise v \<Longrightarrow> near 3 v (to_paise v)"
  by (simp add: whole_paise_def)

lemma whole_paise_abs [simp]: "whole_paise v \<Longrightarrow> whole_paise \<bar>v\<bar>" "whole_paise v \<Longrightarrow> to_paise \<bar>v\<bar> = \<bar>to_paise v\<bar>"
  using near_abs [of 3 v "to_paise v"] near_paise [of 3 "\<bar>v\<bar>" "\<bar>to_paise v\<bar>"] by (simp_all add: whole_paise_def)

lemma whole_paise_uminus [simp]: "whole_paise v \<Longrightarrow> whole_paise (- v)" "whole_paise v \<Longrightarrow> to_paise (- v) = - to_paise v"
  using near_uminus [of 3 v "to_paise v"] near_paise [of 3 "- v" "- to_paise v"] by (simp_all add: whole_paise_def)

lemma paise_0 [simp]: "to_paise 0 = 0" "whole_paise 0"
proof -
  have "near 3 0 0" by (simp add: near_def STEP_def)
  then show "to_paise 0 = 0" "whole_paise 0" using near_paise [of 3 0 0] by (simp_all add: whole_paise_def)
qed

context number_js
begin

lemma fl_step: "\<bar>x\<bar> \<le> 2000000000 \<Longrightarrow> \<bar>fl x - x\<bar> \<le> STEP"
proof -
  assume x: "\<bar>x\<bar> \<le> 2000000000"
  have "1 / (2 * SUBNORMALS) \<le> 1 / (2 * 2 ^ 60)" using SUBNORMALS_bound by (intro divide_left_mono) simp_all
  then have "\<bar>fl x - x\<bar> \<le> \<bar>x\<bar> / 2 ^ 53 + 1 / (2 * 2 ^ 60)" using fl_error [of x] by linarith
  also have "\<dots> \<le> STEP" using x by (simp add: STEP_def)
  finally show ?thesis .
qed

lemma near_money: "\<bar>k\<bar> \<le> PAISE_LIMIT \<Longrightarrow> near 1 (fl (of_int k / 100)) k"
proof -
  assume "\<bar>k\<bar> \<le> PAISE_LIMIT"
  then have "\<bar>of_int k :: rat\<bar> \<le> 100000000000" by (simp add: PAISE_LIMIT_def flip: of_int_abs)
  then show ?thesis using fl_step [of "of_int k / 100"] by (simp add: near_def)
qed

lemma near_value: "near n v k \<Longrightarrow> \<bar>k\<bar> \<le> PAISE_LIMIT \<Longrightarrow> n \<le> 1000000 \<Longrightarrow> \<bar>v\<bar> \<le> 1000000001"
proof -
  assume n: "near n v k" and k: "\<bar>k\<bar> \<le> PAISE_LIMIT" and s: "n \<le> 1000000"
  have "\<bar>of_int k :: rat\<bar> \<le> 100000000000" using k by (simp add: PAISE_LIMIT_def flip: of_int_abs)
  moreover have "of_nat n * STEP \<le> 1" using s by (simp add: STEP_def)
  then have "\<bar>v - of_int k / 100\<bar> \<le> 1" using n unfolding near_def by (rule order_trans [rotated])
  ultimately show ?thesis by linarith
qed

lemma near_add:
  assumes "near m a j" and "near n b k" and "\<bar>j + k\<bar> \<le> PAISE_LIMIT" and "m + n \<le> 1000000"
  shows "near (m + n + 1) (fl (a + b)) (j + k)"
proof -
  have d: "\<bar>(a + b) - of_int (j + k) / 100\<bar> \<le> of_nat (m + n) * STEP"
  proof -
    have "\<bar>(a - of_int j / 100) + (b - of_int k / 100)\<bar> \<le> of_nat m * STEP + of_nat n * STEP"
      using assms(1,2) unfolding near_def by (rule abs_triangle_ineq [THEN order_trans, OF add_mono])
    then show ?thesis by (simp add: add_divide_distrib algebra_simps)
  qed
  then have "\<bar>a + b\<bar> \<le> 1000000001" using near_value [of "m + n" "a + b" "j + k"] assms(3,4) by (simp add: near_def)
  then have "\<bar>fl (a + b) - (a + b)\<bar> \<le> STEP" by (intro fl_step) simp
  then have "\<bar>fl (a + b) - of_int (j + k) / 100\<bar> \<le> of_nat (m + n) * STEP + STEP" using d by linarith
  then show ?thesis by (simp add: near_def algebra_simps)
qed

lemma near_diff: "near m a j \<Longrightarrow> near n b k \<Longrightarrow> \<bar>j - k\<bar> \<le> PAISE_LIMIT \<Longrightarrow> m + n \<le> 1000000 \<Longrightarrow> near (m + n + 1) (fl (a - b)) (j - k)"
  using near_add [of m a j n "- b" "- k"] near_uminus by simp

text \<open>What is within four tenths of a paisa of an amount is rounded to the paise.\<close>

lemma num_round2_near:
  assumes "near n v k" and "\<bar>k\<bar> \<le> PAISE_LIMIT" and "n \<le> 4000"
  shows "num_round2 fl v = fl (of_int k / 100)"
proof -
  define w where "w = v + EPSILON * (if v < 0 then - 1 else 1)"
  have k: "\<bar>of_int k :: rat\<bar> \<le> 100000000000" using assms(2) by (simp add: PAISE_LIMIT_def flip: of_int_abs)
  have "\<bar>v - of_int k / 100\<bar> \<le> 4 / 1000" using assms(1,3) by (rule near_error)
  moreover have "\<bar>w - v\<bar> \<le> 1 / 1000000000" by (simp add: w_def EPSILON_def)
  ultimately have w: "\<bar>w - of_int k / 100\<bar> \<le> 41 / 10000" by linarith
  then have "\<bar>w\<bar> \<le> 2000000000" using k by linarith
  then have fw: "\<bar>fl w - of_int k / 100\<bar> \<le> 42 / 10000" using w fl_step [of w] unfolding STEP_def by linarith
  then have m: "\<bar>fl w * 100 - of_int k\<bar> \<le> 42 / 100" by linarith
  have "\<bar>fl w * 100\<bar> \<le> 100000000000 + 1" using m k by linarith
  moreover have "1 / (2 * SUBNORMALS) \<le> 1 / (2 * 2 ^ 60)" using SUBNORMALS_bound by (intro divide_left_mono) simp_all
  ultimately have "\<bar>fl (fl w * 100) - fl w * 100\<bar> \<le> 1 / 1000" using fl_error [of "fl w * 100"] by simp
  then have "\<bar>fl (fl w * 100) - of_int k\<bar> \<le> 43 / 100" using m by linarith
  then have "\<lfloor>fl (fl w * 100) + 1 / 2\<rfloor> = k" by (intro floor_unique) linarith+
  then show ?thesis by (simp add: num_round2_def w_def [symmetric])
qed

lemma money_zero: "\<bar>k\<bar> \<le> PAISE_LIMIT \<Longrightarrow> fl (of_int k / 100) = 0 \<longleftrightarrow> k = 0"
proof
  assume k: "\<bar>k\<bar> \<le> PAISE_LIMIT" and z: "fl (of_int k / 100) = 0"
  show "k = 0"
  proof (rule ccontr)
    assume "k \<noteq> 0"
    then have "1 \<le> \<bar>of_int k :: rat\<bar>" by (simp flip: of_int_abs)
    then show False using near_money [OF k] z by (simp add: near_def STEP_def)
  qed
next
  assume "k = 0"
  then show "fl (of_int k / 100) = 0" using fl_int [of 0] by simp
qed

lemma money_eq: "\<bar>j\<bar> \<le> PAISE_LIMIT \<Longrightarrow> \<bar>k\<bar> \<le> PAISE_LIMIT \<Longrightarrow> fl (of_int j / 100) = fl (of_int k / 100) \<longleftrightarrow> j = k"
  by (metis near_paise near_money one_le_numeral)

lemma money_whole:
  assumes "\<bar>k\<bar> \<le> PAISE_LIMIT"
  shows "to_paise (fl (of_int k / 100)) = k" and "whole_paise (fl (of_int k / 100))"
proof -
  show p: "to_paise (fl (of_int k / 100)) = k" by (rule near_paise [OF near_money [OF assms]]) simp
  have "near 3 (fl (of_int k / 100)) k" by (rule near_mono [OF near_money [OF assms]]) simp
  then show "whole_paise (fl (of_int k / 100))" by (simp only: whole_paise_def p)
qed

lemma num_round2_paise: "whole_paise v \<Longrightarrow> \<bar>to_paise v\<bar> \<le> PAISE_LIMIT \<Longrightarrow> num_round2 fl v = fl (of_int (to_paise v) / 100)"
  by (erule num_round2_near [where n = 3, OF whole_paise_near]) simp_all

text \<open>Summing numbers \<open>x\<close>, each \<open>m\<close> steps from \<open>j\<close> paise.\<close>

lemma fl_sum_near:
  assumes "\<forall>(m, x, j) \<in> set ts. near m x j" and "near n v k" and "\<bar>k\<bar> + (\<Sum>t\<leftarrow>ts. \<bar>snd (snd t)\<bar>) \<le> PAISE_LIMIT"
    and "n + (\<Sum>t\<leftarrow>ts. fst t + 1) \<le> 1000000"
  shows "near (n + (\<Sum>t\<leftarrow>ts. fst t + 1)) (foldl (\<lambda>s x. fl (s + x)) v (map (\<lambda>t. fst (snd t)) ts)) (k + (\<Sum>t\<leftarrow>ts. snd (snd t)))"
  using assms
proof (induction ts arbitrary: n v k)
  case Nil
  then show ?case by simp
next
  case (Cons t ts)
  obtain m x j where t: "t = (m, x, j)" by (cases t)
  have "0 \<le> (\<Sum>t\<leftarrow>ts. \<bar>snd (snd t)\<bar>)" by (rule sum_list_nonneg) auto
  then have "\<bar>k + j\<bar> \<le> PAISE_LIMIT" "\<bar>k + j\<bar> + (\<Sum>t\<leftarrow>ts. \<bar>snd (snd t)\<bar>) \<le> PAISE_LIMIT" using Cons.prems(3) by (simp_all add: t)
  moreover have "near (n + m + 1) (fl (v + x)) (k + j)" by (rule near_add) (use Cons.prems calculation in \<open>simp_all add: t\<close>)
  ultimately have "near ((n + m + 1) + (\<Sum>t\<leftarrow>ts. fst t + 1)) (foldl (\<lambda>s x. fl (s + x)) (fl (v + x)) (map (\<lambda>t. fst (snd t)) ts))
      ((k + j) + (\<Sum>t\<leftarrow>ts. snd (snd t)))"
    using Cons.prems(1,4) by (intro Cons.IH) (simp_all add: t)
  then show ?case by (simp add: t add.assoc add.left_commute)
qed

end

end
