(* ===== verification/Sales_Legs.thy ===== *)
theory Sales_Legs
  imports Number_Js Voucher_Lines
begin

text \<open>
  The legs a sales document posts (\<open>modules/sales/posting/sales-leg.sources.ts\<close>), in numbers: a bill's and a sale return's legs in
  their fixed order, the tax buckets they are built from (\<open>bucketTaxes\<close> of \<open>sales-doc.utils.ts\<close>), and the checks
  \<open>VoucherPostingService.postLegs\<close> makes of a leg list before it writes one (\<open>common/posting/voucher-posting.service.ts\<close>).
\<close>

section \<open>Arithmetic on numbers\<close>

text \<open>\<open>a + b\<close>, \<open>a - b\<close> and \<open>s + x1 + x2 + \<dots>\<close> on doubles.\<close>

abbreviation num_add :: "rat \<Rightarrow> rat \<Rightarrow> rat" where
  "num_add a b \<equiv> fl64 (a + b)"

abbreviation num_sub :: "rat \<Rightarrow> rat \<Rightarrow> rat" where
  "num_sub a b \<equiv> fl64 (a - b)"

abbreviation num_sum :: "rat \<Rightarrow> rat list \<Rightarrow> rat" where
  "num_sum s xs \<equiv> foldl (\<lambda>s x. fl64 (s + x)) s xs"

abbreviation num2 :: "rat \<Rightarrow> rat" where
  "num2 \<equiv> num_round2 fl64"

section \<open>The shapes\<close>

text \<open>A voucher leg names a role or a ledger; \<open>drCr\<close> is its side.\<close>

record voucher_leg =
  vl_role :: "string option"
  vl_ledgerId :: "string option"
  vl_drCr :: DrCr
  vl_amount :: rat
  vl_taxId :: "string option"
  vl_supplyNature :: "supply_nature option"
  vl_remarks :: "string option"
  vl_docId :: "string option"
  vl_docAccYear :: "string option"
  vl_docRefno :: "string option"
  vl_field :: "string option"
  vl_roleTag :: "string option"
  vl_oppLedgerId :: "string option"

text \<open>A literal that sets the side and the amount, every other field \<open>undefined\<close>.\<close>

definition leg_of :: "DrCr \<Rightarrow> rat \<Rightarrow> voucher_leg" where
  "leg_of d v = \<lparr> vl_role = None, vl_ledgerId = None, vl_drCr = d, vl_amount = v, vl_taxId = None, vl_supplyNature = None,
     vl_remarks = None, vl_docId = None, vl_docAccYear = None, vl_docRefno = None, vl_field = None, vl_roleTag = None,
     vl_oppLedgerId = None \<rparr>"

text \<open>\<open>{ role, roleTag: role, drCr, amount, field }\<close>: a leg on a role.\<close>

definition role_leg :: "string \<Rightarrow> DrCr \<Rightarrow> rat \<Rightarrow> string \<Rightarrow> voucher_leg" where
  "role_leg r d v f = (leg_of d v)\<lparr> vl_role := Some r, vl_roleTag := Some r, vl_field := Some f \<rparr>"

definition ledger_leg :: "string option \<Rightarrow> DrCr \<Rightarrow> rat \<Rightarrow> string option \<Rightarrow> voucher_leg" where
  "ledger_leg l d v r = (leg_of d v)\<lparr> vl_ledgerId := l, vl_remarks := r \<rparr>"

record tax_bucket =
  tb_taxId :: "string option"
  tb_cgst :: rat
  tb_sgst :: rat
  tb_igst :: rat
  tb_cess :: rat
  tb_acess :: rat

record charge_leg_input =
  ch_ledgerId :: "string option"
  ch_amount :: rat
  ch_separatelyPosted :: bool
  ch_taxId :: "string option"
  ch_cgst :: "rat option"
  ch_sgst :: "rat option"
  ch_igst :: "rat option"
  ch_cess :: "rat option"
  ch_name :: "string option"

record tender_leg_input =
  tl_tenderTypeId :: int
  tl_tenderLedgerId :: "string option"
  tl_amount :: rat
  tl_isLoyalty :: bool
  tl_isCredit :: bool
  tl_name :: "string option"

record set_off_input =
  so_ledgerId :: string
  so_amount :: rat
  so_remarks :: "string option"

record return_leg_input =
  li_partyLedgerId :: string
  li_supplyNature :: supply_nature
  li_salesAmount :: rat
  li_taxes :: "tax_bucket list"
  li_charges :: "charge_leg_input list"
  li_cashDiscount :: rat
  li_schemeDiscount :: rat
  li_roundOff :: rat
  li_tenders :: "tender_leg_input list"
  li_cogsAmount :: rat

record bill_leg_input = return_leg_input +
  li_tcsAmount :: rat
  li_setOffs :: "set_off_input list"

text \<open>The \<open>direction\<close> of a pair of legs: \<open>'ISSUE' | 'RETURN'\<close> of the goods, \<open>'BILL' | 'RETURN'\<close> of a tender.\<close>

datatype leg_direction = ISSUE | BILL | RETURN

section \<open>The builders\<close>

text \<open>\<open>c.cdSepPost === true || c.cdBeforeTax !== true\<close>, each field possibly null or missing.\<close>

definition chargePostsSeparately :: "bool option \<Rightarrow> bool option \<Rightarrow> bool" where
  "chargePostsSeparately cdSepPost cdBeforeTax \<longleftrightarrow> cdSepPost = Some True \<or> cdBeforeTax \<noteq> Some True"

definition splitRegisterCharges :: "rat list \<Rightarrow> rat \<times> rat" where
  "splitRegisterCharges nets =
     (let (other, deduction) = foldl (\<lambda>(other, deduction) n. if 0 \<le> n then (num_add other n, deduction) else (other, num_sub deduction n)) (0, 0) nets
      in (num2 other, num2 deduction))"

text \<open>A zero leg is not pushed; another is pushed with its amount rounded.\<close>

definition push_leg :: "voucher_leg list \<Rightarrow> voucher_leg \<Rightarrow> voucher_leg list" where
  "push_leg legs l = (if num2 (vl_amount l) \<noteq> 0 then legs @ [l\<lparr> vl_amount := num2 (vl_amount l) \<rparr>] else legs)"

definition bucket_heads :: "tax_bucket \<Rightarrow> (string \<times> rat) list" where
  "bucket_heads b = [(''OUTPUT_CGST'', tb_cgst b), (''OUTPUT_SGST'', tb_sgst b), (''OUTPUT_IGST'', tb_igst b),
     (''OUTPUT_CESS'', tb_cess b), (''OUTPUT_ACESS'', tb_acess b)]"

definition pushTaxLegs :: "voucher_leg list \<Rightarrow> tax_bucket list \<Rightarrow> supply_nature \<Rightarrow> DrCr \<Rightarrow> voucher_leg list" where
  "pushTaxLegs legs buckets nature d = foldl (\<lambda>legs b. foldl (\<lambda>legs (role, v).
       push_leg legs ((role_leg role d v ''taxes'')\<lparr> vl_taxId := tb_taxId b, vl_supplyNature := Some nature \<rparr>))
     legs (bucket_heads b)) legs buckets"

definition charge_bucket :: "charge_leg_input \<Rightarrow> tax_bucket" where
  "charge_bucket c = \<lparr> tb_taxId = ch_taxId c, tb_cgst = or_else (ch_cgst c) 0, tb_sgst = or_else (ch_sgst c) 0,
     tb_igst = or_else (ch_igst c) 0, tb_cess = or_else (ch_cess c) 0, tb_acess = 0 \<rparr>"

definition opposite_side :: "DrCr \<Rightarrow> DrCr" where
  "opposite_side d = (case d of DR \<Rightarrow> CR | CR \<Rightarrow> DR)"

text \<open>A charge on the side \<open>d\<close>, a deduction on the other.\<close>

definition charge_leg :: "DrCr \<Rightarrow> charge_leg_input \<Rightarrow> voucher_leg" where
  "charge_leg d c = (ledger_leg (ch_ledgerId c) (if 0 \<le> ch_amount c then d else opposite_side d) \<bar>ch_amount c\<bar> (ch_name c))
     \<lparr> vl_field := Some ''charges'' \<rparr>"

definition push_bill_charge :: "supply_nature \<Rightarrow> voucher_leg list \<Rightarrow> charge_leg_input \<Rightarrow> voucher_leg list" where
  "push_bill_charge nature legs c =
     (if \<not> ch_separatelyPosted c \<or> num2 (ch_amount c) = 0 then legs
      else pushTaxLegs (push_leg legs (charge_leg CR c)) [charge_bucket c] nature (if 0 \<le> ch_amount c then CR else DR))"

definition push_return_charge :: "voucher_leg list \<Rightarrow> charge_leg_input \<Rightarrow> voucher_leg list" where
  "push_return_charge legs c =
     (if \<not> ch_separatelyPosted c \<or> num2 (ch_amount c) = 0 then legs else push_leg legs (charge_leg DR c))"

definition push_round_off :: "DrCr \<Rightarrow> string \<Rightarrow> rat \<Rightarrow> voucher_leg list \<Rightarrow> voucher_leg list" where
  "push_round_off d f v legs =
     (if num2 v \<noteq> 0 then push_leg legs (role_leg ''ROUND_OFF'' (if 0 \<le> v then d else opposite_side d) \<bar>v\<bar> f) else legs)"

definition buildCogsLegs :: "rat \<Rightarrow> leg_direction \<Rightarrow> voucher_leg list" where
  "buildCogsLegs v direction =
     (if num2 v = 0 then []
      else [role_leg ''COGS'' (if direction = ISSUE then DR else CR) \<bar>v\<bar> ''cogsAmt'',
            role_leg ''INVENTORY'' (if direction = ISSUE then CR else DR) \<bar>v\<bar> ''cogsAmt''])"

definition buildTenderLegs :: "tender_leg_input \<Rightarrow> string \<Rightarrow> leg_direction \<Rightarrow> voucher_leg list" where
  "buildTenderLegs t party direction =
     (if tl_isCredit t \<or> num2 (tl_amount t) = 0 then []
      else let paying = (direction = BILL); v = \<bar>tl_amount t\<bar>; d = (if paying then DR else CR)
        in [if tl_isLoyalty t then role_leg ''LOYALTY_REDEMPTION'' d v ''tenders''
            else (ledger_leg (tl_tenderLedgerId t) d v (tl_name t))\<lparr> vl_field := Some ''tenders'' \<rparr>,
            ledger_leg (Some party) (opposite_side d) v (tl_name t)])"

definition push_set_off :: "string \<Rightarrow> voucher_leg list \<Rightarrow> set_off_input \<Rightarrow> voucher_leg list" where
  "push_set_off party legs s =
     (if so_ledgerId s = party then legs
      else let remarks = Some (or_else (so_remarks s) ''Advance adjusted'')
        in push_leg (push_leg legs (ledger_leg (Some (so_ledgerId s)) DR (so_amount s) remarks))
             (ledger_leg (Some party) CR (so_amount s) remarks))"

definition bucket_amounts :: "tax_bucket \<Rightarrow> rat list" where
  "bucket_amounts b = [tb_cgst b, tb_sgst b, tb_igst b, tb_cess b, tb_acess b]"

definition charge_amounts :: "charge_leg_input \<Rightarrow> rat list" where
  "charge_amounts c = [ch_amount c, or_else (ch_cgst c) 0, or_else (ch_sgst c) 0, or_else (ch_igst c) 0, or_else (ch_cess c) 0]"

definition taxes_sum :: "tax_bucket list \<Rightarrow> rat" where
  "taxes_sum taxes = foldl (\<lambda>s t. num_sum s (bucket_amounts t)) 0 taxes"

text \<open>What the party is debited for a bill, and credited for a return: the return leaves the charges' taxes out.\<close>

definition billPartyDebit :: "bill_leg_input \<Rightarrow> rat" where
  "billPartyDebit b =
     (let tax = taxes_sum (li_taxes b);
          charges = foldl (\<lambda>s c. num_sum s (charge_amounts c)) 0 (filter ch_separatelyPosted (li_charges b))
      in num2 (num_sub (num_sub (num_sum (li_salesAmount b) [tax, charges, li_roundOff b, li_tcsAmount b]) (li_cashDiscount b)) (li_schemeDiscount b)))"

definition returnPartyCredit :: "return_leg_input \<Rightarrow> rat" where
  "returnPartyCredit r =
     (let tax = taxes_sum (li_taxes r);
          charges = num_sum 0 (map ch_amount (filter ch_separatelyPosted (li_charges r)))
      in num2 (num_sub (num_sub (num_sum (li_salesAmount r) [tax, charges, li_roundOff r]) (li_cashDiscount r)) (li_schemeDiscount r)))"

definition buildBillLegs :: "bill_leg_input \<Rightarrow> voucher_leg list" where
  "buildBillLegs b =
     (let legs = push_leg [] (ledger_leg (Some (li_partyLedgerId b)) DR (billPartyDebit b) (Some ''Bill value''));
          legs = push_leg legs ((role_leg ''SALES'' CR (li_salesAmount b) ''sbTaxableAmt'')\<lparr> vl_supplyNature := Some (li_supplyNature b) \<rparr>);
          legs = pushTaxLegs legs (li_taxes b) (li_supplyNature b) CR;
          legs = foldl (push_bill_charge (li_supplyNature b)) legs (li_charges b);
          legs = push_leg legs (role_leg ''DISCOUNT_ALLOWED'' DR (li_cashDiscount b) ''sbCashDisc'');
          legs = push_leg legs (role_leg ''SCHEME_DISCOUNT'' DR (li_schemeDiscount b) ''sbSchDisc'');
          legs = push_round_off CR ''sbRoundOff'' (li_roundOff b) legs;
          legs = push_leg legs (role_leg ''TCS_PAYABLE'' CR (li_tcsAmount b) ''sbTcsAmt'');
          legs = legs @ buildCogsLegs (li_cogsAmount b) ISSUE;
          legs = foldl (\<lambda>legs t. legs @ buildTenderLegs t (li_partyLedgerId b) BILL) legs (li_tenders b)
      in foldl (push_set_off (li_partyLedgerId b)) legs (li_setOffs b))"

definition buildReturnLegs :: "return_leg_input \<Rightarrow> voucher_leg list" where
  "buildReturnLegs r =
     (let legs = push_leg [] (ledger_leg (Some (li_partyLedgerId r)) CR (returnPartyCredit r) (Some ''Return value''));
          legs = push_leg legs ((role_leg ''SALES_RETURN'' DR (li_salesAmount r) ''srTaxableAmt'')\<lparr> vl_supplyNature := Some (li_supplyNature r) \<rparr>);
          legs = pushTaxLegs legs (li_taxes r) (li_supplyNature r) DR;
          legs = foldl push_return_charge legs (li_charges r);
          legs = push_leg legs (role_leg ''DISCOUNT_ALLOWED'' CR (li_cashDiscount r) ''srCashDisc'');
          legs = push_leg legs (role_leg ''SCHEME_DISCOUNT'' CR (li_schemeDiscount r) ''srSchDisc'');
          legs = push_round_off DR ''srRoundOff'' (li_roundOff r) legs;
          legs = legs @ buildCogsLegs (li_cogsAmount r) RETURN
      in foldl (\<lambda>legs t. legs @ buildTenderLegs t (li_partyLedgerId r) RETURN) legs (li_tenders r))"

section \<open>The check before a voucher is written\<close>

record voucher_header =
  vh_srcDocType :: "string option"
  vh_docLabel :: "string option"
  vh_srcDocId :: "string option"
  vh_docRefno :: "string option"

text \<open>\<open>header.srcDocType ?? header.docLabel ?? 'Voucher'\<close> and \<open>header.srcDocId ?? header.docRefno ?? ''\<close>, joined and trimmed.\<close>

definition describe :: "voucher_header \<Rightarrow> string" where
  "describe h = js_trim (or_else (or_maybe (vh_srcDocType h) (vh_docLabel h)) ''Voucher'' @ '' '' @
     or_else (or_maybe (vh_srcDocId h) (vh_docRefno h)) [])"

text \<open>The refusals: which document has no legs, what a leg's ledger is missing, and for an imbalance both sides, whether the debits are the heavier, and by how much.\<close>

datatype leg_refusal = No_legs string | Unresolved string | Unbalanced string rat rat bool rat

definition sumSides :: "voucher_leg list \<Rightarrow> rat \<times> rat" where
  "sumSides legs =
     (let (dr, cr) = foldl (\<lambda>(dr, cr) l. if vl_drCr l = DR then (num_add dr \<bar>vl_amount l\<bar>, cr) else (dr, num_add cr \<bar>vl_amount l\<bar>)) (0, 0) legs
      in (num2 dr, num2 cr))"

definition assertBalanced :: "voucher_header \<Rightarrow> voucher_leg list \<Rightarrow> leg_refusal + unit" where
  "assertBalanced h legs =
     (let (dr, cr) = sumSides legs; diff = num2 (num_sub dr cr)
      in throw_if (num2 dr \<noteq> num2 cr) (Unbalanced (describe h) (num2 dr) (num2 cr) (0 < diff) \<bar>diff\<bar>))"

text \<open>What \<open>postLegs\<close> checks of the legs it is given: the zero ones are dropped, one must be left, their ledgers are resolved
  (\<open>resolve\<close>, a query), and the sides must agree. The legs it writes, each with its ledger.\<close>

definition checked_legs ::
  "(voucher_leg list \<Rightarrow> leg_refusal + string option list) \<Rightarrow> voucher_header \<Rightarrow> voucher_leg list \<Rightarrow> leg_refusal + (voucher_leg \<times> string option) list" where
  "checked_legs resolve h doc_legs =
     (let legs = filter (\<lambda>l. num2 (vl_amount l) \<noteq> 0) doc_legs
      in if legs = [] then Inl (No_legs (describe h))
         else e_bind (resolve legs) (\<lambda>ledgers. e_bind (assertBalanced h legs) (\<lambda>_. Inr (zip legs ledgers))))"

section \<open>The rows that are written\<close>

text \<open>What \<open>insertLegs\<close> takes of a leg for its row, beside the columns every row of a voucher shares. The amount is text with two decimals,
  here in paise: \<open>money(v)\<close> is \<open>round2(v).toFixed(2)\<close>.\<close>

record leg_row =
  lr_rowNo :: nat
  lr_drCr :: DrCr
  lr_ledgerId :: "string option"
  lr_oppLedgerId :: "string option"
  lr_paise :: int
  lr_remarks :: "string option"
  lr_docId :: "string option"
  lr_docRefno :: "string option"
  lr_docAccYear :: "string option"
  lr_role :: "string option"

definition money_paise :: "rat \<Rightarrow> int" where
  "money_paise v = to_paise (num2 v)"

definition leg_row_of :: "nat \<Rightarrow> voucher_leg \<Rightarrow> string option \<Rightarrow> leg_row" where
  "leg_row_of i l ledger = \<lparr> lr_rowNo = i, lr_drCr = vl_drCr l, lr_ledgerId = ledger, lr_oppLedgerId = vl_oppLedgerId l,
     lr_paise = money_paise \<bar>vl_amount l\<bar>, lr_remarks = vl_remarks l, lr_docId = vl_docId l, lr_docRefno = vl_docRefno l,
     lr_docAccYear = vl_docAccYear l, lr_role = or_maybe (vl_roleTag l) (vl_role l) \<rparr>"

definition insertLegs :: "(voucher_leg \<times> string option) list \<Rightarrow> leg_row list" where
  "insertLegs legs = map (\<lambda>(i, l, ledger). leg_row_of (i + 1) l ledger) (enumerate 0 legs)"

section \<open>Tax buckets\<close>

text \<open>A line's taxes as they are given, \<open>acess\<close> perhaps missing.\<close>

record tax_row =
  tr_taxId :: "string option"
  tr_cgst :: rat
  tr_sgst :: rat
  tr_igst :: rat
  tr_cess :: rat
  tr_acess :: "rat option"

text \<open>One bucket for each \<open>taxId\<close>, in the order of their first rows.\<close>

definition add_to_bucket :: "tax_bucket \<Rightarrow> tax_row \<Rightarrow> tax_bucket" where
  "add_to_bucket b r = b\<lparr> tb_cgst := num_add (tb_cgst b) (tr_cgst r), tb_sgst := num_add (tb_sgst b) (tr_sgst r),
     tb_igst := num_add (tb_igst b) (tr_igst r), tb_cess := num_add (tb_cess b) (tr_cess r),
     tb_acess := num_add (tb_acess b) (or_else (tr_acess r) 0) \<rparr>"

definition bucket_row :: "(string \<times> tax_bucket) list \<Rightarrow> tax_row \<Rightarrow> (string \<times> tax_bucket) list" where
  "bucket_row by_key r =
     (let key = or_else (tr_taxId r) ''*'';
          b = or_else (jmap_get by_key key) \<lparr> tb_taxId = tr_taxId r, tb_cgst = 0, tb_sgst = 0, tb_igst = 0, tb_cess = 0, tb_acess = 0 \<rparr>
      in jmap_set key (add_to_bucket b r) by_key)"

definition bucketTaxes :: "tax_row list \<Rightarrow> tax_bucket list" where
  "bucketTaxes rows = map (\<lambda>(_, b). b\<lparr> tb_cgst := num2 (tb_cgst b), tb_sgst := num2 (tb_sgst b), tb_igst := num2 (tb_igst b),
     tb_cess := num2 (tb_cess b), tb_acess := num2 (tb_acess b) \<rparr>) (foldl bucket_row [] rows)"

end
