(* ===== verification/Sales_Balance.thy ===== *)
theory Sales_Balance
  imports Sales_Legs
begin

text \<open>
  A bill's legs and a return's legs balance: the amounts the builders push, counted in whole paise against what is summed in doubles.
\<close>

section \<open>A leg list counted in paise\<close>

text \<open>The double an amount of \<open>k\<close> paise is.\<close>

definition rupees :: "int \<Rightarrow> rat" where
  "rupees k = fl64 (of_int k / 100)"

definition legs_side :: "DrCr \<Rightarrow> voucher_leg list \<Rightarrow> int" where
  "legs_side d legs = (\<Sum>l\<leftarrow>legs. if vl_drCr l = d then \<bar>to_paise (vl_amount l)\<bar> else 0)"

definition side_amount :: "DrCr \<Rightarrow> DrCr \<Rightarrow> int \<Rightarrow> int" where
  "side_amount d side x = (if side = d then \<bar>x\<bar> else 0)"

text \<open>\<open>legs_tally n D C legs\<close>: at most \<open>n\<close> legs, of whole paise, \<open>D\<close> on the debit side and \<open>C\<close> on the credit side.\<close>

definition legs_tally :: "nat \<Rightarrow> int \<Rightarrow> int \<Rightarrow> voucher_leg list \<Rightarrow> bool" where
  "legs_tally n D C legs \<longleftrightarrow> length legs \<le> n \<and> legs_side DR legs = D \<and> legs_side CR legs = C \<and> (\<forall>l \<in> set legs. whole_paise (vl_amount l))"

definition sound_amount :: "rat \<Rightarrow> bool" where
  "sound_amount v \<longleftrightarrow> whole_paise v \<and> \<bar>to_paise v\<bar> \<le> PAISE_LIMIT"

lemma sound_amount_abs [simp]: "sound_amount v \<Longrightarrow> sound_amount \<bar>v\<bar>" "sound_amount v \<Longrightarrow> to_paise \<bar>v\<bar> = \<bar>to_paise v\<bar>"
  by (simp_all add: sound_amount_def)

lemma sound_amount_0 [simp]: "sound_amount 0"
  by (simp add: sound_amount_def PAISE_LIMIT_def)

lemma sound_whole [simp]: "sound_amount v \<Longrightarrow> whole_paise v"
  by (simp add: sound_amount_def)

lemma num2_sound: "sound_amount v \<Longrightarrow> num2 v = fl64 (of_int (to_paise v) / 100)"
  by (simp add: sound_amount_def binary64.num_round2_paise)

lemma num2_zero: "sound_amount v \<Longrightarrow> num2 v = 0 \<longleftrightarrow> to_paise v = 0"
  by (simp add: num2_sound sound_amount_def binary64.money_zero)

lemma num2_whole [simp]: "sound_amount v \<Longrightarrow> to_paise (num2 v) = to_paise v" "sound_amount v \<Longrightarrow> whole_paise (num2 v)"
  by (simp_all add: num2_sound sound_amount_def binary64.money_whole)

lemma legs_side_nonneg: "0 \<le> legs_side d legs"
  unfolding legs_side_def by (rule sum_list_nonneg) auto

lemma tally_nil: "legs_tally 0 0 0 []"
  by (simp add: legs_tally_def legs_side_def)

lemma tally_append: "legs_tally n D C legs \<Longrightarrow> legs_tally m E F ls \<Longrightarrow> legs_tally (n + m) (D + E) (C + F) (legs @ ls)"
  by (auto simp: legs_tally_def legs_side_def)

lemma tally_leg:
  "whole_paise (vl_amount l) \<Longrightarrow> legs_tally 1 (side_amount DR (vl_drCr l) (to_paise (vl_amount l))) (side_amount CR (vl_drCr l) (to_paise (vl_amount l))) [l]"
  by (simp add: legs_tally_def legs_side_def side_amount_def)

lemma tally_weaken: "legs_tally n D C legs \<Longrightarrow> n \<le> m \<Longrightarrow> legs_tally m D C legs"
  by (simp add: legs_tally_def)

lemma on_side_0 [simp]: "side_amount d s 0 = 0"
  by (simp add: side_amount_def)

lemma tally_push:
  assumes "legs_tally n D C legs" and "sound_amount (vl_amount l)"
  shows "legs_tally (n + 1) (D + side_amount DR (vl_drCr l) (to_paise (vl_amount l))) (C + side_amount CR (vl_drCr l) (to_paise (vl_amount l))) (push_leg legs l)"
proof (cases "to_paise (vl_amount l) = 0")
  case True
  then show ?thesis using assms tally_weaken [of n D C legs "n + 1"] by (simp add: push_leg_def num2_zero)
next
  case False
  let ?l = "l\<lparr> vl_amount := num2 (vl_amount l) \<rparr>"
  have "legs_tally 1 (side_amount DR (vl_drCr l) (to_paise (vl_amount l))) (side_amount CR (vl_drCr l) (to_paise (vl_amount l))) [?l]"
    using tally_leg [of ?l] assms(2) by simp
  from tally_append [OF assms(1) this] show ?thesis using assms(2) False by (simp add: push_leg_def num2_zero)
qed

lemma tally_push_leg:
  "legs_tally n D C legs \<Longrightarrow> vl_drCr l = d \<Longrightarrow> vl_amount l = v \<Longrightarrow> sound_amount v \<Longrightarrow>
   legs_tally (n + 1) (D + side_amount DR d (to_paise v)) (C + side_amount CR d (to_paise v)) (push_leg legs l)"
  using tally_push by auto

lemma tally_foldl:
  assumes "\<And>n D C legs x. x \<in> set xs \<Longrightarrow> legs_tally n D C legs \<Longrightarrow> legs_tally (n + k) (D + f x) (C + g x) (step legs x)"
    and "legs_tally n D C legs"
  shows "legs_tally (n + k * length xs) (D + (\<Sum>x\<leftarrow>xs. f x)) (C + (\<Sum>x\<leftarrow>xs. g x)) (foldl step legs xs)"
  using assms
proof (induction xs arbitrary: n D C legs)
  case Nil
  then show ?case by simp
next
  case (Cons x xs)
  have "legs_tally (n + k) (D + f x) (C + g x) (step legs x)" using Cons.prems by simp
  then have "legs_tally ((n + k) + k * length xs) ((D + f x) + (\<Sum>x\<leftarrow>xs. f x)) ((C + g x) + (\<Sum>x\<leftarrow>xs. g x)) (foldl step (step legs x) xs)"
    using Cons.prems(1) by (intro Cons.IH) simp_all
  then show ?case by (simp add: algebra_simps)
qed

section \<open>What the check makes of a legs_tally\<close>

lemma num_sum_whole:
  assumes "\<forall>x \<in> set xs. whole_paise x" and "near n v k" and "\<bar>k\<bar> + (\<Sum>x\<leftarrow>xs. \<bar>to_paise x\<bar>) \<le> PAISE_LIMIT"
    and "n + 4 * length xs \<le> 1000000"
  shows "near (n + 4 * length xs) (num_sum v xs) (k + (\<Sum>x\<leftarrow>xs. to_paise x))"
  using binary64.fl_sum_near [of "map (\<lambda>x. (3, x, to_paise x)) xs" n v k] assms
  by (simp add: comp_def whole_paise_near sum_list_triv mult.commute [of 4])

lemma sumSides_fold:
  "foldl (\<lambda>(dr, cr) l. if vl_drCr l = DR then (num_add dr \<bar>vl_amount l\<bar>, cr) else (dr, num_add cr \<bar>vl_amount l\<bar>)) (a, b) legs =
   (num_sum a (map (\<lambda>l. \<bar>vl_amount l\<bar>) (filter (\<lambda>l. vl_drCr l = DR) legs)),
    num_sum b (map (\<lambda>l. \<bar>vl_amount l\<bar>) (filter (\<lambda>l. vl_drCr l = CR) legs)))"
proof (induction legs arbitrary: a b)
  case (Cons l legs)
  then show ?case by (cases "vl_drCr l") simp_all
qed simp

lemma legs_side_filter:
  assumes "\<forall>l \<in> set legs. whole_paise (vl_amount l)"
  shows "(\<Sum>x\<leftarrow>map (\<lambda>l. \<bar>vl_amount l\<bar>) (filter (\<lambda>l. vl_drCr l = d) legs). to_paise x) = legs_side d legs"
  using assms by (induction legs) (simp_all add: legs_side_def)

lemma side_sum:
  assumes "legs_tally n D C legs" and "n \<le> 1000" and "legs_side d legs \<le> PAISE_LIMIT"
  shows "num2 (num_sum 0 (map (\<lambda>l. \<bar>vl_amount l\<bar>) (filter (\<lambda>l. vl_drCr l = d) legs))) = rupees (legs_side d legs)"
proof -
  let ?xs = "map (\<lambda>l. \<bar>vl_amount l\<bar>) (filter (\<lambda>l. vl_drCr l = d) legs)"
  have whole: "\<forall>l \<in> set legs. whole_paise (vl_amount l)" and len: "length legs \<le> n" using assms(1) by (simp_all add: legs_tally_def)
  have total: "(\<Sum>x\<leftarrow>?xs. to_paise x) = legs_side d legs" using whole by (rule legs_side_filter)
  have pos: "\<forall>x \<in> set ?xs. whole_paise x \<and> 0 \<le> to_paise x" using whole by auto
  then have abs: "(\<Sum>x\<leftarrow>?xs. \<bar>to_paise x\<bar>) = (\<Sum>x\<leftarrow>?xs. to_paise x)" by (intro arg_cong [where f = sum_list] map_cong) auto
  have nonneg: "0 \<le> legs_side d legs" by (rule legs_side_nonneg)
  have "length ?xs \<le> 1000" using le_trans [OF length_filter_le le_trans [OF len assms(2)], of "\<lambda>l. vl_drCr l = d"] by simp
  moreover have "near 0 0 0" by (simp add: near_def)
  ultimately have "near (4 * length ?xs) (num_sum 0 ?xs) (legs_side d legs)"
    using num_sum_whole [of ?xs 0 0 0] pos abs total assms(3) by simp
  then show ?thesis using binary64.num_round2_near [of "4 * length ?xs"] nonneg assms(3) \<open>length ?xs \<le> 1000\<close>
    by (simp add: rupees_def)
qed

lemma sumSides_tally:
  assumes "legs_tally n D C legs" and "n \<le> 1000" and "D \<le> PAISE_LIMIT" and "C \<le> PAISE_LIMIT"
  shows "sumSides legs = (rupees D, rupees C)" and "0 \<le> D" and "0 \<le> C"
proof -
  have side: "legs_side DR legs = D" "legs_side CR legs = C" using assms(1) by (simp_all add: legs_tally_def)
  show "sumSides legs = (rupees D, rupees C)"
    using side_sum [OF assms(1,2), of DR] side_sum [OF assms(1,2), of CR] assms(3,4) side
    by (simp add: sumSides_def sumSides_fold Let_def)
  show "0 \<le> D" "0 \<le> C" using side legs_side_nonneg by auto
qed

lemma num2_rupees: "\<bar>k\<bar> \<le> PAISE_LIMIT \<Longrightarrow> num2 (rupees k) = rupees k"
  using binary64.money_whole [of k] binary64.num_round2_paise [of "rupees k"] by (simp add: rupees_def)

lemma num2_diff:
  assumes "\<bar>j\<bar> \<le> PAISE_LIMIT" and "\<bar>k\<bar> \<le> PAISE_LIMIT" and "\<bar>j - k\<bar> \<le> PAISE_LIMIT"
  shows "num2 (num_sub (rupees j) (rupees k)) = rupees (j - k)"
proof -
  have "near (1 + 1 + 1) (num_sub (rupees j) (rupees k)) (j - k)"
    unfolding rupees_def by (rule binary64.near_diff [OF binary64.near_money binary64.near_money]) (use assms in simp_all)
  then show ?thesis using assms(3) unfolding rupees_def by (rule binary64.num_round2_near) simp
qed

lemma rupees_sign:
  assumes "\<bar>k\<bar> \<le> PAISE_LIMIT"
  shows "0 < rupees k \<longleftrightarrow> 0 < k" and "0 \<le> rupees k \<longleftrightarrow> 0 \<le> k" and "rupees k = 0 \<longleftrightarrow> k = 0"
proof -
  have near: "\<bar>rupees k - of_int k / 100\<bar> \<le> STEP" using binary64.near_money [OF assms] by (simp add: rupees_def near_def)
  show zero: "rupees k = 0 \<longleftrightarrow> k = 0" using binary64.money_zero [OF assms] by (simp add: rupees_def)
  consider "k = 0" | "1 \<le> k" | "k \<le> - 1" by linarith
  then have "(0 < rupees k \<longleftrightarrow> 0 < k) \<and> (0 \<le> rupees k \<longleftrightarrow> 0 \<le> k)"
  proof cases
    case 1
    then show ?thesis using zero by simp
  next
    case 2
    then have "(1 :: rat) \<le> of_int k" by simp
    then have "0 < rupees k" using near unfolding STEP_def by linarith
    then show ?thesis using 2 by simp
  next
    case 3
    then have "of_int k \<le> (- 1 :: rat)" using of_int_le_iff [of k "- 1", where 'a = rat] by simp
    then have "rupees k < 0" using near unfolding STEP_def by linarith
    then show ?thesis using 3 by simp
  qed
  then show "0 < rupees k \<longleftrightarrow> 0 < k" "0 \<le> rupees k \<longleftrightarrow> 0 \<le> k" by simp_all
qed

text \<open>What the check says of a leg list: nothing when the sides agree, or both sides, the heavier and the difference.\<close>

lemma assertBalanced_tally:
  assumes "legs_tally n D C legs" and "n \<le> 1000" and "D \<le> PAISE_LIMIT" and "C \<le> PAISE_LIMIT"
  shows "assertBalanced h legs = (if D = C then Inr () else Inl (Unbalanced (describe h) (rupees D) (rupees C) (C < D) \<bar>rupees (D - C)\<bar>))"
proof -
  have "rupees D = rupees C \<longleftrightarrow> D = C" using sumSides_tally [OF assms] assms(3,4) binary64.money_eq [of D C] by (simp add: rupees_def)
  moreover have "num2 (num_sub (rupees D) (rupees C)) = rupees (D - C)" using sumSides_tally [OF assms] assms(3,4) by (intro num2_diff) simp_all
  moreover have "0 < rupees (D - C) \<longleftrightarrow> C < D" using sumSides_tally [OF assms] assms(3,4) rupees_sign(1) [of "D - C"] by simp
  ultimately show ?thesis using sumSides_tally [OF assms] assms(3,4) by (simp add: assertBalanced_def Let_def num2_rupees)
qed

section \<open>What each builder adds\<close>

lemma drCr_part [simp]: "vl_drCr (leg_of d v) = d" "vl_amount (leg_of d v) = v" "vl_drCr (role_leg r d v f) = d" "vl_amount (role_leg r d v f) = v"
    "vl_drCr (ledger_leg l d v r') = d" "vl_amount (ledger_leg l d v r') = v"
  by (simp_all add: leg_of_def role_leg_def ledger_leg_def)

lemma on_side_sum: "(\<Sum>x\<leftarrow>xs. side_amount d s (f x)) = side_amount d s (\<Sum>x\<leftarrow>xs. \<bar>f x\<bar>)"
proof -
  have "0 \<le> (\<Sum>x\<leftarrow>xs. \<bar>f x\<bar>)" by (rule sum_list_nonneg) auto
  then show ?thesis by (simp add: side_amount_def)
qed

lemma on_side_abs [simp]: "side_amount d s \<bar>x\<bar> = side_amount d s x"
  by (simp add: side_amount_def)

definition abs_paise :: "rat list \<Rightarrow> int" where
  "abs_paise vs = (\<Sum>v\<leftarrow>vs. \<bar>to_paise v\<bar>)"

lemma abs_paise_simps [simp]: "abs_paise [] = 0" "abs_paise (v # vs) = \<bar>to_paise v\<bar> + abs_paise vs" "abs_paise (us @ vs) = abs_paise us + abs_paise vs"
  by (simp_all add: abs_paise_def)

lemma abs_paise_nonneg [simp]: "0 \<le> abs_paise vs"
  unfolding abs_paise_def by (rule sum_list_nonneg) auto

lemma abs_paise_concat: "abs_paise (concat (map f xs)) = (\<Sum>x\<leftarrow>xs. abs_paise (f x))"
  by (induction xs) simp_all

lemma abs_paise_member: "v \<in> set vs \<Longrightarrow> \<bar>to_paise v\<bar> \<le> abs_paise vs"
  by (induction vs) (auto intro: order_trans)

lemma tally_bucket:
  assumes "\<forall>v \<in> set (bucket_amounts b). sound_amount v" and "legs_tally n D C legs"
  shows "legs_tally (n + 5) (D + side_amount DR d (abs_paise (bucket_amounts b))) (C + side_amount CR d (abs_paise (bucket_amounts b)))
    (foldl (\<lambda>legs (role, v). push_leg legs ((role_leg role d v ''taxes'')\<lparr> vl_taxId := tb_taxId b, vl_supplyNature := Some nature \<rparr>)) legs (bucket_heads b))"
    (is "legs_tally _ _ _ (foldl ?step _ _)")
proof -
  have heads: "map snd (bucket_heads b) = bucket_amounts b" by (simp add: bucket_heads_def bucket_amounts_def)
  have "legs_tally (n + 1 * length (bucket_heads b)) (D + (\<Sum>h\<leftarrow>bucket_heads b. side_amount DR d (to_paise (snd h))))
      (C + (\<Sum>h\<leftarrow>bucket_heads b. side_amount CR d (to_paise (snd h)))) (foldl ?step legs (bucket_heads b))"
  proof (rule tally_foldl [OF _ assms(2)])
    fix n D C legs and h :: "string \<times> rat" assume h: "h \<in> set (bucket_heads b)" and t: "legs_tally n D C legs"
    have "snd h \<in> set (bucket_amounts b)" using h heads by (metis image_eqI set_map)
    then show "legs_tally (n + 1) (D + side_amount DR d (to_paise (snd h))) (C + side_amount CR d (to_paise (snd h))) (?step legs h)"
      using tally_push [OF t, of "(role_leg (fst h) d (snd h) ''taxes'')\<lparr> vl_taxId := tb_taxId b, vl_supplyNature := Some nature \<rparr>"] assms(1)
      by (simp add: case_prod_beta)
  qed
  moreover have "length (bucket_heads b) = 5" by (simp add: bucket_heads_def)
  moreover have "(\<Sum>h\<leftarrow>bucket_heads b. \<bar>to_paise (snd h)\<bar>) = abs_paise (bucket_amounts b)" by (simp add: bucket_heads_def bucket_amounts_def)
  ultimately show ?thesis by (simp add: on_side_sum)
qed

definition taxes_paise :: "tax_bucket list \<Rightarrow> int" where
  "taxes_paise bs = abs_paise (concat (map bucket_amounts bs))"

lemma tally_taxes:
  assumes "\<forall>b \<in> set bs. \<forall>v \<in> set (bucket_amounts b). sound_amount v" and "legs_tally n D C legs"
  shows "legs_tally (n + 5 * length bs) (D + side_amount DR d (taxes_paise bs)) (C + side_amount CR d (taxes_paise bs)) (pushTaxLegs legs bs nature d)"
proof -
  have "legs_tally (n + 5 * length bs) (D + (\<Sum>b\<leftarrow>bs. side_amount DR d (abs_paise (bucket_amounts b))))
      (C + (\<Sum>b\<leftarrow>bs. side_amount CR d (abs_paise (bucket_amounts b)))) (pushTaxLegs legs bs nature d)"
    unfolding pushTaxLegs_def by (rule tally_foldl [OF tally_bucket assms(2)]) (use assms(1) in auto)
  then show ?thesis by (simp add: on_side_sum taxes_paise_def abs_paise_concat)
qed

text \<open>A charge on the side \<open>s\<close>, with its taxes (a bill) or without (a return).\<close>

definition charge_side :: "DrCr \<Rightarrow> DrCr \<Rightarrow> rat list \<Rightarrow> charge_leg_input \<Rightarrow> int" where
  "charge_side d s vs c = (if ch_separatelyPosted c \<and> to_paise (ch_amount c) \<noteq> 0
     then side_amount d (if 0 \<le> ch_amount c then s else opposite_side s) (abs_paise vs) else 0)"

lemma tally_charge_leg:
  assumes "sound_amount (ch_amount c)" and "legs_tally n D C legs"
  shows "legs_tally (n + 1) (D + side_amount DR (if 0 \<le> ch_amount c then s else opposite_side s) (to_paise (ch_amount c)))
    (C + side_amount CR (if 0 \<le> ch_amount c then s else opposite_side s) (to_paise (ch_amount c))) (push_leg legs (charge_leg s c))"
  using tally_push [OF assms(2), of "charge_leg s c"] assms(1) by (simp add: charge_leg_def)

lemma on_side_add: "0 \<le> x \<Longrightarrow> 0 \<le> y \<Longrightarrow> side_amount d s x + side_amount d s y = side_amount d s (x + y)"
  by (simp add: side_amount_def)

lemma tally_bill_charge:
  assumes "\<forall>v \<in> set (charge_amounts c). sound_amount v" and "legs_tally n D C legs"
  shows "legs_tally (n + 6) (D + charge_side DR CR (charge_amounts c) c) (C + charge_side CR CR (charge_amounts c) c) (push_bill_charge nature legs c)"
proof (cases "ch_separatelyPosted c \<and> to_paise (ch_amount c) \<noteq> 0")
  case False
  have "sound_amount (ch_amount c)" using assms(1) by (simp add: charge_amounts_def)
  then show ?thesis using False tally_weaken [OF assms(2), of "n + 6"] by (auto simp: push_bill_charge_def charge_side_def num2_zero)
next
  case True
  define s where "s = (if 0 \<le> ch_amount c then CR else DR)"
  have s: "s = (if 0 \<le> ch_amount c then CR else opposite_side CR)" by (simp add: s_def opposite_side_def)
  have sound: "sound_amount (ch_amount c)" and "\<forall>b \<in> set [charge_bucket c]. \<forall>v \<in> set (bucket_amounts b). sound_amount v"
    using assms(1) by (simp_all add: charge_amounts_def bucket_amounts_def charge_bucket_def)
  then have t: "legs_tally ((n + 1) + 5 * length [charge_bucket c]) ((D + side_amount DR s (to_paise (ch_amount c))) + side_amount DR s (taxes_paise [charge_bucket c]))
      ((C + side_amount CR s (to_paise (ch_amount c))) + side_amount CR s (taxes_paise [charge_bucket c]))
      (pushTaxLegs (push_leg legs (charge_leg CR c)) [charge_bucket c] nature s)"
    unfolding s by (intro tally_taxes tally_charge_leg assms(2))
  have total: "abs_paise (charge_amounts c) = \<bar>to_paise (ch_amount c)\<bar> + taxes_paise [charge_bucket c]"
    by (simp add: charge_amounts_def taxes_paise_def bucket_amounts_def charge_bucket_def)
  have "charge_side d CR (charge_amounts c) c = side_amount d s (to_paise (ch_amount c)) + side_amount d s (taxes_paise [charge_bucket c])" for d
    using True on_side_add [of "\<bar>to_paise (ch_amount c)\<bar>" "taxes_paise [charge_bucket c]" d s]
    by (simp add: charge_side_def total s [symmetric] taxes_paise_def)
  moreover have "push_bill_charge nature legs c = pushTaxLegs (push_leg legs (charge_leg CR c)) [charge_bucket c] nature s"
    using True sound by (simp add: push_bill_charge_def num2_zero s_def)
  ultimately show ?thesis using t by (simp add: add.assoc add.commute [of 6 n])
qed

lemma tally_return_charge:
  assumes "sound_amount (ch_amount c)" and "legs_tally n D C legs"
  shows "legs_tally (n + 6) (D + charge_side DR DR [ch_amount c] c) (C + charge_side CR DR [ch_amount c] c) (push_return_charge legs c)"
proof (cases "ch_separatelyPosted c \<and> to_paise (ch_amount c) \<noteq> 0")
  case False
  then show ?thesis using assms(1) tally_weaken [OF assms(2), of "n + 6"] by (auto simp: push_return_charge_def charge_side_def num2_zero)
next
  case True
  then show ?thesis using tally_weaken [OF tally_charge_leg [OF assms, of DR], of "n + 6"] assms(1)
    by (simp add: push_return_charge_def charge_side_def num2_zero)
qed

lemma tally_round_off:
  assumes "sound_amount v" and "legs_tally n D C legs"
  shows "legs_tally (n + 1) (D + side_amount DR (if 0 \<le> v then s else opposite_side s) (to_paise v))
    (C + side_amount CR (if 0 \<le> v then s else opposite_side s) (to_paise v)) (push_round_off s f v legs)"
proof (cases "to_paise v = 0")
  case True
  then show ?thesis using assms tally_weaken [OF assms(2), of "n + 1"] by (simp add: push_round_off_def num2_zero)
next
  case False
  then show ?thesis using tally_push [OF assms(2), of "role_leg ''ROUND_OFF'' (if 0 \<le> v then s else opposite_side s) \<bar>v\<bar> f"] assms(1)
    by (simp add: push_round_off_def num2_zero)
qed

text \<open>A pair of legs of one amount on opposite sides.\<close>

lemma tally_pair:
  assumes "vl_amount k = v" and "vl_amount l = v" and "vl_drCr l = opposite_side (vl_drCr k)" and "whole_paise v"
  shows "legs_tally 2 \<bar>to_paise v\<bar> \<bar>to_paise v\<bar> [k, l]"
  using assms by (cases "vl_drCr k") (simp_all add: legs_tally_def legs_side_def opposite_side_def)

lemma tally_cogs: "sound_amount v \<Longrightarrow> legs_tally 2 \<bar>to_paise v\<bar> \<bar>to_paise v\<bar> (buildCogsLegs v direction)"
  using tally_pair [of "role_leg ''COGS'' (if direction = ISSUE then DR else CR) \<bar>v\<bar> ''cogsAmt''" "\<bar>v\<bar>"
      "role_leg ''INVENTORY'' (if direction = ISSUE then CR else DR) \<bar>v\<bar> ''cogsAmt''"] tally_weaken [OF tally_nil, of 2]
  by (auto simp: buildCogsLegs_def num2_zero opposite_side_def)

definition tender_paise :: "tender_leg_input \<Rightarrow> int" where
  "tender_paise t = (if tl_isCredit t then 0 else \<bar>to_paise (tl_amount t)\<bar>)"

lemma tally_tender:
  assumes "sound_amount (tl_amount t)" and "legs_tally n D C legs"
  shows "legs_tally (n + 2) (D + tender_paise t) (C + tender_paise t) (legs @ buildTenderLegs t party direction)"
proof -
  have "legs_tally 2 (tender_paise t) (tender_paise t) (buildTenderLegs t party direction)"
  proof (cases "tl_isCredit t \<or> to_paise (tl_amount t) = 0")
    case True
    then show ?thesis using assms(1) tally_weaken [OF tally_nil, of 2] by (auto simp: buildTenderLegs_def num2_zero tender_paise_def)
  next
    case False
    have "legs_tally 2 \<bar>to_paise \<bar>tl_amount t\<bar>\<bar> \<bar>to_paise \<bar>tl_amount t\<bar>\<bar> (buildTenderLegs t party direction)"
      unfolding buildTenderLegs_def Let_def using False assms(1)
      by (simp only: num2_zero if_False) (rule tally_pair, simp_all add: sound_amount_def)
    then show ?thesis using False assms(1) by (simp add: tender_paise_def)
  qed
  then show ?thesis by (rule tally_append [OF assms(2)])
qed

definition set_off_paise :: "string \<Rightarrow> set_off_input \<Rightarrow> int" where
  "set_off_paise party s = (if so_ledgerId s = party then 0 else \<bar>to_paise (so_amount s)\<bar>)"

lemma tally_set_off:
  assumes "sound_amount (so_amount s)" and "legs_tally n D C legs"
  shows "legs_tally (n + 2) (D + set_off_paise party s) (C + set_off_paise party s) (push_set_off party legs s)"
proof (cases "so_ledgerId s = party")
  case True
  then show ?thesis using tally_weaken [OF assms(2), of "n + 2"] by (simp add: push_set_off_def set_off_paise_def)
next
  case False
  let ?r = "Some (or_else (so_remarks s) ''Advance adjusted'')"
  let ?k = "ledger_leg (Some (so_ledgerId s)) DR (so_amount s) ?r" and ?l = "ledger_leg (Some party) CR (so_amount s) ?r"
  have "legs_tally (n + 1 + 1) (D + \<bar>to_paise (so_amount s)\<bar> + 0) (C + 0 + \<bar>to_paise (so_amount s)\<bar>) (push_leg (push_leg legs ?k) ?l)"
    using tally_push [OF tally_push [OF assms(2), of ?k], of ?l] assms(1) by (simp add: side_amount_def)
  then show ?thesis using False by (simp add: push_set_off_def set_off_paise_def Let_def)
qed

end
