(* ===== verification/Sales_Rows.thy ===== *)
theory Sales_Rows
  imports Sales_Balance
begin

text \<open>
  The rows \<open>insertLegs\<close> writes of a leg list that was counted in paise, and the sign of the legs each builder of
  \<open>modules/sales/posting/sales-leg.sources.ts\<close> adds.
\<close>

section \<open>Rows\<close>

text \<open>Rows numbered from 1, every amount above zero (\<open>ck_av_amount\<close>), each side \<open>D\<close> paise (\<open>ck_avh_balanced\<close>).\<close>

definition row_side :: "DrCr \<Rightarrow> leg_row list \<Rightarrow> int" where
  "row_side d rows = (\<Sum>r\<leftarrow>filter (\<lambda>r. lr_drCr r = d) rows. lr_paise r)"

definition rows_agree :: "int \<Rightarrow> leg_row list \<Rightarrow> bool" where
  "rows_agree D rows \<longleftrightarrow> map lr_rowNo rows = [1..<length rows + 1] \<and> list_all (\<lambda>r. 0 < lr_paise r) rows \<and> row_side DR rows = D \<and> row_side CR rows = D"

lemma insertLegs_map:
  "length ledgers = length legs \<Longrightarrow> map lr_rowNo (insertLegs (zip legs ledgers)) = [1..<length legs + 1]"
  "length ledgers = length legs \<Longrightarrow> map (\<lambda>r. (lr_drCr r, lr_paise r)) (insertLegs (zip legs ledgers)) = map (\<lambda>l. (vl_drCr l, money_paise \<bar>vl_amount l\<bar>)) legs"
proof -
  assume len: "length ledgers = length legs"
  have "map lr_rowNo (insertLegs (zip legs ledgers)) = map Suc (map fst (enumerate 0 (zip legs ledgers)))"
    unfolding insertLegs_def map_map by (intro map_cong refl) (auto simp: leg_row_of_def)
  also have "\<dots> = [1..<length legs + 1]" unfolding map_fst_enumerate map_Suc_upt using len by simp
  finally show "map lr_rowNo (insertLegs (zip legs ledgers)) = [1..<length legs + 1]" .
  show "map (\<lambda>r. (lr_drCr r, lr_paise r)) (insertLegs (zip legs ledgers)) = map (\<lambda>l. (vl_drCr l, money_paise \<bar>vl_amount l\<bar>)) legs"
    by (rule nth_equalityI) (simp_all add: insertLegs_def leg_row_of_def nth_enumerate_eq len)
qed

lemma row_side_pairs: "row_side d rows = (\<Sum>p\<leftarrow>map (\<lambda>r. (lr_drCr r, lr_paise r)) rows. if fst p = d then snd p else 0)"
  by (induction rows) (simp_all add: row_side_def)

lemma money_paise_abs: "sound_amount v \<Longrightarrow> money_paise \<bar>v\<bar> = \<bar>to_paise v\<bar>"
  by (simp add: money_paise_def)

lemma tally_sound:
  assumes "legs_tally n D C legs" and "D \<le> PAISE_LIMIT" and "C \<le> PAISE_LIMIT" and "l \<in> set legs"
  shows "sound_amount (vl_amount l)"
proof -
  have "(if vl_drCr l = vl_drCr l then \<bar>to_paise (vl_amount l)\<bar> else 0) \<le> legs_side (vl_drCr l) legs"
    unfolding legs_side_def by (rule sum_list_nonneg_elem) (use assms(4) in auto)
  moreover have "legs_side (vl_drCr l) legs \<le> PAISE_LIMIT" using assms(1-3) by (cases "vl_drCr l") (simp_all add: legs_tally_def)
  ultimately show ?thesis using assms(1,4) by (simp add: legs_tally_def sound_amount_def)
qed

lemma rows_agree_tally:
  assumes "legs_tally n D D legs" and "D \<le> PAISE_LIMIT" and "\<forall>l \<in> set legs. num2 (vl_amount l) \<noteq> 0" and "length ledgers = length legs"
  shows "rows_agree D (insertLegs (zip legs ledgers))"
proof -
  let ?rows = "insertLegs (zip legs ledgers)"
  note sound = tally_sound [OF assms(1,2,2)]
  note pairs = insertLegs_map(2) [OF assms(4)]
  have "row_side d ?rows = legs_side d legs" for d
  proof -
    have "row_side d ?rows = (\<Sum>l\<leftarrow>legs. if vl_drCr l = d then money_paise \<bar>vl_amount l\<bar> else 0)" unfolding row_side_pairs pairs map_map comp_def fst_conv snd_conv ..
    also have "\<dots> = legs_side d legs"
      unfolding legs_side_def by (intro arg_cong [where f = sum_list] map_cong refl) (simp add: money_paise_abs sound)
    finally show ?thesis .
  qed
  moreover have "0 < lr_paise r" if "r \<in> set ?rows" for r
  proof -
    have "(lr_drCr r, lr_paise r) \<in> set (map (\<lambda>l. (vl_drCr l, money_paise \<bar>vl_amount l\<bar>)) legs)" unfolding pairs [symmetric] using that by force
    then obtain l where l: "l \<in> set legs" "lr_paise r = money_paise \<bar>vl_amount l\<bar>" by auto
    then show ?thesis using sound [OF l(1)] assms(3) num2_zero by (auto simp: money_paise_abs)
  qed
  moreover have "length ?rows = length legs" using arg_cong [OF pairs, of length] by simp
  ultimately show ?thesis using insertLegs_map(1) [OF assms(4)] assms(1) by (simp add: rows_agree_def list_all_iff legs_tally_def)
qed

section \<open>Signs\<close>

text \<open>Every leg above zero, the tax legs that stand on the debit side aside.\<close>

definition leg_positive :: "voucher_leg \<Rightarrow> bool" where
  "leg_positive l \<longleftrightarrow> 0 < vl_amount l \<or> vl_drCr l = DR \<and> vl_field l = Some ''taxes''"

lemma num2_positive: "sound_amount v \<Longrightarrow> 0 \<le> to_paise v \<Longrightarrow> num2 v \<noteq> 0 \<Longrightarrow> 0 < num2 v"
  using rupees_sign [of "to_paise v"] by (simp add: num2_sound rupees_def sound_amount_def)

lemma sound_nonzero: "sound_amount v \<Longrightarrow> num2 v \<noteq> 0 \<Longrightarrow> v \<noteq> 0"
  using num2_zero [of v] by auto

lemma push_positive:
  assumes "\<forall>l \<in> set legs. P l" and "num2 (vl_amount l) \<noteq> 0 \<Longrightarrow> P (l\<lparr> vl_amount := num2 (vl_amount l) \<rparr>)"
  shows "\<forall>l \<in> set (push_leg legs l). P l"
  using assms by (auto simp: push_leg_def)

lemma foldl_positive:
  assumes "\<And>legs x. x \<in> set xs \<Longrightarrow> \<forall>l \<in> set legs. P l \<Longrightarrow> \<forall>l \<in> set (step legs x). P l" and "\<forall>l \<in> set legs. P l"
  shows "\<forall>l \<in> set (foldl step legs xs). P l"
  using assms
proof (induction xs arbitrary: legs)
  case (Cons x xs)
  have "\<forall>l \<in> set (step legs x). P l" by (rule Cons.prems) (simp_all add: Cons.prems(2))
  moreover have "\<forall>l \<in> set (step ls y). P l" if "y \<in> set xs" and "\<forall>l \<in> set ls. P l" for ls y
    by (rule Cons.prems(1) [OF _ that(2)]) (simp add: that(1))
  ultimately have "\<forall>l \<in> set (foldl step (step legs x) xs). P l" using Cons.IH by blast
  then show ?case by simp
qed simp

text \<open>What \<open>P\<close> must hold of: a leg above zero is enough.\<close>

lemma push_sound:
  assumes "\<And>l. 0 < vl_amount l \<Longrightarrow> P l" and "sound_amount (vl_amount l)" and "0 \<le> to_paise (vl_amount l)" and "\<forall>l \<in> set legs. P l"
  shows "\<forall>l \<in> set (push_leg legs l). P l"
  by (rule push_positive [OF assms(4)]) (use assms(1-3) num2_positive in simp)

lemma taxes_positive:
  assumes "\<And>l. 0 < vl_amount l \<Longrightarrow> P l" and "\<forall>b \<in> set bs. \<forall>v \<in> set (bucket_amounts b). sound_amount v"
    and "\<forall>b \<in> set bs. \<forall>v \<in> set (bucket_amounts b). 0 \<le> to_paise v \<or> (\<forall>l. vl_drCr l = d \<longrightarrow> vl_field l = Some ''taxes'' \<longrightarrow> P l)" and "\<forall>l \<in> set legs. P l"
  shows "\<forall>l \<in> set (pushTaxLegs legs bs nature d). P l"
  unfolding pushTaxLegs_def
proof (rule foldl_positive [OF foldl_positive assms(4)])
  fix legs b and h :: "string \<times> rat" assume b: "b \<in> set bs" and h: "h \<in> set (bucket_heads b)" and legs: "\<forall>l \<in> set legs. P l"
  have v: "snd h \<in> set (bucket_amounts b)" using h by (auto simp: bucket_heads_def bucket_amounts_def)
  let ?l = "(role_leg (fst h) d (snd h) ''taxes'')\<lparr> vl_taxId := tb_taxId b, vl_supplyNature := Some nature \<rparr>"
  have "\<forall>l \<in> set (push_leg legs ?l). P l"
  proof (cases "0 \<le> to_paise (snd h)")
    case True
    then show ?thesis using assms(2) b v by (intro push_sound assms(1) legs) simp_all
  next
    case False
    have "\<forall>l. vl_drCr l = d \<longrightarrow> vl_field l = Some ''taxes'' \<longrightarrow> P l" using assms(3) b v False by blast
    then show ?thesis by (intro push_positive legs) (simp add: role_leg_def leg_of_def)
  qed
  then show "\<forall>l \<in> set (case h of (role, v) \<Rightarrow> push_leg legs ((role_leg role d v ''taxes'')\<lparr> vl_taxId := tb_taxId b, vl_supplyNature := Some nature \<rparr>)). P l"
    by (simp add: case_prod_beta)
qed

lemma cogs_positive: "sound_amount v \<Longrightarrow> \<forall>l \<in> set (buildCogsLegs v direction). 0 < vl_amount l"
  using sound_nonzero by (auto simp: buildCogsLegs_def)

lemma tender_positive: "sound_amount (tl_amount t) \<Longrightarrow> \<forall>l \<in> set (buildTenderLegs t party direction). 0 < vl_amount l"
  using sound_nonzero by (auto simp: buildTenderLegs_def Let_def)

lemma round_off_positive:
  assumes "\<And>l. 0 < vl_amount l \<Longrightarrow> P l" and "sound_amount v" and "\<forall>l \<in> set legs. P l"
  shows "\<forall>l \<in> set (push_round_off d f v legs). P l"
proof -
  let ?l = "role_leg ''ROUND_OFF'' (if 0 \<le> v then d else opposite_side d) \<bar>v\<bar> f"
  have "\<forall>l \<in> set (push_leg legs ?l). P l" using assms(2,3) by (intro push_sound assms(1)) simp_all
  then show ?thesis using assms(3) by (simp add: push_round_off_def)
qed

lemma charge_positive:
  assumes "\<And>l. 0 < vl_amount l \<Longrightarrow> P l" and "sound_amount (ch_amount c)" and "\<forall>l \<in> set legs. P l"
  shows "\<forall>l \<in> set (push_leg legs (charge_leg d c)). P l"
  using assms(2,3) by (intro push_sound assms(1)) (simp_all add: charge_leg_def)

lemma set_off_positive:
  assumes "\<And>l. 0 < vl_amount l \<Longrightarrow> P l" and "sound_amount (so_amount s)" and "0 \<le> to_paise (so_amount s)" and "\<forall>l \<in> set legs. P l"
  shows "\<forall>l \<in> set (push_set_off party legs s). P l"
proof (cases "so_ledgerId s = party")
  case False
  let ?r = "Some (or_else (so_remarks s) ''Advance adjusted'')"
  have "\<forall>l \<in> set (push_leg (push_leg legs (ledger_leg (Some (so_ledgerId s)) DR (so_amount s) ?r)) (ledger_leg (Some party) CR (so_amount s) ?r)). P l"
    using assms by (intro push_sound [OF assms(1)]) simp_all
  then show ?thesis using False by (simp add: push_set_off_def Let_def)
qed (use assms(4) in \<open>simp add: push_set_off_def\<close>)

end
