(* ===== verification/Sales_Properties.thy ===== *)
theory Sales_Properties
  imports Sales_Rows
begin

text \<open>
  The legs of a bill and of a sale return pass the check of the voucher that carries them, and where they do not: the sides in paise, the
  inputs of whole paise, and what a negative charge with a positive tax does.
\<close>

section \<open>The party's leg\<close>

definition net_paise :: "rat list \<Rightarrow> int" where
  "net_paise vs = (\<Sum>v\<leftarrow>vs. to_paise v)"

lemma net_paise_simps [simp]: "net_paise [] = 0" "net_paise (v # vs) = to_paise v + net_paise vs" "net_paise (us @ vs) = net_paise us + net_paise vs"
  by (simp_all add: net_paise_def)

lemma net_paise_le: "\<bar>net_paise vs\<bar> \<le> abs_paise vs"
  by (induction vs) simp_all

lemma abs_paise_filter: "abs_paise (concat (map f (filter P xs))) \<le> abs_paise (concat (map f xs))"
  by (induction xs) (simp_all add: add_increasing)

lemma length_concat_filter: "(\<And>x. length (f x) = k) \<Longrightarrow> length (concat (map f (filter P xs))) \<le> k * length xs"
  by (induction xs) auto

lemma num_sum_concat: "foldl (\<lambda>s x. num_sum s (f x)) v xs = num_sum v (concat (map f xs))"
  by (induction xs arbitrary: v) simp_all

text \<open>Every amount of the input that a bill or a return is built from.\<close>

definition base_amounts :: "('a return_leg_input_scheme) \<Rightarrow> rat list" where
  "base_amounts r = li_salesAmount r # concat (map bucket_amounts (li_taxes r)) @ concat (map charge_amounts (li_charges r)) @
     [li_cashDiscount r, li_schemeDiscount r, li_roundOff r, li_cogsAmount r] @ map tl_amount (li_tenders r)"

definition bill_amounts :: "bill_leg_input \<Rightarrow> rat list" where
  "bill_amounts b = base_amounts b @ [li_tcsAmount b] @ map so_amount (li_setOffs b)"

text \<open>Whole paise, a thousand million rupees in all, and at most 150 buckets, charges, tenders and set-offs.\<close>

definition amounts_in_range :: "rat list \<Rightarrow> bool" where
  "amounts_in_range vs \<longleftrightarrow> (\<forall>v \<in> set vs. whole_paise v) \<and> abs_paise vs \<le> PAISE_LIMIT"

definition bill_in_range :: "bill_leg_input \<Rightarrow> bool" where
  "bill_in_range b \<longleftrightarrow> amounts_in_range (bill_amounts b) \<and>
     length (li_taxes b) + length (li_charges b) + length (li_tenders b) + length (li_setOffs b) \<le> 150"

definition return_in_range :: "return_leg_input \<Rightarrow> bool" where
  "return_in_range r \<longleftrightarrow> amounts_in_range (base_amounts r) \<and> length (li_taxes r) + length (li_charges r) + length (li_tenders r) \<le> 150"

lemma in_range_sound: "amounts_in_range vs \<Longrightarrow> v \<in> set vs \<Longrightarrow> sound_amount v"
  using abs_paise_member [of v vs] by (auto simp: amounts_in_range_def sound_amount_def)

definition bill_party_paise :: "bill_leg_input \<Rightarrow> int" where
  "bill_party_paise b = to_paise (li_salesAmount b) + net_paise (concat (map bucket_amounts (li_taxes b))) +
     net_paise (concat (map charge_amounts (filter ch_separatelyPosted (li_charges b)))) + to_paise (li_roundOff b) + to_paise (li_tcsAmount b) -
     to_paise (li_cashDiscount b) - to_paise (li_schemeDiscount b)"

text \<open>A double sum of whole amounts, a tax total and a charge total among them.\<close>

lemma party_near:
  assumes "\<forall>v \<in> set (s # taxes @ charges @ vs). whole_paise v" and "abs_paise (s # taxes @ charges @ vs) \<le> PAISE_LIMIT"
    and "length taxes + length charges \<le> 750" and "length vs \<le> 10"
  shows "num2 (num_sum s ([num_sum 0 taxes, num_sum 0 charges] @ vs)) =
    rupees (to_paise s + net_paise taxes + net_paise charges + net_paise vs)"
proof -
  let ?ts = "(4 * length taxes, num_sum 0 taxes, net_paise taxes) # (4 * length charges, num_sum 0 charges, net_paise charges) #
    map (\<lambda>v. (3, v, to_paise v)) vs"
  let ?n = "3 + (\<Sum>t\<leftarrow>?ts. fst t + 1)" and ?k = "to_paise s + net_paise taxes + net_paise charges + net_paise vs"
  have zero: "near 0 0 0" by (simp add: near_def)
  note b = assms(2) [unfolded abs_paise_simps] abs_paise_nonneg [of taxes] abs_paise_nonneg [of charges] abs_paise_nonneg [of vs]
  have "near (4 * length taxes) (num_sum 0 taxes) (net_paise taxes)"
    using num_sum_whole [of taxes 0 0 0] zero assms(1,3) b by (simp add: abs_paise_def net_paise_def)
  moreover have "near (4 * length charges) (num_sum 0 charges) (net_paise charges)"
    using num_sum_whole [of charges 0 0 0] zero assms(1,3) b by (simp add: abs_paise_def net_paise_def)
  ultimately have ts: "\<forall>(m, x, j) \<in> set ?ts. near m x j" using assms(1) by (simp add: whole_paise_near)
  have n: "?n \<le> 4000" using assms(3,4) by (simp add: comp_def sum_list_triv)
  have "\<bar>to_paise s\<bar> + (\<Sum>t\<leftarrow>?ts. \<bar>snd (snd t)\<bar>) \<le> PAISE_LIMIT"
    using b net_paise_le [of taxes] net_paise_le [of charges] by (simp add: comp_def abs_paise_def)
  then have "near ?n (num_sum s (map (\<lambda>t. fst (snd t)) ?ts)) (to_paise s + (\<Sum>t\<leftarrow>?ts. snd (snd t)))"
    using ts n assms(1) by (intro binary64.fl_sum_near) (simp_all add: whole_paise_near)
  then have "near ?n (num_sum s ([num_sum 0 taxes, num_sum 0 charges] @ vs)) ?k" by (simp add: comp_def net_paise_def add.assoc)
  moreover have "\<bar>?k\<bar> \<le> PAISE_LIMIT" using b net_paise_le [of taxes] net_paise_le [of charges] net_paise_le [of vs] by linarith
  ultimately show ?thesis using n unfolding rupees_def by (rule binary64.num_round2_near)
qed

lemma bill_party_debit:
  assumes "bill_in_range b"
  shows "billPartyDebit b = rupees (bill_party_paise b)" and "\<bar>bill_party_paise b\<bar> \<le> PAISE_LIMIT"
proof -
  let ?taxes = "concat (map bucket_amounts (li_taxes b))"
    and ?charges = "concat (map charge_amounts (filter ch_separatelyPosted (li_charges b)))"
    and ?vs = "[li_roundOff b, li_tcsAmount b, - li_cashDiscount b, - li_schemeDiscount b]"
  have whole: "\<forall>v \<in> set (bill_amounts b). whole_paise v" and total: "abs_paise (bill_amounts b) \<le> PAISE_LIMIT"
    using assms by (simp_all add: bill_in_range_def amounts_in_range_def)
  note sums = abs_paise_filter [of charge_amounts ch_separatelyPosted "li_charges b"] abs_paise_nonneg [of "map tl_amount (li_tenders b)"]
    abs_paise_nonneg [of "map so_amount (li_setOffs b)"]
  have w: "\<forall>v \<in> set (li_salesAmount b # ?taxes @ ?charges @ ?vs). whole_paise v" using whole by (auto simp: bill_amounts_def base_amounts_def)
  have abs: "abs_paise (li_salesAmount b # ?taxes @ ?charges @ ?vs) \<le> PAISE_LIMIT"
  proof -
    have neg: "to_paise (- li_cashDiscount b) = - to_paise (li_cashDiscount b)" "to_paise (- li_schemeDiscount b) = - to_paise (li_schemeDiscount b)"
      using whole by (simp_all add: bill_amounts_def base_amounts_def)
    show ?thesis using total sums unfolding bill_amounts_def base_amounts_def abs_paise_simps neg abs_minus_cancel by linarith
  qed
  have "length ?taxes = 5 * length (li_taxes b)" by (simp add: length_concat comp_def bucket_amounts_def sum_list_triv)
  moreover have "length ?charges \<le> 5 * length (li_charges b)"
    by (rule length_concat_filter) (simp add: charge_amounts_def)
  ultimately have len: "length ?taxes + length ?charges \<le> 750" using assms by (simp add: bill_in_range_def)
  have "billPartyDebit b = num2 (num_sum (li_salesAmount b) ([num_sum 0 ?taxes, num_sum 0 ?charges] @ ?vs))"
    by (simp add: billPartyDebit_def taxes_sum_def num_sum_concat Let_def)
  also have "\<dots> = rupees (to_paise (li_salesAmount b) + net_paise ?taxes + net_paise ?charges + net_paise ?vs)"
    by (rule party_near [OF w abs len]) simp
  also have "to_paise (li_salesAmount b) + net_paise ?taxes + net_paise ?charges + net_paise ?vs = bill_party_paise b"
    using whole by (simp add: bill_party_paise_def bill_amounts_def base_amounts_def)
  finally show "billPartyDebit b = rupees (bill_party_paise b)" .
  show "\<bar>bill_party_paise b\<bar> \<le> PAISE_LIMIT"
    using total sums net_paise_le [of ?taxes] net_paise_le [of ?charges] unfolding bill_party_paise_def bill_amounts_def base_amounts_def abs_paise_simps
    by linarith
qed

section \<open>The sides of a bill\<close>

definition round_side :: "DrCr \<Rightarrow> DrCr \<Rightarrow> rat \<Rightarrow> int" where
  "round_side d s v = side_amount d (if 0 \<le> v then s else opposite_side s) (to_paise v)"

definition bill_side :: "DrCr \<Rightarrow> bill_leg_input \<Rightarrow> int" where
  "bill_side d b = side_amount d DR (bill_party_paise b) + side_amount d CR (to_paise (li_salesAmount b)) + side_amount d CR (taxes_paise (li_taxes b)) +
     (\<Sum>c\<leftarrow>li_charges b. charge_side d CR (charge_amounts c) c) + side_amount d DR (to_paise (li_cashDiscount b)) +
     side_amount d DR (to_paise (li_schemeDiscount b)) + round_side d CR (li_roundOff b) + side_amount d CR (to_paise (li_tcsAmount b)) +
     \<bar>to_paise (li_cogsAmount b)\<bar> + (\<Sum>t\<leftarrow>li_tenders b. tender_paise t) + (\<Sum>s\<leftarrow>li_setOffs b. set_off_paise (li_partyLedgerId b) s)"

lemma sound_rupees: "\<bar>k\<bar> \<le> PAISE_LIMIT \<Longrightarrow> sound_amount (rupees k)" "\<bar>k\<bar> \<le> PAISE_LIMIT \<Longrightarrow> to_paise (rupees k) = k"
  using binary64.money_whole [of k] by (simp_all add: sound_amount_def rupees_def)

lemma bill_tally:
  assumes "bill_in_range b"
  shows "legs_tally (10 + 5 * length (li_taxes b) + 6 * length (li_charges b) + 2 * length (li_tenders b) + 2 * length (li_setOffs b))
    (bill_side DR b) (bill_side CR b) (buildBillLegs b)"
proof -
  have sound: "sound_amount v" if "v \<in> set (bill_amounts b)" for v using in_range_sound that assms by (auto simp: bill_in_range_def)
  note party = bill_party_debit [OF assms]
  have lists: "\<forall>x \<in> set (li_taxes b). \<forall>v \<in> set (bucket_amounts x). sound_amount v"
      "\<And>c. c \<in> set (li_charges b) \<Longrightarrow> \<forall>v \<in> set (charge_amounts c). sound_amount v"
      "\<And>t. t \<in> set (li_tenders b) \<Longrightarrow> sound_amount (tl_amount t)" "\<And>s. s \<in> set (li_setOffs b) \<Longrightarrow> sound_amount (so_amount s)"
    by (intro ballI sound; auto simp: bill_amounts_def base_amounts_def)+
  have single: "sound_amount (li_salesAmount b)" "sound_amount (li_cashDiscount b)" "sound_amount (li_schemeDiscount b)"
      "sound_amount (li_roundOff b)" "sound_amount (li_tcsAmount b)" "sound_amount (li_cogsAmount b)" "sound_amount (billPartyDebit b)"
    using party sound_rupees by (simp_all add: sound bill_amounts_def base_amounts_def)
  have T: "legs_tally (0 + 1 + 1 + 5 * length (li_taxes b) + 6 * length (li_charges b) + 1 + 1 + 1 + 1 + 2 + 2 * length (li_tenders b) + 2 * length (li_setOffs b))
      (0 + side_amount DR DR (to_paise (billPartyDebit b)) + side_amount DR CR (to_paise (li_salesAmount b)) + side_amount DR CR (taxes_paise (li_taxes b)) +
       (\<Sum>c\<leftarrow>li_charges b. charge_side DR CR (charge_amounts c) c) + side_amount DR DR (to_paise (li_cashDiscount b)) +
       side_amount DR DR (to_paise (li_schemeDiscount b)) + round_side DR CR (li_roundOff b) + side_amount DR CR (to_paise (li_tcsAmount b)) +
       \<bar>to_paise (li_cogsAmount b)\<bar> + (\<Sum>t\<leftarrow>li_tenders b. tender_paise t) + (\<Sum>s\<leftarrow>li_setOffs b. set_off_paise (li_partyLedgerId b) s))
      (0 + side_amount CR DR (to_paise (billPartyDebit b)) + side_amount CR CR (to_paise (li_salesAmount b)) + side_amount CR CR (taxes_paise (li_taxes b)) +
       (\<Sum>c\<leftarrow>li_charges b. charge_side CR CR (charge_amounts c) c) + side_amount CR DR (to_paise (li_cashDiscount b)) +
       side_amount CR DR (to_paise (li_schemeDiscount b)) + round_side CR CR (li_roundOff b) + side_amount CR CR (to_paise (li_tcsAmount b)) +
       \<bar>to_paise (li_cogsAmount b)\<bar> + (\<Sum>t\<leftarrow>li_tenders b. tender_paise t) + (\<Sum>s\<leftarrow>li_setOffs b. set_off_paise (li_partyLedgerId b) s))
      (buildBillLegs b)"
    unfolding buildBillLegs_def Let_def round_side_def
    by (intro tally_foldl tally_set_off tally_tender tally_append tally_cogs tally_bill_charge tally_taxes tally_round_off tally_push_leg tally_nil)
     (use lists single in simp_all)
  have "to_paise (billPartyDebit b) = bill_party_paise b" using party sound_rupees by simp
  from T [unfolded this add_0] show ?thesis unfolding bill_side_def by (rule tally_weaken) simp
qed

section \<open>When the sides agree\<close>


definition base_signs :: "('a return_leg_input_scheme) \<Rightarrow> bool" where
  "base_signs r \<longleftrightarrow> 0 \<le> to_paise (li_salesAmount r) \<and> 0 \<le> to_paise (li_cashDiscount r) \<and> 0 \<le> to_paise (li_schemeDiscount r) \<and>
     list_all (\<lambda>v. 0 \<le> to_paise v) (concat (map bucket_amounts (li_taxes r)))"


lemma abs_net_pos: "list_all (\<lambda>v. 0 \<le> to_paise v) vs \<Longrightarrow> abs_paise vs = net_paise vs"
  by (induction vs) simp_all

lemma abs_net_neg: "list_all (\<lambda>v. to_paise v \<le> 0) vs \<Longrightarrow> abs_paise vs = - net_paise vs"
  by (induction vs) simp_all

lemma to_paise_sign: "0 \<le> v \<Longrightarrow> 0 \<le> to_paise v" "v < 0 \<Longrightarrow> to_paise v \<le> 0"
  by (simp_all add: to_paise_def floor_le_iff)

lemma round_side_diff: "round_side (opposite_side s) s v + to_paise v = round_side s s v"
  using to_paise_sign [of v] by (cases s) (auto simp: round_side_def side_amount_def opposite_side_def)

lemma charge_side_diff:
  assumes "list_all (\<lambda>v. to_paise v = 0 \<or> sgn (to_paise v) = sgn (to_paise (ch_amount c))) vs" and "ch_amount c \<in> set vs"
  shows "charge_side (opposite_side s) s vs c + (if ch_separatelyPosted c then net_paise vs else 0) = charge_side s s vs c"
proof (cases "to_paise (ch_amount c)" "0 :: int" rule: linorder_cases)
  case less
  then have "list_all (\<lambda>v. to_paise v \<le> 0) vs" using assms(1) by (auto simp: list_all_iff sgn_if split: if_splits)
  then show ?thesis using less abs_net_neg to_paise_sign [of "ch_amount c"] abs_paise_nonneg [of vs]
    by (cases s) (auto simp: charge_side_def side_amount_def opposite_side_def)
next
  case equal
  then have "list_all (\<lambda>v. 0 \<le> to_paise v) vs \<and> list_all (\<lambda>v. to_paise v \<le> 0) vs" using assms(1) by (auto simp: list_all_iff sgn_if split: if_splits)
  then have "net_paise vs = 0" using abs_net_neg abs_net_pos by fastforce
  then show ?thesis using equal by (simp add: charge_side_def)
next
  case greater
  then have "list_all (\<lambda>v. 0 \<le> to_paise v) vs" using assms(1) by (auto simp: list_all_iff sgn_if split: if_splits)
  then show ?thesis using greater abs_net_pos to_paise_sign [of "ch_amount c"] abs_paise_nonneg [of vs]
    by (cases s) (auto simp: charge_side_def side_amount_def opposite_side_def)
qed

lemma charges_side_diff:
  assumes "\<And>c. c \<in> set cs \<Longrightarrow> charge_side (opposite_side s) s (f c) c + (if ch_separatelyPosted c then net_paise (f c) else 0) = charge_side s s (f c) c"
  shows "(\<Sum>c\<leftarrow>cs. charge_side (opposite_side s) s (f c) c) + net_paise (concat (map f (filter ch_separatelyPosted cs))) = (\<Sum>c\<leftarrow>cs. charge_side s s (f c) c)"
  using assms
proof (induction cs)
  case (Cons c cs)
  have "charge_side (opposite_side s) s (f c) c + (if ch_separatelyPosted c then net_paise (f c) else 0) = charge_side s s (f c) c" using Cons.prems by simp
  moreover have "(\<Sum>c\<leftarrow>cs. charge_side (opposite_side s) s (f c) c) + net_paise (concat (map f (filter ch_separatelyPosted cs))) = (\<Sum>c\<leftarrow>cs. charge_side s s (f c) c)"
    using Cons by simp
  ultimately show ?case by (auto split: if_splits)
qed simp


lemma tally_live:
  assumes "legs_tally n D C legs" and "D \<le> PAISE_LIMIT" and "C \<le> PAISE_LIMIT"
  shows "legs_tally n D C (filter (\<lambda>l. num2 (vl_amount l) \<noteq> 0) legs)"
proof -
  have whole: "\<forall>l \<in> set legs. whole_paise (vl_amount l)" and sides: "legs_side DR legs = D" "legs_side CR legs = C" and len: "length legs \<le> n"
    using assms(1) by (simp_all add: legs_tally_def)
  have zero: "num2 (vl_amount l) = 0 \<longleftrightarrow> to_paise (vl_amount l) = 0" if "l \<in> set legs" for l
  proof (rule num2_zero)
    have "(if vl_drCr l = vl_drCr l then \<bar>to_paise (vl_amount l)\<bar> else 0) \<le> legs_side (vl_drCr l) legs"
      unfolding legs_side_def by (rule sum_list_nonneg_elem) (use that in auto)
    moreover have "legs_side (vl_drCr l) legs \<le> PAISE_LIMIT" using sides assms(2,3) by (cases "vl_drCr l") simp_all
    ultimately show "sound_amount (vl_amount l)" using whole that by (simp add: sound_amount_def)
  qed
  have "legs_side d (filter (\<lambda>l. num2 (vl_amount l) \<noteq> 0) legs) = legs_side d legs" for d
    using zero by (induction legs) (auto simp: legs_side_def)
  then show ?thesis using whole sides le_trans [OF length_filter_le len] by (simp add: legs_tally_def)
qed

lemma checked_tally:
  assumes "legs_tally n D D legs" and "n \<le> 1000" and "D \<le> PAISE_LIMIT"
  shows "checked_legs resolve h legs = (let live = filter (\<lambda>l. num2 (vl_amount l) \<noteq> 0) legs
    in if live = [] then Inl (No_legs (describe h)) else e_bind (resolve live) (\<lambda>ledgers. Inr (zip live ledgers)))"
  using assertBalanced_tally [OF tally_live [OF assms(1,3,3)] assms(2,3,3), of h]
  by (simp add: checked_legs_def Let_def)

section \<open>A bill's voucher\<close>



lemma bill_size: "bill_in_range b \<Longrightarrow>
    10 + 5 * length (li_taxes b) + 6 * length (li_charges b) + 2 * length (li_tenders b) + 2 * length (li_setOffs b) \<le> 1000"
  by (simp add: bill_in_range_def)

lemma buildBillLegs_tally:
  assumes "bill_in_range b"
  shows "legs_tally 1000 (bill_side DR b) (bill_side CR b) (buildBillLegs b)"
  by (rule tally_weaken [OF bill_tally bill_size, OF assms assms])


text \<open>What is written of a leg list whose sides agree: rows for every ledger list \<open>resolve\<close> can give.\<close>

lemma rows_agree_live:
  assumes "legs_tally n D D legs" and "D \<le> PAISE_LIMIT"
  shows "let live = filter (\<lambda>l. num2 (vl_amount l) \<noteq> 0) legs in \<forall>ledgers. length ledgers = length live \<longrightarrow> rows_agree D (insertLegs (zip live ledgers))"
  using rows_agree_tally [OF tally_live [OF assms(1,2,2)] assms(2)] by simp


section \<open>A return's voucher\<close>

definition return_charges :: "return_leg_input \<Rightarrow> rat list" where
  "return_charges r = concat (map (\<lambda>c. [ch_amount c]) (filter ch_separatelyPosted (li_charges r)))"

definition return_party_paise :: "return_leg_input \<Rightarrow> int" where
  "return_party_paise r = to_paise (li_salesAmount r) + net_paise (concat (map bucket_amounts (li_taxes r))) + net_paise (return_charges r) +
     to_paise (li_roundOff r) - to_paise (li_cashDiscount r) - to_paise (li_schemeDiscount r)"

definition return_signs :: "return_leg_input \<Rightarrow> bool" where
  "return_signs r \<longleftrightarrow> base_signs r \<and> 0 \<le> return_party_paise r"

definition return_side :: "DrCr \<Rightarrow> return_leg_input \<Rightarrow> int" where
  "return_side d r = side_amount d CR (return_party_paise r) + side_amount d DR (to_paise (li_salesAmount r)) + side_amount d DR (taxes_paise (li_taxes r)) +
     (\<Sum>c\<leftarrow>li_charges r. charge_side d DR [ch_amount c] c) + side_amount d CR (to_paise (li_cashDiscount r)) +
     side_amount d CR (to_paise (li_schemeDiscount r)) + round_side d DR (li_roundOff r) + \<bar>to_paise (li_cogsAmount r)\<bar> +
     (\<Sum>t\<leftarrow>li_tenders r. tender_paise t)"

lemma charge_amount_le: "\<bar>to_paise (ch_amount c)\<bar> \<le> abs_paise (charge_amounts c)"
  by (rule abs_paise_member) (simp add: charge_amounts_def)

lemma return_charges_abs: "abs_paise (return_charges r) \<le> abs_paise (concat (map charge_amounts (li_charges r)))"
proof -
  have "abs_paise (return_charges r) \<le> abs_paise (concat (map (\<lambda>c. [ch_amount c]) (li_charges r)))" unfolding return_charges_def by (rule abs_paise_filter)
  also have "\<dots> \<le> abs_paise (concat (map charge_amounts (li_charges r)))"
    unfolding abs_paise_concat by (rule sum_list_mono) (simp add: charge_amount_le)
  finally show ?thesis .
qed

lemma return_party_credit:
  assumes "return_in_range r"
  shows "returnPartyCredit r = rupees (return_party_paise r)" and "\<bar>return_party_paise r\<bar> \<le> PAISE_LIMIT"
proof -
  let ?taxes = "concat (map bucket_amounts (li_taxes r))" and ?vs = "[li_roundOff r, - li_cashDiscount r, - li_schemeDiscount r]"
  have whole: "\<forall>v \<in> set (base_amounts r). whole_paise v" and total: "abs_paise (base_amounts r) \<le> PAISE_LIMIT"
    using assms by (simp_all add: return_in_range_def amounts_in_range_def)
  note sums = return_charges_abs [of r] abs_paise_nonneg [of "map tl_amount (li_tenders r)"]
  have w: "\<forall>v \<in> set (li_salesAmount r # ?taxes @ return_charges r @ ?vs). whole_paise v"
    using whole by (auto simp: base_amounts_def return_charges_def charge_amounts_def)
  have neg: "to_paise (- li_cashDiscount r) = - to_paise (li_cashDiscount r)" "to_paise (- li_schemeDiscount r) = - to_paise (li_schemeDiscount r)"
    using whole by (simp_all add: base_amounts_def)
  have abs: "abs_paise (li_salesAmount r # ?taxes @ return_charges r @ ?vs) \<le> PAISE_LIMIT"
    using total sums unfolding base_amounts_def abs_paise_simps neg abs_minus_cancel by linarith
  have "length ?taxes = 5 * length (li_taxes r)" by (simp add: length_concat comp_def bucket_amounts_def sum_list_triv)
  moreover have "length (return_charges r) \<le> 1 * length (li_charges r)" unfolding return_charges_def by (rule length_concat_filter) simp
  ultimately have len: "length ?taxes + length (return_charges r) \<le> 750" using assms by (simp add: return_in_range_def)
  have "returnPartyCredit r = num2 (num_sum (li_salesAmount r) ([num_sum 0 ?taxes, num_sum 0 (return_charges r)] @ ?vs))"
    by (simp add: returnPartyCredit_def taxes_sum_def num_sum_concat return_charges_def Let_def)
  also have "\<dots> = rupees (to_paise (li_salesAmount r) + net_paise ?taxes + net_paise (return_charges r) + net_paise ?vs)"
    by (rule party_near [OF w abs len]) simp
  also have "to_paise (li_salesAmount r) + net_paise ?taxes + net_paise (return_charges r) + net_paise ?vs = return_party_paise r"
    by (simp add: return_party_paise_def neg)
  finally show "returnPartyCredit r = rupees (return_party_paise r)" .
  show "\<bar>return_party_paise r\<bar> \<le> PAISE_LIMIT"
    using total sums net_paise_le [of ?taxes] net_paise_le [of "return_charges r"] unfolding return_party_paise_def base_amounts_def abs_paise_simps
    by linarith
qed

lemma return_tally:
  assumes "return_in_range r"
  shows "legs_tally 1000 (return_side DR r) (return_side CR r) (buildReturnLegs r)"
proof -
  have sound: "sound_amount v" if "v \<in> set (base_amounts r)" for v using in_range_sound that assms by (auto simp: return_in_range_def)
  note party = return_party_credit [OF assms]
  have lists: "\<forall>x \<in> set (li_taxes r). \<forall>v \<in> set (bucket_amounts x). sound_amount v"
      "\<And>t. t \<in> set (li_tenders r) \<Longrightarrow> sound_amount (tl_amount t)"
    by (intro ballI sound; auto simp: base_amounts_def)+
  have charges: "sound_amount (ch_amount c)" if "c \<in> set (li_charges r)" for c
    using that by (intro sound) (force simp: base_amounts_def charge_amounts_def)
  have single: "sound_amount (li_salesAmount r)" "sound_amount (li_cashDiscount r)" "sound_amount (li_schemeDiscount r)"
      "sound_amount (li_roundOff r)" "sound_amount (li_cogsAmount r)" "sound_amount (returnPartyCredit r)"
    using party sound_rupees by (simp_all add: sound base_amounts_def)
  have T: "legs_tally (0 + 1 + 1 + 5 * length (li_taxes r) + 6 * length (li_charges r) + 1 + 1 + 1 + 2 + 2 * length (li_tenders r))
      (0 + side_amount DR CR (to_paise (returnPartyCredit r)) + side_amount DR DR (to_paise (li_salesAmount r)) + side_amount DR DR (taxes_paise (li_taxes r)) +
       (\<Sum>c\<leftarrow>li_charges r. charge_side DR DR [ch_amount c] c) + side_amount DR CR (to_paise (li_cashDiscount r)) +
       side_amount DR CR (to_paise (li_schemeDiscount r)) + round_side DR DR (li_roundOff r) +
       \<bar>to_paise (li_cogsAmount r)\<bar> + (\<Sum>t\<leftarrow>li_tenders r. tender_paise t))
      (0 + side_amount CR CR (to_paise (returnPartyCredit r)) + side_amount CR DR (to_paise (li_salesAmount r)) + side_amount CR DR (taxes_paise (li_taxes r)) +
       (\<Sum>c\<leftarrow>li_charges r. charge_side CR DR [ch_amount c] c) + side_amount CR CR (to_paise (li_cashDiscount r)) +
       side_amount CR CR (to_paise (li_schemeDiscount r)) + round_side CR DR (li_roundOff r) +
       \<bar>to_paise (li_cogsAmount r)\<bar> + (\<Sum>t\<leftarrow>li_tenders r. tender_paise t))
      (buildReturnLegs r)"
    unfolding buildReturnLegs_def Let_def round_side_def
    by (intro tally_foldl tally_tender tally_append tally_cogs tally_return_charge tally_taxes tally_round_off tally_push_leg tally_nil)
     (use lists charges single in simp_all)
  have "to_paise (returnPartyCredit r) = return_party_paise r" using party sound_rupees by simp
  from T [unfolded this add_0] show ?thesis unfolding return_side_def
    by (rule tally_weaken) (use assms in \<open>simp add: return_in_range_def\<close>)
qed

lemma return_sides_equal:
  assumes "return_signs r"
  shows "return_side DR r = return_side CR r"
proof -
  have "(\<Sum>c\<leftarrow>li_charges r. charge_side CR DR [ch_amount c] c) + net_paise (return_charges r) = (\<Sum>c\<leftarrow>li_charges r. charge_side DR DR [ch_amount c] c)"
    unfolding return_charges_def
  proof (rule charges_side_diff [where s = DR, simplified opposite_side_def DrCr.case])
    fix c
    show "charge_side CR DR [ch_amount c] c + (if ch_separatelyPosted c then net_paise [ch_amount c] else 0) = charge_side DR DR [ch_amount c] c"
      using charge_side_diff [of c "[ch_amount c]" DR] by (simp add: opposite_side_def)
  qed
  moreover have "taxes_paise (li_taxes r) = net_paise (concat (map bucket_amounts (li_taxes r)))"
    using assms by (simp add: taxes_paise_def abs_net_pos return_signs_def base_signs_def)
  moreover have "0 \<le> taxes_paise (li_taxes r)" by (simp add: taxes_paise_def)
  moreover have "round_side CR DR (li_roundOff r) + to_paise (li_roundOff r) = round_side DR DR (li_roundOff r)"
    using round_side_diff [of DR] by (simp add: opposite_side_def)
  ultimately show ?thesis using assms
    by (simp add: return_side_def return_signs_def base_signs_def side_amount_def return_party_paise_def)
qed

lemma return_side_le:
  assumes "return_in_range r"
  shows "return_side DR r \<le> PAISE_LIMIT"
proof -
  have "charge_side DR DR [ch_amount c] c \<le> abs_paise (charge_amounts c)" for c
    using charge_amount_le [of c] by (auto simp: charge_side_def side_amount_def)
  then have "(\<Sum>c\<leftarrow>li_charges r. charge_side DR DR [ch_amount c] c) \<le> abs_paise (concat (map charge_amounts (li_charges r)))"
    unfolding abs_paise_concat by (intro sum_list_mono)
  moreover have "(\<Sum>t\<leftarrow>li_tenders r. tender_paise t) \<le> abs_paise (map tl_amount (li_tenders r))"
    unfolding abs_paise_def map_map comp_def by (intro sum_list_mono) (simp add: tender_paise_def)
  moreover have "round_side DR DR v \<le> \<bar>to_paise v\<bar>" for v by (simp add: round_side_def side_amount_def)
  moreover have "abs_paise (base_amounts r) \<le> PAISE_LIMIT" using assms by (simp add: return_in_range_def amounts_in_range_def)
  moreover have "side_amount DR CR x = 0" "side_amount DR DR x = \<bar>x\<bar>" "0 \<le> taxes_paise bs" for x bs by (simp_all add: side_amount_def taxes_paise_def)
  ultimately show ?thesis unfolding return_side_def base_amounts_def abs_paise_simps taxes_paise_def by (smt (verit))
qed

text \<open>A return posts no tax legs for a charge: all its legs are above zero.\<close>

lemma return_legs_positive:
  assumes "return_in_range r" and "return_signs r"
  shows "\<forall>l \<in> set (buildReturnLegs r). 0 < vl_amount l"
proof -
  have sound: "sound_amount v" if "v \<in> set (base_amounts r)" for v using in_range_sound that assms(1) by (auto simp: return_in_range_def)
  have lists: "\<forall>x \<in> set (li_taxes r). \<forall>v \<in> set (bucket_amounts x). sound_amount v" "\<And>t. t \<in> set (li_tenders r) \<Longrightarrow> sound_amount (tl_amount t)"
    by (intro ballI sound; auto simp: base_amounts_def)+
  have charges: "sound_amount (ch_amount c)" if "c \<in> set (li_charges r)" for c
    using that by (intro sound) (force simp: base_amounts_def charge_amounts_def)
  have single: "sound_amount (li_salesAmount r)" "sound_amount (li_cashDiscount r)" "sound_amount (li_schemeDiscount r)"
      "sound_amount (li_roundOff r)" "sound_amount (li_cogsAmount r)"
    by (simp_all add: sound base_amounts_def)
  have party: "sound_amount (returnPartyCredit r)" "0 \<le> to_paise (returnPartyCredit r)"
    using return_party_credit [OF assms(1)] sound_rupees assms(2) by (simp_all add: return_signs_def)
  have signs: "0 \<le> to_paise (li_salesAmount r)" "0 \<le> to_paise (li_cashDiscount r)" "0 \<le> to_paise (li_schemeDiscount r)"
      "\<forall>x \<in> set (li_taxes r). \<forall>v \<in> set (bucket_amounts x). 0 \<le> to_paise v"
    using assms(2) by (auto simp: return_signs_def base_signs_def list_all_iff)
  let ?P = "\<lambda>l. 0 < vl_amount l"
  have charge: "\<forall>l \<in> set (push_return_charge legs c). ?P l" if "c \<in> set (li_charges r)" and "\<forall>l \<in> set legs. ?P l" for legs c
    using charge_positive [of ?P c legs DR, OF _ charges [OF that(1)] that(2)] that(2) by (simp add: push_return_charge_def)
  have tenders: "\<forall>l \<in> set (legs @ buildTenderLegs t party RETURN). ?P l" if "t \<in> set (li_tenders r)" and "\<forall>l \<in> set legs. ?P l" for legs t party
    using tender_positive [OF lists(2) [OF that(1)]] that(2) by auto
  have cogs: "\<forall>l \<in> set (legs @ buildCogsLegs (li_cogsAmount r) RETURN). ?P l" if "\<forall>l \<in> set legs. ?P l" for legs
    using cogs_positive [OF single(5)] that by auto
  show ?thesis
    unfolding buildReturnLegs_def Let_def
    by (intro foldl_positive [OF tenders] cogs round_off_positive [where P = ?P] push_sound [where P = ?P] foldl_positive [OF charge]
        taxes_positive [where P = ?P]) (use lists single party signs in simp_all)
qed

text \<open>
  C23: a sale return of whole paise whose sales, taxes and discounts are not negative, and whose charges, of either sign, leave the party a
  credit that is not negative, posts a voucher whose sides agree: the party's credit and the legs beside it leave the same taxes out. The
  check of \<open>postLegs\<close> refuses it only for having no legs or for a ledger, every leg is above zero, and the rows \<open>insertLegs\<close> writes are
  numbered from 1, each above zero, either side of them the sum of the return's parts to the paisa.
\<close>

theorem buildReturnLegs_post:
  assumes "return_in_range r" and "return_signs r"
  shows "let live = filter (\<lambda>l. num2 (vl_amount l) \<noteq> 0) (buildReturnLegs r) in
    checked_legs resolve h (buildReturnLegs r) =
      (if live = [] then Inl (No_legs (describe h)) else e_bind (resolve live) (\<lambda>ledgers. Inr (zip live ledgers))) \<and>
    list_all (\<lambda>l. 0 < vl_amount l) live \<and>
    (\<forall>ledgers. length ledgers = length live \<longrightarrow> rows_agree (return_side DR r) (insertLegs (zip live ledgers)))"
proof -
  have tally: "legs_tally 1000 (return_side DR r) (return_side DR r) (buildReturnLegs r)"
    using return_tally [OF assms(1)] by (simp add: return_sides_equal [OF assms(2)])
  show ?thesis
    using checked_tally [OF tally order_refl return_side_le [OF assms(1)]] rows_agree_live [OF tally return_side_le [OF assms(1)]] return_legs_positive [OF assms]
    by (simp add: Let_def list_all_iff)
qed

section \<open>Two bills\<close>

text \<open>A bill of 1000 rupees with tax at 18 per cent, freight with its tax, a rebate, a round-off, two tenders and an advance.\<close>

definition sales_bill_sample :: "charge_leg_input \<Rightarrow> bill_leg_input" where
  "sales_bill_sample rebate = \<lparr> li_partyLedgerId = ''party'', li_supplyNature = INTRA, li_salesAmount = rupees 100000,
     li_taxes = [\<lparr> tb_taxId = Some ''gst18'', tb_cgst = rupees 9000, tb_sgst = rupees 9000, tb_igst = 0, tb_cess = 0, tb_acess = 0 \<rparr>],
     li_charges = [\<lparr> ch_ledgerId = Some ''freight'', ch_amount = rupees 10033, ch_separatelyPosted = True, ch_taxId = Some ''gst18'',
         ch_cgst = Some (rupees 903), ch_sgst = Some (rupees 903), ch_igst = None, ch_cess = None, ch_name = Some ''Freight'' \<rparr>, rebate],
     li_cashDiscount = rupees 1000, li_schemeDiscount = 0, li_roundOff = rupees (- 39),
     li_tenders = [\<lparr> tl_tenderTypeId = 1, tl_tenderLedgerId = Some ''cash'', tl_amount = rupees 20000, tl_isLoyalty = False, tl_isCredit = False, tl_name = Some ''Cash'' \<rparr>,
       \<lparr> tl_tenderTypeId = 9, tl_tenderLedgerId = None, tl_amount = rupees 80000, tl_isLoyalty = False, tl_isCredit = True, tl_name = None \<rparr>],
     li_cogsAmount = rupees 70000, li_tcsAmount = 0, li_setOffs = [\<lparr> so_ledgerId = ''advances'', so_amount = rupees 5000, so_remarks = None \<rparr>] \<rparr>"

definition rebate_charge :: "int \<Rightarrow> int \<Rightarrow> charge_leg_input" where
  "rebate_charge v tax = \<lparr> ch_ledgerId = Some ''rebate'', ch_amount = rupees v, ch_separatelyPosted = True, ch_taxId = Some ''gst18'',
     ch_cgst = Some (rupees tax), ch_sgst = None, ch_igst = None, ch_cess = None, ch_name = Some ''Rebate'' \<rparr>"

lemma rupees_paise: "\<bar>k\<bar> \<le> PAISE_LIMIT \<Longrightarrow> to_paise (rupees k) = k" "\<bar>k\<bar> \<le> PAISE_LIMIT \<Longrightarrow> whole_paise (rupees k)"
  using sound_rupees by simp_all

lemmas sample_simps = sales_bill_sample_def rebate_charge_def bill_amounts_def base_amounts_def bucket_amounts_def charge_amounts_def rupees_paise PAISE_LIMIT_def

lemma sample_in_range: "bill_in_range (sales_bill_sample (rebate_charge (- 5000) v))" if "\<bar>v\<bar> \<le> 1000"
  using that by (simp add: bill_in_range_def amounts_in_range_def sample_simps)


definition no_header :: voucher_header where
  "no_header = \<lparr> vh_srcDocType = None, vh_docLabel = None, vh_srcDocId = None, vh_docRefno = None \<rparr>"

lemma describe_no_header: "describe no_header = ''Voucher''"
  by code_simp


definition sample_return :: return_leg_input where
  "sample_return = \<lparr> li_partyLedgerId = ''party'', li_supplyNature = INTER, li_salesAmount = rupees 50000,
     li_taxes = [\<lparr> tb_taxId = None, tb_cgst = 0, tb_sgst = 0, tb_igst = rupees 9000, tb_cess = 0, tb_acess = 0 \<rparr>],
     li_charges = [rebate_charge (- 2550) 459], li_cashDiscount = 0, li_schemeDiscount = rupees 1225, li_roundOff = rupees 25,
     li_tenders = [], li_cogsAmount = rupees 30000 \<rparr>"

lemma buildReturnLegs_post_witness:
  "let live = filter (\<lambda>l. num2 (vl_amount l) \<noteq> 0) (buildReturnLegs sample_return)
   in checked_legs (\<lambda>legs. Inr (map vl_ledgerId legs)) no_header (buildReturnLegs sample_return) =
     (if live = [] then Inl (No_legs ''Voucher'') else Inr (zip live (map vl_ledgerId live))) \<and>
     list_all (\<lambda>l. 0 < vl_amount l) live \<and> rows_agree (return_side DR sample_return) (insertLegs (zip live (map vl_ledgerId live)))"
proof -
  have "return_in_range sample_return" by (simp add: return_in_range_def amounts_in_range_def sample_return_def sample_simps)
  moreover have "return_signs sample_return"
    by (simp add: return_signs_def base_signs_def return_party_paise_def return_charges_def sample_return_def sample_simps)
  ultimately show ?thesis using buildReturnLegs_post [of sample_return "\<lambda>legs. Inr (map vl_ledgerId legs)" no_header] by (simp add: describe_no_header Let_def)
qed

text \<open>
  A deduction that posts on its own with a positive tax: the tax is added to the party's debit and debited once more beside the
  deduction, so the bill is refused as debit heavy by twice the tax.
\<close>

theorem deduction_tax_unbalanced:
  "assertBalanced no_header (buildBillLegs (sales_bill_sample (rebate_charge (- 5000) 900))) =
    Inl (Unbalanced ''Voucher'' (rupees 226639) (rupees 224839) True \<bar>rupees 1800\<bar>)"
proof -
  let ?b = "sales_bill_sample (rebate_charge (- 5000) 900)"
  have range: "bill_in_range ?b" by (rule sample_in_range) simp
  have D: "bill_side DR ?b = 226639" and C: "bill_side CR ?b = 224839"
    by (simp_all add: bill_side_def side_amount_def bill_party_paise_def charge_side_def taxes_paise_def round_side_def tender_paise_def set_off_paise_def
      opposite_side_def rupees_sign sample_simps)
  show ?thesis using assertBalanced_tally [OF buildBillLegs_tally [OF range] order_refl, unfolded D C, of no_header]
    by (simp add: PAISE_LIMIT_def describe_no_header)
qed

text \<open>
  A charge of 14 paise taxed at two and a half per cent twice, to the four places the charge row keeps: the party is debited for the taxes'
  sum, which rounds to a paisa, and neither tax is credited, each rounding to nothing.
\<close>

definition part_paisa_bill :: bill_leg_input where
  "part_paisa_bill = \<lparr> li_partyLedgerId = ''party'', li_supplyNature = INTRA, li_salesAmount = rupees 10000, li_taxes = [],
     li_charges = [\<lparr> ch_ledgerId = Some ''packing'', ch_amount = rupees 14, ch_separatelyPosted = True, ch_taxId = None,
       ch_cgst = Some (fl64 (35 / 10000)), ch_sgst = Some (fl64 (35 / 10000)), ch_igst = None, ch_cess = None, ch_name = None \<rparr>],
     li_cashDiscount = 0, li_schemeDiscount = 0, li_roundOff = 0, li_tenders = [], li_cogsAmount = 0, li_tcsAmount = 0, li_setOffs = [] \<rparr>"

lemma part_paisa_charge:
  fixes x :: rat
  assumes x: "x = fl64 (35 / 10000)"
  shows "near 3010 (num_sum 0 [rupees 14, x, x, 0, 0]) 15" and "num2 x = 0"
proof -
  have s: "\<bar>fl64 v - v\<bar> \<le> STEP" if "\<bar>v\<bar> \<le> 1" for v by (rule binary64.fl_step) (use that in linarith)
  have x': "\<bar>x - 35 / 10000\<bar> \<le> STEP" unfolding x by (rule s) simp
  have r: "\<bar>rupees 14 - 14 / 100\<bar> \<le> STEP" unfolding rupees_def using s [of "14 / 100"] by simp
  define a where "a = fl64 (0 + rupees 14)"
  define b where "b = fl64 (a + x)"
  define c where "c = fl64 (b + x)"
  define d where "d = fl64 (c + 0)"
  have a: "\<bar>a - 14 / 100\<bar> \<le> 2 * STEP" using s [of "0 + rupees 14"] r unfolding a_def STEP_def by linarith
  have b: "\<bar>b - 1435 / 10000\<bar> \<le> 4 * STEP" using s [of "a + x"] a x' unfolding b_def STEP_def by linarith
  have c: "\<bar>c - 147 / 1000\<bar> \<le> 6 * STEP" using s [of "b + x"] b x' unfolding c_def STEP_def by linarith
  have d: "\<bar>d - 147 / 1000\<bar> \<le> 7 * STEP" using s [of "c + 0"] c unfolding d_def STEP_def by linarith
  have "\<bar>fl64 (d + 0) - 147 / 1000\<bar> \<le> 8 * STEP" using s [of "d + 0"] d unfolding STEP_def by linarith
  then have "\<bar>fl64 (d + 0) - of_int 15 / 100\<bar> \<le> of_nat 3010 * STEP" unfolding STEP_def of_int_numeral of_nat_numeral by linarith
  then have "near 3010 (fl64 (d + 0)) 15" by (simp only: near_def)
  then show "near 3010 (num_sum 0 [rupees 14, x, x, 0, 0]) 15" by (simp add: a_def b_def c_def d_def)
  have "\<bar>x - of_int 0 / 100\<bar> \<le> of_nat 3501 * STEP" using x' unfolding STEP_def of_int_0 of_nat_numeral by linarith
  then have "near 3501 x 0" by (simp only: near_def)
  then have "num2 x = rupees 0" unfolding rupees_def by (rule binary64.num_round2_near) (simp_all add: PAISE_LIMIT_def)
  then show "num2 x = 0" using rupees_sign(3) [of 0] by (simp add: PAISE_LIMIT_def)
qed

theorem part_paisa_unbalanced:
  "assertBalanced no_header (buildBillLegs part_paisa_bill) = Inl (Unbalanced ''Voucher'' (rupees 10015) (rupees 10014) True \<bar>rupees 1\<bar>)"
proof -
  have zero: "num2 0 = 0" using num2_zero [OF sound_amount_0] by simp
  let ?x = "fl64 (35 / 10000)"
  let ?ts = "[(0 :: nat, 0 :: rat, 0 :: int), (3010, num_sum 0 [rupees 14, ?x, ?x, 0, 0], 15), (0, 0, 0), (0, 0, 0), (0, 0, 0), (0, 0, 0)]"
  have "near 1 (rupees 10000) 10000" unfolding rupees_def by (rule binary64.near_money) (simp add: PAISE_LIMIT_def)
  then have "near (1 + (\<Sum>t\<leftarrow>?ts. fst t + 1)) (num_sum (rupees 10000) (map (\<lambda>t. fst (snd t)) ?ts)) (10000 + (\<Sum>t\<leftarrow>?ts. snd (snd t)))"
    by (intro binary64.fl_sum_near) (use part_paisa_charge [of ?x] in \<open>simp_all add: PAISE_LIMIT_def near_def\<close>)
  then have "near 3017 (num_sum (rupees 10000) (map (\<lambda>t. fst (snd t)) ?ts)) 10015" by simp
  from binary64.num_round2_near [OF this, folded rupees_def] have "num2 (num_sum (rupees 10000) (map (\<lambda>t. fst (snd t)) ?ts)) = rupees 10015"
    by (simp only: PAISE_LIMIT_def)
  then have party: "billPartyDebit part_paisa_bill = rupees 10015"
    by (simp add: billPartyDebit_def taxes_sum_def part_paisa_bill_def charge_amounts_def)
  have k: "num2 (rupees k) = rupees k" "rupees k = 0 \<longleftrightarrow> k = 0" "0 \<le> rupees k \<longleftrightarrow> 0 \<le> k" "whole_paise (rupees k)" "to_paise (rupees k) = k"
    if "\<bar>k\<bar> \<le> 20000" for k
    using that num2_rupees [of k] rupees_sign [of k] rupees_paise [of k] by (simp_all add: PAISE_LIMIT_def)
  have legs: "legs_tally 3 10015 10014 (buildBillLegs part_paisa_bill)"
    unfolding buildBillLegs_def party
    by (simp add: part_paisa_bill_def push_leg_def pushTaxLegs_def push_bill_charge_def charge_bucket_def bucket_heads_def charge_leg_def
      push_round_off_def buildCogsLegs_def k zero part_paisa_charge(2) legs_tally_def legs_side_def)
  show ?thesis using assertBalanced_tally [OF legs, of no_header] by (simp add: PAISE_LIMIT_def describe_no_header)
qed

end
