(* ===== verification/Sales_Buckets.thy ===== *)
theory Sales_Buckets
  imports Sales_Balance
begin

text \<open>
  The tax buckets of a document (\<open>bucketTaxes\<close>) against what they stand for: for each tax, in the order of its first line, the lines' taxes
  in whole paise. And the register's charges (\<open>splitRegisterCharges\<close>), never negative.
\<close>

section \<open>Buckets by key\<close>

definition row_key :: "tax_row \<Rightarrow> string" where
  "row_key r = or_else (tr_taxId r) ''*''"

definition first_keys :: "tax_row list \<Rightarrow> string list" where
  "first_keys rows = rev (remdups (rev (map row_key rows)))"

text \<open>Each head of a bucket with the tax of a line it counts.\<close>

definition heads :: "((tax_bucket \<Rightarrow> rat) \<times> (tax_row \<Rightarrow> rat)) list" where
  "heads = [(tb_cgst, tr_cgst), (tb_sgst, tr_sgst), (tb_igst, tr_igst), (tb_cess, tr_cess), (tb_acess, \<lambda>r. or_else (tr_acess r) 0)]"

definition row_taxes :: "tax_row \<Rightarrow> rat list" where
  "row_taxes r = map (\<lambda>(h, g). g r) heads"

definition rows_paise :: "tax_row list \<Rightarrow> int" where
  "rows_paise rows = abs_paise (concat (map row_taxes rows))"

text \<open>The paise of one head that the rows of a key add up to, and a whole bucket of it.\<close>

definition head_paise :: "(tax_row \<Rightarrow> rat) \<Rightarrow> string \<Rightarrow> tax_row list \<Rightarrow> int" where
  "head_paise g k rows = (\<Sum>r\<leftarrow>filter (\<lambda>r. row_key r = k) rows. to_paise (g r))"

definition bucket_total :: "string \<Rightarrow> tax_row list \<Rightarrow> rat list" where
  "bucket_total k rows = map (\<lambda>(h, g). rupees (head_paise g k rows)) heads"

lemma bucket_amounts_heads: "bucket_amounts b = map (\<lambda>(h, g). h b) heads"
  by (simp add: bucket_amounts_def heads_def)

lemma row_tax: "(h, g) \<in> set heads \<Longrightarrow> g r \<in> set (row_taxes r)"
  by (force simp: row_taxes_def)

lemma head_add: "(h, g) \<in> set heads \<Longrightarrow> h (add_to_bucket b r) = num_add (h b) (g r)"
  by (auto simp: heads_def add_to_bucket_def)

lemma head_new: "(h, g) \<in> set heads \<Longrightarrow> h \<lparr> tb_taxId = t, tb_cgst = 0, tb_sgst = 0, tb_igst = 0, tb_cess = 0, tb_acess = 0 \<rparr> = 0"
  by (auto simp: heads_def)

lemma head_paise_snoc: "head_paise g k (rows @ [r]) = head_paise g k rows + (if row_key r = k then to_paise (g r) else 0)"
  by (simp add: head_paise_def)

lemma head_paise_none: "k \<notin> set (map row_key rows) \<Longrightarrow> head_paise g k rows = 0"
  by (induction rows) (auto simp: head_paise_def)

lemma head_paise_le:
  assumes "(h, g) \<in> set heads"
  shows "\<bar>head_paise g k rows\<bar> \<le> rows_paise rows"
proof (induction rows)
  case Nil
  then show ?case by (simp add: head_paise_def rows_paise_def)
next
  case (Cons r rows)
  have "\<bar>to_paise (g r)\<bar> \<le> abs_paise (row_taxes r)" using row_tax [OF assms] by (rule abs_paise_member)
  then show ?case using Cons by (auto simp: head_paise_def rows_paise_def)
qed

lemma first_keys_snoc: "first_keys (rows @ [r]) = (if row_key r \<in> set (map row_key rows) then first_keys rows else first_keys rows @ [row_key r])"
  by (simp add: first_keys_def)

lemma jmap_set_keys: "map fst (jmap_set k v m) = (if k \<in> set (map fst m) then map fst m else map fst m @ [k])"
  by (simp add: update_keys)

lemma jmap_set_entry: "distinct (map fst m) \<Longrightarrow> (j, b) \<in> set (jmap_set k v m) \<longleftrightarrow> (if j = k then b = v else (j, b) \<in> set m)"
proof (induction m)
  case (Cons p m)
  obtain i w where p: "p = (i, w)" by (cases p)
  then have "\<And>v. (i, v) \<notin> set m" using Cons.prems by force
  then show ?case using Cons by (auto simp: p)
qed auto

lemma buckets_near:
  assumes "\<forall>r \<in> set rows. \<forall>v \<in> set (row_taxes r). whole_paise v" and "rows_paise rows \<le> PAISE_LIMIT" and "length rows \<le> 1000"
  shows "map fst (foldl bucket_row [] rows) = first_keys rows"
    and "(k, b) \<in> set (foldl bucket_row [] rows) \<Longrightarrow> (h, g) \<in> set heads \<Longrightarrow> near (4 * length rows) (h b) (head_paise g k rows)"
proof -
  have "map fst (foldl bucket_row [] rows) = first_keys rows \<and>
      (\<forall>(k, b) \<in> set (foldl bucket_row [] rows). \<forall>(h, g) \<in> set heads. near (4 * length rows) (h b) (head_paise g k rows))"
    using assms
  proof (induction rows rule: rev_induct)
    case Nil
    then show ?case by (simp add: first_keys_def)
  next
    case (snoc r rows)
    let ?m = "foldl bucket_row [] rows" and ?k = "row_key r"
    let ?new = "\<lparr> tb_taxId = tr_taxId r, tb_cgst = 0, tb_sgst = 0, tb_igst = 0, tb_cess = 0, tb_acess = 0 \<rparr>"
    define v where "v = or_else (jmap_get ?m ?k) ?new"
    have total: "rows_paise (rows @ [r]) = rows_paise rows + abs_paise (row_taxes r)" by (simp add: rows_paise_def)
    then have IH: "map fst ?m = first_keys rows" and near: "\<And>k b h g. (k, b) \<in> set ?m \<Longrightarrow> (h, g) \<in> set heads \<Longrightarrow> near (4 * length rows) (h b) (head_paise g k rows)"
      using snoc.IH snoc.prems abs_paise_nonneg [of "row_taxes r"] by auto
    have m: "foldl bucket_row [] (rows @ [r]) = jmap_set ?k (add_to_bucket v r) ?m" by (simp add: bucket_row_def v_def row_key_def Let_def)
    have distinct: "distinct (map fst ?m)" unfolding IH first_keys_def by simp
    have keys: "set (first_keys rows) = set (map row_key rows)" by (simp add: first_keys_def)
    have v: "near (4 * length rows) (h v) (head_paise g ?k rows)" if h: "(h, g) \<in> set heads" for h g
    proof (cases "jmap_get ?m ?k")
      case None
      then have "?k \<notin> set (map row_key rows)" using IH keys by (metis map_of_eq_None_iff list.set_map)
      then have "head_paise g ?k rows = 0" by (rule head_paise_none)
      moreover have "h v = 0" using None head_new [OF h] by (simp add: v_def)
      ultimately show ?thesis by (simp add: near_def STEP_def)
    next
      case (Some b)
      then show ?thesis using near [OF map_of_SomeD h] by (simp add: v_def)
    qed
    have "near (4 * length (rows @ [r])) (h b) (head_paise g k (rows @ [r]))" if b: "(k, b) \<in> set (foldl bucket_row [] (rows @ [r]))" and h: "(h, g) \<in> set heads" for k b h g
    proof (cases "k = ?k")
      case True
      have "near (4 * length rows + 3 + 1) (num_add (h v) (g r)) (head_paise g ?k rows + to_paise (g r))"
      proof (rule binary64.near_add [OF v [OF h]])
        show "near 3 (g r) (to_paise (g r))" using snoc.prems(1) row_tax [OF h, of r] by (simp add: whole_paise_near)
        show "\<bar>head_paise g ?k rows + to_paise (g r)\<bar> \<le> PAISE_LIMIT"
          using head_paise_le [OF h, of ?k "rows @ [r]"] snoc.prems(2) by (simp add: head_paise_snoc)
        show "4 * length rows + 3 \<le> 1000000" using snoc.prems(3) by simp
      qed
      moreover have "h b = num_add (h v) (g r)" using b [unfolded m jmap_set_entry [OF distinct]] True head_add [OF h] by simp
      ultimately show ?thesis using True by (simp add: head_paise_snoc)
    next
      case False
      then have "(k, b) \<in> set ?m" using b [unfolded m jmap_set_entry [OF distinct]] by simp
      then have "near (4 * length rows) (h b) (head_paise g k rows)" using h by (rule near)
      then have "near (4 * length (rows @ [r])) (h b) (head_paise g k rows)" by (rule near_mono) simp
      then show ?thesis using False by (simp add: head_paise_snoc)
    qed
    moreover have "map fst (foldl bucket_row [] (rows @ [r])) = first_keys (rows @ [r])"
      unfolding m jmap_set_keys IH first_keys_snoc keys ..
    ultimately show ?case by auto
  qed
  then show "map fst (foldl bucket_row [] rows) = first_keys rows"
    and "(k, b) \<in> set (foldl bucket_row [] rows) \<Longrightarrow> (h, g) \<in> set heads \<Longrightarrow> near (4 * length rows) (h b) (head_paise g k rows)" by auto
qed

text \<open>A bucket keeps the tax of its key.\<close>

definition bucket_key :: "tax_bucket \<Rightarrow> string" where
  "bucket_key b = or_else (tb_taxId b) ''*''"

lemma buckets_labelled: "(k, b) \<in> set (foldl bucket_row [] rows) \<Longrightarrow> bucket_key b = k"
proof (induction rows arbitrary: k b rule: rev_induct)
  case (snoc r rows)
  let ?m = "foldl bucket_row [] rows" and ?new = "\<lparr> tb_taxId = tr_taxId r, tb_cgst = 0, tb_sgst = 0, tb_igst = 0, tb_cess = 0, tb_acess = 0 \<rparr>"
  let ?b = "add_to_bucket (or_else (jmap_get ?m (row_key r)) ?new) r"
  have key: "bucket_key ?b = row_key r"
  proof (cases "jmap_get ?m (row_key r)")
    case None
    then show ?thesis by (simp add: bucket_key_def row_key_def add_to_bucket_def)
  next
    case (Some c)
    then show ?thesis using snoc.IH [OF map_of_SomeD] by (simp add: bucket_key_def add_to_bucket_def)
  qed
  have "(k, b) \<in> set (jmap_set (row_key r) ?b ?m)" using snoc.prems unfolding foldl_append foldl.simps bucket_row_def [of ?m] row_key_def Let_def .
  then have "(k, b) = (row_key r, ?b) \<or> (k, b) \<in> set ?m" by (rule jmap_set_member)
  then show ?case using key snoc.IH by auto
qed simp

text \<open>
  C24: the tax buckets of a document's lines, up to a thousand of them with taxes of whole paise: one for each tax, in the order the lines
  name it first, labelled with it, each head the exact paise of its lines' taxes, whatever the doubles in between lose.
\<close>

theorem bucketTaxes_totals:
  assumes "list_all (\<lambda>r. list_all whole_paise (row_taxes r)) rows" and "rows_paise rows \<le> PAISE_LIMIT" and "length rows \<le> 1000"
  shows "map (\<lambda>b. (bucket_key b, bucket_amounts b)) (bucketTaxes rows) = map (\<lambda>k. (k, bucket_total k rows)) (first_keys rows)"
proof -
  let ?m = "foldl bucket_row [] rows"
  let ?round = "\<lambda>b. b\<lparr> tb_cgst := num2 (tb_cgst b), tb_sgst := num2 (tb_sgst b), tb_igst := num2 (tb_igst b), tb_cess := num2 (tb_cess b), tb_acess := num2 (tb_acess b) \<rparr>"
  have whole: "\<forall>r \<in> set rows. \<forall>v \<in> set (row_taxes r). whole_paise v" using assms(1) by (simp add: list_all_iff)
  have rounded: "bucket_amounts (?round b) = bucket_total k rows" if "(k, b) \<in> set ?m" for k b
  proof -
    have "num2 (h b) = rupees (head_paise g k rows)" if h: "(h, g) \<in> set heads" for h g
      using binary64.num_round2_near [OF buckets_near(2) [OF whole assms(2,3) \<open>(k, b) \<in> set ?m\<close> h]] head_paise_le [OF h, of k rows] assms(2,3)
      by (simp add: rupees_def)
    then show ?thesis by (simp add: bucket_total_def bucket_amounts_def heads_def)
  qed
  have label: "bucket_key (?round b) = k" if "(k, b) \<in> set ?m" for k b using buckets_labelled [OF that] by (simp add: bucket_key_def)
  have "map (\<lambda>b. (bucket_key b, bucket_amounts b)) (bucketTaxes rows) = map (\<lambda>(k, b). (bucket_key (?round b), bucket_amounts (?round b))) ?m"
    by (auto simp: bucketTaxes_def)
  also have "\<dots> = map (\<lambda>(k, b). (k, bucket_total k rows)) ?m" using rounded label by auto
  also have "\<dots> = map (\<lambda>k. (k, bucket_total k rows)) (map fst ?m)" by auto
  finally show ?thesis using buckets_near(1) [OF whole assms(2,3)] by simp
qed

text \<open>Three lines of two taxes, the untaxed line among them.\<close>

definition tax_line :: "string option \<Rightarrow> int \<Rightarrow> rat option \<Rightarrow> tax_row" where
  "tax_line t k a = \<lparr> tr_taxId = t, tr_cgst = rupees k, tr_sgst = rupees k, tr_igst = 0, tr_cess = 0, tr_acess = a \<rparr>"

lemma bucketTaxes_totals_witness:
  "map (\<lambda>b. (bucket_key b, bucket_amounts b))
      (bucketTaxes [tax_line (Some ''gst5'') 1010 None, tax_line None 0 None, tax_line (Some ''gst5'') 2033 (Some (rupees 203))]) =
    [(''gst5'', [rupees 3043, rupees 3043, rupees 0, rupees 0, rupees 203]), (''*'', [rupees 0, rupees 0, rupees 0, rupees 0, rupees 0])]"
proof -
  have k: "to_paise (rupees k) = k" "whole_paise (rupees k)" if "\<bar>k\<bar> \<le> 20000" for k
    using that binary64.money_whole [of k] by (simp_all add: rupees_def PAISE_LIMIT_def)
  show ?thesis
    by (subst bucketTaxes_totals) (simp_all add: tax_line_def row_taxes_def rows_paise_def PAISE_LIMIT_def k first_keys_def row_key_def
      bucket_total_def heads_def head_paise_def)
qed

section \<open>The register's charges\<close>

lemma round_even_nonneg: "0 \<le> x \<Longrightarrow> 0 \<le> round_even x"
  by (simp add: round_even_def Let_def)

lemma fl64_nonneg: "0 \<le> x \<Longrightarrow> 0 \<le> fl64 x"
  unfolding fl64_def Let_def using SUBNORMALS_bound(1) by (intro divide_nonneg_pos mult_nonneg_nonneg) (simp_all add: round_even_nonneg)

lemma num2_nonneg: "0 \<le> v \<Longrightarrow> 0 \<le> num2 v"
  unfolding num_round2_def by (intro fl64_nonneg divide_nonneg_pos) (simp_all add: EPSILON_def fl64_nonneg add_increasing2 zero_le_floor)

text \<open>Every register amount is non-negative, whatever the charges' nets.\<close>

theorem splitRegisterCharges_nonneg: "0 \<le> fst (splitRegisterCharges nets)" "0 \<le> snd (splitRegisterCharges nets)"
proof -
  let ?step = "\<lambda>(other, deduction) n. if 0 \<le> n then (num_add other n, deduction) else (other, num_sub deduction n)"
  have "0 \<le> fst (foldl ?step (x, y) nets) \<and> 0 \<le> snd (foldl ?step (x, y) nets)" if "0 \<le> x" "0 \<le> y" for x y
    using that by (induction nets arbitrary: x y) (simp_all add: fl64_nonneg)
  from this [of 0 0] show "0 \<le> fst (splitRegisterCharges nets)" "0 \<le> snd (splitRegisterCharges nets)"
    by (auto simp: splitRegisterCharges_def Let_def case_prod_beta intro: num2_nonneg)
qed

end
