(* ===== verification/Spec2Isabelle.thy ===== *)
theory Spec2Isabelle
  imports Allocation_Properties Voucher_Modes Voucher_Bills Voucher_Gst Purchase_Properties Settlement_Choice Csv_Reader Batch_Number Cheque_Restore
    Settlement_Statement Settlement_Validate Price_Resolver Party_Ageing Sales_Properties Sales_Buckets
begin

text \<open>
  A model of the accounting core of the ERP server under \<open>src/src\<close>: the pure calculations that decide how money is
  booked, with the transactions around them reduced to what they read and write.

  \<^bold>\<open>The parts and how they interact.\<close> A receipt, a payment or a cheque brings money and a list of bills; the allocation
  engine decides which money settles which bill and what stays on account. A voucher screen sends typed lines; the
  derivation turns them into balanced legs, tax, deducted tax, cheques and bill allocations. A purchase invoice is
  priced by the purchase calculation. A cheque is poured into bills through the allocation engine, taken back when it
  bounces, and put back when it is presented again. The settlement matcher pairs the lines of a provider's statement, read
  as CSV by the format of the provider, with the tender rows the vouchers wrote. A sales bill or a return is turned into the legs of its
  voucher, whose sides are checked before it is written. The ageing of what parties owe, the price of a line
  and batch numbers stand alone.

  \<^bold>\<open>Theories.\<close>

  \<^item> \<open>Prelude\<close>: errors as sums, JavaScript's strings, insertion-ordered maps, sums over lists.
  \<^item> \<open>Decimal_Js\<close>: the decimal package (not in the repository) as the record \<open>decimal_js\<close> of its operations, a parameter of
    every definition. The locale \<open>decimal_package\<close> states what decimal.js documents of its default configuration:
    20 significant digits, rounding half up, exact where the result fits. The interpretation \<open>d20\<close> on \<open>decimal20\<close>, an
    executable model with those 20 digits, discharges it, and the witnesses run on it. \<open>Decimal_Places\<close> counts decimal
    places where amounts are not whole paise. \<open>Decimal_Text\<close> holds the locale \<open>decimal_text\<close> of what decimal.js documents of
    \<open>toFixed\<close>, by which texts of rates are compared, and its interpretation \<open>d20_text\<close>.
  \<^item> \<open>Receipt_Utils\<close>: \<open>accountsModule/receipt/receipt.utils.ts\<close> and \<open>ppd-slab.ts\<close>. \<open>Accounts_Types\<close>: the enumerations of
    \<open>receipt/types/receipt-enum.ts\<close>. \<open>Js_Date\<close>: dates as milliseconds, read and printed as ECMAScript does.
  \<^item> \<open>Allocation_Engine\<close>: \<open>receipt/allocation-engine.ts\<close>, one definition per function, in its order. \<open>Allocation_Flow\<close>,
    \<open>Allocation_Reserve\<close>, \<open>Allocation_Sources\<close>, \<open>Allocation_Totals\<close>, \<open>Allocation_Trace\<close> and \<open>Allocation_Correct\<close> relate
    its loops to a flow of money from sources to bills; \<open>Allocation_Outcome\<close> reads the rows, the legs and the refusals off it;
    \<open>Allocation_Properties\<close> holds the properties.
  \<^item> \<open>Voucher_Guards\<close>, \<open>Voucher_Facts\<close>, \<open>Voucher_Lines\<close>, \<open>Voucher_Tax\<close>, \<open>Voucher_Derive\<close>: \<open>vouchers/vouchers.errors.ts\<close>,
    \<open>voucher-facts.ts\<close>, \<open>cheque-book.helper.ts\<close>, \<open>types/vouchers-api.types.ts\<close> and \<open>voucher-derive.ts\<close>.
    \<open>Voucher_Trail\<close>, \<open>Voucher_Shape\<close> and \<open>Voucher_Samples\<close> are the shared lemmas and samples; \<open>Voucher_Balance\<close>,
    \<open>Voucher_Dated\<close>, \<open>Voucher_Bills\<close>, \<open>Voucher_Gst\<close> and \<open>Voucher_Modes\<close> prove the balance, the post-dated vouchers, the bills,
    the tax and the relation of validating to posting.
  \<^item> \<open>Purchase_Calc\<close>: \<open>purchase/common/purchase-calc.ts\<close>; \<open>Purchase_Correct\<close>, \<open>Purchase_Bill\<close>, \<open>Purchase_Credit\<close>, \<open>Purchase_Charges\<close>
    and \<open>Purchase_Gst\<close> follow its columns, \<open>Purchase_Rates\<close> the rows of the breakup by rate; \<open>Purchase_Properties\<close> holds the properties.
  \<^item> \<open>Cheque_Allocation\<close>: \<open>cheques/cheque-allocation.ts\<close> with \<open>assertBillUsable\<close> and \<open>lockBills\<close> of \<open>receipt/receipt.guards.ts\<close>;
    \<open>Cheque_Fifo\<close> (the greedy closed form), \<open>Cheque_Plan\<close> (the engine on one cheque), \<open>Cheque_Properties\<close>.
    \<open>Cheque_Reversal\<close>: \<open>cheques/cheque-reversal.helper.ts\<close>; \<open>Cheque_Bounce\<close> and \<open>Cheque_Restore\<close> prove that a bounce nets to
    nothing and that a second presentation finds what the first one settled.
  \<^item> \<open>Digits\<close> and \<open>Calendar\<close>: numbers as digits, the Gregorian calendar, and \<open>YYYY-MM-DD\<close> texts as days.
  \<^item> \<open>Settlement_Format\<close> and \<open>Settlement_Validate\<close>: \<open>tenderSettlement/settlement-format.ts\<close>, amounts, dates by a pattern, rows and
    payouts, and the check of a format. \<open>Settlement_Dates\<close> and \<open>Settlement_Statement\<close> hold their lemmas and properties.
  \<^item> \<open>Party_Ageing\<close>: \<open>reports/party-outstanding/party-outstanding.ageing.ts\<close>. \<open>Price_Resolver\<close>:
    \<open>Inventory/items-price-master/price-resolver.ts\<close>.
  \<^item> \<open>Number_Js\<close>: JavaScript's numbers as the rationals they are. The locale \<open>number_js\<close> bounds the error of rounding to a number;
    the interpretation \<open>binary64\<close> discharges it for \<open>fl64\<close>, 53 binary digits to nearest, ties to even.
  \<^item> \<open>Sales_Legs\<close>: \<open>sales/posting/sales-leg.sources.ts\<close>, \<open>bucketTaxes\<close> of \<open>sales-doc.utils.ts\<close>, and the checks of a leg list and the leg rows
    of \<open>common/posting/voucher-posting.service.ts\<close>. \<open>Sales_Balance\<close> counts leg lists in paise, \<open>Sales_Rows\<close> the rows written
    from them, whose amounts the database wants positive, \<open>Sales_Properties\<close> proves that a bill
    and a return balance and shows two bills that do not, \<open>Sales_Buckets\<close> the tax buckets.
  \<^item> \<open>Settlement_Match\<close>: \<open>tenderSettlement/settlement-match.ts\<close>; \<open>Settlement_Choice\<close> states which row each line gets.
    \<open>Csv_Reader\<close>: \<open>stocks/stock-voucher/csv.helper.ts\<close>.
    \<open>Batch_Number\<close>: \<open>common/utils/batch-number.util.ts\<close>.

  \<^bold>\<open>How code becomes definitions.\<close> Interfaces are records with the prefix of the type, enumerations are datatypes, a \<open>Map\<close>
  that is iterated is an association list with \<open>jmap_get\<close> and \<open>jmap_set\<close>, in order of insertion, a Decimal is a rational
  that only the operations of \<open>decimal_js\<close> combine, a date is an integer. A throw is \<open>Inl\<close> with the field and the code of its detail; the text of a
  message is left out unless code reads it. Arrays a function mutates are passed and returned. What a transaction reads from the database is an argument,
  an answer of the database that the code does not determine (the rank of texts in its collation, new ids) is a function argument, and the
  rows written are results.

  \<^bold>\<open>What the lemmas show.\<close> Allocation: every bill is settled in full and within its pending amount, every credit is spent, money in
  is money out per voucher and in the rows of each voucher, the loop ends, and what it refuses and accepts is told by the input. Vouchers: debits equal credits
  today and in every post-dated voucher, bills are never overdrawn, the tax legs post the tax reported, a validation foretells the post.
  Purchases: the payable is within half a step of the bill, the tax is in the three credits apart from the tax of free lines, a charge is spread
  in full where a line takes a share of it and is dropped otherwise, and the breakup has one row to a rate. Cheques:
  a cheque that nobody allotted fills the open bills first in, first out; a bounce answers every standing row once; a second presentation
  restores the first. Settlement: no row is settled twice and every match obeys its rule. Each line's verdict is stated in full, with
  the row it gets and why. CSV: what is printed is read back, with a line end after the last row or none.
  Statements: every row is a line or a problem, a date is read as it is spelled or refused, the payouts part the lines, and a format
  stored is read back. Ageing: the SQL and the code agree on the bucket, and overdue days are days of the calendar. Prices: the
  most specific row in force. Sales: the legs of a bill and of a return balance in doubles, when their amounts are whole paise, and so
  do the rows written from them.

  \<^bold>\<open>Bounds and termination.\<close> Paise below 10^18 are exact in 20 digits, so sums are bounded: columns of the allocation by 10^15, the
  total that is split pro rata by the split limit of 40,000,000 (the quotient of a share needs twice the digits), a
  purchase by 10^12. Amounts in JavaScript numbers are within a
  thousand million rupees in all and at most 150 buckets, charges, tenders and set-offs to a bill: every sum is then within four tenths of a paisa of the
  exact one, which rounding to paise removes. Numbers past the largest double, infinities, NaN and negative zero are not reached by them and left out. The inner loop of the engine and the search for a batch number are partial functions into \<open>option\<close>, so that
  not returning is \<open>None\<close>; both are proved to return, the second for batches of at most fifteen digits, which a double
  counts exactly. The tokens of a date pattern shrink the text that is left; every other loop is structural. No fuel is used.

  \<^bold>\<open>Not modelled.\<close> The NestJS services, controllers and DTO classes, whose work is queries, locks and inserts through Prisma or SQL; page
  rendering in floating point; HTTP clients, authentication and the audit log; and of the modelled files the functions that only
  load rows, parse JSON or print results for the wire; of the posting service the headers of vouchers and their money lines.
  Unicode case folding is a parameter of the CSV reader and of the statement formats, and text is ASCII elsewhere; the rounding of a JavaScript number is a parameter of the price resolver. The
  compiled copies under \<open>src/dist\<close> are generated. Two concurrent transactions are not interleaved: the code relies on row
  locks, and each model is one transaction after its locks.
\<close>

end
